(* ===== verification/Prelude.thy ===== *)
theory Prelude
  imports Main "HOL-Library.Word" "HOL-Library.Finite_Map" "HOL-Library.Char_ord"
    "HOL-Library.List_Lexorder" "HOL-Library.Option_ord" "HOL-Library.Product_Lexorder"
begin

text \<open>
  The shared vocabulary of the development.

  \<^item> Rust's \<open>Result<T, E>\<close> is the sum type \<open>'e + 'a\<close> (\<open>Err\<close> is \<open>Inl\<close>, \<open>Ok\<close> is \<open>Inr\<close>);
    the \<open>?\<close> operator is \<open>and_then\<close>, an early return of an error under a condition is
    \<open>ensure\<close>, \<open>collect::<Result<Vec<_>, _>>()\<close> is \<open>traverse\<close>, \<open>Option::transpose\<close> after
    \<open>map\<close> is \<open>opt_traverse\<close>, and a \<open>for\<close> loop whose body may return an error is
    \<open>fold_result\<close>.
  \<^item> A Rust \<open>String\<close> is the list of its UTF-8 bytes (\<open>string\<close>, one \<open>char\<close> per byte), so
    \<open>length\<close> is \<open>String::len\<close>. The scanning functions below work on bytes.
  \<^item> \<open>BTreeMap\<close> is a finite map, \<open>BTreeSet\<close> a set.
  \<^item> Two interfaces used by several components: \<open>codec\<close> (a decoder and the encoder that
    inverts it) and \<open>machine\<close> / \<open>transactional_machine\<close> (a stateful operation with an
    invariant, and one that leaves its state alone when it fails).
\<close>

named_theorems codec_simps \<open>evaluation rules for field maps and their accessors\<close>

section \<open>Names for types\<close>

type_synonym u16 = "16 word"
type_synonym u32 = "32 word"
type_synonym u64 = "64 word"

abbreviation Err :: "'e \<Rightarrow> 'e + 'a" where "Err \<equiv> Inl"
abbreviation Ok :: "'a \<Rightarrow> 'e + 'a" where "Ok \<equiv> Inr"

section \<open>Results\<close>

definition and_then :: "'e + 'a \<Rightarrow> ('a \<Rightarrow> 'e + 'b) \<Rightarrow> 'e + 'b" where
  "and_then m f = (case m of Inl e \<Rightarrow> Inl e | Inr x \<Rightarrow> f x)"

definition ensure :: "bool \<Rightarrow> 'e \<Rightarrow> 'e + unit" where
  "ensure b e = (if b then Inr () else Inl e)"

definition ok_or :: "'a option \<Rightarrow> 'e \<Rightarrow> 'e + 'a" where
  "ok_or x e = (case x of None \<Rightarrow> Inl e | Some y \<Rightarrow> Inr y)"

definition map_err :: "('e \<Rightarrow> 'f) \<Rightarrow> 'e + 'a \<Rightarrow> 'f + 'a" where
  "map_err f m = (case m of Inl e \<Rightarrow> Inl (f e) | Inr x \<Rightarrow> Inr x)"

definition is_ok :: "'e + 'a \<Rightarrow> bool" where
  "is_ok m = (case m of Inl _ \<Rightarrow> False | Inr _ \<Rightarrow> True)"

fun traverse :: "('a \<Rightarrow> 'e + 'b) \<Rightarrow> 'a list \<Rightarrow> 'e + 'b list" where
  "traverse f [] = Inr []"
| "traverse f (x # xs) = and_then (f x) (\<lambda>y. and_then (traverse f xs) (\<lambda>ys. Inr (y # ys)))"

definition opt_traverse :: "('a \<Rightarrow> 'e + 'b) \<Rightarrow> 'a option \<Rightarrow> 'e + 'b option" where
  "opt_traverse f x = (case x of None \<Rightarrow> Inr None | Some y \<Rightarrow> and_then (f y) (\<lambda>z. Inr (Some z)))"

fun fold_result :: "('s \<Rightarrow> 'a \<Rightarrow> 'e + 's) \<Rightarrow> 's \<Rightarrow> 'a list \<Rightarrow> 'e + 's" where
  "fold_result f s [] = Inr s"
| "fold_result f s (x # xs) = and_then (f s x) (\<lambda>s'. fold_result f s' xs)"

definition each :: "('a \<Rightarrow> 'e + unit) \<Rightarrow> 'a list \<Rightarrow> 'e + unit" where
  "each f xs = fold_result (\<lambda>_ x. f x) () xs"

lemma and_then_simps [simp]:
  "and_then (Inl e) f = Inl e"
  "and_then (Inr x) f = f x"
  by (simp_all add: and_then_def)

lemma and_then_eq_Inr [simp]: "and_then m f = Inr y \<longleftrightarrow> (\<exists>x. m = Inr x \<and> f x = Inr y)"
  by (cases m) simp_all

lemma and_then_eq_Inl: "and_then m f = Inl e \<longleftrightarrow> m = Inl e \<or> (\<exists>x. m = Inr x \<and> f x = Inl e)"
  by (cases m) simp_all

lemma and_then_assoc [simp]: "and_then (and_then m f) g = and_then m (\<lambda>x. and_then (f x) g)"
  by (cases m) simp_all

lemma and_then_cong [fundef_cong]:
  "m = m' \<Longrightarrow> (\<And>x. m' = Inr x \<Longrightarrow> f x = g x) \<Longrightarrow> and_then m f = and_then m' g"
  by (cases m') auto

lemma ensure_eq_Inr [simp]: "ensure b e = Inr u \<longleftrightarrow> b"
  by (cases u) (simp add: ensure_def)

lemma ensure_eq_Inl [simp]: "ensure b e = Inl e' \<longleftrightarrow> \<not> b \<and> e' = e"
  by (auto simp: ensure_def)

lemma ensure_True [simp]: "ensure True e = Inr ()"
  by (simp add: ensure_def)

lemma ensure_False [simp]: "ensure False e = Inl e"
  by (simp add: ensure_def)

lemma ok_or_eq_Inr [simp]: "ok_or x e = Inr y \<longleftrightarrow> x = Some y"
  by (cases x) (simp_all add: ok_or_def)

lemma ok_or_eq_Inl [simp]: "ok_or x e = Inl e' \<longleftrightarrow> x = None \<and> e' = e"
  by (cases x) (auto simp: ok_or_def)

lemma ok_or_simps [simp]: "ok_or None e = Inl e" "ok_or (Some y) e = Inr y"
  by (simp_all add: ok_or_def)

lemma map_err_eq_Inr [simp]: "map_err f m = Inr y \<longleftrightarrow> m = Inr y"
  by (cases m) (simp_all add: map_err_def)

lemma map_err_simps [simp]: "map_err f (Inl e) = Inl (f e)" "map_err f (Inr x) = Inr x"
  by (simp_all add: map_err_def)

lemma is_ok_iff: "is_ok m \<longleftrightarrow> (\<exists>x. m = Inr x)"
  by (cases m) (simp_all add: is_ok_def)

lemma is_ok_simps [simp]: "\<not> is_ok (Inl e)" "is_ok (Inr x)"
  by (simp_all add: is_ok_def)

lemma opt_traverse_simps [simp]:
  "opt_traverse f None = Inr None"
  "opt_traverse f (Some x) = and_then (f x) (\<lambda>z. Inr (Some z))"
  by (simp_all add: opt_traverse_def)

lemma opt_traverse_eq_Inr:
  "opt_traverse f x = Inr y \<longleftrightarrow>
     (case x of None \<Rightarrow> y = None | Some v \<Rightarrow> (\<exists>w. f v = Inr w \<and> y = Some w))"
  by (cases x) auto

lemma traverse_cong [fundef_cong]:
  "xs = ys \<Longrightarrow> (\<And>x. x \<in> set ys \<Longrightarrow> f x = g x) \<Longrightarrow> traverse f xs = traverse g ys"
  by (induction ys arbitrary: xs) (auto intro: and_then_cong)

lemma traverse_Inr_length: "traverse f xs = Inr ys \<Longrightarrow> length ys = length xs"
  by (induction xs arbitrary: ys) auto

lemma traverse_Inr_iff:
  "traverse f xs = Inr ys \<longleftrightarrow> list_all2 (\<lambda>x y. f x = Inr y) xs ys"
  by (induction xs arbitrary: ys) (auto simp: list_all2_Cons1)

lemma traverse_Inr_nth:
  "traverse f xs = Inr ys \<Longrightarrow> i < length xs \<Longrightarrow> f (xs ! i) = Inr (ys ! i)"
  by (simp add: traverse_Inr_iff list_all2_conv_all_nth)

lemma traverse_Inr_set: "traverse f xs = Inr ys \<Longrightarrow> x \<in> set xs \<Longrightarrow> \<exists>y \<in> set ys. f x = Inr y"
  by (induction xs arbitrary: ys) auto

lemma traverse_Inr_set2: "traverse f xs = Inr ys \<Longrightarrow> y \<in> set ys \<Longrightarrow> \<exists>x \<in> set xs. f x = Inr y"
  by (induction xs arbitrary: ys) auto

lemma fold_result_append:
  "fold_result f s (xs @ ys) = and_then (fold_result f s xs) (\<lambda>s'. fold_result f s' ys)"
  by (induction xs arbitrary: s) simp_all

lemma each_simps [simp]:
  "each f [] = Inr ()"
  "each f (x # xs) = and_then (f x) (\<lambda>_. each f xs)"
  by (simp_all add: each_def)

lemma each_eq_Inr [simp]: "each f xs = Inr u \<longleftrightarrow> (\<forall>x \<in> set xs. f x = Inr ())"
  by (induction xs) auto

text \<open>An invariant of a loop that may fail: induction over the list of a \<open>fold_result\<close>.\<close>

lemma fold_result_invariant:
  assumes "fold_result f s xs = Inr t" and "P s"
    and "\<And>s x s'. x \<in> set xs \<Longrightarrow> P s \<Longrightarrow> f s x = Inr s' \<Longrightarrow> P s'"
  shows "P t"
  using assms by (induction xs arbitrary: s) auto

section \<open>Codecs\<close>

text \<open>
  The interface of a decoder and its encoder: on the wire values in canonical form, whatever
  decodes is encoded back to the value it came from. The clients are the functions that
  decode a list of values or an optional one, and the uniqueness of decoding.
\<close>

locale codec =
  fixes dec :: "'w \<Rightarrow> 'e + 'a"
    and enc :: "'a \<Rightarrow> 'e + 'w"
    and canon :: "'w \<Rightarrow> bool"
  assumes enc_dec: "canon w \<Longrightarrow> dec w = Inr a \<Longrightarrow> enc a = Inr w"
begin

lemma traverse_enc_dec:
  "list_all canon ws \<Longrightarrow> traverse dec ws = Inr as \<Longrightarrow> traverse enc as = Inr ws"
  by (induction ws arbitrary: as) (auto dest: enc_dec)

lemma opt_enc_dec:
  "pred_option canon w \<Longrightarrow> opt_traverse dec w = Inr a \<Longrightarrow> opt_traverse enc a = Inr w"
  by (cases w) (auto dest: enc_dec)

lemma dec_inject:
  "canon v \<Longrightarrow> canon w \<Longrightarrow> dec v = Inr a \<Longrightarrow> dec w = Inr a \<Longrightarrow> v = w"
  by (drule (1) enc_dec)+ simp

end

section \<open>State machines\<close>

text \<open>
  A stateful operation returns its outcome and the state it leaves behind, on the error
  branches too. \<open>run_machine\<close> applies it to a list of inputs.
\<close>

fun run_machine :: "('s \<Rightarrow> 'i \<Rightarrow> 'o \<times> 's) \<Rightarrow> 's \<Rightarrow> 'i list \<Rightarrow> 'o list \<times> 's" where
  "run_machine step s [] = ([], s)"
| "run_machine step s (i # is) =
     (let (out, s') = step s i; (outs, t) = run_machine step s' is in (out # outs, t))"

fun accepted_inputs :: "('s \<Rightarrow> 'i \<Rightarrow> ('e + 'o) \<times> 's) \<Rightarrow> 's \<Rightarrow> 'i list \<Rightarrow> 'i list" where
  "accepted_inputs step s [] = []"
| "accepted_inputs step s (i # is) =
     (case step s i of
        (Inl e, s') \<Rightarrow> accepted_inputs step s' is
      | (Inr u, s') \<Rightarrow> i # accepted_inputs step s' is)"

lemma run_machine_append:
  "snd (run_machine step s (xs @ ys)) = snd (run_machine step (snd (run_machine step s xs)) ys)"
  by (induction xs arbitrary: s) (simp_all add: split_beta Let_def)

locale machine =
  fixes step :: "'s \<Rightarrow> 'i \<Rightarrow> 'o \<times> 's"
    and inv :: "'s \<Rightarrow> bool"
  assumes step_inv: "inv s \<Longrightarrow> inv (snd (step s i))"
begin

lemma run_inv: "inv s \<Longrightarrow> inv (snd (run_machine step s is))"
  by (induction "is" arbitrary: s) (auto simp: split_beta Let_def dest: step_inv)

lemma run_prefix_inv: "inv s \<Longrightarrow> inv (snd (run_machine step s (take n is)))"
  by (rule run_inv)

end

locale transactional_machine = machine step inv
  for step :: "'s \<Rightarrow> 'i \<Rightarrow> ('e + 'o) \<times> 's" and inv :: "'s \<Rightarrow> bool" +
  assumes err_unchanged: "fst (step s i) = Inl e \<Longrightarrow> snd (step s i) = s"
begin

text \<open>Rejected inputs leave no trace: the run of the accepted inputs alone ends in the same state.\<close>

lemma run_accepted:
  "snd (run_machine step s (accepted_inputs step s is)) = snd (run_machine step s is)"
proof (induction "is" arbitrary: s)
  case Nil
  then show ?case by simp
next
  case (Cons i "is")
  show ?case
  proof (cases "fst (step s i)")
    case (Inl e)
    then have "step s i = (Inl e, s)"
      using err_unchanged [of s i e] by (simp add: prod_eq_iff)
    with Cons show ?thesis by (simp add: split_beta)
  next
    case (Inr u)
    then obtain s' where "step s i = (Inr u, s')"
      by (metis prod.collapse)
    with Cons show ?thesis by (simp add: split_beta Let_def)
  qed
qed

end

section \<open>Bytes and strings\<close>

abbreviation byte :: "char \<Rightarrow> nat" where "byte c \<equiv> of_char c"

definition is_ascii_digit :: "char \<Rightarrow> bool" where
  "is_ascii_digit c \<longleftrightarrow> 48 \<le> byte c \<and> byte c \<le> 57"

definition is_ascii_lowercase :: "char \<Rightarrow> bool" where
  "is_ascii_lowercase c \<longleftrightarrow> 97 \<le> byte c \<and> byte c \<le> 122"

definition is_ascii_alphanumeric :: "char \<Rightarrow> bool" where
  "is_ascii_alphanumeric c \<longleftrightarrow>
     is_ascii_digit c \<or> is_ascii_lowercase c \<or> 65 \<le> byte c \<and> byte c \<le> 90"

definition is_lower_hex :: "char \<Rightarrow> bool" where
  "is_lower_hex c \<longleftrightarrow> is_ascii_digit c \<or> 97 \<le> byte c \<and> byte c \<le> 102"

text \<open>
  \<open>chars().any(char::is_control)\<close> on the UTF-8 bytes of a string: the control characters are
  U+0000 to U+001F, U+007F, and U+0080 to U+009F, which UTF-8 writes as the byte C2 followed
  by a byte from 80 to 9F (C2 is a lead byte and never a continuation byte).
\<close>

fun has_control :: "string \<Rightarrow> bool" where
  "has_control [] = False"
| "has_control (c # cs) =
     (byte c < 32 \<or> byte c = 127 \<or>
      byte c = 194 \<and> (case cs of [] \<Rightarrow> False | d # _ \<Rightarrow> 128 \<le> byte d \<and> byte d < 160) \<or>
      has_control cs)"

abbreviation LF :: char where "LF \<equiv> CHR 0x0A"
abbreviation CR :: char where "CR \<equiv> CHR 0x0D"
abbreviation NUL :: char where "NUL \<equiv> CHR 0x00"

fun strip_prefix :: "string \<Rightarrow> string \<Rightarrow> string option" where
  "strip_prefix [] s = Some s"
| "strip_prefix (p # ps) [] = None"
| "strip_prefix (p # ps) (c # cs) = (if p = c then strip_prefix ps cs else None)"

definition strip_suffix :: "string \<Rightarrow> string \<Rightarrow> string option" where
  "strip_suffix p s = map_option rev (strip_prefix (rev p) (rev s))"

definition starts_with :: "string \<Rightarrow> string \<Rightarrow> bool" where
  "starts_with p s \<longleftrightarrow> strip_prefix p s \<noteq> None"

definition ends_with :: "string \<Rightarrow> string \<Rightarrow> bool" where
  "ends_with p s \<longleftrightarrow> strip_suffix p s \<noteq> None"

text \<open>\<open>str::split(c)\<close> for a one-byte separator, and \<open>str::split_terminator(c)\<close>, which drops the
  last piece when it is empty.\<close>

fun split_char :: "char \<Rightarrow> string \<Rightarrow> string list" where
  "split_char c [] = [[]]"
| "split_char c (x # xs) =
     (if x = c then [] # split_char c xs
      else (case split_char c xs of [] \<Rightarrow> [[x]] | p # ps \<Rightarrow> (x # p) # ps))"

lemma split_char_field: "c \<notin> set l \<Longrightarrow> split_char c (l @ c # s) = l # split_char c s"
  by (induction l) auto

lemma split_char_last: "c \<notin> set l \<Longrightarrow> split_char c l = [l]"
  by (induction l) auto

definition split_terminator :: "char \<Rightarrow> string \<Rightarrow> string list" where
  "split_terminator c s =
     (let ps = split_char c s in if last ps = [] then butlast ps else ps)"

text \<open>\<open>str::split_once(p)\<close> for a non-empty pattern: at the first occurrence.\<close>

fun split_once :: "string \<Rightarrow> string \<Rightarrow> (string \<times> string) option" where
  "split_once p [] = None"
| "split_once p (c # cs) =
     (case strip_prefix p (c # cs) of
        Some rest \<Rightarrow> Some ([], rest)
      | None \<Rightarrow> map_option (\<lambda>(a, b). (c # a, b)) (split_once p cs))"

definition rsplit_once :: "string \<Rightarrow> string \<Rightarrow> (string \<times> string) option" where
  "rsplit_once p s = map_option (\<lambda>(a, b). (rev b, rev a)) (split_once (rev p) (rev s))"

lemma strip_prefix_Some [simp]: "strip_prefix p s = Some r \<longleftrightarrow> s = p @ r"
  by (induction p s rule: strip_prefix.induct) auto

lemma strip_prefix_append [simp]: "strip_prefix p (p @ r) = Some r"
  by simp

lemma strip_suffix_Some [simp]: "strip_suffix p s = Some r \<longleftrightarrow> s = r @ p"
  by (auto simp: strip_suffix_def rev_swap)

lemma starts_with_iff: "starts_with p s \<longleftrightarrow> (\<exists>r. s = p @ r)"
  by (auto simp: starts_with_def)

lemma ends_with_iff: "ends_with p s \<longleftrightarrow> (\<exists>r. s = r @ p)"
  by (auto simp: ends_with_def)

lemma has_control_append_left: "has_control s \<Longrightarrow> has_control (s @ t)"
proof (induction s rule: has_control.induct)
  case (2 c cs)
  then show ?case by (cases cs) auto
qed simp

lemma has_control_append_right: "has_control t \<Longrightarrow> has_control (s @ t)"
  by (induction s) auto

lemma no_control_LF: "\<not> has_control s \<Longrightarrow> LF \<notin> set s \<and> CR \<notin> set s \<and> NUL \<notin> set s"
  by (induction s) auto

section \<open>Finite maps as field maps\<close>

text \<open>
  A value stored under a key that is absent is read back by dropping it again, and stores and
  drops at different keys commute: the facts every field-by-field codec needs.
\<close>

lemma fmupd_fmdrop_lookup: "fmlookup m k = Some v \<Longrightarrow> fmupd k v (fmdrop k m) = m"
  by (rule fmap_ext) auto

lemma fmlookup_fmdrop_other [simp]: "k \<noteq> k' \<Longrightarrow> fmlookup (fmdrop k' m) k = fmlookup m k"
  by simp

lemma fmap_eqI: "(\<And>k. fmlookup m k = fmlookup n k) \<Longrightarrow> m = n"
  by (rule fmap_ext)

text \<open>\<open>values().any(P)\<close> on a map, and the sum of a measure over its values.\<close>

definition any_value :: "('v \<Rightarrow> bool) \<Rightarrow> ('k, 'v) fmap \<Rightarrow> bool" where
  "any_value P m \<longleftrightarrow> \<not> fmpred (\<lambda>_ v. \<not> P v) m"

definition fmsum :: "('v \<Rightarrow> nat) \<Rightarrow> ('k, 'v) fmap \<Rightarrow> nat" where
  "fmsum f m = (\<Sum>k \<in> fmdom' m. f (the (fmlookup m k)))"

lemma any_value_iff: "any_value P m \<longleftrightarrow> (\<exists>k v. fmlookup m k = Some v \<and> P v)"
  by (auto simp: any_value_def fmpred_iff)

lemma fmsum_empty [simp]: "fmsum f fmempty = 0"
  by (simp add: fmsum_def)

lemma fmsum_fmupd:
  "fmsum f (fmupd k v m) = f v + (\<Sum>j \<in> fmdom' m - {k}. f (the (fmlookup m j)))"
proof -
  have "fmsum f (fmupd k v m) = f v + (\<Sum>j \<in> fmdom' m - {k}. f (the (fmlookup (fmupd k v m) j)))"
    by (simp add: fmsum_def sum.insert_remove)
  also have "(\<Sum>j \<in> fmdom' m - {k}. f (the (fmlookup (fmupd k v m) j))) =
      (\<Sum>j \<in> fmdom' m - {k}. f (the (fmlookup m j)))"
    by (rule sum.cong) auto
  finally show ?thesis .
qed

lemma fmsum_fmupd_new: "fmlookup m k = None \<Longrightarrow> fmsum f (fmupd k v m) = f v + fmsum f m"
  by (simp add: fmsum_fmupd fmdom'_notI) (simp add: fmsum_def)

lemma fmsum_fmupd_old:
  assumes "fmlookup m k = Some w"
  shows "fmsum f (fmupd k v m) + f w = fmsum f m + f v"
proof -
  have "k \<in> fmdom' m" using assms by (rule fmdom'I)
  then have "fmsum f m = f w + (\<Sum>j \<in> fmdom' m - {k}. f (the (fmlookup m j)))"
    using assms by (simp add: fmsum_def sum.remove)
  then show ?thesis by (simp add: fmsum_fmupd)
qed

lemma fcard_fempty_0 [simp]: "fcard {||} = 0"
  by (simp add: fcard.rep_eq)

lemma fcard_fmupd_new: "fmlookup m k = None \<Longrightarrow> fcard (fmdom (fmupd k v m)) = Suc (fcard (fmdom m))"
  by (simp add: fcard_finsert_disjoint fmdom_notI)

lemma fmdom_fmupd_old: "fmlookup m k = Some w \<Longrightarrow> fmdom (fmupd k v m) = fmdom m"
  by (auto simp: fmdomI)

lemma sorted_list_of_fmap_member: "(k, v) \<in> set (sorted_list_of_fmap m) \<longleftrightarrow> fmlookup m k = Some v"
  by (auto simp: sorted_list_of_fmap_def fmlookup_dom_iff fmdomI)

section \<open>Checked arithmetic\<close>

text \<open>\<open>u64::checked_add\<close> and \<open>u64::checked_sub\<close>, with their meaning on natural numbers.\<close>

definition checked_add :: "u64 \<Rightarrow> u64 \<Rightarrow> u64 option" where
  "checked_add a b = (if a \<le> a + b then Some (a + b) else None)"

definition checked_sub :: "u64 \<Rightarrow> u64 \<Rightarrow> u64 option" where
  "checked_sub a b = (if b \<le> a then Some (a - b) else None)"

lemma checked_add_Some: "checked_add a b = Some c \<longleftrightarrow> unat c = unat a + unat b"
  unfolding checked_add_def by (metis no_olen_add_nat option.distinct(1) option.inject unat_plus_simple unsigned_less word_unat_eq_iff)

lemma u64_less: "unat (a :: u64) < 2 ^ 64"
  using unsigned_less [of a] by simp

lemma checked_add_None: "checked_add a b = None \<longleftrightarrow> 2 ^ 64 \<le> unat a + unat b"
proof
  assume none: "checked_add a b = None"
  show "2 ^ 64 \<le> unat a + unat b"
  proof (rule ccontr)
    assume "\<not> 2 ^ 64 \<le> unat a + unat b"
    then have "checked_add a b = Some (of_nat (unat a + unat b))"
      unfolding checked_add_Some by (simp add: unat_of_nat del: of_nat_add)
    with none show False by simp
  qed
next
  assume le: "2 ^ 64 \<le> unat a + unat b"
  show "checked_add a b = None"
  proof (cases "checked_add a b")
    case (Some c)
    then show ?thesis using le u64_less [of c] by (simp add: checked_add_Some)
  qed
qed

lemma checked_sub_Some: "checked_sub a b = Some c \<longleftrightarrow> unat a = unat b + unat c"
  unfolding checked_sub_def by (auto simp: unat_sub word_le_nat_alt word_unat_eq_iff)

end
