(* ===== verification/Json.thy ===== *)
theory Json
  imports Prelude
begin

text \<open>
  The JSON values of the \<open>serde_json\<close> crate as the gateway uses them: the value type, its
  accessors (\<open>get\<close>, \<open>as_str\<close>, \<open>as_u64\<close>, \<dots>) and object maps. The crate is built with
  \<open>arbitrary_precision\<close>, so a number is its literal text. Parsing and printing of whole
  documents stay parameters of the definitions that need them.

  The gateway's own field helpers of \<open>src/src/ir/responses.rs\<close> (\<open>take\<close>, \<open>string\<close>, \<open>put\<close>,
  \<dots>) build on these and live in the theory \<open>Responses_Codec\<close>.
\<close>

datatype json =
    JNull
  | JBool bool
  | JNumber string
  | JString string
  | JArray "json list"
  | JObject "(string, json) fmap"

type_synonym fields = "(string, json) fmap"

abbreviation no_fields :: fields where "no_fields \<equiv> fmempty"

definition obj :: "(string \<times> json) list \<Rightarrow> json" where
  "obj kvs = JObject (fmap_of_list kvs)"

section \<open>Accessors\<close>

fun jget :: "json \<Rightarrow> string \<Rightarrow> json option" where
  "jget (JObject m) k = fmlookup m k"
| "jget _ k = None"

fun as_str :: "json \<Rightarrow> string option" where
  "as_str (JString s) = Some s"
| "as_str _ = None"

fun as_bool :: "json \<Rightarrow> bool option" where
  "as_bool (JBool b) = Some b"
| "as_bool _ = None"

fun as_array :: "json \<Rightarrow> json list option" where
  "as_array (JArray xs) = Some xs"
| "as_array _ = None"

fun as_object :: "json \<Rightarrow> fields option" where
  "as_object (JObject m) = Some m"
| "as_object _ = None"

fun is_null :: "json \<Rightarrow> bool" where
  "is_null JNull = True"
| "is_null _ = False"

definition is_string :: "json \<Rightarrow> bool" where
  "is_string v \<longleftrightarrow> as_str v \<noteq> None"

definition is_object :: "json \<Rightarrow> bool" where
  "is_object v \<longleftrightarrow> as_object v \<noteq> None"

text \<open>\<open>value.get(key).and_then(Value::as_str)\<close>, the way the gateway reads discriminators.\<close>

definition str_at :: "json \<Rightarrow> string \<Rightarrow> string option" where
  "str_at v k = Option.bind (jget v k) as_str"

section \<open>Numbers\<close>

text \<open>
  \<open>as_u64\<close> parses the literal as \<open>u64::from_str\<close> does: an optional \<open>+\<close>, at least one digit,
  nothing but digits, no overflow. \<open>u64_text\<close> is the decimal literal of \<open>Value::from(u64)\<close>.
\<close>

fun digits_value :: "nat \<Rightarrow> string \<Rightarrow> nat option" where
  "digits_value acc [] = Some acc"
| "digits_value acc (c # cs) =
     (if is_ascii_digit c then digits_value (10 * acc + (byte c - 48)) cs else None)"

definition parse_u64 :: "string \<Rightarrow> u64 option" where
  "parse_u64 s =
     (let t = (case s of [] \<Rightarrow> [] | c # cs \<Rightarrow> if c = CHR ''+'' then cs else s)
      in if t = [] then None
         else case digits_value 0 t of
                None \<Rightarrow> None
              | Some n \<Rightarrow> if n < 2 ^ 64 then Some (of_nat n) else None)"

fun as_u64 :: "json \<Rightarrow> u64 option" where
  "as_u64 (JNumber s) = parse_u64 s"
| "as_u64 _ = None"

definition digit_char :: "nat \<Rightarrow> char" where
  "digit_char d = char_of (48 + d)"

fun nat_text :: "nat \<Rightarrow> string" where
  "nat_text n = (if n < 10 then [digit_char n] else nat_text (n div 10) @ [digit_char (n mod 10)])"

declare nat_text.simps [simp del]

definition u64_text :: "u64 \<Rightarrow> string" where
  "u64_text n = nat_text (unat n)"

definition json_u64 :: "u64 \<Rightarrow> json" where
  "json_u64 n = JNumber (u64_text n)"

text \<open>The integer literals of the JSON grammar without sign: no leading zero.\<close>

definition natural_literal :: "string \<Rightarrow> bool" where
  "natural_literal s \<longleftrightarrow> s \<noteq> [] \<and> list_all is_ascii_digit s \<and> (hd s = CHR ''0'' \<longrightarrow> s = ''0'')"

lemma byte_digit_char [simp]: "d < 10 \<Longrightarrow> byte (digit_char d) = 48 + d"
  by (simp add: digit_char_def)

lemma is_ascii_digit_digit_char [simp]: "d < 10 \<Longrightarrow> is_ascii_digit (digit_char d)"
  by (simp add: is_ascii_digit_def)

lemma digit_char_byte: "is_ascii_digit c \<Longrightarrow> digit_char (byte c - 48) = c"
  by (simp add: digit_char_def is_ascii_digit_def)

lemma digit_char_0: "digit_char 0 = CHR ''0''"
  by (simp add: digit_char_def char_of_eq_iff)

lemma digits_value_append:
  "digits_value a (xs @ ys) = Option.bind (digits_value a xs) (\<lambda>b. digits_value b ys)"
  by (induction a xs rule: digits_value.induct) auto

lemma nat_text_not_Nil [simp]: "nat_text n \<noteq> []"
  by (subst nat_text.simps) simp

lemma nat_text_digits: "list_all is_ascii_digit (nat_text n)"
proof (induction n rule: nat_text.induct)
  case (1 n)
  then show ?case
    by (cases "n < 10") (simp_all add: nat_text.simps [of n])
qed

lemma digits_value_nat_text: "digits_value 0 (nat_text n) = Some n"
proof (induction n rule: nat_text.induct)
  case (1 n)
  then show ?case
    by (cases "n < 10") (simp_all add: nat_text.simps [of n] digits_value_append)
qed

lemma hd_nat_text_not_plus: "hd (nat_text n) \<noteq> CHR ''+''"
  using nat_text_digits [of n] nat_text_not_Nil [of n]
  by (cases "nat_text n") (auto simp: is_ascii_digit_def)

lemma parse_u64_text [simp]: "parse_u64 (u64_text n) = Some n"
proof -
  obtain c cs where t: "u64_text n = c # cs" and c: "c \<noteq> CHR ''+''"
    using hd_nat_text_not_plus [of "unat n"] nat_text_not_Nil [of "unat n"]
    by (cases "nat_text (unat n)") (auto simp: u64_text_def)
  have "digits_value 0 (c # cs) = Some (unat n)"
    using digits_value_nat_text [of "unat n"] t by (simp add: u64_text_def)
  moreover have "unat n < 2 ^ 64"
    using unsigned_less [of n] by simp
  ultimately show ?thesis
    using c by (simp add: parse_u64_def t Let_def del: digits_value.simps)
qed

lemma as_u64_json_u64 [simp]: "as_u64 (json_u64 n) = Some n"
  by (simp add: json_u64_def)

text \<open>Conversely a literal of the JSON grammar is the text of its value.\<close>

lemma digits_value_mono: "digits_value a s = Some n \<Longrightarrow> a \<le> n"
  by (induction a s rule: digits_value.induct) (auto split: if_splits)

lemma nat_text_snoc: "0 < n \<Longrightarrow> d < 10 \<Longrightarrow> nat_text (10 * n + d) = nat_text n @ [digit_char d]"
  by (subst nat_text.simps) simp

lemma nat_text_digits_value:
  "0 < a \<Longrightarrow> digits_value a s = Some n \<Longrightarrow> nat_text n = nat_text a @ s"
proof (induction a s rule: digits_value.induct)
  case (2 acc c cs)
  then have c: "is_ascii_digit c" and "byte c - 48 < 10"
    and IH: "nat_text n = nat_text (10 * acc + (byte c - 48)) @ cs"
    by (auto split: if_splits simp: is_ascii_digit_def)
  then show ?case
    using 2(2) by (simp add: nat_text_snoc digit_char_byte)
qed simp

lemma nat_text_natural_literal:
  assumes "natural_literal s" and "digits_value 0 s = Some n"
  shows "nat_text n = s"
proof (cases s)
  case Nil
  with assms show ?thesis by (simp add: natural_literal_def)
next
  case (Cons c cs)
  show ?thesis
  proof (cases "c = CHR ''0''")
    case True
    with assms Cons have "s = ''0''" by (simp add: natural_literal_def)
    with assms show ?thesis
      by (simp add: nat_text.simps is_ascii_digit_def digit_char_0)
  next
    case False
    have c: "is_ascii_digit c" using assms Cons by (simp add: natural_literal_def)
    with False have "byte c \<noteq> 48"
      using digit_char_byte [OF c] digit_char_0 by auto
    then have pos: "0 < byte c - 48" and lt: "byte c - 48 < 10"
      using c by (auto simp: is_ascii_digit_def)
    have "digits_value (byte c - 48) cs = Some n"
      using assms(2) Cons c by simp
    with pos have "nat_text n = nat_text (byte c - 48) @ cs"
      by (rule nat_text_digits_value)
    then show ?thesis
      using lt c Cons by (simp add: nat_text.simps [of "byte c - 48"] digit_char_byte)
  qed
qed

lemma json_u64_as_u64:
  assumes "natural_literal s" and "parse_u64 s = Some n"
  shows "json_u64 n = JNumber s"
proof -
  from assms(1) obtain c cs where s: "s = c # cs" and "is_ascii_digit c"
    by (cases s) (auto simp: natural_literal_def)
  then have "c \<noteq> CHR ''+''" by (auto simp: is_ascii_digit_def)
  with assms(2) s obtain m where m: "digits_value 0 s = Some m" "m < 2 ^ 64" "n = of_nat m"
    by (auto simp: parse_u64_def Let_def split: option.splits if_splits)
  then have "unat n = m"
    by (simp add: unat_of_nat)
  with m(1) assms(1) show ?thesis
    by (simp add: json_u64_def u64_text_def nat_text_natural_literal)
qed

section \<open>Simplification of accessors\<close>

lemma as_str_Some [simp]: "as_str v = Some s \<longleftrightarrow> v = JString s"
  by (cases v) auto

lemma as_bool_Some [simp]: "as_bool v = Some b \<longleftrightarrow> v = JBool b"
  by (cases v) auto

lemma as_array_Some [simp]: "as_array v = Some xs \<longleftrightarrow> v = JArray xs"
  by (cases v) auto

lemma as_object_Some [simp]: "as_object v = Some m \<longleftrightarrow> v = JObject m"
  by (cases v) auto

lemma is_null_iff [simp]: "is_null v \<longleftrightarrow> v = JNull"
  by (cases v) auto

lemma is_string_iff: "is_string v \<longleftrightarrow> (\<exists>s. v = JString s)"
  by (cases v) (auto simp: is_string_def)

lemma is_object_iff: "is_object v \<longleftrightarrow> (\<exists>m. v = JObject m)"
  by (cases v) (auto simp: is_object_def)

lemma jget_Some: "jget v k = Some x \<longleftrightarrow> (\<exists>m. v = JObject m \<and> fmlookup m k = Some x)"
  by (cases v) auto

lemma str_at_Some: "str_at v k = Some s \<longleftrightarrow> (\<exists>m. v = JObject m \<and> fmlookup m k = Some (JString s))"
  by (cases v) (auto simp: str_at_def bind_eq_Some_conv)

lemma str_at_JObject [simp]: "str_at (JObject m) k = Option.bind (fmlookup m k) as_str"
  by (simp add: str_at_def)

end
