(* ===== verification/Ir_Base.thy ===== *)
theory Ir_Base
  imports Json
begin

text \<open>
  The vocabulary of \<open>src/src/ir/mod.rs\<close>: protocols, the error type, the validated
  identifiers (\<open>ItemId\<close>, \<open>CallId\<close>, \<open>ResponseId\<close>) and tool identities with their derived
  order.
\<close>

datatype api_protocol = Responses | Messages | ChatCompletions | GeminiInteractions | Plugin

definition VERSION :: u16 where "VERSION = 1"

datatype ir_error =
    InvalidField string
  | InvalidIdentifier
  | UnsupportedVersion
  | UnsupportedFeature
  | UnsupportedExtension
  | ExtensionConflict
  | WrongProtocol
  | UnboundOpaqueState
  | ContinuityMismatch
  | DuplicateId
  | InvalidToolMapping
  | InvalidJsonArguments
  | InvalidEventOrder
  | UnknownItem
  | SizeLimit

section \<open>Identifiers\<close>

text \<open>The constructor check shared by the three identifier types (the macro \<open>identity!\<close>).\<close>

definition identity_ok :: "string \<Rightarrow> bool" where
  "identity_ok value \<longleftrightarrow> \<not> (value = [] \<or> length value > 512 \<or> has_control value)"

datatype item_id = ItemId string
datatype call_id = CallId string
datatype response_id = ResponseId string

definition item_id_new :: "string \<Rightarrow> ir_error + item_id" where
  "item_id_new value = (if \<not> identity_ok value then Err InvalidIdentifier else Ok (ItemId value))"

definition call_id_new :: "string \<Rightarrow> ir_error + call_id" where
  "call_id_new value = (if \<not> identity_ok value then Err InvalidIdentifier else Ok (CallId value))"

definition response_id_new :: "string \<Rightarrow> ir_error + response_id" where
  "response_id_new value =
     (if \<not> identity_ok value then Err InvalidIdentifier else Ok (ResponseId value))"

fun item_id_str :: "item_id \<Rightarrow> string" where "item_id_str (ItemId s) = s"
fun call_id_str :: "call_id \<Rightarrow> string" where "call_id_str (CallId s) = s"
fun response_id_str :: "response_id \<Rightarrow> string" where "response_id_str (ResponseId s) = s"

section \<open>Tools\<close>

datatype tool_identity = ToolIdentity (namespace: "string option") (tool_name: string)

datatype tool_kind = FunctionKind | CustomKind

definition tool_identity_validate :: "tool_identity \<Rightarrow> ir_error + unit" where
  "tool_identity_validate t =
     and_then (item_id_new (tool_name t)) (\<lambda>_.
       case namespace t of
         Some value \<Rightarrow> and_then (item_id_new value) (\<lambda>_. Ok ())
       | None \<Rightarrow> Ok ())"

definition tool_identity_new :: "string option \<Rightarrow> string \<Rightarrow> ir_error + tool_identity" where
  "tool_identity_new ns name =
     (let result = ToolIdentity ns name
      in and_then (tool_identity_validate result) (\<lambda>_. Ok result))"

text \<open>
  The order that \<open>derive(PartialOrd, Ord)\<close> gives a tool identity: first the namespace, with
  \<open>None\<close> first, then the name; it is the iteration order of the maps keyed by identities.
\<close>

instantiation tool_identity :: linorder
begin

definition less_eq_tool_identity :: "tool_identity \<Rightarrow> tool_identity \<Rightarrow> bool" where
  "less_eq_tool_identity a b \<longleftrightarrow> (namespace a, tool_name a) \<le> (namespace b, tool_name b)"

definition less_tool_identity :: "tool_identity \<Rightarrow> tool_identity \<Rightarrow> bool" where
  "less_tool_identity a b \<longleftrightarrow> (namespace a, tool_name a) < (namespace b, tool_name b)"

instance
proof
  fix x y z :: tool_identity
  show "(x < y) = (x \<le> y \<and> \<not> y \<le> x)"
    by (auto simp: less_eq_tool_identity_def less_tool_identity_def)
  show "x \<le> x" by (simp add: less_eq_tool_identity_def)
  show "x \<le> y \<Longrightarrow> y \<le> z \<Longrightarrow> x \<le> z"
    unfolding less_eq_tool_identity_def by (rule order_trans)
  show "x \<le> y \<Longrightarrow> y \<le> x \<Longrightarrow> x = y"
    by (auto simp: less_eq_tool_identity_def tool_identity.expand dest: antisym)
  show "x \<le> y \<or> y \<le> x"
    unfolding less_eq_tool_identity_def by (rule linear)
qed

end

section \<open>Facts\<close>

lemma item_id_new_Ok [simp]: "item_id_new s = Ok i \<longleftrightarrow> identity_ok s \<and> i = ItemId s"
  by (auto simp: item_id_new_def)

lemma call_id_new_Ok [simp]: "call_id_new s = Ok i \<longleftrightarrow> identity_ok s \<and> i = CallId s"
  by (auto simp: call_id_new_def)

lemma tool_identity_validate_Ok:
  "tool_identity_validate t = Ok u \<longleftrightarrow> identity_ok (tool_name t) \<and> pred_option identity_ok (namespace t)"
  by (auto simp: tool_identity_validate_def split: option.splits)

lemma tool_identity_new_Ok [simp]:
  "tool_identity_new ns n = Ok t \<longleftrightarrow> t = ToolIdentity ns n \<and> identity_ok n \<and> pred_option identity_ok ns"
  by (auto simp: tool_identity_new_def tool_identity_validate_Ok Let_def)

lemma tool_identity_validate_errors:
  "tool_identity_validate t = Err e \<Longrightarrow> e = InvalidIdentifier"
  by (auto simp: tool_identity_validate_def item_id_new_def split: option.splits if_splits)

end
