(* ===== verification/Ir_Event.thy ===== *)
theory Ir_Event
  imports Ir_Base
begin

text \<open>
  The output event validator of \<open>src/src/ir/event.rs\<close>: the event alphabet, the validator
  state, one definition per arm of \<open>EventValidator::apply\<close> and the dispatch. A handler
  returns its result together with the state it leaves, and performs the source's field
  updates in the source's order, so that "a rejected event leaves the prior state unchanged"
  is a property to prove. Whether a string is a JSON document is decided by \<open>serde_json\<close>;
  it is the parameter \<open>json_ok\<close>.
\<close>

section \<open>Events and state\<close>

type_synonym output_index = u32
type_synonym content_index = u32

datatype output_kind = Message | Reasoning | Tool tool_identity call_id tool_kind
datatype event_part_kind = Text | ReasoningText
datatype terminal = Completed | Incomplete | Failed | Cancelled | TransportLost

record usage =
  input_tokens :: "u64 option"
  output_tokens :: "u64 option"

datatype event_ir =
    Started response_id
  | ItemStarted item_id output_index output_kind
  | PartStarted item_id content_index event_part_kind
  | TextDelta item_id content_index string
  | PartFinished item_id content_index
  | ArgumentsDelta item_id string
  | ItemFinished item_id
  | UsageUpdated usage
  | Finished terminal "string option"

record part_state =
  part_open :: bool

record item_state =
  item_kind :: output_kind
  item_open :: bool
  item_parts :: "(content_index, part_state) fmap"
  item_arguments :: string

record event_limits =
  max_items :: nat
  max_parts :: nat
  max_delta_bytes :: nat
  max_argument_bytes :: nat

definition default_limits :: event_limits where
  "default_limits =
     \<lparr>max_items = 4096, max_parts = 16384, max_delta_bytes = 1024 * 1024,
      max_argument_bytes = 8 * 1024 * 1024\<rparr>"

record event_validator =
  ev_started :: bool
  ev_terminal :: "terminal option"
  ev_terminal_reason :: "string option"
  ev_items :: "(item_id, item_state) fmap"
  ev_indices :: "output_index set"
  ev_calls :: "call_id set"
  ev_parts :: nat
  ev_argument_bytes :: nat
  ev_usage :: "usage option"
  ev_limits :: event_limits

definition event_validator_new :: "event_limits \<Rightarrow> ir_error + event_validator" where
  "event_validator_new limits =
     (if max_items limits = 0 \<or> max_parts limits = 0 \<or> max_delta_bytes limits = 0 \<or>
         max_argument_bytes limits = 0
      then Err SizeLimit
      else Ok \<lparr>ev_started = False, ev_terminal = None, ev_terminal_reason = None,
               ev_items = fmempty, ev_indices = {}, ev_calls = {}, ev_parts = 0,
               ev_argument_bytes = 0, ev_usage = None, ev_limits = limits\<rparr>)"

fun is_tool :: "output_kind \<Rightarrow> bool" where
  "is_tool (Tool _ _ _) = True"
| "is_tool _ = False"

definition event_arguments :: "event_validator \<Rightarrow> item_id \<Rightarrow> ir_error + string" where
  "event_arguments v item =
     and_then (ok_or (fmlookup (ev_items v) item) UnknownItem) (\<lambda>state.
       if item_open state \<or> \<not> is_tool (item_kind state) then Err InvalidEventOrder
       else Ok (item_arguments state))"

section \<open>The arms of apply\<close>

type_synonym event_result = "(ir_error + unit) \<times> event_validator"

definition insert_item ::
  "event_validator \<Rightarrow> item_id \<Rightarrow> output_index \<Rightarrow> output_kind \<Rightarrow> event_validator" where
  "insert_item v item index kind =
     v\<lparr>ev_indices := insert index (ev_indices v),
       ev_items := fmupd item
         \<lparr>item_kind = kind, item_open = True, item_parts = fmempty, item_arguments = []\<rparr>
         (ev_items v)\<rparr>"

definition on_item_started ::
  "event_validator \<Rightarrow> item_id \<Rightarrow> output_index \<Rightarrow> output_kind \<Rightarrow> event_result" where
  "on_item_started v item index kind =
     (if fcard (fmdom (ev_items v)) \<ge> max_items (ev_limits v) then (Err SizeLimit, v)
      else if fmlookup (ev_items v) item \<noteq> None \<or> index \<in> ev_indices v then (Err DuplicateId, v)
      else case kind of
        Tool tool call _ \<Rightarrow>
          (case tool_identity_validate tool of
             Inl e \<Rightarrow> (Err e, v)
           | Inr _ \<Rightarrow>
               if call \<in> ev_calls v then (Err DuplicateId, v)
               else (Ok (), insert_item (v\<lparr>ev_calls := insert call (ev_calls v)\<rparr>) item index kind))
      | _ \<Rightarrow> (Ok (), insert_item v item index kind))"

fun part_matches :: "output_kind \<Rightarrow> event_part_kind \<Rightarrow> bool" where
  "part_matches Message Text = True"
| "part_matches Reasoning ReasoningText = True"
| "part_matches _ _ = False"

definition on_part_started ::
  "event_validator \<Rightarrow> item_id \<Rightarrow> content_index \<Rightarrow> event_part_kind \<Rightarrow> event_result" where
  "on_part_started v item index kind =
     (if ev_parts v \<ge> max_parts (ev_limits v) then (Err SizeLimit, v)
      else case fmlookup (ev_items v) item of
        None \<Rightarrow> (Err UnknownItem, v)
      | Some state \<Rightarrow>
          if \<not> item_open state \<or> \<not> part_matches (item_kind state) kind
          then (Err InvalidEventOrder, v)
          else if fmlookup (item_parts state) index \<noteq> None then (Err DuplicateId, v)
          else (Ok (),
            v\<lparr>ev_items := fmupd item
                 (state\<lparr>item_parts := fmupd index \<lparr>part_open = True\<rparr> (item_parts state)\<rparr>)
                 (ev_items v),
              ev_parts := ev_parts v + 1\<rparr>))"

definition on_text_delta ::
  "event_validator \<Rightarrow> item_id \<Rightarrow> content_index \<Rightarrow> string \<Rightarrow> event_result" where
  "on_text_delta v item index text =
     (if length text > max_delta_bytes (ev_limits v) then (Err SizeLimit, v)
      else case fmlookup (ev_items v) item of
        None \<Rightarrow> (Err UnknownItem, v)
      | Some state \<Rightarrow>
          if \<not> item_open state \<or>
             \<not> (case fmlookup (item_parts state) index of None \<Rightarrow> False | Some p \<Rightarrow> part_open p)
          then (Err InvalidEventOrder, v)
          else (Ok (), v))"

definition on_part_finished :: "event_validator \<Rightarrow> item_id \<Rightarrow> content_index \<Rightarrow> event_result" where
  "on_part_finished v item index =
     (case fmlookup (ev_items v) item of
        None \<Rightarrow> (Err UnknownItem, v)
      | Some state \<Rightarrow>
          (case fmlookup (item_parts state) index of
             None \<Rightarrow> (Err InvalidEventOrder, v)
           | Some part \<Rightarrow>
               if \<not> item_open state \<or> \<not> part_open part then (Err InvalidEventOrder, v)
               else (Ok (),
                 v\<lparr>ev_items := fmupd item
                      (state\<lparr>item_parts := fmupd index (part\<lparr>part_open := False\<rparr>) (item_parts state)\<rparr>)
                      (ev_items v)\<rparr>)))"

definition on_arguments_delta :: "event_validator \<Rightarrow> item_id \<Rightarrow> string \<Rightarrow> event_result" where
  "on_arguments_delta v item text =
     (if length text > max_delta_bytes (ev_limits v) \<or>
         length text > max_argument_bytes (ev_limits v) - ev_argument_bytes v
      then (Err SizeLimit, v)
      else case fmlookup (ev_items v) item of
        None \<Rightarrow> (Err UnknownItem, v)
      | Some state \<Rightarrow>
          if \<not> item_open state \<or> \<not> is_tool (item_kind state) then (Err InvalidEventOrder, v)
          else (Ok (),
            v\<lparr>ev_items := fmupd item
                 (state\<lparr>item_arguments := item_arguments state @ text\<rparr>) (ev_items v),
              ev_argument_bytes := ev_argument_bytes v + length text\<rparr>))"

fun is_function_tool :: "output_kind \<Rightarrow> bool" where
  "is_function_tool (Tool _ _ FunctionKind) = True"
| "is_function_tool _ = False"

definition on_item_finished :: "(string \<Rightarrow> bool) \<Rightarrow> event_validator \<Rightarrow> item_id \<Rightarrow> event_result" where
  "on_item_finished json_ok v item =
     (case fmlookup (ev_items v) item of
        None \<Rightarrow> (Err UnknownItem, v)
      | Some state \<Rightarrow>
          if \<not> item_open state \<or> any_value part_open (item_parts state)
          then (Err InvalidEventOrder, v)
          else if is_function_tool (item_kind state) \<and> \<not> json_ok (item_arguments state)
          then (Err InvalidJsonArguments, v)
          else (Ok (), v\<lparr>ev_items := fmupd item (state\<lparr>item_open := False\<rparr>) (ev_items v)\<rparr>))"

text \<open>\<open>matches!((old, new), (Some(a), Some(b)) if b < a)\<close>\<close>

fun token_decrease :: "u64 option \<Rightarrow> u64 option \<Rightarrow> bool" where
  "token_decrease (Some a) (Some b) = (b < a)"
| "token_decrease _ _ = False"

fun or_else :: "'a option \<Rightarrow> 'a option \<Rightarrow> 'a option" where
  "or_else (Some x) _ = Some x"
| "or_else None y = y"

definition on_usage_updated :: "event_validator \<Rightarrow> usage \<Rightarrow> event_result" where
  "on_usage_updated v u =
     (let decreased = (case ev_usage v of
            None \<Rightarrow> False
          | Some previous \<Rightarrow>
              token_decrease (input_tokens previous) (input_tokens u) \<or>
              token_decrease (output_tokens previous) (output_tokens u))
      in if decreased then (Err InvalidEventOrder, v)
         else (Ok (),
           v\<lparr>ev_usage := Some
               \<lparr>input_tokens = or_else (input_tokens u) (Option.bind (ev_usage v) input_tokens),
                output_tokens = or_else (output_tokens u) (Option.bind (ev_usage v) output_tokens)\<rparr>\<rparr>))"

definition on_finished :: "event_validator \<Rightarrow> terminal \<Rightarrow> string option \<Rightarrow> event_result" where
  "on_finished v status reason =
     (if (case reason of None \<Rightarrow> False | Some r \<Rightarrow> length r > 1024) then (Err SizeLimit, v)
      else if status = Completed \<and> any_value item_open (ev_items v)
      then (Err InvalidEventOrder, v)
      else (Ok (), v\<lparr>ev_terminal := Some status, ev_terminal_reason := reason\<rparr>))"

definition apply_event :: "(string \<Rightarrow> bool) \<Rightarrow> event_validator \<Rightarrow> event_ir \<Rightarrow> event_result" where
  "apply_event json_ok v event =
     (if ev_terminal v \<noteq> None then (Err InvalidEventOrder, v)
      else case event of
        Started _ \<Rightarrow>
          if ev_started v then (Err InvalidEventOrder, v) else (Ok (), v\<lparr>ev_started := True\<rparr>)
      | _ \<Rightarrow>
          if \<not> ev_started v then (Err InvalidEventOrder, v)
          else case event of
            ItemStarted item index kind \<Rightarrow> on_item_started v item index kind
          | PartStarted item index kind \<Rightarrow> on_part_started v item index kind
          | TextDelta item index text \<Rightarrow> on_text_delta v item index text
          | PartFinished item index \<Rightarrow> on_part_finished v item index
          | ArgumentsDelta item text \<Rightarrow> on_arguments_delta v item text
          | ItemFinished item \<Rightarrow> on_item_finished json_ok v item
          | UsageUpdated u \<Rightarrow> on_usage_updated v u
          | Finished status reason \<Rightarrow> on_finished v status reason
          | Started _ \<Rightarrow> (Err InvalidEventOrder, v))"

lemmas event_handler_defs =
  on_item_started_def on_part_started_def on_text_delta_def on_part_finished_def
  on_arguments_delta_def on_item_finished_def on_usage_updated_def on_finished_def

section \<open>The validator invariant\<close>

text \<open>What the fields of a validator say about each other, item by item and in total.\<close>

definition item_wf :: "(string \<Rightarrow> bool) \<Rightarrow> item_state \<Rightarrow> bool" where
  "item_wf json_ok st \<longleftrightarrow>
     (is_tool (item_kind st) \<longrightarrow> item_parts st = fmempty) \<and>
     (\<not> is_tool (item_kind st) \<longrightarrow> item_arguments st = []) \<and>
     (\<not> item_open st \<longrightarrow> \<not> any_value part_open (item_parts st)) \<and>
     (\<not> item_open st \<and> is_function_tool (item_kind st) \<longrightarrow> json_ok (item_arguments st))"

fun call_of :: "output_kind \<Rightarrow> call_id option" where
  "call_of (Tool _ c _) = Some c"
| "call_of _ = None"

text \<open>The call identifiers in use are those of the tool items, and no two items share one.\<close>

definition call_at :: "(item_id, item_state) fmap \<Rightarrow> item_id \<Rightarrow> call_id option" where
  "call_at items i = Option.bind (fmlookup items i) (\<lambda>st. call_of (item_kind st))"

definition calls_ok :: "call_id set \<Rightarrow> (item_id, item_state) fmap \<Rightarrow> bool" where
  "calls_ok calls items \<longleftrightarrow>
     (\<forall>c. c \<in> calls \<longleftrightarrow> (\<exists>i. call_at items i = Some c)) \<and>
     (\<forall>i j c. call_at items i = Some c \<longrightarrow> call_at items j = Some c \<longrightarrow> i = j)"

abbreviation parts_total :: "(item_id, item_state) fmap \<Rightarrow> nat" where
  "parts_total items \<equiv> fmsum (\<lambda>st. fcard (fmdom (item_parts st))) items"

abbreviation arguments_total :: "(item_id, item_state) fmap \<Rightarrow> nat" where
  "arguments_total items \<equiv> fmsum (\<lambda>st. length (item_arguments st)) items"

definition totals_ok :: "event_validator \<Rightarrow> bool" where
  "totals_ok v \<longleftrightarrow>
     fcard (fmdom (ev_items v)) \<le> max_items (ev_limits v) \<and>
     ev_parts v = parts_total (ev_items v) \<and> ev_parts v \<le> max_parts (ev_limits v) \<and>
     ev_argument_bytes v = arguments_total (ev_items v) \<and>
     ev_argument_bytes v \<le> max_argument_bytes (ev_limits v) \<and>
     finite (ev_indices v) \<and> card (ev_indices v) = fcard (fmdom (ev_items v))"

definition validator_inv :: "(string \<Rightarrow> bool) \<Rightarrow> event_validator \<Rightarrow> bool" where
  "validator_inv json_ok v \<longleftrightarrow>
     fmpred (\<lambda>_. item_wf json_ok) (ev_items v) \<and>
     calls_ok (ev_calls v) (ev_items v) \<and>
     totals_ok v \<and>
     (\<not> ev_started v \<longrightarrow> ev_items v = fmempty \<and> ev_terminal v = None) \<and>
     (ev_terminal v = Some Completed \<longrightarrow> \<not> any_value item_open (ev_items v))"

lemma validator_new_inv: "event_validator_new limits = Ok v \<Longrightarrow> validator_inv json_ok v"
  by (auto simp: event_validator_new_def validator_inv_def calls_ok_def call_at_def totals_ok_def any_value_iff
      split: if_splits)

lemma calls_ok_replace:
  assumes "calls_ok calls items" and "fmlookup items i = Some st" and "item_kind st' = item_kind st"
  shows "calls_ok calls (fmupd i st' items)"
proof -
  have "call_at (fmupd i st' items) = call_at items"
    using assms(2,3) by (auto simp: call_at_def fun_eq_iff)
  then show ?thesis
    using assms(1) by (simp add: calls_ok_def)
qed

lemma calls_ok_insert:
  assumes "calls_ok calls items" and "fmlookup items i = None"
    and "\<And>c. call_of (item_kind st) = Some c \<Longrightarrow> c \<notin> calls"
  shows "calls_ok (calls \<union> set_option (call_of (item_kind st))) (fmupd i st items)"
proof -
  have "call_at (fmupd i st items) = (call_at items)(i := call_of (item_kind st))"
    by (auto simp: call_at_def fun_eq_iff)
  moreover have "call_at items i = None"
    using assms(2) by (simp add: call_at_def)
  ultimately show ?thesis
    using assms(1,3) by (auto simp: calls_ok_def) (metis option.distinct(1))
qed

text \<open>Replacing one item by a well-formed item of the same kind, with both totals adjusted.\<close>

lemma validator_inv_replace:
  assumes inv: "validator_inv json_ok v"
    and st: "fmlookup (ev_items v) i = Some st"
    and kind: "item_kind st' = item_kind st"
    and wf: "item_wf json_ok st'"
    and parts: "p + fcard (fmdom (item_parts st)) = ev_parts v + fcard (fmdom (item_parts st'))"
      "p \<le> max_parts (ev_limits v)"
    and args: "a + length (item_arguments st) = ev_argument_bytes v + length (item_arguments st')"
      "a \<le> max_argument_bytes (ev_limits v)"
    and live: "ev_terminal v = None"
  shows "validator_inv json_ok
    (v\<lparr>ev_items := fmupd i st' (ev_items v), ev_parts := p, ev_argument_bytes := a\<rparr>)"
proof -
  have dom: "fmdom (fmupd i st' (ev_items v)) = fmdom (ev_items v)"
    using st by (rule fmdom_fmupd_old)
  have tot: "totals_ok v" and "ev_items v \<noteq> fmempty"
    using inv st by (auto simp: validator_inv_def)
  then have started: "ev_started v"
    using inv by (auto simp: validator_inv_def)
  have "totals_ok (v\<lparr>ev_items := fmupd i st' (ev_items v), ev_parts := p, ev_argument_bytes := a\<rparr>)"
    using tot parts args dom
      fmsum_fmupd_old [OF st, of "\<lambda>st. fcard (fmdom (item_parts st))" st']
      fmsum_fmupd_old [OF st, of "\<lambda>st. length (item_arguments st)" st']
    by (simp add: totals_ok_def del: fmdom_fmupd)
  moreover have "calls_ok (ev_calls v) (fmupd i st' (ev_items v))"
    using inv st kind by (simp add: validator_inv_def calls_ok_replace)
  moreover have "fmpred (\<lambda>_. item_wf json_ok) (fmupd i st' (ev_items v))"
    using inv wf by (auto simp: validator_inv_def)
  ultimately show ?thesis
    using live started by (simp add: validator_inv_def)
qed

lemma validator_inv_insert:
  assumes inv: "validator_inv json_ok v" and live: "ev_terminal v = None" "ev_started v"
    and room: "fcard (fmdom (ev_items v)) < max_items (ev_limits v)"
    and fresh: "fmlookup (ev_items v) i = None" "index \<notin> ev_indices v"
    and call: "\<And>c. call_of kind = Some c \<Longrightarrow> c \<notin> ev_calls v"
  shows "validator_inv json_ok
    (insert_item (v\<lparr>ev_calls := ev_calls v \<union> set_option (call_of kind)\<rparr>) i index kind)"
proof -
  let ?st = "\<lparr>item_kind = kind, item_open = True, item_parts = fmempty, item_arguments = []\<rparr>"
  have "calls_ok (ev_calls v \<union> set_option (call_of kind)) (fmupd i ?st (ev_items v))"
    using inv call calls_ok_insert [of "ev_calls v" "ev_items v" i ?st] fresh(1)
    by (simp add: validator_inv_def)
  moreover have "fmpred (\<lambda>_. item_wf json_ok) (fmupd i ?st (ev_items v))"
    using inv by (auto simp: validator_inv_def item_wf_def any_value_iff)
  moreover have "totals_ok
      (insert_item (v\<lparr>ev_calls := ev_calls v \<union> set_option (call_of kind)\<rparr>) i index kind)"
    using inv room fresh
    by (simp add: validator_inv_def totals_ok_def insert_item_def fmsum_fmupd_new fcard_fmupd_new
        del: fmdom_fmupd)
  ultimately show ?thesis
    using live by (simp add: validator_inv_def insert_item_def)
qed

section \<open>Every arm keeps the invariant\<close>

lemma on_item_started_inv:
  assumes "validator_inv json_ok v" and "ev_terminal v = None" and "ev_started v"
  shows "validator_inv json_ok (snd (on_item_started v item index kind))"
  using assms validator_inv_insert [OF assms, of item index kind]
  by (auto simp: on_item_started_def not_le split: output_kind.splits sum.splits)

lemma on_part_started_inv:
  assumes inv: "validator_inv json_ok v" and live: "ev_terminal v = None"
  shows "validator_inv json_ok (snd (on_part_started v item index kind))"
proof (cases "fst (on_part_started v item index kind) = Ok ()")
  case True
  then obtain st where st: "fmlookup (ev_items v) item = Some st" and "item_open st"
    "part_matches (item_kind st) kind" "fmlookup (item_parts st) index = None"
    "ev_parts v < max_parts (ev_limits v)"
    by (auto simp: on_part_started_def split: option.splits if_splits)
  moreover have "item_wf json_ok st"
    using inv st by (auto simp: validator_inv_def fmpred_iff)
  ultimately show ?thesis
    using inv live validator_inv_replace [OF inv st, of
        "st\<lparr>item_parts := fmupd index \<lparr>part_open = True\<rparr> (item_parts st)\<rparr>"
        "ev_parts v + 1" "ev_argument_bytes v"]
    by (cases "item_kind st")
      (auto simp: on_part_started_def item_wf_def fcard_fmupd_new validator_inv_def totals_ok_def
        simp del: fmdom_fmupd)
next
  case False
  then show ?thesis
    using inv by (auto simp: on_part_started_def split: option.splits if_splits)
qed

lemma on_part_finished_inv:
  assumes inv: "validator_inv json_ok v" and live: "ev_terminal v = None"
  shows "validator_inv json_ok (snd (on_part_finished v item index))"
proof (cases "fst (on_part_finished v item index) = Ok ()")
  case True
  then obtain st p where st: "fmlookup (ev_items v) item = Some st" and "item_open st"
    "fmlookup (item_parts st) index = Some p" "part_open p"
    by (auto simp: on_part_finished_def split: option.splits if_splits)
  moreover have "item_wf json_ok st"
    using inv st by (auto simp: validator_inv_def fmpred_iff)
  ultimately show ?thesis
    using inv live validator_inv_replace [OF inv st, of
        "st\<lparr>item_parts := fmupd index (p\<lparr>part_open := False\<rparr>) (item_parts st)\<rparr>"
        "ev_parts v" "ev_argument_bytes v"]
    by (auto simp: on_part_finished_def item_wf_def fmdom_fmupd_old validator_inv_def totals_ok_def
        simp del: fmdom_fmupd)
next
  case False
  then show ?thesis
    using inv by (auto simp: on_part_finished_def split: option.splits if_splits)
qed

lemma on_arguments_delta_inv:
  assumes inv: "validator_inv json_ok v" and live: "ev_terminal v = None"
  shows "validator_inv json_ok (snd (on_arguments_delta v item text))"
proof (cases "fst (on_arguments_delta v item text) = Ok ()")
  case True
  then obtain st where st: "fmlookup (ev_items v) item = Some st" and "item_open st"
    "is_tool (item_kind st)" "length text \<le> max_argument_bytes (ev_limits v) - ev_argument_bytes v"
    by (auto simp: on_arguments_delta_def split: option.splits if_splits)
  moreover have "item_wf json_ok st"
    using inv st by (auto simp: validator_inv_def fmpred_iff)
  ultimately show ?thesis
    using inv live validator_inv_replace [OF inv st, of
        "st\<lparr>item_arguments := item_arguments st @ text\<rparr>"
        "ev_parts v" "ev_argument_bytes v + length text"] True
    by (auto simp: on_arguments_delta_def item_wf_def validator_inv_def totals_ok_def
        split: if_splits)
next
  case False
  then show ?thesis
    using inv by (auto simp: on_arguments_delta_def split: option.splits if_splits)
qed

lemma on_item_finished_inv:
  assumes inv: "validator_inv json_ok v" and live: "ev_terminal v = None"
  shows "validator_inv json_ok (snd (on_item_finished json_ok v item))"
proof (cases "fst (on_item_finished json_ok v item) = Ok ()")
  case True
  then obtain st where st: "fmlookup (ev_items v) item = Some st" and "item_open st"
    "\<not> any_value part_open (item_parts st)"
    "is_function_tool (item_kind st) \<longrightarrow> json_ok (item_arguments st)"
    by (auto simp: on_item_finished_def split: option.splits if_splits)
  moreover have "item_wf json_ok st"
    using inv st by (auto simp: validator_inv_def fmpred_iff)
  ultimately show ?thesis
    using inv live validator_inv_replace [OF inv st, of "st\<lparr>item_open := False\<rparr>"
        "ev_parts v" "ev_argument_bytes v"]
    by (auto simp: on_item_finished_def item_wf_def validator_inv_def totals_ok_def)
next
  case False
  then show ?thesis
    using inv by (auto simp: on_item_finished_def split: option.splits if_splits)
qed

lemma apply_event_inv:
  assumes inv: "validator_inv json_ok v"
  shows "validator_inv json_ok (snd (apply_event json_ok v event))"
proof (cases "ev_terminal v = None \<and> ev_started v")
  case True
  have "validator_inv json_ok (v\<lparr>ev_usage := u\<rparr>)" for u
    using inv by (simp add: validator_inv_def totals_ok_def)
  moreover have "validator_inv json_ok (v\<lparr>ev_terminal := Some t, ev_terminal_reason := r\<rparr>)"
    if "t = Completed \<longrightarrow> \<not> any_value item_open (ev_items v)" for t r
    using inv True that by (simp add: validator_inv_def totals_ok_def)
  ultimately show ?thesis
    using inv True
    by (cases event)
      (auto simp: apply_event_def on_item_started_inv on_part_started_inv on_part_finished_inv
        on_arguments_delta_inv on_item_finished_inv on_text_delta_def on_usage_updated_def
        on_finished_def Let_def split: option.splits)
next
  case False
  have "validator_inv json_ok (v\<lparr>ev_started := True\<rparr>)"
    using inv by (simp add: validator_inv_def totals_ok_def)
  with False inv show ?thesis
    by (cases event) (auto simp: apply_event_def)
qed

lemma apply_event_err_unchanged:
  assumes "fst (apply_event json_ok v event) = Err e"
  shows "snd (apply_event json_ok v event) = v"
  using assms
  by (cases event)
    (auto simp: apply_event_def event_handler_defs Let_def
      split: if_splits option.splits sum.splits output_kind.splits)

interpretation event_machine: transactional_machine "apply_event json_ok" "validator_inv json_ok"
  for json_ok
  by unfold_locales (auto simp: apply_event_inv apply_event_err_unchanged)

section \<open>Properties of a run\<close>

abbreviation event_run ::
  "(string \<Rightarrow> bool) \<Rightarrow> event_validator \<Rightarrow> event_ir list \<Rightarrow> (ir_error + unit) list \<times> event_validator" where
  "event_run json_ok \<equiv> run_machine (apply_event json_ok)"

text \<open>The argument bytes that an accepted event adds to an item, and an item's text so far.\<close>

fun argument_delta :: "item_id \<Rightarrow> event_ir \<Rightarrow> string" where
  "argument_delta item (ArgumentsDelta i text) = (if i = item then text else [])"
| "argument_delta item _ = []"

definition arguments_so_far :: "event_validator \<Rightarrow> item_id \<Rightarrow> string" where
  "arguments_so_far v item =
     (case fmlookup (ev_items v) item of None \<Rightarrow> [] | Some st \<Rightarrow> item_arguments st)"

lemma apply_event_arguments:
  assumes "fst (apply_event json_ok v event) = Ok ()"
  shows "arguments_so_far (snd (apply_event json_ok v event)) item =
    arguments_so_far v item @ argument_delta item event"
  using assms
  by (cases event)
    (auto simp: apply_event_def event_handler_defs insert_item_def arguments_so_far_def Let_def
      split: if_splits option.splits sum.splits output_kind.splits)

lemma event_run_arguments:
  "arguments_so_far (snd (event_run json_ok v es)) item =
     arguments_so_far v item @
     concat (map (argument_delta item) (accepted_inputs (apply_event json_ok) v es))"
proof (induction es arbitrary: v)
  case (Cons e es)
  show ?case
  proof (cases "apply_event json_ok v e")
    case (Pair r v')
    with Cons apply_event_arguments [of json_ok v e item] apply_event_err_unchanged [of json_ok v e]
    show ?thesis by (cases r) (auto simp: split_beta Let_def)
  qed
qed simp

fun tokens_le :: "u64 option \<Rightarrow> u64 option \<Rightarrow> bool" where
  "tokens_le None _ = True"
| "tokens_le (Some a) None = False"
| "tokens_le (Some a) (Some b) = (a \<le> b)"

lemma tokens_le_refl [simp]: "tokens_le x x"
  by (cases x) auto

lemma tokens_le_trans: "tokens_le x y \<Longrightarrow> tokens_le y z \<Longrightarrow> tokens_le x z"
  by (cases x; cases y; cases z) auto

definition observed_tokens :: "event_validator \<Rightarrow> u64 option \<times> u64 option" where
  "observed_tokens v = (Option.bind (ev_usage v) input_tokens, Option.bind (ev_usage v) output_tokens)"

lemma tokens_le_or_else: "\<not> token_decrease old new \<Longrightarrow> tokens_le old (or_else new old)"
  by (cases old; cases new) auto

lemma apply_event_tokens:
  "tokens_le (fst (observed_tokens v)) (fst (observed_tokens (snd (apply_event json_ok v event)))) \<and>
   tokens_le (snd (observed_tokens v)) (snd (observed_tokens (snd (apply_event json_ok v event))))"
proof (cases event)
  case (UsageUpdated u)
  then show ?thesis
    by (cases "ev_usage v")
      (auto simp: apply_event_def on_usage_updated_def observed_tokens_def Let_def tokens_le_or_else)
qed (auto simp: apply_event_def event_handler_defs insert_item_def observed_tokens_def Let_def
      split: option.splits sum.splits output_kind.splits)

text \<open>Rejected events leave no trace: after any sequence of events, the validator is in the
  state that the accepted events alone lead to (the documented "a rejected event leaves the
  prior state unchanged", lifted to whole streams).\<close>

theorem rejected_events_leave_no_trace:
  "snd (event_run json_ok v (accepted_inputs (apply_event json_ok) v es)) = snd (event_run json_ok v es)"
  by (rule event_machine.run_accepted)

text \<open>C11. From a fresh validator every reachable state satisfies the invariant: item, part and
  argument-byte totals are exact and within the configured limits, output indices are as many as
  items, call identifiers are those of the tool items and unique, closed items have no open part.\<close>

theorem reachable_validator_inv:
  assumes "event_validator_new limits = Ok v"
  shows "validator_inv json_ok (snd (event_run json_ok v es))"
  using assms by (intro event_machine.run_inv validator_new_inv)

text \<open>C5. A stream that ends as completed is whole: every item is closed, none of its parts is
  open, and the accumulated arguments of every function call are a JSON document.\<close>

theorem completed_stream_is_whole:
  assumes "event_validator_new limits = Ok v"
    and "snd (event_run json_ok v es) = w" and "ev_terminal w = Some Completed"
    and "fmlookup (ev_items w) item = Some st"
  shows "\<not> item_open st \<and> \<not> any_value part_open (item_parts st) \<and>
    (is_function_tool (item_kind st) \<longrightarrow> json_ok (item_arguments st))"
proof -
  have "validator_inv json_ok w"
    using assms(1,2) event_machine.run_inv validator_new_inv by metis
  then show ?thesis
    using assms(3,4) by (auto simp: validator_inv_def fmpred_iff item_wf_def any_value_iff)
qed

text \<open>What \<open>arguments\<close> returns for a finished tool call is the concatenation, in order, of
  the argument deltas that were accepted for that item.\<close>

theorem arguments_are_accepted_deltas:
  assumes "event_validator_new limits = Ok v"
    and "event_arguments (snd (event_run json_ok v es)) item = Ok text"
  shows "text = concat (map (argument_delta item) (accepted_inputs (apply_event json_ok) v es))"
proof -
  have "arguments_so_far (snd (event_run json_ok v es)) item = text"
    using assms(2) by (auto simp: event_arguments_def arguments_so_far_def split: if_splits)
  moreover have "arguments_so_far v item = []"
    using assms(1) by (auto simp: event_validator_new_def arguments_so_far_def split: if_splits)
  ultimately show ?thesis
    by (simp add: event_run_arguments)
qed

text \<open>A terminal event is final: every later event is refused and changes nothing.\<close>

theorem terminal_is_final:
  assumes "ev_terminal v \<noteq> None"
  shows "event_run json_ok v es = (replicate (length es) (Err InvalidEventOrder), v)"
proof -
  have "apply_event json_ok v e = (Err InvalidEventOrder, v)" for e
    using assms by (simp add: apply_event_def)
  then show ?thesis by (induction es) simp_all
qed

text \<open>Reported token counts never decrease and never disappear during a stream.\<close>

theorem usage_never_decreases:
  "tokens_le (fst (observed_tokens v)) (fst (observed_tokens (snd (event_run json_ok v es)))) \<and>
   tokens_le (snd (observed_tokens v)) (snd (observed_tokens (snd (event_run json_ok v es))))"
proof (induction es arbitrary: v)
  case (Cons e es)
  show ?case
    using apply_event_tokens [of v json_ok e] Cons [of "snd (apply_event json_ok v e)"]
    by (auto simp: split_beta Let_def intro: tokens_le_trans)
qed simp

subsection \<open>A stream with one function call\<close>

definition demo_validator :: event_validator where
  "demo_validator =
     \<lparr>ev_started = False, ev_terminal = None, ev_terminal_reason = None, ev_items = fmempty,
      ev_indices = {}, ev_calls = {}, ev_parts = 0, ev_argument_bytes = 0, ev_usage = None,
      ev_limits = \<lparr>max_items = 2, max_parts = 2, max_delta_bytes = 4, max_argument_bytes = 4\<rparr>\<rparr>"

definition demo_events :: "event_ir list" where
  "demo_events =
     [Started (ResponseId ''r''),
      ItemStarted (ItemId ''i'') 0 (Tool (ToolIdentity None ''f'') (CallId ''c'') FunctionKind),
      ArgumentsDelta (ItemId ''i'') ''{'', ArgumentsDelta (ItemId ''x'') ''!'',
      ArgumentsDelta (ItemId ''i'') ''}'', ItemFinished (ItemId ''i''),
      Finished Completed None]"

lemma demo_validator_new: "event_validator_new (ev_limits demo_validator) = Ok demo_validator"
  by (simp add: event_validator_new_def demo_validator_def)

theorem reachable_validator_inv_witness:
  "validator_inv (\<lambda>s. s = ''{}'') (snd (event_run (\<lambda>s. s = ''{}'') demo_validator demo_events))"
  using reachable_validator_inv [OF demo_validator_new] .

theorem completed_stream_is_whole_witness:
  "\<exists>st. fmlookup (ev_items (snd (event_run (\<lambda>s. s = ''{}'') demo_validator demo_events))) (ItemId ''i'') = Some st \<and>
     \<not> item_open st \<and> \<not> any_value part_open (item_parts st) \<and>
     (is_function_tool (item_kind st) \<longrightarrow> item_arguments st = ''{}'')"
proof -
  let ?w = "snd (event_run (\<lambda>s. s = ''{}'') demo_validator demo_events)"
  have "ev_terminal ?w = Some Completed" by code_simp
  moreover have "fmlookup (ev_items ?w) (ItemId ''i'') = Some
    \<lparr>item_kind = Tool (ToolIdentity None ''f'') (CallId ''c'') FunctionKind, item_open = False,
     item_parts = fmempty, item_arguments = ''{}''\<rparr>"
    by code_simp
  ultimately show ?thesis
    using completed_stream_is_whole [OF demo_validator_new refl] by blast
qed

theorem arguments_are_accepted_deltas_witness:
  "''{}'' = concat (map (argument_delta (ItemId ''i''))
     (accepted_inputs (apply_event (\<lambda>s. s = ''{}'')) demo_validator demo_events))"
proof -
  have "event_arguments (snd (event_run (\<lambda>s. s = ''{}'') demo_validator demo_events)) (ItemId ''i'') = Ok ''{}''"
    by code_simp
  then show ?thesis by (rule arguments_are_accepted_deltas [OF demo_validator_new])
qed

theorem terminal_is_final_witness:
  "event_run (\<lambda>s. True) (demo_validator\<lparr>ev_terminal := Some Failed\<rparr>) demo_events =
     (replicate (length demo_events) (Err InvalidEventOrder), demo_validator\<lparr>ev_terminal := Some Failed\<rparr>)"
  using terminal_is_final [of "demo_validator\<lparr>ev_terminal := Some Failed\<rparr>" "\<lambda>s. True" demo_events]
  by simp

end
