(* ===== verification/Profile.thy ===== *)
theory Profile
  imports Ir_Base
begin

text \<open>
  Declared capabilities: the reasoning contracts of \<open>src/src/ir/reasoning.rs\<close> with their
  validation, and the features, bridge rules and capability profiles of
  \<open>src/src/ir/capability.rs\<close>. The parts of those files that look at a request are in the
  theories \<open>Reasoning\<close> and \<open>Capability\<close>.
\<close>

section \<open>Reasoning contracts\<close>

datatype reasoning_contract =
    DeepSeek u32 "string set" string
      \<comment> \<open>version, efforts, default_effort\<close>
  | OpenRouter u32 string "string set" "string option" "u64 option" "string set"
      \<comment> \<open>version, provider_endpoint, efforts, default_effort, max_tokens, formats\<close>
  | ClaudeAdaptive u32 "string set" string bool
      \<comment> \<open>version, efforts, default_effort, allow_forced_tools\<close>
  | ClaudeManual u32 u64 "(string, u64) fmap" bool
      \<comment> \<open>version, budget_tokens, effort_budgets, interleaved_beta\<close>

definition known_router_format :: "string \<Rightarrow> bool" where
  "known_router_format value \<longleftrightarrow>
     value \<in> {''unknown'', ''openai-responses-v1'', ''azure-openai-responses-v1'',
       ''bedrock-openai-responses-v1'', ''bedrock-xai-responses-v1'', ''xai-responses-v1'',
       ''meta-responses-v1'', ''anthropic-claude-v1'', ''google-gemini-v1''}"

definition claude_effort :: "string \<Rightarrow> bool" where
  "claude_effort e \<longleftrightarrow> e \<in> {''low'', ''medium'', ''high'', ''xhigh'', ''max''}"

fun reasoning_contract_valid :: "reasoning_contract \<Rightarrow> api_protocol \<Rightarrow> bool" where
  "reasoning_contract_valid (DeepSeek version efforts default_effort) api =
     (version = 1 \<and> api = ChatCompletions \<and> efforts \<noteq> {} \<and> default_effort \<in> efforts \<and>
      (\<forall>e \<in> efforts. e \<in> {''low'', ''high'', ''max''}))"
| "reasoning_contract_valid
     (OpenRouter version provider_endpoint efforts default_effort max_tokens formats) api =
     (version = 1 \<and> api = ChatCompletions \<and> CHR ''/'' \<in> set provider_endpoint \<and>
      length provider_endpoint \<le> 128 \<and>
      list_all (\<lambda>b. is_ascii_alphanumeric b \<or> b \<in> set ''-_/.:'') provider_endpoint \<and>
      formats \<noteq> {} \<and> (\<forall>f \<in> formats. known_router_format f) \<and>
      (case max_tokens of
         Some n \<Rightarrow> n > 0 \<and> efforts = {} \<and> default_effort = None
       | None \<Rightarrow>
           efforts \<noteq> {} \<and> (case default_effort of None \<Rightarrow> False | Some e \<Rightarrow> e \<in> efforts) \<and>
           (\<forall>e \<in> efforts. e \<in> {''minimal'', ''low'', ''medium'', ''high'', ''xhigh'', ''max''})))"
| "reasoning_contract_valid (ClaudeAdaptive version efforts default_effort _) api =
     (version = 1 \<and> api = Messages \<and> efforts \<noteq> {} \<and> default_effort \<in> efforts \<and>
      (\<forall>e \<in> efforts. claude_effort e))"
| "reasoning_contract_valid (ClaudeManual version budget_tokens effort_budgets _) api =
     (version = 1 \<and> api = Messages \<and> budget_tokens \<ge> 1024 \<and>
      fmpred (\<lambda>e b. claude_effort e \<and> b \<ge> 1024) effort_budgets)"

definition reasoning_contract_validate :: "reasoning_contract \<Rightarrow> api_protocol \<Rightarrow> ir_error + unit" where
  "reasoning_contract_validate c api =
     (if reasoning_contract_valid c api then Ok () else Err UnsupportedFeature)"

fun beta_header :: "reasoning_contract \<Rightarrow> string option" where
  "beta_header (ClaudeManual _ _ _ True) = Some ''interleaved-thinking-2025-05-14''"
| "beta_header _ = None"

datatype chat_dialect = DeepSeekDialect | OpenRouterDialect

fun chat_dialect_of :: "reasoning_contract \<Rightarrow> chat_dialect option" where
  "chat_dialect_of (DeepSeek _ _ _) = Some DeepSeekDialect"
| "chat_dialect_of (OpenRouter _ _ _ _ _ _) = Some OpenRouterDialect"
| "chat_dialect_of _ = None"

fun accepts_format :: "reasoning_contract \<Rightarrow> string \<Rightarrow> bool" where
  "accepts_format (OpenRouter _ _ _ _ _ formats) f = (f \<in> formats)"
| "accepts_format _ f = False"

section \<open>Features and bridges\<close>

datatype feature =
    Instructions
  | InstructionHierarchy
  | Images
  | FunctionTools
  | StrictToolArguments
  | CustomTools
  | CustomGrammar
  | NamespacedTools
  | StructuredToolOutput
  | ToolChoiceFeature
  | ParallelToolControl
  | StructuredOutput
  | StrictStructuredOutput
  | MaxOutputTokens
  | Temperature
  | TopP
  | ReasoningEffort
  | ReasoningSummary
  | ReasoningItems
  | OpaqueContinuation
  | Extensions

text \<open>The declaration order, which \<open>derive(PartialOrd, Ord)\<close> makes the iteration order of
  \<open>BTreeSet<Feature>\<close>.\<close>

definition feature_order :: "feature list" where
  "feature_order =
     [Instructions, InstructionHierarchy, Images, FunctionTools, StrictToolArguments, CustomTools,
      CustomGrammar, NamespacedTools, StructuredToolOutput, ToolChoiceFeature, ParallelToolControl,
      StructuredOutput, StrictStructuredOutput, MaxOutputTokens, Temperature, TopP, ReasoningEffort,
      ReasoningSummary, ReasoningItems, OpaqueContinuation, Extensions]"

lemma feature_order_complete: "f \<in> set feature_order"
  by (cases f) (simp_all add: feature_order_def)

lemma feature_order_distinct: "distinct feature_order"
  by (simp add: feature_order_def)

datatype bridge_rule =
    CodeModeTextParts
  | CustomToolJson
  | ToolNamespace
  | CodexPatchGrammar
  | RegisteredGrammarValidation
  | MessagesInstructionEnvelope
  | GeminiInstructionEnvelope
  | ProviderParallelPermission
  | ChatInstructionEnvelope

datatype support = Native | Bridged bridge_rule | Unsupported

section \<open>Capability profiles\<close>

record capability_profile =
  cp_reasoning_contract :: "reasoning_contract option"
  cp_id :: string
  cp_version :: string
  cp_protocol :: api_protocol
  cp_support :: "(feature, support) fmap"

definition support_of :: "capability_profile \<Rightarrow> feature \<Rightarrow> support" where
  "support_of p f = (case fmlookup (cp_support p) f of Some s \<Rightarrow> s | None \<Rightarrow> Unsupported)"

definition has_deepseek_contract :: "capability_profile \<Rightarrow> bool" where
  "has_deepseek_contract p =
     (case cp_reasoning_contract p of Some (DeepSeek _ _ _) \<Rightarrow> True | _ \<Rightarrow> False)"

text \<open>The bridge declarations a profile may contain, one equation per guarded match arm.\<close>

fun bridge_declared_ok :: "capability_profile \<Rightarrow> feature \<Rightarrow> support \<Rightarrow> bool" where
  "bridge_declared_ok p f (Bridged ChatInstructionEnvelope) =
     (f = InstructionHierarchy \<and> cp_protocol p = ChatCompletions)"
| "bridge_declared_ok p f (Bridged ProviderParallelPermission) =
     (f = ParallelToolControl \<and> cp_protocol p = ChatCompletions \<and> has_deepseek_contract p)"
| "bridge_declared_ok p f (Bridged CodeModeTextParts) = (f = StructuredToolOutput)"
| "bridge_declared_ok p f (Bridged CustomToolJson) = (f = CustomTools)"
| "bridge_declared_ok p f (Bridged ToolNamespace) = (f = NamespacedTools)"
| "bridge_declared_ok p f (Bridged CodexPatchGrammar) = (f = CustomGrammar)"
| "bridge_declared_ok p f (Bridged RegisteredGrammarValidation) =
     (f = CustomGrammar \<and> cp_protocol p = Responses \<and> support_of p CustomTools = Native)"
| "bridge_declared_ok p f (Bridged GeminiInstructionEnvelope) =
     (f = InstructionHierarchy \<and> cp_protocol p = GeminiInteractions)"
| "bridge_declared_ok p f (Bridged MessagesInstructionEnvelope) =
     (f = InstructionHierarchy \<and> cp_protocol p = Messages)"
| "bridge_declared_ok p f Native = True"
| "bridge_declared_ok p f Unsupported = True"

definition capability_profile_validate :: "capability_profile \<Rightarrow> ir_error + unit" where
  "capability_profile_validate p =
     (if cp_id p = [] \<or> cp_version p = [] then Err (InvalidField ''capability_profile'')
      else and_then
        (case cp_reasoning_contract p of
           None \<Rightarrow> Ok ()
         | Some contract \<Rightarrow>
             and_then (reasoning_contract_validate contract (cp_protocol p)) (\<lambda>_.
               if support_of p ReasoningSummary \<noteq> Native \<or> support_of p ReasoningItems \<noteq> Native
               then Err UnsupportedFeature else Ok ()))
        (\<lambda>_. if fmpred (bridge_declared_ok p) (cp_support p) then Ok () else Err UnsupportedFeature))"

lemma capability_profile_validate_bridge:
  assumes "capability_profile_validate p = Ok ()" and "support_of p f = Bridged r"
  shows "bridge_declared_ok p f (Bridged r)"
  using assms
  by (auto simp: capability_profile_validate_def support_of_def fmpred_iff split: if_splits option.splits)

lemma capability_profile_validate_contract:
  assumes "capability_profile_validate p = Ok ()" and "cp_reasoning_contract p = Some c"
  shows "reasoning_contract_valid c (cp_protocol p) \<and> support_of p ReasoningSummary = Native \<and>
    support_of p ReasoningItems = Native"
  using assms
  by (auto simp: capability_profile_validate_def reasoning_contract_validate_def split: if_splits)

definition demo_profile :: capability_profile where
  "demo_profile =
     \<lparr>cp_reasoning_contract = None, cp_id = ''demo'', cp_version = ''1'', cp_protocol = Messages,
      cp_support = fmap_of_list
        [(FunctionTools, Native), (CustomTools, Bridged CustomToolJson),
         (InstructionHierarchy, Bridged MessagesInstructionEnvelope)]\<rparr>"

end
