(* ===== verification/Continuity.thy ===== *)
theory Continuity
  imports Profile
begin

text \<open>
  Origin-bound state of \<open>src/src/ir/continuity.rs\<close>: route snapshots and continuity bindings,
  opaque state that is released only to the binding it was created for, native replay
  payloads and provider state, together with \<open>valid_provider_protocol\<close> of
  \<open>src/crates/plugin-contract/src/lib.rs\<close>, which provider bindings are checked with.
\<close>

section \<open>Routes and bindings\<close>

record route_snapshot =
  rs_provider_id :: string
  rs_model :: string
  rs_api :: api_protocol
  rs_credential_binding :: string
  rs_adapter_version :: string
  rs_capabilities :: capability_profile
  rs_context_window :: "u64 option"
  rs_max_output_tokens :: "u64 option"

definition route_snapshot_validate :: "route_snapshot \<Rightarrow> ir_error + unit" where
  "route_snapshot_validate r =
     and_then
       (each (\<lambda>value. if value = [] \<or> length value > 512 \<or> has_control value
                      then Err InvalidIdentifier else Ok ())
          [rs_provider_id r, rs_model r, rs_credential_binding r, rs_adapter_version r]) (\<lambda>_.
     and_then (capability_profile_validate (rs_capabilities r)) (\<lambda>_.
       if rs_api r \<noteq> cp_protocol (rs_capabilities r) then Err WrongProtocol
       else if rs_context_window r = Some 0 \<or> rs_max_output_tokens r = Some 0
       then Err (InvalidField ''route_limits'')
       else Ok ()))"

record continuity_binding =
  cb_route :: route_snapshot
  cb_scope :: string

definition continuity_binding_validate :: "continuity_binding \<Rightarrow> ir_error + unit" where
  "continuity_binding_validate b =
     and_then (route_snapshot_validate (cb_route b)) (\<lambda>_.
       if cb_scope b = [] \<or> length (cb_scope b) > 512 \<or> has_control (cb_scope b)
       then Err InvalidIdentifier else Ok ())"

section \<open>Opaque state\<close>

record opaque_state =
  os_binding :: continuity_binding
  os_format :: string
  os_bytes :: string

definition opaque_state_new ::
  "continuity_binding \<Rightarrow> string \<Rightarrow> string \<Rightarrow> ir_error + opaque_state" where
  "opaque_state_new binding format bytes =
     and_then (continuity_binding_validate binding) (\<lambda>_.
       if format = [] \<or> length format > 128 \<or> has_control format
       then Err (InvalidField ''opaque_format'')
       else if bytes = [] \<or> length bytes > 8 * 1024 * 1024 then Err SizeLimit
       else Ok \<lparr>os_binding = binding, os_format = format, os_bytes = bytes\<rparr>)"

definition opaque_replay :: "opaque_state \<Rightarrow> continuity_binding \<Rightarrow> string \<Rightarrow> ir_error + string" where
  "opaque_replay state target format =
     and_then (continuity_binding_validate target) (\<lambda>_.
       if target \<noteq> os_binding state \<or> format \<noteq> os_format state then Err ContinuityMismatch
       else Ok (os_bytes state))"

section \<open>Native replay payloads\<close>

datatype outcome = OutcomeCompleted | AwaitingTools

datatype native_replay =
    GeminiReplay u32 "json list"
  | ChatReplay u32 chat_dialect json json
  | MessagesReplay u32 "json list" json

fun native_replay_validate :: "native_replay \<Rightarrow> ir_error + unit" where
  "native_replay_validate (GeminiReplay version steps) =
     (if version = 1 \<and> steps \<noteq> [] then Ok () else Err ContinuityMismatch)"
| "native_replay_validate (ChatReplay version _ assistant controls) =
     (if version = 1 \<and> is_object assistant \<and> is_object controls then Ok () else Err ContinuityMismatch)"
| "native_replay_validate (MessagesReplay version blocks controls) =
     (if version = 1 \<and> blocks \<noteq> [] \<and> is_object controls then Ok () else Err ContinuityMismatch)"

section \<open>Provider state\<close>

definition PROVIDER_PROTOCOL :: string where "PROVIDER_PROTOCOL = ''gateway-provider/v1''"

definition valid_provider_protocol :: "string \<Rightarrow> bool" where
  "valid_provider_protocol value =
     (case split_once ''/v'' value of
        None \<Rightarrow> False
      | Some (name, version) \<Rightarrow>
          1 \<le> length name \<and> length name \<le> 64 \<and> is_ascii_lowercase (hd name) \<and>
          list_all (\<lambda>b. is_ascii_lowercase b \<or> is_ascii_digit b \<or> b \<in> set ''._-'') name \<and>
          1 \<le> length version \<and> length version \<le> 6 \<and>
          (is_ascii_digit (hd version) \<and> hd version \<noteq> CHR ''0'') \<and>
          list_all is_ascii_digit version)"

record provider_state_binding =
  pb_protocol :: string
  pb_provider_protocol :: string
  pb_id :: string
  pb_version :: string
  pb_package_sha256 :: string
  pb_executable_sha256 :: string

definition sha256_text :: "string \<Rightarrow> bool" where
  "sha256_text value \<longleftrightarrow> length value = 64 \<and> list_all is_lower_hex value"

definition version_part_ok :: "string \<Rightarrow> bool" where
  "version_part_ok p \<longleftrightarrow>
     \<not> (p = [] \<or> length p > 6 \<or> \<not> list_all is_ascii_digit p \<or>
        (length p > 1 \<and> starts_with ''0'' p))"

definition provider_state_binding_validate :: "provider_state_binding \<Rightarrow> ir_error + unit" where
  "provider_state_binding_validate b =
     (let parts = split_char CHR ''.'' (pb_version b) in
      if pb_protocol b \<noteq> PROVIDER_PROTOCOL \<or>
         \<not> valid_provider_protocol (pb_provider_protocol b) \<or>
         pb_id b = [] \<or> length (pb_id b) > 64 \<or> \<not> is_ascii_lowercase (hd (pb_id b)) \<or>
         \<not> list_all (\<lambda>c. is_ascii_lowercase c \<or> is_ascii_digit c \<or> c = CHR ''-'') (pb_id b) \<or>
         length parts \<noteq> 3 \<or> \<not> list_all version_part_ok parts \<or>
         \<not> sha256_text (pb_package_sha256 b) \<or> \<not> sha256_text (pb_executable_sha256 b)
      then Err ContinuityMismatch
      else Ok ())"

record provider_native_state =
  ps_binding :: provider_state_binding
  ps_format :: string
  ps_version :: u32
  ps_bytes :: string

definition MAX_STATE_BYTES :: nat where "MAX_STATE_BYTES = 1024 * 1024"

definition provider_native_state_new ::
  "provider_state_binding \<Rightarrow> string \<Rightarrow> u32 \<Rightarrow> string \<Rightarrow> ir_error + provider_native_state" where
  "provider_native_state_new binding format version bytes =
     and_then (provider_state_binding_validate binding) (\<lambda>_.
       if format = [] \<or> length format > 64 \<or> \<not> is_ascii_lowercase (hd format) \<or>
          \<not> list_all (\<lambda>b. is_ascii_lowercase b \<or> is_ascii_digit b \<or> b \<in> set ''._-'') format \<or>
          version = 0 \<or> length bytes > MAX_STATE_BYTES
       then Err ContinuityMismatch
       else Ok \<lparr>ps_binding = binding, ps_format = format, ps_version = version, ps_bytes = bytes\<rparr>)"

definition provider_native_state_validate_for ::
  "provider_native_state \<Rightarrow> provider_state_binding \<Rightarrow> (string \<times> u32) option \<Rightarrow> ir_error + unit" where
  "provider_native_state_validate_for s binding expected_format =
     (if ps_binding s \<noteq> binding \<or>
         (case expected_format of
            None \<Rightarrow> False
          | Some (format, version) \<Rightarrow> format \<noteq> ps_format s \<or> version \<noteq> ps_version s)
      then Err ContinuityMismatch
      else provider_state_binding_validate binding)"

datatype native_state = Builtin native_replay | Provider provider_native_state

fun native_state_builtin :: "native_state \<Rightarrow> ir_error + native_replay" where
  "native_state_builtin (Builtin value) = Ok value"
| "native_state_builtin (Provider _) = Err ContinuityMismatch"

fun native_state_provider :: "native_state \<Rightarrow> ir_error + provider_native_state" where
  "native_state_provider (Provider value) = Ok value"
| "native_state_provider (Builtin _) = Err ContinuityMismatch"

section \<open>Properties\<close>

lemma continuity_binding_validate_api:
  "continuity_binding_validate b = Ok () \<Longrightarrow> rs_api (cb_route b) = cp_protocol (rs_capabilities (cb_route b))"
  by (auto simp: continuity_binding_validate_def route_snapshot_validate_def split: if_splits)

lemma continuity_binding_validate_profile:
  "continuity_binding_validate b = Ok () \<Longrightarrow> capability_profile_validate (rs_capabilities (cb_route b)) = Ok ()"
  by (auto simp: continuity_binding_validate_def route_snapshot_validate_def)

lemma opaque_replay_Ok:
  assumes "opaque_state_new b f bytes = Ok s"
  shows "opaque_replay s t g = Ok out \<longleftrightarrow> t = b \<and> g = f \<and> out = bytes"
  using assms
  by (auto simp: opaque_state_new_def opaque_replay_def split: if_splits)

text \<open>C18. Opaque state is released only to its origin: replaying it succeeds exactly for the
  binding and format it was created with, and then returns its bytes unchanged.\<close>

theorem opaque_state_bound_to_origin:
  assumes "opaque_state_new b f bytes = Ok s"
  shows "opaque_replay s t g = (if t = b \<and> g = f then Ok bytes else
    (case continuity_binding_validate t of Inl e \<Rightarrow> Err e | Inr _ \<Rightarrow> Err ContinuityMismatch))"
  using assms
  by (auto simp: opaque_state_new_def opaque_replay_def split: if_splits sum.splits)

text \<open>Provider state passes \<open>validate_for\<close> exactly when it was created for the same package
  binding and, where a format is expected, has that format and version.\<close>

theorem provider_state_bound_to_package:
  assumes "provider_native_state_new b f v bytes = Ok s"
  shows "provider_native_state_validate_for s b' expected = Ok () \<longleftrightarrow>
    b' = b \<and> (expected = None \<or> expected = Some (f, v))"
  using assms
  by (auto simp: provider_native_state_new_def provider_native_state_validate_for_def
      split: if_splits option.splits)

definition demo_route :: route_snapshot where
  "demo_route =
     \<lparr>rs_provider_id = ''p'', rs_model = ''m'', rs_api = Messages, rs_credential_binding = ''K'',
      rs_adapter_version = ''1'', rs_capabilities = demo_profile, rs_context_window = None,
      rs_max_output_tokens = Some 4096\<rparr>"

definition demo_binding :: continuity_binding where
  "demo_binding = \<lparr>cb_route = demo_route, cb_scope = ''stateless-request''\<rparr>"

lemma demo_profile_valid: "capability_profile_validate demo_profile = Ok ()"
  by code_simp

lemma demo_binding_valid: "continuity_binding_validate demo_binding = Ok ()"
  by (simp add: continuity_binding_validate_def route_snapshot_validate_def demo_binding_def demo_route_def
      demo_profile_valid) (simp add: demo_profile_def)

lemma demo_opaque_state_new:
  "opaque_state_new demo_binding ''v1'' ''x'' = Ok \<lparr>os_binding = demo_binding, os_format = ''v1'', os_bytes = ''x''\<rparr>"
  by (simp add: opaque_state_new_def demo_binding_valid)

theorem opaque_state_bound_to_origin_witness:
  "opaque_replay \<lparr>os_binding = demo_binding, os_format = ''v1'', os_bytes = ''x''\<rparr> demo_binding ''v1'' = Ok ''x'' \<and>
   opaque_replay \<lparr>os_binding = demo_binding, os_format = ''v1'', os_bytes = ''x''\<rparr> demo_binding ''v2'' = Err ContinuityMismatch"
  by (simp add: opaque_state_bound_to_origin [OF demo_opaque_state_new] demo_binding_valid)

definition demo_package :: provider_state_binding where
  "demo_package =
     \<lparr>pb_protocol = ''gateway-provider/v1'', pb_provider_protocol = ''acme/v1'', pb_id = ''acme'',
      pb_version = ''1.0.0'', pb_package_sha256 = replicate 64 (CHR ''a''),
      pb_executable_sha256 = replicate 64 (CHR ''b'')\<rparr>"

lemma demo_package_valid: "provider_state_binding_validate demo_package = Ok ()"
  by code_simp

theorem provider_state_bound_to_package_witness:
  "provider_native_state_validate_for
     \<lparr>ps_binding = demo_package, ps_format = ''acme'', ps_version = 1, ps_bytes = ''x''\<rparr> demo_package
     (Some (''acme'', 1)) = Ok ()"
proof -
  have "provider_native_state_new demo_package ''acme'' 1 ''x'' =
      Ok \<lparr>ps_binding = demo_package, ps_format = ''acme'', ps_version = 1, ps_bytes = ''x''\<rparr>"
    by (simp add: provider_native_state_new_def demo_package_valid MAX_STATE_BYTES_def
        is_ascii_lowercase_def)
  from provider_state_bound_to_package [OF this] show ?thesis by simp
qed

end
