(* ===== verification/Request.thy ===== *)
theory Request
  imports Continuity
begin

text \<open>
  The request IR of \<open>src/src/ir/request.rs\<close>: its data types, the derived views
  (\<open>tool_definitions\<close>, \<open>instructions\<close>) and \<open>RequestIR::validate\<close>, split along the phases of
  the source (extension fields, generation options, namespace groups, tool definitions,
  history items, named tool choice). Numbers keep their literal text. Whether a string is a
  JSON document is the parameter \<open>json_ok\<close>.
\<close>

section \<open>Data\<close>

record extensions =
  ext_protocol :: api_protocol
  ext_fields :: fields

definition responses_extensions :: extensions where
  "responses_extensions = \<lparr>ext_protocol = Responses, ext_fields = fmempty\<rparr>"

datatype role = System | Developer | User | Assistant

datatype text_kind = InputText | OutputText | SummaryText

datatype part_kind =
    PartText text_kind string
  | PartImage string "string option"
  | PartExtension json

record part =
  part_annotations :: "json list option"
  part_kind :: part_kind
  part_extensions :: extensions

datatype content = ContentText string | ContentParts "part list"

datatype tool_call_status = InProgress | StatusCompleted | StatusIncomplete

record message =
  msg_status :: "tool_call_status option"
  msg_id :: "item_id option"
  msg_role :: role
  msg_content :: content
  msg_explicit_type :: bool
  msg_extensions :: extensions

datatype tool_input = Json string | Freeform string

fun tool_input_kind :: "tool_input \<Rightarrow> tool_kind" where
  "tool_input_kind (Json _) = FunctionKind"
| "tool_input_kind (Freeform _) = CustomKind"

fun tool_input_validate :: "(string \<Rightarrow> bool) \<Rightarrow> tool_input \<Rightarrow> ir_error + unit" where
  "tool_input_validate json_ok (Json raw) = (if json_ok raw then Ok () else Err InvalidJsonArguments)"
| "tool_input_validate json_ok (Freeform _) = Ok ()"

record tool_call =
  tc_status :: "tool_call_status option"
  tc_item_id :: "item_id option"
  tc_call_id :: call_id
  tc_tool :: tool_identity
  tc_input :: tool_input
  tc_extensions :: extensions

record tool_result =
  tr_item_id :: "item_id option"
  tr_call_id :: call_id
  tr_kind :: tool_kind
  tr_output :: json
  tr_extensions :: extensions

record reasoning_item =
  ri_id :: "item_id option"
  ri_summary :: "part list option"
  ri_opaque :: "opaque_state option"
  ri_extensions :: extensions

datatype item =
    ItemMessage message
  | ItemToolCall tool_call
  | ItemToolResult tool_result
  | ItemReasoning reasoning_item
  | ItemExtension json api_protocol

datatype input = TextInput string | ItemsInput "item list"

datatype tool_definition =
    ToolDefinition (td_identity: tool_identity) (td_description: "string option")
      (td_kind: tool_definition_kind) (td_extensions: extensions)
and tool_definition_kind =
    FunctionTool "json option" "bool option"
  | CustomTool "json option"
  | NamespaceTool "tool_definition list"

fun kind_of :: "tool_definition_kind \<Rightarrow> tool_kind option" where
  "kind_of (FunctionTool _ _) = Some FunctionKind"
| "kind_of (CustomTool _) = Some CustomKind"
| "kind_of (NamespaceTool _) = None"

definition needs_grammar :: "tool_definition \<Rightarrow> bool" where
  "needs_grammar t =
     (case td_kind t of
        CustomTool (Some value) \<Rightarrow> str_at value ''type'' \<noteq> Some ''text''
      | _ \<Rightarrow> False)"

datatype output_format =
    FormatText extensions
  | FormatJsonObject extensions
  | FormatJsonSchema string json "bool option" extensions
  | FormatExtension json api_protocol

record output_options =
  oo_format :: "output_format option"
  oo_extensions :: extensions

record reasoning_options =
  ro_effort :: "string option"
  ro_summary :: "string option"
  ro_extensions :: extensions

datatype tool_choice =
    ChoiceAuto
  | ChoiceNone
  | ChoiceRequired
  | ChoiceNamed tool_identity tool_kind extensions
  | ChoiceExtension json api_protocol

record generation_options =
  go_stream :: "bool option"
  go_max_output_tokens :: "u64 option"
  go_temperature :: "string option"
  go_top_p :: "string option"
  go_parallel_tool_calls :: "bool option"
  go_tool_choice :: "tool_choice option"
  go_output :: "output_options option"
  go_reasoning :: "reasoning_options option"

record request_ir =
  req_version :: u16
  req_source :: api_protocol
  req_model :: string
  req_instructions :: "string option"
  req_input :: "input option"
  req_tools :: "tool_definition list option"
  req_generation :: generation_options
  req_extensions :: extensions

section \<open>Derived views\<close>

definition top_tools :: "request_ir \<Rightarrow> tool_definition list" where
  "top_tools r = (case req_tools r of None \<Rightarrow> [] | Some ts \<Rightarrow> ts)"

definition history_items :: "request_ir \<Rightarrow> item list" where
  "history_items r = (case req_input r of Some (ItemsInput items) \<Rightarrow> items | _ \<Rightarrow> [])"

fun leaves_of :: "tool_definition \<Rightarrow> tool_definition list" where
  "leaves_of (ToolDefinition i d (NamespaceTool ts) e) = ts"
| "leaves_of t = [t]"

definition tool_definitions :: "request_ir \<Rightarrow> tool_definition list" where
  "tool_definitions r = concat (map leaves_of (top_tools r))"

datatype instruction_role = ProtocolDefault | SystemRole | DeveloperRole
datatype instruction_position = RequestPosition | ItemPosition nat
datatype instruction_body = BodyText string | BodyMessage content

record instruction_ref =
  ins_role :: instruction_role
  ins_position :: instruction_position
  ins_body :: instruction_body

fun message_instruction :: "nat \<times> item \<Rightarrow> instruction_ref list" where
  "message_instruction (index, ItemMessage m) =
     (case msg_role m of
        System \<Rightarrow> [\<lparr>ins_role = SystemRole, ins_position = ItemPosition index, ins_body = BodyMessage (msg_content m)\<rparr>]
      | Developer \<Rightarrow> [\<lparr>ins_role = DeveloperRole, ins_position = ItemPosition index, ins_body = BodyMessage (msg_content m)\<rparr>]
      | _ \<Rightarrow> [])"
| "message_instruction (index, _) = []"

definition instructions :: "request_ir \<Rightarrow> instruction_ref list" where
  "instructions r =
     (case req_instructions r of
        None \<Rightarrow> []
      | Some text \<Rightarrow> [\<lparr>ins_role = ProtocolDefault, ins_position = RequestPosition, ins_body = BodyText text\<rparr>]) @
     concat (map message_instruction (enumerate 0 (history_items r)))"

section \<open>Validation\<close>

definition conflicting :: "fields \<Rightarrow> string \<Rightarrow> bool" where
  "conflicting fs key = (case fmlookup fs key of None \<Rightarrow> False | Some value \<Rightarrow> \<not> is_null value)"

definition validate_extensions :: "extensions \<Rightarrow> api_protocol \<Rightarrow> string list \<Rightarrow> ir_error + unit" where
  "validate_extensions ext source reserved =
     (if ext_protocol ext \<noteq> source then Err WrongProtocol
      else if list_ex (conflicting (ext_fields ext)) reserved then Err ExtensionConflict
      else Ok ())"

fun part_reserved :: "part_kind \<Rightarrow> string list" where
  "part_reserved (PartText OutputText _) = [''type'', ''text'', ''annotations'']"
| "part_reserved (PartText _ _) = [''type'', ''text'']"
| "part_reserved (PartImage _ _) = [''type'', ''image_url'', ''detail'']"
| "part_reserved (PartExtension _) = []"

fun is_output_text :: "part_kind \<Rightarrow> bool" where
  "is_output_text (PartText OutputText _) = True"
| "is_output_text _ = False"

definition validate_part :: "api_protocol \<Rightarrow> part \<Rightarrow> ir_error + unit" where
  "validate_part source p =
     (if part_annotations p \<noteq> None \<and> \<not> is_output_text (part_kind p)
      then Err (InvalidField ''annotations'')
      else and_then (validate_extensions (part_extensions p) source (part_reserved (part_kind p))) (\<lambda>_.
        case part_kind p of
          PartExtension value \<Rightarrow>
            if ext_fields (part_extensions p) \<noteq> fmempty \<or>
               str_at value ''type'' \<in>
                 {Some ''input_text'', Some ''output_text'', Some ''summary_text'', Some ''input_image''}
            then Err ExtensionConflict else Ok ()
        | _ \<Rightarrow> Ok ()))"

definition validate_parts :: "part list \<Rightarrow> api_protocol \<Rightarrow> ir_error + unit" where
  "validate_parts parts source = each (validate_part source) parts"

definition request_reserved :: "string list" where
  "request_reserved =
     [''model'', ''instructions'', ''input'', ''tools'', ''stream'', ''store'', ''max_output_tokens'',
      ''temperature'', ''top_p'', ''parallel_tool_calls'', ''tool_choice'', ''text'', ''reasoning'']"

fun validate_format :: "api_protocol \<Rightarrow> output_format \<Rightarrow> ir_error + unit" where
  "validate_format source (FormatText ext) = validate_extensions ext source [''type'']"
| "validate_format source (FormatJsonObject ext) = validate_extensions ext source [''type'']"
| "validate_format source (FormatJsonSchema _ _ _ ext) =
     validate_extensions ext source [''type'', ''name'', ''schema'', ''strict'']"
| "validate_format source (FormatExtension value protocol) =
     (if protocol \<noteq> source then Err WrongProtocol
      else if str_at value ''type'' \<in> {Some ''text'', Some ''json_object'', Some ''json_schema''}
      then Err ExtensionConflict else Ok ())"

definition validate_output :: "api_protocol \<Rightarrow> output_options \<Rightarrow> ir_error + unit" where
  "validate_output source output =
     and_then (validate_extensions (oo_extensions output) source [''format'']) (\<lambda>_.
       case oo_format output of None \<Rightarrow> Ok () | Some format \<Rightarrow> validate_format source format)"

fun validate_choice :: "api_protocol \<Rightarrow> tool_choice \<Rightarrow> ir_error + unit" where
  "validate_choice source (ChoiceNamed _ _ ext) =
     validate_extensions ext source [''type'', ''name'', ''namespace'']"
| "validate_choice source (ChoiceExtension value protocol) =
     (if protocol \<noteq> source then Err WrongProtocol
      else if as_str value \<in> {Some ''auto'', Some ''none'', Some ''required''} \<or>
              str_at value ''type'' \<in> {Some ''function'', Some ''custom''}
      then Err ExtensionConflict else Ok ())"
| "validate_choice source _ = Ok ()"

definition validate_generation :: "api_protocol \<Rightarrow> generation_options \<Rightarrow> ir_error + unit" where
  "validate_generation source g =
     and_then (case go_output g of None \<Rightarrow> Ok () | Some output \<Rightarrow> validate_output source output) (\<lambda>_.
     and_then (case go_reasoning g of
         None \<Rightarrow> Ok ()
       | Some reasoning \<Rightarrow> validate_extensions (ro_extensions reasoning) source [''effort'', ''summary'']) (\<lambda>_.
     case go_tool_choice g of None \<Rightarrow> Ok () | Some choice \<Rightarrow> validate_choice source choice))"

definition is_namespace :: "tool_definition \<Rightarrow> bool" where
  "is_namespace t = (case td_kind t of NamespaceTool _ \<Rightarrow> True | _ \<Rightarrow> False)"

definition validate_group ::
  "api_protocol \<Rightarrow> string set \<Rightarrow> tool_definition \<Rightarrow> ir_error + string set" where
  "validate_group source groups grp =
     (case td_kind grp of
        NamespaceTool tools \<Rightarrow>
          and_then (tool_identity_validate (td_identity grp)) (\<lambda>_.
            if namespace (td_identity grp) \<noteq> None \<or> tools = [] \<or> tool_name (td_identity grp) \<in> groups
            then Err InvalidToolMapping
            else and_then
              (validate_extensions (td_extensions grp) source
                 [''type'', ''name'', ''description'', ''tools'']) (\<lambda>_.
              if list_ex (\<lambda>tool. is_namespace tool \<or>
                   namespace (td_identity tool) \<noteq> Some (tool_name (td_identity grp))) tools
              then Err InvalidToolMapping
              else Ok (insert (tool_name (td_identity grp)) groups)))
      | _ \<Rightarrow> Ok groups)"

definition validate_definition ::
  "api_protocol \<Rightarrow> tool_identity set \<Rightarrow> tool_definition \<Rightarrow> ir_error + tool_identity set" where
  "validate_definition source definitions tool =
     and_then (tool_identity_validate (td_identity tool)) (\<lambda>_.
     and_then (case td_kind tool of
         FunctionTool _ _ \<Rightarrow>
           Ok [''type'', ''name'', ''namespace'', ''description'', ''parameters'', ''strict'']
       | CustomTool _ \<Rightarrow> Ok [''type'', ''name'', ''namespace'', ''description'', ''format'']
       | NamespaceTool _ \<Rightarrow> Err InvalidToolMapping) (\<lambda>reserved.
     and_then (validate_extensions (td_extensions tool) source reserved) (\<lambda>_.
       if td_identity tool \<in> definitions then Err DuplicateId
       else Ok (insert (td_identity tool) definitions))))"

record history_state =
  hs_ids :: "item_id set"
  hs_calls :: "(call_id, tool_kind) fmap"
  hs_results :: "call_id set"

text \<open>The last step of the loop body: \<open>if let Some(id) = id && !ids.insert(\<dots>)\<close>.\<close>

definition note_id :: "item_id option \<Rightarrow> history_state \<Rightarrow> ir_error + history_state" where
  "note_id i hs =
     (case i of
        None \<Rightarrow> Ok hs
      | Some k \<Rightarrow> if k \<in> hs_ids hs then Err DuplicateId else Ok (hs\<lparr>hs_ids := insert k (hs_ids hs)\<rparr>))"

definition argument_field :: "tool_input \<Rightarrow> string" where
  "argument_field i = (case i of Json _ \<Rightarrow> ''arguments'' | Freeform _ \<Rightarrow> ''input'')"

fun validate_item ::
  "(string \<Rightarrow> bool) \<Rightarrow> api_protocol \<Rightarrow> history_state \<Rightarrow> item \<Rightarrow> ir_error + history_state" where
  "validate_item json_ok source hs (ItemMessage value) =
     and_then (validate_extensions (msg_extensions value) source
         [''type'', ''id'', ''role'', ''content'', ''status'']) (\<lambda>_.
     and_then (case msg_content value of ContentParts parts \<Rightarrow> validate_parts parts source | _ \<Rightarrow> Ok ()) (\<lambda>_.
     note_id (msg_id value) hs))"
| "validate_item json_ok source hs (ItemReasoning value) =
     and_then (validate_extensions (ri_extensions value) source
         [''type'', ''id'', ''summary'', ''encrypted_content'']) (\<lambda>_.
     and_then (case ri_summary value of Some parts \<Rightarrow> validate_parts parts source | None \<Rightarrow> Ok ()) (\<lambda>_.
     and_then (case ri_opaque value of
         Some state \<Rightarrow> if rs_api (cb_route (os_binding state)) \<noteq> source then Err WrongProtocol else Ok ()
       | None \<Rightarrow> Ok ()) (\<lambda>_.
     note_id (ri_id value) hs)))"
| "validate_item json_ok source hs (ItemToolCall value) =
     and_then (tool_identity_validate (tc_tool value)) (\<lambda>_.
     and_then (tool_input_validate json_ok (tc_input value)) (\<lambda>_.
     and_then (validate_extensions (tc_extensions value) source
         [''type'', ''id'', ''call_id'', ''name'', ''namespace'', ''status'', argument_field (tc_input value)]) (\<lambda>_.
       if fmlookup (hs_calls hs) (tc_call_id value) \<noteq> None then Err DuplicateId
       else note_id (tc_item_id value)
         (hs\<lparr>hs_calls := fmupd (tc_call_id value) (tool_input_kind (tc_input value)) (hs_calls hs)\<rparr>))))"
| "validate_item json_ok source hs (ItemToolResult value) =
     and_then (validate_extensions (tr_extensions value) source
         [''type'', ''id'', ''call_id'', ''output'']) (\<lambda>_.
       if fmlookup (hs_calls hs) (tr_call_id value) \<noteq> Some (tr_kind value) \<or>
          tr_call_id value \<in> hs_results hs
       then Err InvalidToolMapping
       else note_id (tr_item_id value) (hs\<lparr>hs_results := insert (tr_call_id value) (hs_results hs)\<rparr>))"
| "validate_item json_ok source hs (ItemExtension value protocol) =
     (if protocol \<noteq> source then Err WrongProtocol
      else if str_at value ''type'' \<in>
          {Some ''message'', Some ''function_call'', Some ''custom_tool_call'',
           Some ''function_call_output'', Some ''custom_tool_call_output'', Some ''reasoning'',
           Some ''item_reference'', Some ''compaction'', Some ''compaction_trigger''}
      then Err ExtensionConflict
      else Ok hs)"

definition empty_history :: history_state where
  "empty_history = \<lparr>hs_ids = {}, hs_calls = fmempty, hs_results = {}\<rparr>"

definition named_choice_declared :: "request_ir \<Rightarrow> bool" where
  "named_choice_declared r =
     (case go_tool_choice (req_generation r) of
        Some (ChoiceNamed tool kind _) \<Rightarrow>
          list_ex (\<lambda>d. td_identity d = tool \<and> kind_of (td_kind d) = Some kind) (tool_definitions r)
      | _ \<Rightarrow> True)"

definition request_validate :: "(string \<Rightarrow> bool) \<Rightarrow> request_ir \<Rightarrow> ir_error + unit" where
  "request_validate json_ok r =
     (if req_version r \<noteq> VERSION then Err UnsupportedVersion
      else if req_model r = [] then Err (InvalidField ''model'')
      else if go_max_output_tokens (req_generation r) = Some 0
      then Err (InvalidField ''max_output_tokens'')
      else
        and_then (validate_extensions (req_extensions r) (req_source r) request_reserved) (\<lambda>_.
        and_then (validate_generation (req_source r) (req_generation r)) (\<lambda>_.
        and_then (fold_result (validate_group (req_source r)) {} (top_tools r)) (\<lambda>_.
        and_then (fold_result (validate_definition (req_source r)) {} (tool_definitions r)) (\<lambda>_.
        and_then (fold_result (validate_item json_ok (req_source r)) empty_history (history_items r)) (\<lambda>_.
          if \<not> named_choice_declared r then Err InvalidToolMapping else Ok ()))))))"

section \<open>What validation guarantees\<close>

lemmas request_validation =
  validate_extensions_def validate_part_def validate_parts_def validate_output_def validate_generation_def

lemma tool_input_validate_Ok:
  "tool_input_validate json_ok i = Ok u \<longleftrightarrow> (\<forall>raw. i = Json raw \<longrightarrow> json_ok raw)"
  by (cases i) simp_all

subsection \<open>The history\<close>

text \<open>The identifiers that occur in a history, in order.\<close>

fun item_ident :: "item \<Rightarrow> item_id option" where
  "item_ident (ItemMessage m) = msg_id m"
| "item_ident (ItemToolCall c) = tc_item_id c"
| "item_ident (ItemToolResult r) = tr_item_id r"
| "item_ident (ItemReasoning r) = ri_id r"
| "item_ident (ItemExtension _ _) = None"

fun item_calls :: "item \<Rightarrow> (call_id \<times> tool_kind) list" where
  "item_calls (ItemToolCall c) = [(tc_call_id c, tool_input_kind (tc_input c))]"
| "item_calls _ = []"

fun item_results :: "item \<Rightarrow> (call_id \<times> tool_kind) list" where
  "item_results (ItemToolResult r) = [(tr_call_id r, tr_kind r)]"
| "item_results _ = []"

definition item_idents :: "item list \<Rightarrow> item_id list" where
  "item_idents items = concat (map (\<lambda>i. case item_ident i of None \<Rightarrow> [] | Some k \<Rightarrow> [k]) items)"

definition history_calls :: "item list \<Rightarrow> (call_id \<times> tool_kind) list" where
  "history_calls items = concat (map item_calls items)"

definition history_results :: "item list \<Rightarrow> (call_id \<times> tool_kind) list" where
  "history_results items = concat (map item_results items)"

text \<open>
  The specification of a well-paired history: no identifier is reused, every call has at most
  one result, and a result answers an earlier call of its own kind.
\<close>

definition well_paired :: "item list \<Rightarrow> bool" where
  "well_paired items \<longleftrightarrow>
     distinct (item_idents items) \<and>
     distinct (map fst (history_calls items)) \<and>
     distinct (map fst (history_results items)) \<and>
     (\<forall>i < length items. set (item_results (items ! i)) \<subseteq> set (history_calls (take i items)))"

text \<open>The checks of the loop body that look at one item alone.\<close>

fun item_wellformed :: "(string \<Rightarrow> bool) \<Rightarrow> api_protocol \<Rightarrow> item \<Rightarrow> bool" where
  "item_wellformed json_ok source (ItemMessage value) \<longleftrightarrow>
     validate_extensions (msg_extensions value) source
       [''type'', ''id'', ''role'', ''content'', ''status''] = Ok () \<and>
     (\<forall>parts. msg_content value = ContentParts parts \<longrightarrow> validate_parts parts source = Ok ())"
| "item_wellformed json_ok source (ItemReasoning value) \<longleftrightarrow>
     validate_extensions (ri_extensions value) source
       [''type'', ''id'', ''summary'', ''encrypted_content''] = Ok () \<and>
     (\<forall>parts. ri_summary value = Some parts \<longrightarrow> validate_parts parts source = Ok ()) \<and>
     (\<forall>state. ri_opaque value = Some state \<longrightarrow> rs_api (cb_route (os_binding state)) = source)"
| "item_wellformed json_ok source (ItemToolCall value) \<longleftrightarrow>
     tool_identity_validate (tc_tool value) = Ok () \<and>
     tool_input_validate json_ok (tc_input value) = Ok () \<and>
     validate_extensions (tc_extensions value) source
       [''type'', ''id'', ''call_id'', ''name'', ''namespace'', ''status'', argument_field (tc_input value)] = Ok ()"
| "item_wellformed json_ok source (ItemToolResult value) \<longleftrightarrow>
     validate_extensions (tr_extensions value) source [''type'', ''id'', ''call_id'', ''output''] = Ok ()"
| "item_wellformed json_ok source (ItemExtension value protocol) \<longleftrightarrow>
     protocol = source \<and>
     str_at value ''type'' \<notin>
       {Some ''message'', Some ''function_call'', Some ''custom_tool_call'',
        Some ''function_call_output'', Some ''custom_tool_call_output'', Some ''reasoning'',
        Some ''item_reference'', Some ''compaction'', Some ''compaction_trigger''}"

definition history_of :: "item list \<Rightarrow> history_state" where
  "history_of items =
     \<lparr>hs_ids = set (item_idents items),
      hs_calls = fmap_of_list (rev (history_calls items)),
      hs_results = set (map fst (history_results items))\<rparr>"

lemma history_snoc [simp]:
  "item_idents (items @ [i]) = item_idents items @ (case item_ident i of None \<Rightarrow> [] | Some k \<Rightarrow> [k])"
  "history_calls (items @ [i]) = history_calls items @ item_calls i"
  "history_results (items @ [i]) = history_results items @ item_results i"
  by (simp_all add: item_idents_def history_calls_def history_results_def)

lemma well_paired_snoc:
  "well_paired (items @ [i]) \<longleftrightarrow>
     well_paired items \<and>
     (\<forall>k. item_ident i = Some k \<longrightarrow> k \<notin> set (item_idents items)) \<and>
     (\<forall>c \<in> set (item_calls i). fst c \<notin> fst ` set (history_calls items)) \<and>
     (\<forall>r \<in> set (item_results i). fst r \<notin> fst ` set (history_results items) \<and> r \<in> set (history_calls items))"
proof -
  have "(\<forall>j < length (items @ [i]). set (item_results ((items @ [i]) ! j)) \<subseteq> set (history_calls (take j (items @ [i])))) \<longleftrightarrow>
      (\<forall>j < length items. set (item_results (items ! j)) \<subseteq> set (history_calls (take j items))) \<and>
      set (item_results i) \<subseteq> set (history_calls items)"
    by (auto simp: nth_append less_Suc_eq)
  then show ?thesis
    by (cases i) (auto simp: well_paired_def split: option.splits)
qed

lemma fmlookup_history_calls:
  assumes "distinct (map fst cs)"
  shows "fmlookup (fmap_of_list (rev cs)) c = Some k \<longleftrightarrow> (c, k) \<in> set cs"
    and "fmlookup (fmap_of_list (rev cs)) c = None \<longleftrightarrow> c \<notin> fst ` set cs"
  using assms by (auto simp: fmlookup_of_list map_of_eq_None_iff rev_map [symmetric])

lemma note_id_Ok:
  "note_id i hs = Ok hs' \<longleftrightarrow>
     (\<forall>k. i = Some k \<longrightarrow> k \<notin> hs_ids hs) \<and> hs' = hs\<lparr>hs_ids := hs_ids hs \<union> set_option i\<rparr>"
  by (cases i) (auto simp: note_id_def)

lemma validate_item_step:
  assumes "well_paired items"
  shows "validate_item json_ok source (history_of items) i = Ok hs \<longleftrightarrow>
    item_wellformed json_ok source i \<and> well_paired (items @ [i]) \<and> hs = history_of (items @ [i])"
proof -
  note calls = fmlookup_history_calls [of "history_calls items"]
  have d: "distinct (map fst (history_calls items))"
    using assms by (simp add: well_paired_def)
  show ?thesis
    unfolding well_paired_snoc
    using assms
    by (cases i) (auto simp: note_id_Ok history_of_def calls [OF d] split: content.splits option.splits)
qed

lemma validate_history_iff:
  "fold_result (validate_item json_ok source) empty_history items = Ok hs \<longleftrightarrow>
     list_all (item_wellformed json_ok source) items \<and> well_paired items \<and> hs = history_of items"
proof (induction items arbitrary: hs rule: rev_induct)
  case Nil
  then show ?case
    by (auto simp: empty_history_def history_of_def well_paired_def item_idents_def history_calls_def
        history_results_def)
next
  case (snoc i items)
  have "well_paired (items @ [i]) \<Longrightarrow> well_paired items"
    by (simp add: well_paired_snoc)
  with snoc show ?case
    by (auto simp: fold_result_append validate_item_step)
qed

text \<open>C6. The history loop of \<open>RequestIR::validate\<close> accepts exactly the well-paired histories of
  items that are well formed one by one: identifiers are not reused, a call has at most one
  result, and a result answers an earlier call of the same kind.\<close>

theorem history_accepted_exactly:
  "is_ok (fold_result (validate_item json_ok source) empty_history items) \<longleftrightarrow>
     list_all (item_wellformed json_ok source) items \<and> well_paired items"
  by (auto simp: is_ok_iff validate_history_iff)

lemma request_validate_history:
  "request_validate json_ok r = Ok () \<Longrightarrow>
     list_all (item_wellformed json_ok (req_source r)) (history_items r) \<and> well_paired (history_items r)"
  by (auto simp: request_validate_def validate_history_iff split: if_splits)

lemma history_calls_memberD:
  "ck \<in> set (history_calls items) \<Longrightarrow>
     \<exists>j < length items. \<exists>c. items ! j = ItemToolCall c \<and> ck = (tc_call_id c, tool_input_kind (tc_input c))"
proof -
  assume "ck \<in> set (history_calls items)"
  then obtain i where "i \<in> set items" and ck: "ck \<in> set (item_calls i)"
    by (auto simp: history_calls_def)
  then obtain j where "j < length items" "items ! j = i"
    by (auto simp: in_set_conv_nth)
  with ck show ?thesis by (cases i) auto
qed

lemma well_paired_result:
  assumes "well_paired items" and "i < length items" and "items ! i = ItemToolResult t"
  shows "\<exists>j < i. \<exists>c. items ! j = ItemToolCall c \<and> tc_call_id c = tr_call_id t \<and>
    tool_input_kind (tc_input c) = tr_kind t"
proof -
  have "(tr_call_id t, tr_kind t) \<in> set (history_calls (take i items))"
    using assms by (auto simp: well_paired_def)
  from history_calls_memberD [OF this] assms(2) show ?thesis
    by auto
qed

lemma concat_distinct_nth:
  assumes "distinct (concat (map f xs))" and "i < length xs" and "j < length xs"
    and "x \<in> set (f (xs ! i))" and "x \<in> set (f (xs ! j))"
  shows "i = j"
  using assms
proof (induction xs arbitrary: i j)
  case (Cons y ys)
  have in_rest: "k < length ys \<Longrightarrow> x \<in> set (f (ys ! k)) \<Longrightarrow> x \<in> set (concat (map f ys))" for k
    by (auto intro: nth_mem)
  show ?case
    using Cons in_rest by (cases i; cases j) auto
qed simp

lemma well_paired_result_unique:
  assumes "well_paired items" and "i < length items" and "items ! i = ItemToolResult t"
    and "j < length items" and "items ! j = ItemToolResult s" and "tr_call_id s = tr_call_id t"
  shows "i = j"
proof -
  have "distinct (concat (map (\<lambda>x. map fst (item_results x)) items))"
    using assms(1) by (simp add: well_paired_def history_results_def map_concat comp_def)
  from concat_distinct_nth [OF this assms(2,4), of "tr_call_id t"] assms show ?thesis
    by auto
qed

text \<open>C20. In a validated request every tool result answers a call that precedes it, with the same
  call id and kind, and no other item answers that call.\<close>

theorem tool_results_answer_calls:
  assumes "request_validate json_ok r = Ok ()"
    and "i < length (history_items r)"
    and "history_items r ! i = ItemToolResult t"
  shows "(\<exists>j < i. \<exists>c. history_items r ! j = ItemToolCall c \<and> tc_call_id c = tr_call_id t \<and>
      tool_input_kind (tc_input c) = tr_kind t) \<and>
    (\<forall>j < length (history_items r). \<forall>s.
      history_items r ! j = ItemToolResult s \<and> tr_call_id s = tr_call_id t \<longrightarrow> j = i)"
proof -
  have wp: "well_paired (history_items r)"
    using request_validate_history [OF assms(1)] by simp
  show ?thesis
    using well_paired_result [OF wp assms(2,3)] well_paired_result_unique [OF wp assms(2,3)] by blast
qed

subsection \<open>The tools\<close>

lemma validate_definition_Ok:
  "validate_definition source ds t = Ok ds' \<Longrightarrow>
     td_identity t \<notin> ds \<and> ds' = insert (td_identity t) ds \<and> tool_identity_validate (td_identity t) = Ok () \<and>
     kind_of (td_kind t) \<noteq> None"
  by (cases "td_kind t") (auto simp: validate_definition_def split: if_splits)

lemma validate_definitions_Ok:
  "fold_result (validate_definition source) ds ts = Ok ds' \<Longrightarrow>
     distinct (map td_identity ts) \<and> ds \<inter> td_identity ` set ts = {} \<and>
     (\<forall>t \<in> set ts. tool_identity_validate (td_identity t) = Ok () \<and> kind_of (td_kind t) \<noteq> None)"
proof (induction ts arbitrary: ds)
  case (Cons t ts)
  then obtain ds1 where step: "validate_definition source ds t = Ok ds1"
    and rest: "fold_result (validate_definition source) ds1 ts = Ok ds'" by auto
  from Cons.IH [OF rest] validate_definition_Ok [OF step] show ?case by auto
qed simp

lemma request_validate_tools:
  assumes "request_validate json_ok r = Ok ()"
  shows "distinct (map td_identity (tool_definitions r))"
    and "t \<in> set (tool_definitions r) \<Longrightarrow> tool_identity_validate (td_identity t) = Ok () \<and> kind_of (td_kind t) \<noteq> None"
    and "named_choice_declared r"
  using assms by (auto simp: request_validate_def dest: validate_definitions_Ok split: if_splits)

text \<open>In a validated request the leaf tools have pairwise different, valid identities and a
  call kind, and a named tool choice selects exactly one of them, of the kind it names.\<close>

theorem declared_tools_unambiguous:
  assumes "request_validate json_ok r = Ok ()"
  shows "distinct (map td_identity (tool_definitions r)) \<and>
    (\<forall>t \<in> set (tool_definitions r).
       tool_identity_validate (td_identity t) = Ok () \<and> kind_of (td_kind t) \<noteq> None) \<and>
    (\<forall>tool kind ext. go_tool_choice (req_generation r) = Some (ChoiceNamed tool kind ext) \<longrightarrow>
       (\<exists>!d. d \<in> set (tool_definitions r) \<and> td_identity d = tool \<and> kind_of (td_kind d) = Some kind))"
proof -
  note facts = request_validate_tools [OF assms]
  have "\<exists>!d. d \<in> set (tool_definitions r) \<and> td_identity d = tool \<and> kind_of (td_kind d) = Some kind"
    if "go_tool_choice (req_generation r) = Some (ChoiceNamed tool kind ext)" for tool kind ext
  proof -
    have "\<exists>d. d \<in> set (tool_definitions r) \<and> td_identity d = tool \<and> kind_of (td_kind d) = Some kind"
      using facts(3) that by (auto simp: named_choice_declared_def list_ex_iff)
    moreover have "d = e" if "d \<in> set (tool_definitions r)" "e \<in> set (tool_definitions r)"
      "td_identity d = td_identity e" for d e
      using facts(1) that by (auto simp: distinct_map dest: inj_onD)
    ultimately show ?thesis by metis
  qed
  with facts show ?thesis by blast
qed

section \<open>A concrete request\<close>

definition demo_call :: tool_call where
  "demo_call =
     \<lparr>tc_status = None, tc_item_id = Some (ItemId ''i1''), tc_call_id = CallId ''c1'',
      tc_tool = ToolIdentity None ''grep'', tc_input = Json ''{}'', tc_extensions = responses_extensions\<rparr>"

definition demo_result :: tool_result where
  "demo_result =
     \<lparr>tr_item_id = None, tr_call_id = CallId ''c1'', tr_kind = FunctionKind, tr_output = JString ''ok'',
      tr_extensions = responses_extensions\<rparr>"

definition demo_generation :: generation_options where
  "demo_generation =
     \<lparr>go_stream = None, go_max_output_tokens = Some 64, go_temperature = None, go_top_p = None,
      go_parallel_tool_calls = None,
      go_tool_choice = Some (ChoiceNamed (ToolIdentity None ''grep'') FunctionKind responses_extensions),
      go_output = None, go_reasoning = None\<rparr>"

definition demo_request :: request_ir where
  "demo_request =
     \<lparr>req_version = 1, req_source = Responses, req_model = ''m'', req_instructions = Some ''be brief'',
      req_input = Some (ItemsInput [ItemToolCall demo_call, ItemToolResult demo_result]),
      req_tools = Some
        [ToolDefinition (ToolIdentity None ''grep'') None (FunctionTool None None) responses_extensions],
      req_generation = demo_generation, req_extensions = responses_extensions\<rparr>"

lemma demo_request_valid: "request_validate (\<lambda>_. True) demo_request = Ok ()"
  by code_simp

theorem history_accepted_exactly_witness:
  "is_ok (fold_result (validate_item (\<lambda>_. True) Responses) empty_history
     [ItemToolCall demo_call, ItemToolResult demo_result]) \<and>
   \<not> well_paired [ItemToolResult demo_result, ItemToolCall demo_call]"
proof -
  have "is_ok (fold_result (validate_item (\<lambda>_. True) Responses) empty_history
     [ItemToolCall demo_call, ItemToolResult demo_result])" by code_simp
  moreover have "\<not> is_ok (fold_result (validate_item (\<lambda>_. True) Responses) empty_history
     [ItemToolResult demo_result, ItemToolCall demo_call])" by code_simp
  moreover have "list_all (item_wellformed (\<lambda>_. True) Responses) [ItemToolResult demo_result, ItemToolCall demo_call]"
    by (simp add: demo_result_def demo_call_def validate_extensions_def responses_extensions_def
        tool_identity_validate_def conflicting_def item_id_new_def identity_ok_def)
  ultimately show ?thesis
    using history_accepted_exactly [of "\<lambda>_. True" Responses "[ItemToolResult demo_result, ItemToolCall demo_call]"]
    by simp
qed

theorem tool_results_answer_calls_witness:
  "\<exists>j < 1. \<exists>c. history_items demo_request ! j = ItemToolCall c \<and> tc_call_id c = tr_call_id demo_result"
proof -
  have "1 < length (history_items demo_request)" "history_items demo_request ! 1 = ItemToolResult demo_result"
    by (simp_all add: history_items_def demo_request_def)
  from tool_results_answer_calls [OF demo_request_valid this] show ?thesis by blast
qed

theorem declared_tools_unambiguous_witness:
  "\<exists>!d. d \<in> set (tool_definitions demo_request) \<and> td_identity d = ToolIdentity None ''grep'' \<and>
     kind_of (td_kind d) = Some FunctionKind"
proof -
  have "go_tool_choice (req_generation demo_request) =
      Some (ChoiceNamed (ToolIdentity None ''grep'') FunctionKind responses_extensions)"
    by (simp add: demo_request_def demo_generation_def)
  with declared_tools_unambiguous [OF demo_request_valid] show ?thesis by blast
qed

end
