(* ===== verification/Hex.thy ===== *)
theory Hex
  imports Prelude
begin

text \<open>
  Hexadecimal text, \<open>hex\<close> and \<open>unhex\<close> of \<open>src/src/continuation/mod.rs\<close>, shared by the grammar
  registry, the continuation envelopes and the usage ledger.
\<close>

definition hex_digit :: "nat \<Rightarrow> char" where
  "hex_digit d = (if d < 10 then char_of (48 + d) else char_of (87 + d))"

definition hex :: "string \<Rightarrow> string" where
  "hex bytes = concat (map (\<lambda>b. [hex_digit (byte b div 16), hex_digit (byte b mod 16)]) bytes)"

definition hex_value :: "char \<Rightarrow> nat" where
  "hex_value c = (if is_ascii_digit c then byte c - 48 else byte c - 87)"

fun hex_pairs :: "string \<Rightarrow> string" where
  "hex_pairs (a # b # rest) = char_of (16 * hex_value a + hex_value b) # hex_pairs rest"
| "hex_pairs _ = []"

definition unhex :: "string \<Rightarrow> string option" where
  "unhex text = (if length text mod 2 \<noteq> 0 \<or> \<not> list_all is_lower_hex text then None else Some (hex_pairs text))"

lemma byte_less_256: "byte c < 256"
  by (rule nat_of_char_less_256)

lemma is_lower_hex_hex_digit: "d < 16 \<Longrightarrow> is_lower_hex (hex_digit d)"
  by (auto simp: hex_digit_def is_lower_hex_def is_ascii_digit_def)

lemma hex_value_hex_digit: "d < 16 \<Longrightarrow> hex_value (hex_digit d) = d"
  by (auto simp: hex_digit_def hex_value_def is_ascii_digit_def)

lemma hex_lower: "list_all is_lower_hex (hex bytes)"
proof -
  have "is_lower_hex (hex_digit (byte b div 16)) \<and> is_lower_hex (hex_digit (byte b mod 16))" for b
    using byte_less_256 [of b] by (intro conjI is_lower_hex_hex_digit) (simp_all add: less_mult_imp_div_less)
  then show ?thesis by (auto simp: hex_def list_all_iff)
qed

lemma length_hex: "length (hex bytes) = 2 * length bytes"
  by (induction bytes) (simp_all add: hex_def)

lemma hex_pairs_hex: "hex_pairs (hex bytes) = bytes"
proof (induction bytes)
  case (Cons b bytes)
  have "hex_value (hex_digit (byte b div 16)) = byte b div 16"
    using byte_less_256 [of b] by (intro hex_value_hex_digit) (simp add: less_mult_imp_div_less)
  moreover have "hex_value (hex_digit (byte b mod 16)) = byte b mod 16"
    by (intro hex_value_hex_digit) simp
  ultimately have "char_of (16 * hex_value (hex_digit (byte b div 16)) + hex_value (hex_digit (byte b mod 16))) = b"
    by simp
  with Cons show ?case by (simp add: hex_def)
qed (simp add: hex_def)

lemma unhex_hex: "unhex (hex bytes) = Some bytes"
  by (simp add: unhex_def length_hex hex_lower hex_pairs_hex)

end
