(* ===== verification/Grammar.thy ===== *)
theory Grammar
  imports Request Hex
begin

text \<open>
  The grammar registry of \<open>src/src/ir/grammar.rs\<close>: selection of a grammar from a tool format
  by the digest of its definition, and the syntax check of a patch. The digest function
  (\<open>ring\<close>) is the parameter \<open>sha256\<close>. The patch check is shown to accept exactly the texts of a
  declarative grammar of patches.
\<close>

section \<open>Grammars\<close>

datatype grammar = GrammarText | CodexPatchV1 | CodeModeSourceV1

definition PATCH_GRAMMAR_SHA256 :: string where
  "PATCH_GRAMMAR_SHA256 = map char_of
     [0xd6 :: nat, 0x36, 0x7f, 0x48, 0x26, 0xed, 0x60, 0x8c, 0x42, 0x4b, 0x0a, 0x30, 0x8f, 0x3d, 0x61, 0x63,
      0x52, 0x7d, 0xf6, 0x3c, 0x22, 0x51, 0x3d, 0x08, 0x9b, 0x91, 0x86, 0x35, 0x52, 0xf8, 0xbf, 0xeb]"

definition EXEC_GRAMMAR_SHA256 :: string where
  "EXEC_GRAMMAR_SHA256 = ''8eead048e20069c17fcd0b6fe5ee9ed29364868723f8e08889de146a2b4b7a8e''"

definition from_format_for_contract ::
  "(string \<Rightarrow> string) \<Rightarrow> json option \<Rightarrow> bool \<Rightarrow> ir_error + grammar" where
  "from_format_for_contract sha256 format code_mode =
     (case format of
        None \<Rightarrow> Ok GrammarText
      | Some format \<Rightarrow>
          and_then (ok_or (as_object format) UnsupportedFeature) (\<lambda>fs.
            if str_at format ''type'' = Some ''text'' \<and> fcard (fmdom fs) = 1 then Ok GrammarText
            else if str_at format ''type'' = Some ''grammar'' \<and> fcard (fmdom fs) = 3 \<and>
                str_at format ''syntax'' = Some ''lark''
            then and_then (ok_or (str_at format ''definition'') UnsupportedFeature) (\<lambda>definition.
              if code_mode \<and> hex (sha256 definition) = EXEC_GRAMMAR_SHA256 then Ok CodeModeSourceV1
              else if sha256 definition \<noteq> PATCH_GRAMMAR_SHA256 then Err UnsupportedFeature
              else Ok CodexPatchV1)
            else Err UnsupportedFeature))"

definition from_format :: "(string \<Rightarrow> string) \<Rightarrow> json option \<Rightarrow> ir_error + grammar" where
  "from_format sha256 format = from_format_for_contract sha256 format False"

fun grammar_version :: "grammar \<Rightarrow> string" where
  "grammar_version GrammarText = ''text/1''"
| "grammar_version CodexPatchV1 = ''codex-patch/1''"
| "grammar_version CodeModeSourceV1 = ''codex-code-mode-source/1''"

section \<open>The syntax check\<close>

definition MAX_TEXT :: nat where "MAX_TEXT = 8 * 1024 * 1024"

text \<open>The marker lines of a patch, named.\<close>

definition BEGIN_PATCH :: string where "BEGIN_PATCH = ''*** Begin Patch''"
definition END_PATCH :: string where "END_PATCH = ''*** End Patch''"
definition ADD_FILE :: string where "ADD_FILE = ''*** Add File: ''"
definition DELETE_FILE :: string where "DELETE_FILE = ''*** Delete File: ''"
definition UPDATE_FILE :: string where "UPDATE_FILE = ''*** Update File: ''"
definition MOVE_TO :: string where "MOVE_TO = ''*** Move to: ''"
definition END_OF_FILE :: string where "END_OF_FILE = ''*** End of File''"

lemmas markers =
  BEGIN_PATCH_def END_PATCH_def ADD_FILE_def DELETE_FILE_def UPDATE_FILE_def MOVE_TO_def END_OF_FILE_def

definition path_line :: "string \<Rightarrow> string \<Rightarrow> bool" where
  "path_line line prefix = (case strip_prefix prefix line of None \<Rightarrow> False | Some v \<Rightarrow> v \<noteq> [])"

definition change_line :: "string \<Rightarrow> bool" where
  "change_line line \<longleftrightarrow> line = ''@@'' \<or> path_line line ''@@ '' \<or>
     (case line of [] \<Rightarrow> False | c # _ \<Rightarrow> c \<in> {CHR ''+'', CHR ''-'', CHR '' ''})"

definition plus_line :: "string \<Rightarrow> bool" where
  "plus_line line \<longleftrightarrow> starts_with ''+'' line"

text \<open>What follows an \<open>Update File\<close> header: an optional move, the change lines, and an end-of-file
  marker that needs at least one change line. The result is the lines left over.\<close>

definition after_move :: "string list \<Rightarrow> string list" where
  "after_move lines =
     (case lines of line # rest \<Rightarrow> if path_line line MOVE_TO then rest else lines | [] \<Rightarrow> [])"

definition after_update :: "string list \<Rightarrow> string list option" where
  "after_update lines =
     (let changes = takeWhile change_line (after_move lines);
          rest = dropWhile change_line (after_move lines)
      in case rest of
           line # rest' \<Rightarrow>
             if line = END_OF_FILE then (if changes = [] then None else Some rest') else Some rest
         | [] \<Rightarrow> Some [])"

lemma after_move_length: "length (after_move lines) \<le> length lines"
  by (simp add: after_move_def split: list.split)

lemma after_update_length: "after_update lines = Some rest \<Longrightarrow> length rest \<le> length lines"
proof -
  assume upd: "after_update lines = Some rest"
  define ds where "ds = dropWhile change_line (after_move lines)"
  have "length rest \<le> length ds"
    using upd by (cases ds) (auto simp: after_update_def Let_def ds_def [symmetric] split: if_splits)
  also have "length ds \<le> length lines"
    using after_move_length [of lines] length_dropWhile_le [of change_line "after_move lines"]
    by (simp add: ds_def)
  finally show ?thesis .
qed

function count_hunks :: "nat \<Rightarrow> string list \<Rightarrow> nat option" where
  "count_hunks hunks [] = Some hunks"
| "count_hunks hunks (line # lines) =
     (if path_line line ADD_FILE then
        (if takeWhile plus_line lines = [] then None
         else count_hunks (Suc hunks) (dropWhile plus_line lines))
      else if path_line line DELETE_FILE then count_hunks (Suc hunks) lines
      else if path_line line UPDATE_FILE then
        (case after_update lines of None \<Rightarrow> None | Some rest \<Rightarrow> count_hunks (Suc hunks) rest)
      else None)"
  by pat_completeness auto
termination
  by (relation "measure (length \<circ> snd)")
    (auto simp: le_imp_less_Suc length_dropWhile_le dest: after_update_length)

definition strip_LF :: "string \<Rightarrow> string" where
  "strip_LF text = (case strip_suffix [LF] text of None \<Rightarrow> text | Some t \<Rightarrow> t)"

definition grammar_validate :: "grammar \<Rightarrow> string \<Rightarrow> ir_error + unit" where
  "grammar_validate g text =
     (if length text > MAX_TEXT then Err SizeLimit
      else if g = CodeModeSourceV1 then
        (if text = [] then Err (InvalidField ''code_mode_source'') else Ok ())
      else if g = GrammarText then Ok ()
      else
        and_then (ok_or (Option.bind (strip_prefix (BEGIN_PATCH @ [LF]) (strip_LF text))
            (strip_suffix END_PATCH)) (InvalidField ''custom_tool_grammar'')) (\<lambda>body.
          if \<not> ends_with [LF] body then Err (InvalidField ''custom_tool_grammar'')
          else (case count_hunks 0 (split_terminator LF body) of
                  None \<Rightarrow> Err (InvalidField ''custom_tool_grammar'')
                | Some hunks \<Rightarrow>
                    if hunks = 0 then Err (InvalidField ''custom_tool_grammar'') else Ok ())))"

section \<open>Lines\<close>

definition unlines :: "string list \<Rightarrow> string" where
  "unlines ls = concat (map (\<lambda>l. l @ [LF]) ls)"

definition no_LF :: "string list \<Rightarrow> bool" where
  "no_LF ls \<longleftrightarrow> list_all (\<lambda>l. LF \<notin> set l) ls"

lemma unlines_simps [simp]:
  "unlines [] = []" "unlines (l # ls) = l @ LF # unlines ls" "unlines (ls @ ms) = unlines ls @ unlines ms"
  by (simp_all add: unlines_def)

lemma no_LF_simps [simp]:
  "no_LF []" "no_LF (l # ls) \<longleftrightarrow> LF \<notin> set l \<and> no_LF ls" "no_LF (ls @ ms) \<longleftrightarrow> no_LF ls \<and> no_LF ms"
  by (simp_all add: no_LF_def)

lemma split_char_not_Nil [simp]: "split_char c s \<noteq> []"
  by (induction s) (auto split: list.splits)

lemma split_char_unlines: "no_LF ls \<Longrightarrow> split_char LF (unlines ls) = ls @ [[]]"
  by (induction ls) (simp_all add: split_char_field)

lemma split_terminator_unlines: "no_LF ls \<Longrightarrow> split_terminator LF (unlines ls) = ls"
  by (simp add: split_terminator_def split_char_unlines)

lemma no_LF_split_char: "no_LF (split_char LF s)"
  by (induction s) (auto split: list.splits)

lemma unlines_split_char: "unlines (split_char LF s) = s @ [LF]"
  by (induction s) (auto split: list.splits)

lemma split_char_snoc: "split_char LF (s @ [LF]) = split_char LF s @ [[]]"
  by (induction s) (auto split: list.splits)

text \<open>A text that ends with a newline is the concatenation of its lines, uniquely.\<close>

lemma ends_with_LF_lines:
  assumes "ends_with [LF] body"
  shows "unlines (split_terminator LF body) = body \<and> no_LF (split_terminator LF body) \<and>
    split_terminator LF body \<noteq> []"
proof -
  obtain s where body: "body = s @ [LF]"
    using assms by (auto simp: ends_with_iff)
  have "split_terminator LF body = split_char LF s"
    by (simp add: split_terminator_def body split_char_snoc)
  then show ?thesis
    by (simp add: body unlines_split_char no_LF_split_char)
qed

lemma unlines_inject: "no_LF ls \<Longrightarrow> no_LF ms \<Longrightarrow> unlines ls = unlines ms \<Longrightarrow> ls = ms"
  using split_terminator_unlines by metis

lemma unlines_ends_with_LF: "ls \<noteq> [] \<Longrightarrow> ends_with [LF] (unlines ls)"
  by (cases ls rule: rev_cases) (auto simp: ends_with_iff)

section \<open>A declarative grammar of patches\<close>

text \<open>
  The registered grammar, written down as productions over lines: a hunk adds a file with at
  least one \<open>+\<close> line, deletes one, or updates one, with an optional new name and an
  end-of-file marker that may only follow a change.
\<close>

inductive hunk :: "string list \<Rightarrow> bool" where
  add_file: "\<lbrakk>path \<noteq> []; adds \<noteq> []; \<forall>l \<in> set adds. plus_line l\<rbrakk> \<Longrightarrow>
    hunk ((ADD_FILE @ path) # adds)"
| delete_file: "path \<noteq> [] \<Longrightarrow> hunk [DELETE_FILE @ path]"
| update_file: "\<lbrakk>path \<noteq> []; moves = [] \<or> (\<exists>dest. dest \<noteq> [] \<and> moves = [MOVE_TO @ dest]);
    \<forall>l \<in> set changes. change_line l;
    eof = [] \<or> changes \<noteq> [] \<and> eof = [END_OF_FILE]\<rbrakk> \<Longrightarrow>
    hunk ((UPDATE_FILE @ path) # moves @ changes @ eof)"

definition patch_text :: "string \<Rightarrow> bool" where
  "patch_text text \<longleftrightarrow>
     (\<exists>hunks tail. hunks \<noteq> [] \<and> (\<forall>h \<in> set hunks. hunk h \<and> no_LF h) \<and> tail \<in> {[], [LF]} \<and>
        text = BEGIN_PATCH @ LF # unlines (concat hunks) @ END_PATCH @ tail)"

lemma path_line_append [simp]: "path_line (prefix @ v) prefix \<longleftrightarrow> v \<noteq> []"
  by (simp add: path_line_def)

lemma path_line_iff: "path_line line prefix \<longleftrightarrow> (\<exists>v. v \<noteq> [] \<and> line = prefix @ v)"
  by (auto simp: path_line_def split: option.splits)

text \<open>A hunk begins with a header: a line that no hunk body swallows.\<close>

definition header_line :: "string \<Rightarrow> bool" where
  "header_line line \<longleftrightarrow>
     \<not> plus_line line \<and> \<not> change_line line \<and> \<not> path_line line MOVE_TO \<and> line \<noteq> END_OF_FILE"

lemma header_lines [simp]:
  "header_line (ADD_FILE @ p)"
  "header_line (DELETE_FILE @ p)"
  "header_line (UPDATE_FILE @ p)"
  by (simp_all add: markers header_line_def plus_line_def change_line_def path_line_iff starts_with_iff)

lemma headers_differ [simp]:
  "\<not> path_line (DELETE_FILE @ p) ADD_FILE"
  "\<not> path_line (UPDATE_FILE @ p) ADD_FILE"
  "\<not> path_line (UPDATE_FILE @ p) DELETE_FILE"
  by (simp_all add: markers path_line_iff)

lemma hunk_header: "hunk h \<Longrightarrow> \<exists>l ls. h = l # ls \<and> header_line l"
  by (erule hunk.cases) (metis header_lines)+

lemma concat_hunks_header:
  "\<forall>h \<in> set hs. hunk h \<Longrightarrow> concat hs = [] \<or> header_line (hd (concat hs))"
  by (cases hs) (auto dest: hunk_header)

lemma takeWhile_dropWhile_all:
  assumes "\<forall>x \<in> set xs. P x" and "ys = [] \<or> \<not> P (hd ys)"
  shows "takeWhile P (xs @ ys) = xs \<and> dropWhile P (xs @ ys) = ys"
  using assms by (cases ys) auto

lemma move_not_change [simp]:
  "\<not> change_line (MOVE_TO @ d)" "\<not> change_line END_OF_FILE" "END_OF_FILE \<noteq> MOVE_TO @ d" "MOVE_TO @ d \<noteq> END_OF_FILE"
  by (simp_all add: markers change_line_def path_line_iff)

lemma after_update_hunk:
  assumes moves: "moves = [] \<or> (\<exists>dest. dest \<noteq> [] \<and> moves = [MOVE_TO @ dest])"
    and changes: "\<forall>l \<in> set changes. change_line l"
    and eof: "eof = [] \<or> changes \<noteq> [] \<and> eof = [END_OF_FILE]"
    and rest: "rest = [] \<or> header_line (hd rest)"
  shows "after_update (moves @ changes @ eof @ rest) = Some rest"
proof -
  have notmove: "\<not> path_line l MOVE_TO" if "change_line l \<or> header_line l \<or> l = END_OF_FILE" for l
    using that by (auto simp: header_line_def path_line_iff)
  have "after_move (moves @ changes @ eof @ rest) = changes @ eof @ rest"
  proof (cases "moves = []")
    case True
    then show ?thesis
      using changes eof rest notmove
      by (cases changes; cases eof; cases rest) (auto simp: after_move_def)
  next
    case False
    with moves show ?thesis by (auto simp: after_move_def)
  qed
  moreover have "takeWhile change_line (changes @ eof @ rest) = changes \<and>
      dropWhile change_line (changes @ eof @ rest) = eof @ rest"
    using changes eof rest by (intro takeWhile_dropWhile_all) (auto simp: header_line_def)
  ultimately show ?thesis
    using eof rest by (cases rest) (auto simp: after_update_def Let_def header_line_def)
qed

lemma count_hunks_hunk:
  assumes "hunk h" and "rest = [] \<or> header_line (hd rest)"
  shows "count_hunks n (h @ rest) = count_hunks (Suc n) rest"
  using assms(1)
proof cases
  case (add_file path adds)
  have "takeWhile plus_line (adds @ rest) = adds \<and> dropWhile plus_line (adds @ rest) = rest"
    using add_file assms(2) by (intro takeWhile_dropWhile_all) (auto simp: header_line_def)
  with add_file show ?thesis by simp
next
  case (delete_file path)
  then show ?thesis by simp
next
  case (update_file path moves changes eof)
  then have "after_update (moves @ changes @ eof @ rest) = Some rest"
    by (intro after_update_hunk assms(2))
  with update_file show ?thesis by simp
qed

lemma count_hunks_complete:
  "\<forall>h \<in> set hs. hunk h \<Longrightarrow> count_hunks n (concat hs) = Some (n + length hs)"
proof (induction hs arbitrary: n)
  case (Cons h hs)
  then have "count_hunks n (h @ concat hs) = count_hunks (Suc n) (concat hs)"
    by (intro count_hunks_hunk concat_hunks_header) auto
  with Cons show ?case by simp
qed simp

lemma after_update_sound:
  assumes "after_update lines = Some rest"
  shows "\<exists>moves changes eof. lines = moves @ changes @ eof @ rest \<and>
    (moves = [] \<or> (\<exists>dest. dest \<noteq> [] \<and> moves = [MOVE_TO @ dest])) \<and>
    (\<forall>l \<in> set changes. change_line l) \<and> (eof = [] \<or> changes \<noteq> [] \<and> eof = [END_OF_FILE])"
proof -
  obtain moves where m: "lines = moves @ after_move lines"
    "moves = [] \<or> (\<exists>dest. dest \<noteq> [] \<and> moves = [MOVE_TO @ dest])"
  proof (cases "after_move lines = lines")
    case True
    then show ?thesis using that [of "[]"] by simp
  next
    case False
    then obtain dest ls where "lines = (MOVE_TO @ dest) # ls" "dest \<noteq> []" "after_move lines = ls"
      by (auto simp: after_move_def path_line_iff split: list.splits if_splits)
    then show ?thesis using that [of "[MOVE_TO @ dest]"] by simp
  qed
  define changes where "changes = takeWhile change_line (after_move lines)"
  have split: "after_move lines = changes @ dropWhile change_line (after_move lines)"
    by (simp add: changes_def)
  have ch: "\<forall>l \<in> set changes. change_line l"
    by (auto simp: changes_def dest: set_takeWhileD)
  have "\<exists>eof. dropWhile change_line (after_move lines) = eof @ rest \<and>
      (eof = [] \<or> changes \<noteq> [] \<and> eof = [END_OF_FILE])"
    using assms by (cases "dropWhile change_line (after_move lines)")
      (auto simp: after_update_def Let_def changes_def split: if_splits)
  with m split ch show ?thesis by metis
qed

lemma count_hunks_sound:
  "count_hunks n lines = Some m \<Longrightarrow>
     \<exists>hs. lines = concat hs \<and> (\<forall>h \<in> set hs. hunk h) \<and> m = n + length hs"
proof (induction n lines rule: count_hunks.induct)
  case (1 hunks)
  then show ?case by (intro exI [of _ "[]"]) simp
next
  case (2 hunks line lines)
  have cons: "\<exists>hs. line # lines = concat hs \<and> (\<forall>h \<in> set hs. hunk h) \<and> m = hunks + length hs"
    if "hunk (line # body)" "lines = body @ rest" "rest = concat hs" "\<forall>h \<in> set hs. hunk h" "m = Suc hunks + length hs"
    for body rest hs
    using that by (intro exI [of _ "(line # body) # hs"]) auto
  consider (add) "path_line line ADD_FILE" "takeWhile plus_line lines \<noteq> []"
      "count_hunks (Suc hunks) (dropWhile plus_line lines) = Some m"
    | (del) "\<not> path_line line ADD_FILE" "path_line line DELETE_FILE"
      "count_hunks (Suc hunks) lines = Some m"
    | (upd) rest where "\<not> path_line line ADD_FILE" "\<not> path_line line DELETE_FILE"
      "path_line line UPDATE_FILE" "after_update lines = Some rest" "count_hunks (Suc hunks) rest = Some m"
    using 2(4) by (auto split: if_splits option.splits)
  then show ?case
  proof cases
    case add
    from 2(1) [OF add] obtain hs where hs: "dropWhile plus_line lines = concat hs" "\<forall>h \<in> set hs. hunk h"
      "m = Suc hunks + length hs" by auto
    have "hunk (line # takeWhile plus_line lines)"
      using add by (auto simp: path_line_iff intro!: hunk.add_file dest: set_takeWhileD)
    then show ?thesis
      using hs(2,3)
      by (intro cons [of "takeWhile plus_line lines" "dropWhile plus_line lines" hs]) (simp_all add: hs(1) [symmetric])
  next
    case del
    from 2(2) [OF del] obtain hs where hs: "lines = concat hs" "\<forall>h \<in> set hs. hunk h" "m = Suc hunks + length hs"
      by auto
    have "hunk (line # [])"
      using del by (auto simp: path_line_iff intro!: hunk.delete_file)
    then show ?thesis using cons [of "[]" lines hs] hs by simp
  next
    case upd
    from 2(3) [OF upd(1,2,3,4,5)] obtain hs where hs: "rest = concat hs" "\<forall>h \<in> set hs. hunk h"
      "m = Suc hunks + length hs" by auto
    obtain moves changes eof where parts: "lines = moves @ changes @ eof @ rest"
      "moves = [] \<or> (\<exists>dest. dest \<noteq> [] \<and> moves = [MOVE_TO @ dest])"
      "\<forall>l \<in> set changes. change_line l" "eof = [] \<or> changes \<noteq> [] \<and> eof = [END_OF_FILE]"
      using after_update_sound [OF upd(4)] by blast
    have "hunk (line # moves @ changes @ eof)"
      using upd(3) parts(2-4) by (auto simp: path_line_iff intro!: hunk.update_file)
    then show ?thesis using cons [of "moves @ changes @ eof" rest hs] parts(1) hs by simp
  qed
qed

lemma strip_LF_cases: "text = strip_LF text \<or> text = strip_LF text @ [LF]"
  by (auto simp: strip_LF_def split: option.splits)

lemma strip_LF_snoc [simp]: "strip_LF (t @ [LF]) = t"
  by (simp add: strip_LF_def split: option.splits)

lemma strip_LF_End_Patch [simp]: "strip_LF (t @ END_PATCH) = t @ END_PATCH"
  by (auto simp: strip_LF_def END_PATCH_def split: option.splits)

lemma strip_LF_tail: "tail \<in> {[], [LF]} \<Longrightarrow> strip_LF (t @ END_PATCH @ tail) = t @ END_PATCH"
  using strip_LF_snoc [of "t @ END_PATCH"] by auto

lemma hunks_checked:
  "(if \<not> b then Err e else case c of None \<Rightarrow> Err e | Some n \<Rightarrow> if n = 0 then Err e else Ok ()) = Ok () \<longleftrightarrow>
     b \<and> (\<exists>n. c = Some (Suc n))"
  by (auto simp: gr0_conv_Suc split: option.splits)

lemma patch_check_iff:
  "grammar_validate CodexPatchV1 text = Ok () \<longleftrightarrow> length text \<le> MAX_TEXT \<and> patch_text text"
proof -
  have accept: "grammar_validate CodexPatchV1 text = Ok () \<longleftrightarrow> length text \<le> MAX_TEXT \<and>
      (\<exists>body hunks. strip_LF text = BEGIN_PATCH @ LF # body @ END_PATCH \<and> ends_with [LF] body \<and>
         count_hunks 0 (split_terminator LF body) = Some (Suc hunks))"
    by (auto simp: grammar_validate_def bind_eq_Some_conv hunks_checked)
  show ?thesis
  proof
    assume "grammar_validate CodexPatchV1 text = Ok ()"
    then obtain body n where len: "length text \<le> MAX_TEXT"
      and stripped: "strip_LF text = BEGIN_PATCH @ LF # body @ END_PATCH" and body: "ends_with [LF] body"
      and count: "count_hunks 0 (split_terminator LF body) = Some (Suc n)"
      using accept by blast
    from count_hunks_sound [OF count] obtain hs where hs: "split_terminator LF body = concat hs"
      "\<forall>h \<in> set hs. hunk h" "length hs = Suc n" by auto
    have lines: "unlines (concat hs) = body" "no_LF (concat hs)"
      using ends_with_LF_lines [OF body] hs(1) by auto
    have "\<forall>h \<in> set hs. no_LF h"
      using lines(2) by (auto simp: no_LF_def list_all_iff)
    moreover have "\<exists>tail \<in> {[], [LF]}. text = BEGIN_PATCH @ LF # unlines (concat hs) @ END_PATCH @ tail"
      using strip_LF_cases [of "text"] stripped lines(1) by auto
    ultimately show "length text \<le> MAX_TEXT \<and> patch_text text"
      using len hs(2,3) unfolding patch_text_def by (metis length_0_conv nat.distinct(1))
  next
    assume "length text \<le> MAX_TEXT \<and> patch_text text"
    then obtain hs tail where len: "length text \<le> MAX_TEXT" and hs: "hs \<noteq> []" "\<forall>h \<in> set hs. hunk h \<and> no_LF h"
      "tail \<in> {[], [LF]}" "text = BEGIN_PATCH @ LF # unlines (concat hs) @ END_PATCH @ tail"
      unfolding patch_text_def by blast
    have strip: "strip_LF text = BEGIN_PATCH @ LF # unlines (concat hs) @ END_PATCH"
      using strip_LF_tail [OF hs(3), of "BEGIN_PATCH @ LF # unlines (concat hs)"] hs(4) by simp
    have nl: "no_LF (concat hs)" using hs(2) by (auto simp: no_LF_def list_all_iff)
    have ne: "concat hs \<noteq> []" using hs(1,2) by (cases hs) (auto dest: hunk_header)
    have "count_hunks 0 (split_terminator LF (unlines (concat hs))) = Some (length hs)"
      using count_hunks_complete [of hs 0] hs(2) by (simp add: split_terminator_unlines [OF nl])
    then show "grammar_validate CodexPatchV1 text = Ok ()"
      using accept strip len unlines_ends_with_LF [OF ne] hs(1) by (metis length_0_conv not0_implies_Suc)
  qed
qed

text \<open>C15. The patch check accepts exactly the texts of the declarative grammar, within the size
  limit: the hand-written scanner neither admits a malformed patch nor refuses a well-formed one.\<close>

theorem patch_check_exact:
  "grammar_validate CodexPatchV1 text = Ok () \<longleftrightarrow> length text \<le> MAX_TEXT \<and> patch_text text"
  by (rule patch_check_iff)

end
