(* ===== verification/Editing.thy ===== *)
theory Editing
  imports Grammar
begin

text \<open>
  The editing representations of \<open>src/src/editing/mod.rs\<close>: policies, context edits and their
  canonical patch text, the Code Mode helper program, the text-part results of Code Mode, and
  the normalization of a patch envelope. What \<open>serde_json\<close> prints and parses are the
  functions of the parameter \<open>serde\<close>.
\<close>

section \<open>Policies\<close>

datatype client_contract = Direct | CodeMode
datatype representation = Operations | PatchText | ContextLines
datatype patch_dialect = CodexPatch
datatype normalization = NormalizationNone | PatchEnvelope

record policy =
  po_version :: u32
  po_client_contract :: client_contract
  po_representation :: representation
  po_patch_dialect :: patch_dialect
  po_normalization :: normalization
  po_client_descriptor_sha256 :: "string option"

definition policy_validate :: "policy \<Rightarrow> ir_error + unit" where
  "policy_validate p =
     (let descriptor_valid = (case po_client_contract p of
            Direct \<Rightarrow> po_client_descriptor_sha256 p = None
          | CodeMode \<Rightarrow> (case po_client_descriptor_sha256 p of
                None \<Rightarrow> False
              | Some s \<Rightarrow> length s = 64 \<and> list_all is_lower_hex s))
      in if po_version p \<noteq> 1 \<or> \<not> descriptor_valid \<or>
            (po_client_contract p = CodeMode \<and> po_normalization p \<noteq> NormalizationNone)
         then Err UnsupportedVersion else Ok ())"

section \<open>Edits\<close>

record context_edit =
  ce_path :: string
  ce_before_context :: "string list"
  ce_old_lines :: "string list"
  ce_new_lines :: "string list"
  ce_after_context :: "string list"

datatype operation =
    Create string "string list"
  | Delete string
  | Move string string "string list"
  | Update context_edit

type_synonym operation_bundle = "operation list"

text \<open>
  The functions of \<open>serde_json\<close> the gateway calls: the text of a string, an edit, a bundle and
  a value, the parsers of these and of the two envelope types, and the text of the triple
  of namespace, name and policy that names a synthetic editing tool.
\<close>

record serde =
  sj_string :: "string \<Rightarrow> string"
  sj_parse_string :: "string \<Rightarrow> string option"
  sj_edit :: "context_edit \<Rightarrow> string"
  sj_parse_edit :: "string \<Rightarrow> context_edit option"
  sj_bundle :: "operation_bundle \<Rightarrow> string"
  sj_parse_bundle :: "string \<Rightarrow> operation_bundle option"
  sj_value :: "json \<Rightarrow> string"
  sj_parse_value :: "string \<Rightarrow> json option"
  sj_parse_parts :: "string \<Rightarrow> (string \<times> json) option"
  sj_parse_input :: "string \<Rightarrow> string option"
  sj_policy_key :: "string option \<Rightarrow> string \<Rightarrow> policy \<Rightarrow> string"

abbreviation invalid :: ir_error where "invalid \<equiv> InvalidField ''structured_edit''"

text \<open>
  \<open>path.trim() == path\<close> on UTF-8 bytes: no encoding of a white-space character (U+0009 to
  U+000D, U+0020, U+0085, U+00A0, U+1680, U+2000 to U+200A, U+2028, U+2029, U+202F, U+205F,
  U+3000) at either end.
\<close>

definition white_space :: "string list" where
  "white_space =
     map (\<lambda>n. [char_of (n :: nat)]) [9, 10, 11, 12, 13, 32] @
     map (map char_of)
       ([[0xC2 :: nat, 0x85], [0xC2, 0xA0], [0xE1, 0x9A, 0x80]] @
        map (\<lambda>n. [0xE2, 0x80, n]) [0x80, 0x81, 0x82, 0x83, 0x84, 0x85, 0x86, 0x87, 0x88, 0x89, 0x8A, 0xA8, 0xA9, 0xAF] @
        [[0xE2, 0x81, 0x9F], [0xE3, 0x80, 0x80]])"

definition trimmed :: "string \<Rightarrow> bool" where
  "trimmed s \<longleftrightarrow> \<not> list_ex (\<lambda>w. starts_with w s \<or> ends_with w s) white_space"

definition bad_line :: "string \<Rightarrow> bool" where
  "bad_line s \<longleftrightarrow> LF \<in> set s \<or> CR \<in> set s \<or> NUL \<in> set s"

definition edit_from_json :: "serde \<Rightarrow> string \<Rightarrow> ir_error + context_edit" where
  "edit_from_json sj raw =
     (if length raw > MAX_TEXT then Err SizeLimit else ok_or (sj_parse_edit sj raw) invalid)"

definition push_line :: "char \<Rightarrow> string \<Rightarrow> string \<Rightarrow> ir_error + string" where
  "push_line prefix patch line =
     (let patch = patch @ prefix # line @ [LF]
      in if length patch > MAX_TEXT then Err SizeLimit else Ok patch)"

definition edit_groups :: "context_edit \<Rightarrow> (char \<times> string list) list" where
  "edit_groups e =
     [(CHR '' '', ce_before_context e), (CHR ''-'', ce_old_lines e), (CHR ''+'', ce_new_lines e),
      (CHR '' '', ce_after_context e)]"

definition edit_compile :: "context_edit \<Rightarrow> ir_error + string" where
  "edit_compile e =
     (if ce_path e = [] \<or> \<not> trimmed (ce_path e) \<or> has_control (ce_path e) \<or>
         ce_old_lines e = ce_new_lines e \<or> ce_old_lines e = []
      then Err invalid
      else if sum_list (map (length \<circ> snd) (edit_groups e)) > 16384 \<or>
              list_ex (list_ex bad_line \<circ> snd) (edit_groups e)
      then Err invalid
      else
        and_then (fold_result (\<lambda>patch (prefix, lines). fold_result (push_line prefix) patch lines)
            (BEGIN_PATCH @ LF # UPDATE_FILE @ ce_path e @ LF # ''@@'' @ [LF]) (edit_groups e)) (\<lambda>patch.
        let patch = patch @ END_PATCH
        in and_then (grammar_validate CodexPatchV1 patch) (\<lambda>_. Ok patch)))"

fun place_line :: "nat \<times> context_edit \<Rightarrow> string \<Rightarrow> ir_error + nat \<times> context_edit" where
  "place_line (phase, value) [] = Err invalid"
| "place_line (phase, value) (prefix # t) =
     (if prefix = CHR '' '' \<and> phase = 0 then
        Ok (phase, value\<lparr>ce_before_context := ce_before_context value @ [t]\<rparr>)
      else if prefix = CHR ''-'' \<and> phase \<le> 1 then
        Ok (1, value\<lparr>ce_old_lines := ce_old_lines value @ [t]\<rparr>)
      else if prefix = CHR ''+'' \<and> 1 \<le> phase \<and> phase \<le> 2 then
        Ok (2, value\<lparr>ce_new_lines := ce_new_lines value @ [t]\<rparr>)
      else if prefix = CHR '' '' \<and> phase \<ge> 1 then
        Ok (3, value\<lparr>ce_after_context := ce_after_context value @ [t]\<rparr>)
      else Err invalid)"

definition empty_edit :: "string \<Rightarrow> context_edit" where
  "empty_edit path =
     \<lparr>ce_path = path, ce_before_context = [], ce_old_lines = [], ce_new_lines = [], ce_after_context = []\<rparr>"

definition edit_from_patch :: "string \<Rightarrow> ir_error + context_edit" where
  "edit_from_patch patch =
     and_then (ok_or (strip_prefix (BEGIN_PATCH @ LF # UPDATE_FILE) patch) invalid) (\<lambda>body.
     and_then (ok_or (split_once (LF # ''@@'' @ [LF]) body) invalid) (\<lambda>(path, body).
     and_then (ok_or (strip_suffix END_PATCH body) invalid) (\<lambda>body.
     and_then (fold_result place_line (0, empty_edit path) (split_terminator LF body)) (\<lambda>(phase, value).
     and_then (edit_compile value) (\<lambda>compiled.
       if compiled \<noteq> patch then Err invalid else Ok value)))))"

definition string_schema :: json where "string_schema = obj [(''type'', JString ''string'')]"

definition lines_schema :: json where
  "lines_schema = obj [(''type'', JString ''array''), (''items'', string_schema)]"

definition strings :: "string list \<Rightarrow> json" where "strings xs = JArray (map JString xs)"

definition edit_schema :: json where
  "edit_schema = obj
     [(''type'', JString ''object''),
      (''properties'', obj
         [(''path'', string_schema), (''before_context'', lines_schema), (''old_lines'', lines_schema),
          (''new_lines'', lines_schema), (''after_context'', lines_schema)]),
      (''required'', strings [''path'', ''before_context'', ''old_lines'', ''new_lines'', ''after_context'']),
      (''additionalProperties'', JBool False)]"

section \<open>Code Mode\<close>

definition WRAPPER_PREFIX :: string where
  "WRAPPER_PREFIX = ''const result = await tools.apply_patch(''"

definition WRAPPER_SUFFIX :: string where
  "WRAPPER_SUFFIX = '');'' @ LF # ''text(result);''"

definition helper_program :: "serde \<Rightarrow> string \<Rightarrow> ir_error + string" where
  "helper_program sj patch =
     and_then (grammar_validate CodexPatchV1 patch) (\<lambda>_.
       let program = WRAPPER_PREFIX @ sj_string sj patch @ WRAPPER_SUFFIX
       in if length program > MAX_TEXT then Err SizeLimit else Ok program)"

definition helper_patch :: "serde \<Rightarrow> string \<Rightarrow> ir_error + string" where
  "helper_patch sj program =
     (if length program > MAX_TEXT then Err SizeLimit
      else
        and_then (ok_or (Option.bind (strip_prefix WRAPPER_PREFIX program) (strip_suffix WRAPPER_SUFFIX)) invalid)
          (\<lambda>encoded.
        and_then (ok_or (sj_parse_string sj encoded) invalid) (\<lambda>patch.
        and_then (helper_program sj patch) (\<lambda>again.
          if again \<noteq> program then Err invalid else Ok patch))))"

fun is_text_part :: "json \<Rightarrow> bool" where
  "is_text_part (JObject m) \<longleftrightarrow>
     fcard (fmdom m) = 2 \<and> fmlookup m ''type'' = Some (JString ''input_text'') \<and>
     (case fmlookup m ''text'' of None \<Rightarrow> False | Some v \<Rightarrow> is_string v)"
| "is_text_part _ = False"

definition RESULT_SCHEMA :: string where "RESULT_SCHEMA = ''codex-exec-text-parts/v1''"

definition code_mode_result :: "serde \<Rightarrow> json \<Rightarrow> ir_error + string" where
  "code_mode_result sj parts =
     and_then (ok_or (as_array parts) invalid) (\<lambda>values.
       if length values > 4096 \<or> list_ex (\<lambda>v. \<not> is_text_part v) values then Err invalid
       else
         let result = sj_value sj (obj [(''schema'', JString RESULT_SCHEMA), (''parts'', parts)])
         in if length result > MAX_TEXT then Err SizeLimit else Ok result)"

definition code_mode_result_parts :: "serde \<Rightarrow> string \<Rightarrow> ir_error + json" where
  "code_mode_result_parts sj t =
     (if length t > MAX_TEXT then Err SizeLimit
      else
        and_then (ok_or (sj_parse_parts sj t) invalid) (\<lambda>(schema, parts).
          if schema \<noteq> RESULT_SCHEMA then Err invalid
          else and_then (code_mode_result sj parts) (\<lambda>again.
            if again \<noteq> t then Err invalid else Ok parts)))"

definition is_freeform :: "tool_input \<Rightarrow> bool" where
  "is_freeform i = (case i of Freeform _ \<Rightarrow> True | Json _ \<Rightarrow> False)"

fun check_code_mode_item :: "serde \<Rightarrow> call_id set \<Rightarrow> item \<Rightarrow> ir_error + call_id set" where
  "check_code_mode_item sj calls (ItemToolCall c) =
     (if tool_name (tc_tool c) = ''exec'' \<and> namespace (tc_tool c) = None \<and> is_freeform (tc_input c)
      then Ok (insert (tc_call_id c) calls) else Ok calls)"
| "check_code_mode_item sj calls (ItemToolResult r) =
     (if tr_call_id r \<in> calls then and_then (code_mode_result sj (tr_output r)) (\<lambda>_. Ok calls)
      else if \<not> is_string (tr_output r) then Err UnsupportedFeature
      else Ok calls)"
| "check_code_mode_item sj calls _ = Ok calls"

definition validate_code_mode_results :: "serde \<Rightarrow> request_ir \<Rightarrow> ir_error + unit" where
  "validate_code_mode_results sj request =
     and_then (fold_result (check_code_mode_item sj) {} (history_items request)) (\<lambda>_. Ok ())"

section \<open>Envelope normalization\<close>

record normalized_patch =
  np_text :: string
  np_applied_rule :: "string option"

definition normalize_patch_envelope :: "string \<Rightarrow> ir_error + normalized_patch" where
  "normalize_patch_envelope t =
     (if length t > MAX_TEXT then Err SizeLimit
      else
        let unchanged = \<lparr>np_text = t, np_applied_rule = None\<rparr> in
        case split_once [LF] (strip_LF t) of
          None \<Rightarrow> Ok unchanged
        | Some (first, rest) \<Rightarrow>
            (case rsplit_once [LF] rest of
               None \<Rightarrow> Ok unchanged
             | Some (middle, final) \<Rightarrow>
                 if first \<notin> {BEGIN_PATCH, BEGIN_PATCH @ '' ***''} \<or>
                    final \<notin> {END_PATCH, END_PATCH @ '' ***''} \<or>
                    (first = BEGIN_PATCH \<and> final = END_PATCH)
                 then Ok unchanged
                 else
                   let corrected = BEGIN_PATCH @ LF # middle @ LF # END_PATCH @
                         (if ends_with [LF] t then [LF] else [])
                   in and_then (grammar_validate CodexPatchV1 corrected) (\<lambda>_.
                        Ok \<lparr>np_text = corrected, np_applied_rule = Some ''patch-envelope/v1''\<rparr>)))"

section \<open>Edits and their canonical text\<close>

definition edit_lines :: "context_edit \<Rightarrow> string list" where
  "edit_lines e = concat (map (\<lambda>(prefix, lines). map (Cons prefix) lines) (edit_groups e))"

definition edit_hunk :: "context_edit \<Rightarrow> string list" where
  "edit_hunk e = (UPDATE_FILE @ ce_path e) # ''@@'' # edit_lines e"

definition patch_of :: "string list \<Rightarrow> string" where
  "patch_of lines = BEGIN_PATCH @ LF # unlines lines @ END_PATCH"

text \<open>The edits that have a patch: a clean path, a real change, bounded and clean lines.\<close>

definition edit_admissible :: "context_edit \<Rightarrow> bool" where
  "edit_admissible e \<longleftrightarrow>
     ce_path e \<noteq> [] \<and> trimmed (ce_path e) \<and> \<not> has_control (ce_path e) \<and>
     ce_old_lines e \<noteq> ce_new_lines e \<and> ce_old_lines e \<noteq> [] \<and>
     sum_list (map (length \<circ> snd) (edit_groups e)) \<le> 16384 \<and>
     \<not> list_ex (list_ex bad_line \<circ> snd) (edit_groups e)"

lemma push_line_Ok: "push_line p s l = Ok t \<longleftrightarrow> t = s @ p # l @ [LF] \<and> length t \<le> MAX_TEXT"
  by (auto simp: push_line_def Let_def)

lemma push_lines_Ok:
  "fold_result (push_line p) s ls = Ok t \<longleftrightarrow>
     t = s @ unlines (map (Cons p) ls) \<and> (ls = [] \<or> length t \<le> MAX_TEXT)"
proof (induction ls arbitrary: s)
  case (Cons l ls)
  show ?case
    by (auto simp: Cons push_line_Ok)
qed auto

lemma push_groups_Ok:
  "fold_result (\<lambda>patch (p, ls). fold_result (push_line p) patch ls) s gs = Ok t \<longleftrightarrow>
     t = s @ unlines (concat (map (\<lambda>(p, ls). map (Cons p) ls) gs)) \<and>
     ((\<forall>g \<in> set gs. snd g = []) \<or> length t \<le> MAX_TEXT)"
proof (induction gs arbitrary: s)
  case (Cons g gs)
  obtain p ls where g: "g = (p, ls)" by (cases g)
  have nil: "unlines (concat (map (\<lambda>(p, ls). map (Cons p) ls) gs)) = []" if "\<forall>g \<in> set gs. snd g = []"
    using that by (induction gs) auto
  show ?case
    using nil by (auto simp: g Cons push_lines_Ok)
qed auto

lemma change_line_Cons: "c \<in> {CHR ''+'', CHR ''-'', CHR '' ''} \<Longrightarrow> change_line (c # t)"
  by (simp add: change_line_def)

lemma edit_lines_change: "l \<in> set (edit_lines e) \<Longrightarrow> change_line l"
  by (auto simp: edit_lines_def edit_groups_def intro!: change_line_Cons)

lemma edit_hunk_hunk: "ce_path e \<noteq> [] \<Longrightarrow> hunk (edit_hunk e)"
  using hunk.update_file [of "ce_path e" "[]" "''@@'' # edit_lines e" "[]"] edit_lines_change
  by (auto simp: edit_hunk_def change_line_def)

lemma edit_hunk_no_LF: "edit_admissible e \<Longrightarrow> no_LF (edit_hunk e)"
  by (auto simp: edit_hunk_def edit_admissible_def edit_lines_def edit_groups_def no_LF_def list_all_iff
      list_ex_iff bad_line_def UPDATE_FILE_def dest: no_control_LF)

lemma patch_of_hunks:
  assumes "hs \<noteq> []" and "\<And>h. h \<in> set hs \<Longrightarrow> hunk h \<and> no_LF h"
  shows "patch_text (patch_of (concat hs))"
  unfolding patch_text_def patch_of_def using assms by (intro exI [of _ hs] exI [of _ "[]"]) auto

lemma edit_patch_valid:
  assumes "edit_admissible e"
  shows "grammar_validate CodexPatchV1 (patch_of (edit_hunk e)) = Ok () \<longleftrightarrow>
    length (patch_of (edit_hunk e)) \<le> MAX_TEXT"
proof -
  have "patch_text (patch_of (concat [edit_hunk e]))"
    using assms edit_hunk_hunk [of e] edit_hunk_no_LF [of e]
    by (intro patch_of_hunks) (auto simp: edit_admissible_def)
  then show ?thesis by (simp add: patch_check_iff)
qed

lemma edit_compile_Ok:
  "edit_compile e = Ok p \<longleftrightarrow>
     edit_admissible e \<and> p = patch_of (edit_hunk e) \<and> length p \<le> MAX_TEXT"
proof (cases "edit_admissible e")
  case True
  have old: "\<not> (\<forall>g \<in> set (edit_groups e). snd g = [])"
    using True by (auto simp: edit_admissible_def edit_groups_def)
  have text_eq: "(BEGIN_PATCH @ LF # UPDATE_FILE @ ce_path e @ LF # ''@@'' @ [LF]) @
      unlines (edit_lines e) @ END_PATCH = patch_of (edit_hunk e)"
    by (simp add: patch_of_def edit_hunk_def)
  then have "length ((BEGIN_PATCH @ LF # UPDATE_FILE @ ce_path e @ LF # ''@@'' @ [LF]) @ unlines (edit_lines e)) \<le>
      length (patch_of (edit_hunk e))"
    by (simp add: patch_of_def edit_hunk_def)
  note len = order_trans [OF this]
  have "edit_compile e = Ok p \<longleftrightarrow>
      (\<exists>patch. patch = (BEGIN_PATCH @ LF # UPDATE_FILE @ ce_path e @ LF # ''@@'' @ [LF]) @ unlines (edit_lines e) \<and>
        length patch \<le> MAX_TEXT \<and> grammar_validate CodexPatchV1 (patch @ END_PATCH) = Ok () \<and> p = patch @ END_PATCH)"
    using True old
    by (auto simp: edit_compile_def edit_admissible_def push_groups_Ok edit_lines_def Let_def)
  also have "\<dots> \<longleftrightarrow> p = patch_of (edit_hunk e) \<and> length p \<le> MAX_TEXT"
    using edit_patch_valid [OF True] text_eq len by (metis append.assoc)
  finally show ?thesis using True by simp
next
  case False
  then show ?thesis
    by (auto simp: edit_compile_def edit_admissible_def)
qed

text \<open>Reading the lines of an edit back, group by group.\<close>

lemma place_before:
  "fold_result place_line (0, v) (map (Cons (CHR '' '')) ls) =
     Ok (0, v\<lparr>ce_before_context := ce_before_context v @ ls\<rparr>)"
  by (induction ls arbitrary: v) simp_all

lemma place_old:
  "phase \<le> 1 \<Longrightarrow> fold_result place_line (phase, v) (map (Cons (CHR ''-'')) ls) =
     Ok (if ls = [] then phase else 1, v\<lparr>ce_old_lines := ce_old_lines v @ ls\<rparr>)"
  by (induction ls arbitrary: v phase) simp_all

lemma place_new:
  "1 \<le> phase \<Longrightarrow> phase \<le> 2 \<Longrightarrow> fold_result place_line (phase, v) (map (Cons (CHR ''+'')) ls) =
     Ok (if ls = [] then phase else 2, v\<lparr>ce_new_lines := ce_new_lines v @ ls\<rparr>)"
  by (induction ls arbitrary: v phase) simp_all

lemma place_after:
  "1 \<le> phase \<Longrightarrow> fold_result place_line (phase, v) (map (Cons (CHR '' '')) ls) =
     Ok (if ls = [] then phase else 3, v\<lparr>ce_after_context := ce_after_context v @ ls\<rparr>)"
  by (induction ls arbitrary: v phase) simp_all

lemma place_edit_lines:
  assumes "ce_old_lines e \<noteq> []"
  shows "\<exists>phase. fold_result place_line (0, empty_edit (ce_path e)) (edit_lines e) = Ok (phase, e)"
  using assms
  by (simp add: edit_lines_def edit_groups_def fold_result_append place_before place_old place_new
      place_after empty_edit_def)

lemma split_once_at:
  assumes "LF \<notin> set path"
  shows "split_once (LF # sep) (path @ LF # sep @ rest) = Some (path, rest)"
  using assms
proof (induction path)
  case Nil
  then show ?case by (simp add: strip_prefix_append)
next
  case (Cons c path)
  then show ?case by simp
qed

lemma edit_from_patch_iff: "edit_from_patch p = Ok e \<longleftrightarrow> edit_compile e = Ok p"
proof
  assume "edit_from_patch p = Ok e"
  then show "edit_compile e = Ok p"
    by (auto simp: edit_from_patch_def split: prod.splits if_splits)
next
  assume compiled: "edit_compile e = Ok p"
  then have adm: "edit_admissible e" and p: "p = patch_of (edit_hunk e)"
    by (simp_all add: edit_compile_Ok)
  have path: "LF \<notin> set (ce_path e)"
    using adm by (auto simp: edit_admissible_def dest: no_control_LF)
  have lines: "no_LF (edit_lines e)"
    using edit_hunk_no_LF [OF adm] by (simp add: edit_hunk_def)
  have split: "split_once (LF # ''@@'' @ [LF]) (ce_path e @ LF # ''@@'' @ LF # unlines (edit_lines e) @ END_PATCH) =
      Some (ce_path e, unlines (edit_lines e) @ END_PATCH)"
    using split_once_at [OF path, of "''@@'' @ [LF]"] by simp
  have body: "strip_prefix (BEGIN_PATCH @ LF # UPDATE_FILE) p =
      Some (ce_path e @ LF # ''@@'' @ LF # unlines (edit_lines e) @ END_PATCH)"
    by (simp add: p patch_of_def edit_hunk_def)
  obtain phase where place: "fold_result place_line (0, empty_edit (ce_path e)) (edit_lines e) = Ok (phase, e)"
    using place_edit_lines adm by (auto simp: edit_admissible_def)
  show "edit_from_patch p = Ok e"
    using compiled place split body
    by (simp add: edit_from_patch_def split_terminator_unlines [OF lines] del: strip_prefix_Some)
qed

text \<open>Context edits and canonical patches correspond one to one: an edit compiles exactly when
  it is admissible and its patch fits the size limit (the final grammar check never refuses it),
  and a patch is read back as an edit exactly when it is the text that edit compiles to.\<close>

theorem context_edit_round_trip:
  "(edit_compile e = Ok p \<longleftrightarrow> edit_admissible e \<and> p = patch_of (edit_hunk e) \<and> length p \<le> MAX_TEXT) \<and>
   (edit_from_patch p = Ok e \<longleftrightarrow> edit_compile e = Ok p)"
  by (intro conjI edit_compile_Ok edit_from_patch_iff)

section \<open>Normalization and helpers\<close>

lemma split_once_LF: "LF \<notin> set a \<Longrightarrow> split_once [LF] (a @ LF # b) = Some (a, b)"
  using split_once_at [of a "[]" b] by simp

lemma rsplit_once_LF: "LF \<notin> set b \<Longrightarrow> rsplit_once [LF] (a @ LF # b) = Some (a, b)"
  using split_once_LF [of "rev b" "rev a"] by (simp add: rsplit_once_def)

lemma markers_no_LF [simp]: "LF \<notin> set BEGIN_PATCH" "LF \<notin> set END_PATCH"
  by (simp_all add: markers)

lemma normalize_canonical:
  assumes "length t \<le> MAX_TEXT" and "strip_LF t = BEGIN_PATCH @ LF # middle @ LF # END_PATCH"
  shows "normalize_patch_envelope t = Ok \<lparr>np_text = t, np_applied_rule = None\<rparr>"
  using assms by (simp add: normalize_patch_envelope_def split_once_LF rsplit_once_LF)

lemma normalize_cases:
  assumes "normalize_patch_envelope t = Ok n"
  obtains (unchanged) "n = \<lparr>np_text = t, np_applied_rule = None\<rparr>" "length t \<le> MAX_TEXT"
  | (corrected) middle tail where "n = \<lparr>np_text = BEGIN_PATCH @ LF # middle @ LF # END_PATCH @ tail,
      np_applied_rule = Some ''patch-envelope/v1''\<rparr>" "tail \<in> {[], [LF]}"
      "grammar_validate CodexPatchV1 (BEGIN_PATCH @ LF # middle @ LF # END_PATCH @ tail) = Ok ()"
proof -
  have size: "length t \<le> MAX_TEXT"
    using assms by (auto simp: normalize_patch_envelope_def split: if_splits)
  note step = assms [unfolded normalize_patch_envelope_def Let_def]
  show ?thesis
  proof (cases "split_once [LF] (strip_LF t)")
    case None
    with step size show ?thesis by (intro unchanged) auto
  next
    case (Some fr)
    obtain first rest where fr: "fr = (first, rest)" by (cases fr)
    show ?thesis
    proof (cases "rsplit_once [LF] rest")
      case None
      with Some fr step size show ?thesis by (intro unchanged) auto
    next
      case (Some mf)
      obtain middle final where mf: "mf = (middle, final)" by (cases mf)
      show ?thesis
      proof (cases "n = \<lparr>np_text = t, np_applied_rule = None\<rparr>")
        case True
        with size show ?thesis by (intro unchanged)
      next
        case False
        define tail where "tail = (if ends_with [LF] t then [LF] else [])"
        have "n = \<lparr>np_text = BEGIN_PATCH @ LF # middle @ LF # END_PATCH @ tail,
            np_applied_rule = Some ''patch-envelope/v1''\<rparr> \<and>
            grammar_validate CodexPatchV1 (BEGIN_PATCH @ LF # middle @ LF # END_PATCH @ tail) = Ok ()"
          using False step size Some fr mf \<open>split_once [LF] (strip_LF t) = Some fr\<close>
          by (simp add: tail_def [symmetric] del: insert_iff split: if_splits)
        then show ?thesis by (intro corrected [of middle tail]) (auto simp: tail_def)
      qed
    qed
  qed
qed

lemma strip_LF_corrected:
  assumes "tail \<in> {[], [LF]}"
  shows "strip_LF (BEGIN_PATCH @ LF # middle @ LF # END_PATCH @ tail) = BEGIN_PATCH @ LF # middle @ LF # END_PATCH"
  using strip_LF_tail [OF assms, of "BEGIN_PATCH @ LF # middle @ [LF]"] by simp

lemma patch_text_shape:
  assumes "patch_text t"
  shows "\<exists>middle. strip_LF t = BEGIN_PATCH @ LF # middle @ LF # END_PATCH"
proof -
  obtain hs tail where hs: "hs \<noteq> []" "\<forall>h \<in> set hs. hunk h \<and> no_LF h" "tail \<in> {[], [LF]}"
    "t = BEGIN_PATCH @ LF # unlines (concat hs) @ END_PATCH @ tail"
    using assms unfolding patch_text_def by blast
  have "concat hs \<noteq> []" using hs(1,2) by (cases hs) (auto dest: hunk_header)
  then obtain middle where "unlines (concat hs) = middle @ [LF]"
    using unlines_ends_with_LF [of "concat hs"] unfolding ends_with_iff by blast
  then show ?thesis
    using strip_LF_tail [OF hs(3), of "BEGIN_PATCH @ LF # unlines (concat hs)"] hs(4) by auto
qed

text \<open>Normalizing a patch envelope is safe: a text that is already a patch is left alone, a
  correction is always a valid patch, and a normalized text is a fixed point.\<close>

theorem normalization_safe:
  assumes "normalize_patch_envelope t = Ok n"
  shows "normalize_patch_envelope (np_text n) = Ok \<lparr>np_text = np_text n, np_applied_rule = None\<rparr> \<and>
    (np_text n = t \<or> grammar_validate CodexPatchV1 (np_text n) = Ok ()) \<and>
    (grammar_validate CodexPatchV1 t = Ok () \<longrightarrow> np_text n = t \<and> np_applied_rule n = None)"
  using assms
proof (cases rule: normalize_cases)
  case unchanged
  with assms show ?thesis by simp
next
  case (corrected middle tail)
  have fixed: "normalize_patch_envelope (np_text n) = Ok \<lparr>np_text = np_text n, np_applied_rule = None\<rparr>"
    using corrected by (intro normalize_canonical [of _ middle]) (simp_all add: strip_LF_corrected patch_check_iff)
  have "grammar_validate CodexPatchV1 t \<noteq> Ok ()"
  proof
    assume "grammar_validate CodexPatchV1 t = Ok ()"
    then obtain m where "length t \<le> MAX_TEXT" "strip_LF t = BEGIN_PATCH @ LF # m @ LF # END_PATCH"
      using patch_text_shape by (auto simp: patch_check_iff)
    from normalize_canonical [OF this] assms corrected show False by simp
  qed
  with fixed corrected show ?thesis by simp
qed

text \<open>The Code Mode helper program and the patch it carries determine each other, when the JSON
  text of the patch parses back to it.\<close>

theorem helper_program_round_trip:
  assumes "sj_parse_string sj (sj_string sj p) = Some p"
  shows "helper_patch sj prog = Ok p \<longleftrightarrow> helper_program sj p = Ok prog"
  using assms
  by (auto simp: helper_patch_def helper_program_def Let_def bind_eq_Some_conv split: if_splits)

text \<open>Code Mode results survive the trip through text: the parts read back from an accepted
  result are the parts it was made of, when the envelope's JSON text parses back to it.\<close>

theorem code_mode_result_round_trip:
  assumes "code_mode_result sj parts = Ok t"
    and "sj_parse_parts sj t = Some (RESULT_SCHEMA, parts)"
  shows "code_mode_result_parts sj t = Ok parts"
proof -
  have "length t \<le> MAX_TEXT"
    using assms(1) by (auto simp: code_mode_result_def Let_def split: if_splits)
  with assms show ?thesis
    by (simp add: code_mode_result_parts_def)
qed

section \<open>Concrete inputs\<close>

text \<open>A printer and parser pair good enough to run the definitions: strings between quotation marks,
  and one text per value where a single value is printed.\<close>

definition QUOTE :: char where "QUOTE = CHR 0x22"

definition quoted :: "string \<Rightarrow> string" where "quoted s = QUOTE # s @ [QUOTE]"

definition unquoted :: "string \<Rightarrow> string option" where
  "unquoted s = Option.bind (strip_prefix [QUOTE] s) (strip_suffix [QUOTE])"

definition demo_edit :: context_edit where
  "demo_edit = \<lparr>ce_path = ''a.rs'', ce_before_context = [''x''], ce_old_lines = [''y''],
     ce_new_lines = [''z''], ce_after_context = []\<rparr>"

definition demo_parts :: json where
  "demo_parts = JArray [obj [(''type'', JString ''input_text''), (''text'', JString ''done'')]]"

definition demo_serde :: serde where
  "demo_serde =
     \<lparr>sj_string = quoted, sj_parse_string = unquoted,
      sj_edit = (\<lambda>_. ''edit''), sj_parse_edit = (\<lambda>s. if s = ''edit'' then Some demo_edit else None),
      sj_bundle = (\<lambda>_. ''bundle''), sj_parse_bundle = (\<lambda>_. None),
      sj_value = (\<lambda>v. case jget v ''input'' of Some (JString s) \<Rightarrow> quoted s | _ \<Rightarrow> ''{}''),
      sj_parse_value = (\<lambda>s. if s = ''{}'' then Some (JObject fmempty) else None),
      sj_parse_parts = (\<lambda>_. Some (RESULT_SCHEMA, demo_parts)),
      sj_parse_input = unquoted,
      sj_policy_key = (\<lambda>ns name p. name)\<rparr>"

lemma demo_serde_string: "sj_parse_string demo_serde (sj_string demo_serde p) = Some p"
  by (simp add: demo_serde_def quoted_def unquoted_def)

definition demo_patch :: string where "demo_patch = patch_of (edit_hunk demo_edit)"

lemma demo_edit_admissible: "edit_admissible demo_edit"
  by code_simp

lemma demo_patch_length: "length demo_patch \<le> 100"
  by code_simp

lemma demo_patch_valid: "grammar_validate CodexPatchV1 demo_patch = Ok ()"
  using demo_patch_length by (simp add: demo_patch_def edit_patch_valid [OF demo_edit_admissible] MAX_TEXT_def)

lemma normalize_demo: "normalize_patch_envelope demo_patch = Ok \<lparr>np_text = demo_patch, np_applied_rule = None\<rparr>"
proof -
  obtain m where "length demo_patch \<le> MAX_TEXT" "strip_LF demo_patch = BEGIN_PATCH @ LF # m @ LF # END_PATCH"
    using demo_patch_valid patch_text_shape by (auto simp: patch_check_iff)
  then show ?thesis by (rule normalize_canonical)
qed

theorem normalization_safe_witness:
  "normalize_patch_envelope demo_patch = Ok \<lparr>np_text = demo_patch, np_applied_rule = None\<rparr> \<and>
   grammar_validate CodexPatchV1 demo_patch = Ok ()"
  using normalization_safe [OF normalize_demo] demo_patch_valid by simp

theorem helper_program_round_trip_witness:
  "helper_patch demo_serde (WRAPPER_PREFIX @ quoted demo_patch @ WRAPPER_SUFFIX) = Ok demo_patch"
proof -
  have "helper_program demo_serde demo_patch = Ok (WRAPPER_PREFIX @ quoted demo_patch @ WRAPPER_SUFFIX)"
    using demo_patch_length
    by (simp add: helper_program_def demo_patch_valid Let_def demo_serde_def quoted_def WRAPPER_PREFIX_def
        WRAPPER_SUFFIX_def MAX_TEXT_def)
  with helper_program_round_trip [OF demo_serde_string] show ?thesis by blast
qed

theorem code_mode_result_round_trip_witness:
  "code_mode_result_parts demo_serde ''{}'' = Ok demo_parts"
proof (rule code_mode_result_round_trip)
  have "is_text_part (obj [(''type'', JString ''input_text''), (''text'', JString ''done'')])" by code_simp
  then show "code_mode_result demo_serde demo_parts = Ok ''{}''"
    by (simp add: code_mode_result_def demo_parts_def demo_serde_def Let_def MAX_TEXT_def obj_def)
  show "sj_parse_parts demo_serde ''{}'' = Some (RESULT_SCHEMA, demo_parts)"
    by (simp add: demo_serde_def)
qed

end
