(* ===== verification/Operations.thy ===== *)
theory Operations
  imports Editing
begin

text \<open>
  Bundles of independent file operations, \<open>src/src/editing/operations.rs\<close>: the lexical path
  key, the compiler to a patch and the reader of canonical patches, and the representation
  dispatch of \<open>src/src/editing/mod.rs\<close>. Unicode lower-casing (\<open>str::to_lowercase\<close>) is the
  parameter \<open>lower\<close>.
\<close>

section \<open>Paths\<close>

fun path_part :: "(string \<Rightarrow> string) \<Rightarrow> string list \<Rightarrow> string \<Rightarrow> ir_error + string list" where
  "path_part lower parts part =
     (if part = '''' \<or> part = ''.'' then Ok parts
      else if part = ''..'' then (if parts = [] then Err invalid else Ok (butlast parts))
      else if last part \<in> {CHR '' '', CHR ''.''} then Err invalid
      else Ok (parts @ [lower part]))"

fun join :: "string \<Rightarrow> string list \<Rightarrow> string" where
  "join sep [] = []"
| "join sep [x] = x"
| "join sep (x # xs) = x @ sep @ join sep xs"

definition path_key :: "(string \<Rightarrow> string) \<Rightarrow> string \<Rightarrow> ir_error + string" where
  "path_key lower path =
     (if path = [] \<or> \<not> trimmed path \<or> has_control path then Err invalid
      else
        let normalized = map (\<lambda>c. if c = CHR 0x5C then CHR ''/'' else c) path in
        and_then (fold_result (path_part lower) [] (split_char CHR ''/'' normalized)) (\<lambda>parts.
          if parts = [] then Err invalid
          else Ok ((if starts_with ''/'' normalized then ''/'' else []) @ join ''/'' parts)))"

definition lines_valid :: "string list \<Rightarrow> ir_error + unit" where
  "lines_valid ls =
     (if ls = [] \<or> length ls > 16384 \<or> list_ex bad_line ls then Err invalid else Ok ())"

section \<open>Compiling a bundle\<close>

definition bundle_from_json :: "serde \<Rightarrow> string \<Rightarrow> ir_error + operation_bundle" where
  "bundle_from_json sj raw =
     (if length raw > MAX_TEXT then Err SizeLimit else ok_or (sj_parse_bundle sj raw) invalid)"

fun touched :: "operation \<Rightarrow> string list" where
  "touched (Create path _) = [path]"
| "touched (Delete path) = [path]"
| "touched (Move source destination _) = [source, destination]"
| "touched (Update edit) = [ce_path edit]"

definition keys_overlap :: "string \<Rightarrow> string \<Rightarrow> bool" where
  "keys_overlap old key \<longleftrightarrow> old = key \<or> starts_with (key @ ''/'') old \<or> starts_with (old @ ''/'') key"

definition claim_path :: "(string \<Rightarrow> string) \<Rightarrow> string list \<Rightarrow> string \<Rightarrow> ir_error + string list" where
  "claim_path lower paths path =
     and_then (path_key lower path) (\<lambda>key.
       if list_ex (\<lambda>old. keys_overlap old key) paths then Err invalid else Ok (paths @ [key]))"

text \<open>The text one operation appends to the patch, and the number of lines it counts.\<close>

fun operation_text :: "operation \<Rightarrow> ir_error + string \<times> nat" where
  "operation_text (Create path ls) =
     and_then (lines_valid ls) (\<lambda>_.
       Ok (ADD_FILE @ path @ LF # concat (map (\<lambda>l. CHR ''+'' # l @ [LF]) ls), length ls))"
| "operation_text (Delete path) = Ok (DELETE_FILE @ path @ [LF], 0)"
| "operation_text (Move source destination ctxt) =
     and_then (lines_valid ctxt) (\<lambda>_.
       Ok (UPDATE_FILE @ source @ LF # MOVE_TO @ destination @ LF # ''@@'' @ LF #
             concat (map (\<lambda>l. CHR '' '' # l @ [LF]) ctxt), length ctxt))"
| "operation_text (Update edit) =
     and_then (edit_compile edit) (\<lambda>compiled.
     and_then (ok_or (Option.bind (strip_prefix (BEGIN_PATCH @ [LF]) compiled) (strip_suffix END_PATCH)) invalid)
       (\<lambda>body. Ok (body, length (ce_before_context edit) + length (ce_old_lines edit) +
                         length (ce_new_lines edit) + length (ce_after_context edit))))"

definition compile_operation ::
  "(string \<Rightarrow> string) \<Rightarrow> string list \<times> string \<times> nat \<Rightarrow> operation \<Rightarrow> ir_error + string list \<times> string \<times> nat" where
  "compile_operation lower st op =
     (case st of (paths, patch, line_count) \<Rightarrow>
       and_then (fold_result (claim_path lower) paths (touched op)) (\<lambda>paths.
       and_then (operation_text op) (\<lambda>(body, n).
         let patch = patch @ body; line_count = line_count + n
         in if length patch > MAX_TEXT \<or> line_count > 16384 then Err SizeLimit
            else Ok (paths, patch, line_count))))"

definition bundle_compile :: "(string \<Rightarrow> string) \<Rightarrow> operation_bundle \<Rightarrow> ir_error + string" where
  "bundle_compile lower ops =
     (if ops = [] \<or> length ops > 64 then Err invalid
      else
        and_then (fold_result (compile_operation lower) ([], BEGIN_PATCH @ [LF], 0) ops) (\<lambda>(paths, patch, line_count).
          let patch = patch @ END_PATCH
          in if length patch > MAX_TEXT then Err SizeLimit
             else and_then (grammar_validate CodexPatchV1 patch) (\<lambda>_. Ok patch)))"

section \<open>Reading a canonical patch\<close>

definition starts_hunk :: "string \<Rightarrow> bool" where
  "starts_hunk line \<longleftrightarrow> list_ex (\<lambda>p. starts_with p line) [ADD_FILE, DELETE_FILE, UPDATE_FILE]"

definition read_chunk :: "string \<Rightarrow> string list \<Rightarrow> ir_error + operation" where
  "read_chunk header body =
     (case strip_prefix ADD_FILE header of
        Some path \<Rightarrow>
          and_then (traverse (\<lambda>l. ok_or (strip_prefix ''+'' l) invalid) body) (\<lambda>ls. Ok (Create path ls))
      | None \<Rightarrow>
          (case strip_prefix DELETE_FILE header of
             Some path \<Rightarrow> if body \<noteq> [] then Err invalid else Ok (Delete path)
           | None \<Rightarrow>
               (case strip_prefix UPDATE_FILE header of
                  Some source \<Rightarrow>
                    (case Option.bind (case body of [] \<Rightarrow> None | l # _ \<Rightarrow> Some l) (strip_prefix MOVE_TO) of
                       Some destination \<Rightarrow>
                         if \<not> (length body > 1 \<and> body ! 1 = ''@@'') then Err invalid
                         else and_then (traverse (\<lambda>l. ok_or (strip_prefix '' '' l) invalid) (drop 2 body))
                           (\<lambda>ls. Ok (Move source destination ls))
                     | None \<Rightarrow>
                         and_then (edit_from_patch (BEGIN_PATCH @ LF # join [LF] (header # body) @ LF # END_PATCH))
                           (\<lambda>edit. Ok (Update edit)))
                | None \<Rightarrow> Err invalid)))"

function read_operations :: "operation list \<Rightarrow> string list \<Rightarrow> ir_error + operation list" where
  "read_operations ops [] = Ok ops"
| "read_operations ops (header # lines) =
     and_then (read_chunk header (takeWhile (\<lambda>l. \<not> starts_hunk l) lines)) (\<lambda>op.
       if length (ops @ [op]) > 64 then Err SizeLimit
       else read_operations (ops @ [op]) (dropWhile (\<lambda>l. \<not> starts_hunk l) lines))"
  by pat_completeness auto
termination
  by (relation "measure (length \<circ> snd)") (auto simp: le_imp_less_Suc length_dropWhile_le)

definition bundle_from_patch :: "(string \<Rightarrow> string) \<Rightarrow> string \<Rightarrow> ir_error + operation_bundle" where
  "bundle_from_patch lower patch =
     (if length patch > MAX_TEXT then Err SizeLimit
      else
        and_then (ok_or (Option.bind (strip_prefix (BEGIN_PATCH @ [LF]) patch) (strip_suffix END_PATCH)) invalid)
          (\<lambda>body.
        and_then (read_operations [] (split_terminator LF body)) (\<lambda>ops.
        and_then (bundle_compile lower ops) (\<lambda>compiled.
          if compiled \<noteq> patch then Err invalid else Ok ops))))"

text \<open>The keys of a \<open>serde_json\<close> object come out in order, so \<open>required\<close> lists them sorted.\<close>

definition variant_schema :: "string \<Rightarrow> (string \<times> json) list \<Rightarrow> json" where
  "variant_schema name properties =
     (let entries = (''operation'', obj [(''type'', JString ''string''), (''enum'', strings [name])]) # properties
      in obj [(''type'', JString ''object''), (''properties'', obj entries),
              (''required'', strings (sort (map fst entries))), (''additionalProperties'', JBool False)])"

definition bundle_schema :: json where
  "bundle_schema = obj
     [(''type'', JString ''object''),
      (''properties'', obj [(''operations'', obj
         [(''type'', JString ''array''),
          (''items'', obj [(''anyOf'', JArray
             [variant_schema ''create'' [(''path'', string_schema), (''lines'', lines_schema)],
              variant_schema ''delete'' [(''path'', string_schema)],
              variant_schema ''move'' [(''source'', string_schema), (''destination'', string_schema), (''context'', lines_schema)],
              variant_schema ''update'' [(''edit'', edit_schema)]])])])]),
      (''required'', strings [''operations'']), (''additionalProperties'', JBool False)]"

section \<open>Representations\<close>

fun representation_compile ::
  "serde \<Rightarrow> (string \<Rightarrow> string) \<Rightarrow> representation \<Rightarrow> string \<Rightarrow> ir_error + string" where
  "representation_compile sj lower ContextLines raw = and_then (edit_from_json sj raw) edit_compile"
| "representation_compile sj lower Operations raw = and_then (bundle_from_json sj raw) (bundle_compile lower)"
| "representation_compile sj lower PatchText raw = Err invalid"

fun representation_decode ::
  "serde \<Rightarrow> (string \<Rightarrow> string) \<Rightarrow> representation \<Rightarrow> string \<Rightarrow> ir_error + string" where
  "representation_decode sj lower ContextLines patch = and_then (edit_from_patch patch) (\<lambda>e. Ok (sj_edit sj e))"
| "representation_decode sj lower Operations patch =
     and_then (bundle_from_patch lower patch) (\<lambda>b. Ok (sj_bundle sj b))"
| "representation_decode sj lower PatchText patch = Err invalid"

fun representation_schema :: "representation \<Rightarrow> json" where
  "representation_schema Operations = bundle_schema"
| "representation_schema _ = edit_schema"

section \<open>Bundles and their canonical text\<close>

fun operation_lines :: "operation \<Rightarrow> string list" where
  "operation_lines (Create path ls) = (ADD_FILE @ path) # map (Cons (CHR ''+'')) ls"
| "operation_lines (Delete path) = [DELETE_FILE @ path]"
| "operation_lines (Move source destination ctxt) =
     (UPDATE_FILE @ source) # (MOVE_TO @ destination) # ''@@'' # map (Cons (CHR '' '')) ctxt"
| "operation_lines (Update edit) = edit_hunk edit"

fun operation_clean :: "operation \<Rightarrow> bool" where
  "operation_clean (Create path ls) \<longleftrightarrow> lines_valid ls = Ok ()"
| "operation_clean (Delete path) \<longleftrightarrow> True"
| "operation_clean (Move source destination ctxt) \<longleftrightarrow> lines_valid ctxt = Ok ()"
| "operation_clean (Update edit) \<longleftrightarrow> edit_compile edit = Ok (patch_of (edit_hunk edit))"

definition path_clean :: "string \<Rightarrow> bool" where
  "path_clean path \<longleftrightarrow> path \<noteq> [] \<and> LF \<notin> set path"

lemma path_key_clean: "path_key lower path = Ok key \<Longrightarrow> path_clean path"
  by (auto simp: path_key_def path_clean_def dest: no_control_LF split: if_splits)

lemma unlines_map: "concat (map (\<lambda>l. c # l @ [LF]) ls) = unlines (map (Cons c) ls)"
  by (induction ls) simp_all

lemma operation_text_Ok:
  "operation_text op = Ok (body, n) \<Longrightarrow> body = unlines (operation_lines op) \<and> operation_clean op"
  by (cases op) (auto simp: unlines_map edit_compile_Ok patch_of_def edit_hunk_def bind_eq_Some_conv)

lemma claim_path_Ok:
  "claim_path lower ps path = Ok qs \<longleftrightarrow>
     (\<exists>key. path_key lower path = Ok key \<and> \<not> list_ex (\<lambda>old. keys_overlap old key) ps \<and> qs = ps @ [key])"
  by (auto simp: claim_path_def split: if_splits)

lemma compile_operation_Ok:
  assumes "compile_operation lower (ps, patch, n) op = Ok st"
  shows "\<exists>qs body k. fold_result (claim_path lower) ps (touched op) = Ok qs \<and> operation_text op = Ok (body, k) \<and>
    st = (qs, patch @ body, n + k)"
  using assms by (auto simp: compile_operation_def Let_def split: if_splits)

lemma claim_paths_Ok:
  "fold_result (claim_path lower) ps paths = Ok qs \<Longrightarrow>
     \<exists>ks. traverse (path_key lower) paths = Ok ks \<and> qs = ps @ ks \<and>
       (sorted_wrt (\<lambda>a b. \<not> keys_overlap a b) ps \<longrightarrow> sorted_wrt (\<lambda>a b. \<not> keys_overlap a b) qs)"
proof (induction paths arbitrary: ps)
  case (Cons path paths)
  then obtain key where key: "path_key lower path = Ok key" "\<not> list_ex (\<lambda>old. keys_overlap old key) ps"
    "fold_result (claim_path lower) (ps @ [key]) paths = Ok qs"
    by (auto simp: claim_path_Ok)
  from Cons.IH [OF key(3)] obtain ks where ks: "traverse (path_key lower) paths = Ok ks" "qs = (ps @ [key]) @ ks"
    "sorted_wrt (\<lambda>a b. \<not> keys_overlap a b) (ps @ [key]) \<longrightarrow> sorted_wrt (\<lambda>a b. \<not> keys_overlap a b) qs" by blast
  have "sorted_wrt (\<lambda>a b. \<not> keys_overlap a b) ps \<longrightarrow> sorted_wrt (\<lambda>a b. \<not> keys_overlap a b) (ps @ [key])"
    using key(2) by (auto simp: sorted_wrt_append list_ex_iff)
  with key(1) ks show ?case by auto
qed simp

lemma traverse_append:
  "traverse f (xs @ ys) = and_then (traverse f xs) (\<lambda>as. and_then (traverse f ys) (\<lambda>bs. Ok (as @ bs)))"
proof (induction xs)
  case Nil
  then show ?case by (cases "traverse f ys") simp_all
qed simp

lemma compile_operations_Ok:
  "fold_result (compile_operation lower) (ps, patch, n) ops = Ok (qs, patch', m) \<Longrightarrow>
     patch' = patch @ unlines (concat (map operation_lines ops)) \<and>
     list_all operation_clean ops \<and>
     (\<exists>ks. traverse (path_key lower) (concat (map touched ops)) = Ok ks \<and> qs = ps @ ks) \<and>
     (sorted_wrt (\<lambda>a b. \<not> keys_overlap a b) ps \<longrightarrow> sorted_wrt (\<lambda>a b. \<not> keys_overlap a b) qs)"
proof (induction ops arbitrary: ps patch n)
  case (Cons op ops)
  then obtain ps1 body k where step: "fold_result (claim_path lower) ps (touched op) = Ok ps1"
    "operation_text op = Ok (body, k)"
    and rest: "fold_result (compile_operation lower) (ps1, patch @ body, n + k) ops = Ok (qs, patch', m)"
    by (auto dest!: compile_operation_Ok)
  from claim_paths_Ok [OF step(1)] obtain ks where ks: "traverse (path_key lower) (touched op) = Ok ks"
    "ps1 = ps @ ks" "sorted_wrt (\<lambda>a b. \<not> keys_overlap a b) ps \<longrightarrow> sorted_wrt (\<lambda>a b. \<not> keys_overlap a b) ps1" by blast
  from Cons.IH [OF rest] operation_text_Ok [OF step(2)] ks show ?case
    by (auto simp: traverse_append)
qed simp

lemma bundle_compile_Ok:
  assumes "bundle_compile lower ops = Ok p"
  shows "ops \<noteq> [] \<and> length ops \<le> 64 \<and> length p \<le> MAX_TEXT \<and>
    p = patch_of (concat (map operation_lines ops)) \<and> list_all operation_clean ops \<and>
    (\<exists>ks. traverse (path_key lower) (concat (map touched ops)) = Ok ks \<and>
       sorted_wrt (\<lambda>a b. \<not> keys_overlap a b) ks)"
proof -
  obtain qs patch m where fold: "fold_result (compile_operation lower) ([], BEGIN_PATCH @ [LF], 0) ops = Ok (qs, patch, m)"
    and p: "p = patch @ END_PATCH" "length p \<le> MAX_TEXT" "ops \<noteq> []" "length ops \<le> 64"
    using assms by (auto simp: bundle_compile_def Let_def split: if_splits)
  from compile_operations_Ok [OF fold] p show ?thesis
    by (auto simp: patch_of_def)
qed

lemma keys_paths_clean:
  assumes "traverse (path_key lower) (concat (map touched ops)) = Ok ks" and "op \<in> set ops"
    and "path \<in> set (touched op)"
  shows "path_clean path"
  using traverse_Inr_set [OF assms(1), of path] assms(2,3) by (auto dest: path_key_clean)

lemma not_starts_hunk [simp]:
  "\<not> starts_hunk (CHR ''+'' # l)" "\<not> starts_hunk (CHR '' '' # l)" "\<not> starts_hunk (CHR ''-'' # l)"
  "\<not> starts_hunk ''@@''" "\<not> starts_hunk (MOVE_TO @ d)"
  by (simp_all add: starts_hunk_def markers starts_with_iff)

lemma starts_hunk_headers [simp]:
  "starts_hunk (ADD_FILE @ p)" "starts_hunk (DELETE_FILE @ p)" "starts_hunk (UPDATE_FILE @ p)"
  by (simp_all add: starts_hunk_def starts_with_iff)

lemma edit_lines_not_start: "l \<in> set (edit_lines e) \<Longrightarrow> \<not> starts_hunk l"
  by (auto simp: edit_lines_def edit_groups_def)

lemma operation_lines_shape:
  obtains header body where "operation_lines op = header # body" "starts_hunk header"
    "\<forall>l \<in> set body. \<not> starts_hunk l"
  using edit_lines_not_start by (cases op) (auto simp: edit_hunk_def)

lemma operation_lines_no_LF:
  assumes "operation_clean op" and "\<forall>path \<in> set (touched op). path_clean path"
  shows "no_LF (operation_lines op)"
proof (cases op)
  case (Update e)
  then show ?thesis
    using assms(1) edit_hunk_no_LF by (simp add: edit_compile_Ok)
qed (use assms in \<open>auto simp: path_clean_def lines_valid_def no_LF_def list_all_iff list_ex_iff bad_line_def
        markers split: if_splits\<close>)

lemma traverse_strip: "traverse (\<lambda>l. ok_or (strip_prefix [c] l) e) (map (Cons c) ls) = Ok ls"
  by (induction ls) simp_all

lemma join_LF: "xs \<noteq> [] \<Longrightarrow> join [LF] xs @ LF # s = unlines xs @ s"
  by (induction "[LF]" xs rule: join.induct) simp_all

lemma strip_other_marker [simp]:
  "strip_prefix ADD_FILE (DELETE_FILE @ p) = None" "strip_prefix ADD_FILE (UPDATE_FILE @ p) = None"
  "strip_prefix DELETE_FILE (UPDATE_FILE @ p) = None" "strip_prefix MOVE_TO ''@@'' = None"
  by (simp_all add: markers)

lemma read_chunk_operation:
  assumes "operation_clean op" and "operation_lines op = header # body"
  shows "read_chunk header body = Ok op"
proof (cases op)
  case (Create path ls)
  with assms show ?thesis by (auto simp: read_chunk_def traverse_strip)
next
  case (Delete path)
  with assms show ?thesis by (auto simp: read_chunk_def)
next
  case (Move source destination ctxt)
  with assms show ?thesis by (auto simp: read_chunk_def traverse_strip)
next
  case (Update e)
  have "edit_from_patch (BEGIN_PATCH @ LF # join [LF] (header # body) @ LF # END_PATCH) = Ok e"
    using assms Update by (simp add: join_LF edit_from_patch_iff patch_of_def del: join.simps)
  with assms Update show ?thesis
    by (auto simp: read_chunk_def edit_hunk_def simp del: join.simps)
qed

lemma read_operations_lines:
  "list_all operation_clean ops \<Longrightarrow> length acc + length ops \<le> 64 \<Longrightarrow>
     read_operations acc (concat (map operation_lines ops)) = Ok (acc @ ops)"
proof (induction ops arbitrary: acc)
  case (Cons op ops)
  obtain header body where lines: "operation_lines op = header # body" "\<forall>l \<in> set body. \<not> starts_hunk l"
    using operation_lines_shape [of op] by metis
  have next_header: "concat (map operation_lines ops) = [] \<or> starts_hunk (hd (concat (map operation_lines ops)))"
  proof (cases ops)
    case (Cons op' ops')
    then show ?thesis using operation_lines_shape [of op'] by (metis append_Cons concat.simps(2) list.sel(1) list.simps(9))
  qed simp
  have split: "takeWhile (\<lambda>l. \<not> starts_hunk l) (body @ concat (map operation_lines ops)) = body \<and>
      dropWhile (\<lambda>l. \<not> starts_hunk l) (body @ concat (map operation_lines ops)) = concat (map operation_lines ops)"
    using lines(2) next_header by (intro takeWhile_dropWhile_all) auto
  have "read_chunk header body = Ok op"
    using Cons.prems lines by (intro read_chunk_operation) simp_all
  with Cons split lines show ?case by simp
qed simp

lemma bundle_from_patch_iff: "bundle_from_patch lower p = Ok ops \<longleftrightarrow> bundle_compile lower ops = Ok p"
proof
  assume "bundle_from_patch lower p = Ok ops"
  then show "bundle_compile lower ops = Ok p"
    by (auto simp: bundle_from_patch_def split: if_splits)
next
  assume compiled: "bundle_compile lower ops = Ok p"
  note facts = bundle_compile_Ok [OF compiled]
  then obtain ks where ks: "traverse (path_key lower) (concat (map touched ops)) = Ok ks" by blast
  have clean: "list_all operation_clean ops" using facts by simp
  have no_LF: "no_LF (concat (map operation_lines ops))"
    using operation_lines_no_LF keys_paths_clean [OF ks] clean
    by (fastforce simp: no_LF_def list_all_iff)
  have size: "length p \<le> MAX_TEXT" and count: "length ops \<le> 64" using facts by blast+
  have body: "Option.bind (strip_prefix (BEGIN_PATCH @ [LF]) p) (strip_suffix END_PATCH) =
      Some (unlines (concat (map operation_lines ops)))"
    using facts by (simp add: patch_of_def bind_eq_Some_conv)
  show "bundle_from_patch lower p = Ok ops"
    using clean size count body compiled read_operations_lines [of ops "[]"]
    by (simp add: bundle_from_patch_def split_terminator_unlines [OF no_LF])
qed

text \<open>C17. Operation bundles and canonical patches correspond one to one: a patch is read back as a
  bundle exactly when it is the text that bundle compiles to.\<close>

theorem operation_bundle_round_trip:
  "bundle_from_patch lower p = Ok ops \<longleftrightarrow> bundle_compile lower ops = Ok p"
  by (rule bundle_from_patch_iff)

text \<open>A compiled bundle is a valid patch of at most 64 operations that touch pairwise
  independent paths: no path key equals another or lies below it.\<close>

theorem compiled_bundle_independent:
  assumes "bundle_compile lower ops = Ok p"
  shows "grammar_validate CodexPatchV1 p = Ok () \<and> length ops \<le> 64 \<and>
    (\<exists>ks. traverse (path_key lower) (concat (map touched ops)) = Ok ks \<and>
       (\<forall>i j. i < j \<and> j < length ks \<longrightarrow> ks ! i \<noteq> ks ! j \<and>
          \<not> starts_with (ks ! i @ ''/'') (ks ! j) \<and> \<not> starts_with (ks ! j @ ''/'') (ks ! i)))"
proof -
  have "grammar_validate CodexPatchV1 p = Ok ()"
    using assms by (auto simp: bundle_compile_def Let_def split: if_splits)
  then show ?thesis
    using bundle_compile_Ok [OF assms] by (auto simp: sorted_wrt_iff_nth_less keys_overlap_def)
qed

text \<open>Decoding a representation and compiling it again, when its JSON text parses back.\<close>

definition representation_text_ok :: "serde \<Rightarrow> string \<Rightarrow> bool" where
  "representation_text_ok sj raw \<longleftrightarrow>
     length raw \<le> MAX_TEXT \<and>
     (\<forall>e. raw = sj_edit sj e \<longrightarrow> sj_parse_edit sj raw = Some e) \<and>
     (\<forall>b. raw = sj_bundle sj b \<longrightarrow> sj_parse_bundle sj raw = Some b)"

lemma representation_compile_decode:
  assumes "representation_decode sj lower rep patch = Ok raw" and "representation_text_ok sj raw"
  shows "representation_compile sj lower rep raw = Ok patch"
  using assms
  by (cases rep) (auto simp: representation_text_ok_def edit_from_json_def bundle_from_json_def
      edit_from_patch_iff bundle_from_patch_iff)

definition demo_bundle :: operation_bundle where
  "demo_bundle = [Create ''a/b.rs'' [''x''], Delete ''c.rs'']"

lemma demo_bundle_compiles:
  "bundle_compile (\<lambda>s. s) demo_bundle = Ok (patch_of (concat (map operation_lines demo_bundle)))"
proof -
  have size: "length (patch_of (concat (map operation_lines demo_bundle))) \<le> 100"
    by code_simp
  have valid: "patch_text (patch_of (concat (map operation_lines demo_bundle)))"
  proof (rule patch_of_hunks)
    show "map operation_lines demo_bundle \<noteq> []" by (simp add: demo_bundle_def)
    show "hunk h \<and> no_LF h" if "h \<in> set (map operation_lines demo_bundle)" for h
      using that hunk.add_file [of "''a/b.rs''" "[''+x'']"] hunk.delete_file [of "''c.rs''"]
      by (auto simp: demo_bundle_def plus_line_def starts_with_iff markers no_LF_def)
  qed
  have keys: "fold_result (claim_path (\<lambda>s. s)) [] [''a/b.rs''] = Ok [''a/b.rs'']"
    "fold_result (claim_path (\<lambda>s. s)) [''a/b.rs''] [''c.rs''] = Ok [''a/b.rs'', ''c.rs'']"
    by code_simp+
  show ?thesis
    using size valid keys
    by (simp add: bundle_compile_def compile_operation_def demo_bundle_def Let_def lines_valid_def bad_line_def
        patch_check_iff patch_of_def MAX_TEXT_def)
qed

theorem compiled_bundle_independent_witness:
  "grammar_validate CodexPatchV1 (patch_of (concat (map operation_lines demo_bundle))) = Ok ()"
  using compiled_bundle_independent [OF demo_bundle_compiles] by simp

end
