(* ===== verification/Bridge.thy ===== *)
theory Bridge
  imports Operations
begin

text \<open>
  The tool registry of \<open>src/src/ir/bridge.rs\<close>: aliases for the tools of one request, the
  definitions sent to the provider, the lowering of calls, results and choices and their
  restoration. The JSON functions, the digest and Unicode lower-casing are the parameters
  \<open>sj\<close>, \<open>sha256\<close> and \<open>lower\<close>. A set of names is a list of which only membership is
  used; the alias counter is a natural number. The mutex around the set of normalized calls
  becomes explicit state: restoring a call returns the registry it leaves behind.
\<close>

record tool_binding =
  bi_normalize :: bool
  bi_structured :: "representation option"
  bi_original :: tool_identity
  bi_grammar :: "grammar option"
  bi_wrapped :: bool

record custom_tool_bridge =
  br_code_mode :: bool
  br_forward :: "(tool_identity, tool_identity) fmap"
  br_reverse :: "(tool_identity, tool_binding) fmap"
  br_definitions :: "tool_definition list"
  br_normalized :: "call_id set"

section \<open>Building a registry\<close>

definition json_opt :: "string option \<Rightarrow> json" where
  "json_opt s = (case s of None \<Rightarrow> JNull | Some t \<Rightarrow> JString t)"

definition flat_description :: "serde \<Rightarrow> bool \<Rightarrow> tool_definition \<Rightarrow> tool_definition \<Rightarrow> tool_definition" where
  "flat_description sj flatten grp child =
     (case td_description grp of
        Some description \<Rightarrow>
          if flatten then
            ToolDefinition (td_identity child)
              (Some (sj_value sj (obj
                 [(''namespace'', JString (tool_name (td_identity grp))),
                  (''namespace_description'', JString description),
                  (''tool_description'', json_opt (td_description child))])))
              (td_kind child) (td_extensions child)
          else child
      | None \<Rightarrow> child)"

definition collect_leaves ::
  "serde \<Rightarrow> bool \<Rightarrow> tool_definition list \<times> string set \<Rightarrow> tool_definition \<Rightarrow>
     ir_error + tool_definition list \<times> string set" where
  "collect_leaves sj flatten st tool =
     (case st of (leaves, groups) \<Rightarrow>
       and_then (tool_identity_validate (td_identity tool)) (\<lambda>_.
         case td_kind tool of
           NamespaceTool children \<Rightarrow>
             if namespace (td_identity tool) \<noteq> None \<or> children = [] \<or> tool_name (td_identity tool) \<in> groups
             then Err InvalidToolMapping
             else if ext_fields (td_extensions tool) \<noteq> fmempty then Err UnsupportedExtension
             else and_then (traverse (\<lambda>child.
                 if namespace (td_identity child) \<noteq> Some (tool_name (td_identity tool)) \<or> is_namespace child
                 then Err InvalidToolMapping else Ok (flat_description sj flatten tool child)) children)
               (\<lambda>new. Ok (leaves @ new, insert (tool_name (td_identity tool)) groups))
         | _ \<Rightarrow> Ok (leaves @ [tool], groups)))"

definition candidate :: "string \<Rightarrow> nat \<Rightarrow> string" where
  "candidate prefix n = prefix @ ''_'' @ nat_text n"

lemma candidate_inject [simp]: "candidate p m = candidate p n \<longleftrightarrow> m = n"
proof -
  have "nat_text m = nat_text n \<Longrightarrow> m = n"
    by (metis digits_value_nat_text option.inject)
  then show ?thesis by (auto simp: candidate_def)
qed

lemma finite_candidates: "finite {n. candidate p n \<in> set occupied}"
proof -
  have "candidate p ` {n. candidate p n \<in> set occupied} \<subseteq> set occupied" by blast
  then have "finite (candidate p ` {n. candidate p n \<in> set occupied})"
    by (rule finite_subset) simp
  moreover have "inj_on (candidate p) {n. candidate p n \<in> set occupied}"
    by (rule inj_onI) simp
  ultimately show ?thesis by (rule finite_imageD)
qed

text \<open>The alias loop: it ends because only finitely many names are taken.\<close>

function fresh_sequence :: "string list \<Rightarrow> string \<Rightarrow> nat \<Rightarrow> nat" where
  "fresh_sequence occupied prefix sequence =
     (if candidate prefix sequence \<in> set occupied then fresh_sequence occupied prefix (Suc sequence)
      else sequence)"
  by pat_completeness auto
termination
proof (relation "measure (\<lambda>(occupied, prefix, sequence). card {n. sequence \<le> n \<and> candidate prefix n \<in> set occupied})")
  fix occupied :: "string list" and prefix :: string and sequence :: nat
  assume taken: "candidate prefix sequence \<in> set occupied"
  have "{n. Suc sequence \<le> n \<and> candidate prefix n \<in> set occupied} \<subset> {n. sequence \<le> n \<and> candidate prefix n \<in> set occupied}"
    using taken by (auto simp: Suc_le_eq)
  moreover have "finite {n. sequence \<le> n \<and> candidate prefix n \<in> set occupied}"
    by (rule finite_subset [OF _ finite_candidates [of prefix occupied]]) auto
  ultimately show "((occupied, prefix, Suc sequence), (occupied, prefix, sequence)) \<in>
      measure (\<lambda>(occupied, prefix, sequence). card {n. sequence \<le> n \<and> candidate prefix n \<in> set occupied})"
    by (simp add: psubset_card_mono)
qed simp

declare fresh_sequence.simps [simp del]

record build_state =
  bs_occupied :: "string list"
  bs_forward :: "(tool_identity, tool_identity) fmap"
  bs_reverse :: "(tool_identity, tool_binding) fmap"
  bs_definitions :: "tool_definition list"
  bs_sequence :: nat

definition tool_grammar :: "(string \<Rightarrow> string) \<Rightarrow> bool \<Rightarrow> tool_definition \<Rightarrow> ir_error + grammar option" where
  "tool_grammar sha256 code_mode tool =
     (case td_kind tool of
        CustomTool format \<Rightarrow>
          and_then (from_format_for_contract sha256 format code_mode) (\<lambda>g. Ok (Some g))
      | FunctionTool _ _ \<Rightarrow> Ok None
      | NamespaceTool _ \<Rightarrow> Err InvalidToolMapping)"

definition custom_format :: "tool_definition \<Rightarrow> json option" where
  "custom_format tool = (case td_kind tool of CustomTool format \<Rightarrow> format | _ \<Rightarrow> None)"

definition envelope_parameters :: "serde \<Rightarrow> grammar option \<Rightarrow> json option \<Rightarrow> json" where
  "envelope_parameters sj grammar format =
     (let input = obj ([(''type'', JString ''string'')] @
            (case (grammar, format) of
               (Some CodexPatchV1, Some f) \<Rightarrow>
                 [(''description'', JString (''The exact text must match this grammar: '' @ sj_value sj f))]
             | _ \<Rightarrow> []))
      in obj [(''type'', JString ''object''), (''properties'', obj [(''input'', input)]),
              (''required'', strings [''input'']), (''additionalProperties'', JBool False)])"

definition lowered_definition ::
  "serde \<Rightarrow> bool \<Rightarrow> grammar option \<Rightarrow> bool \<Rightarrow> tool_identity \<Rightarrow> tool_definition \<Rightarrow> tool_definition" where
  "lowered_definition sj strip_grammar grammar wrapped alias tool =
     (if wrapped then
        ToolDefinition alias (td_description tool)
          (FunctionTool (Some (envelope_parameters sj grammar (custom_format tool))) None) (td_extensions tool)
      else if strip_grammar \<and> grammar \<notin> {None, Some GrammarText} then
        ToolDefinition alias
          (Some (sj_value sj (obj
             [(''tool_description'', json_opt (td_description tool)),
              (''registered_grammar'', case custom_format tool of None \<Rightarrow> JNull | Some f \<Rightarrow> f)])))
          (CustomTool (Some (obj [(''type'', JString ''text'')]))) (td_extensions tool)
      else ToolDefinition alias (td_description tool) (td_kind tool) (td_extensions tool))"

text \<open>The alias of one tool, with the names taken and the counter after it.\<close>

definition choose_alias ::
  "bool \<Rightarrow> bool \<Rightarrow> grammar option \<Rightarrow> tool_definition \<Rightarrow> string list \<Rightarrow> nat \<Rightarrow>
     ir_error + tool_identity \<times> string list \<times> nat" where
  "choose_alias flatten wrapped grammar tool occupied sequence =
     (if wrapped \<or> (flatten \<and> namespace (td_identity tool) \<noteq> None) then
        let prefix = (if grammar \<noteq> None then ''arg_custom'' else ''arg_namespaced'');
            n = fresh_sequence occupied prefix sequence
        in and_then (tool_identity_new (if flatten then None else namespace (td_identity tool)) (candidate prefix n))
             (\<lambda>alias. Ok (alias, candidate prefix n # occupied, Suc n))
      else Ok (td_identity tool, occupied, sequence))"

definition build_tool ::
  "serde \<Rightarrow> (string \<Rightarrow> string) \<Rightarrow> bool \<Rightarrow> bool \<Rightarrow> bool \<Rightarrow> bool \<Rightarrow> build_state \<Rightarrow> tool_definition \<Rightarrow>
     ir_error + build_state" where
  "build_tool sj sha256 wrap_custom flatten strip_grammar code_mode st tool =
     and_then (tool_identity_validate (td_identity tool)) (\<lambda>_.
       if fmlookup (bs_forward st) (td_identity tool) \<noteq> None then Err DuplicateId
       else if ext_fields (td_extensions tool) \<noteq> fmempty then Err UnsupportedExtension
       else
         and_then (tool_grammar sha256 code_mode tool) (\<lambda>grammar.
         let wrapped = (grammar \<noteq> None \<and> wrap_custom) in
         and_then (choose_alias flatten wrapped grammar tool (bs_occupied st) (bs_sequence st))
           (\<lambda>(alias, occupied, sequence).
           Ok \<lparr>bs_occupied = occupied,
               bs_forward = fmupd (td_identity tool) alias (bs_forward st),
               bs_reverse = fmupd alias
                 \<lparr>bi_normalize = False, bi_structured = None, bi_original = td_identity tool,
                  bi_grammar = grammar, bi_wrapped = wrapped\<rparr> (bs_reverse st),
               bs_definitions = bs_definitions st @
                 [lowered_definition sj strip_grammar grammar wrapped alias tool],
               bs_sequence = sequence\<rparr>)))"

text \<open>\<open>flat.next().expect(..)\<close> finds a definition for every tool that is not a group: the branch without
  one is never reached (\<open>build_definition_per_tool\<close>).\<close>

fun regroup :: "tool_definition list \<Rightarrow> tool_definition list \<Rightarrow> tool_definition list" where
  "regroup [] flat = []"
| "regroup (tool # tools) flat =
     (case td_kind tool of
        NamespaceTool children \<Rightarrow>
          ToolDefinition (td_identity tool) (td_description tool) (NamespaceTool (take (length children) flat))
            (td_extensions tool) # regroup tools (drop (length children) flat)
      | _ \<Rightarrow> (case flat of [] \<Rightarrow> [] | d # rest \<Rightarrow> d # regroup tools rest))"

definition initial_build :: "tool_definition list \<Rightarrow> build_state" where
  "initial_build leaves =
     \<lparr>bs_occupied = map (tool_name \<circ> td_identity) leaves, bs_forward = fmempty, bs_reverse = fmempty,
      bs_definitions = [], bs_sequence = 0\<rparr>"

definition build ::
  "serde \<Rightarrow> (string \<Rightarrow> string) \<Rightarrow> tool_definition list \<Rightarrow> bool \<Rightarrow> bool \<Rightarrow> bool \<Rightarrow> bool \<Rightarrow>
     ir_error + custom_tool_bridge" where
  "build sj sha256 tools wrap_custom flatten strip_grammar code_mode =
     and_then (fold_result (collect_leaves sj flatten) ([], {}) tools) (\<lambda>(leaves, groups).
     and_then (fold_result (build_tool sj sha256 wrap_custom flatten strip_grammar code_mode)
         (initial_build leaves) leaves) (\<lambda>st.
       Ok \<lparr>br_code_mode = code_mode, br_forward = bs_forward st, br_reverse = bs_reverse st,
           br_definitions = (if flatten then bs_definitions st else regroup tools (bs_definitions st)),
           br_normalized = {}\<rparr>))"

definition bridge_new :: "serde \<Rightarrow> (string \<Rightarrow> string) \<Rightarrow> tool_definition list \<Rightarrow> ir_error + custom_tool_bridge" where
  "bridge_new sj sha256 tools = build sj sha256 tools True True False False"

definition for_responses ::
  "serde \<Rightarrow> (string \<Rightarrow> string) \<Rightarrow> tool_definition list \<Rightarrow> capability_profile \<Rightarrow> ir_error + custom_tool_bridge" where
  "for_responses sj sha256 tools profile =
     build sj sha256 tools
       (support_of profile CustomTools = Bridged CustomToolJson)
       (support_of profile NamespacedTools = Bridged ToolNamespace)
       (support_of profile CustomGrammar = Bridged RegisteredGrammarValidation)
       False"

section \<open>Editing alternatives\<close>

definition patch_tool_name :: "tool_identity \<Rightarrow> bool" where
  "patch_tool_name t \<longleftrightarrow> tool_name t = ''apply_patch'' \<and> namespace t \<in> {None, Some ''functions''}"

definition editing_target :: "policy \<Rightarrow> tool_identity \<Rightarrow> bool" where
  "editing_target policy original =
     (if po_client_contract policy = CodeMode then tool_name original = ''exec'' \<and> namespace original = None
      else patch_tool_name original)"

definition expected_grammar :: "policy \<Rightarrow> grammar" where
  "expected_grammar policy =
     (if po_client_contract policy = CodeMode then CodeModeSourceV1 else CodexPatchV1)"

definition check_descriptor :: "(string \<Rightarrow> string) \<Rightarrow> policy \<Rightarrow> request_ir \<Rightarrow> tool_identity \<Rightarrow> ir_error + unit" where
  "check_descriptor sha256 policy request original =
     and_then (ok_or (find (\<lambda>t. td_identity t = original) (tool_definitions request)) InvalidToolMapping)
       (\<lambda>declaration.
     and_then (ok_or (po_client_descriptor_sha256 policy) InvalidToolMapping) (\<lambda>expected.
       if hex (sha256 (case td_description declaration of None \<Rightarrow> [] | Some d \<Rightarrow> d)) \<noteq> expected
       then Err InvalidToolMapping else Ok ()))"

text \<open>\<open>self.reverse[alias]\<close> indexes a binding that exists for every alias of a built registry
  (\<open>build_binds\<close>), so the missing one, which would panic, stands for no run of the code.\<close>

definition select_original ::
  "(string \<Rightarrow> string) \<Rightarrow> policy \<Rightarrow> request_ir \<Rightarrow> custom_tool_bridge \<Rightarrow> tool_identity list \<Rightarrow>
     tool_identity \<times> tool_identity \<Rightarrow> ir_error + tool_identity list" where
  "select_original sha256 policy request br originals entry =
     (case entry of (original, alias) \<Rightarrow>
       if \<not> editing_target policy original then Ok originals
       else if Option.bind (fmlookup (br_reverse br) alias) bi_grammar \<noteq> Some (expected_grammar policy)
       then Err InvalidToolMapping
       else and_then (if po_client_contract policy = CodeMode
                      then check_descriptor sha256 policy request original else Ok ())
              (\<lambda>_. Ok (originals @ [original])))"

definition mark_normalize ::
  "custom_tool_bridge \<Rightarrow> tool_identity \<Rightarrow> ir_error + custom_tool_bridge" where
  "mark_normalize br original =
     and_then (ok_or (fmlookup (br_forward br) original) InvalidToolMapping) (\<lambda>alias.
     and_then (ok_or (fmlookup (br_reverse br) alias) InvalidToolMapping) (\<lambda>b.
       Ok (br\<lparr>br_reverse := fmupd alias (b\<lparr>bi_normalize := True\<rparr>) (br_reverse br)\<rparr>)))"

definition OPERATIONS_HELP :: string where
  "OPERATIONS_HELP = ''Propose independent create, delete, move or context update operations. Move requires unchanged context. Repeated or dependent paths are rejected. The host executes one patch; atomicity and rollback are not guaranteed.''"

definition CONTEXT_HELP :: string where
  "CONTEXT_HELP = ''Propose one context-based line edit. The host checks the supplied context and applies the patch; this is not replace-all. Use the original patch tool for other operations.''"

definition synthetic_name :: "serde \<Rightarrow> (string \<Rightarrow> string) \<Rightarrow> policy \<Rightarrow> tool_identity \<Rightarrow> string" where
  "synthetic_name sj sha256 policy original =
     ''arg_edit_'' @ take 32 (hex (sha256 (sj_policy_key sj (namespace original) (tool_name original) policy)))"

definition add_alternative ::
  "serde \<Rightarrow> (string \<Rightarrow> string) \<Rightarrow> policy \<Rightarrow> custom_tool_bridge \<Rightarrow> tool_identity \<Rightarrow>
     ir_error + custom_tool_bridge" where
  "add_alternative sj sha256 policy br original =
     (let name = synthetic_name sj sha256 policy original in
      if \<not> fmpred (\<lambda>t _. tool_name t \<noteq> name) (br_reverse br) \<or> \<not> fmpred (\<lambda>t _. tool_name t \<noteq> name) (br_forward br)
      then Err InvalidToolMapping
      else and_then (tool_identity_new None name) (\<lambda>alias.
        Ok (br\<lparr>br_definitions := br_definitions br @
                 [ToolDefinition alias
                    (Some (if po_representation policy = Operations then OPERATIONS_HELP else CONTEXT_HELP))
                    (FunctionTool (Some (representation_schema (po_representation policy))) None)
                    responses_extensions],
               br_reverse := fmupd alias
                 \<lparr>bi_normalize = False, bi_structured = Some (po_representation policy),
                  bi_original = original, bi_grammar = Some (expected_grammar policy), bi_wrapped = True\<rparr>
                 (br_reverse br)\<rparr>)))"

definition named_or_no_choice :: "request_ir \<Rightarrow> bool" where
  "named_or_no_choice r =
     (case go_tool_choice (req_generation r) of
        Some (ChoiceNamed _ _ _) \<Rightarrow> True | Some ChoiceNone \<Rightarrow> True | _ \<Rightarrow> False)"

definition with_editing ::
  "serde \<Rightarrow> (string \<Rightarrow> string) \<Rightarrow> custom_tool_bridge \<Rightarrow> policy option \<Rightarrow> request_ir \<Rightarrow> bool \<Rightarrow>
     ir_error + custom_tool_bridge" where
  "with_editing sj sha256 br policy_opt request add_alternatives =
     (case policy_opt of
        None \<Rightarrow> Ok br
      | Some policy \<Rightarrow>
          and_then (policy_validate policy) (\<lambda>_.
          and_then (fold_result (select_original sha256 policy request br) [] (sorted_list_of_fmap (br_forward br)))
            (\<lambda>originals.
          if po_client_contract policy = CodeMode \<and> originals = [] \<and>
             list_ex (\<lambda>t. patch_tool_name (td_identity t)) (tool_definitions request)
          then Err InvalidToolMapping
          else
            and_then (if po_normalization policy = PatchEnvelope
                      then fold_result mark_normalize br originals else Ok br) (\<lambda>br.
            if po_representation policy = PatchText \<or> \<not> add_alternatives \<or> named_or_no_choice request
            then Ok br
            else fold_result (add_alternative sj sha256 policy) br originals))))"

definition is_code_mode :: "policy option \<Rightarrow> bool" where
  "is_code_mode p = (case p of None \<Rightarrow> False | Some q \<Rightarrow> po_client_contract q = CodeMode)"

definition for_plan ::
  "serde \<Rightarrow> (string \<Rightarrow> string) \<Rightarrow> request_ir \<Rightarrow> capability_profile \<Rightarrow> policy option \<Rightarrow> bool \<Rightarrow>
     ir_error + custom_tool_bridge" where
  "for_plan sj sha256 request profile editing add_alternatives =
     (let responses = (cp_protocol profile = Responses \<or> cp_protocol profile = Plugin) in
      and_then (build sj sha256 (top_tools request)
          (\<not> responses \<or> support_of profile CustomTools = Bridged CustomToolJson)
          (\<not> responses \<or> support_of profile NamespacedTools = Bridged ToolNamespace)
          (responses \<and> support_of profile CustomGrammar = Bridged RegisteredGrammarValidation)
          (is_code_mode editing)) (\<lambda>br.
        with_editing sj sha256 br editing request add_alternatives))"

section \<open>Lookups\<close>

definition alias_of :: "custom_tool_bridge \<Rightarrow> tool_identity \<Rightarrow> ir_error + tool_identity" where
  "alias_of br original = ok_or (fmlookup (br_forward br) original) InvalidToolMapping"

definition grammar_kind :: "grammar option \<Rightarrow> tool_kind" where
  "grammar_kind g = (if g \<noteq> None then CustomKind else FunctionKind)"

definition original_of :: "custom_tool_bridge \<Rightarrow> tool_identity \<Rightarrow> ir_error + tool_identity \<times> tool_kind" where
  "original_of br alias =
     and_then (ok_or (fmlookup (br_reverse br) alias) InvalidToolMapping) (\<lambda>b.
       Ok (bi_original b, grammar_kind (bi_grammar b)))"

definition binding_of :: "custom_tool_bridge \<Rightarrow> tool_identity \<Rightarrow> ir_error + tool_binding" where
  "binding_of br original =
     and_then (alias_of br original) (\<lambda>alias. ok_or (fmlookup (br_reverse br) alias) InvalidToolMapping)"

section \<open>Calls\<close>

definition moved_call :: "tool_call \<Rightarrow> tool_identity \<Rightarrow> tool_input \<Rightarrow> tool_call" where
  "moved_call call tool input =
     \<lparr>tc_status = tc_status call, tc_item_id = tc_item_id call, tc_call_id = tc_call_id call,
      tc_tool = tool, tc_input = input, tc_extensions = responses_extensions\<rparr>"

definition original_patch :: "serde \<Rightarrow> custom_tool_bridge \<Rightarrow> tool_call \<Rightarrow> ir_error + string option" where
  "original_patch sj br original =
     (case tc_input original of
        Freeform t \<Rightarrow>
          and_then (binding_of br (tc_tool original)) (\<lambda>b.
            if bi_grammar b = Some CodeModeSourceV1
            then Ok (case helper_patch sj t of Inl _ \<Rightarrow> None | Inr p \<Rightarrow> Some p)
            else Ok (Some t))
      | Json _ \<Rightarrow> Ok None)"

definition structured_binding ::
  "custom_tool_bridge \<Rightarrow> tool_identity \<Rightarrow> (tool_identity \<times> tool_binding) option" where
  "structured_binding br original =
     find (\<lambda>(alias, b). bi_structured b \<noteq> None \<and> bi_original b = original)
       (sorted_list_of_fmap (br_reverse br))"

text \<open>The structured alternative of a call, when its patch is one the alternative can express.\<close>

definition structured_form ::
  "serde \<Rightarrow> (string \<Rightarrow> string) \<Rightarrow> custom_tool_bridge \<Rightarrow> tool_identity \<Rightarrow> string option \<Rightarrow>
     (tool_identity \<times> string) option" where
  "structured_form sj lower br original patch =
     (case (patch, structured_binding br original) of
        (Some t, Some (alias, b)) \<Rightarrow>
          (case bi_structured b of
             Some rep \<Rightarrow>
               (case representation_decode sj lower rep t of Inl _ \<Rightarrow> None | Inr edit \<Rightarrow> Some (alias, edit))
           | None \<Rightarrow> None)
      | _ \<Rightarrow> None)"

definition lower_input :: "serde \<Rightarrow> tool_binding \<Rightarrow> tool_input \<Rightarrow> ir_error + tool_input" where
  "lower_input sj b input =
     (case (input, bi_grammar b) of
        (Freeform t, Some grammar) \<Rightarrow>
          and_then (grammar_validate grammar t) (\<lambda>_.
            Ok (if bi_wrapped b then Json (sj_value sj (obj [(''input'', JString t)])) else Freeform t))
      | (Json raw, None) \<Rightarrow> Ok (Json raw)
      | _ \<Rightarrow> Err InvalidToolMapping)"

definition lower_call ::
  "serde \<Rightarrow> (string \<Rightarrow> string) \<Rightarrow> custom_tool_bridge \<Rightarrow> tool_call \<Rightarrow> ir_error + tool_call" where
  "lower_call sj lower br original =
     (if ext_fields (tc_extensions original) \<noteq> fmempty then Err UnsupportedExtension
      else if tc_status original \<in> {Some InProgress, Some StatusIncomplete} then Err InvalidToolMapping
      else
        and_then (original_patch sj br original) (\<lambda>patch.
        case structured_form sj lower br (tc_tool original) patch of
          Some (alias, edit) \<Rightarrow> Ok (moved_call original alias (Json edit))
        | None \<Rightarrow>
            and_then (binding_of br (tc_tool original)) (\<lambda>b.
            and_then (lower_input sj b (tc_input original)) (\<lambda>input.
            and_then (alias_of br (tc_tool original)) (\<lambda>alias.
              Ok (moved_call original alias input))))))"

definition normalized_input ::
  "custom_tool_bridge \<Rightarrow> tool_binding \<Rightarrow> call_id \<Rightarrow> string \<Rightarrow> (ir_error + string) \<times> custom_tool_bridge" where
  "normalized_input br b call t =
     (if \<not> bi_normalize b then (Ok t, br)
      else (case normalize_patch_envelope t of
              Inl e \<Rightarrow> (Err e, br)
            | Inr n \<Rightarrow>
                (Ok (np_text n),
                 if np_applied_rule n \<noteq> None
                 then br\<lparr>br_normalized := insert call (br_normalized br)\<rparr> else br)))"

definition normalization_evidence :: "custom_tool_bridge \<Rightarrow> string option \<times> nat" where
  "normalization_evidence br =
     (let count = card (br_normalized br)
      in (if count = 0 then None else Some ''patch-envelope/v1'', count))"

definition restore_text ::
  "custom_tool_bridge \<Rightarrow> tool_binding \<Rightarrow> grammar \<Rightarrow> call_id \<Rightarrow> string \<Rightarrow> (ir_error + tool_input) \<times> custom_tool_bridge" where
  "restore_text br b grammar call t =
     (case normalized_input br b call t of
        (Inl e, br') \<Rightarrow> (Err e, br')
      | (Inr t', br') \<Rightarrow> (and_then (grammar_validate grammar t') (\<lambda>_. Ok (Freeform t')), br'))"

definition restore_input ::
  "serde \<Rightarrow> (string \<Rightarrow> string) \<Rightarrow> custom_tool_bridge \<Rightarrow> tool_binding \<Rightarrow> call_id \<Rightarrow> tool_input \<Rightarrow>
     (ir_error + tool_input) \<times> custom_tool_bridge" where
  "restore_input sj lower br b call input =
     (case bi_structured b of
        Some rep \<Rightarrow>
          (case input of
             Json raw \<Rightarrow>
               (and_then (representation_compile sj lower rep raw) (\<lambda>patch.
                  if bi_grammar b = Some CodeModeSourceV1
                  then and_then (helper_program sj patch) (\<lambda>program. Ok (Freeform program))
                  else Ok (Freeform patch)), br)
           | Freeform _ \<Rightarrow> (Err InvalidToolMapping, br))
      | None \<Rightarrow>
          (case bi_grammar b of
             Some grammar \<Rightarrow>
               if \<not> bi_wrapped b then
                 (case input of
                    Freeform t \<Rightarrow> restore_text br b grammar call t
                  | Json _ \<Rightarrow> (Err InvalidToolMapping, br))
               else
                 (case input of
                    Json raw \<Rightarrow>
                      (case sj_parse_input sj raw of
                         None \<Rightarrow> (Err InvalidToolMapping, br)
                       | Some t \<Rightarrow> restore_text br b grammar call t)
                  | Freeform _ \<Rightarrow> (Err InvalidToolMapping, br))
           | None \<Rightarrow>
               (case input of
                  Json raw \<Rightarrow>
                    (and_then (ok_or (sj_parse_value sj raw) InvalidJsonArguments) (\<lambda>v.
                       if is_object v then Ok (Json raw) else Err InvalidJsonArguments), br)
                | Freeform _ \<Rightarrow> (Err InvalidToolMapping, br))))"

definition restore_call ::
  "serde \<Rightarrow> (string \<Rightarrow> string) \<Rightarrow> custom_tool_bridge \<Rightarrow> tool_call \<Rightarrow> (ir_error + tool_call) \<times> custom_tool_bridge" where
  "restore_call sj lower br lowered =
     (if ext_fields (tc_extensions lowered) \<noteq> fmempty then (Err UnsupportedExtension, br)
      else (case fmlookup (br_reverse br) (tc_tool lowered) of
              None \<Rightarrow> (Err InvalidToolMapping, br)
            | Some b \<Rightarrow>
                (case restore_input sj lower br b (tc_call_id lowered) (tc_input lowered) of
                   (r, br') \<Rightarrow> (and_then r (\<lambda>input. Ok (moved_call lowered (bi_original b) input)), br'))))"

section \<open>Choices and results\<close>

definition lower_choice :: "custom_tool_bridge \<Rightarrow> tool_choice \<Rightarrow> ir_error + tool_choice" where
  "lower_choice br choice =
     (case choice of
        ChoiceNamed tool kind ext \<Rightarrow>
          if ext_fields ext \<noteq> fmempty then Err UnsupportedExtension
          else
            and_then (binding_of br tool) (\<lambda>b.
              if kind \<noteq> grammar_kind (bi_grammar b) then Err InvalidToolMapping
              else and_then (alias_of br tool) (\<lambda>alias.
                Ok (ChoiceNamed alias (if bi_wrapped b then FunctionKind else kind) responses_extensions)))
      | ChoiceExtension _ _ \<Rightarrow> Err UnsupportedExtension
      | _ \<Rightarrow> Ok choice)"

definition result_text :: "serde \<Rightarrow> custom_tool_bridge \<Rightarrow> tool_result \<Rightarrow> tool_call \<Rightarrow> ir_error + string" where
  "result_text sj br result call =
     (if br_code_mode br \<and> namespace (tc_tool call) = None \<and> tool_name (tc_tool call) = ''exec'' \<and>
         is_freeform (tc_input call)
      then code_mode_result sj (tr_output result)
      else ok_or (as_str (tr_output result)) UnsupportedFeature)"

definition convert_result ::
  "serde \<Rightarrow> (string \<Rightarrow> string) \<Rightarrow> custom_tool_bridge \<Rightarrow> tool_result \<Rightarrow> tool_call \<Rightarrow> bool \<Rightarrow> ir_error + tool_result" where
  "convert_result sj lower br result call restore =
     and_then (lower_call sj lower br call) (\<lambda>lowered.
     and_then (binding_of br (tc_tool call)) (\<lambda>b.
       let kind = grammar_kind (bi_grammar b);
           lowered_kind = (if \<not> is_freeform (tc_input lowered) then FunctionKind else kind)
       in if tr_call_id result \<noteq> tc_call_id call \<or> tr_kind result \<noteq> (if restore then lowered_kind else kind)
          then Err InvalidToolMapping
          else if ext_fields (tr_extensions result) \<noteq> fmempty then Err UnsupportedExtension
          else
            and_then (if bi_grammar b = Some CodeModeSourceV1 then
                (if restore then
                   and_then (ok_or (as_str (tr_output result)) InvalidToolMapping) (code_mode_result_parts sj)
                 else and_then (code_mode_result sj (tr_output result)) (\<lambda>t. Ok (JString t)))
              else Ok (tr_output result)) (\<lambda>output.
            Ok (result\<lparr>tr_output := output, tr_kind := (if restore then kind else lowered_kind)\<rparr>))))"

definition lower_result ::
  "serde \<Rightarrow> (string \<Rightarrow> string) \<Rightarrow> custom_tool_bridge \<Rightarrow> tool_result \<Rightarrow> tool_call \<Rightarrow> ir_error + tool_result" where
  "lower_result sj lower br result call = convert_result sj lower br result call False"

definition restore_result ::
  "serde \<Rightarrow> (string \<Rightarrow> string) \<Rightarrow> custom_tool_bridge \<Rightarrow> tool_result \<Rightarrow> tool_call \<Rightarrow> ir_error + tool_result" where
  "restore_result sj lower br result call = convert_result sj lower br result call True"

section \<open>Alias registries\<close>

text \<open>
  The interface the translation relies on: a registry gives each original name an alias and
  each alias the original it stands for. The laws a provider promises are that the alias of an
  original leads back to it; the client facts are that no two originals share an alias and that
  a whole list of names survives the trip.
\<close>

locale alias_registry =
  fixes fwd :: "'r \<Rightarrow> 'k \<Rightarrow> 'a option"
    and bwd :: "'r \<Rightarrow> 'a \<Rightarrow> 'k option"
    and sound :: "'r \<Rightarrow> bool"
  assumes bwd_fwd: "sound r \<Longrightarrow> fwd r k = Some a \<Longrightarrow> bwd r a = Some k"
begin

lemma fwd_inject: "sound r \<Longrightarrow> fwd r k = Some a \<Longrightarrow> fwd r k' = Some a \<Longrightarrow> k = k'"
  by (metis bwd_fwd option.inject)

lemma fwd_list:
  "sound r \<Longrightarrow> list_all2 (\<lambda>k a. fwd r k = Some a) ks as \<Longrightarrow> map (bwd r) as = map Some ks"
  by (induction ks arbitrary: as) (auto simp: list_all2_Cons1 dest: bwd_fwd)

lemma distinct_aliases:
  assumes "sound r" and "list_all2 (\<lambda>k a. fwd r k = Some a) ks as" and "distinct ks"
  shows "distinct as"
proof -
  have "distinct (map Some ks)" using assms(3) by (simp add: distinct_map)
  then show ?thesis by (simp add: fwd_list [OF assms(1,2), symmetric] distinct_map)
qed

end

section \<open>The invariant of a registry\<close>

definition registry_ok ::
  "(tool_identity, tool_identity) fmap \<Rightarrow> (tool_identity, tool_binding) fmap \<Rightarrow> bool" where
  "registry_ok f r \<longleftrightarrow>
     (\<forall>k a. fmlookup f k = Some a \<longrightarrow>
        (\<exists>b. fmlookup r a = Some b \<and> bi_original b = k \<and> bi_structured b = None)) \<and>
     (\<forall>a b. fmlookup r a = Some b \<longrightarrow>
        (bi_wrapped b \<longrightarrow> bi_grammar b \<noteq> None) \<and>
        (bi_normalize b \<longrightarrow> bi_grammar b = Some CodexPatchV1) \<and>
        (bi_structured b = None \<longrightarrow> fmlookup f (bi_original b) = Some a) \<and>
        (bi_structured b \<noteq> None \<longrightarrow> bi_grammar b \<noteq> None \<and>
           (\<exists>a' b'. fmlookup f (bi_original b) = Some a' \<and> fmlookup r a' = Some b' \<and> bi_grammar b' = bi_grammar b)))"

abbreviation bridge_ok :: "custom_tool_bridge \<Rightarrow> bool" where
  "bridge_ok br \<equiv> registry_ok (br_forward br) (br_reverse br)"

lemma registry_okD1:
  "registry_ok f r \<Longrightarrow> fmlookup f k = Some a \<Longrightarrow>
     \<exists>b. fmlookup r a = Some b \<and> bi_original b = k \<and> bi_structured b = None"
  by (simp add: registry_ok_def)

lemma registry_okD2:
  "registry_ok f r \<Longrightarrow> fmlookup r a = Some b \<Longrightarrow>
     (bi_wrapped b \<longrightarrow> bi_grammar b \<noteq> None) \<and> (bi_normalize b \<longrightarrow> bi_grammar b = Some CodexPatchV1) \<and>
     (bi_structured b = None \<longrightarrow> fmlookup f (bi_original b) = Some a) \<and>
     (bi_structured b \<noteq> None \<longrightarrow> bi_grammar b \<noteq> None \<and>
        (\<exists>a' b'. fmlookup f (bi_original b) = Some a' \<and> fmlookup r a' = Some b' \<and> bi_grammar b' = bi_grammar b))"
  by (simp add: registry_ok_def)

interpretation tool_aliases: alias_registry
  "\<lambda>br. fmlookup (br_forward br)" "\<lambda>br a. map_option bi_original (fmlookup (br_reverse br) a)" bridge_ok
  by unfold_locales (auto dest: registry_okD1)

lemma registry_ok_empty: "registry_ok fmempty fmempty"
  by (simp add: registry_ok_def)

lemma registry_ok_add_tool:
  assumes "registry_ok f r" and "fmlookup f k = None" and "fmlookup r a = None"
    and "bi_original b = k" and "bi_structured b = None" and "\<not> bi_normalize b"
    and "bi_wrapped b \<longrightarrow> bi_grammar b \<noteq> None"
  shows "registry_ok (fmupd k a f) (fmupd a b r)"
proof -
  have old: "a' \<noteq> a" if "fmlookup f k' = Some a'" for k' a'
    using registry_okD1 [OF assms(1) that] assms(3) by auto
  show ?thesis
    unfolding registry_ok_def
  proof (intro conjI allI impI)
    fix k' a' assume "fmlookup (fmupd k a f) k' = Some a'"
    then show "\<exists>b'. fmlookup (fmupd a b r) a' = Some b' \<and> bi_original b' = k' \<and> bi_structured b' = None"
      using assms(4,5) old registry_okD1 [OF assms(1)] by (auto split: if_splits)
  next
    fix a' b' assume look: "fmlookup (fmupd a b r) a' = Some b'"
    note props = registry_okD2 [OF assms(1)]
    show "bi_wrapped b' \<Longrightarrow> bi_grammar b' \<noteq> None" "bi_normalize b' \<Longrightarrow> bi_grammar b' = Some CodexPatchV1"
      "bi_structured b' \<noteq> None \<Longrightarrow> bi_grammar b' \<noteq> None"
      using look assms(5-7) props by (auto split: if_splits)
    show "fmlookup (fmupd k a f) (bi_original b') = Some a'" if "bi_structured b' = None"
      using look assms(2,4) props that by (fastforce split: if_splits)
    show "\<exists>a'' b''. fmlookup (fmupd k a f) (bi_original b') = Some a'' \<and> fmlookup (fmupd a b r) a'' = Some b'' \<and>
        bi_grammar b'' = bi_grammar b'" if "bi_structured b' \<noteq> None"
    proof -
      have "fmlookup r a' = Some b'" using look that assms(5) by (auto split: if_splits)
      with props that obtain a'' b'' where "fmlookup f (bi_original b') = Some a''" "fmlookup r a'' = Some b''"
        "bi_grammar b'' = bi_grammar b'" by blast
      then show ?thesis using assms(2,3) by (intro exI [of _ a''] exI [of _ b'']) auto
    qed
  qed
qed

lemma registry_ok_normalize:
  assumes "registry_ok f r" and "fmlookup r a = Some b" and "bi_grammar b = Some CodexPatchV1"
  shows "registry_ok f (fmupd a (b\<lparr>bi_normalize := True\<rparr>) r)"
proof -
  define r' where "r' = fmupd a (b\<lparr>bi_normalize := True\<rparr>) r"
  have same: "\<exists>y'. fmlookup r' x = Some y' \<and> bi_original y' = bi_original y \<and>
      bi_structured y' = bi_structured y \<and> bi_grammar y' = bi_grammar y" if "fmlookup r x = Some y" for x y
    using that assms(2) by (cases "x = a") (auto simp: r'_def)
  have origin: "\<exists>y. fmlookup r x = Some y \<and> bi_original y = bi_original y' \<and> bi_structured y = bi_structured y' \<and>
      bi_grammar y = bi_grammar y' \<and> bi_wrapped y = bi_wrapped y' \<and> (bi_normalize y' \<longrightarrow> bi_normalize y \<or> x = a)"
    if "fmlookup r' x = Some y'" for x y'
    using that assms(2) by (cases "x = a") (auto simp: r'_def)
  have "registry_ok f r'"
    unfolding registry_ok_def
  proof (intro conjI allI impI)
    fix k x assume "fmlookup f k = Some x"
    from registry_okD1 [OF assms(1) this] same
    show "\<exists>y. fmlookup r' x = Some y \<and> bi_original y = k \<and> bi_structured y = None" by metis
  next
    fix x y' assume "fmlookup r' x = Some y'"
    then obtain y where y: "fmlookup r x = Some y" "bi_original y = bi_original y'" "bi_structured y = bi_structured y'"
      "bi_grammar y = bi_grammar y'" "bi_wrapped y = bi_wrapped y'" "bi_normalize y' \<longrightarrow> bi_normalize y \<or> x = a"
      using origin by blast
    note props = registry_okD2 [OF assms(1) y(1)]
    show "bi_wrapped y' \<Longrightarrow> bi_grammar y' \<noteq> None" "bi_structured y' \<noteq> None \<Longrightarrow> bi_grammar y' \<noteq> None"
      "bi_structured y' = None \<Longrightarrow> fmlookup f (bi_original y') = Some x"
      using props y by auto
    show "bi_normalize y' \<Longrightarrow> bi_grammar y' = Some CodexPatchV1"
      using props y assms(2,3) by auto
    show "\<exists>u v. fmlookup f (bi_original y') = Some u \<and> fmlookup r' u = Some v \<and> bi_grammar v = bi_grammar y'"
      if "bi_structured y' \<noteq> None"
    proof -
      obtain u v where "fmlookup f (bi_original y') = Some u" "fmlookup r u = Some v" "bi_grammar v = bi_grammar y'"
        using props y that by auto
      with same [of u v] show ?thesis by auto
    qed
  qed
  then show ?thesis by (simp add: r'_def)
qed

lemma registry_ok_alternative:
  assumes "registry_ok f r" and "fmlookup r a = None"
    and "bi_structured b \<noteq> None" and "\<not> bi_normalize b" and "bi_grammar b \<noteq> None"
    and "fmlookup f (bi_original b) = Some a'" and "fmlookup r a' = Some b'" and "bi_grammar b' = bi_grammar b"
  shows "registry_ok f (fmupd a b r)"
proof -
  have ne: "x \<noteq> a" if "fmlookup r x = Some y" for x y using that assms(2) by auto
  show ?thesis
    unfolding registry_ok_def
  proof (intro conjI allI impI)
    fix k x assume "fmlookup f k = Some x"
    from registry_okD1 [OF assms(1) this] ne
    show "\<exists>y. fmlookup (fmupd a b r) x = Some y \<and> bi_original y = k \<and> bi_structured y = None" by auto
  next
    fix x y assume look: "fmlookup (fmupd a b r) x = Some y"
    note props = registry_okD2 [OF assms(1)]
    show "bi_wrapped y \<Longrightarrow> bi_grammar y \<noteq> None" "bi_normalize y \<Longrightarrow> bi_grammar y = Some CodexPatchV1"
      "bi_structured y \<noteq> None \<Longrightarrow> bi_grammar y \<noteq> None"
      using look assms(4,5) props by (auto split: if_splits)
    show "bi_structured y = None \<Longrightarrow> fmlookup f (bi_original y) = Some x"
      using look assms(3) props by (auto split: if_splits)
    show "\<exists>u v. fmlookup f (bi_original y) = Some u \<and> fmlookup (fmupd a b r) u = Some v \<and> bi_grammar v = bi_grammar y"
      if "bi_structured y \<noteq> None"
    proof (cases "x = a")
      case True
      then show ?thesis using look assms(6-8) ne by (intro exI [of _ a'] exI [of _ b']) auto
    next
      case False
      then obtain u v where "fmlookup f (bi_original y) = Some u" "fmlookup r u = Some v" "bi_grammar v = bi_grammar y"
        using props [of x y] look that by auto
      then show ?thesis using ne by (intro exI [of _ u] exI [of _ v]) auto
    qed
  qed
qed

section \<open>Building keeps the invariant\<close>

lemma fresh_sequence_fresh: "candidate prefix (fresh_sequence occupied prefix n) \<notin> set occupied"
proof (induction occupied prefix n rule: fresh_sequence.induct)
  case (1 occupied prefix n)
  then show ?case by (subst fresh_sequence.simps) simp
qed

lemma choose_alias_cases:
  assumes "choose_alias flatten wrapped grammar tool occupied n = Ok (al, occupied', n')"
  shows "al = td_identity tool \<and> occupied' = occupied \<or>
    tool_name al \<notin> set occupied \<and> occupied' = tool_name al # occupied"
  using assms fresh_sequence_fresh
  by (auto simp: choose_alias_def Let_def split: if_splits)

definition build_ok :: "string set \<Rightarrow> build_state \<Rightarrow> bool" where
  "build_ok names st \<longleftrightarrow>
     registry_ok (bs_forward st) (bs_reverse st) \<and> names \<subseteq> set (bs_occupied st) \<and>
     (\<forall>a b. fmlookup (bs_reverse st) a = Some b \<longrightarrow>
        tool_name a \<in> set (bs_occupied st) \<and> (a = bi_original b \<or> tool_name a \<notin> names) \<and> bi_structured b = None) \<and>
     distinct (map td_identity (bs_definitions st)) \<and>
     set (map td_identity (bs_definitions st)) = fmdom' (bs_reverse st)"

lemma lowered_definition_identity [simp]:
  "td_identity (lowered_definition sj sg g w al tool) = al"
  by (simp add: lowered_definition_def)

lemma build_tool_Ok:
  assumes "build_tool sj sha256 wc fl sg cm st tool = Ok st'"
  obtains grammar al occupied n where
    "fmlookup (bs_forward st) (td_identity tool) = None"
    "choose_alias fl (grammar \<noteq> None \<and> wc) grammar tool (bs_occupied st) (bs_sequence st) = Ok (al, occupied, n)"
    "st' = \<lparr>bs_occupied = occupied, bs_forward = fmupd (td_identity tool) al (bs_forward st),
       bs_reverse = fmupd al \<lparr>bi_normalize = False, bi_structured = None, bi_original = td_identity tool,
         bi_grammar = grammar, bi_wrapped = (grammar \<noteq> None \<and> wc)\<rparr> (bs_reverse st),
       bs_definitions = bs_definitions st @
         [lowered_definition sj sg grammar (grammar \<noteq> None \<and> wc) al tool], bs_sequence = n\<rparr>"
proof -
  from assms obtain grammar aon where g: "fmlookup (bs_forward st) (td_identity tool) = None"
    "tool_grammar sha256 cm tool = Ok grammar"
    "choose_alias fl (grammar \<noteq> None \<and> wc) grammar tool (bs_occupied st) (bs_sequence st) = Ok aon"
    and st': "(case aon of (al, occupied, sequence) \<Rightarrow>
      Ok \<lparr>bs_occupied = occupied, bs_forward = fmupd (td_identity tool) al (bs_forward st),
       bs_reverse = fmupd al \<lparr>bi_normalize = False, bi_structured = None, bi_original = td_identity tool,
         bi_grammar = grammar, bi_wrapped = (grammar \<noteq> None \<and> wc)\<rparr> (bs_reverse st),
       bs_definitions = bs_definitions st @
         [lowered_definition sj sg grammar (grammar \<noteq> None \<and> wc) al tool], bs_sequence = sequence\<rparr>) =
      (Ok st' :: ir_error + build_state)"
    unfolding build_tool_def Let_def and_then_eq_Inr by (auto split: if_splits)
  obtain al occupied n where "aon = (al, occupied, n)" by (cases aon)
  with g st' show thesis by (intro that [of grammar al occupied n]) auto
qed

lemma build_tool_keeps:
  assumes "build_ok names st" and "tool_name (td_identity tool) \<in> names"
    and "build_tool sj sha256 wc fl sg cm st tool = Ok st'"
  shows "build_ok names st' \<and> fmdom' (bs_forward st') = insert (td_identity tool) (fmdom' (bs_forward st))"
proof -
  from assms(3) obtain grammar al occupied n where
    new: "fmlookup (bs_forward st) (td_identity tool) = None"
    and choose: "choose_alias fl (grammar \<noteq> None \<and> wc) grammar tool (bs_occupied st) (bs_sequence st) = Ok (al, occupied, n)"
    and st': "st' = \<lparr>bs_occupied = occupied, bs_forward = fmupd (td_identity tool) al (bs_forward st),
       bs_reverse = fmupd al \<lparr>bi_normalize = False, bi_structured = None, bi_original = td_identity tool,
         bi_grammar = grammar, bi_wrapped = (grammar \<noteq> None \<and> wc)\<rparr> (bs_reverse st),
       bs_definitions = bs_definitions st @
         [lowered_definition sj sg grammar (grammar \<noteq> None \<and> wc) al tool], bs_sequence = n\<rparr>"
    by (rule build_tool_Ok)
  note inv = assms(1) [unfolded build_ok_def]
  note alias_cases = choose_alias_cases [OF choose]
  have fresh: "fmlookup (bs_reverse st) al = None"
  proof (rule ccontr)
    assume "fmlookup (bs_reverse st) al \<noteq> None"
    then obtain b where b: "fmlookup (bs_reverse st) al = Some b" by auto
    then have "tool_name al \<in> set (bs_occupied st)" "al = bi_original b \<or> tool_name al \<notin> names"
      "fmlookup (bs_forward st) (bi_original b) = Some al"
      using inv registry_okD2 by blast+
    with alias_cases new assms(2) show False by auto
  qed
  have reg: "registry_ok (bs_forward st') (bs_reverse st')"
    unfolding st' using inv new fresh by (auto intro!: registry_ok_add_tool)
  have "names \<subseteq> set occupied" "set (bs_occupied st) \<subseteq> set occupied"
    using inv alias_cases by auto
  moreover have "tool_name al \<in> set occupied" "al = td_identity tool \<or> tool_name al \<notin> names"
    using inv alias_cases assms(2) by auto
  moreover have "al \<notin> fmdom' (bs_reverse st)" using fresh by (simp add: fmdom'_notI)
  ultimately show ?thesis
    using inv reg by (auto simp: build_ok_def st')
qed

lemma build_tools_keep:
  assumes "fold_result (build_tool sj sha256 wc fl sg cm) st tools = Ok st'" and "build_ok names st"
    and "tool_name ` td_identity ` set tools \<subseteq> names"
  shows "build_ok names st' \<and> fmdom' (bs_forward st') = fmdom' (bs_forward st) \<union> td_identity ` set tools"
  using assms
proof (induction tools arbitrary: st)
  case (Cons tool tools)
  then obtain st1 where step: "build_tool sj sha256 wc fl sg cm st tool = Ok st1"
    and rest: "fold_result (build_tool sj sha256 wc fl sg cm) st1 tools = Ok st'" by auto
  have "build_ok names st1 \<and> fmdom' (bs_forward st1) = insert (td_identity tool) (fmdom' (bs_forward st))"
    using Cons.prems step by (intro build_tool_keeps) auto
  with Cons.IH [OF rest] Cons.prems(3) show ?case by auto
qed simp

text \<open>The leaves the registry covers are the request's leaf tools, identities unchanged.\<close>

lemma flat_description_identity [simp]: "td_identity (flat_description sj fl grp child) = td_identity child"
  by (simp add: flat_description_def split: option.split)

lemma collect_leaves_Ok:
  assumes "collect_leaves sj fl (leaves, groups) tool = Ok (leaves', groups')"
  shows "map td_identity leaves' = map td_identity leaves @ map td_identity (leaves_of tool)"
proof (cases tool)
  case (ToolDefinition i d k e)
  show ?thesis
  proof (cases k)
    case (NamespaceTool children)
    have "map td_identity new = map td_identity children"
      if "traverse (\<lambda>child. if P child then Err InvalidToolMapping else Ok (flat_description sj fl tool child)) children = Ok new"
      for new P
      using that by (induction children arbitrary: new) (auto split: if_splits)
    with assms NamespaceTool ToolDefinition show ?thesis
      by (auto simp: collect_leaves_def split: if_splits)
  qed (use assms ToolDefinition in \<open>auto simp: collect_leaves_def\<close>)
qed

lemma collect_all_leaves:
  "fold_result (collect_leaves sj fl) (leaves, groups) tools = Ok (leaves', groups') \<Longrightarrow>
     map td_identity leaves' = map td_identity leaves @ map td_identity (concat (map leaves_of tools))"
proof (induction tools arbitrary: leaves groups)
  case (Cons tool tools)
  then obtain l g where "collect_leaves sj fl (leaves, groups) tool = Ok (l, g)"
    "fold_result (collect_leaves sj fl) (l, g) tools = Ok (leaves', groups')" by auto
  with Cons.IH collect_leaves_Ok show ?case by fastforce
qed simp

lemma build_keeps:
  assumes "build sj sha256 tools wc fl sg cm = Ok br"
  shows "bridge_ok br \<and> fmdom' (br_forward br) = td_identity ` set (concat (map leaves_of tools)) \<and>
    br_normalized br = {} \<and>
    (fl \<longrightarrow> distinct (map td_identity (br_definitions br)) \<and>
       set (map td_identity (br_definitions br)) = fmdom' (br_reverse br))"
proof -
  obtain leaves groups st where leaves: "fold_result (collect_leaves sj fl) ([], {}) tools = Ok (leaves, groups)"
    and st: "fold_result (build_tool sj sha256 wc fl sg cm) (initial_build leaves) leaves = Ok st"
    and br: "br = \<lparr>br_code_mode = cm, br_forward = bs_forward st, br_reverse = bs_reverse st,
       br_definitions = (if fl then bs_definitions st else regroup tools (bs_definitions st)), br_normalized = {}\<rparr>"
    using assms by (auto simp: build_def split: prod.splits)
  have "build_ok (tool_name ` td_identity ` set leaves) (initial_build leaves)"
    by (auto simp: build_ok_def initial_build_def registry_ok_empty)
  from build_tools_keep [OF st this] have
    "build_ok (tool_name ` td_identity ` set leaves) st" "fmdom' (bs_forward st) = td_identity ` set leaves"
    by (auto simp: initial_build_def)
  moreover have "td_identity ` set leaves = td_identity ` set (concat (map leaves_of tools))"
    using collect_all_leaves [OF leaves] by (metis append_Nil list.set_map list.simps(8))
  ultimately show ?thesis by (auto simp: br build_ok_def)
qed

section \<open>Lookups of the builder that cannot fail\<close>

text \<open>The alias of every tool has a binding, a custom tool with the patch grammar has the format it was
  recognised by, and the definitions that are grouped again are one for each leaf, so that no tool of the
  request is lost.\<close>

lemma build_binds:
  assumes "build sj sha256 tools wc fl sg cm = Ok br" and "fmlookup (br_forward br) k = Some a"
  shows "\<exists>b. fmlookup (br_reverse br) a = Some b"
proof -
  have "bridge_ok br" using build_keeps [OF assms(1)] by (rule conjunct1)
  from registry_okD1 [OF this assms(2)] show ?thesis by (elim exE conjE) (rule exI)
qed

lemma tool_grammar_registered:
  assumes "tool_grammar sha256 cm tool = Ok (Some g)"
  shows "\<exists>format. td_kind tool = CustomTool format \<and> (g = CodexPatchV1 \<longrightarrow> format \<noteq> None)"
proof (cases "td_kind tool")
  case (CustomTool format)
  with assms show ?thesis by (cases format) (simp_all add: tool_grammar_def from_format_for_contract_def)
qed (use assms in \<open>simp_all add: tool_grammar_def\<close>)

lemma build_tools_length:
  "fold_result (build_tool sj sha256 wc fl sg cm) st leaves = Ok st' \<Longrightarrow>
     length (bs_definitions st') = length (bs_definitions st) + length leaves"
proof (induction leaves arbitrary: st)
  case (Cons tool leaves)
  then obtain st1 where "build_tool sj sha256 wc fl sg cm st tool = Ok st1"
    "fold_result (build_tool sj sha256 wc fl sg cm) st1 leaves = Ok st'" by auto
  moreover from this(1) have "length (bs_definitions st1) = Suc (length (bs_definitions st))"
    by (auto simp: build_tool_def Let_def split: if_splits prod.splits)
  ultimately show ?case using Cons.IH by simp
qed simp

lemma regroup_length:
  "length flat = length (concat (map leaves_of tools)) \<Longrightarrow> length (regroup tools flat) = length tools"
proof (induction tools arbitrary: flat)
  case (Cons tool tools)
  obtain i d k e where tool: "tool = ToolDefinition i d k e" by (cases tool)
  show ?case
  proof (cases k)
    case (NamespaceTool children)
    with Cons tool show ?thesis by simp
  qed (use Cons tool in \<open>auto split: list.split\<close>)
qed simp

lemma build_definition_per_tool:
  assumes "build sj sha256 tools wc False sg cm = Ok br"
  shows "length (br_definitions br) = length tools"
proof -
  obtain leaves groups st where leaves: "fold_result (collect_leaves sj False) ([], {}) tools = Ok (leaves, groups)"
    and st: "fold_result (build_tool sj sha256 wc False sg cm) (initial_build leaves) leaves = Ok st"
    and br: "br_definitions br = regroup tools (bs_definitions st)"
    using assms by (auto simp: build_def split: prod.splits)
  have "length leaves = length (concat (map leaves_of tools))"
    using arg_cong [OF collect_all_leaves [OF leaves], of length] by simp
  with build_tools_length [OF st] show ?thesis by (simp add: br regroup_length initial_build_def)
qed

definition selected_ok :: "policy \<Rightarrow> custom_tool_bridge \<Rightarrow> tool_identity list \<Rightarrow> bool" where
  "selected_ok policy br originals \<longleftrightarrow>
     (\<forall>k \<in> set originals. \<exists>a b. fmlookup (br_forward br) k = Some a \<and> fmlookup (br_reverse br) a = Some b \<and>
        bi_grammar b = Some (expected_grammar policy))"

lemma selected_originals:
  assumes "fold_result (select_original sha256 policy request br) [] (sorted_list_of_fmap (br_forward br)) = Ok originals"
  shows "selected_ok policy br originals"
proof (rule fold_result_invariant [OF assms, of "selected_ok policy br"])
  show "selected_ok policy br []" by (simp add: selected_ok_def)
next
  fix os entry os'
  assume entry: "entry \<in> set (sorted_list_of_fmap (br_forward br))" and os: "selected_ok policy br os"
    and step: "select_original sha256 policy request br os entry = Ok os'"
  obtain k a where ka: "entry = (k, a)" by (cases entry)
  have "fmlookup (br_forward br) k = Some a"
    using entry ka by (simp add: sorted_list_of_fmap_member)
  with os step ka show "selected_ok policy br os'"
    by (auto simp: select_original_def selected_ok_def bind_eq_Some_conv split: if_splits)
qed

lemma mark_normalize_keeps:
  assumes "bridge_ok br" and "selected_ok policy br originals" and "expected_grammar policy = CodexPatchV1"
    and "k \<in> set originals" and "mark_normalize br k = Ok br'"
  shows "bridge_ok br' \<and> selected_ok policy br' originals \<and> br_forward br' = br_forward br \<and>
    br_normalized br' = br_normalized br"
proof -
  obtain a b where ab: "fmlookup (br_forward br) k = Some a" "fmlookup (br_reverse br) a = Some b"
    "br' = br\<lparr>br_reverse := fmupd a (b\<lparr>bi_normalize := True\<rparr>) (br_reverse br)\<rparr>"
    using assms(5) by (auto simp: mark_normalize_def)
  have "bi_grammar b = Some CodexPatchV1"
    using assms(2-4) ab by (auto simp: selected_ok_def)
  with ab assms(1) have "bridge_ok br'" by (simp add: registry_ok_normalize)
  moreover have "selected_ok policy br' originals"
    unfolding selected_ok_def
  proof
    fix x assume "x \<in> set originals"
    then obtain u v where "fmlookup (br_forward br) x = Some u" "fmlookup (br_reverse br) u = Some v"
      "bi_grammar v = Some (expected_grammar policy)" using assms(2) by (auto simp: selected_ok_def)
    then show "\<exists>u v. fmlookup (br_forward br') x = Some u \<and> fmlookup (br_reverse br') u = Some v \<and>
        bi_grammar v = Some (expected_grammar policy)"
      using ab by (cases "u = a") auto
  qed
  ultimately show ?thesis using ab by simp
qed

lemma add_alternative_keeps:
  assumes "bridge_ok br" and "selected_ok policy br originals" and "k \<in> set originals"
    and "add_alternative sj sha256 policy br k = Ok br'"
  shows "bridge_ok br' \<and> selected_ok policy br' originals \<and> br_forward br' = br_forward br \<and>
    br_normalized br' = br_normalized br"
proof -
  define b where "b = \<lparr>bi_normalize = False, bi_structured = Some (po_representation policy),
      bi_original = k, bi_grammar = Some (expected_grammar policy), bi_wrapped = True\<rparr>"
  define al where "al = ToolIdentity None (synthetic_name sj sha256 policy k)"
  have al: "fmpred (\<lambda>t _. tool_name t \<noteq> tool_name al) (br_reverse br)"
    "br_reverse br' = fmupd al b (br_reverse br)" "br_forward br' = br_forward br" "br_normalized br' = br_normalized br"
    using assms(4) by (auto simp: add_alternative_def Let_def b_def al_def split: if_splits)
  have fresh: "fmlookup (br_reverse br) al = None"
  proof (rule ccontr)
    assume "fmlookup (br_reverse br) al \<noteq> None"
    then obtain x where "fmlookup (br_reverse br) al = Some x" by blast
    from fmpredD [OF al(1) this] show False by simp
  qed
  obtain u v where uv: "fmlookup (br_forward br) k = Some u" "fmlookup (br_reverse br) u = Some v"
    "bi_grammar v = Some (expected_grammar policy)" using assms(2,3) by (auto simp: selected_ok_def)
  have "registry_ok (br_forward br) (fmupd al b (br_reverse br))"
    using assms(1) fresh uv by (intro registry_ok_alternative [of _ _ _ _ u v]) (auto simp: b_def)
  moreover have "selected_ok policy br' originals"
    unfolding selected_ok_def
  proof
    fix x assume "x \<in> set originals"
    then obtain u v where "fmlookup (br_forward br) x = Some u" "fmlookup (br_reverse br) u = Some v"
      "bi_grammar v = Some (expected_grammar policy)" using assms(2) by (auto simp: selected_ok_def)
    then show "\<exists>u v. fmlookup (br_forward br') x = Some u \<and> fmlookup (br_reverse br') u = Some v \<and>
        bi_grammar v = Some (expected_grammar policy)"
      using al fresh by (intro exI [of _ u] exI [of _ v]) auto
  qed
  ultimately show ?thesis using al by simp
qed

lemma with_editing_keeps:
  assumes "bridge_ok br" and "with_editing sj sha256 br policy request add = Ok br'"
  shows "bridge_ok br' \<and> br_forward br' = br_forward br \<and> br_normalized br' = br_normalized br"
proof (cases policy)
  case None
  with assms show ?thesis by (simp add: with_editing_def)
next
  case (Some pol)
  define keeps where "keeps os c \<longleftrightarrow> bridge_ok c \<and> selected_ok pol c os \<and> br_forward c = br_forward br \<and>
      br_normalized c = br_normalized br" for os c
  from assms(2) Some obtain os br1 where pol: "policy_validate pol = Ok ()"
    and os: "fold_result (select_original sha256 pol request br) [] (sorted_list_of_fmap (br_forward br)) = Ok os"
    and br1: "(if po_normalization pol = PatchEnvelope then fold_result mark_normalize br os else Ok br) = Ok br1"
    and br': "br' = br1 \<or> fold_result (add_alternative sj sha256 pol) br1 os = Ok br'"
    by (auto simp: with_editing_def split: if_splits)
  have start: "keeps os br"
    using assms(1) selected_originals [OF os] by (simp add: keeps_def)
  have "keeps os br1"
  proof (cases "po_normalization pol = PatchEnvelope")
    case True
    then have fold: "fold_result mark_normalize br os = Ok br1" using br1 by simp
    have "expected_grammar pol = CodexPatchV1"
      using pol True by (auto simp: policy_validate_def expected_grammar_def Let_def split: if_splits)
    then have "keeps os c'" if "x \<in> set os" "keeps os c" "mark_normalize c x = Ok c'" for c x c'
      using mark_normalize_keeps [of c pol os x c'] that unfolding keeps_def by metis
    with fold_result_invariant [OF fold, of "keeps os"] start show ?thesis by blast
  qed (use br1 start in simp)
  have "keeps os br'"
  proof (cases "br' = br1")
    case False
    with br' have fold: "fold_result (add_alternative sj sha256 pol) br1 os = Ok br'" by blast
    have "keeps os c'" if "x \<in> set os" "keeps os c" "add_alternative sj sha256 pol c x = Ok c'" for c x c'
      using add_alternative_keeps [of c pol os x sj sha256 c'] that unfolding keeps_def by metis
    with fold_result_invariant [OF fold, of "keeps os"] \<open>keeps os br1\<close> show ?thesis by blast
  qed (use \<open>keeps os br1\<close> in simp)
  then show ?thesis unfolding keeps_def by metis
qed

lemma for_plan_keeps:
  assumes "for_plan sj sha256 request profile editing add = Ok br"
  shows "bridge_ok br \<and> fmdom' (br_forward br) = td_identity ` set (tool_definitions request) \<and> br_normalized br = {}"
proof -
  obtain br0 wc fl sg cm where build: "build sj sha256 (top_tools request) wc fl sg cm = Ok br0"
    and editing: "with_editing sj sha256 br0 editing request add = Ok br"
    using assms by (auto simp: for_plan_def Let_def)
  note built = build_keeps [OF build]
  from with_editing_keeps [OF _ editing] built show ?thesis
    by (auto simp: tool_definitions_def)
qed

text \<open>C16. The registry of a translation plan is sound: every declared leaf tool has an alias, no two
  tools share one, and every alias, the synthetic editing tools included, leads back to a declared
  tool.\<close>

theorem registry_sound:
  assumes "for_plan sj sha256 request profile editing add = Ok br"
  shows "(\<forall>t \<in> set (tool_definitions request). \<exists>a. alias_of br (td_identity t) = Ok a \<and>
      (\<exists>kind. original_of br a = Ok (td_identity t, kind))) \<and>
    (\<forall>k k' a. alias_of br k = Ok a \<and> alias_of br k' = Ok a \<longrightarrow> k = k') \<and>
    (\<forall>a k kind. original_of br a = Ok (k, kind) \<longrightarrow> k \<in> td_identity ` set (tool_definitions request))"
proof -
  note ok = for_plan_keeps [OF assms]
  then have reg: "bridge_ok br" by simp
  have dom: "fmlookup (br_forward br) k \<noteq> None \<longleftrightarrow> k \<in> td_identity ` set (tool_definitions request)" for k
    using ok by (metis fmdom'_notD fmdom'_notI)
  show ?thesis
  proof (intro conjI ballI allI impI)
    fix t assume "t \<in> set (tool_definitions request)"
    then obtain a where a: "fmlookup (br_forward br) (td_identity t) = Some a"
      using dom [of "td_identity t"] by auto
    with registry_okD1 [OF reg a] show "\<exists>a. alias_of br (td_identity t) = Ok a \<and> (\<exists>kind. original_of br a = Ok (td_identity t, kind))"
      by (auto simp: alias_of_def original_of_def)
  next
    fix k k' a assume "alias_of br k = Ok a \<and> alias_of br k' = Ok a"
    then show "k = k'" using tool_aliases.fwd_inject [OF reg] by (simp add: alias_of_def)
  next
    fix a k kind assume "original_of br a = Ok (k, kind)"
    then obtain b where b: "fmlookup (br_reverse br) a = Some b" "k = bi_original b"
      by (auto simp: original_of_def)
    from registry_okD2 [OF reg b(1)] have "fmlookup (br_forward br) k \<noteq> None"
      using b(2) by (cases "bi_structured b") auto
    then show "k \<in> td_identity ` set (tool_definitions request)" using dom by simp
  qed
qed

section \<open>Lowering and restoring\<close>

lemma binding_of_ok:
  assumes "bridge_ok br" and "binding_of br k = Ok b"
  shows "\<exists>a. fmlookup (br_forward br) k = Some a \<and> fmlookup (br_reverse br) a = Some b \<and> bi_original b = k \<and>
    bi_structured b = None"
  using assms by (auto simp: binding_of_def alias_of_def dest: registry_okD1)

lemma find_member: "find P xs = Some x \<Longrightarrow> x \<in> set xs \<and> P x"
  by (induction xs) (auto split: if_splits)

lemma structured_binding_Some:
  assumes "structured_binding br k = Some (a, b)"
  shows "fmlookup (br_reverse br) a = Some b \<and> bi_original b = k"
  using find_member [OF assms [unfolded structured_binding_def]] by (simp add: sorted_list_of_fmap_member)

lemma normalize_valid:
  assumes "grammar_validate CodexPatchV1 t = Ok ()"
  shows "normalize_patch_envelope t = Ok \<lparr>np_text = t, np_applied_rule = None\<rparr>"
proof -
  obtain m where "length t \<le> MAX_TEXT" "strip_LF t = BEGIN_PATCH @ LF # m @ LF # END_PATCH"
    using assms patch_text_shape by (auto simp: patch_check_iff)
  then show ?thesis by (rule normalize_canonical)
qed

lemma restore_text_valid:
  assumes "grammar_validate g t = Ok ()" and "bi_normalize b \<longrightarrow> g = CodexPatchV1"
  shows "restore_text br b g c t = (Ok (Freeform t), br)"
  using assms normalize_valid [of t] by (auto simp: restore_text_def normalized_input_def)

text \<open>The facts about the JSON library a round trip relies on: the argument envelope and the
  structured edits it printed parse back, and function arguments are a JSON object.\<close>

definition json_trip_ok :: "serde \<Rightarrow> tool_call \<Rightarrow> tool_call \<Rightarrow> bool" where
  "json_trip_ok sj c l \<longleftrightarrow>
     (\<forall>t. tc_input c = Freeform t \<longrightarrow> sj_parse_input sj (sj_value sj (obj [(''input'', JString t)])) = Some t) \<and>
     (\<forall>raw. tc_input c = Json raw \<longrightarrow> (\<exists>m. sj_parse_value sj raw = Some (JObject m))) \<and>
     (\<forall>raw t. tc_input l = Json raw \<and> tc_input c = Freeform t \<longrightarrow> representation_text_ok sj raw)"

lemma structured_form_Some:
  assumes "structured_form sj lower br k patch = Some (a, edit)"
  obtains t b rep where "patch = Some t" "fmlookup (br_reverse br) a = Some b" "bi_original b = k"
    "bi_structured b = Some rep" "representation_decode sj lower rep t = Ok edit"
  using assms structured_binding_Some
  by (auto simp: structured_form_def split: option.splits prod.splits sum.splits)

lemma restore_structured:
  assumes "bridge_ok br" and "original_patch sj br c = Ok patch"
    and "structured_form sj lower br (tc_tool c) patch = Some (a, edit)"
    and "json_trip_ok sj c (moved_call c a (Json edit))"
  shows "\<exists>b. fmlookup (br_reverse br) a = Some b \<and> bi_original b = tc_tool c \<and>
    restore_input sj lower br b (tc_call_id c) (Json edit) = (Ok (tc_input c), br)"
proof -
  obtain p b rep where p: "patch = Some p" and b: "fmlookup (br_reverse br) a = Some b" "bi_original b = tc_tool c"
    and rep: "bi_structured b = Some rep" "representation_decode sj lower rep p = Ok edit"
    using assms(3) by (rule structured_form_Some)
  obtain t where t: "tc_input c = Freeform t"
    using assms(2) p by (auto simp: original_patch_def split: tool_input.splits)
  then obtain b' where b': "binding_of br (tc_tool c) = Ok b'"
    using assms(2) by (auto simp: original_patch_def)
  have "bi_grammar b' = bi_grammar b"
    using registry_okD2 [OF assms(1) b(1)] rep(1) b(2) binding_of_ok [OF assms(1) b'] by auto
  then have carried: "if bi_grammar b = Some CodeModeSourceV1 then helper_program sj p = Ok t else p = t"
    using assms(2) p t b'
    by (auto simp: original_patch_def helper_patch_def split: if_splits sum.splits)
  have "representation_compile sj lower rep edit = Ok p"
    using rep(2) assms(4) t by (intro representation_compile_decode) (auto simp: json_trip_ok_def moved_call_def)
  with rep carried t have "restore_input sj lower br b (tc_call_id c) (Json edit) = (Ok (tc_input c), br)"
    by (auto simp: restore_input_def split: if_splits)
  with b show ?thesis by blast
qed

lemma restore_plain:
  assumes "bridge_ok br" and "binding_of br (tc_tool c) = Ok b" and "lower_input sj b (tc_input c) = Ok input"
    and "json_trip_ok sj c l"
  shows "restore_input sj lower br b call input = (Ok (tc_input c), br)"
proof -
  obtain a where a: "fmlookup (br_reverse br) a = Some b" "bi_structured b = None"
    using binding_of_ok [OF assms(1,2)] by blast
  have norm: "bi_normalize b \<longrightarrow> bi_grammar b = Some CodexPatchV1"
    using registry_okD2 [OF assms(1) a(1)] by blast
  show ?thesis
  proof (cases "tc_input c")
    case (Json raw)
    then have g: "bi_grammar b = None" "input = Json raw"
      using assms(3) by (auto simp: lower_input_def split: option.splits)
    obtain m where "sj_parse_value sj raw = Some (JObject m)"
      using assms(4) Json by (auto simp: json_trip_ok_def)
    with g a Json show ?thesis by (simp add: restore_input_def is_object_iff)
  next
    case (Freeform t)
    with assms(3) obtain g where g: "bi_grammar b = Some g" "grammar_validate g t = Ok ()"
      "input = (if bi_wrapped b then Json (sj_value sj (obj [(''input'', JString t)])) else Freeform t)"
      by (auto simp: lower_input_def split: option.splits)
    have "restore_text br b g call t = (Ok (Freeform t), br)"
      using g norm by (intro restore_text_valid) auto
    with g a Freeform assms(4) show ?thesis
      by (auto simp: restore_input_def json_trip_ok_def)
  qed
qed

lemma restore_lower_call:
  assumes "bridge_ok br" and "lower_call sj lower br c = Ok l" and "json_trip_ok sj c l"
  shows "restore_call sj lower br l = (Ok (c\<lparr>tc_extensions := responses_extensions\<rparr>), br)"
proof -
  obtain patch where patch: "original_patch sj br c = Ok patch"
    using assms(2) by (auto simp: lower_call_def split: if_splits)
  have again: "moved_call (moved_call c x y) (tc_tool c) (tc_input c) = c\<lparr>tc_extensions := responses_extensions\<rparr>" for x y
    by (simp add: moved_call_def)
  have ext: "ext_fields (tc_extensions (moved_call c x y)) = fmempty" for x y
    by (simp add: moved_call_def responses_extensions_def)
  show ?thesis
  proof (cases "structured_form sj lower br (tc_tool c) patch")
    case (Some ae)
    obtain a edit where ae: "ae = (a, edit)" by (cases ae)
    have l: "l = moved_call c a (Json edit)"
      using assms(2) patch Some ae by (auto simp: lower_call_def split: if_splits)
    obtain b where "fmlookup (br_reverse br) a = Some b" "bi_original b = tc_tool c"
      "restore_input sj lower br b (tc_call_id c) (Json edit) = (Ok (tc_input c), br)"
      using restore_structured [OF assms(1) patch, of lower a edit] Some ae assms(3) l by auto
    then show ?thesis
      using again [of a "Json edit"] ext [of a "Json edit"] by (simp add: restore_call_def l) (simp add: moved_call_def)
  next
    case None
    obtain b input a where b: "binding_of br (tc_tool c) = Ok b" "lower_input sj b (tc_input c) = Ok input"
      "alias_of br (tc_tool c) = Ok a" and l: "l = moved_call c a input"
      using assms(2) patch None by (auto simp: lower_call_def split: if_splits)
    have "fmlookup (br_reverse br) a = Some b" "bi_original b = tc_tool c"
      using binding_of_ok [OF assms(1) b(1)] b(3) by (auto simp: alias_of_def)
    moreover have "restore_input sj lower br b (tc_call_id c) input = (Ok (tc_input c), br)"
      using restore_plain [OF assms(1) b(1,2)] assms(3) by blast
    ultimately show ?thesis
      using again [of a input] ext [of a input] by (simp add: restore_call_def l) (simp add: moved_call_def)
  qed
qed

text \<open>C2. Calls survive the bridge: a call that was lowered for the provider is restored to the call
  the client knows, wrapped, namespaced and structured tools included, and restoring it records no
  normalization.\<close>

theorem call_round_trip:
  assumes "for_plan sj sha256 request profile editing add = Ok br"
    and "lower_call sj lower br c = Ok l"
    and "json_trip_ok sj c l"
  shows "restore_call sj lower br l = (Ok (c\<lparr>tc_extensions := responses_extensions\<rparr>), br)"
  using for_plan_keeps [OF assms(1)] assms(2,3) by (intro restore_lower_call) auto

text \<open>C21. Results survive the bridge: a result lowered for the provider is restored to the result the
  client sent, when the text of a Code Mode result parses back.\<close>

theorem result_round_trip:
  assumes "lower_result sj lower br r c = Ok r'"
    and "\<And>t. code_mode_result sj (tr_output r) = Ok t \<Longrightarrow> sj_parse_parts sj t = Some (RESULT_SCHEMA, tr_output r)"
  shows "restore_result sj lower br r' c = Ok r"
proof -
  have parts: "code_mode_result_parts sj t = Ok (tr_output r)" if "code_mode_result sj (tr_output r) = Ok t" for t
  proof -
    have "length t \<le> MAX_TEXT"
      using that by (auto simp: code_mode_result_def Let_def split: if_splits)
    with that assms(2) [OF that] show ?thesis by (simp add: code_mode_result_parts_def)
  qed
  obtain l b where lb: "lower_call sj lower br c = Ok l" "binding_of br (tc_tool c) = Ok b"
    using assms(1) by (auto simp: lower_result_def convert_result_def)
  have kind: "tr_kind r = grammar_kind (bi_grammar b)" "tr_call_id r = tc_call_id c" "ext_fields (tr_extensions r) = fmempty"
    using assms(1) lb by (auto simp: lower_result_def convert_result_def Let_def split: if_splits)
  show ?thesis
    using assms(1) lb kind parts
    by (cases "bi_grammar b = Some CodeModeSourceV1")
      (auto simp: lower_result_def restore_result_def convert_result_def Let_def)
qed

section \<open>A concrete registry\<close>

definition demo_tools_request :: request_ir where
  "demo_tools_request = demo_request
     \<lparr>req_tools := Some
        [ToolDefinition (ToolIdentity None ''note'') None (CustomTool None) responses_extensions,
         ToolDefinition (ToolIdentity None ''arg_custom_0'') None (FunctionTool None None) responses_extensions],
      req_generation := demo_generation\<lparr>go_tool_choice := None\<rparr>\<rparr>"

definition demo_custom_call :: tool_call where
  "demo_custom_call =
     \<lparr>tc_status = None, tc_item_id = None, tc_call_id = CallId ''c1'', tc_tool = ToolIdentity None ''note'',
      tc_input = Freeform ''hello'', tc_extensions = responses_extensions\<rparr>"

definition demo_bridge :: custom_tool_bridge where
  "demo_bridge =
     \<lparr>br_code_mode = False,
      br_forward =
        fmupd (ToolIdentity None ''arg_custom_0'') (ToolIdentity None ''arg_custom_0'')
          (fmupd (ToolIdentity None ''note'') (ToolIdentity None ''arg_custom_1'') fmempty),
      br_reverse =
        fmupd (ToolIdentity None ''arg_custom_0'')
          \<lparr>bi_normalize = False, bi_structured = None, bi_original = ToolIdentity None ''arg_custom_0'',
           bi_grammar = None, bi_wrapped = False\<rparr>
          (fmupd (ToolIdentity None ''arg_custom_1'')
            \<lparr>bi_normalize = False, bi_structured = None, bi_original = ToolIdentity None ''note'',
             bi_grammar = Some GrammarText, bi_wrapped = True\<rparr> fmempty),
      br_definitions =
        [ToolDefinition (ToolIdentity None ''arg_custom_1'') None
           (FunctionTool (Some (envelope_parameters demo_serde (Some GrammarText) None)) None) responses_extensions,
         ToolDefinition (ToolIdentity None ''arg_custom_0'') None (FunctionTool None None) responses_extensions],
      br_normalized = {}\<rparr>"

lemma demo_fresh: "fresh_sequence [''note'', ''arg_custom_0''] ''arg_custom'' 0 = 1"
proof -
  have "candidate ''arg_custom'' 0 = ''arg_custom_0''" "candidate ''arg_custom'' 1 = ''arg_custom_1''"
    by (simp_all add: candidate_def nat_text.simps digit_char_def char_of_eq_iff)
  then show ?thesis by (simp add: fresh_sequence.simps)
qed

lemma demo_candidate: "candidate ''arg_custom'' (Suc 0) = ''arg_custom_1''"
  by (simp add: candidate_def nat_text.simps digit_char_def char_of_eq_iff)

lemma demo_identities:
  "tool_identity_validate (ToolIdentity None ''note'') = Ok ()"
  "tool_identity_validate (ToolIdentity None ''arg_custom_0'') = Ok ()"
  "tool_identity_new None ''arg_custom_1'' = Ok (ToolIdentity None ''arg_custom_1'')"
  by code_simp+

lemma demo_for_plan: "for_plan demo_serde (\<lambda>_. '''') demo_tools_request demo_profile None True = Ok demo_bridge"
proof -
  have "build demo_serde (\<lambda>_. '''') (top_tools demo_tools_request) True True False False = Ok demo_bridge"
    using demo_identities demo_fresh
    by (simp add: build_def collect_leaves_def build_tool_def tool_grammar_def from_format_for_contract_def
        choose_alias_def initial_build_def demo_tools_request_def top_tools_def demo_candidate Let_def
        responses_extensions_def lowered_definition_def custom_format_def demo_bridge_def)
  then show ?thesis
    by (simp add: for_plan_def demo_profile_def is_code_mode_def with_editing_def)
qed


definition demo_lowered :: tool_call where
  "demo_lowered = moved_call demo_custom_call (ToolIdentity None ''arg_custom_1'') (Json (quoted ''hello''))"

lemma demo_lower_call: "lower_call demo_serde (\<lambda>s. s) demo_bridge demo_custom_call = Ok demo_lowered"
proof -
  have none: "structured_binding demo_bridge t = None" for t
    by (auto simp: structured_binding_def find_None_iff sorted_list_of_fmap_member demo_bridge_def split: if_splits)
  have "sj_value demo_serde (obj [(''input'', JString ''hello'')]) = quoted ''hello''"
    by (simp add: demo_serde_def obj_def)
  with none show ?thesis
    by (simp add: lower_call_def original_patch_def structured_form_def binding_of_def alias_of_def lower_input_def
        grammar_validate_def MAX_TEXT_def demo_bridge_def demo_custom_call_def demo_lowered_def responses_extensions_def)
qed

lemma demo_json_trip: "json_trip_ok demo_serde demo_custom_call demo_lowered"
  by (auto simp: json_trip_ok_def demo_custom_call_def demo_lowered_def moved_call_def demo_serde_def obj_def
      quoted_def unquoted_def representation_text_ok_def MAX_TEXT_def QUOTE_def)

theorem registry_sound_witness:
  "\<exists>a kind. alias_of demo_bridge (ToolIdentity None ''note'') = Ok a \<and>
     original_of demo_bridge a = Ok (ToolIdentity None ''note'', kind)"
proof -
  have "ToolDefinition (ToolIdentity None ''note'') None (CustomTool None) responses_extensions
      \<in> set (tool_definitions demo_tools_request)"
    by (simp add: tool_definitions_def top_tools_def demo_tools_request_def)
  with registry_sound [OF demo_for_plan] show ?thesis by fastforce
qed

theorem call_round_trip_witness:
  "restore_call demo_serde (\<lambda>s. s) demo_bridge demo_lowered = (Ok demo_custom_call, demo_bridge)"
  using call_round_trip [OF demo_for_plan demo_lower_call demo_json_trip]
  by (simp add: demo_custom_call_def)

definition demo_custom_result :: tool_result where
  "demo_custom_result =
     \<lparr>tr_item_id = None, tr_call_id = CallId ''c1'', tr_kind = CustomKind, tr_output = JString ''done'',
      tr_extensions = responses_extensions\<rparr>"

theorem result_round_trip_witness:
  "restore_result demo_serde (\<lambda>s. s) demo_bridge (demo_custom_result\<lparr>tr_kind := FunctionKind\<rparr>) demo_custom_call =
     Ok demo_custom_result"
proof (rule result_round_trip)
  have "binding_of demo_bridge (tc_tool demo_custom_call) =
      Ok \<lparr>bi_normalize = False, bi_structured = None, bi_original = ToolIdentity None ''note'',
          bi_grammar = Some GrammarText, bi_wrapped = True\<rparr>"
    by (simp add: binding_of_def alias_of_def demo_bridge_def demo_custom_call_def)
  moreover have "tc_input demo_lowered = Json (quoted ''hello'')" "tc_call_id demo_custom_call = CallId ''c1''"
    by (simp_all add: demo_lowered_def moved_call_def demo_custom_call_def)
  ultimately show "lower_result demo_serde (\<lambda>s. s) demo_bridge demo_custom_result demo_custom_call =
      Ok (demo_custom_result\<lparr>tr_kind := FunctionKind\<rparr>)"
    by (simp add: lower_result_def convert_result_def demo_lower_call grammar_kind_def
        is_freeform_def demo_custom_result_def responses_extensions_def)
  show "\<And>t. code_mode_result demo_serde (tr_output demo_custom_result) = Ok t \<Longrightarrow>
      sj_parse_parts demo_serde t = Some (RESULT_SCHEMA, tr_output demo_custom_result)"
    by (simp add: code_mode_result_def demo_custom_result_def)
qed

end
