(* ===== verification/Reasoning.thy ===== *)
theory Reasoning
  imports Request
begin

text \<open>
  The request-dependent half of \<open>src/src/ir/reasoning.rs\<close>: the wire controls a reasoning
  contract produces for a request, and the check that a provider without a parallel-call
  control may be used. Whether a \<open>top_p\<close> literal denotes a float between 0.95 and 1.0
  (\<open>Number::as_f64\<close>) is the parameter \<open>top_p_ok\<close>.
\<close>

definition forced_choice :: "request_ir \<Rightarrow> bool" where
  "forced_choice r =
     (case go_tool_choice (req_generation r) of
        Some ChoiceRequired \<Rightarrow> True
      | Some (ChoiceNamed _ _ _) \<Rightarrow> True
      | _ \<Rightarrow> False)"

definition validate_parallel_permission :: "request_ir \<Rightarrow> ir_error + unit" where
  "validate_parallel_permission r =
     (if go_parallel_tool_calls (req_generation r) = Some False \<and> tool_definitions r \<noteq> [] \<and>
         go_tool_choice (req_generation r) \<noteq> Some ChoiceNone
      then Err UnsupportedFeature else Ok ())"

definition requested_effort :: "request_ir \<Rightarrow> string option" where
  "requested_effort r = Option.bind (go_reasoning (req_generation r)) ro_effort"

definition wants_schema :: "request_ir \<Rightarrow> bool" where
  "wants_schema r =
     (case Option.bind (go_output (req_generation r)) oo_format of
        Some (FormatJsonSchema _ _ _ _) \<Rightarrow> True | _ \<Rightarrow> False)"

definition strict_tool :: "tool_definition \<Rightarrow> bool" where
  "strict_tool t = (case td_kind t of FunctionTool _ (Some True) \<Rightarrow> True | _ \<Rightarrow> False)"

fun is_claude :: "reasoning_contract \<Rightarrow> bool" where
  "is_claude (ClaudeAdaptive _ _ _ _) = True"
| "is_claude (ClaudeManual _ _ _ _) = True"
| "is_claude _ = False"

fun contract_controls ::
  "(string \<Rightarrow> bool) \<Rightarrow> reasoning_contract \<Rightarrow> request_ir \<Rightarrow> u64 \<Rightarrow> ir_error + json" where
  "contract_controls top_p_ok (DeepSeek _ efforts default_effort) r limit =
     and_then (validate_parallel_permission r) (\<lambda>_.
       if limit > 393216 then Err UnsupportedFeature
       else
         let effort = (case requested_effort r of None \<Rightarrow> default_effort | Some e \<Rightarrow> e) in
         if effort \<notin> efforts \<or> forced_choice r \<or> go_temperature (req_generation r) \<noteq> None \<or>
            (case go_top_p (req_generation r) of None \<Rightarrow> False | Some v \<Rightarrow> \<not> top_p_ok v)
         then Err UnsupportedFeature
         else if wants_schema r \<or> list_ex strict_tool (tool_definitions r) then Err UnsupportedFeature
         else Ok (obj [(''thinking'', obj [(''type'', JString ''enabled'')]),
                       (''reasoning_effort'', JString effort)]))"
| "contract_controls top_p_ok (OpenRouter _ provider_endpoint efforts default_effort max_tokens _) r limit =
     and_then
       (case max_tokens of
          Some budget \<Rightarrow>
            if requested_effort r \<noteq> None \<or> budget \<ge> limit then Err UnsupportedFeature
            else Ok (''max_tokens'', json_u64 budget)
        | None \<Rightarrow>
            and_then (ok_or (case requested_effort r of None \<Rightarrow> default_effort | Some e \<Rightarrow> Some e)
                UnsupportedFeature) (\<lambda>effort.
              if effort \<notin> efforts then Err UnsupportedFeature else Ok (''effort'', JString effort)))
       (\<lambda>control.
         Ok (obj [(''reasoning'', obj [(''enabled'', JBool True), (''exclude'', JBool False), control]),
                  (''provider'', obj [(''only'', JArray [JString provider_endpoint]),
                                      (''allow_fallbacks'', JBool False),
                                      (''require_parameters'', JBool True)])]))"
| "contract_controls top_p_ok (ClaudeAdaptive _ efforts default_effort allow_forced_tools) r limit =
     (let effort = (case requested_effort r of None \<Rightarrow> default_effort | Some e \<Rightarrow> e) in
      if effort \<notin> efforts \<or> (forced_choice r \<and> \<not> allow_forced_tools) then Err UnsupportedFeature
      else Ok (obj [(''thinking'', obj [(''type'', JString ''adaptive''), (''display'', JString ''summarized'')]),
                    (''effort'', JString effort)]))"
| "contract_controls top_p_ok (ClaudeManual _ budget_tokens effort_budgets _) r limit =
     and_then (case requested_effort r of
         Some e \<Rightarrow> ok_or (fmlookup effort_budgets e) UnsupportedFeature
       | None \<Rightarrow> Ok budget_tokens) (\<lambda>budget.
       if budget \<ge> limit \<or> forced_choice r then Err UnsupportedFeature
       else Ok (obj [(''thinking'', obj [(''type'', JString ''enabled''), (''display'', JString ''summarized''),
                                         (''budget_tokens'', json_u64 budget)])]))"

definition controls ::
  "(string \<Rightarrow> bool) \<Rightarrow> reasoning_contract \<Rightarrow> request_ir \<Rightarrow> u64 \<Rightarrow> ir_error + json" where
  "controls top_p_ok c r limit =
     (if (case Option.bind (go_reasoning (req_generation r)) ro_summary of
            None \<Rightarrow> False | Some s \<Rightarrow> s \<noteq> ''auto'')
      then Err UnsupportedFeature
      else if is_claude c \<and> (go_temperature (req_generation r) \<noteq> None \<or> go_top_p (req_generation r) \<noteq> None)
      then Err UnsupportedFeature
      else contract_controls top_p_ok c r limit)"

section \<open>Properties\<close>

text \<open>What a control object says: its effort, and its token budget.\<close>

definition control_effort :: "json \<Rightarrow> string option" where
  "control_effort v =
     (case str_at v ''reasoning_effort'' of
        Some e \<Rightarrow> Some e
      | None \<Rightarrow> (case str_at v ''effort'' of
          Some e \<Rightarrow> Some e
        | None \<Rightarrow> Option.bind (jget v ''reasoning'') (\<lambda>w. str_at w ''effort'')))"

definition control_budget :: "json \<Rightarrow> u64 option" where
  "control_budget v =
     (case Option.bind (jget v ''thinking'') (\<lambda>w. Option.bind (jget w ''budget_tokens'') as_u64) of
        Some n \<Rightarrow> Some n
      | None \<Rightarrow> Option.bind (jget v ''reasoning'') (\<lambda>w. Option.bind (jget w ''max_tokens'') as_u64))"

fun declared_efforts :: "reasoning_contract \<Rightarrow> string set" where
  "declared_efforts (DeepSeek _ efforts _) = efforts"
| "declared_efforts (OpenRouter _ _ efforts _ _ _) = efforts"
| "declared_efforts (ClaudeAdaptive _ efforts _ _) = efforts"
| "declared_efforts (ClaudeManual _ _ budgets _) = fmdom' budgets"

lemma jget_obj [codec_simps]: "jget (obj kvs) k = map_of kvs k"
  by (simp add: obj_def fmlookup_of_list)

lemmas control_reading =
  control_effort_def control_budget_def str_at_def codec_simps

lemma contract_controls_bounds:
  assumes "contract_controls top_p_ok c r limit = Ok v"
  shows "(\<forall>n. control_budget v = Some n \<longrightarrow> n < limit) \<and>
    (\<forall>e. control_effort v = Some e \<longrightarrow> e \<in> declared_efforts c) \<and>
    (\<forall>e. requested_effort r = Some e \<longrightarrow> e \<in> declared_efforts c \<and> control_effort v \<in> {None, Some e})"
  using assms
  by (cases c) (auto simp: control_reading Let_def fmdom'I split: if_splits option.splits)

lemma contract_controls_forced:
  assumes "contract_controls top_p_ok c r limit = Ok v" and "forced_choice r"
  shows "(\<exists>a b d. c = ClaudeAdaptive a b d True) \<or> (\<exists>a b d e f g. c = OpenRouter a b d e f g)"
  using assms by (cases c) (auto simp: Let_def split: if_splits option.splits)

text \<open>Reasoning controls stay within the contract: the token budget sent is below the output
  limit, an effort sent is one the contract declares, an effort the client asked for is either
  sent unchanged or stands for a declared budget, and a forced tool choice is only combined with
  thinking by the contracts that allow it.\<close>

theorem controls_within_contract:
  assumes "controls top_p_ok c r limit = Ok v"
  shows "(\<forall>n. control_budget v = Some n \<longrightarrow> n < limit) \<and>
    (\<forall>e. control_effort v = Some e \<longrightarrow> e \<in> declared_efforts c) \<and>
    (\<forall>e. requested_effort r = Some e \<longrightarrow> e \<in> declared_efforts c \<and> control_effort v \<in> {None, Some e}) \<and>
    (forced_choice r \<longrightarrow> (\<exists>a b d. c = ClaudeAdaptive a b d True) \<or> (\<exists>a b d e f g. c = OpenRouter a b d e f g)) \<and>
    (is_claude c \<longrightarrow> go_temperature (req_generation r) = None \<and> go_top_p (req_generation r) = None)"
proof -
  have core: "contract_controls top_p_ok c r limit = Ok v"
    and claude: "is_claude c \<longrightarrow> go_temperature (req_generation r) = None \<and> go_top_p (req_generation r) = None"
    using assms by (auto simp: controls_def split: if_splits)
  show ?thesis
    using contract_controls_bounds [OF core] contract_controls_forced [OF core] claude by blast
qed

definition demo_thinking_request :: request_ir where
  "demo_thinking_request = demo_request
     \<lparr>req_generation := demo_generation
        \<lparr>go_tool_choice := None,
         go_reasoning := Some \<lparr>ro_effort = Some ''high'', ro_summary = None, ro_extensions = responses_extensions\<rparr>\<rparr>\<rparr>"

theorem controls_within_contract_witness:
  "control_budget (obj [(''thinking'', obj [(''type'', JString ''enabled''), (''display'', JString ''summarized''),
     (''budget_tokens'', json_u64 2048)])]) = Some 2048 \<and> (2048 :: u64) < 4096 \<and>
   ''high'' \<in> declared_efforts (ClaudeManual 1 1024 (fmap_of_list [(''high'', 2048)]) False)"
proof -
  have ok: "controls (\<lambda>_. True) (ClaudeManual 1 1024 (fmap_of_list [(''high'', 2048)]) False)
      demo_thinking_request 4096 =
    Ok (obj [(''thinking'', obj [(''type'', JString ''enabled''), (''display'', JString ''summarized''),
      (''budget_tokens'', json_u64 2048)])])"
    by (simp add: controls_def requested_effort_def forced_choice_def demo_thinking_request_def demo_request_def
        demo_generation_def fmlookup_of_list)
  have "requested_effort demo_thinking_request = Some ''high''"
    by (simp add: requested_effort_def demo_thinking_request_def demo_request_def)
  moreover have budget: "control_budget (obj [(''thinking'', obj [(''type'', JString ''enabled''),
      (''display'', JString ''summarized''), (''budget_tokens'', json_u64 2048)])]) = Some 2048"
    by (simp add: control_reading)
  ultimately show ?thesis
    using controls_within_contract [OF ok] by blast
qed

end
