(* ===== verification/Capability.thy ===== *)
theory Capability
  imports Bridge Reasoning
begin

text \<open>
  The request-dependent half of \<open>src/src/ir/capability.rs\<close>: the features a request requires
  and the plan that decides, before anything is sent, whether a route can carry the request
  natively or through bridges. The JSON functions, the digest and Unicode lower-casing are the
  parameters \<open>sj\<close>, \<open>sha256\<close> and \<open>lower\<close>; whether a string is a JSON document is
  \<open>sj_parse_value sj\<close>.
\<close>

section \<open>Requirements\<close>

definition note_extensions :: "api_protocol \<Rightarrow> extensions \<Rightarrow> feature set \<Rightarrow> ir_error + feature set" where
  "note_extensions source ext fs =
     (if ext_protocol ext \<noteq> source then Err WrongProtocol
      else Ok (if ext_fields ext \<noteq> fmempty then insert Extensions fs else fs))"

definition note_part :: "api_protocol \<Rightarrow> feature set \<Rightarrow> part \<Rightarrow> ir_error + feature set" where
  "note_part source fs p =
     and_then (note_extensions source (part_extensions p) fs) (\<lambda>fs.
       let fs = (if part_annotations p \<notin> {None, Some []} then insert Extensions fs else fs)
       in Ok (case part_kind p of
                PartImage _ _ \<Rightarrow> insert Images fs
              | PartExtension _ \<Rightarrow> insert Extensions fs
              | PartText _ _ \<Rightarrow> fs))"

definition note_parts :: "api_protocol \<Rightarrow> part list \<Rightarrow> feature set \<Rightarrow> ir_error + feature set" where
  "note_parts source parts fs = fold_result (note_part source) fs parts"

fun note_item :: "api_protocol \<Rightarrow> feature set \<Rightarrow> item \<Rightarrow> ir_error + feature set" where
  "note_item source fs (ItemMessage m) =
     and_then (note_extensions source (msg_extensions m) fs) (\<lambda>fs.
       if msg_status m \<notin> {None, Some StatusCompleted} then Err UnsupportedFeature
       else (case msg_content m of ContentParts parts \<Rightarrow> note_parts source parts fs | ContentText _ \<Rightarrow> Ok fs))"
| "note_item source fs (ItemToolCall c) =
     note_extensions source (tc_extensions c)
       ((if namespace (tc_tool c) \<noteq> None then insert NamespacedTools else (\<lambda>s. s))
         (insert (case tc_input c of Json _ \<Rightarrow> FunctionTools | Freeform _ \<Rightarrow> CustomTools) fs))"
| "note_item source fs (ItemToolResult r) =
     note_extensions source (tr_extensions r)
       (if \<not> is_string (tr_output r) then insert StructuredToolOutput fs else fs)"
| "note_item source fs (ItemReasoning r) =
     and_then (case ri_summary r of
         Some parts \<Rightarrow> note_parts source parts
           ((if ri_opaque r \<noteq> None then insert OpaqueContinuation else (\<lambda>s. s)) (insert ReasoningItems fs))
       | None \<Rightarrow> Ok ((if ri_opaque r \<noteq> None then insert OpaqueContinuation else (\<lambda>s. s)) (insert ReasoningItems fs)))
       (\<lambda>fs. note_extensions source (ri_extensions r) fs)"
| "note_item source fs (ItemExtension _ protocol) =
     (if protocol \<noteq> source then Err WrongProtocol else Ok (insert Extensions fs))"

definition note_group :: "api_protocol \<Rightarrow> feature set \<Rightarrow> tool_definition \<Rightarrow> ir_error + feature set" where
  "note_group source fs grp =
     (if is_namespace grp
      then and_then (note_extensions source (td_extensions grp) fs) (\<lambda>fs. Ok (insert NamespacedTools fs))
      else Ok fs)"

definition note_tool :: "api_protocol \<Rightarrow> feature set \<Rightarrow> tool_definition \<Rightarrow> ir_error + feature set" where
  "note_tool source fs tool =
     and_then (note_extensions source (td_extensions tool) fs) (\<lambda>fs.
       let fs = (if namespace (td_identity tool) \<noteq> None then insert NamespacedTools fs else fs)
       in case td_kind tool of
            FunctionTool _ strict \<Rightarrow>
              Ok (if strict = Some True then insert StrictToolArguments (insert FunctionTools fs)
                  else insert FunctionTools fs)
          | CustomTool _ \<Rightarrow>
              Ok (if needs_grammar tool then insert CustomGrammar (insert CustomTools fs)
                  else insert CustomTools fs)
          | NamespaceTool _ \<Rightarrow> Err InvalidToolMapping)"

definition note_options :: "generation_options \<Rightarrow> feature set \<Rightarrow> feature set" where
  "note_options g fs = fs \<union>
     (if go_max_output_tokens g \<noteq> None then {MaxOutputTokens} else {}) \<union>
     (if go_temperature g \<noteq> None then {Temperature} else {}) \<union>
     (if go_top_p g \<noteq> None then {TopP} else {}) \<union>
     (if go_parallel_tool_calls g \<noteq> None then {ParallelToolControl} else {})"

definition note_choice :: "api_protocol \<Rightarrow> tool_choice option \<Rightarrow> feature set \<Rightarrow> ir_error + feature set" where
  "note_choice source choice fs =
     (case choice of
        None \<Rightarrow> Ok fs
      | Some c \<Rightarrow>
          let fs = insert ToolChoiceFeature fs
          in case c of
               ChoiceNamed tool _ ext \<Rightarrow>
                 note_extensions source ext (if namespace tool \<noteq> None then insert NamespacedTools fs else fs)
             | ChoiceExtension _ protocol \<Rightarrow>
                 if protocol \<noteq> source then Err WrongProtocol else Ok (insert Extensions fs)
             | _ \<Rightarrow> Ok fs)"

fun note_format :: "api_protocol \<Rightarrow> output_format \<Rightarrow> feature set \<Rightarrow> ir_error + feature set" where
  "note_format source (FormatText ext) fs = note_extensions source ext fs"
| "note_format source (FormatJsonObject ext) fs = note_extensions source ext (insert StructuredOutput fs)"
| "note_format source (FormatJsonSchema _ _ strict ext) fs =
     note_extensions source ext
       (if strict = Some True then insert StrictStructuredOutput (insert StructuredOutput fs)
        else insert StructuredOutput fs)"
| "note_format source (FormatExtension _ protocol) fs =
     (if protocol \<noteq> source then Err WrongProtocol else Ok (insert Extensions fs))"

definition note_output :: "api_protocol \<Rightarrow> output_options option \<Rightarrow> feature set \<Rightarrow> ir_error + feature set" where
  "note_output source output fs =
     (case output of
        None \<Rightarrow> Ok fs
      | Some out \<Rightarrow>
          and_then (note_extensions source (oo_extensions out) fs) (\<lambda>fs.
            case oo_format out of None \<Rightarrow> Ok fs | Some f \<Rightarrow> note_format source f fs))"

definition note_reasoning ::
  "api_protocol \<Rightarrow> reasoning_options option \<Rightarrow> feature set \<Rightarrow> ir_error + feature set" where
  "note_reasoning source reasoning fs =
     (case reasoning of
        None \<Rightarrow> Ok fs
      | Some r \<Rightarrow>
          note_extensions source (ro_extensions r)
            (fs \<union> (if ro_effort r \<noteq> None then {ReasoningEffort} else {}) \<union>
             (if ro_summary r \<noteq> None then {ReasoningSummary} else {})))"

definition note_instructions :: "request_ir \<Rightarrow> feature set \<Rightarrow> feature set" where
  "note_instructions r fs = fs \<union>
     (if req_instructions r \<noteq> None then {Instructions} else {}) \<union>
     (if list_ex (\<lambda>i. ins_role i \<noteq> ProtocolDefault) (instructions r) then {InstructionHierarchy} else {})"

definition json_document :: "serde \<Rightarrow> string \<Rightarrow> bool" where
  "json_document sj raw \<longleftrightarrow> sj_parse_value sj raw \<noteq> None"

definition requirements :: "serde \<Rightarrow> request_ir \<Rightarrow> ir_error + feature set" where
  "requirements sj r =
     (let source = req_source r; g = req_generation r in
      and_then (request_validate (json_document sj) r) (\<lambda>_.
      and_then (note_extensions source (req_extensions r) {}) (\<lambda>fs.
      and_then (fold_result (note_item source) (note_instructions r fs) (history_items r)) (\<lambda>fs.
      and_then (fold_result (note_group source) fs (top_tools r)) (\<lambda>fs.
      and_then (fold_result (note_tool source) fs (tool_definitions r)) (\<lambda>fs.
      and_then (note_choice source (go_tool_choice g) (note_options g fs)) (\<lambda>fs.
      and_then (note_output source (go_output g) fs) (\<lambda>fs.
      note_reasoning source (go_reasoning g) fs))))))))"

section \<open>The plan\<close>

type_synonym provider_history = "(nat, nat \<times> native_state) fmap"

record translation_plan =
  tp_editing :: "policy option"
  tp_route :: route_snapshot
  tp_required :: "feature set"
  tp_bridges :: "bridge_rule list"
  tp_retains_source_extensions :: bool

definition plan_feature ::
  "request_ir \<Rightarrow> route_snapshot \<Rightarrow> policy option \<Rightarrow> bridge_rule list \<Rightarrow> feature \<Rightarrow> ir_error + bridge_rule list" where
  "plan_feature r route editing bridges f =
     (if f = Extensions then
        (if rs_api route \<noteq> req_source r then Err UnsupportedExtension else Ok bridges)
      else
        case support_of (rs_capabilities route) f of
          Native \<Rightarrow> Ok bridges
        | Unsupported \<Rightarrow> Err UnsupportedFeature
        | Bridged rule \<Rightarrow>
            if rule = CodeModeTextParts then
              (if \<not> is_code_mode editing then Err UnsupportedFeature else Ok (bridges @ [rule]))
            else if rule = ProviderParallelPermission then
              and_then (validate_parallel_permission r) (\<lambda>_. Ok (bridges @ [rule]))
            else if rule \<in> {CustomToolJson, ToolNamespace, CodexPatchGrammar} then
              (if support_of (rs_capabilities route) FunctionTools \<noteq> Native \<or>
                  (rule = CodexPatchGrammar \<and>
                   support_of (rs_capabilities route) CustomTools \<noteq> Bridged CustomToolJson)
               then Err UnsupportedFeature else Ok (bridges @ [rule]))
            else Ok (bridges @ [rule]))"

definition needs_registry :: "bridge_rule list \<Rightarrow> bool" where
  "needs_registry bridges =
     list_ex (\<lambda>rule. rule \<in> {CustomToolJson, ToolNamespace, CodexPatchGrammar, RegisteredGrammarValidation}) bridges"

definition in_history :: "provider_history \<Rightarrow> nat \<Rightarrow> bool" where
  "in_history history index \<longleftrightarrow>
     \<not> fmpred (\<lambda>start (stop, _). \<not> (start \<le> index \<and> index < stop)) history"

fun check_history_call ::
  "serde \<Rightarrow> (string \<Rightarrow> string) \<Rightarrow> custom_tool_bridge \<Rightarrow> provider_history \<Rightarrow> nat \<times> item \<Rightarrow> ir_error + unit" where
  "check_history_call sj lower registry history (index, ItemToolCall call) =
     (if in_history history index then Ok ()
      else and_then (lower_call sj lower registry call) (\<lambda>_. Ok ()))"
| "check_history_call sj lower registry history (index, _) = Ok ()"

fun check_opaque :: "continuity_binding \<Rightarrow> item \<Rightarrow> ir_error + unit" where
  "check_opaque target (ItemReasoning r) =
     (case ri_opaque r of
        Some state \<Rightarrow> and_then (opaque_replay state target (os_format state)) (\<lambda>_. Ok ())
      | None \<Rightarrow> Ok ())"
| "check_opaque target _ = Ok ()"

definition plan_translation_with_editing ::
  "serde \<Rightarrow> (string \<Rightarrow> string) \<Rightarrow> (string \<Rightarrow> string) \<Rightarrow> request_ir \<Rightarrow> continuity_binding \<Rightarrow> provider_history \<Rightarrow>
     policy option \<Rightarrow> ir_error + translation_plan" where
  "plan_translation_with_editing sj sha256 lower r target history editing =
     and_then (continuity_binding_validate target) (\<lambda>_.
     and_then (if is_code_mode editing then validate_code_mode_results sj r else Ok ()) (\<lambda>_.
     and_then (requirements sj r) (\<lambda>required.
     let route = cb_route target in
     if (case (go_max_output_tokens (req_generation r), rs_max_output_tokens route) of
           (Some requested, Some limit) \<Rightarrow> requested > limit | _ \<Rightarrow> False)
     then Err UnsupportedFeature
     else
       and_then (fold_result (plan_feature r route editing) []
           (filter (\<lambda>f. f \<in> required) feature_order)) (\<lambda>bridges.
       and_then (if needs_registry bridges
           then and_then (for_plan sj sha256 r (rs_capabilities route) editing True) (\<lambda>registry.
             each (check_history_call sj lower registry history) (enumerate 0 (history_items r)))
           else Ok ()) (\<lambda>_.
       and_then (each (check_opaque target) (history_items r)) (\<lambda>_.
         Ok \<lparr>tp_editing = editing, tp_route = route, tp_required = required, tp_bridges = bridges,
             tp_retains_source_extensions = (Extensions \<in> required)\<rparr>))))))"

definition plan_translation_with_history ::
  "serde \<Rightarrow> (string \<Rightarrow> string) \<Rightarrow> (string \<Rightarrow> string) \<Rightarrow> request_ir \<Rightarrow> continuity_binding \<Rightarrow> provider_history \<Rightarrow>
     ir_error + translation_plan" where
  "plan_translation_with_history sj sha256 lower r target history =
     plan_translation_with_editing sj sha256 lower r target history None"

definition plan_translation ::
  "serde \<Rightarrow> (string \<Rightarrow> string) \<Rightarrow> (string \<Rightarrow> string) \<Rightarrow> request_ir \<Rightarrow> continuity_binding \<Rightarrow> ir_error + translation_plan" where
  "plan_translation sj sha256 lower r target = plan_translation_with_history sj sha256 lower r target fmempty"

section \<open>What the requirements are\<close>

text \<open>The features each part of a request needs, one by one.\<close>

definition extension_features :: "extensions \<Rightarrow> feature set" where
  "extension_features ext = (if ext_fields ext \<noteq> fmempty then {Extensions} else {})"

definition part_features :: "part \<Rightarrow> feature set" where
  "part_features p = extension_features (part_extensions p) \<union>
     (if part_annotations p \<notin> {None, Some []} then {Extensions} else {}) \<union>
     (case part_kind p of PartImage _ _ \<Rightarrow> {Images} | PartExtension _ \<Rightarrow> {Extensions} | PartText _ _ \<Rightarrow> {})"

fun item_features :: "item \<Rightarrow> feature set" where
  "item_features (ItemMessage m) = extension_features (msg_extensions m) \<union>
     (case msg_content m of ContentParts parts \<Rightarrow> \<Union> (part_features ` set parts) | ContentText _ \<Rightarrow> {})"
| "item_features (ItemToolCall c) = extension_features (tc_extensions c) \<union>
     (case tc_input c of Json _ \<Rightarrow> {FunctionTools} | Freeform _ \<Rightarrow> {CustomTools}) \<union>
     (if namespace (tc_tool c) \<noteq> None then {NamespacedTools} else {})"
| "item_features (ItemToolResult r) = extension_features (tr_extensions r) \<union>
     (if \<not> is_string (tr_output r) then {StructuredToolOutput} else {})"
| "item_features (ItemReasoning r) = extension_features (ri_extensions r) \<union> {ReasoningItems} \<union>
     (if ri_opaque r \<noteq> None then {OpaqueContinuation} else {}) \<union>
     (case ri_summary r of Some parts \<Rightarrow> \<Union> (part_features ` set parts) | None \<Rightarrow> {})"
| "item_features (ItemExtension _ _) = {Extensions}"

definition group_features :: "tool_definition \<Rightarrow> feature set" where
  "group_features t = (if is_namespace t then insert NamespacedTools (extension_features (td_extensions t)) else {})"

definition tool_features :: "tool_definition \<Rightarrow> feature set" where
  "tool_features t = extension_features (td_extensions t) \<union>
     (if namespace (td_identity t) \<noteq> None then {NamespacedTools} else {}) \<union>
     (case td_kind t of
        FunctionTool _ strict \<Rightarrow> insert FunctionTools (if strict = Some True then {StrictToolArguments} else {})
      | CustomTool format \<Rightarrow>
          insert CustomTools (if \<exists>v. format = Some v \<and> str_at v ''type'' \<noteq> Some ''text'' then {CustomGrammar} else {})
      | NamespaceTool _ \<Rightarrow> {})"

definition option_features :: "generation_options \<Rightarrow> feature set" where
  "option_features g = {f.
     (f = MaxOutputTokens \<and> go_max_output_tokens g \<noteq> None) \<or> (f = Temperature \<and> go_temperature g \<noteq> None) \<or>
     (f = TopP \<and> go_top_p g \<noteq> None) \<or> (f = ParallelToolControl \<and> go_parallel_tool_calls g \<noteq> None)}"

text \<open>A system or developer message in the history asks for an instruction hierarchy.\<close>

definition instruction_features :: "request_ir \<Rightarrow> feature set" where
  "instruction_features r = {f.
     (f = Instructions \<and> req_instructions r \<noteq> None) \<or>
     (f = InstructionHierarchy \<and>
        (\<exists>m. ItemMessage m \<in> set (history_items r) \<and> msg_role m \<in> {System, Developer}))}"

lemma note_extensions_Ok:
  "note_extensions source ext fs = Ok fs' \<longleftrightarrow> ext_protocol ext = source \<and> fs' = fs \<union> extension_features ext"
  by (auto simp: note_extensions_def extension_features_def)

lemma note_part_Ok: "note_part source fs p = Ok fs' \<Longrightarrow> fs' = fs \<union> part_features p"
  by (auto simp: note_part_def note_extensions_Ok part_features_def Let_def split: part_kind.splits if_splits)

lemma fold_notes:
  assumes "fold_result note fs xs = Ok fs'" and "\<And>x fs fs'. note fs x = Ok fs' \<Longrightarrow> fs' = fs \<union> features x"
  shows "fs' = fs \<union> \<Union> (features ` set xs)"
  using assms(1)
proof (induction xs arbitrary: fs)
  case (Cons x xs)
  then obtain fs1 where "note fs x = Ok fs1" "fold_result note fs1 xs = Ok fs'" by auto
  with Cons.IH assms(2) show ?case by fastforce
qed simp

lemma note_parts_Ok: "note_parts source parts fs = Ok fs' \<Longrightarrow> fs' = fs \<union> \<Union> (part_features ` set parts)"
  unfolding note_parts_def by (erule fold_notes) (rule note_part_Ok)

lemma note_item_Ok: "note_item source fs i = Ok fs' \<Longrightarrow> fs' = fs \<union> item_features i"
  by (cases i) (auto simp: note_extensions_Ok split: if_splits option.splits content.splits tool_input.splits
      dest!: note_parts_Ok)

lemma note_group_Ok: "note_group source fs t = Ok fs' \<Longrightarrow> fs' = fs \<union> group_features t"
  by (auto simp: note_group_def note_extensions_Ok group_features_def split: if_splits)

lemma note_tool_Ok: "note_tool source fs t = Ok fs' \<Longrightarrow> fs' = fs \<union> tool_features t"
  by (cases "td_kind t") (auto simp: note_tool_def note_extensions_Ok tool_features_def needs_grammar_def Let_def
      split: if_splits option.splits)

lemma note_options_Ok: "note_options g fs = fs \<union> option_features g"
  by (auto simp: note_options_def option_features_def)

lemma message_instruction_role:
  "(\<exists>i \<in> set (message_instruction p). ins_role i \<noteq> ProtocolDefault) \<longleftrightarrow>
     (\<exists>m. snd p = ItemMessage m \<and> msg_role m \<in> {System, Developer})"
  by (cases p rule: message_instruction.cases) (auto split: role.splits)

lemma hierarchy_iff:
  "(\<exists>i \<in> set (instructions r). ins_role i \<noteq> ProtocolDefault) \<longleftrightarrow>
     (\<exists>m. ItemMessage m \<in> set (history_items r) \<and> msg_role m \<in> {System, Developer})"
proof -
  have "(\<exists>i \<in> set (instructions r). ins_role i \<noteq> ProtocolDefault) \<longleftrightarrow>
      (\<exists>p \<in> set (enumerate 0 (history_items r)). \<exists>i \<in> set (message_instruction p). ins_role i \<noteq> ProtocolDefault)"
    by (auto simp: instructions_def split: option.splits)
  also have "\<dots> \<longleftrightarrow> (\<exists>m. ItemMessage m \<in> snd ` set (enumerate 0 (history_items r)) \<and> msg_role m \<in> {System, Developer})"
    unfolding message_instruction_role by (force simp: image_iff)
  also have "snd ` set (enumerate 0 (history_items r)) = set (history_items r)"
    using map_snd_enumerate [of 0 "history_items r"] by (metis list.set_map)
  finally show ?thesis .
qed

lemma note_instructions_Ok: "note_instructions r fs = fs \<union> instruction_features r"
  using hierarchy_iff [of r] by (auto simp: note_instructions_def instruction_features_def list_ex_iff)

definition choice_features :: "tool_choice option \<Rightarrow> feature set" where
  "choice_features choice =
     (case choice of
        None \<Rightarrow> {}
      | Some (ChoiceNamed tool _ ext) \<Rightarrow>
          {ToolChoiceFeature} \<union> (if namespace tool \<noteq> None then {NamespacedTools} else {}) \<union> extension_features ext
      | Some (ChoiceExtension _ _) \<Rightarrow> {ToolChoiceFeature, Extensions}
      | Some _ \<Rightarrow> {ToolChoiceFeature})"

fun format_features :: "output_format \<Rightarrow> feature set" where
  "format_features (FormatText ext) = extension_features ext"
| "format_features (FormatJsonObject ext) = insert StructuredOutput (extension_features ext)"
| "format_features (FormatJsonSchema _ _ strict ext) =
     {StructuredOutput} \<union> (if strict = Some True then {StrictStructuredOutput} else {}) \<union> extension_features ext"
| "format_features (FormatExtension _ _) = {Extensions}"

definition output_features :: "output_options option \<Rightarrow> feature set" where
  "output_features out =
     (case out of
        None \<Rightarrow> {}
      | Some o' \<Rightarrow> extension_features (oo_extensions o') \<union>
          (case oo_format o' of None \<Rightarrow> {} | Some f \<Rightarrow> format_features f))"

definition reasoning_features :: "reasoning_options option \<Rightarrow> feature set" where
  "reasoning_features reasoning =
     (case reasoning of
        None \<Rightarrow> {}
      | Some r \<Rightarrow> (if ro_effort r \<noteq> None then {ReasoningEffort} else {}) \<union>
          (if ro_summary r \<noteq> None then {ReasoningSummary} else {}) \<union> extension_features (ro_extensions r))"

text \<open>The specification: the features of a request are those of its parts.\<close>

definition request_features :: "request_ir \<Rightarrow> feature set" where
  "request_features r =
     extension_features (req_extensions r) \<union> instruction_features r \<union>
     \<Union> (item_features ` set (history_items r)) \<union> \<Union> (group_features ` set (top_tools r)) \<union>
     \<Union> (tool_features ` set (tool_definitions r)) \<union> option_features (req_generation r) \<union>
     choice_features (go_tool_choice (req_generation r)) \<union> output_features (go_output (req_generation r)) \<union>
     reasoning_features (go_reasoning (req_generation r))"

lemma note_choice_Ok: "note_choice source c fs = Ok fs' \<Longrightarrow> fs' = fs \<union> choice_features c"
  by (auto simp: note_choice_def choice_features_def note_extensions_Ok Let_def
      split: option.splits tool_choice.splits if_splits)

lemma note_format_Ok: "note_format source f fs = Ok fs' \<Longrightarrow> fs' = fs \<union> format_features f"
  by (cases f) (auto simp: note_extensions_Ok split: if_splits)

lemma note_output_Ok: "note_output source out fs = Ok fs' \<Longrightarrow> fs' = fs \<union> output_features out"
  by (auto simp: note_output_def output_features_def note_extensions_Ok split: option.splits dest!: note_format_Ok)

lemma note_reasoning_Ok: "note_reasoning source x fs = Ok fs' \<Longrightarrow> fs' = fs \<union> reasoning_features x"
  by (auto simp: note_reasoning_def reasoning_features_def note_extensions_Ok split: option.splits)

lemma requirements_Ok:
  assumes "requirements sj r = Ok fs"
  shows "request_validate (json_document sj) r = Ok () \<and> fs = request_features r"
proof -
  from assms obtain a b c d e f where
    valid: "request_validate (json_document sj) r = Ok ()"
    and steps: "note_extensions (req_source r) (req_extensions r) {} = Ok a"
    "fold_result (note_item (req_source r)) (note_instructions r a) (history_items r) = Ok b"
    "fold_result (note_group (req_source r)) b (top_tools r) = Ok c"
    "fold_result (note_tool (req_source r)) c (tool_definitions r) = Ok d"
    "note_choice (req_source r) (go_tool_choice (req_generation r)) (note_options (req_generation r) d) = Ok e"
    "note_output (req_source r) (go_output (req_generation r)) e = Ok f"
    "note_reasoning (req_source r) (go_reasoning (req_generation r)) f = Ok fs"
    by (auto simp: requirements_def Let_def)
  have "b = note_instructions r a \<union> \<Union> (item_features ` set (history_items r))"
    using steps(2) by (rule fold_notes) (rule note_item_Ok)
  moreover have "c = b \<union> \<Union> (group_features ` set (top_tools r))"
    using steps(3) by (rule fold_notes) (rule note_group_Ok)
  moreover have "d = c \<union> \<Union> (tool_features ` set (tool_definitions r))"
    using steps(4) by (rule fold_notes) (rule note_tool_Ok)
  moreover have "a = extension_features (req_extensions r)"
    using steps(1) by (simp add: note_extensions_Ok)
  ultimately have "fs = request_features r"
    using note_choice_Ok [OF steps(5)] note_output_Ok [OF steps(6)] note_reasoning_Ok [OF steps(7)]
    by (simp add: request_features_def note_options_Ok note_instructions_Ok Un_ac)
  with valid show ?thesis by blast
qed

text \<open>C19. The required capabilities are exactly the features of the parts of the request: nothing a
  request uses is left out, and nothing else is demanded of the route.\<close>

theorem requirements_exact:
  assumes "requirements sj r = Ok fs"
  shows "fs = request_features r"
  using requirements_Ok [OF assms] by simp

section \<open>What a plan guarantees\<close>

definition carried :: "request_ir \<Rightarrow> route_snapshot \<Rightarrow> bridge_rule list \<Rightarrow> feature \<Rightarrow> bool" where
  "carried r route bridges f \<longleftrightarrow>
     (if f = Extensions then rs_api route = req_source r
      else support_of (rs_capabilities route) f = Native \<or>
           (\<exists>rule \<in> set bridges. support_of (rs_capabilities route) f = Bridged rule))"

lemma plan_feature_Ok:
  assumes "plan_feature r route editing bridges f = Ok bridges'"
  shows "carried r route bridges' f \<and> set bridges \<subseteq> set bridges'"
  using assms
  by (auto simp: plan_feature_def carried_def split: if_splits support.splits)

lemma plan_features_Ok:
  "fold_result (plan_feature r route editing) bridges fs = Ok bridges' \<Longrightarrow>
     (\<forall>f \<in> set fs. carried r route bridges' f) \<and> set bridges \<subseteq> set bridges'"
proof (induction fs arbitrary: bridges)
  case (Cons f fs)
  then obtain b where b: "plan_feature r route editing bridges f = Ok b"
    "fold_result (plan_feature r route editing) b fs = Ok bridges'" by auto
  have mono: "carried r route b f \<Longrightarrow> set b \<subseteq> set bridges' \<Longrightarrow> carried r route bridges' f"
    by (auto simp: carried_def split: if_splits)
  from Cons.IH [OF b(2)] plan_feature_Ok [OF b(1)] mono show ?case by auto
qed simp

lemma check_opaque_Ok:
  "check_opaque target (ItemReasoning v) = Ok () \<Longrightarrow> ri_opaque v = Some state \<Longrightarrow> os_binding state = target"
  by (auto simp: opaque_replay_def split: if_splits)

lemma plan_Ok:
  assumes "plan_translation_with_editing sj sha256 lower r target history editing = Ok p"
  obtains required bridges where
    "continuity_binding_validate target = Ok ()" "requirements sj r = Ok required"
    "fold_result (plan_feature r (cb_route target) editing) [] (filter (\<lambda>f. f \<in> required) feature_order) = Ok bridges"
    "needs_registry bridges \<longrightarrow> (\<exists>br. for_plan sj sha256 r (rs_capabilities (cb_route target)) editing True = Ok br \<and>
       each (check_history_call sj lower br history) (enumerate 0 (history_items r)) = Ok ())"
    "each (check_opaque target) (history_items r) = Ok ()"
    "\<And>n limit. go_max_output_tokens (req_generation r) = Some n \<Longrightarrow>
       rs_max_output_tokens (cb_route target) = Some limit \<Longrightarrow> n \<le> limit"
    "p = \<lparr>tp_editing = editing, tp_route = cb_route target, tp_required = required, tp_bridges = bridges,
       tp_retains_source_extensions = (Extensions \<in> required)\<rparr>"
proof -
  obtain required bridges where steps:
    "continuity_binding_validate target = Ok ()" "requirements sj r = Ok required"
    "\<not> (case (go_max_output_tokens (req_generation r), rs_max_output_tokens (cb_route target)) of
       (Some requested, Some limit) \<Rightarrow> requested > limit | _ \<Rightarrow> False)"
    "fold_result (plan_feature r (cb_route target) editing) [] (filter (\<lambda>f. f \<in> required) feature_order) = Ok bridges"
    "(if needs_registry bridges
      then and_then (for_plan sj sha256 r (rs_capabilities (cb_route target)) editing True) (\<lambda>registry.
        each (check_history_call sj lower registry history) (enumerate 0 (history_items r)))
      else Ok ()) = Ok ()"
    "each (check_opaque target) (history_items r) = Ok ()"
    "p = \<lparr>tp_editing = editing, tp_route = cb_route target, tp_required = required, tp_bridges = bridges,
       tp_retains_source_extensions = (Extensions \<in> required)\<rparr>"
    using assms unfolding plan_translation_with_editing_def Let_def and_then_eq_Inr
    by (auto split: if_split_asm)
  show thesis
    using steps by (intro that [of required bridges]) (auto split: if_splits)
qed

text \<open>C3. A plan never drops a requirement: every feature of the request is native to the route or
  carried by a bridge the plan lists, source extensions only travel to the protocol they came from,
  the output limit of the route is respected, and every opaque state in the history was created for
  exactly this target.\<close>

theorem plan_is_faithful:
  assumes "plan_translation_with_editing sj sha256 lower r target history editing = Ok p"
  shows "(\<forall>f \<in> request_features r.
      (f = Extensions \<longrightarrow> rs_api (cb_route target) = req_source r) \<and>
      (f \<noteq> Extensions \<longrightarrow> support_of (rs_capabilities (cb_route target)) f = Native \<or>
         (\<exists>rule \<in> set (tp_bridges p). support_of (rs_capabilities (cb_route target)) f = Bridged rule))) \<and>
    (\<forall>n limit. go_max_output_tokens (req_generation r) = Some n \<and>
       rs_max_output_tokens (cb_route target) = Some limit \<longrightarrow> n \<le> limit) \<and>
    (\<forall>v state. ItemReasoning v \<in> set (history_items r) \<and> ri_opaque v = Some state \<longrightarrow> os_binding state = target)"
proof -
  obtain required bridges where plan: "requirements sj r = Ok required"
    "fold_result (plan_feature r (cb_route target) editing) [] (filter (\<lambda>f. f \<in> required) feature_order) = Ok bridges"
    "each (check_opaque target) (history_items r) = Ok ()"
    "\<And>n limit. go_max_output_tokens (req_generation r) = Some n \<Longrightarrow>
       rs_max_output_tokens (cb_route target) = Some limit \<Longrightarrow> n \<le> limit"
    "tp_bridges p = bridges"
    using assms by (rule plan_Ok) auto
  have "\<forall>f \<in> request_features r. carried r (cb_route target) bridges f"
    using plan_features_Ok [OF plan(2)] requirements_Ok [OF plan(1)] feature_order_complete by auto
  moreover have "os_binding state = target" if "ItemReasoning v \<in> set (history_items r)" "ri_opaque v = Some state" for v state
    using plan(3) that by (auto intro: check_opaque_Ok)
  ultimately show ?thesis
    using plan(4,5) by (auto simp: carried_def split: if_splits)
qed

text \<open>When a plan relies on the tool registry, the registry exists and every tool call of the
  history that is not covered by verified provider state can be lowered through it.\<close>

theorem plan_lowers_history:
  assumes "plan_translation_with_editing sj sha256 lower r target history editing = Ok p"
    and "needs_registry (tp_bridges p)"
    and "index < length (history_items r)"
    and "history_items r ! index = ItemToolCall call"
    and "\<not> in_history history index"
  shows "\<exists>br l. for_plan sj sha256 r (rs_capabilities (cb_route target)) editing True = Ok br \<and>
    lower_call sj lower br call = Ok l"
proof -
  obtain required bridges br where br: "for_plan sj sha256 r (rs_capabilities (cb_route target)) editing True = Ok br"
    "each (check_history_call sj lower br history) (enumerate 0 (history_items r)) = Ok ()"
    using assms(1,2) by (elim plan_Ok) auto
  have "(index, ItemToolCall call) \<in> set (enumerate 0 (history_items r))"
    using assms(3,4) by (simp add: in_set_enumerate_eq)
  with br(2) have "check_history_call sj lower br history (index, ItemToolCall call) = Ok ()"
    unfolding each_eq_Inr by blast
  with br(1) assms(5) show ?thesis by auto
qed

section \<open>A concrete plan\<close>

definition demo_plan_request :: request_ir where
  "demo_plan_request =
     \<lparr>req_version = 1, req_source = Responses, req_model = ''m'', req_instructions = None,
      req_input = Some (ItemsInput [ItemToolCall demo_custom_call]),
      req_tools = req_tools demo_tools_request,
      req_generation =
        \<lparr>go_stream = None, go_max_output_tokens = None, go_temperature = None, go_top_p = None,
         go_parallel_tool_calls = None, go_tool_choice = None, go_output = None, go_reasoning = None\<rparr>,
      req_extensions = responses_extensions\<rparr>"

lemma demo_requirements: "requirements demo_serde demo_plan_request = Ok {CustomTools, FunctionTools}"
proof -
  have valid: "request_validate (json_document demo_serde) demo_plan_request = Ok ()"
    by code_simp
  show ?thesis
    by (simp add: requirements_def valid Let_def) (auto simp: demo_plan_request_def demo_tools_request_def demo_custom_call_def
        note_extensions_def responses_extensions_def note_instructions_def history_items_def instructions_def
        tool_definitions_def top_tools_def note_group_def is_namespace_def note_tool_def needs_grammar_def
        note_options_def note_choice_def note_output_def note_reasoning_def)
qed

lemma demo_plan_for_plan: "for_plan demo_serde (\<lambda>_. '''') demo_plan_request demo_profile None True = Ok demo_bridge"
proof -
  have "top_tools demo_plan_request = top_tools demo_tools_request"
    by (simp add: demo_plan_request_def demo_tools_request_def top_tools_def)
  then show ?thesis
    using demo_for_plan by (simp add: for_plan_def with_editing_def)
qed

definition demo_plan :: translation_plan where
  "demo_plan = \<lparr>tp_editing = None, tp_route = demo_route, tp_required = {CustomTools, FunctionTools},
     tp_bridges = [CustomToolJson], tp_retains_source_extensions = False\<rparr>"

lemma demo_plan_Ok:
  "plan_translation_with_editing demo_serde (\<lambda>_. '''') (\<lambda>s. s) demo_plan_request demo_binding fmempty None = Ok demo_plan"
proof -
  have support: "support_of demo_profile FunctionTools = Native" "support_of demo_profile CustomTools = Bridged CustomToolJson"
    by code_simp+
  have items: "history_items demo_plan_request = [ItemToolCall demo_custom_call]"
    by (simp add: history_items_def demo_plan_request_def)
  have route: "cb_route demo_binding = demo_route" "rs_capabilities demo_route = demo_profile"
    by (simp_all add: demo_binding_def demo_route_def)
  have limit: "go_max_output_tokens (req_generation demo_plan_request) = None"
    by (simp add: demo_plan_request_def)
  have bridges: "fold_result (plan_feature demo_plan_request demo_route None) []
      (filter (\<lambda>f. f \<in> {CustomTools, FunctionTools}) feature_order) = Ok [CustomToolJson]"
    by (simp add: feature_order_def plan_feature_def support route)
  have lowered: "each (check_history_call demo_serde (\<lambda>s. s) demo_bridge fmempty)
      (enumerate 0 (history_items demo_plan_request)) = Ok ()"
    by (simp add: items demo_lower_call in_history_def)
  have opaque: "each (check_opaque demo_binding) (history_items demo_plan_request) = Ok ()"
    by (simp add: items)
  show ?thesis
    unfolding plan_translation_with_editing_def
    by (simp only: demo_binding_valid demo_requirements is_code_mode_def and_then_simps route limit bridges lowered opaque
        demo_plan_for_plan Let_def option.case prod.case if_False)
      (simp add: needs_registry_def demo_plan_def demo_plan_for_plan lowered)
qed

theorem requirements_exact_witness: "request_features demo_plan_request = {CustomTools, FunctionTools}"
  using requirements_exact [OF demo_requirements] by simp

theorem plan_is_faithful_witness:
  "\<exists>rule \<in> set (tp_bridges demo_plan). support_of demo_profile CustomTools = Bridged rule"
proof -
  have "CustomTools \<in> request_features demo_plan_request"
    using requirements_Ok [OF demo_requirements] by auto
  moreover have "rs_capabilities (cb_route demo_binding) = demo_profile"
    by (simp add: demo_binding_def demo_route_def)
  moreover have "support_of demo_profile CustomTools \<noteq> Native" by code_simp
  ultimately show ?thesis
    using plan_is_faithful [OF demo_plan_Ok] by auto
qed

theorem plan_lowers_history_witness:
  "\<exists>br l. for_plan demo_serde (\<lambda>_. '''') demo_plan_request demo_profile None True = Ok br \<and>
     lower_call demo_serde (\<lambda>s. s) br demo_custom_call = Ok l"
proof -
  have "needs_registry (tp_bridges demo_plan)" "\<not> in_history fmempty 0"
    "0 < length (history_items demo_plan_request)" "history_items demo_plan_request ! 0 = ItemToolCall demo_custom_call"
    by (simp_all add: demo_plan_def needs_registry_def in_history_def history_items_def demo_plan_request_def)
  from plan_lowers_history [OF demo_plan_Ok this(1,3,4,2)] show ?thesis
    by (simp add: demo_binding_def demo_route_def)
qed

end
