(* ===== verification/Sse.thy ===== *)
theory Sse
  imports Ir_Base
begin

text \<open>
  The bounded server-sent-event framer of \<open>src/src/adapters/sse.rs\<close>: \<open>SseDecoder\<close> with its
  byte loop \<open>next_event\<close>, the line handler \<open>end_line\<close> and \<open>finish\<close>. \<open>drain\<close> is the loop the
  proxy runs over a chunk (\<open>src/src/proxy.rs\<close>), \<open>feed_chunks\<close> the same over a sequence of
  chunks, and \<open>sse_encode\<close> the frame the proxy writes.
\<close>

section \<open>UTF-8\<close>

text \<open>\<open>std::str::from_utf8\<close> succeeds exactly on the byte sequences of the Unicode table of
  well-formed UTF-8.\<close>

definition in_range :: "nat \<Rightarrow> nat \<Rightarrow> char \<Rightarrow> bool" where
  "in_range lo hi c \<longleftrightarrow> lo \<le> byte c \<and> byte c \<le> hi"

fun utf8_valid :: "string \<Rightarrow> bool" where
  "utf8_valid [] = True"
| "utf8_valid (a # s) =
     (if byte a < 128 then utf8_valid s
      else case s of
        [] \<Rightarrow> False
      | b # s2 \<Rightarrow>
          if in_range 194 223 a then in_range 128 191 b \<and> utf8_valid s2
          else case s2 of
            [] \<Rightarrow> False
          | c # s3 \<Rightarrow>
              if in_range 224 239 a
              then in_range (if byte a = 224 then 160 else 128) (if byte a = 237 then 159 else 191) b \<and>
                   in_range 128 191 c \<and> utf8_valid s3
              else case s3 of
                [] \<Rightarrow> False
              | d # s4 \<Rightarrow>
                  in_range 240 244 a \<and>
                  in_range (if byte a = 240 then 144 else 128) (if byte a = 244 then 143 else 191) b \<and>
                  in_range 128 191 c \<and> in_range 128 191 d \<and> utf8_valid s4)"

section \<open>The decoder\<close>

record sse_event =
  se_event :: string
  se_data :: string

record sse_decoder =
  sse_line :: string
  sse_data :: string
  sse_event_name :: string
  sse_has_data :: bool
  sse_first_line :: bool
  sse_after_cr :: bool
  sse_limit :: nat

definition sse_new :: "nat \<Rightarrow> ir_error + sse_decoder" where
  "sse_new limit =
     (if limit = 0 then Err SizeLimit
      else Ok \<lparr>sse_line = [], sse_data = [], sse_event_name = [], sse_has_data = False,
               sse_first_line = True, sse_after_cr = False, sse_limit = limit\<rparr>)"

definition BOM :: string where "BOM = [CHR 0xEF, CHR 0xBB, CHR 0xBF]"

text \<open>The field and value of a line that is neither empty nor a comment.\<close>

definition sse_field :: "string \<Rightarrow> string \<times> string" where
  "sse_field line =
     (let (field, value) = (case split_once '':'' line of Some fv \<Rightarrow> fv | None \<Rightarrow> (line, []))
      in (field, case strip_prefix '' '' value of Some v \<Rightarrow> v | None \<Rightarrow> value))"

definition end_line :: "sse_decoder \<Rightarrow> (ir_error + sse_event option) \<times> sse_decoder" where
  "end_line d0 =
     (let taken = sse_line d0;
          line = (if sse_first_line d0 \<and> starts_with BOM taken then drop 3 taken else taken);
          d = d0\<lparr>sse_line := [], sse_first_line := False\<rparr>
      in if \<not> utf8_valid line then (Err (InvalidField ''sse_utf8''), d)
         else if line = [] then
           (if \<not> sse_has_data d then (Ok None, d\<lparr>sse_event_name := []\<rparr>)
            else (Ok (Some \<lparr>se_event = (if sse_event_name d = [] then ''message'' else sse_event_name d),
                            se_data = butlast (sse_data d)\<rparr>),
                  d\<lparr>sse_has_data := False, sse_event_name := [], sse_data := []\<rparr>))
         else if starts_with '':'' line then (Ok None, d)
         else let (field, value) = sse_field line
           in if field = ''event'' then (Ok None, d\<lparr>sse_event_name := value\<rparr>)
              else if field = ''data'' then
                (if length (sse_data d) + length value + 1 + length (sse_event_name d) > sse_limit d
                 then (Err SizeLimit, d)
                 else (Ok None, d\<lparr>sse_data := sse_data d @ value @ [LF], sse_has_data := True\<rparr>))
              else (Ok None, d))"

fun next_event ::
  "sse_decoder \<Rightarrow> string \<Rightarrow> (ir_error + sse_event option) \<times> sse_decoder \<times> string" where
  "next_event d [] = (Ok None, d, [])"
| "next_event d (b # rest) =
     (if sse_after_cr d \<and> b = LF then next_event (d\<lparr>sse_after_cr := False\<rparr>) rest
      else if b = LF \<or> b = CR then
        (case end_line (d\<lparr>sse_after_cr := (b = CR)\<rparr>) of
           (Inl e, d') \<Rightarrow> (Err e, d', rest)
         | (Inr (Some ev), d') \<Rightarrow> (Ok (Some ev), d', rest)
         | (Inr None, d') \<Rightarrow> next_event d' rest)
      else if length (sse_line d) + length (sse_data d) + length (sse_event_name d) \<ge> sse_limit d
      then (Err SizeLimit, d\<lparr>sse_after_cr := False\<rparr>, rest)
      else next_event (d\<lparr>sse_after_cr := False, sse_line := sse_line d @ [b]\<rparr>) rest)"

definition sse_finish :: "sse_decoder \<Rightarrow> ir_error + unit" where
  "sse_finish d =
     (if sse_has_data d \<or> sse_line d \<noteq> [] \<or> sse_event_name d \<noteq> [] then Err InvalidEventOrder
      else Ok ())"

section \<open>The caller's loop\<close>

lemma next_event_consumes:
  "next_event d input = (Ok (Some ev), d', rest) \<Longrightarrow> length rest < length input"
proof (induction d input rule: next_event.induct)
  case (2 d b rest')
  then show ?case
    by (auto split: if_splits prod.splits sum.splits option.splits intro: less_SucI)
qed simp

function drain :: "sse_decoder \<Rightarrow> string \<Rightarrow> sse_event list \<times> ir_error option \<times> sse_decoder" where
  "drain d input =
     (case next_event d input of
        (Inl e, d', rest) \<Rightarrow> ([], Some e, d')
      | (Inr None, d', rest) \<Rightarrow> ([], None, d')
      | (Inr (Some ev), d', rest) \<Rightarrow> (let (evs, err, d'') = drain d' rest in (ev # evs, err, d'')))"
  by pat_completeness auto
termination
  by (relation "measure (\<lambda>(d, input). length input)") (auto dest!: next_event_consumes [OF sym])

declare drain.simps [simp del]

fun feed_chunks :: "sse_decoder \<Rightarrow> string list \<Rightarrow> sse_event list \<times> ir_error option \<times> sse_decoder" where
  "feed_chunks d [] = ([], None, d)"
| "feed_chunks d (c # cs) =
     (case drain d c of
        (evs, Some e, d') \<Rightarrow> (evs, Some e, d')
      | (evs, None, d') \<Rightarrow> (let (evs', err, d'') = feed_chunks d' cs in (evs @ evs', err, d'')))"

definition sse_encode :: "sse_event \<Rightarrow> string" where
  "sse_encode ev = ''event: '' @ se_event ev @ [LF] @ ''data: '' @ se_data ev @ [LF, LF]"

section \<open>Chunk boundaries\<close>

text \<open>A call on a concatenation either stops within the first part or continues into the second.\<close>

lemma next_event_append:
  "next_event d (xs @ ys) =
     (case next_event d xs of
        (Inr None, d', rest) \<Rightarrow> next_event d' ys
      | (Inr (Some ev), d', rest) \<Rightarrow> (Ok (Some ev), d', rest @ ys)
      | (Inl e, d', rest) \<Rightarrow> (Err e, d', rest @ ys))"
proof (induction d xs rule: next_event.induct)
  case (2 d b rest)
  show ?case
  proof (cases "b = LF \<or> b = CR")
    case True
    with 2 show ?thesis
      by (auto simp del: utf8_valid.simps split: prod.split sum.split option.split)
  next
    case False
    with 2 show ?thesis by simp
  qed
qed simp

lemma drain_append:
  "drain d (xs @ ys) =
     (case drain d xs of
        (evs, Some e, d') \<Rightarrow> (evs, Some e, d')
      | (evs, None, d') \<Rightarrow> (let (evs', err, d'') = drain d' ys in (evs @ evs', err, d'')))"
proof (induction d xs rule: drain.induct)
  case (1 d xs)
  obtain r d' rest where n: "next_event d xs = (r, d', rest)"
    by (cases "next_event d xs") auto
  show ?case
  proof (cases r)
    case (Inl e)
    then show ?thesis
      using n by (simp add: drain.simps [of d "xs @ ys"] drain.simps [of d xs] next_event_append)
  next
    case (Inr res)
    show ?thesis
    proof (cases res)
      case None
      then have "drain d (xs @ ys) = drain d' ys"
        using n Inr by (simp add: drain.simps [of d "xs @ ys"] drain.simps [of d' ys] next_event_append)
      then show ?thesis
        using n Inr None by (simp add: drain.simps [of d xs])
    next
      case (Some ev)
      then show ?thesis
        using n Inr 1 [OF n [symmetric] Inr Some refl]
        by (simp add: drain.simps [of d "xs @ ys"] drain.simps [of d xs] next_event_append
            split: prod.split option.split)
    qed
  qed
qed

lemma framing_chunk_eq: "feed_chunks d chunks = drain d (concat chunks)"
proof (induction chunks arbitrary: d)
  case Nil
  then show ?case by (simp add: drain.simps)
next
  case (Cons c cs)
  then show ?case by (simp add: drain_append split: prod.split option.split)
qed

text \<open>C14. Framing does not depend on how the bytes arrive: feeding a stream in any chunks gives
  the events, the error and the final decoder state of feeding it at once.\<close>

theorem framing_chunk_independent: "feed_chunks d chunks = feed_chunks d [concat chunks]"
  by (simp only: framing_chunk_eq concat.simps append_Nil2)

section \<open>Memory bound\<close>

definition sse_bounded :: "sse_decoder \<Rightarrow> bool" where
  "sse_bounded d \<longleftrightarrow>
     length (sse_line d) + length (sse_data d) + length (sse_event_name d) \<le> sse_limit d"

definition event_bounded :: "nat \<Rightarrow> sse_event \<Rightarrow> bool" where
  "event_bounded n ev \<longleftrightarrow> length (se_data ev) \<le> n \<and> length (se_event ev) \<le> max 7 n"

fun result_bounded :: "nat \<Rightarrow> ir_error + sse_event option \<Rightarrow> bool" where
  "result_bounded n (Inr (Some ev)) = event_bounded n ev"
| "result_bounded n _ = True"

lemma split_once_length: "split_once p s = Some (a, b) \<Longrightarrow> length a + length b \<le> length s"
  by (induction p s arbitrary: a b rule: split_once.induct)
    (auto split: option.splits dest: arg_cong [of _ _ length])

lemma sse_field_length: "sse_field line = (f, v) \<Longrightarrow> length v \<le> length line"
  by (auto simp: sse_field_def Let_def split: option.splits dest!: split_once_length
      dest: arg_cong [of _ _ length])

lemma end_line_bounded:
  assumes "sse_bounded d" and "end_line d = (r, d')"
  shows "sse_bounded d' \<and> sse_limit d' = sse_limit d \<and>
    result_bounded (sse_limit d) r"
proof -
  let ?line = "if sse_first_line d \<and> starts_with BOM (sse_line d) then drop 3 (sse_line d) else sse_line d"
  have len: "length ?line \<le> length (sse_line d)" by simp
  obtain f v where fv: "sse_field ?line = (f, v)" by (cases "sse_field ?line")
  have "length v \<le> length (sse_line d)"
    using sse_field_length [OF fv] len by simp
  with assms fv show ?thesis
    by (auto simp: end_line_def sse_bounded_def event_bounded_def Let_def simp del: utf8_valid.simps
        split: if_splits)
qed

lemma next_event_bounded:
  "sse_bounded d \<Longrightarrow> next_event d input = (r, d', rest) \<Longrightarrow>
     sse_bounded d' \<and> sse_limit d' = sse_limit d \<and>
     result_bounded (sse_limit d) r"
proof (induction d input arbitrary: r d' rest rule: next_event.induct)
  case (2 d b input)
  have cr: "sse_bounded (d\<lparr>sse_after_cr := x\<rparr>)" for x
    using "2.prems"(1) by (simp add: sse_bounded_def)
  show ?case
  proof (cases "(b = LF \<or> b = CR) \<and> \<not> (sse_after_cr d \<and> b = LF)")
    case True
    obtain q d1 where e: "end_line (d\<lparr>sse_after_cr := (b = CR)\<rparr>) = (q, d1)"
      by (cases "end_line (d\<lparr>sse_after_cr := (b = CR)\<rparr>)")
    note bd = end_line_bounded [OF cr e]
    have n: "next_event d (b # input) =
      (case q of Inl e \<Rightarrow> (Err e, d1, input) | Inr (Some ev) \<Rightarrow> (Ok (Some ev), d1, input)
       | Inr None \<Rightarrow> next_event d1 input)"
      using True e by (auto split: sum.split option.split)
    show ?thesis
    proof (cases "q = Inr None")
      case None: True
      with n "2.prems"(2) have "next_event d1 input = (r, d', rest)" by simp
      with "2.IH"(2) [OF _ _ e [symmetric] None refl, of r d' rest] True bd show ?thesis
        by auto
    next
      case False
      with n "2.prems"(2) bd show ?thesis
        by (auto split: sum.splits option.splits)
    qed
  next
    case False
    then consider "sse_after_cr d" "b = LF" | "b \<noteq> LF" "b \<noteq> CR" by blast
    then show ?thesis
    proof cases
      case 1
      then have "next_event (d\<lparr>sse_after_cr := False\<rparr>) input = (r, d', rest)"
        using "2.prems"(2) by simp
      with "2.IH"(1) [OF _ cr] 1 show ?thesis by simp
    next
      case push: 2
      let ?d = "d\<lparr>sse_after_cr := False, sse_line := sse_line d @ [b]\<rparr>"
      show ?thesis
      proof (cases "length (sse_line d) + length (sse_data d) + length (sse_event_name d) \<ge> sse_limit d")
        case True
        with push "2.prems"(2) cr show ?thesis by auto
      next
        case room: False
        then have "next_event ?d input = (r, d', rest)" and "sse_bounded ?d"
          using push "2.prems"(2) by (simp_all add: sse_bounded_def)
        with "2.IH"(3) push room show ?thesis by simp
      qed
    qed
  qed
qed auto

lemma drain_bounded:
  "sse_bounded d \<Longrightarrow> drain d input = (evs, err, d') \<Longrightarrow>
     sse_bounded d' \<and> sse_limit d' = sse_limit d \<and> (\<forall>ev \<in> set evs. event_bounded (sse_limit d) ev)"
proof (induction d input arbitrary: evs err d' rule: drain.induct)
  case (1 d input)
  obtain r d1 rest where n: "next_event d input = (r, d1, rest)"
    by (cases "next_event d input") auto
  note bd = next_event_bounded [OF "1.prems"(1) n]
  show ?case
  proof (cases "\<exists>ev. r = Ok (Some ev)")
    case True
    then obtain ev where r: "r = Ok (Some ev)" by blast
    obtain evs' err' d2 where dr: "drain d1 rest = (evs', err', d2)"
      by (cases "drain d1 rest") auto
    have res: "evs = ev # evs'" "d' = d2"
      using "1.prems"(2) n r dr by (simp_all add: drain.simps [of d input])
    have b1: "sse_bounded d1" "sse_limit d1 = sse_limit d" "event_bounded (sse_limit d) ev"
      using bd r by simp_all
    from "1.IH" [OF n [symmetric] r refl refl b1(1) dr] res b1 show ?thesis
      by simp
  next
    case False
    with "1.prems" n bd show ?thesis
      by (cases r) (auto simp: drain.simps [of d input] split: option.splits)
  qed
qed

definition sse_step ::
  "sse_decoder \<Rightarrow> string \<Rightarrow> (sse_event list \<times> ir_error option) \<times> sse_decoder" where
  "sse_step d chunk = (let (evs, err, d') = drain d chunk in ((evs, err), d'))"

interpretation sse_machine: machine sse_step sse_bounded
  by unfold_locales (auto simp: sse_step_def split_beta Let_def prod_eq_iff dest: drain_bounded)

text \<open>The framer's memory is bounded whatever arrives: the bytes it holds never exceed the
  configured limit, and neither does the data of any event it delivers.\<close>

theorem framing_bounded:
  assumes "sse_new limit = Ok d" and "feed_chunks d chunks = (evs, err, d')"
  shows "length (sse_line d') + length (sse_data d') + length (sse_event_name d') \<le> limit \<and>
    (\<forall>ev \<in> set evs. length (se_data ev) \<le> limit)"
proof -
  have d: "sse_bounded d" "sse_limit d = limit"
    using assms(1) by (auto simp: sse_new_def sse_bounded_def split: if_splits)
  have "drain d (concat chunks) = (evs, err, d')"
    using assms(2) by (simp add: framing_chunk_eq)
  from drain_bounded [OF d(1) this] d(2) show ?thesis
    by (auto simp: sse_bounded_def event_bounded_def)
qed

section \<open>Reading back the frames the gateway writes\<close>

definition idle :: "sse_decoder \<Rightarrow> bool" where
  "idle d \<longleftrightarrow> sse_line d = [] \<and> sse_data d = [] \<and> sse_event_name d = [] \<and> \<not> sse_has_data d \<and> \<not> sse_after_cr d"

definition one_line :: "string \<Rightarrow> bool" where
  "one_line s \<longleftrightarrow> utf8_valid s \<and> LF \<notin> set s \<and> CR \<notin> set s"

definition frame_ok :: "nat \<Rightarrow> sse_event \<Rightarrow> bool" where
  "frame_ok limit ev \<longleftrightarrow>
     se_event ev \<noteq> [] \<and> one_line (se_event ev) \<and> one_line (se_data ev) \<and>
     length (se_event ev) + length (se_data ev) + 7 \<le> limit"

lemma after_cr_reset [simp]: "\<not> sse_after_cr d \<Longrightarrow> d\<lparr>sse_after_cr := False\<rparr> = d"
  by (cases d) simp

lemma next_event_run:
  "LF \<notin> set xs \<Longrightarrow> CR \<notin> set xs \<Longrightarrow> \<not> sse_after_cr d \<Longrightarrow>
   length (sse_line d) + length xs + length (sse_data d) + length (sse_event_name d) \<le> sse_limit d \<Longrightarrow>
   next_event d (xs @ ys) = next_event (d\<lparr>sse_line := sse_line d @ xs\<rparr>) ys"
proof (induction xs arbitrary: d)
  case (Cons x xs)
  then have "x \<noteq> LF" "x \<noteq> CR" "d\<lparr>sse_after_cr := False\<rparr> = d" by auto
  with Cons.prems have "next_event d ((x # xs) @ ys) = next_event (d\<lparr>sse_line := sse_line d @ [x]\<rparr>) (xs @ ys)"
    by simp
  also have "\<dots> = next_event (d\<lparr>sse_line := sse_line d @ x # xs\<rparr>) ys"
    using Cons.IH [of "d\<lparr>sse_line := sse_line d @ [x]\<rparr>"] Cons.prems by simp
  finally show ?case .
qed simp

lemma sse_field_event: "sse_field (''event: '' @ k) = (''event'', k)"
  by (simp add: sse_field_def Let_def)

lemma sse_field_data: "sse_field (''data: '' @ x) = (''data'', x)"
  by (simp add: sse_field_def Let_def)

lemma end_line_event:
  assumes "sse_line d = ''event: '' @ k" and "one_line k"
  shows "end_line d = (Ok None, d\<lparr>sse_line := [], sse_first_line := False, sse_event_name := k\<rparr>)"
proof -
  have "utf8_valid (''event: '' @ k)" "\<not> starts_with BOM (''event: '' @ k)"
    "\<not> starts_with '':'' (''event: '' @ k)"
    using assms(2) by (simp_all add: one_line_def starts_with_iff BOM_def)
  then show ?thesis
    using assms(1) by (simp add: end_line_def Let_def sse_field_event [simplified] del: utf8_valid.simps)
qed

lemma end_line_data:
  assumes "sse_line d = ''data: '' @ x" and "one_line x"
    and "length (sse_data d) + length x + 1 + length (sse_event_name d) \<le> sse_limit d"
  shows "end_line d = (Ok None, d\<lparr>sse_line := [], sse_first_line := False,
    sse_data := sse_data d @ x @ [LF], sse_has_data := True\<rparr>)"
proof -
  have "utf8_valid (''data: '' @ x)" "\<not> starts_with BOM (''data: '' @ x)"
    "\<not> starts_with '':'' (''data: '' @ x)"
    using assms(2) by (simp_all add: one_line_def starts_with_iff BOM_def)
  then show ?thesis
    using assms(1,3) by (simp add: end_line_def Let_def sse_field_data [simplified] del: utf8_valid.simps)
qed

lemma end_line_blank:
  assumes "sse_line d = []" and "sse_has_data d" and "sse_event_name d \<noteq> []"
  shows "end_line d = (Ok (Some \<lparr>se_event = sse_event_name d, se_data = butlast (sse_data d)\<rparr>),
    d\<lparr>sse_line := [], sse_first_line := False, sse_has_data := False, sse_event_name := [], sse_data := []\<rparr>)"
  using assms by (simp add: end_line_def Let_def BOM_def starts_with_def)

lemma next_event_LF:
  "\<not> sse_after_cr d \<Longrightarrow> next_event d (LF # rest) =
     (case end_line d of
        (Inl e, d') \<Rightarrow> (Err e, d', rest)
      | (Inr (Some ev), d') \<Rightarrow> (Ok (Some ev), d', rest)
      | (Inr None, d') \<Rightarrow> next_event d' rest)"
  by simp

lemma next_event_frame:
  assumes "idle d" and "frame_ok (sse_limit d) ev"
  shows "next_event d (sse_encode ev @ rest) = (Ok (Some ev), d\<lparr>sse_first_line := False\<rparr>, rest)"
proof -
  let ?k = "se_event ev" and ?x = "se_data ev"
  let ?at = "\<lambda>l x k h f. \<lparr>sse_line = l, sse_data = x, sse_event_name = k, sse_has_data = h,
    sse_first_line = f, sse_after_cr = False, sse_limit = sse_limit d\<rparr>"
  have d: "d = ?at [] [] [] False (sse_first_line d)"
    using assms(1) by (cases d) (simp add: idle_def)
  have ok: "?k \<noteq> []" "one_line ?k" "one_line ?x" "length ?k + length ?x + 7 \<le> sse_limit d"
    using assms(2) by (simp_all add: frame_ok_def)
  have lf: "LF \<notin> set (''event: '' @ ?k)" "CR \<notin> set (''event: '' @ ?k)"
    "LF \<notin> set (''data: '' @ ?x)" "CR \<notin> set (''data: '' @ ?x)"
    using ok by (simp_all add: one_line_def)
  note off = next_event.simps append.simps(2)
  have "next_event d (sse_encode ev @ rest) =
      next_event (?at [] [] [] False (sse_first_line d))
        ((''event: '' @ ?k) @ LF # (''data: '' @ ?x) @ LF # LF # rest)"
    using d by (simp add: sse_encode_def del: next_event.simps)
  also have "\<dots> = next_event (?at (''event: '' @ ?k) [] [] False (sse_first_line d))
      (LF # (''data: '' @ ?x) @ LF # LF # rest)"
    using ok by (subst next_event_run [OF lf(1,2)]) (simp_all del: next_event.simps)
  also have "\<dots> = next_event (?at [] [] ?k False False) ((''data: '' @ ?x) @ LF # LF # rest)"
    using ok by (subst next_event_LF) (simp_all add: end_line_event del: off)
  also have "\<dots> = next_event (?at (''data: '' @ ?x) [] ?k False False) (LF # LF # rest)"
    using ok by (subst next_event_run [OF lf(3,4)]) (simp_all del: next_event.simps)
  also have "\<dots> = next_event (?at [] (?x @ [LF]) ?k True False) (LF # rest)"
    using ok by (subst next_event_LF) (simp_all add: end_line_data del: off)
  also have "\<dots> = (Ok (Some ev), ?at [] [] [] False False, rest)"
    using ok by (subst next_event_LF) (simp_all add: end_line_blank del: next_event.simps)
  also have "?at [] [] [] False False = d\<lparr>sse_first_line := False\<rparr>"
    by (subst (2) d) simp
  finally show ?thesis .
qed

text \<open>The frames the gateway writes are read back by its own framer: an idle decoder with
  room for them delivers exactly the encoded events, in order, and is idle again.\<close>

theorem frames_round_trip:
  assumes "idle d" and "\<forall>ev \<in> set evs. frame_ok (sse_limit d) ev"
  shows "\<exists>d'. drain d (concat (map sse_encode evs)) = (evs, None, d') \<and> idle d' \<and> sse_finish d' = Ok ()"
  using assms
proof (induction evs arbitrary: d)
  case Nil
  then show ?case by (simp add: drain.simps idle_def sse_finish_def)
next
  case (Cons ev evs)
  let ?d = "d\<lparr>sse_first_line := False\<rparr>"
  have "idle ?d" "\<forall>ev \<in> set evs. frame_ok (sse_limit ?d) ev"
    using Cons.prems by (simp_all add: idle_def)
  from Cons.IH [OF this] obtain d' where
    "drain ?d (concat (map sse_encode evs)) = (evs, None, d')" "idle d'" "sse_finish d' = Ok ()"
    by blast
  moreover have "next_event d (concat (map sse_encode (ev # evs))) =
      (Ok (Some ev), ?d, concat (map sse_encode evs))"
    using Cons.prems next_event_frame [of d ev "concat (map sse_encode evs)"] by simp
  ultimately show ?case
    by (subst drain.simps) simp
qed

subsection \<open>Witnesses\<close>

definition demo_decoder :: sse_decoder where
  "demo_decoder = \<lparr>sse_line = [], sse_data = [], sse_event_name = [], sse_has_data = False,
     sse_first_line = True, sse_after_cr = False, sse_limit = 16\<rparr>"

definition demo_frame :: sse_event where
  "demo_frame = \<lparr>se_event = ''ping'', se_data = ''{}''\<rparr>"

theorem framing_bounded_witness:
  "\<exists>evs err d'. feed_chunks demo_decoder [''data'', '': x''] = (evs, err, d') \<and>
     length (sse_line d') + length (sse_data d') + length (sse_event_name d') \<le> 16 \<and>
     (\<forall>ev \<in> set evs. length (se_data ev) \<le> 16)"
proof -
  have "sse_new 16 = Ok demo_decoder" by (simp add: sse_new_def demo_decoder_def)
  from framing_bounded [OF this] show ?thesis by (metis prod_cases3)
qed

theorem frames_round_trip_witness:
  "\<exists>d'. drain demo_decoder (concat (map sse_encode [demo_frame, demo_frame])) =
     ([demo_frame, demo_frame], None, d') \<and> idle d' \<and> sse_finish d' = Ok ()"
  by (rule frames_round_trip)
    (simp_all add: idle_def demo_decoder_def frame_ok_def demo_frame_def one_line_def)

end
