(* ===== verification/Responses_Codec.thy ===== *)
theory Responses_Codec
  imports Request Sse
begin

text \<open>
  The Responses request codec: the stateless admission rules of
  \<open>src/src/responses_policy.rs\<close> and \<open>decode\<close> / \<open>encode\<close> of \<open>src/src/ir/responses.rs\<close> with
  all their helpers. A mutable field map is passed along explicitly: a helper that removes a
  field returns the map that is left.
\<close>

section \<open>Stateless admission\<close>

record policy_error =
  pe_code :: string
  pe_message :: string

definition policy_bad :: "string \<Rightarrow> string \<Rightarrow> policy_error" where
  "policy_bad code message = \<lparr>pe_code = code, pe_message = message\<rparr>"

definition bool_field :: "fields \<Rightarrow> string \<Rightarrow> policy_error + bool option" where
  "bool_field request key =
     opt_traverse (\<lambda>value. ok_or (as_bool value)
       (policy_bad ''invalid_request'' ''store, background and stream must be booleans'')) (fmlookup request key)"

text \<open>An input item that refers to stored state: a reference, or an object with nothing but an id.\<close>

definition stored_item :: "json \<Rightarrow> bool" where
  "stored_item i \<longleftrightarrow>
     str_at i ''type'' \<in> {Some ''item_reference'', Some ''compaction'', Some ''compaction_trigger''} \<or>
     (case as_object i of
        None \<Rightarrow> False
      | Some fs \<Rightarrow>
          (case fmlookup fs ''id'' of None \<Rightarrow> False | Some v \<Rightarrow> is_string v) \<and>
          (case fmlookup fs ''type'' of None \<Rightarrow> True | Some v \<Rightarrow> is_null v) \<and>
          fmpred (\<lambda>key _. key = ''id'' \<or> key = ''type'') fs)"

definition stateful_request :: "fields \<Rightarrow> bool" where
  "stateful_request request \<longleftrightarrow>
     list_ex (\<lambda>key. case fmlookup request key of None \<Rightarrow> False | Some v \<Rightarrow> \<not> is_null v)
       [''previous_response_id'', ''conversation'', ''context_management''] \<or>
     (case Option.bind (fmlookup request ''input'') as_array of
        None \<Rightarrow> False | Some items \<Rightarrow> list_ex stored_item items)"

definition unsupported_policy :: policy_error where
  "unsupported_policy = policy_bad ''unsupported_feature''
     ''Only stateless foreground requests are supported; storage, conversation history and compaction are unavailable''"

definition normalize_stateless :: "json \<Rightarrow> policy_error + fields \<times> string \<times> bool" where
  "normalize_stateless value =
     (case value of
        JObject request \<Rightarrow>
          and_then (case Option.bind (fmlookup request ''model'') as_str of
              Some m \<Rightarrow> if m \<noteq> [] then Ok m
                else Err (policy_bad ''invalid_model'' ''A registered model identifier is required'')
            | None \<Rightarrow> Err (policy_bad ''invalid_model'' ''A registered model identifier is required'')) (\<lambda>model.
          and_then (bool_field request ''store'') (\<lambda>store.
          if store = Some True then Err unsupported_policy
          else and_then (bool_field request ''background'') (\<lambda>background.
          if background = Some True \<or> stateful_request request then Err unsupported_policy
          else and_then (bool_field request ''stream'') (\<lambda>stream.
            Ok (fmupd ''store'' (JBool False) request, model, stream = Some True)))))
      | _ \<Rightarrow> Err (policy_bad ''invalid_request'' ''The request must be a JSON object''))"

section \<open>Taking fields apart\<close>

definition OPAQUE_FORMAT :: string where "OPAQUE_FORMAT = ''responses.encrypted_content/v1''"

definition object_of :: "json \<Rightarrow> string \<Rightarrow> ir_error + fields" where
  "object_of value field = ok_or (as_object value) (InvalidField field)"

definition array_of :: "json \<Rightarrow> string \<Rightarrow> ir_error + json list" where
  "array_of value field = ok_or (as_array value) (InvalidField field)"

definition take_field :: "fields \<Rightarrow> string \<Rightarrow> json option \<times> fields" where
  "take_field m k =
     (case fmlookup m k of
        None \<Rightarrow> (None, m)
      | Some v \<Rightarrow> if is_null v then (None, m) else (Some v, fmdrop k m))"

definition remove_field :: "fields \<Rightarrow> string \<Rightarrow> json option \<times> fields" where
  "remove_field m k = (fmlookup m k, fmdrop k m)"

text \<open>\<open>take(\<dots>).map(f).transpose()\<close>: convert the field when it is there.\<close>

definition take_as :: "(json \<Rightarrow> ir_error + 'a) \<Rightarrow> fields \<Rightarrow> string \<Rightarrow> ir_error + 'a option \<times> fields" where
  "take_as f m k =
     (case take_field m k of (x, m') \<Rightarrow> and_then (opt_traverse f x) (\<lambda>y. Ok (y, m')))"

definition string_field :: "fields \<Rightarrow> string \<Rightarrow> ir_error + string option \<times> fields" where
  "string_field m k = take_as (\<lambda>v. ok_or (as_str v) (InvalidField k)) m k"

definition required_field :: "fields \<Rightarrow> string \<Rightarrow> ir_error + string \<times> fields" where
  "required_field m k =
     and_then (string_field m k) (\<lambda>(x, m'). and_then (ok_or x (InvalidField k)) (\<lambda>s. Ok (s, m')))"

definition boolean_field :: "fields \<Rightarrow> string \<Rightarrow> ir_error + bool option \<times> fields" where
  "boolean_field m k = take_as (\<lambda>v. ok_or (as_bool v) (InvalidField k)) m k"

fun as_number :: "json \<Rightarrow> string option" where
  "as_number (JNumber n) = Some n"
| "as_number _ = None"

definition number_field :: "fields \<Rightarrow> string \<Rightarrow> ir_error + string option \<times> fields" where
  "number_field m k = take_as (\<lambda>v. ok_or (as_number v) (InvalidField k)) m k"

definition item_id_field :: "fields \<Rightarrow> ir_error + item_id option \<times> fields" where
  "item_id_field m =
     and_then (string_field m ''id'') (\<lambda>(x, m'). and_then (opt_traverse item_id_new x) (\<lambda>i. Ok (i, m')))"

definition ext_of :: "fields \<Rightarrow> extensions" where
  "ext_of m = \<lparr>ext_protocol = Responses, ext_fields = m\<rparr>"

definition tool_identity_fields :: "fields \<Rightarrow> ir_error + tool_identity \<times> fields" where
  "tool_identity_fields m =
     and_then (string_field m ''namespace'') (\<lambda>(ns, m).
     and_then (required_field m ''name'') (\<lambda>(name, m).
     and_then (tool_identity_new ns name) (\<lambda>t. Ok (t, m))))"

section \<open>Decoding\<close>

definition text_kind_of :: "string \<Rightarrow> text_kind option" where
  "text_kind_of tag =
     (if tag = ''input_text'' then Some InputText
      else if tag = ''output_text'' then Some OutputText
      else if tag = ''summary_text'' then Some SummaryText
      else None)"

definition decode_part :: "json \<Rightarrow> ir_error + part" where
  "decode_part value =
     and_then (object_of value ''content_part'') (\<lambda>m.
     and_then (required_field m ''type'') (\<lambda>(tag, m).
     case text_kind_of tag of
       Some kind \<Rightarrow>
         and_then (required_field m ''text'') (\<lambda>(t, m).
         if kind = OutputText then
           and_then (take_as (\<lambda>v. array_of v ''annotations'') m ''annotations'') (\<lambda>(annotations, m).
             Ok \<lparr>part_annotations = annotations, part_kind = PartText kind t, part_extensions = ext_of m\<rparr>)
         else Ok \<lparr>part_annotations = None, part_kind = PartText kind t, part_extensions = ext_of m\<rparr>)
     | None \<Rightarrow>
         if tag = ''input_image'' then
           and_then (required_field m ''image_url'') (\<lambda>(url, m).
           and_then (string_field m ''detail'') (\<lambda>(detail, m).
             Ok \<lparr>part_annotations = None, part_kind = PartImage url detail, part_extensions = ext_of m\<rparr>))
         else Ok \<lparr>part_annotations = None, part_kind = PartExtension value, part_extensions = responses_extensions\<rparr>))"

definition decode_content :: "json \<Rightarrow> ir_error + content" where
  "decode_content value =
     (case value of
        JString t \<Rightarrow> Ok (ContentText t)
      | JArray parts \<Rightarrow> and_then (traverse decode_part parts) (\<lambda>ps. Ok (ContentParts ps))
      | _ \<Rightarrow> Err (InvalidField ''content''))"

text \<open>The derived deserializer of \<open>ToolCallStatus\<close>: a unit variant is its name, or an object
  with the name as its only key and null as the value.\<close>

fun status_name :: "tool_call_status \<Rightarrow> string" where
  "status_name InProgress = ''in_progress''"
| "status_name StatusCompleted = ''completed''"
| "status_name StatusIncomplete = ''incomplete''"

definition status_of :: "string \<Rightarrow> tool_call_status option" where
  "status_of s = find (\<lambda>st. status_name st = s) [InProgress, StatusCompleted, StatusIncomplete]"

definition decode_status :: "json \<Rightarrow> ir_error + tool_call_status" where
  "decode_status v =
     ok_or (case v of
         JString s \<Rightarrow> status_of s
       | JObject m \<Rightarrow>
           find (\<lambda>st. m = fmupd (status_name st) JNull fmempty) [InProgress, StatusCompleted, StatusIncomplete]
       | _ \<Rightarrow> None) (InvalidField ''status'')"

fun role_name :: "role \<Rightarrow> string" where
  "role_name System = ''system''"
| "role_name Developer = ''developer''"
| "role_name User = ''user''"
| "role_name Assistant = ''assistant''"

definition role_of :: "string \<Rightarrow> role option" where
  "role_of s = find (\<lambda>r. role_name r = s) [System, Developer, User, Assistant]"

definition decode_message :: "string option \<Rightarrow> fields \<Rightarrow> ir_error + item" where
  "decode_message tag m =
     and_then (required_field m ''role'') (\<lambda>(role, m).
     and_then (ok_or (role_of role) (InvalidField ''role'')) (\<lambda>role.
     and_then (take_as decode_status m ''status'') (\<lambda>(status, m).
     and_then (item_id_field m) (\<lambda>(i, m).
     case remove_field m ''content'' of (value, m) \<Rightarrow>
     and_then (ok_or value (InvalidField ''content'')) (\<lambda>value.
     and_then (decode_content value) (\<lambda>content.
       Ok (ItemMessage \<lparr>msg_status = status, msg_id = i, msg_role = role, msg_content = content,
             msg_explicit_type = (tag \<noteq> None), msg_extensions = ext_of m\<rparr>)))))))"

definition decode_tool_call :: "bool \<Rightarrow> fields \<Rightarrow> ir_error + item" where
  "decode_tool_call is_function m =
     and_then (item_id_field m) (\<lambda>(i, m).
     and_then (required_field m ''call_id'') (\<lambda>(c, m).
     and_then (call_id_new c) (\<lambda>call.
     and_then (tool_identity_fields m) (\<lambda>(tool, m).
     and_then (if is_function
         then and_then (required_field m ''arguments'') (\<lambda>(s, m). Ok (Json s, m))
         else and_then (required_field m ''input'') (\<lambda>(s, m). Ok (Freeform s, m))) (\<lambda>(input, m).
     and_then (take_as decode_status m ''status'') (\<lambda>(status, m).
       Ok (ItemToolCall \<lparr>tc_status = status, tc_item_id = i, tc_call_id = call, tc_tool = tool, tc_input = input,
             tc_extensions = ext_of m\<rparr>)))))))"

definition decode_tool_result :: "tool_kind \<Rightarrow> fields \<Rightarrow> ir_error + item" where
  "decode_tool_result kind m =
     and_then (item_id_field m) (\<lambda>(i, m).
     and_then (required_field m ''call_id'') (\<lambda>(c, m).
     and_then (call_id_new c) (\<lambda>call.
     case remove_field m ''output'' of (output, m) \<Rightarrow>
     and_then (ok_or output (InvalidField ''output'')) (\<lambda>output.
       Ok (ItemToolResult \<lparr>tr_item_id = i, tr_call_id = call, tr_kind = kind, tr_output = output,
             tr_extensions = ext_of m\<rparr>)))))"

definition bind_opaque :: "continuity_binding option \<Rightarrow> string \<Rightarrow> ir_error + opaque_state" where
  "bind_opaque binding t =
     and_then (ok_or binding UnboundOpaqueState) (\<lambda>b.
       if rs_api (cb_route b) \<noteq> Responses then Err WrongProtocol else opaque_state_new b OPAQUE_FORMAT t)"

definition decode_reasoning :: "continuity_binding option \<Rightarrow> fields \<Rightarrow> ir_error + item" where
  "decode_reasoning binding m =
     and_then (item_id_field m) (\<lambda>(i, m).
     and_then (take_as (\<lambda>v. and_then (array_of v ''summary'') (traverse decode_part)) m ''summary'') (\<lambda>(summary, m).
     and_then (string_field m ''encrypted_content'') (\<lambda>(t, m).
     and_then (opt_traverse (bind_opaque binding) t) (\<lambda>opaque.
       Ok (ItemReasoning \<lparr>ri_id = i, ri_summary = summary, ri_opaque = opaque, ri_extensions = ext_of m\<rparr>)))))"

definition decode_item :: "continuity_binding option \<Rightarrow> json \<Rightarrow> ir_error + item" where
  "decode_item binding value =
     and_then (object_of value ''input_item'') (\<lambda>m.
     and_then (string_field m ''type'') (\<lambda>(tag, m).
       if tag = Some ''message'' \<or> (tag = None \<and> fmlookup m ''role'' \<noteq> None) then decode_message tag m
       else if tag = Some ''function_call'' then decode_tool_call True m
       else if tag = Some ''custom_tool_call'' then decode_tool_call False m
       else if tag = Some ''function_call_output'' then decode_tool_result FunctionKind m
       else if tag = Some ''custom_tool_call_output'' then decode_tool_result CustomKind m
       else if tag = Some ''reasoning'' then decode_reasoning binding m
       else if tag \<noteq> None then Ok (ItemExtension value Responses)
       else Err (InvalidField ''input_item_type'')))"

text \<open>
  A namespace tool decodes its members with \<open>decode_tool\<close> itself; as members that are
  namespaces are refused first, the recursion is one level deep. It is written with the
  member decoder as an argument, and \<open>decode_tool_recursive\<close> below shows that it satisfies the
  recursion of the source.
\<close>

definition decode_member :: "(json \<Rightarrow> ir_error + tool_definition) \<Rightarrow> string \<Rightarrow> json \<Rightarrow> ir_error + tool_definition" where
  "decode_member decode_child ns value =
     (if str_at value ''type'' = Some ''namespace'' \<or> jget value ''namespace'' \<noteq> None then Err InvalidToolMapping
      else and_then (decode_child value) (\<lambda>child.
        Ok (ToolDefinition (ToolIdentity (Some ns) (tool_name (td_identity child))) (td_description child)
              (td_kind child) (td_extensions child))))"

definition decode_tool_with :: "(json \<Rightarrow> ir_error + tool_definition) \<Rightarrow> json \<Rightarrow> ir_error + tool_definition" where
  "decode_tool_with decode_child value =
     and_then (object_of value ''tool'') (\<lambda>m.
     and_then (required_field m ''type'') (\<lambda>(tag, m).
     and_then (tool_identity_fields m) (\<lambda>(identity, m).
     and_then (string_field m ''description'') (\<lambda>(description, m).
       if tag = ''function'' then
         (case take_field m ''parameters'' of (parameters, m) \<Rightarrow>
          and_then (boolean_field m ''strict'') (\<lambda>(strict, m).
            Ok (ToolDefinition identity description (FunctionTool parameters strict) (ext_of m))))
       else if tag = ''custom'' then
         (case take_field m ''format'' of (format, m) \<Rightarrow>
            Ok (ToolDefinition identity description (CustomTool format) (ext_of m)))
       else if tag = ''namespace'' then
         (if namespace identity \<noteq> None then Err InvalidToolMapping
          else (case remove_field m ''tools'' of (children, m) \<Rightarrow>
            and_then (ok_or children (InvalidField ''tools'')) (\<lambda>children.
            and_then (array_of children ''tools'') (\<lambda>children.
            and_then (traverse (decode_member decode_child (tool_name identity)) children) (\<lambda>tools.
              Ok (ToolDefinition identity description (NamespaceTool tools) (ext_of m)))))))
       else Err UnsupportedFeature))))"

definition decode_leaf :: "json \<Rightarrow> ir_error + tool_definition" where
  "decode_leaf = decode_tool_with (\<lambda>_. Err InvalidToolMapping)"

definition decode_tool :: "json \<Rightarrow> ir_error + tool_definition" where
  "decode_tool = decode_tool_with decode_leaf"

definition choice_kind :: "json \<Rightarrow> tool_kind option" where
  "choice_kind value =
     (if str_at value ''type'' = Some ''function'' then Some FunctionKind
      else if str_at value ''type'' = Some ''custom'' then Some CustomKind
      else None)"

definition decode_choice :: "json \<Rightarrow> ir_error + tool_choice" where
  "decode_choice value =
     (if as_str value = Some ''auto'' then Ok ChoiceAuto
      else if as_str value = Some ''none'' then Ok ChoiceNone
      else if as_str value = Some ''required'' then Ok ChoiceRequired
      else
        case (value, choice_kind value) of
          (JObject m, Some kind) \<Rightarrow>
            and_then (tool_identity_fields (fmdrop ''type'' m)) (\<lambda>(tool, m).
              Ok (ChoiceNamed tool kind (ext_of m)))
        | _ \<Rightarrow> Ok (ChoiceExtension value Responses))"

definition decode_format :: "json \<Rightarrow> ir_error + output_format" where
  "decode_format value =
     and_then (object_of value ''format'') (\<lambda>m.
     and_then (required_field m ''type'') (\<lambda>(tag, m).
       if tag = ''text'' then Ok (FormatText (ext_of m))
       else if tag = ''json_object'' then Ok (FormatJsonObject (ext_of m))
       else if tag = ''json_schema'' then
         and_then (required_field m ''name'') (\<lambda>(name, m).
         case remove_field m ''schema'' of (schema, m) \<Rightarrow>
         and_then (ok_or schema (InvalidField ''schema'')) (\<lambda>schema.
         and_then (boolean_field m ''strict'') (\<lambda>(strict, m).
           Ok (FormatJsonSchema name schema strict (ext_of m)))))
       else Ok (FormatExtension value Responses)))"

definition decode_output :: "json \<Rightarrow> ir_error + output_options" where
  "decode_output value =
     and_then (object_of value ''text'') (\<lambda>m.
     and_then (take_as decode_format m ''format'') (\<lambda>(format, m).
       Ok \<lparr>oo_format = format, oo_extensions = ext_of m\<rparr>))"

definition decode_reasoning_options :: "json \<Rightarrow> ir_error + reasoning_options" where
  "decode_reasoning_options value =
     and_then (object_of value ''reasoning'') (\<lambda>m.
     and_then (string_field m ''effort'') (\<lambda>(effort, m).
     and_then (string_field m ''summary'') (\<lambda>(summary, m).
       Ok \<lparr>ro_effort = effort, ro_summary = summary, ro_extensions = ext_of m\<rparr>)))"

definition decode_input :: "continuity_binding option \<Rightarrow> json \<Rightarrow> ir_error + input" where
  "decode_input binding value =
     (case value of
        JString t \<Rightarrow> Ok (TextInput t)
      | JArray items \<Rightarrow> and_then (traverse (decode_item binding) items) (\<lambda>is. Ok (ItemsInput is))
      | _ \<Rightarrow> Err (InvalidField ''input''))"

definition decode_tools :: "json \<Rightarrow> ir_error + tool_definition list" where
  "decode_tools value = and_then (array_of value ''tools'') (traverse decode_tool)"

definition decode_generation :: "fields \<Rightarrow> ir_error + generation_options \<times> fields" where
  "decode_generation m =
     and_then (boolean_field m ''stream'') (\<lambda>(stream, m).
     and_then (take_as (\<lambda>v. ok_or (as_u64 v) (InvalidField ''max_output_tokens'')) m ''max_output_tokens'') (\<lambda>(limit, m).
     and_then (number_field m ''temperature'') (\<lambda>(temperature, m).
     and_then (number_field m ''top_p'') (\<lambda>(top_p, m).
     and_then (boolean_field m ''parallel_tool_calls'') (\<lambda>(parallel, m).
     and_then (take_as decode_choice m ''tool_choice'') (\<lambda>(choice, m).
     and_then (take_as decode_output m ''text'') (\<lambda>(output, m).
     and_then (take_as decode_reasoning_options m ''reasoning'') (\<lambda>(reasoning, m).
       Ok (\<lparr>go_stream = stream, go_max_output_tokens = limit, go_temperature = temperature, go_top_p = top_p,
            go_parallel_tool_calls = parallel, go_tool_choice = choice, go_output = output,
            go_reasoning = reasoning\<rparr>, m)))))))))"

definition policy_to_ir :: "policy_error \<Rightarrow> ir_error" where
  "policy_to_ir e =
     (if pe_code e = ''unsupported_feature'' then UnsupportedFeature else InvalidField ''responses_request'')"

definition decode ::
  "(string \<Rightarrow> bool) \<Rightarrow> continuity_binding option \<Rightarrow> json \<Rightarrow> ir_error + request_ir" where
  "decode json_ok binding value =
     and_then (map_err policy_to_ir (normalize_stateless value)) (\<lambda>(m, model, _).
     let m = fmdrop ''store'' (fmdrop ''model'' m) in
     and_then (string_field m ''instructions'') (\<lambda>(instructions, m).
     and_then (take_as (decode_input binding) m ''input'') (\<lambda>(input, m).
     and_then (take_as decode_tools m ''tools'') (\<lambda>(tools, m).
     and_then (decode_generation m) (\<lambda>(generation, m).
     let request = \<lparr>req_version = VERSION, req_source = Responses, req_model = model,
           req_instructions = instructions, req_input = input, req_tools = tools,
           req_generation = generation, req_extensions = ext_of m\<rparr>
     in and_then (request_validate json_ok request) (\<lambda>_. Ok request))))))"

section \<open>Encoding\<close>

definition fields_of :: "extensions \<Rightarrow> ir_error + fields" where
  "fields_of ext = (if ext_protocol ext \<noteq> Responses then Err WrongProtocol else Ok (ext_fields ext))"

definition put :: "fields \<Rightarrow> string \<Rightarrow> json \<Rightarrow> ir_error + fields" where
  "put m k v = (if fmlookup m k \<noteq> None then Err ExtensionConflict else Ok (fmupd k v m))"

definition optional :: "fields \<Rightarrow> string \<Rightarrow> json option \<Rightarrow> ir_error + fields" where
  "optional m k v = (case v of None \<Rightarrow> Ok m | Some v \<Rightarrow> put m k v)"

definition put_id :: "fields \<Rightarrow> item_id option \<Rightarrow> ir_error + fields" where
  "put_id m i = optional m ''id'' (map_option (JString \<circ> item_id_str) i)"

definition put_tool :: "fields \<Rightarrow> tool_identity \<Rightarrow> ir_error + fields" where
  "put_tool m tool =
     and_then (put m ''name'' (JString (tool_name tool))) (\<lambda>m.
       optional m ''namespace'' (map_option JString (namespace tool)))"

definition retained :: "json \<Rightarrow> api_protocol \<Rightarrow> ir_error + json" where
  "retained value protocol = (if protocol \<noteq> Responses then Err WrongProtocol else Ok value)"

fun text_tag :: "text_kind \<Rightarrow> string" where
  "text_tag InputText = ''input_text''"
| "text_tag OutputText = ''output_text''"
| "text_tag SummaryText = ''summary_text''"

definition encode_part :: "part \<Rightarrow> ir_error + json" where
  "encode_part p =
     and_then (fields_of (part_extensions p)) (\<lambda>m.
     and_then (optional m ''annotations'' (map_option JArray (part_annotations p))) (\<lambda>m.
     case part_kind p of
       PartText kind t \<Rightarrow>
         and_then (put m ''type'' (JString (text_tag kind))) (\<lambda>m.
         and_then (put m ''text'' (JString t)) (\<lambda>m. Ok (JObject m)))
     | PartImage url detail \<Rightarrow>
         and_then (put m ''type'' (JString ''input_image'')) (\<lambda>m.
         and_then (put m ''image_url'' (JString url)) (\<lambda>m.
         and_then (optional m ''detail'' (map_option JString detail)) (\<lambda>m. Ok (JObject m))))
     | PartExtension value \<Rightarrow> if m \<noteq> fmempty then Err ExtensionConflict else Ok value))"

fun encode_content :: "content \<Rightarrow> ir_error + json" where
  "encode_content (ContentText t) = Ok (JString t)"
| "encode_content (ContentParts parts) = and_then (traverse encode_part parts) (\<lambda>ps. Ok (JArray ps))"

definition json_status :: "tool_call_status \<Rightarrow> json" where
  "json_status st = JString (status_name st)"

fun encode_item :: "continuity_binding option \<Rightarrow> item \<Rightarrow> ir_error + json" where
  "encode_item binding (ItemMessage message) =
     and_then (fields_of (msg_extensions message)) (\<lambda>m.
     and_then (optional m ''status'' (map_option json_status (msg_status message))) (\<lambda>m.
     and_then (if msg_explicit_type message then put m ''type'' (JString ''message'') else Ok m) (\<lambda>m.
     and_then (put_id m (msg_id message)) (\<lambda>m.
     and_then (put m ''role'' (JString (role_name (msg_role message)))) (\<lambda>m.
     and_then (encode_content (msg_content message)) (\<lambda>content.
     and_then (put m ''content'' content) (\<lambda>m. Ok (JObject m))))))))"
| "encode_item binding (ItemToolCall call) =
     and_then (fields_of (tc_extensions call)) (\<lambda>m.
     and_then (put_id m (tc_item_id call)) (\<lambda>m.
     and_then (put m ''call_id'' (JString (call_id_str (tc_call_id call)))) (\<lambda>m.
     and_then (put_tool m (tc_tool call)) (\<lambda>m.
     and_then (optional m ''status'' (map_option json_status (tc_status call))) (\<lambda>m.
     and_then (case tc_input call of
         Json raw \<Rightarrow> and_then (put m ''type'' (JString ''function_call'')) (\<lambda>m. put m ''arguments'' (JString raw))
       | Freeform raw \<Rightarrow> and_then (put m ''type'' (JString ''custom_tool_call'')) (\<lambda>m. put m ''input'' (JString raw)))
       (\<lambda>m. Ok (JObject m)))))))"
| "encode_item binding (ItemToolResult result) =
     and_then (fields_of (tr_extensions result)) (\<lambda>m.
     and_then (put_id m (tr_item_id result)) (\<lambda>m.
     and_then (put m ''call_id'' (JString (call_id_str (tr_call_id result)))) (\<lambda>m.
     and_then (put m ''type'' (JString (case tr_kind result of
         FunctionKind \<Rightarrow> ''function_call_output'' | CustomKind \<Rightarrow> ''custom_tool_call_output''))) (\<lambda>m.
     and_then (put m ''output'' (tr_output result)) (\<lambda>m. Ok (JObject m))))))"
| "encode_item binding (ItemReasoning reasoning) =
     and_then (fields_of (ri_extensions reasoning)) (\<lambda>m.
     and_then (put_id m (ri_id reasoning)) (\<lambda>m.
     and_then (put m ''type'' (JString ''reasoning'')) (\<lambda>m.
     and_then (case ri_summary reasoning of
         None \<Rightarrow> Ok m
       | Some parts \<Rightarrow> and_then (traverse encode_part parts) (\<lambda>ps. put m ''summary'' (JArray ps))) (\<lambda>m.
     and_then (case ri_opaque reasoning of
         None \<Rightarrow> Ok m
       | Some state \<Rightarrow>
           and_then (ok_or binding UnboundOpaqueState) (\<lambda>target.
           and_then (opaque_replay state target OPAQUE_FORMAT) (\<lambda>raw.
           if utf8_valid raw then put m ''encrypted_content'' (JString raw)
           else Err (InvalidField ''opaque_encoding''))))
       (\<lambda>m. Ok (JObject m))))))"
| "encode_item binding (ItemExtension value protocol) = retained value protocol"

fun without_namespace :: "json \<Rightarrow> json" where
  "without_namespace (JObject m) = JObject (fmdrop ''namespace'' m)"
| "without_namespace v = v"

fun encode_tool :: "tool_definition \<Rightarrow> ir_error + json" where
  "encode_tool (ToolDefinition identity description kind ext) =
     and_then (fields_of ext) (\<lambda>m.
     and_then (put_tool m identity) (\<lambda>m.
     and_then (optional m ''description'' (map_option JString description)) (\<lambda>m.
     case kind of
       FunctionTool parameters strict \<Rightarrow>
         and_then (put m ''type'' (JString ''function'')) (\<lambda>m.
         and_then (optional m ''parameters'' parameters) (\<lambda>m.
         and_then (optional m ''strict'' (map_option JBool strict)) (\<lambda>m. Ok (JObject m))))
     | CustomTool format \<Rightarrow>
         and_then (put m ''type'' (JString ''custom'')) (\<lambda>m.
         and_then (optional m ''format'' format) (\<lambda>m. Ok (JObject m)))
     | NamespaceTool tools \<Rightarrow>
         and_then (put m ''type'' (JString ''namespace'')) (\<lambda>m.
         and_then (traverse (\<lambda>tool. and_then (encode_tool tool) (\<lambda>child. Ok (without_namespace child))) tools) (\<lambda>children.
         and_then (put m ''tools'' (JArray children)) (\<lambda>m. Ok (JObject m)))))))"

definition encode_choice :: "tool_choice \<Rightarrow> ir_error + json" where
  "encode_choice choice =
     (case choice of
        ChoiceAuto \<Rightarrow> Ok (JString ''auto'')
      | ChoiceNone \<Rightarrow> Ok (JString ''none'')
      | ChoiceRequired \<Rightarrow> Ok (JString ''required'')
      | ChoiceExtension value protocol \<Rightarrow> retained value protocol
      | ChoiceNamed tool kind ext \<Rightarrow>
          and_then (fields_of ext) (\<lambda>m.
          and_then (put_tool m tool) (\<lambda>m.
          and_then (put m ''type'' (JString (case kind of FunctionKind \<Rightarrow> ''function'' | CustomKind \<Rightarrow> ''custom''))) (\<lambda>m.
            Ok (JObject m)))))"

definition encode_format :: "output_format \<Rightarrow> ir_error + json" where
  "encode_format format =
     (case format of
        FormatText ext \<Rightarrow>
          and_then (fields_of ext) (\<lambda>m. and_then (put m ''type'' (JString ''text'')) (\<lambda>m. Ok (JObject m)))
      | FormatJsonObject ext \<Rightarrow>
          and_then (fields_of ext) (\<lambda>m. and_then (put m ''type'' (JString ''json_object'')) (\<lambda>m. Ok (JObject m)))
      | FormatJsonSchema name schema strict ext \<Rightarrow>
          and_then (fields_of ext) (\<lambda>m.
          and_then (put m ''name'' (JString name)) (\<lambda>m.
          and_then (put m ''schema'' schema) (\<lambda>m.
          and_then (optional m ''strict'' (map_option JBool strict)) (\<lambda>m.
          and_then (put m ''type'' (JString ''json_schema'')) (\<lambda>m. Ok (JObject m))))))
      | FormatExtension value protocol \<Rightarrow> retained value protocol)"

definition encode_input :: "continuity_binding option \<Rightarrow> input \<Rightarrow> ir_error + json" where
  "encode_input binding input =
     (case input of
        TextInput t \<Rightarrow> Ok (JString t)
      | ItemsInput items \<Rightarrow> and_then (traverse (encode_item binding) items) (\<lambda>is. Ok (JArray is)))"

definition encode_tools :: "tool_definition list \<Rightarrow> ir_error + json" where
  "encode_tools tools = and_then (traverse encode_tool tools) (\<lambda>ts. Ok (JArray ts))"

definition encode_output :: "output_options \<Rightarrow> ir_error + json" where
  "encode_output output =
     and_then (fields_of (oo_extensions output)) (\<lambda>m.
     and_then (case oo_format output of
         None \<Rightarrow> Ok m
       | Some format \<Rightarrow> and_then (encode_format format) (\<lambda>v. put m ''format'' v)) (\<lambda>m. Ok (JObject m)))"

definition encode_reasoning_options :: "reasoning_options \<Rightarrow> ir_error + json" where
  "encode_reasoning_options reasoning =
     and_then (fields_of (ro_extensions reasoning)) (\<lambda>m.
     and_then (optional m ''effort'' (map_option JString (ro_effort reasoning))) (\<lambda>m.
     and_then (optional m ''summary'' (map_option JString (ro_summary reasoning))) (\<lambda>m. Ok (JObject m))))"

text \<open>\<open>if let Some(x) = \<dots> { put(\<dots>, f(x)?)? }\<close>: encode and store the field when it is there.\<close>

definition put_as :: "('a \<Rightarrow> ir_error + json) \<Rightarrow> fields \<Rightarrow> string \<Rightarrow> 'a option \<Rightarrow> ir_error + fields" where
  "put_as f m k x = (case x of None \<Rightarrow> Ok m | Some y \<Rightarrow> and_then (f y) (\<lambda>v. put m k v))"

definition encode_generation :: "generation_options \<Rightarrow> fields \<Rightarrow> ir_error + fields" where
  "encode_generation g m =
     and_then (optional m ''stream'' (map_option JBool (go_stream g))) (\<lambda>m.
     and_then (optional m ''max_output_tokens'' (map_option json_u64 (go_max_output_tokens g))) (\<lambda>m.
     and_then (optional m ''temperature'' (map_option JNumber (go_temperature g))) (\<lambda>m.
     and_then (optional m ''top_p'' (map_option JNumber (go_top_p g))) (\<lambda>m.
     and_then (optional m ''parallel_tool_calls'' (map_option JBool (go_parallel_tool_calls g))) (\<lambda>m.
     and_then (put_as encode_choice m ''tool_choice'' (go_tool_choice g)) (\<lambda>m.
     and_then (put_as encode_output m ''text'' (go_output g)) (\<lambda>m.
     put_as encode_reasoning_options m ''reasoning'' (go_reasoning g))))))))"

definition encode ::
  "(string \<Rightarrow> bool) \<Rightarrow> continuity_binding option \<Rightarrow> request_ir \<Rightarrow> ir_error + json" where
  "encode json_ok binding r =
     and_then (request_validate json_ok r) (\<lambda>_.
     if req_source r \<noteq> Responses then Err WrongProtocol
     else
       and_then (fields_of (req_extensions r)) (\<lambda>m.
       and_then (put m ''model'' (JString (req_model r))) (\<lambda>m.
       and_then (optional m ''instructions'' (map_option JString (req_instructions r))) (\<lambda>m.
       and_then (put_as (encode_input binding) m ''input'' (req_input r)) (\<lambda>m.
       and_then (put_as encode_tools m ''tools'' (req_tools r)) (\<lambda>m.
       and_then (encode_generation (req_generation r) m) (\<lambda>m.
       and_then (map_err (\<lambda>_. UnsupportedFeature) (normalize_stateless (JObject m))) (\<lambda>(m, _, _).
         Ok (JObject m)))))))))"

section \<open>Taking and putting back\<close>

text \<open>
  What a decoder does to a field map is summarised by the list of keys and values it took;
  \<open>taken m kvs m'\<close> says that removing them from \<open>m\<close> leaves \<open>m'\<close>. An encoder puts a list of
  keys and values back; the order does not matter, as the keys differ.
\<close>

definition taken1 :: "fields \<Rightarrow> string \<times> json option \<Rightarrow> fields \<Rightarrow> bool" where
  "taken1 m kv m' \<longleftrightarrow>
     (case snd kv of
        None \<Rightarrow> m' = m
      | Some v \<Rightarrow> fmlookup m (fst kv) = Some v \<and> m' = fmdrop (fst kv) m)"

fun taken :: "fields \<Rightarrow> (string \<times> json option) list \<Rightarrow> fields \<Rightarrow> bool" where
  "taken m [] m' \<longleftrightarrow> m' = m"
| "taken m (kv # kvs) m' \<longleftrightarrow> (\<exists>m1. taken1 m kv m1 \<and> taken m1 kvs m')"

definition put_all :: "fields \<Rightarrow> (string \<times> json option) list \<Rightarrow> ir_error + fields" where
  "put_all = fold_result (\<lambda>m (k, x). optional m k x)"

lemma put_all_simps [simp]:
  "put_all m [] = Ok m"
  "put_all m ((k, x) # kvs) = and_then (optional m k x) (\<lambda>m. put_all m kvs)"
  by (simp_all add: put_all_def)

lemma taken_Nil: "taken m [] m"
  by simp

lemma takenI: "taken1 m kv m1 \<Longrightarrow> taken m1 kvs m' \<Longrightarrow> taken m (kv # kvs) m'"
  by auto

lemma taken_append: "taken m (kvs @ kvs') m' \<longleftrightarrow> (\<exists>m1. taken m kvs m1 \<and> taken m1 kvs' m')"
  by (induction m kvs m' rule: taken.induct) auto

definition put_value :: "(string \<times> json option) list \<Rightarrow> string \<Rightarrow> json option" where
  "put_value kvs k = Option.bind (map_of kvs k) (\<lambda>x. x)"

lemma put_all_Ok:
  assumes "distinct (map fst kvs)" and "\<And>k v. (k, Some v) \<in> set kvs \<Longrightarrow> fmlookup m k = None"
  shows "\<exists>m'. put_all m kvs = Ok m' \<and>
    (\<forall>k. fmlookup m' k = (case put_value kvs k of Some v \<Rightarrow> Some v | None \<Rightarrow> fmlookup m k))"
  using assms
proof (induction kvs arbitrary: m)
  case Nil
  then show ?case by (simp add: put_value_def)
next
  case (Cons kv kvs)
  obtain k x where kv: "kv = (k, x)" by (cases kv)
  have k: "k \<notin> fst ` set kvs" using Cons.prems(1) kv by simp
  define m1 where "m1 = (case x of None \<Rightarrow> m | Some v \<Rightarrow> fmupd k v m)"
  have step: "optional m k x = Ok m1"
  proof (cases x)
    case (Some v)
    then have "fmlookup m k = None" using Cons.prems(2) [of k v] kv by simp
    with Some show ?thesis by (simp add: optional_def put_def m1_def)
  qed (simp add: optional_def m1_def)
  have "fmlookup m1 j = None" if "(j, Some v) \<in> set kvs" for j v
  proof -
    have "j \<noteq> k" using that k by (metis fst_conv imageI)
    moreover have "fmlookup m j = None" using that Cons.prems(2) by (meson list.set_intros(2))
    ultimately show ?thesis by (simp add: m1_def split: option.splits)
  qed
  then obtain m' where m': "put_all m1 kvs = Ok m'"
    "\<forall>j. fmlookup m' j = (case put_value kvs j of Some v \<Rightarrow> Some v | None \<Rightarrow> fmlookup m1 j)"
    using Cons.IH [of m1] Cons.prems(1) by auto
  have "map_of kvs k = None" using k by (simp add: map_of_eq_None_iff)
  with step m' show ?case
    by (auto simp: kv put_value_def m1_def split: option.splits)
qed

lemma taken_lookup:
  assumes "taken m kvs m'" and "distinct (map fst kvs)"
  shows "(case put_value kvs k of
      Some v \<Rightarrow> fmlookup m k = Some v \<and> fmlookup m' k = None
    | None \<Rightarrow> fmlookup m' k = fmlookup m k)"
  using assms
proof (induction m kvs m' rule: taken.induct)
  case (1 m m')
  then show ?case by (simp add: put_value_def)
next
  case (2 m kv kvs m')
  obtain j x where kv: "kv = (j, x)" by (cases kv)
  obtain m1 where m1: "taken1 m kv m1" "taken m1 kvs m'" using 2(2) by auto
  have j: "map_of kvs j = None" using 2(3) kv by (simp add: map_of_eq_None_iff)
  have IH: "case put_value kvs k of Some v \<Rightarrow> fmlookup m1 k = Some v \<and> fmlookup m' k = None
      | None \<Rightarrow> fmlookup m' k = fmlookup m1 k"
    using 2 m1 by auto
  show ?case
  proof (cases "k = j")
    case True
    with IH j m1(1) show ?thesis by (auto simp: kv put_value_def taken1_def split: option.splits)
  next
    case False
    then have "fmlookup m1 k = fmlookup m k"
      using m1(1) by (auto simp: kv taken1_def split: option.splits)
    with IH False show ?thesis by (simp add: kv put_value_def split: option.splits)
  qed
qed

lemma taken_put_all:
  assumes "taken m kvs m'" and "distinct (map fst kvs)" and "distinct (map fst kvs')" and "set kvs' = set kvs"
  shows "put_all m' kvs' = Ok m"
proof -
  have same: "put_value kvs' = put_value kvs"
    using assms(2-4) by (simp add: put_value_def fun_eq_iff) (metis map_of_inject_set)
  have "fmlookup m' k = None" if "(k, Some v) \<in> set kvs'" for k v
  proof -
    have "put_value kvs k = Some v"
      using that assms(2,4) by (simp add: put_value_def)
    with taken_lookup [OF assms(1,2), of k] show ?thesis by simp
  qed
  with put_all_Ok [OF assms(3), of m'] obtain m2 where m2: "put_all m' kvs' = Ok m2"
    "\<forall>k. fmlookup m2 k = (case put_value kvs k of Some v \<Rightarrow> Some v | None \<Rightarrow> fmlookup m' k)"
    by (auto simp: same)
  have "m2 = m"
  proof (rule fmap_eqI)
    show "fmlookup m2 k = fmlookup m k" for k
      using m2(2) taken_lookup [OF assms(1,2), of k] by (auto split: option.splits)
  qed
  with m2 show ?thesis by simp
qed

lemma taken1_take: "take_field m k = (x, m') \<Longrightarrow> taken1 m (k, x) m'"
  by (auto simp: take_field_def taken1_def split: option.splits if_splits)

lemma taken1_remove: "remove_field m k = (Some v, m') \<Longrightarrow> taken1 m (k, Some v) m'"
  by (auto simp: remove_field_def taken1_def)

lemma put_optional: "put m k v = optional m k (Some v)"
  by (simp add: optional_def)

text \<open>The typed readers, as one taken field whose value the writer produces again.\<close>

lemma take_as_Ok:
  assumes "take_as f m k = Ok (y, m')" and "\<And>v z. f v = Ok z \<Longrightarrow> fmlookup m k = Some v \<Longrightarrow> g z = v"
  shows "taken1 m (k, map_option g y) m'"
proof -
  obtain x where x: "take_field m k = (x, m')" "opt_traverse f x = Ok y"
    using assms(1) by (auto simp: take_as_def split: prod.splits)
  have "x = map_option g y"
  proof (cases x)
    case None
    with x show ?thesis by simp
  next
    case (Some v)
    then obtain z where "f v = Ok z" "y = Some z" using x(2) by auto
    moreover have "fmlookup m k = Some v"
      using x(1) Some by (auto simp: take_field_def split: option.splits if_splits)
    ultimately show ?thesis using assms(2) Some by simp
  qed
  with taken1_take [OF x(1)] show ?thesis by simp
qed

lemma string_field_Ok: "string_field m k = Ok (x, m') \<Longrightarrow> taken1 m (k, map_option JString x) m'"
  unfolding string_field_def by (erule take_as_Ok) simp

lemma required_field_Ok: "required_field m k = Ok (s, m') \<Longrightarrow> taken1 m (k, Some (JString s)) m'"
  unfolding required_field_def by (auto dest!: string_field_Ok)

lemma boolean_field_Ok: "boolean_field m k = Ok (x, m') \<Longrightarrow> taken1 m (k, map_option JBool x) m'"
  unfolding boolean_field_def by (erule take_as_Ok) simp

lemma as_number_Some [simp]: "as_number v = Some n \<longleftrightarrow> v = JNumber n"
  by (cases v) auto

lemma number_field_Ok: "number_field m k = Ok (x, m') \<Longrightarrow> taken1 m (k, map_option JNumber x) m'"
  unfolding number_field_def by (erule take_as_Ok) simp

lemma item_id_field_Ok:
  "item_id_field m = Ok (i, m') \<Longrightarrow> taken1 m (''id'', map_option (JString \<circ> item_id_str) i) m'"
  unfolding item_id_field_def
  by (auto dest!: string_field_Ok simp: opt_traverse_eq_Inr split: option.splits)

lemma tool_identity_fields_Ok:
  assumes "tool_identity_fields m = Ok (t, m')"
  shows "taken m [(''namespace'', map_option JString (namespace t)), (''name'', Some (JString (tool_name t)))] m'"
  using assms by (auto simp: tool_identity_fields_def dest!: string_field_Ok required_field_Ok)

lemmas field_facts =
  string_field_Ok required_field_Ok boolean_field_Ok number_field_Ok item_id_field_Ok taken1_take taken1_remove

section \<open>Round trips of the parts\<close>

lemma fields_of_ext_of [simp]: "fields_of (ext_of m) = Ok m"
  by (simp add: fields_of_def ext_of_def)

lemma object_of_Ok [simp]: "object_of v f = Ok m \<longleftrightarrow> v = JObject m"
  by (simp add: object_of_def)

lemma array_of_Ok [simp]: "array_of v f = Ok xs \<longleftrightarrow> v = JArray xs"
  by (simp add: array_of_def)

lemma text_kind_of_Some [simp]: "text_kind_of tag = Some kind \<longleftrightarrow> tag = text_tag kind"
  by (cases kind) (auto simp: text_kind_of_def)

lemma text_kind_of_tag [simp]: "text_kind_of (text_tag kind) = Some kind"
  by simp

lemma optional_None [simp]: "optional m k None = Ok m"
  by (simp add: optional_def)

lemma encode_decode_part:
  assumes "decode_part v = Ok p"
  shows "encode_part p = Ok v"
proof -
  obtain m tag m1 where v: "v = JObject m" and tag: "required_field m ''type'' = Ok (tag, m1)"
    using assms by (auto simp: decode_part_def)
  note type = required_field_Ok [OF tag]
  show ?thesis
  proof (cases "text_kind_of tag")
    case (Some kind)
    then obtain t m2 where t: "required_field m1 ''text'' = Ok (t, m2)"
      using assms tag by (auto simp: decode_part_def v split: if_splits)
    show ?thesis
    proof (cases "kind = OutputText")
      case True
      then obtain ann m3 where ann: "take_as (\<lambda>v. array_of v ''annotations'') m2 ''annotations'' = Ok (ann, m3)"
        and p: "p = \<lparr>part_annotations = ann, part_kind = PartText kind t, part_extensions = ext_of m3\<rparr>"
        using assms tag Some t by (auto simp: decode_part_def v)
      have "taken m [(''type'', Some (JString tag)), (''text'', Some (JString t)), (''annotations'', map_option JArray ann)] m3"
        using type required_field_Ok [OF t] take_as_Ok [OF ann, of JArray] by auto
      then have "put_all m3 [(''annotations'', map_option JArray ann), (''type'', Some (JString tag)), (''text'', Some (JString t))] = Ok m"
        by (rule taken_put_all) auto
      then show ?thesis using Some by (simp add: encode_part_def p v put_optional)
    next
      case False
      then have p: "p = \<lparr>part_annotations = None, part_kind = PartText kind t, part_extensions = ext_of m2\<rparr>"
        using assms tag Some t by (auto simp: decode_part_def v)
      have "taken m [(''type'', Some (JString tag)), (''text'', Some (JString t))] m2"
        using type required_field_Ok [OF t] by auto
      then have "put_all m2 [(''type'', Some (JString tag)), (''text'', Some (JString t))] = Ok m"
        by (rule taken_put_all) auto
      then show ?thesis using Some by (simp add: encode_part_def p v put_optional)
    qed
  next
    case None
    show ?thesis
    proof (cases "tag = ''input_image''")
      case True
      then obtain url m2 detail m3 where u: "required_field m1 ''image_url'' = Ok (url, m2)"
        "string_field m2 ''detail'' = Ok (detail, m3)"
        and p: "p = \<lparr>part_annotations = None, part_kind = PartImage url detail, part_extensions = ext_of m3\<rparr>"
        using assms tag None by (auto simp: decode_part_def v)
      have "taken m [(''type'', Some (JString tag)), (''image_url'', Some (JString url)), (''detail'', map_option JString detail)] m3"
        using type required_field_Ok [OF u(1)] string_field_Ok [OF u(2)] by auto
      then have "put_all m3 [(''type'', Some (JString tag)), (''image_url'', Some (JString url)), (''detail'', map_option JString detail)] = Ok m"
        by (rule taken_put_all) auto
      then show ?thesis using True by (simp add: encode_part_def p v put_optional)
    next
      case False
      with None assms tag have "p = \<lparr>part_annotations = None, part_kind = PartExtension v, part_extensions = responses_extensions\<rparr>"
        by (auto simp: decode_part_def v)
      then show ?thesis by (simp add: encode_part_def fields_of_def responses_extensions_def)
    qed
  qed
qed

interpretation part_codec: codec decode_part encode_part "\<lambda>_. True"
  by unfold_locales (simp add: encode_decode_part)

lemma encode_decode_parts: "traverse decode_part vs = Ok ps \<Longrightarrow> traverse encode_part ps = Ok vs"
  by (rule part_codec.traverse_enc_dec) (simp add: list_all_iff)

lemma encode_decode_content: "decode_content v = Ok c \<Longrightarrow> encode_content c = Ok v"
  by (auto simp: decode_content_def split: json.splits dest: encode_decode_parts)

lemma status_of_Some [simp]: "status_of s = Some st \<longleftrightarrow> s = status_name st"
  by (cases st) (auto simp: status_of_def)

lemma role_of_Some [simp]: "role_of s = Some r \<longleftrightarrow> s = role_name r"
  by (cases r) (auto simp: role_of_def)

text \<open>
  The wire forms that are not unique: a status may also be written as an object, and the text
  of an opaque state must be text, which the strings of the source always are.
\<close>

definition field_is :: "(json \<Rightarrow> bool) \<Rightarrow> string \<Rightarrow> json \<Rightarrow> bool" where
  "field_is P k v \<longleftrightarrow> (case jget v k of None \<Rightarrow> True | Some x \<Rightarrow> P x)"

fun text_field :: "json \<Rightarrow> bool" where
  "text_field (JString s) = utf8_valid s"
| "text_field _ = True"

definition item_canon :: "json \<Rightarrow> bool" where
  "item_canon v \<longleftrightarrow> field_is (\<lambda>x. \<not> is_object x) ''status'' v \<and> field_is text_field ''encrypted_content'' v"

lemma decode_status_Ok: "decode_status v = Ok st \<Longrightarrow> \<not> is_object v \<Longrightarrow> v = json_status st"
  by (cases v) (auto simp: decode_status_def json_status_def is_object_def)

lemma take_status:
  assumes "take_as decode_status m ''status'' = Ok (st, m')"
    and "\<And>x. fmlookup m ''status'' = Some x \<Longrightarrow> \<not> is_object x"
  shows "taken1 m (''status'', map_option json_status st) m'"
  using assms by (intro take_as_Ok [OF assms(1)]) (metis decode_status_Ok)

lemma taken1_other: "taken1 m (k, x) m' \<Longrightarrow> j \<noteq> k \<Longrightarrow> fmlookup m' j = fmlookup m j"
  by (auto simp: taken1_def split: option.splits)

lemma put_type_optional:
  "(if b then put m k v else Ok m) = optional m k (if b then Some v else None)"
  by (simp add: optional_def)

lemma encode_decode_message:
  assumes "decode_message tag m0 = Ok i" and "taken1 m (''type'', map_option JString tag) m0"
    and "tag \<in> {None, Some ''message''}" and "\<And>x. fmlookup m0 ''status'' = Some x \<Longrightarrow> \<not> is_object x"
  shows "encode_item binding i = Ok (JObject m)"
proof -
  obtain role m1 st m2 j m3 val content where steps:
    "required_field m0 ''role'' = Ok (role_name role, m1)" "take_as decode_status m1 ''status'' = Ok (st, m2)"
    "item_id_field m2 = Ok (j, m3)" "fmlookup m3 ''content'' = Some val" "decode_content val = Ok content"
    and i: "i = ItemMessage \<lparr>msg_status = st, msg_id = j, msg_role = role, msg_content = content,
      msg_explicit_type = (tag \<noteq> None), msg_extensions = ext_of (fmdrop ''content'' m3)\<rparr>"
    using assms(1) by (auto simp: decode_message_def remove_field_def)
  have role: "taken1 m0 (''role'', Some (JString (role_name role))) m1"
    using steps(1) by (rule required_field_Ok)
  have status: "taken1 m1 (''status'', map_option json_status st) m2"
    using steps(2) assms(4) taken1_other [OF role] by (intro take_status) auto
  have "taken m [(''type'', map_option JString tag), (''role'', Some (JString (role_name role))),
      (''status'', map_option json_status st), (''id'', map_option (JString \<circ> item_id_str) j),
      (''content'', Some val)] (fmdrop ''content'' m3)"
    using assms(2) role status item_id_field_Ok [OF steps(3)] steps(4) by (auto simp: taken1_def)
  then have "put_all (fmdrop ''content'' m3)
     [(''status'', map_option json_status st), (''type'', map_option JString tag),
      (''id'', map_option (JString \<circ> item_id_str) j), (''role'', Some (JString (role_name role))),
      (''content'', Some val)] = Ok m"
    by (rule taken_put_all) auto
  moreover have "map_option JString tag = (if tag \<noteq> None then Some (JString ''message'') else None)"
    using assms(3) by auto
  ultimately show ?thesis
    using encode_decode_content [OF steps(5)] by (simp add: i put_type_optional put_id_def put_optional)
qed

lemma encode_decode_tool_call:
  assumes "decode_tool_call f m0 = Ok i"
    and "taken1 m (''type'', Some (JString (if f then ''function_call'' else ''custom_tool_call''))) m0"
    and "\<And>x. fmlookup m0 ''status'' = Some x \<Longrightarrow> \<not> is_object x"
  shows "encode_item binding i = Ok (JObject m)"
proof -
  define arg where "arg = (if f then ''arguments'' else ''input'')"
  obtain j m1 c m2 tool m3 s m4 st m5 where steps:
    "item_id_field m0 = Ok (j, m1)" "required_field m1 ''call_id'' = Ok (c, m2)"
    "tool_identity_fields m2 = Ok (tool, m3)" "required_field m3 arg = Ok (s, m4)"
    "take_as decode_status m4 ''status'' = Ok (st, m5)"
    and i: "i = ItemToolCall \<lparr>tc_status = st, tc_item_id = j, tc_call_id = CallId c, tc_tool = tool,
      tc_input = (if f then Json s else Freeform s), tc_extensions = ext_of m5\<rparr>"
    using assms(1) by (auto simp: decode_tool_call_def arg_def split: if_splits)
  have t1: "taken1 m0 (''id'', map_option (JString \<circ> item_id_str) j) m1" using steps(1) by (rule item_id_field_Ok)
  have t2: "taken1 m1 (''call_id'', Some (JString c)) m2" using steps(2) by (rule required_field_Ok)
  obtain m2' where t3: "taken1 m2 (''namespace'', map_option JString (namespace tool)) m2'"
    "taken1 m2' (''name'', Some (JString (tool_name tool))) m3"
    using tool_identity_fields_Ok [OF steps(3)] by auto
  have t4: "taken1 m3 (arg, Some (JString s)) m4" using steps(4) by (rule required_field_Ok)
  have arg: "arg \<noteq> ''status''" by (simp add: arg_def)
  have "fmlookup m4 ''status'' = fmlookup m0 ''status''"
    using taken1_other [OF t1] taken1_other [OF t2] taken1_other [OF t3(1)] taken1_other [OF t3(2)]
      taken1_other [OF t4] arg by auto
  then have t5: "taken1 m4 (''status'', map_option json_status st) m5"
    using steps(5) assms(3) by (intro take_status) auto
  have "taken m [(''type'', Some (JString (if f then ''function_call'' else ''custom_tool_call''))),
      (''id'', map_option (JString \<circ> item_id_str) j), (''call_id'', Some (JString c)),
      (''namespace'', map_option JString (namespace tool)), (''name'', Some (JString (tool_name tool))),
      (arg, Some (JString s)), (''status'', map_option json_status st)] m5"
    by (intro takenI [OF assms(2)] takenI [OF t1] takenI [OF t2] takenI [OF t3(1)] takenI [OF t3(2)]
        takenI [OF t4] takenI [OF t5] taken_Nil)
  then have "put_all m5
     [(''id'', map_option (JString \<circ> item_id_str) j), (''call_id'', Some (JString c)),
      (''name'', Some (JString (tool_name tool))), (''namespace'', map_option JString (namespace tool)),
      (''status'', map_option json_status st),
      (''type'', Some (JString (if f then ''function_call'' else ''custom_tool_call''))), (arg, Some (JString s))] = Ok m"
    by (rule taken_put_all) (auto simp: arg_def)
  then show ?thesis
    by (cases f) (simp_all add: i put_id_def put_tool_def put_optional arg_def)
qed

lemma encode_decode_tool_result:
  assumes "decode_tool_result kind m0 = Ok i"
    and "taken1 m (''type'', Some (JString (case kind of FunctionKind \<Rightarrow> ''function_call_output''
      | CustomKind \<Rightarrow> ''custom_tool_call_output''))) m0"
  shows "encode_item binding i = Ok (JObject m)"
proof -
  obtain j m1 c m2 out where steps:
    "item_id_field m0 = Ok (j, m1)" "required_field m1 ''call_id'' = Ok (c, m2)" "fmlookup m2 ''output'' = Some out"
    and i: "i = ItemToolResult \<lparr>tr_item_id = j, tr_call_id = CallId c, tr_kind = kind, tr_output = out,
      tr_extensions = ext_of (fmdrop ''output'' m2)\<rparr>"
    using assms(1) by (auto simp: decode_tool_result_def remove_field_def)
  have "taken m [(''type'', Some (JString (case kind of FunctionKind \<Rightarrow> ''function_call_output''
      | CustomKind \<Rightarrow> ''custom_tool_call_output''))), (''id'', map_option (JString \<circ> item_id_str) j),
      (''call_id'', Some (JString c)), (''output'', Some out)] (fmdrop ''output'' m2)"
    using assms(2) item_id_field_Ok [OF steps(1)] required_field_Ok [OF steps(2)] steps(3) by (auto simp: taken1_def)
  then have "put_all (fmdrop ''output'' m2)
     [(''id'', map_option (JString \<circ> item_id_str) j), (''call_id'', Some (JString c)),
      (''type'', Some (JString (case kind of FunctionKind \<Rightarrow> ''function_call_output''
      | CustomKind \<Rightarrow> ''custom_tool_call_output''))), (''output'', Some out)] = Ok m"
    by (rule taken_put_all) auto
  then show ?thesis by (simp add: i put_id_def put_optional)
qed

lemma bind_opaque_Ok:
  assumes "bind_opaque binding t = Ok state"
  shows "\<exists>b. binding = Some b \<and> opaque_replay state b OPAQUE_FORMAT = Ok t"
proof -
  obtain b where b: "binding = Some b" "opaque_state_new b OPAQUE_FORMAT t = Ok state"
    using assms by (auto simp: bind_opaque_def split: if_splits)
  with opaque_replay_Ok [OF b(2)] show ?thesis by auto
qed

lemma encode_decode_reasoning:
  assumes "decode_reasoning binding m0 = Ok i" and "taken1 m (''type'', Some (JString ''reasoning'')) m0"
    and "\<And>s. fmlookup m0 ''encrypted_content'' = Some (JString s) \<Longrightarrow> utf8_valid s"
  shows "encode_item binding i = Ok (JObject m)"
proof -
  obtain j m1 smry m2 t m3 opaque where steps:
    "item_id_field m0 = Ok (j, m1)"
    "take_as (\<lambda>v. and_then (array_of v ''summary'') (traverse decode_part)) m1 ''summary'' = Ok (smry, m2)"
    "string_field m2 ''encrypted_content'' = Ok (t, m3)" "opt_traverse (bind_opaque binding) t = Ok opaque"
    and i: "i = ItemReasoning \<lparr>ri_id = j, ri_summary = smry, ri_opaque = opaque, ri_extensions = ext_of m3\<rparr>"
    using assms(1) by (auto simp: decode_reasoning_def)
  define enc where "enc ps = JArray (case traverse encode_part ps of Inr vs \<Rightarrow> vs | Inl _ \<Rightarrow> [])" for ps
  have t1: "taken1 m0 (''id'', map_option (JString \<circ> item_id_str) j) m1" using steps(1) by (rule item_id_field_Ok)
  have t2: "taken1 m1 (''summary'', map_option enc smry) m2"
    by (rule take_as_Ok [OF steps(2)]) (auto simp: enc_def dest: encode_decode_parts)
  have encoded: "\<exists>vs. traverse encode_part ps = Ok vs \<and> enc ps = JArray vs" if some: "smry = Some ps" for ps
  proof -
    obtain ws where "traverse decode_part ws = Ok ps"
      using steps(2) some by (cases "fst (take_field m1 ''summary'')") (auto simp: take_as_def split: prod.splits)
    from encode_decode_parts [OF this] show ?thesis by (simp add: enc_def)
  qed
  have t3: "taken1 m2 (''encrypted_content'', map_option JString t) m3" using steps(3) by (rule string_field_Ok)
  have "fmlookup m2 ''encrypted_content'' = fmlookup m0 ''encrypted_content''"
    using taken1_other [OF t1] taken1_other [OF t2] by auto
  then have utf8: "utf8_valid s" if "t = Some s" for s
    using t3 that assms(3) by (auto simp: taken1_def)
  have "taken m [(''type'', Some (JString ''reasoning'')), (''id'', map_option (JString \<circ> item_id_str) j),
      (''summary'', map_option enc smry), (''encrypted_content'', map_option JString t)] m3"
    using assms(2) t1 t2 t3 by auto
  then have puts: "put_all m3
     [(''id'', map_option (JString \<circ> item_id_str) j), (''type'', Some (JString ''reasoning'')),
      (''summary'', map_option enc smry), (''encrypted_content'', map_option JString t)] = Ok m"
    by (rule taken_put_all) auto
  have summary: "(case smry of None \<Rightarrow> Ok n | Some parts \<Rightarrow> and_then (traverse encode_part parts) (\<lambda>ps. put n ''summary'' (JArray ps))) =
      optional n ''summary'' (map_option enc smry)" for n
  proof (cases smry)
    case (Some ps)
    with encoded [OF Some] show ?thesis by (auto simp: optional_def)
  qed simp
  have sealed: "(case opaque of None \<Rightarrow> Ok n | Some state \<Rightarrow>
      and_then (ok_or binding UnboundOpaqueState) (\<lambda>target. and_then (opaque_replay state target OPAQUE_FORMAT) (\<lambda>raw.
        if utf8_valid raw then put n ''encrypted_content'' (JString raw) else Err (InvalidField ''opaque_encoding'')))) =
      optional n ''encrypted_content'' (map_option JString t)" for n
    using steps(4) utf8 by (cases t) (auto simp: optional_def dest!: bind_opaque_Ok)
  show ?thesis
    using puts by (simp add: i put_id_def put_optional summary sealed)
qed

lemma encode_decode_item:
  assumes "decode_item binding v = Ok i" and "item_canon v"
  shows "encode_item binding i = Ok v"
proof -
  obtain m tag m0 where v: "v = JObject m" and tag: "string_field m ''type'' = Ok (tag, m0)"
    using assms(1) by (auto simp: decode_item_def)
  have type: "taken1 m (''type'', map_option JString tag) m0" using tag by (rule string_field_Ok)
  have status: "\<not> is_object x" if "fmlookup m0 ''status'' = Some x" for x
    using assms(2) that taken1_other [OF type] by (auto simp: item_canon_def field_is_def v)
  have sealed: "utf8_valid s" if "fmlookup m0 ''encrypted_content'' = Some (JString s)" for s
    using assms(2) that taken1_other [OF type] by (auto simp: item_canon_def field_is_def v)
  note body = assms(1) [unfolded decode_item_def v object_of_def, simplified, unfolded tag, simplified]
  have message: "encode_item binding i = Ok (JObject m)" if "decode_message tag m0 = Ok i" "tag \<in> {None, Some ''message''}"
    using that type status by (intro encode_decode_message) auto
  have call: "encode_item binding i = Ok (JObject m)" if "decode_tool_call f m0 = Ok i"
    "tag = Some (if f then ''function_call'' else ''custom_tool_call'')" for f
    using that type status by (intro encode_decode_tool_call [of f]) auto
  have result: "encode_item binding i = Ok (JObject m)" if "decode_tool_result kind m0 = Ok i"
    "tag = Some (case kind of FunctionKind \<Rightarrow> ''function_call_output'' | CustomKind \<Rightarrow> ''custom_tool_call_output'')" for kind
    using that type by (intro encode_decode_tool_result [of kind]) auto
  have reasoning: "encode_item binding i = Ok (JObject m)" if "decode_reasoning binding m0 = Ok i" "tag = Some ''reasoning''"
    using that type sealed by (intro encode_decode_reasoning) auto
  show ?thesis
    using body message call [of True] call [of False] result [of FunctionKind] result [of CustomKind] reasoning
    by (auto simp: v retained_def split: if_splits)
qed

subsection \<open>Tools\<close>

lemma decode_tool_with_cong:
  assumes "str_at v ''type'' \<noteq> Some ''namespace''"
  shows "decode_tool_with f v = decode_tool_with g v"
proof (cases v)
  case (JObject m)
  have "tag \<noteq> ''namespace''" if "required_field m ''type'' = Ok (tag, m1)" for tag m1
    using required_field_Ok [OF that] assms by (auto simp: JObject taken1_def)
  then show ?thesis
    by (auto simp: decode_tool_with_def JObject object_of_def intro!: and_then_cong)
qed (simp_all add: decode_tool_with_def object_of_def)

text \<open>The recursion of the source.\<close>

lemma decode_tool_recursive: "decode_tool v = decode_tool_with decode_tool v"
proof -
  have "decode_member decode_leaf ns = decode_member decode_tool ns" for ns
    by (rule ext) (auto simp: decode_member_def decode_leaf_def decode_tool_def intro!: and_then_cong
        decode_tool_with_cong)
  then have "decode_tool_with decode_leaf v = decode_tool_with decode_tool v"
    unfolding decode_tool_with_def by (simp only:)
  then show ?thesis by (metis decode_tool_def)
qed

fun leaf_tag :: "tool_definition_kind \<Rightarrow> string" where
  "leaf_tag (FunctionTool _ _) = ''function''"
| "leaf_tag (CustomTool _) = ''custom''"
| "leaf_tag (NamespaceTool _) = ''namespace''"

fun leaf_fields :: "tool_definition_kind \<Rightarrow> (string \<times> json option) list" where
  "leaf_fields (FunctionTool parameters strict) = [(''parameters'', parameters), (''strict'', map_option JBool strict)]"
| "leaf_fields (CustomTool format) = [(''format'', format)]"
| "leaf_fields (NamespaceTool _) = []"

definition head_fields :: "tool_definition \<Rightarrow> (string \<times> json option) list" where
  "head_fields t =
     [(''name'', Some (JString (tool_name (td_identity t)))),
      (''namespace'', map_option JString (namespace (td_identity t))),
      (''description'', map_option JString (td_description t)), (''type'', Some (JString (leaf_tag (td_kind t))))]"

lemma decode_leaf_taken:
  assumes "decode_tool_with f (JObject m) = Ok t" and "\<not> is_namespace t"
  shows "\<exists>m'. td_extensions t = ext_of m' \<and>
    taken m ([(''type'', Some (JString (leaf_tag (td_kind t)))),
       (''namespace'', map_option JString (namespace (td_identity t))),
       (''name'', Some (JString (tool_name (td_identity t)))),
       (''description'', map_option JString (td_description t))] @ leaf_fields (td_kind t)) m'"
proof -
  obtain tag m1 identity m2 description m3 where steps:
    "required_field m ''type'' = Ok (tag, m1)" "tool_identity_fields m1 = Ok (identity, m2)"
    "string_field m2 ''description'' = Ok (description, m3)"
    using assms(1) by (auto simp: decode_tool_with_def)
  obtain m1' where head: "taken1 m (''type'', Some (JString tag)) m1"
    "taken1 m1 (''namespace'', map_option JString (namespace identity)) m1'"
    "taken1 m1' (''name'', Some (JString (tool_name identity))) m2"
    "taken1 m2 (''description'', map_option JString description) m3"
    using required_field_Ok [OF steps(1)] tool_identity_fields_Ok [OF steps(2)] string_field_Ok [OF steps(3)] by auto
  note body = assms(1) [unfolded decode_tool_with_def object_of_def, simplified, unfolded steps, simplified,
      unfolded steps, simplified, unfolded steps, simplified]
  consider (fn) parameters strict m4 m5 where "tag = ''function''" "take_field m3 ''parameters'' = (parameters, m4)"
      "boolean_field m4 ''strict'' = Ok (strict, m5)"
      "t = ToolDefinition identity description (FunctionTool parameters strict) (ext_of m5)"
    | (custom) format m4 where "tag = ''custom''" "take_field m3 ''format'' = (format, m4)"
      "t = ToolDefinition identity description (CustomTool format) (ext_of m4)"
    using body assms(2) by (auto simp: is_namespace_def split: if_splits prod.splits)
  then show ?thesis
  proof cases
    case fn
    show ?thesis
      using takenI [OF head(1)] takenI [OF head(2)] takenI [OF head(3)] takenI [OF head(4)]
        takenI [OF taken1_take [OF fn(2)]] takenI [OF boolean_field_Ok [OF fn(3)]] taken_Nil
      by (simp add: fn(1,4) del: taken.simps) metis
  next
    case custom
    show ?thesis
      using takenI [OF head(1)] takenI [OF head(2)] takenI [OF head(3)] takenI [OF head(4)]
        takenI [OF taken1_take [OF custom(2)]] taken_Nil
      by (simp add: custom(1,3) del: taken.simps) metis
  qed
qed

lemma encode_leaf:
  assumes "\<not> is_namespace t" and "td_extensions t = ext_of m'"
    and "put_all m' (head_fields t @ leaf_fields (td_kind t)) = Ok m"
  shows "encode_tool t = Ok (JObject m)"
  using assms
  by (cases t; cases "td_kind t") (auto simp: head_fields_def put_tool_def put_optional is_namespace_def)

lemma leaf_keys_distinct:
  "distinct (map fst (head_fields t @ leaf_fields k))"
  by (cases k) (auto simp: head_fields_def)

lemma encode_decode_leaf:
  assumes "decode_tool_with f (JObject m) = Ok t" and "\<not> is_namespace t"
  shows "encode_tool t = Ok (JObject m)"
proof -
  obtain m' where m': "td_extensions t = ext_of m'"
    "taken m ([(''type'', Some (JString (leaf_tag (td_kind t)))),
       (''namespace'', map_option JString (namespace (td_identity t))),
       (''name'', Some (JString (tool_name (td_identity t)))),
       (''description'', map_option JString (td_description t))] @ leaf_fields (td_kind t)) m'"
    using decode_leaf_taken [OF assms] by blast
  have "put_all m' (head_fields t @ leaf_fields (td_kind t)) = Ok m"
    by (rule taken_put_all [OF m'(2)]) (use leaf_keys_distinct [of t "td_kind t"] in \<open>auto simp: head_fields_def\<close>)
  with assms(2) m'(1) show ?thesis by (rule encode_leaf)
qed

text \<open>A member of a namespace gains its namespace on the way in and loses it on the way out.\<close>

lemma namespace_tag:
  assumes "decode_tool_with f (JObject m) = Ok t" and "is_namespace t"
  shows "str_at (JObject m) ''type'' = Some ''namespace''"
proof -
  obtain tag m1 where tag: "required_field m ''type'' = Ok (tag, m1)"
    using assms(1) by (auto simp: decode_tool_with_def)
  have "tag = ''namespace''"
    using assms tag by (auto simp: decode_tool_with_def is_namespace_def split: if_splits prod.splits)
  with required_field_Ok [OF tag] show ?thesis by (simp add: taken1_def)
qed

lemma encode_decode_member:
  assumes "decode_member decode_leaf ns v = Ok t"
  shows "and_then (encode_tool t) (\<lambda>child. Ok (without_namespace child)) = Ok v"
proof -
  obtain u where u: "decode_leaf v = Ok u" "jget v ''namespace'' = None" "str_at v ''type'' \<noteq> Some ''namespace''"
    and t: "t = ToolDefinition (ToolIdentity (Some ns) (tool_name (td_identity u))) (td_description u)
      (td_kind u) (td_extensions u)"
    using assms by (auto simp: decode_member_def split: if_splits)
  obtain m where m: "v = JObject m"
    using u(1) by (auto simp: decode_leaf_def decode_tool_with_def)
  have leaf: "\<not> is_namespace u"
    using u namespace_tag by (auto simp: decode_leaf_def m simp del: str_at_JObject)
  then have leaf_t: "\<not> is_namespace t" by (simp add: t is_namespace_def)
  define kvs where "kvs = [(''name'', Some (JString (tool_name (td_identity u)))),
      (''description'', map_option JString (td_description u))] @ leaf_fields (td_kind u)"
  obtain m' where m': "td_extensions u = ext_of m'" and
    all: "taken m ((''type'', Some (JString (leaf_tag (td_kind u)))) #
      (''namespace'', map_option JString (namespace (td_identity u))) # kvs) m'"
    using decode_leaf_taken [OF u(1) [unfolded decode_leaf_def m] leaf]
    unfolding kvs_def append_Cons append_Nil by blast
  then obtain m1 m2 where tk: "taken1 m (''type'', Some (JString (leaf_tag (td_kind u)))) m1"
      "taken1 m1 (''namespace'', map_option JString (namespace (td_identity u))) m2" "taken m2 kvs m'"
    by auto
  have none: "fmlookup m ''namespace'' = None" using u(2) m by simp
  have "m2 = m1"
    using tk(2) taken1_other [OF tk(1), of "''namespace''"] none by (auto simp: taken1_def split: option.splits)
  define M where "M = fmupd ''namespace'' (JString ns) m"
  have drop: "fmdrop ''namespace'' M = m"
    using none by (intro fmap_eqI) (simp add: M_def)
  then have "taken1 M (''namespace'', Some (JString ns)) m" by (simp add: taken1_def M_def)
  from takenI [OF this takenI [OF tk(1)]] tk(3) \<open>m2 = m1\<close>
  have "taken M ((''namespace'', Some (JString ns)) # (''type'', Some (JString (leaf_tag (td_kind u)))) # kvs) m'"
    by blast
  then have "put_all m' (head_fields t @ leaf_fields (td_kind t)) = Ok M"
    by (rule taken_put_all) (use leaf_keys_distinct [of t "td_kind u"] in \<open>auto simp: head_fields_def kvs_def t\<close>)
  with leaf_t m' have "encode_tool t = Ok (JObject M)"
    by (intro encode_leaf [of t m']) (simp_all add: t)
  with drop show ?thesis by (simp add: m)
qed

lemma encode_decode_tool:
  assumes "decode_tool v = Ok t"
  shows "encode_tool t = Ok v"
proof -
  obtain m where v: "v = JObject m"
    using assms by (auto simp: decode_tool_def decode_tool_with_def)
  show ?thesis
  proof (cases "is_namespace t")
    case False
    then show ?thesis using assms encode_decode_leaf by (simp add: decode_tool_def v)
  next
    case True
    then obtain m1 identity m2 description m3 children tools where steps:
      "required_field m ''type'' = Ok (''namespace'', m1)" "tool_identity_fields m1 = Ok (identity, m2)"
      "string_field m2 ''description'' = Ok (description, m3)" "fmlookup m3 ''tools'' = Some (JArray children)"
      "traverse (decode_member decode_leaf (tool_name identity)) children = Ok tools"
      and t: "t = ToolDefinition identity description (NamespaceTool tools) (ext_of (fmdrop ''tools'' m3))"
      using assms by (auto simp: decode_tool_def decode_tool_with_def is_namespace_def remove_field_def v
          split: if_splits prod.splits)
    have members: "traverse (\<lambda>tool. and_then (encode_tool tool) (\<lambda>child. Ok (without_namespace child))) tools = Ok children"
      using steps(5) by (induction children arbitrary: tools) (auto dest!: encode_decode_member)
    obtain m1' where tk: "taken1 m (''type'', Some (JString ''namespace'')) m1"
      "taken1 m1 (''namespace'', map_option JString (namespace identity)) m1'"
      "taken1 m1' (''name'', Some (JString (tool_name identity))) m2"
      "taken1 m2 (''description'', map_option JString description) m3"
      "taken1 m3 (''tools'', Some (JArray children)) (fmdrop ''tools'' m3)"
      using required_field_Ok [OF steps(1)] tool_identity_fields_Ok [OF steps(2)] string_field_Ok [OF steps(3)] steps(4)
      by (auto simp: taken1_def)
    have "taken m [(''type'', Some (JString ''namespace'')), (''namespace'', map_option JString (namespace identity)),
        (''name'', Some (JString (tool_name identity))), (''description'', map_option JString description),
        (''tools'', Some (JArray children))] (fmdrop ''tools'' m3)"
      by (rule takenI [OF tk(1) takenI [OF tk(2) takenI [OF tk(3) takenI [OF tk(4) takenI [OF tk(5) taken_Nil]]]]])
    then have "put_all (fmdrop ''tools'' m3)
       [(''name'', Some (JString (tool_name identity))), (''namespace'', map_option JString (namespace identity)),
        (''description'', map_option JString description), (''type'', Some (JString ''namespace'')),
        (''tools'', Some (JArray children))] = Ok m"
      by (rule taken_put_all) auto
    with members show ?thesis by (simp add: t v put_tool_def put_optional)
  qed
qed

interpretation tool_codec: codec decode_tool encode_tool "\<lambda>_. True"
  by unfold_locales (simp add: encode_decode_tool)

interpretation item_codec: codec "decode_item binding" "encode_item binding" item_canon for binding
  by unfold_locales (rule encode_decode_item)

subsection \<open>Options\<close>

lemma encode_decode_choice:
  assumes "decode_choice v = Ok c"
  shows "encode_choice c = Ok v"
proof -
  consider (auto) "v = JString ''auto''" "c = ChoiceAuto" | (none) "v = JString ''none''" "c = ChoiceNone"
    | (req) "v = JString ''required''" "c = ChoiceRequired" | (other) "c = ChoiceExtension v Responses"
    | (named) m kind tool m' where "v = JObject m" "choice_kind v = Some kind"
      "tool_identity_fields (fmdrop ''type'' m) = Ok (tool, m')" "c = ChoiceNamed tool kind (ext_of m')"
    using assms by (auto simp: decode_choice_def split: if_splits json.splits option.splits)
  then show ?thesis
  proof cases
    case named
    define tag where "tag = (case kind of FunctionKind \<Rightarrow> ''function'' | CustomKind \<Rightarrow> ''custom'')"
    have "taken1 m (''type'', Some (JString tag)) (fmdrop ''type'' m)"
      using named(1,2) by (auto simp: choice_kind_def tag_def taken1_def bind_eq_Some_conv split: if_splits)
    from takenI [OF this tool_identity_fields_Ok [OF named(3)]]
    have "put_all m' [(''name'', Some (JString (tool_name tool))), (''namespace'', map_option JString (namespace tool)),
        (''type'', Some (JString tag))] = Ok m"
      by (rule taken_put_all) auto
    then show ?thesis
      by (simp add: named encode_choice_def put_tool_def put_optional tag_def)
  qed (simp_all add: encode_choice_def retained_def)
qed

lemma encode_decode_format:
  assumes "decode_format v = Ok f"
  shows "encode_format f = Ok v"
proof -
  obtain m tag m1 where v: "v = JObject m" and tag: "required_field m ''type'' = Ok (tag, m1)"
    using assms by (auto simp: decode_format_def)
  note type = required_field_Ok [OF tag]
  have simple: "put_all m1 [(''type'', Some (JString tag))] = Ok m"
    by (rule taken_put_all [OF takenI [OF type taken_Nil]]) auto
  consider (plain) "tag = ''text''" "f = FormatText (ext_of m1)" | (object) "tag = ''json_object''" "f = FormatJsonObject (ext_of m1)"
    | (schema) name m2 schema strict m4 where "tag = ''json_schema''" "required_field m1 ''name'' = Ok (name, m2)"
      "fmlookup m2 ''schema'' = Some schema" "boolean_field (fmdrop ''schema'' m2) ''strict'' = Ok (strict, m4)"
      "f = FormatJsonSchema name schema strict (ext_of m4)"
    | (other) "f = FormatExtension v Responses"
    using assms tag by (auto simp: decode_format_def v remove_field_def split: if_splits)
  then show ?thesis
  proof cases
    case schema
    have sch: "taken1 m2 (''schema'', Some schema) (fmdrop ''schema'' m2)" using schema(3) by (simp add: taken1_def)
    have "put_all m4 [(''name'', Some (JString name)), (''schema'', Some schema),
        (''strict'', map_option JBool strict), (''type'', Some (JString tag))] = Ok m"
      by (rule taken_put_all [OF takenI [OF type takenI [OF required_field_Ok [OF schema(2)]
            takenI [OF sch takenI [OF boolean_field_Ok [OF schema(4)] taken_Nil]]]]]) auto
    then show ?thesis by (simp add: schema(1,5) encode_format_def v put_optional)
  qed (use simple in \<open>simp_all add: encode_format_def v put_optional retained_def\<close>)
qed

text \<open>A field taken with a decoder is put back with the encoder that inverts it.\<close>

lemma take_as_put_as:
  assumes "take_as dec m k = Ok (y, m')" and "\<And>v z. dec v = Ok z \<Longrightarrow> fmlookup m k = Some v \<Longrightarrow> enc z = Ok v"
  shows "\<exists>x. taken1 m (k, x) m' \<and> (\<forall>n. put_as enc n k y = optional n k x)"
proof -
  obtain x where x: "take_field m k = (x, m')" "opt_traverse dec x = Ok y"
    using assms(1) by (auto simp: take_as_def split: prod.splits)
  have "put_as enc n k y = optional n k x" for n
  proof (cases x)
    case (Some v)
    then obtain z where "dec v = Ok z" "y = Some z" using x(2) by auto
    moreover have "fmlookup m k = Some v"
      using x(1) Some by (auto simp: take_field_def split: option.splits if_splits)
    ultimately show ?thesis using assms(2) Some by (simp add: put_as_def optional_def)
  qed (use x in \<open>simp add: put_as_def\<close>)
  with taken1_take [OF x(1)] show ?thesis by blast
qed

lemma encode_output_put_as:
  "encode_output out = and_then (fields_of (oo_extensions out)) (\<lambda>m.
     and_then (put_as encode_format m ''format'' (oo_format out)) (\<lambda>m. Ok (JObject m)))"
  by (simp add: encode_output_def put_as_def)

lemma encode_decode_output:
  assumes "decode_output v = Ok out"
  shows "encode_output out = Ok v"
proof -
  obtain m format m' where steps: "v = JObject m" "take_as decode_format m ''format'' = Ok (format, m')"
    "out = \<lparr>oo_format = format, oo_extensions = ext_of m'\<rparr>"
    using assms by (auto simp: decode_output_def)
  obtain x where x: "taken1 m (''format'', x) m'" "\<And>n. put_as encode_format n ''format'' format = optional n ''format'' x"
    using take_as_put_as [OF steps(2), of encode_format] encode_decode_format by blast
  have "put_all m' [(''format'', x)] = Ok m"
    by (rule taken_put_all [OF takenI [OF x(1) taken_Nil]]) auto
  then show ?thesis by (simp add: encode_output_put_as steps x(2))
qed

lemma encode_decode_reasoning_options:
  assumes "decode_reasoning_options v = Ok r"
  shows "encode_reasoning_options r = Ok v"
proof -
  obtain m e m1 s m2 where steps: "v = JObject m" "string_field m ''effort'' = Ok (e, m1)"
    "string_field m1 ''summary'' = Ok (s, m2)" "r = \<lparr>ro_effort = e, ro_summary = s, ro_extensions = ext_of m2\<rparr>"
    using assms by (auto simp: decode_reasoning_options_def)
  have "put_all m2 [(''effort'', map_option JString e), (''summary'', map_option JString s)] = Ok m"
    by (rule taken_put_all [OF takenI [OF string_field_Ok [OF steps(2)] takenI [OF string_field_Ok [OF steps(3)] taken_Nil]]]) auto
  then show ?thesis by (simp add: encode_reasoning_options_def steps)
qed

subsection \<open>The request\<close>

definition items_canon :: "json \<Rightarrow> bool" where
  "items_canon v = (case v of JArray items \<Rightarrow> list_all item_canon items | _ \<Rightarrow> True)"

fun limit_canon :: "json \<Rightarrow> bool" where
  "limit_canon (JNumber n) = natural_literal n"
| "limit_canon _ = True"

text \<open>Canonical wire form: items as above, and the token limit an integer literal of the JSON
  grammar, which is what a parsed document holds.\<close>

definition request_canon :: "json \<Rightarrow> bool" where
  "request_canon v \<longleftrightarrow> field_is items_canon ''input'' v \<and> field_is limit_canon ''max_output_tokens'' v"

lemma request_canonD:
  assumes "request_canon (JObject m)"
  shows "fmlookup m ''input'' = Some x \<Longrightarrow> items_canon x"
    and "fmlookup m ''max_output_tokens'' = Some x \<Longrightarrow> limit_canon x"
  using assms by (simp_all add: request_canon_def field_is_def)

lemma encode_decode_input:
  assumes "decode_input binding v = Ok i" and "items_canon v"
  shows "encode_input binding i = Ok v"
  using assms item_codec.traverse_enc_dec [of _ binding]
  by (auto simp: decode_input_def encode_input_def items_canon_def split: json.splits)

lemma encode_decode_tools: "decode_tools v = Ok ts \<Longrightarrow> encode_tools ts = Ok v"
  using tool_codec.traverse_enc_dec by (auto simp: decode_tools_def encode_tools_def list_all_iff)

lemma encode_decode_generation:
  assumes "decode_generation m = Ok (g, m')"
    and "\<And>n. fmlookup m ''max_output_tokens'' = Some (JNumber n) \<Longrightarrow> natural_literal n"
  shows "\<exists>kvs. taken m kvs m' \<and>
    map fst kvs = [''stream'', ''max_output_tokens'', ''temperature'', ''top_p'', ''parallel_tool_calls'',
      ''tool_choice'', ''text'', ''reasoning''] \<and> (\<forall>n. encode_generation g n = put_all n kvs)"
proof -
  obtain stream m1 limit m2 temp m3 top m4 par m5 ch m6 out m7 re where steps:
    "boolean_field m ''stream'' = Ok (stream, m1)"
    "take_as (\<lambda>v. ok_or (as_u64 v) (InvalidField ''max_output_tokens'')) m1 ''max_output_tokens'' = Ok (limit, m2)"
    "number_field m2 ''temperature'' = Ok (temp, m3)" "number_field m3 ''top_p'' = Ok (top, m4)"
    "boolean_field m4 ''parallel_tool_calls'' = Ok (par, m5)" "take_as decode_choice m5 ''tool_choice'' = Ok (ch, m6)"
    "take_as decode_output m6 ''text'' = Ok (out, m7)" "take_as decode_reasoning_options m7 ''reasoning'' = Ok (re, m')"
    and g: "g = \<lparr>go_stream = stream, go_max_output_tokens = limit, go_temperature = temp, go_top_p = top,
       go_parallel_tool_calls = par, go_tool_choice = ch, go_output = out, go_reasoning = re\<rparr>"
    using assms(1) by (auto simp: decode_generation_def)
  have t1: "taken1 m (''stream'', map_option JBool stream) m1" using steps(1) by (rule boolean_field_Ok)
  have t2: "taken1 m1 (''max_output_tokens'', map_option json_u64 limit) m2"
  proof (rule take_as_Ok [OF steps(2)])
    fix v z assume "ok_or (as_u64 v) (InvalidField ''max_output_tokens'') = Ok z" and "fmlookup m1 ''max_output_tokens'' = Some v"
    moreover from this obtain n where "v = JNumber n" "parse_u64 n = Some z" by (cases v) auto
    ultimately show "json_u64 z = v"
      using assms(2) taken1_other [OF t1] json_u64_as_u64 by auto
  qed
  obtain x6 where x6: "taken1 m5 (''tool_choice'', x6) m6" "\<And>n. put_as encode_choice n ''tool_choice'' ch = optional n ''tool_choice'' x6"
    using take_as_put_as [OF steps(6), of encode_choice] encode_decode_choice by blast
  obtain x7 where x7: "taken1 m6 (''text'', x7) m7" "\<And>n. put_as encode_output n ''text'' out = optional n ''text'' x7"
    using take_as_put_as [OF steps(7), of encode_output] encode_decode_output by blast
  obtain x8 where x8: "taken1 m7 (''reasoning'', x8) m'" "\<And>n. put_as encode_reasoning_options n ''reasoning'' re = optional n ''reasoning'' x8"
    using take_as_put_as [OF steps(8), of encode_reasoning_options] encode_decode_reasoning_options by blast
  define kvs where "kvs = [(''stream'', map_option JBool stream), (''max_output_tokens'', map_option json_u64 limit),
    (''temperature'', map_option JNumber temp), (''top_p'', map_option JNumber top),
    (''parallel_tool_calls'', map_option JBool par), (''tool_choice'', x6), (''text'', x7), (''reasoning'', x8)]"
  have "taken m kvs m'"
    unfolding kvs_def
    by (rule takenI [OF t1 takenI [OF t2 takenI [OF number_field_Ok [OF steps(3)] takenI [OF number_field_Ok [OF steps(4)]
          takenI [OF boolean_field_Ok [OF steps(5)] takenI [OF x6(1) takenI [OF x7(1) takenI [OF x8(1) taken_Nil]]]]]]]])
  moreover have "encode_generation g n = put_all n kvs" for n
  proof -
    have tail: "optional q ''reasoning'' x8 = and_then (optional q ''reasoning'' x8) (\<lambda>m. Ok m)" for q
      by (cases "optional q ''reasoning'' x8") simp_all
    show ?thesis
      unfolding encode_generation_def g kvs_def using tail by (simp add: x6(2) x7(2) x8(2))
  qed
  ultimately show ?thesis by (intro exI [of _ kvs]) (simp add: kvs_def)
qed

lemma normalize_stateless_Ok:
  assumes "normalize_stateless v = Ok (m', model, stream)"
  obtains m where "v = JObject m" "m' = fmupd ''store'' (JBool False) m" "fmlookup m ''model'' = Some (JString model)"
    "model \<noteq> []" "bool_field m ''store'' \<noteq> Ok (Some True)" "bool_field m ''background'' \<noteq> Ok (Some True)"
    "\<not> stateful_request m"
proof -
  obtain m where m: "v = JObject m"
    using assms by (cases v) (auto simp: normalize_stateless_def)
  show thesis
    using assms unfolding m normalize_stateless_def
    by (intro that [OF m]) (auto simp: bind_eq_Some_conv split: if_splits option.splits)
qed

lemma normalize_without_store:
  assumes "normalize_stateless (JObject m) = Ok (m', model, stream)"
  shows "normalize_stateless (JObject (fmdrop ''store'' m)) = Ok (fmupd ''store'' (JBool False) m, model, stream)"
proof -
  have other: "bool_field (fmdrop ''store'' m) k = bool_field m k" if "k \<noteq> ''store''" for k
    using that by (simp add: bool_field_def)
  have "bool_field (fmdrop ''store'' m) ''store'' = Ok None" by (simp add: bool_field_def)
  moreover have "stateful_request (fmdrop ''store'' m) = stateful_request m"
    by (simp add: stateful_request_def)
  moreover have "fmupd ''store'' (JBool False) (fmdrop ''store'' m) = fmupd ''store'' (JBool False) m"
    by (rule fmap_eqI) simp
  ultimately show ?thesis
    using assms by (auto simp: normalize_stateless_def other bind_eq_Some_conv split: if_splits option.splits)
qed

lemma decode_taken:
  assumes "decode json_ok binding (JObject m) = Ok r" and "request_canon (JObject m)"
  shows "\<exists>m' model stream kvs. normalize_stateless (JObject m) = Ok (fmupd ''store'' (JBool False) m, model, stream) \<and>
    request_validate json_ok r = Ok () \<and> req_source r = Responses \<and> req_extensions r = ext_of m' \<and>
    put_all m' ((''model'', Some (JString (req_model r))) # (''instructions'', map_option JString (req_instructions r)) # kvs) =
      Ok (fmdrop ''store'' m) \<and>
    (\<forall>n. and_then (put_as (encode_input binding) n ''input'' (req_input r)) (\<lambda>n.
      and_then (put_as encode_tools n ''tools'' (req_tools r)) (encode_generation (req_generation r))) = put_all n kvs)"
proof -
  obtain m0 model stream ins m1 inp m2 tools m3 g m4 where
    norm: "normalize_stateless (JObject m) = Ok (m0, model, stream)" and
    steps: "string_field (fmdrop ''store'' (fmdrop ''model'' m0)) ''instructions'' = Ok (ins, m1)"
    "take_as (decode_input binding) m1 ''input'' = Ok (inp, m2)" "take_as decode_tools m2 ''tools'' = Ok (tools, m3)"
    "decode_generation m3 = Ok (g, m4)" and
    r: "r = \<lparr>req_version = VERSION, req_source = Responses, req_model = model, req_instructions = ins, req_input = inp,
      req_tools = tools, req_generation = g, req_extensions = ext_of m4\<rparr>" and
    valid: "request_validate json_ok r = Ok ()"
    using assms(1) by (auto simp: decode_def Let_def split: prod.splits)
  obtain mm where "JObject m = JObject mm" and m0: "m0 = fmupd ''store'' (JBool False) mm"
    and model: "fmlookup mm ''model'' = Some (JString model)"
    by (rule normalize_stateless_Ok [OF norm])
  then have mm: "mm = m" by simp
  define D where "D = fmdrop ''store'' m"
  have D: "fmdrop ''store'' (fmdrop ''model'' m0) = fmdrop ''model'' D"
    by (rule fmap_eqI) (simp add: m0 mm D_def)
  have t0: "taken1 D (''model'', Some (JString model)) (fmdrop ''model'' D)"
    using model by (simp add: taken1_def D_def mm)
  have t1: "taken1 (fmdrop ''model'' D) (''instructions'', map_option JString ins) m1"
    using string_field_Ok [OF steps(1)] by (simp add: D)
  have "fmlookup m1 ''input'' = fmlookup m ''input''"
    using taken1_other [OF t1] by (simp add: D_def)
  then have "items_canon x" if "fmlookup m1 ''input'' = Some x" for x
    using request_canonD(1) [OF assms(2)] that by simp
  then obtain x2 where x2: "taken1 m1 (''input'', x2) m2"
    "\<And>n. put_as (encode_input binding) n ''input'' inp = optional n ''input'' x2"
    using take_as_put_as [OF steps(2), of "encode_input binding"] encode_decode_input by blast
  obtain x3 where x3: "taken1 m2 (''tools'', x3) m3" "\<And>n. put_as encode_tools n ''tools'' tools = optional n ''tools'' x3"
    using take_as_put_as [OF steps(3), of encode_tools] encode_decode_tools by blast
  have "fmlookup m3 ''max_output_tokens'' = fmlookup m ''max_output_tokens''"
    using taken1_other [OF t1] taken1_other [OF x2(1)] taken1_other [OF x3(1)] by (simp add: D_def)
  then have lit: "natural_literal n" if "fmlookup m3 ''max_output_tokens'' = Some (JNumber n)" for n
    using request_canonD(2) [OF assms(2)] that by (metis limit_canon.simps(1))
  have "\<exists>gk. taken m3 gk m4 \<and> map fst gk = [''stream'', ''max_output_tokens'', ''temperature'', ''top_p'',
      ''parallel_tool_calls'', ''tool_choice'', ''text'', ''reasoning''] \<and> (\<forall>n. encode_generation g n = put_all n gk)"
    by (rule encode_decode_generation [OF steps(4)]) (rule lit)
  then obtain gk where gk: "taken m3 gk m4" "map fst gk = [''stream'', ''max_output_tokens'', ''temperature'', ''top_p'',
      ''parallel_tool_calls'', ''tool_choice'', ''text'', ''reasoning'']" "encode_generation g = (\<lambda>n. put_all n gk)"
    by (elim exE conjE) (rule that, assumption+, simp add: fun_eq_iff)
  define kvs where "kvs = (''input'', x2) # (''tools'', x3) # gk"
  have all: "taken D ((''model'', Some (JString model)) # (''instructions'', map_option JString ins) # kvs) m4"
    unfolding kvs_def by (rule takenI [OF t0 takenI [OF t1 takenI [OF x2(1) takenI [OF x3(1) gk(1)]]]])
  have keys: "distinct (map fst ((''model'', Some (JString model)) # (''instructions'', map_option JString ins) # kvs))"
    by (simp add: kvs_def gk(2))
  have puts: "put_all m4 ((''model'', Some (JString model)) # (''instructions'', map_option JString ins) # kvs) = Ok D"
    by (rule taken_put_all [OF all keys keys refl])
  have "and_then (put_as (encode_input binding) n ''input'' inp) (\<lambda>n.
      and_then (put_as encode_tools n ''tools'' tools) (encode_generation g)) = put_all n kvs" for n
    by (simp add: x2(2) x3(2) kvs_def gk(3))
  then show ?thesis
    using norm m0 mm r valid puts
    by (intro exI [of _ m4] exI [of _ model] exI [of _ stream] exI [of _ kvs]) (simp add: D_def)
qed

lemma encode_decode:
  assumes "decode json_ok binding (JObject m) = Ok r" and "request_canon (JObject m)"
  shows "encode json_ok binding r = Ok (JObject (fmupd ''store'' (JBool False) m))"
proof -
  obtain m' model stream kvs where
    norm: "normalize_stateless (JObject m) = Ok (fmupd ''store'' (JBool False) m, model, stream)"
    and valid: "request_validate json_ok r = Ok ()" "req_source r = Responses" "req_extensions r = ext_of m'"
    and puts: "put_all m' ((''model'', Some (JString (req_model r))) # (''instructions'', map_option JString (req_instructions r)) # kvs) =
      Ok (fmdrop ''store'' m)"
    and rest: "\<And>n. and_then (put_as (encode_input binding) n ''input'' (req_input r)) (\<lambda>n.
      and_then (put_as encode_tools n ''tools'' (req_tools r)) (encode_generation (req_generation r))) = put_all n kvs"
    using decode_taken [OF assms] by blast
  obtain n1 n2 where n: "put m' ''model'' (JString (req_model r)) = Ok n1"
    "optional n1 ''instructions'' (map_option JString (req_instructions r)) = Ok n2" "put_all n2 kvs = Ok (fmdrop ''store'' m)"
    using puts by (auto simp: put_optional)
  from n(3) rest [of n2] obtain n3 n4 where
    "put_as (encode_input binding) n2 ''input'' (req_input r) = Ok n3" "put_as encode_tools n3 ''tools'' (req_tools r) = Ok n4"
    "encode_generation (req_generation r) n4 = Ok (fmdrop ''store'' m)"
    by auto
  with n(1,2) valid normalize_without_store [OF norm] show ?thesis
    by (simp add: encode_def)
qed

text \<open>C1. Decoding a Responses request loses nothing: encoding the decoded request again yields the
  document the client sent, field for field and with unknown fields in place, except that storage
  is switched off.\<close>

theorem responses_round_trip:
  assumes "decode json_ok binding v = Ok r" and "request_canon v"
  shows "\<exists>m. v = JObject m \<and> encode json_ok binding r = Ok (JObject (fmupd ''store'' (JBool False) m))"
proof -
  obtain m where "v = JObject m"
    using assms(1) by (cases v) (auto simp: decode_def normalize_stateless_def)
  with assms encode_decode show ?thesis by blast
qed

text \<open>Two documents that decode to the same request are the same document, up to the storage
  flag: decoding never merges different requests.\<close>

theorem decode_injective:
  assumes "decode json_ok binding (JObject m) = Ok r" and "decode json_ok binding (JObject n) = Ok r"
    and "request_canon (JObject m)" and "request_canon (JObject n)"
  shows "fmupd ''store'' (JBool False) m = fmupd ''store'' (JBool False) n"
  using encode_decode [OF assms(1,3)] encode_decode [OF assms(2,4)] by simp

text \<open>Only stateless foreground requests are admitted: an accepted request names a model, does
  not ask for storage or background execution, and refers to no earlier response, conversation or
  stored item; what is forwarded has storage switched off.\<close>

theorem admitted_is_stateless:
  assumes "normalize_stateless (JObject m) = Ok (m', model, stream)"
  shows "model \<noteq> [] \<and> fmlookup m ''model'' = Some (JString model) \<and>
    fmlookup m ''store'' \<in> {None, Some (JBool False)} \<and> fmlookup m ''background'' \<in> {None, Some (JBool False)} \<and>
    fmlookup m ''previous_response_id'' \<in> {None, Some JNull} \<and> fmlookup m ''conversation'' \<in> {None, Some JNull} \<and>
    fmlookup m ''context_management'' \<in> {None, Some JNull} \<and>
    (\<forall>items. fmlookup m ''input'' = Some (JArray items) \<longrightarrow> (\<forall>i \<in> set items. \<not> stored_item i)) \<and>
    m' = fmupd ''store'' (JBool False) m"
proof -
  obtain mm where mm: "JObject m = JObject mm" "m' = fmupd ''store'' (JBool False) mm" "fmlookup mm ''model'' = Some (JString model)"
    "model \<noteq> []" "bool_field mm ''store'' \<noteq> Ok (Some True)" "bool_field mm ''background'' \<noteq> Ok (Some True)"
    "\<not> stateful_request mm"
    using assms by (rule normalize_stateless_Ok)
  then have [simp]: "mm = m" by simp
  have bools: "\<exists>x. bool_field m ''store'' = Ok x" "\<exists>x. bool_field m ''background'' = Ok x"
    using assms by (auto simp: normalize_stateless_def split: if_splits)
  have flag: "fmlookup m k \<in> {None, Some (JBool False)}" if "bool_field m k = Ok x" "x \<noteq> Some True" for k x
    using that by (cases "fmlookup m k") (auto simp: bool_field_def)
  have "fmlookup m ''store'' \<in> {None, Some (JBool False)}" "fmlookup m ''background'' \<in> {None, Some (JBool False)}"
    using flag bools mm(5,6) by auto
  moreover have "fmlookup m ''previous_response_id'' \<in> {None, Some JNull}" "fmlookup m ''conversation'' \<in> {None, Some JNull}"
    "fmlookup m ''context_management'' \<in> {None, Some JNull}"
    using mm(7) by (auto simp: stateful_request_def split: option.splits)
  moreover have "\<not> stored_item i" if "fmlookup m ''input'' = Some (JArray items)" "i \<in> set items" for items i
    using mm(7) that by (auto simp: stateful_request_def list_ex_iff)
  ultimately show ?thesis using mm by auto
qed


section \<open>A concrete document\<close>

definition demo_document :: fields where
  "demo_document = fmap_of_list
     [(''model'', JString ''m''), (''x_trace'', JBool True), (''temperature'', JNumber ''0.5''),
      (''input'', JArray
         [obj [(''role'', JString ''user''), (''content'', JArray [obj [(''type'', JString ''input_text''), (''text'', JString ''hi'')]])],
          obj [(''type'', JString ''function_call''), (''call_id'', JString ''c1''), (''name'', JString ''grep''),
               (''arguments'', JString ''{}''), (''status'', JString ''completed'')]]),
      (''tools'', JArray [obj [(''type'', JString ''function''), (''name'', JString ''grep''), (''strict'', JNull)]])]"

lemma demo_document_decodes: "is_ok (decode (\<lambda>_. True) None (JObject demo_document))"
  by code_simp

lemma demo_document_canon: "request_canon (JObject demo_document)"
  by code_simp

lemma demo_document_request: "\<exists>r. decode (\<lambda>_. True) None (JObject demo_document) = Ok r"
  using demo_document_decodes by (simp add: is_ok_iff)

theorem responses_round_trip_witness:
  "\<exists>r. decode (\<lambda>_. True) None (JObject demo_document) = Ok r \<and>
     encode (\<lambda>_. True) None r = Ok (JObject (fmupd ''store'' (JBool False) demo_document))"
proof -
  obtain r where r: "decode (\<lambda>_. True) None (JObject demo_document) = Ok r"
    using demo_document_request by blast
  with responses_round_trip [OF r demo_document_canon] show ?thesis by auto
qed

lemma demo_document_stored:
  "decode (\<lambda>_. True) None (JObject (fmupd ''store'' (JBool False) demo_document)) =
   decode (\<lambda>_. True) None (JObject demo_document)"
proof -
  have "fmupd ''store'' (JBool False) (fmupd ''store'' (JBool False) demo_document) = fmupd ''store'' (JBool False) demo_document"
    by simp
  moreover have "normalize_stateless (JObject demo_document) = Ok (fmupd ''store'' (JBool False) demo_document, ''m'', False)"
    by code_simp
  moreover have "normalize_stateless (JObject (fmupd ''store'' (JBool False) demo_document)) =
      Ok (fmupd ''store'' (JBool False) (fmupd ''store'' (JBool False) demo_document), ''m'', False)"
    by code_simp
  ultimately show ?thesis by (simp add: decode_def)
qed

theorem decode_injective_witness:
  "\<exists>r. decode (\<lambda>_. True) None (JObject demo_document) = Ok r \<and>
     decode (\<lambda>_. True) None (JObject (fmupd ''store'' (JBool False) demo_document)) = Ok r \<and>
     fmupd ''store'' (JBool False) (fmupd ''store'' (JBool False) demo_document) = fmupd ''store'' (JBool False) demo_document"
proof -
  obtain r where r: "decode (\<lambda>_. True) None (JObject demo_document) = Ok r"
    using demo_document_request by blast
  have canon: "request_canon (JObject (fmupd ''store'' (JBool False) demo_document))"
    by code_simp
  from decode_injective [OF _ r canon demo_document_canon] r show ?thesis
    by (simp add: demo_document_stored)
qed

theorem admitted_is_stateless_witness:
  "normalize_stateless (JObject demo_document) = Ok (fmupd ''store'' (JBool False) demo_document, ''m'', False) \<and>
   fmlookup demo_document ''store'' \<in> {None, Some (JBool False)}"
proof -
  have ok: "normalize_stateless (JObject demo_document) = Ok (fmupd ''store'' (JBool False) demo_document, ''m'', False)"
    by code_simp
  from admitted_is_stateless [OF ok] ok show ?thesis by blast
qed

end
