(* ===== verification/Usage_Contract.thy ===== *)
theory Usage_Contract
  imports Json Hex
begin

text \<open>
  Usage accounting, \<open>src/crates/usage-contract/src/lib.rs\<close> and \<open>versioned.rs\<close>: counters with
  their provenance, the extraction of allowlisted counters from a provider's usage object, the
  normalization to canonical counters, the accumulator of a stream of observations, and the
  usage events with their validation and stored form. Counters are 64-bit words and all sums
  are checked. What \<open>serde_json\<close> prints and parses are the functions of the parameter
  \<open>event_serde\<close>, the digest is the parameter \<open>sha256\<close>.
\<close>

section \<open>Counters\<close>

definition FIELDS :: "string list" where
  "FIELDS = [''input_tokens'', ''output_tokens'', ''total_tokens'', ''input_regular_tokens'',
     ''cache_read_input_tokens'', ''cache_write_input_tokens'', ''reasoning_output_tokens'']"

definition MAX_EVENT_BYTES :: nat where "MAX_EVENT_BYTES = 65536"

datatype counter_source = Reported | Derived | NotReported | NotApplicable | Invalid

record counter =
  ct_value :: "u64 option"
  ct_source :: counter_source

definition counter_default :: counter where
  "counter_default = \<lparr>ct_value = None, ct_source = NotReported\<rparr>"

definition invalid_counter :: counter where
  "invalid_counter = \<lparr>ct_value = None, ct_source = Invalid\<rparr>"

definition counter_read :: "json option \<Rightarrow> counter" where
  "counter_read v =
     (case v of
        None \<Rightarrow> counter_default
      | Some JNull \<Rightarrow> counter_default
      | Some v \<Rightarrow>
          (case as_u64 v of
             Some n \<Rightarrow> \<lparr>ct_value = Some n, ct_source = Reported\<rparr>
           | None \<Rightarrow> invalid_counter))"

definition counter_derived :: "u64 option \<Rightarrow> counter" where
  "counter_derived v = \<lparr>ct_value = v, ct_source = (if v \<noteq> None then Derived else Invalid)\<rparr>"

record cache_write_detail =
  cw_ttl_seconds :: u64
  cw_input_tokens :: counter

record canonical_usage =
  cu_counters :: "(string, counter) fmap"
  cu_cache_write_details :: "cache_write_detail list"
  cu_reported :: "(string, counter) fmap"
  cu_violations :: "string list"

definition usage_default :: canonical_usage where
  "usage_default =
     \<lparr>cu_counters = fmap_of_list (map (\<lambda>f. (f, counter_default)) FIELDS),
      cu_cache_write_details = [], cu_reported = fmempty, cu_violations = []\<rparr>"

definition usage_value :: "canonical_usage \<Rightarrow> string \<Rightarrow> u64 option" where
  "usage_value u field = Option.bind (fmlookup (cu_counters u) field) ct_value"

definition put_counter :: "canonical_usage \<Rightarrow> string \<Rightarrow> counter \<Rightarrow> canonical_usage" where
  "put_counter u field c = u\<lparr>cu_counters := fmupd field c (cu_counters u)\<rparr>"

definition violate :: "canonical_usage \<Rightarrow> string \<Rightarrow> canonical_usage" where
  "violate u reason =
     (if reason \<in> set (cu_violations u) then u else u\<lparr>cu_violations := cu_violations u @ [reason]\<rparr>)"

definition usage_invalid :: "canonical_usage \<Rightarrow> string \<Rightarrow> string \<Rightarrow> canonical_usage" where
  "usage_invalid u field reason = violate (put_counter u field invalid_counter) reason"

definition non_read_input_tokens :: "canonical_usage \<Rightarrow> u64 option" where
  "non_read_input_tokens u =
     Option.bind (usage_value u ''input_tokens'') (\<lambda>i.
     Option.bind (usage_value u ''cache_read_input_tokens'') (\<lambda>r. checked_sub i r))"

definition observed :: "canonical_usage \<Rightarrow> bool" where
  "observed u \<longleftrightarrow> any_value (\<lambda>c. ct_value c \<noteq> None) (cu_counters u)"

definition json_opt_u64 :: "u64 option \<Rightarrow> json" where
  "json_opt_u64 v = (case v of None \<Rightarrow> JNull | Some n \<Rightarrow> json_u64 n)"

fun index_put :: "json \<Rightarrow> string \<Rightarrow> string \<Rightarrow> json \<Rightarrow> json" where
  "index_put (JObject m) grp key v =
     JObject (fmupd grp (JObject (fmupd key v
       (case fmlookup m grp of Some (JObject n) \<Rightarrow> n | _ \<Rightarrow> fmempty))) m)"
| "index_put w grp key v = w"

definition usage_responses :: "canonical_usage \<Rightarrow> json" where
  "usage_responses u =
     fold (\<lambda>(field, grp, key) v.
         case usage_value u field of Some n \<Rightarrow> index_put v grp key (json_u64 n) | None \<Rightarrow> v)
       [(''cache_read_input_tokens'', ''input_tokens_details'', ''cached_tokens''),
        (''cache_write_input_tokens'', ''input_tokens_details'', ''cache_write_tokens''),
        (''reasoning_output_tokens'', ''output_tokens_details'', ''reasoning_tokens'')]
       (obj [(''input_tokens'', json_opt_u64 (usage_value u ''input_tokens'')),
             (''output_tokens'', json_opt_u64 (usage_value u ''output_tokens'')),
             (''total_tokens'', json_opt_u64 (usage_value u ''total_tokens''))])"

section \<open>Profiles and paths\<close>

datatype usage_profile = ResponsesV1 | ChatV1 | DeepSeekV1 | MessagesV1 | GeminiInteractionsV1

fun profile_id :: "usage_profile \<Rightarrow> string" where
  "profile_id ResponsesV1 = ''responses/v1''"
| "profile_id ChatV1 = ''chat/v1''"
| "profile_id DeepSeekV1 = ''deepseek/v1''"
| "profile_id MessagesV1 = ''messages/v1''"
| "profile_id GeminiInteractionsV1 = ''gemini_interactions/v1''"

definition chat_paths :: "(string \<times> string) list" where
  "chat_paths =
     [(''input_tokens'', ''prompt_tokens''),
      (''output_tokens'', ''completion_tokens''),
      (''total_tokens'', ''total_tokens''),
      (''cache_read_input_tokens'', ''prompt_tokens_details.cached_tokens''),
      (''reasoning_output_tokens'', ''completion_tokens_details.reasoning_tokens'')]"

fun paths :: "usage_profile \<Rightarrow> (string \<times> string) list" where
  "paths GeminiInteractionsV1 =
     [(''input_tokens'', ''total_input_tokens''),
      (''output_tokens'', ''total_output_tokens''),
      (''reasoning_output_tokens'', ''total_thought_tokens''),
      (''cache_read_input_tokens'', ''total_cached_tokens''),
      (''total_tokens'', ''total_tokens'')]"
| "paths ResponsesV1 =
     [(''input_tokens'', ''input_tokens''),
      (''output_tokens'', ''output_tokens''),
      (''total_tokens'', ''total_tokens''),
      (''cache_read_input_tokens'', ''input_tokens_details.cached_tokens''),
      (''cache_write_input_tokens'', ''input_tokens_details.cache_write_tokens''),
      (''reasoning_output_tokens'', ''output_tokens_details.reasoning_tokens'')]"
| "paths DeepSeekV1 =
     chat_paths @
     [(''cache_read_input_tokens'', ''prompt_cache_hit_tokens''),
      (''input_regular_tokens'', ''prompt_cache_miss_tokens'')]"
| "paths ChatV1 = chat_paths"
| "paths MessagesV1 =
     [(''input_regular_tokens'', ''input_tokens''),
      (''output_tokens'', ''output_tokens''),
      (''cache_read_input_tokens'', ''cache_read_input_tokens''),
      (''cache_write_input_tokens'', ''cache_creation_input_tokens'')]"

definition TTL_PATHS :: "string list" where
  "TTL_PATHS = [''cache_creation.ephemeral_5m_input_tokens'', ''cache_creation.ephemeral_1h_input_tokens'']"

definition profiles :: "usage_profile list" where
  "profiles = [ResponsesV1, ChatV1, DeepSeekV1, MessagesV1, GeminiInteractionsV1]"

definition allowed_path :: "string \<Rightarrow> bool" where
  "allowed_path path \<longleftrightarrow>
     list_ex (\<lambda>p. list_ex (\<lambda>(_, v). v = path) (paths p)) profiles \<or> path \<in> set TTL_PATHS"

fun at_keys :: "json \<Rightarrow> string list \<Rightarrow> json option" where
  "at_keys v [] = Some v"
| "at_keys v (key # keys) = (case jget v key of None \<Rightarrow> None | Some w \<Rightarrow> at_keys w keys)"

definition at_path :: "json \<Rightarrow> string \<Rightarrow> json option" where
  "at_path v path = at_keys v (split_char (CHR ''.'') path)"

definition profile_paths :: "usage_profile \<Rightarrow> string list" where
  "profile_paths p = map snd (paths p) @ (if p = MessagesV1 then TTL_PATHS else [])"

definition extract_path :: "json \<Rightarrow> string \<Rightarrow> (string, counter) fmap \<Rightarrow> (string, counter) fmap" where
  "extract_path v path m = (case at_path v path of Some w \<Rightarrow> fmupd path (counter_read (Some w)) m | None \<Rightarrow> m)"

definition extract_counters :: "usage_profile \<Rightarrow> json \<Rightarrow> (string, counter) fmap" where
  "extract_counters p v =
     (if \<not> is_object v then fmap_of_list (map (\<lambda>(_, path). (path, invalid_counter)) (paths p))
      else fold (extract_path v) (profile_paths p) fmempty)"

section \<open>Normalization\<close>

definition read_path :: "string \<times> string \<Rightarrow> canonical_usage \<Rightarrow> canonical_usage" where
  "read_path = (\<lambda>(field, path) u.
     case fmlookup (cu_reported u) path of Some c \<Rightarrow> put_counter u field c | None \<Rightarrow> u)"

definition any_invalid :: "canonical_usage \<Rightarrow> bool" where
  "any_invalid u \<longleftrightarrow> any_value (\<lambda>c. ct_source c = Invalid) (cu_counters u)"

definition reported_value :: "canonical_usage \<Rightarrow> string \<Rightarrow> u64 option" where
  "reported_value u path = Option.bind (fmlookup (cu_reported u) path) ct_value"

definition check_alias :: "canonical_usage \<Rightarrow> canonical_usage" where
  "check_alias u =
     (case (reported_value u ''prompt_tokens_details.cached_tokens'', reported_value u ''prompt_cache_hit_tokens'') of
        (Some a, Some b) \<Rightarrow>
          if a \<noteq> b then usage_invalid u ''cache_read_input_tokens'' ''cache_alias_mismatch'' else u
      | _ \<Rightarrow> u)"

definition check_hit_miss :: "canonical_usage \<Rightarrow> canonical_usage" where
  "check_hit_miss u =
     (case (reported_value u ''prompt_cache_hit_tokens'', usage_value u ''input_regular_tokens'',
            usage_value u ''input_tokens'') of
        (Some hit, Some miss, Some input) \<Rightarrow>
          if checked_add hit miss \<noteq> Some input then usage_invalid u ''input_regular_tokens'' ''input_partition'' else u
      | _ \<Rightarrow> u)"

definition derive_output :: "canonical_usage \<Rightarrow> canonical_usage" where
  "derive_output u =
     put_counter u ''output_tokens''
       (case (usage_value u ''output_tokens'', usage_value u ''reasoning_output_tokens'') of
          (Some regular, Some thought) \<Rightarrow> counter_derived (checked_add regular thought)
        | _ \<Rightarrow> counter_default)"

definition derive_input :: "canonical_usage \<Rightarrow> canonical_usage" where
  "derive_input u =
     (case (usage_value u ''input_regular_tokens'', usage_value u ''cache_read_input_tokens'',
            usage_value u ''cache_write_input_tokens'') of
        (Some a, Some b, Some c) \<Rightarrow>
          put_counter u ''input_tokens''
            (counter_derived (Option.bind (checked_add a b) (\<lambda>n. checked_add n c)))
      | _ \<Rightarrow> u)"

definition push_detail :: "u64 \<times> string \<Rightarrow> canonical_usage \<Rightarrow> canonical_usage" where
  "push_detail = (\<lambda>(ttl, path) u.
     case fmlookup (cu_reported u) path of
       Some c \<Rightarrow> u\<lparr>cu_cache_write_details :=
         cu_cache_write_details u @ [\<lparr>cw_ttl_seconds = ttl, cw_input_tokens = c\<rparr>]\<rparr>
     | None \<Rightarrow> u)"

definition ttl_sum :: "cache_write_detail list \<Rightarrow> u64 option" where
  "ttl_sum ds = fold (\<lambda>d acc. Option.bind acc (\<lambda>s.
     Option.bind (ct_value (cw_input_tokens d)) (\<lambda>v. checked_add s v))) ds (Some 0)"

definition check_ttl :: "canonical_usage \<Rightarrow> canonical_usage" where
  "check_ttl u =
     (if length (cu_cache_write_details u) = 2 then
        (case (ttl_sum (cu_cache_write_details u), usage_value u ''cache_write_input_tokens'') of
           (Some s, Some t) \<Rightarrow>
             if s \<noteq> t then usage_invalid u ''cache_write_input_tokens'' ''ttl_mismatch'' else u
         | _ \<Rightarrow> u)
      else u)"

definition check_partition :: "usage_profile \<Rightarrow> canonical_usage \<Rightarrow> canonical_usage" where
  "check_partition p u =
     (case (usage_value u ''input_tokens'', usage_value u ''cache_read_input_tokens'',
            usage_value u ''cache_write_input_tokens'') of
        (Some input, Some read, Some write) \<Rightarrow>
          (case Option.bind (checked_sub input read) (\<lambda>n. checked_sub n write) of
             Some regular \<Rightarrow>
               if p \<noteq> MessagesV1 then put_counter u ''input_regular_tokens'' (counter_derived (Some regular)) else u
           | None \<Rightarrow>
               usage_invalid (usage_invalid u ''cache_read_input_tokens'' ''input_partition'')
                 ''cache_write_input_tokens'' ''input_partition'')
      | _ \<Rightarrow> u)"

definition check_subset :: "string \<times> string \<Rightarrow> canonical_usage \<Rightarrow> canonical_usage" where
  "check_subset = (\<lambda>(field, parent) u.
     case (usage_value u field, usage_value u parent) of
       (Some n, Some limit) \<Rightarrow> if n > limit then usage_invalid u field ''subset_exceeds_total'' else u
     | _ \<Rightarrow> u)"

definition check_total :: "canonical_usage \<Rightarrow> canonical_usage" where
  "check_total u =
     (case (usage_value u ''input_tokens'', usage_value u ''output_tokens'') of
        (Some a, Some b) \<Rightarrow>
          (case usage_value u ''total_tokens'' of
             Some t \<Rightarrow>
               if checked_add a b \<noteq> Some t then usage_invalid u ''total_tokens'' ''total_mismatch'' else u
           | None \<Rightarrow>
               if map_option ct_source (fmlookup (cu_counters u) ''total_tokens'') = Some NotReported
               then put_counter u ''total_tokens'' (counter_derived (checked_add a b)) else u)
      | _ \<Rightarrow> u)"

definition flag_invalid :: "canonical_usage \<Rightarrow> canonical_usage" where
  "flag_invalid u = (if any_invalid u then violate u ''invalid_counter'' else u)"

definition profile_checks :: "usage_profile \<Rightarrow> canonical_usage \<Rightarrow> canonical_usage" where
  "profile_checks p u =
     (case p of
        DeepSeekV1 \<Rightarrow> check_hit_miss (check_alias u)
      | GeminiInteractionsV1 \<Rightarrow> derive_output u
      | MessagesV1 \<Rightarrow> check_ttl (fold push_detail (zip [300, 3600] TTL_PATHS) (derive_input u))
      | _ \<Rightarrow> u)"

definition normalize :: "usage_profile \<Rightarrow> (string, counter) fmap \<Rightarrow> canonical_usage" where
  "normalize p reported =
     flag_invalid (check_total
       (fold check_subset
          [(''cache_read_input_tokens'', ''input_tokens''),
           (''cache_write_input_tokens'', ''input_tokens''),
           (''reasoning_output_tokens'', ''output_tokens'')]
          (check_partition p (profile_checks p
            (flag_invalid (fold read_path (paths p) (usage_default\<lparr>cu_reported := reported\<rparr>)))))))"

section \<open>Validation of canonical usage\<close>

definition counter_ok :: "counter \<Rightarrow> bool" where
  "counter_ok c \<longleftrightarrow> (if ct_value c \<noteq> None then ct_source c \<in> {Reported, Derived}
     else ct_source c \<in> {NotReported, NotApplicable, Invalid})"

definition VIOLATIONS :: "string list" where
  "VIOLATIONS = [''invalid_counter'', ''input_partition'', ''total_mismatch'', ''subset_exceeds_total'',
     ''ttl_mismatch'', ''counter_decreased'']"

definition usage_validate :: "canonical_usage \<Rightarrow> bool" where
  "usage_validate u \<longleftrightarrow>
     fcard (fmdom (cu_counters u)) = length FIELDS \<and>
     list_all (\<lambda>f. fmlookup (cu_counters u) f \<noteq> None) FIELDS \<and>
     fmpred (\<lambda>_. counter_ok) (cu_counters u) \<and> fmpred (\<lambda>_. counter_ok) (cu_reported u) \<and>
     list_all (\<lambda>d. counter_ok (cw_input_tokens d)) (cu_cache_write_details u) \<and>
     length (cu_cache_write_details u) \<le> 16 \<and>
     fcard (fmdom (cu_reported u)) \<le> 16 \<and>
     length (cu_violations u) \<le> 32 \<and>
     fmpred (\<lambda>k _. allowed_path k) (cu_reported u) \<and>
     list_all (\<lambda>v. v \<in> set VIOLATIONS) (cu_violations u)"

section \<open>Accumulation\<close>

record accumulator =
  ac_profile :: usage_profile
  ac_reported :: "(string, counter) fmap"
  ac_usage :: canonical_usage
  ac_incomplete :: bool

definition accumulator_new :: "usage_profile \<Rightarrow> accumulator" where
  "accumulator_new p =
     \<lparr>ac_profile = p, ac_reported = fmempty, ac_usage = usage_default, ac_incomplete = False\<rparr>"

definition observe_path :: "string \<times> counter \<Rightarrow> accumulator \<times> bool \<Rightarrow> accumulator \<times> bool" where
  "observe_path = (\<lambda>(path, c) (a, decreased).
     if path \<notin> set (profile_paths (ac_profile a)) then (a\<lparr>ac_incomplete := True\<rparr>, decreased)
     else
       (case (Option.bind (fmlookup (ac_reported a) path) ct_value, ct_value c) of
          (Some old, Some new) \<Rightarrow>
            if new < old then (a\<lparr>ac_reported := fmupd path invalid_counter (ac_reported a)\<rparr>, True)
            else (a\<lparr>ac_reported := fmupd path c (ac_reported a)\<rparr>, decreased)
        | _ \<Rightarrow> (a\<lparr>ac_reported := fmupd path c (ac_reported a)\<rparr>, decreased)))"

definition observe_counters :: "accumulator \<Rightarrow> (string, counter) fmap \<Rightarrow> bool \<times> accumulator" where
  "observe_counters a counters =
     (let (a, decreased) = fold observe_path (sorted_list_of_fmap counters) (a, False);
          u = normalize (ac_profile a) (ac_reported a);
          u' = (if decreased then u\<lparr>cu_violations := cu_violations u @ [''counter_decreased'']\<rparr> else u)
      in (u' \<noteq> ac_usage a, a\<lparr>ac_incomplete := ac_incomplete a \<or> decreased, ac_usage := u'\<rparr>))"

definition observe :: "accumulator \<Rightarrow> json \<Rightarrow> bool \<times> accumulator" where
  "observe a v =
     observe_counters (a\<lparr>ac_incomplete := ac_incomplete a \<or> \<not> is_object v\<rparr>) (extract_counters (ac_profile a) v)"
section \<open>Usage events\<close>

datatype event_kind = AttemptStarted | UsageUpdated | AttemptFinished
datatype finality = Unobserved | Partial | Final
datatype usage_outcome = UnknownOutcome | InProgress | Completed | Incomplete | Failed | Cancelled | TransportLost
  | ConversionFailed | ObservationIncomplete

record usage_interpretation =
  in_kind :: string
  in_protocol :: string
  in_provider_protocol :: string
  in_package_id :: string
  in_package_version :: string
  in_package_sha256 :: string
  in_executable_sha256 :: string

text \<open>\<open>UsageEvent\<close> and \<open>UsageEventV2\<close> have the same fields but for one: the first names the built-in
  profile its counters were read with, the second the provider package that interpreted them.\<close>

record 'p event_of =
  ue_schema :: string
  ue_producer_id :: string
  ue_request_id :: string
  ue_attempt_id :: string
  ue_event_id :: string
  ue_revision :: u64
  ue_kind :: event_kind
  ue_started_at_ms :: u64
  ue_observed_at_ms :: u64
  ue_provider :: string
  ue_model_alias :: string
  ue_upstream_model :: string
  ue_reported_model :: "string option"
  ue_provider_request_id :: "string option"
  ue_provider_response_id :: "string option"
  ue_profile :: 'p
  ue_configuration_sha256 :: string
  ue_upstream :: usage_outcome
  ue_gateway :: usage_outcome
  ue_finality :: finality
  ue_observation_incomplete :: bool
  ue_usage :: canonical_usage

type_synonym usage_event = "usage_profile event_of"
type_synonym usage_event_v2 = "usage_interpretation event_of"

definition SCHEMA :: string where "SCHEMA = ''gateway-usage-event/v1''"
definition SCHEMA_V2 :: string where "SCHEMA_V2 = ''gateway-usage-event/v2''"

definition safe_label :: "string \<Rightarrow> bool" where
  "safe_label v \<longleftrightarrow> v \<noteq> [] \<and> length v \<le> 200 \<and>
     list_all (\<lambda>b. is_ascii_alphanumeric b \<or> b \<in> set ''-_/.:'') v"

definition hex_digest :: "string \<Rightarrow> bool" where
  "hex_digest v \<longleftrightarrow> length v = 64 \<and> list_all is_lower_hex v"

definition event_labels_ok :: "'p event_of \<Rightarrow> bool" where
  "event_labels_ok e \<longleftrightarrow>
     list_all safe_label [ue_producer_id e, ue_request_id e, ue_attempt_id e, ue_event_id e,
       ue_provider e, ue_model_alias e, ue_upstream_model e] \<and>
     list_all (pred_option safe_label) [ue_reported_model e, ue_provider_request_id e, ue_provider_response_id e] \<and>
     hex_digest (ue_configuration_sha256 e)"

definition event_header_ok :: "'p event_of \<Rightarrow> bool" where
  "event_header_ok e \<longleftrightarrow>
     event_labels_ok e \<and>
     ue_started_at_ms e \<le> ue_observed_at_ms e \<and>
     (ue_kind e \<noteq> AttemptStarted \<or> ue_revision e = 0) \<and>
     (ue_kind e = AttemptStarted \<or> 0 < ue_revision e)"

definition event_consistent :: "usage_event \<Rightarrow> bool" where
  "event_consistent e \<longleftrightarrow>
     (let u = ue_usage e; n = normalize (ue_profile e) (cu_reported u) in
        cu_counters u = cu_counters n \<and> cu_cache_write_details u = cu_cache_write_details n \<and>
        filter (\<lambda>v. v \<noteq> ''counter_decreased'') (cu_violations u) = cu_violations n \<and>
        fmpred (\<lambda>_ c. ct_source c \<noteq> Derived \<and> ct_source c \<noteq> NotApplicable) (cu_reported u))"

definition usage_event_validate :: "usage_event \<Rightarrow> bool" where
  "usage_event_validate e \<longleftrightarrow>
     ue_schema e = SCHEMA \<and> event_consistent e \<and> event_header_ok e \<and> usage_validate (ue_usage e)"

definition package_version_part :: "string \<Rightarrow> bool" where
  "package_version_part p \<longleftrightarrow> p \<noteq> [] \<and> length p \<le> 6 \<and> (length p = 1 \<or> \<not> starts_with ''0'' p) \<and>
     list_all is_ascii_digit p"

definition interpretation_validate :: "usage_interpretation \<Rightarrow> bool" where
  "interpretation_validate i =
     (case split_once ''/v'' (in_provider_protocol i) of
        None \<Rightarrow> False
      | Some (name, v) \<Rightarrow>
          in_kind i = ''trusted_provider_plugin'' \<and> in_protocol i = ''gateway-provider/v1'' \<and>
          name \<noteq> [] \<and> length name \<le> 64 \<and> is_ascii_lowercase (hd name) \<and>
          list_all (\<lambda>b. is_ascii_lowercase b \<or> is_ascii_digit b \<or> b \<in> set ''._-'') name \<and>
          1 \<le> length v \<and> length v \<le> 6 \<and> is_ascii_digit (hd v) \<and> hd v \<noteq> CHR ''0'' \<and> list_all is_ascii_digit v \<and>
          in_package_id i \<noteq> [] \<and> length (in_package_id i) \<le> 64 \<and> is_ascii_lowercase (hd (in_package_id i)) \<and>
          list_all (\<lambda>b. is_ascii_lowercase b \<or> is_ascii_digit b \<or> b = CHR ''-'') (in_package_id i) \<and>
          length (split_char (CHR ''.'') (in_package_version i)) = 3 \<and>
          list_all package_version_part (split_char (CHR ''.'') (in_package_version i)) \<and>
          hex_digest (in_package_sha256 i) \<and> hex_digest (in_executable_sha256 i))"

definition PARTS :: "string list" where
  "PARTS = [''input_regular_tokens'', ''cache_read_input_tokens'', ''cache_write_input_tokens'']"

definition add_part :: "canonical_usage \<Rightarrow> string \<Rightarrow> u64 option \<Rightarrow> u64 option" where
  "add_part u f acc =
     (case acc of
        None \<Rightarrow> None
      | Some s \<Rightarrow> (case usage_value u f of Some n \<Rightarrow> checked_add s n | None \<Rightarrow> Some s))"

definition provider_usage_valid :: "canonical_usage \<Rightarrow> bool" where
  "provider_usage_valid u \<longleftrightarrow>
     usage_validate u \<and> cu_reported u = fmempty \<and> cu_cache_write_details u = [] \<and>
     (case (usage_value u ''input_tokens'', usage_value u ''output_tokens'', usage_value u ''total_tokens'') of
        (Some i, Some out, Some t) \<Rightarrow> checked_add i out = Some t
      | _ \<Rightarrow> True) \<and>
     (case usage_value u ''input_tokens'' of
        None \<Rightarrow> True
      | Some i \<Rightarrow>
          (case fold (add_part u) PARTS (Some 0) of
             None \<Rightarrow> False
           | Some s \<Rightarrow> s \<le> i \<and> (list_all (\<lambda>f. usage_value u f \<noteq> None) PARTS \<longrightarrow> s = i))) \<and>
     (case (usage_value u ''reasoning_output_tokens'', usage_value u ''output_tokens'') of
        (Some r, Some out) \<Rightarrow> r \<le> out
      | _ \<Rightarrow> True)"

definition usage_event_v2_validate :: "usage_event_v2 \<Rightarrow> bool" where
  "usage_event_v2_validate e \<longleftrightarrow>
     ue_schema e = SCHEMA_V2 \<and> interpretation_validate (ue_profile e) \<and> provider_usage_valid (ue_usage e) \<and>
     event_header_ok e \<and> usage_validate (ue_usage e)"

section \<open>Stored events\<close>

datatype recorded_event = V1 usage_event | V2 usage_event_v2

record event_serde =
  es_v1 :: "usage_event \<Rightarrow> json"
  es_v2 :: "usage_event_v2 \<Rightarrow> json"
  es_text :: "json \<Rightarrow> string"
  es_parse :: "string \<Rightarrow> json option"
  es_from_v1 :: "json \<Rightarrow> usage_event option"
  es_from_v2 :: "json \<Rightarrow> usage_event_v2 option"

definition encoded :: "bool \<Rightarrow> string \<Rightarrow> string + string" where
  "encoded valid bytes =
     (if \<not> valid then Err ''invalid_usage_event''
      else if length bytes > MAX_EVENT_BYTES then Err ''usage_event_too_large''
      else Ok bytes)"

fun recorded_validate :: "recorded_event \<Rightarrow> bool" where
  "recorded_validate (V1 e) = usage_event_validate e"
| "recorded_validate (V2 e) = usage_event_v2_validate e"

fun recorded_bytes :: "event_serde \<Rightarrow> recorded_event \<Rightarrow> string + string" where
  "recorded_bytes es (V1 e) = encoded (usage_event_validate e) (es_text es (es_v1 es e))"
| "recorded_bytes es (V2 e) = encoded (usage_event_v2_validate e) (es_text es (es_v2 es e))"

definition recorded_deserialize :: "event_serde \<Rightarrow> string \<Rightarrow> recorded_event option" where
  "recorded_deserialize es bytes =
     Option.bind (es_parse es bytes) (\<lambda>v.
       if str_at v ''schema'' = Some SCHEMA then map_option V1 (es_from_v1 es v)
       else if str_at v ''schema'' = Some SCHEMA_V2 then map_option V2 (es_from_v2 es v)
       else None)"

definition event_digest :: "(string \<Rightarrow> string) \<Rightarrow> string \<Rightarrow> string" where
  "event_digest sha256 bytes = hex (sha256 bytes)"

definition from_stored_bytes :: "event_serde \<Rightarrow> (string \<Rightarrow> string) \<Rightarrow> string \<Rightarrow> string \<Rightarrow> string + recorded_event" where
  "from_stored_bytes es sha256 bytes digest =
     (if length bytes > MAX_EVENT_BYTES \<or> event_digest sha256 bytes \<noteq> digest then Err ''stored_usage_integrity''
      else case recorded_deserialize es bytes of
        None \<Rightarrow> Err ''stored_usage_integrity''
      | Some event \<Rightarrow>
          (case recorded_bytes es event of
             Inl _ \<Rightarrow> Err ''stored_usage_integrity''
           | Inr b \<Rightarrow> if b \<noteq> bytes then Err ''stored_usage_integrity'' else Ok event))"

fun recorded_usage :: "recorded_event \<Rightarrow> canonical_usage" where
  "recorded_usage (V1 e) = ue_usage e"
| "recorded_usage (V2 e) = ue_usage e"

fun is_v2 :: "recorded_event \<Rightarrow> bool" where
  "is_v2 (V1 e) = False"
| "is_v2 (V2 e) = True"

fun as_v1 :: "recorded_event \<Rightarrow> usage_event option" where
  "as_v1 (V1 e) = Some e"
| "as_v1 (V2 e) = None"

definition event_view :: "'p event_of \<Rightarrow> unit event_of" where
  "event_view e =
     \<lparr>ue_schema = [], ue_producer_id = ue_producer_id e, ue_request_id = ue_request_id e,
      ue_attempt_id = ue_attempt_id e, ue_event_id = ue_event_id e, ue_revision = ue_revision e,
      ue_kind = ue_kind e, ue_started_at_ms = ue_started_at_ms e, ue_observed_at_ms = ue_observed_at_ms e,
      ue_provider = ue_provider e, ue_model_alias = ue_model_alias e, ue_upstream_model = ue_upstream_model e,
      ue_reported_model = ue_reported_model e, ue_provider_request_id = ue_provider_request_id e,
      ue_provider_response_id = ue_provider_response_id e, ue_profile = (),
      ue_configuration_sha256 = ue_configuration_sha256 e, ue_upstream = ue_upstream e,
      ue_gateway = ue_gateway e, ue_finality = ue_finality e,
      ue_observation_incomplete = ue_observation_incomplete e, ue_usage = ue_usage e\<rparr>"

fun recorded_view :: "recorded_event \<Rightarrow> unit event_of" where
  "recorded_view (V1 e) = event_view e"
| "recorded_view (V2 e) = event_view e"

section \<open>Recorder configuration\<close>

datatype recorder_mode = Off | BestEffort | DurableLocal

record recorder_binding =
  rb_store_id :: string
  rb_mode :: recorder_mode
  rb_queue_capacity :: nat
  rb_ack_timeout_ms :: u64
  rb_config_sha256 :: string

definition recorder_binding_validate :: "recorder_binding \<Rightarrow> bool" where
  "recorder_binding_validate b \<longleftrightarrow>
     length (rb_store_id b) \<le> 64 \<and>
     list_all (\<lambda>c. is_ascii_lowercase c \<or> is_ascii_digit c \<or> c = CHR ''-'') (rb_store_id b) \<and>
     rb_store_id b \<noteq> [] \<and> 2 \<le> rb_queue_capacity b \<and> rb_queue_capacity b \<le> 4096 \<and>
     1 \<le> rb_ack_timeout_ms b \<and> rb_ack_timeout_ms b \<le> 60000 \<and> length (rb_config_sha256 b) = 64"

section \<open>Laws of the phases\<close>

lemma usage_value_put [simp]:
  "usage_value (put_counter u f c) g = (if g = f then ct_value c else usage_value u g)"
  by (simp add: usage_value_def put_counter_def)

lemma usage_value_violate [simp]: "usage_value (violate u r) g = usage_value u g"
  by (simp add: usage_value_def violate_def)

lemma usage_value_invalid [simp]:
  "usage_value (usage_invalid u f r) g = (if g = f then None else usage_value u g)"
  by (simp add: usage_invalid_def invalid_counter_def)

lemma usage_value_flag [simp]: "usage_value (flag_invalid u) g = usage_value u g"
  by (simp add: flag_invalid_def)

lemma ct_value_derived [simp]: "ct_value (counter_derived v) = v"
  by (simp add: counter_derived_def)

lemma check_subset_value [simp]:
  "usage_value (check_subset (f, parent) u) g =
     (if g = f \<and> (\<exists>n m. usage_value u f = Some n \<and> usage_value u parent = Some m \<and> m < n)
      then None else usage_value u g)"
  by (auto simp: check_subset_def split: option.splits)

lemma check_total_value [simp]:
  "g \<noteq> ''total_tokens'' \<Longrightarrow> usage_value (check_total u) g = usage_value u g"
  by (auto simp: check_total_def split: option.splits)

lemma check_total_sum:
  assumes "usage_value (check_total u) ''input_tokens'' = Some i"
    and "usage_value (check_total u) ''output_tokens'' = Some out"
    and "usage_value (check_total u) ''total_tokens'' = Some t"
  shows "unat t = unat i + unat out"
proof -
  have "usage_value u ''input_tokens'' = Some i" "usage_value u ''output_tokens'' = Some out"
    using assms(1,2) by simp_all
  with assms(3) show ?thesis
    by (auto simp: check_total_def checked_add_Some split: option.splits if_splits)
qed

text \<open>A check that finds a contradiction removes values and never changes one.\<close>

definition only_removes :: "canonical_usage \<Rightarrow> canonical_usage \<Rightarrow> bool" where
  "only_removes u u' \<longleftrightarrow> (\<forall>g. g \<noteq> ''total_tokens'' \<longrightarrow> usage_value u' g = usage_value u g \<or> usage_value u' g = None)"

definition partition_ok :: "canonical_usage \<Rightarrow> bool" where
  "partition_ok u \<longleftrightarrow>
     (\<forall>i g r w. usage_value u ''input_tokens'' = Some i \<and> usage_value u ''input_regular_tokens'' = Some g \<and>
        usage_value u ''cache_read_input_tokens'' = Some r \<and> usage_value u ''cache_write_input_tokens'' = Some w \<longrightarrow>
        unat i = unat g + unat r + unat w)"

lemma partition_ok_removed: "partition_ok u \<Longrightarrow> only_removes u u' \<Longrightarrow> partition_ok u'"
proof -
  assume ok: "partition_ok u" and removes: "only_removes u u'"
  have "usage_value u g = Some v" if "usage_value u' g = Some v" "g \<noteq> ''total_tokens''" for g v
    using removes that unfolding only_removes_def by fastforce
  with ok show ?thesis by (simp add: partition_ok_def)
qed

lemma only_removes_check_ttl: "only_removes u (check_ttl u)"
  by (auto simp: only_removes_def check_ttl_def split: option.splits)

lemma usage_value_push_detail [simp]: "usage_value (push_detail d u) g = usage_value u g"
  by (auto simp: push_detail_def usage_value_def split: prod.splits option.splits)

lemma usage_value_push_details [simp]: "usage_value (fold push_detail ds u) g = usage_value u g"
  by (induction ds arbitrary: u) simp_all

lemma partition_ok_derive_input: "partition_ok (derive_input u)"
  by (auto simp: partition_ok_def derive_input_def checked_add_Some bind_eq_Some_conv split: option.splits)

lemma partition_ok_values: "(\<And>g. usage_value u g = usage_value u' g) \<Longrightarrow> partition_ok u \<longleftrightarrow> partition_ok u'"
  by (simp add: partition_ok_def)

lemma partition_ok_profile_checks: "partition_ok (profile_checks MessagesV1 u)"
proof -
  have "partition_ok (fold push_detail (zip [300, 3600] TTL_PATHS) (derive_input u))"
    using partition_ok_derive_input [of u]
      partition_ok_values [of "fold push_detail (zip [300, 3600] TTL_PATHS) (derive_input u)" "derive_input u"]
    by simp
  then show ?thesis
    by (simp add: profile_checks_def partition_ok_removed [OF _ only_removes_check_ttl])
qed

lemma partition_ok_check_partition:
  assumes "p = MessagesV1 \<Longrightarrow> partition_ok u"
  shows "partition_ok (check_partition p u)"
proof (cases "p = MessagesV1")
  case True
  with assms have "partition_ok u" by simp
  moreover have "only_removes u (check_partition p u)"
    using True by (auto simp: only_removes_def check_partition_def split: option.splits)
  ultimately show ?thesis by (rule partition_ok_removed)
next
  case False
  then show ?thesis
    by (auto simp: partition_ok_def check_partition_def checked_sub_Some bind_eq_Some_conv split: option.splits)
qed

lemma normalize_partition: "partition_ok (normalize p reported)"
proof -
  define u where "u = check_partition p (profile_checks p
    (flag_invalid (fold read_path (paths p) (usage_default\<lparr>cu_reported := reported\<rparr>))))"
  have "partition_ok u"
    unfolding u_def by (rule partition_ok_check_partition) (simp add: partition_ok_profile_checks)
  moreover have "only_removes u (normalize p reported)"
    by (auto simp: only_removes_def normalize_def u_def [symmetric])
  ultimately show ?thesis by (rule partition_ok_removed)
qed
subsection \<open>Shape\<close>

definition usage_shape :: "canonical_usage \<Rightarrow> bool" where
  "usage_shape u \<longleftrightarrow>
     (\<forall>k. fmlookup (cu_counters u) k \<noteq> None \<longleftrightarrow> k \<in> set FIELDS) \<and>
     fmpred (\<lambda>_. counter_ok) (cu_counters u) \<and> distinct (cu_violations u) \<and>
     set (cu_violations u) \<subseteq> insert ''cache_alias_mismatch'' (set VIOLATIONS - {''counter_decreased''})"

definition alias_flagged :: "canonical_usage \<Rightarrow> bool" where
  "alias_flagged u \<longleftrightarrow> ''cache_alias_mismatch'' \<in> set (cu_violations u)"

lemma counter_ok_simps [simp]:
  "counter_ok counter_default" "counter_ok invalid_counter" "counter_ok (counter_derived v)"
  "counter_ok (counter_read w)"
  by (simp_all add: counter_ok_def counter_default_def invalid_counter_def counter_derived_def
      counter_read_def split: option.splits json.splits)

lemma usage_shape_put [simp]:
  "usage_shape u \<Longrightarrow> f \<in> set FIELDS \<Longrightarrow> counter_ok c \<Longrightarrow> usage_shape (put_counter u f c)"
  by (auto simp: usage_shape_def put_counter_def fmpred_iff)

lemma usage_shape_violate [simp]:
  "usage_shape u \<Longrightarrow> r \<in> insert ''cache_alias_mismatch'' (set VIOLATIONS - {''counter_decreased''}) \<Longrightarrow>
     usage_shape (violate u r)"
  by (auto simp: usage_shape_def violate_def)

lemma put_counter_other [simp]:
  "cu_reported (put_counter u f c) = cu_reported u" "cu_violations (put_counter u f c) = cu_violations u"
  "cu_cache_write_details (put_counter u f c) = cu_cache_write_details u"
  by (simp_all add: put_counter_def)

lemma violate_other [simp]:
  "cu_reported (violate u r) = cu_reported u" "cu_counters (violate u r) = cu_counters u"
  "cu_cache_write_details (violate u r) = cu_cache_write_details u"
  "set (cu_violations (violate u r)) = insert r (set (cu_violations u))"
  by (auto simp: violate_def)

lemma usage_invalid_other [simp]:
  "cu_reported (usage_invalid u f r) = cu_reported u"
  "cu_cache_write_details (usage_invalid u f r) = cu_cache_write_details u"
  "set (cu_violations (usage_invalid u f r)) = insert r (set (cu_violations u))"
  by (simp_all add: usage_invalid_def)

text \<open>What every phase of the normalization keeps: the shape, the reported counters, and, but for
  the comparison of the two cache counters, whether an alias conflict was flagged.\<close>

definition keeps_shape :: "(canonical_usage \<Rightarrow> canonical_usage) \<Rightarrow> bool" where
  "keeps_shape f \<longleftrightarrow> (\<forall>u. (usage_shape u \<longrightarrow> usage_shape (f u)) \<and> cu_reported (f u) = cu_reported u)"

definition keeps_rest :: "(canonical_usage \<Rightarrow> canonical_usage) \<Rightarrow> bool" where
  "keeps_rest f \<longleftrightarrow> (\<forall>u. alias_flagged (f u) = alias_flagged u \<and>
     cu_cache_write_details (f u) = cu_cache_write_details u)"

lemmas field_simps' = FIELDS_def VIOLATIONS_def usage_invalid_def

lemma keeps_shape_phases:
  "keeps_shape flag_invalid" "keeps_shape check_total" "keeps_shape (check_partition p)"
  "keeps_shape check_alias" "keeps_shape check_hit_miss" "keeps_shape derive_output"
  "keeps_shape derive_input" "keeps_shape check_ttl" "keeps_shape (push_detail d)"
  by (simp_all add: keeps_shape_def flag_invalid_def check_total_def check_partition_def check_alias_def
      check_hit_miss_def derive_output_def derive_input_def check_ttl_def field_simps' split: option.splits)
    (auto simp: push_detail_def usage_shape_def split: option.splits prod.splits)

lemma keeps_shape_check_subset:
  "f \<in> set FIELDS \<Longrightarrow> keeps_shape (check_subset (f, parent))"
  by (simp add: keeps_shape_def check_subset_def usage_invalid_def VIOLATIONS_def split: option.splits)

lemma keeps_rest_phases:
  "keeps_rest flag_invalid" "keeps_rest check_total" "keeps_rest (check_partition p)"
  "keeps_rest check_hit_miss" "keeps_rest derive_output" "keeps_rest derive_input" "keeps_rest check_ttl"
  "keeps_rest (check_subset fp)"
  by (auto simp: keeps_rest_def alias_flagged_def flag_invalid_def check_total_def check_partition_def
      check_hit_miss_def derive_output_def derive_input_def check_ttl_def check_subset_def split: option.splits prod.splits)
subsection \<open>The whole normalization\<close>

lemma keeps_shapeD: "keeps_shape f \<Longrightarrow> usage_shape u \<Longrightarrow> usage_shape (f u)"
  and keeps_shape_reported: "keeps_shape f \<Longrightarrow> cu_reported (f u) = cu_reported u"
  and keeps_rest_alias: "keeps_rest f \<Longrightarrow> alias_flagged (f u) = alias_flagged u"
  and keeps_rest_details: "keeps_rest f \<Longrightarrow> cu_cache_write_details (f u) = cu_cache_write_details u"
  by (simp_all add: keeps_shape_def keeps_rest_def)

lemmas phase_facts [simp] = keeps_shape_phases keeps_shape_check_subset keeps_rest_phases

text \<open>The counters a profile may report, each in one of the three forms extraction produces.\<close>

definition wire_counter :: "counter \<Rightarrow> bool" where
  "wire_counter c \<longleftrightarrow> counter_ok c \<and> ct_source c \<in> {Reported, NotReported, Invalid}"

definition reported_ok :: "usage_profile \<Rightarrow> (string, counter) fmap \<Rightarrow> bool" where
  "reported_ok p m \<longleftrightarrow> fmpred (\<lambda>k c. k \<in> set (profile_paths p) \<and> wire_counter c) m"

definition alias_conflict :: "usage_profile \<Rightarrow> (string, counter) fmap \<Rightarrow> bool" where
  "alias_conflict p m \<longleftrightarrow> p = DeepSeekV1 \<and>
     (\<exists>a b x y. fmlookup m ''prompt_tokens_details.cached_tokens'' = Some a \<and> ct_value a = Some x \<and>
        fmlookup m ''prompt_cache_hit_tokens'' = Some b \<and> ct_value b = Some y \<and> x \<noteq> y)"

lemma usage_shape_default: "usage_shape (usage_default\<lparr>cu_reported := m\<rparr>)"
  by (auto simp: usage_shape_def usage_default_def fmpred_iff fmlookup_of_list FIELDS_def split: if_splits)

lemma read_paths_keep:
  assumes "usage_shape u" and "fst ` set ps \<subseteq> set FIELDS" and "fmpred (\<lambda>_. counter_ok) (cu_reported u)"
  shows "usage_shape (fold read_path ps u) \<and> cu_reported (fold read_path ps u) = cu_reported u \<and>
    cu_violations (fold read_path ps u) = cu_violations u \<and>
    cu_cache_write_details (fold read_path ps u) = cu_cache_write_details u"
  using assms
proof (induction ps arbitrary: u)
  case (Cons q ps)
  have "usage_shape (read_path q u)" "cu_reported (read_path q u) = cu_reported u"
    "cu_violations (read_path q u) = cu_violations u" "cu_cache_write_details (read_path q u) = cu_cache_write_details u"
    using Cons.prems by (auto simp: read_path_def fmpred_iff split: prod.splits option.splits)
  with Cons show ?case by simp
qed simp

lemma paths_fields: "fst ` set (paths p) \<subseteq> set FIELDS"
  by (cases p) (simp_all add: FIELDS_def chat_paths_def)

lemma profile_checks_keep:
  assumes "usage_shape u" and "cu_cache_write_details u = []" and "\<not> alias_flagged u"
  shows "usage_shape (profile_checks p u)" "cu_reported (profile_checks p u) = cu_reported u"
    "alias_flagged (profile_checks p u) \<longleftrightarrow> alias_conflict p (cu_reported u)"
    "length (cu_cache_write_details (profile_checks p u)) \<le> 2"
    "\<forall>d \<in> set (cu_cache_write_details (profile_checks p u)). \<exists>k. fmlookup (cu_reported u) k = Some (cw_input_tokens d)"
proof -
  have conflict: "alias_flagged (check_alias u) \<longleftrightarrow> alias_conflict DeepSeekV1 (cu_reported u)"
    using assms(3) by (auto simp: check_alias_def alias_flagged_def alias_conflict_def reported_value_def
        bind_eq_Some_conv split: option.splits)
  have details: "cu_cache_write_details (check_alias u) = []"
    using assms(2) by (auto simp: check_alias_def split: option.splits)
  have push: "usage_shape (fold push_detail ds v) = usage_shape v" "cu_reported (fold push_detail ds v) = cu_reported v"
    "alias_flagged (fold push_detail ds v) = alias_flagged v" for ds v
    by (induction ds arbitrary: v)
      (auto simp: push_detail_def usage_shape_def alias_flagged_def split: option.splits prod.splits)
  show "usage_shape (profile_checks p u)" "cu_reported (profile_checks p u) = cu_reported u"
    using assms(1) by (cases p; simp add: profile_checks_def keeps_shapeD keeps_shape_reported push)+
  show "alias_flagged (profile_checks p u) \<longleftrightarrow> alias_conflict p (cu_reported u)"
    using assms(3) conflict by (cases p) (simp_all add: profile_checks_def keeps_rest_alias push, simp_all add: alias_conflict_def)
  show "length (cu_cache_write_details (profile_checks p u)) \<le> 2"
    "\<forall>d \<in> set (cu_cache_write_details (profile_checks p u)). \<exists>k. fmlookup (cu_reported u) k = Some (cw_input_tokens d)"
    using assms(2) details
    by (cases p; auto simp: profile_checks_def keeps_rest_details TTL_PATHS_def push_detail_def
        keeps_shape_reported split: option.splits)+
qed

lemma normalize_keeps:
  assumes "reported_ok p m"
  shows "usage_shape (normalize p m)" "cu_reported (normalize p m) = m"
    "alias_flagged (normalize p m) \<longleftrightarrow> alias_conflict p m"
    "length (cu_cache_write_details (normalize p m)) \<le> 2"
    "\<forall>d \<in> set (cu_cache_write_details (normalize p m)). counter_ok (cw_input_tokens d)"
proof -
  define u where "u = fold read_path (paths p) (usage_default\<lparr>cu_reported := m\<rparr>)"
  have ok: "fmpred (\<lambda>_. counter_ok) m"
    using assms by (simp add: reported_ok_def fmpred_iff wire_counter_def)
  have u: "usage_shape u" "cu_reported u = m" "cu_violations u = []" "cu_cache_write_details u = []"
    using read_paths_keep [OF usage_shape_default [of m] paths_fields [of p]] ok
    by (simp_all add: u_def usage_default_def)
  have v: "usage_shape (flag_invalid u)" "cu_reported (flag_invalid u) = m"
    "\<not> alias_flagged (flag_invalid u)" "cu_cache_write_details (flag_invalid u) = []"
    using u by (simp_all add: keeps_shapeD keeps_shape_reported keeps_rest_alias keeps_rest_details)
      (simp add: alias_flagged_def)
  note w = profile_checks_keep [OF v(1) v(4) v(3), of p, unfolded v(2)]
  note defs = normalize_def u_def [symmetric] keeps_shape_reported keeps_rest_alias keeps_rest_details
  show "usage_shape (normalize p m)"
    using w(1) by (simp add: defs keeps_shapeD FIELDS_def)
  show "cu_reported (normalize p m) = m" "alias_flagged (normalize p m) \<longleftrightarrow> alias_conflict p m"
    "length (cu_cache_write_details (normalize p m)) \<le> 2"
    using w by (simp_all add: defs FIELDS_def)
  show "\<forall>d \<in> set (cu_cache_write_details (normalize p m)). counter_ok (cw_input_tokens d)"
    using w(5) ok by (auto simp: defs FIELDS_def fmpred_iff)
qed
lemma card_FIELDS: "card (set FIELDS) = length FIELDS"
  by (simp add: FIELDS_def)

lemma usage_shape_fields:
  assumes "usage_shape u"
  shows "fcard (fmdom (cu_counters u)) = length FIELDS" "list_all (\<lambda>f. fmlookup (cu_counters u) f \<noteq> None) FIELDS"
proof -
  have "fset (fmdom (cu_counters u)) = set FIELDS"
    using assms unfolding usage_shape_def by (auto simp: fmlookup_dom_iff)
  then show "fcard (fmdom (cu_counters u)) = length FIELDS"
    by (simp add: fcard.rep_eq card_FIELDS)
  show "list_all (\<lambda>f. fmlookup (cu_counters u) f \<noteq> None) FIELDS"
    using assms unfolding usage_shape_def list_all_iff by blast
qed

lemma length_distinct_subset: "distinct xs \<Longrightarrow> set xs \<subseteq> set ys \<Longrightarrow> length xs \<le> length ys"
  by (metis List.finite_set card_length card_mono distinct_card order_trans)

lemma usage_shape_violations:
  assumes "usage_shape u"
  shows "length (cu_violations u) \<le> 6" "list_all (\<lambda>v. v \<in> set VIOLATIONS) (cu_violations u) \<longleftrightarrow> \<not> alias_flagged u"
proof -
  have sub: "set (cu_violations u) \<subseteq> insert ''cache_alias_mismatch'' (set VIOLATIONS - {''counter_decreased''})"
    and "distinct (cu_violations u)"
    using assms by (simp_all add: usage_shape_def)
  moreover have "insert ''cache_alias_mismatch'' (set VIOLATIONS - {''counter_decreased''}) =
      set (''cache_alias_mismatch'' # butlast VIOLATIONS)"
    by (auto simp: VIOLATIONS_def)
  ultimately have "length (cu_violations u) \<le> length (''cache_alias_mismatch'' # butlast VIOLATIONS)"
    by (intro length_distinct_subset) simp_all
  then show "length (cu_violations u) \<le> 6"
    by (simp add: VIOLATIONS_def)
  have "''cache_alias_mismatch'' \<notin> set VIOLATIONS"
    by (simp add: VIOLATIONS_def)
  with sub show "list_all (\<lambda>v. v \<in> set VIOLATIONS) (cu_violations u) \<longleftrightarrow> \<not> alias_flagged u"
    by (auto simp: alias_flagged_def list_all_iff)
qed

lemma profile_paths_allowed: "k \<in> set (profile_paths p) \<Longrightarrow> allowed_path k"
proof -
  have "p \<in> set profiles" by (cases p) (simp_all add: profiles_def)
  then show "k \<in> set (profile_paths p) \<Longrightarrow> allowed_path k"
    by (force simp: profile_paths_def allowed_path_def list_ex_iff split: if_splits)
qed

lemma reported_ok_upd:
  "reported_ok p m \<Longrightarrow> k \<in> set (profile_paths p) \<Longrightarrow> wire_counter c \<Longrightarrow> reported_ok p (fmupd k c m)"
  by (simp add: reported_ok_def fmpred_iff)

lemma reported_ok_empty: "reported_ok p fmempty"
  by (simp add: reported_ok_def)

lemma wire_counter_simps [simp]: "wire_counter invalid_counter" "wire_counter (counter_read w)"
  by (simp_all add: wire_counter_def)
    (simp_all add: invalid_counter_def counter_default_def counter_read_def split: option.splits json.splits)

lemma reported_ok_card: "reported_ok p m \<Longrightarrow> fcard (fmdom m) \<le> 16"
proof -
  assume "reported_ok p m"
  then have "fset (fmdom m) \<subseteq> set (profile_paths p)"
    by (auto simp: reported_ok_def fmpred_iff fmlookup_dom_iff)
  then have "card (fset (fmdom m)) \<le> length (profile_paths p)"
    by (metis List.finite_set card_length card_mono order_trans)
  also have "\<dots> \<le> 16"
    by (cases p) (simp_all add: profile_paths_def TTL_PATHS_def chat_paths_def)
  finally show ?thesis by (simp add: fcard.rep_eq)
qed

text \<open>Normalized usage with further violations of the contract appended is accepted unless the two cache
  counters disagree.\<close>

lemma normalized_validate:
  assumes "reported_ok p m" and "vs = [] \<or> vs = [''counter_decreased'']"
  shows "usage_validate ((normalize p m)\<lparr>cu_violations := cu_violations (normalize p m) @ vs\<rparr>) \<longleftrightarrow> \<not> alias_conflict p m"
proof -
  note n = normalize_keeps [OF assms(1)]
  note v = usage_shape_violations [OF n(1)]
  have "fmpred (\<lambda>_. counter_ok) m" "fmpred (\<lambda>k _. allowed_path k) m"
    using assms(1) profile_paths_allowed by (auto simp: reported_ok_def fmpred_iff wire_counter_def)
  moreover have "fmpred (\<lambda>_. counter_ok) (cu_counters (normalize p m))"
    using n(1) by (simp add: usage_shape_def)
  moreover have "list_all (\<lambda>v. v \<in> set VIOLATIONS) vs" "length vs \<le> 1"
    using assms(2) by (auto simp: VIOLATIONS_def)
  moreover have "length (cu_cache_write_details (normalize p m)) \<le> 16" "length (cu_violations (normalize p m)) + length vs \<le> 32"
    using n(4) v(1) \<open>length vs \<le> 1\<close> by linarith+
  moreover have "list_all (\<lambda>d. counter_ok (cw_input_tokens d)) (cu_cache_write_details (normalize p m))"
    using n(5) by (simp add: list_all_iff)
  ultimately show ?thesis
    using n(2,3) usage_shape_fields [OF n(1)] v(2) reported_ok_card [OF assms(1)]
    by (simp add: usage_validate_def)
qed

lemma extract_paths_ok:
  "reported_ok p m \<Longrightarrow> set ks \<subseteq> set (profile_paths p) \<Longrightarrow> reported_ok p (fold (extract_path v) ks m)"
  by (induction ks arbitrary: m) (simp_all add: extract_path_def reported_ok_upd split: option.split)

lemma extract_reported_ok: "reported_ok p (extract_counters p v)"
proof (cases "is_object v")
  case True
  then show ?thesis
    by (simp add: extract_counters_def extract_paths_ok reported_ok_empty)
next
  case False
  have "reported_ok p (fmap_of_list (map (\<lambda>(_, path). (path, invalid_counter)) (paths p)))"
    unfolding reported_ok_def fmpred_iff
    by (force simp: fmlookup_of_list profile_paths_def dest!: map_of_SomeD)
  with False show ?thesis by (simp add: extract_counters_def)
qed

subsection \<open>Accumulation\<close>

definition accumulator_inv :: "accumulator \<Rightarrow> bool" where
  "accumulator_inv a \<longleftrightarrow> reported_ok (ac_profile a) (ac_reported a) \<and>
     (\<exists>vs. (vs = [] \<or> vs = [''counter_decreased''] \<and> ac_incomplete a) \<and>
        ac_usage a = (let n = normalize (ac_profile a) (ac_reported a) in n\<lparr>cu_violations := cu_violations n @ vs\<rparr>))"

lemma observe_path_reported:
  assumes "reported_ok (ac_profile a) (ac_reported a)" and "wire_counter c"
  shows "reported_ok (ac_profile a) (ac_reported (fst (observe_path (path, c) (a, d))))"
    "ac_profile (fst (observe_path (path, c) (a, d))) = ac_profile a"
  using assms by (simp_all add: observe_path_def reported_ok_upd split: option.split)

lemma observe_paths_reported:
  assumes "reported_ok (ac_profile a) (ac_reported a)" and "\<forall>q \<in> set ps. wire_counter (snd q)"
  shows "reported_ok (ac_profile a) (ac_reported (fst (fold observe_path ps (a, d)))) \<and>
    ac_profile (fst (fold observe_path ps (a, d))) = ac_profile a"
  using assms
proof (induction ps arbitrary: a d)
  case (Cons q ps)
  obtain k c where q: "q = (k, c)" by fastforce
  obtain a' d' where step: "observe_path (k, c) (a, d) = (a', d')" by fastforce
  have a': "reported_ok (ac_profile a) (ac_reported a')" "ac_profile a' = ac_profile a"
    using observe_path_reported [of a c k d] Cons.prems by (simp_all add: q step)
  with Cons.IH [of a' d'] Cons.prems show ?case by (simp add: q step)
qed simp

lemma observe_counters_inv:
  assumes "reported_ok (ac_profile a) (ac_reported a)" and "fmpred (\<lambda>_. wire_counter) counters"
  shows "accumulator_inv (snd (observe_counters a counters))"
proof -
  have "\<forall>q \<in> set (sorted_list_of_fmap counters). wire_counter (snd q)"
    using assms(2) by (auto simp: sorted_list_of_fmap_member fmpred_iff)
  note r = observe_paths_reported [OF assms(1) this, of False]
  obtain c d where c: "fold observe_path (sorted_list_of_fmap counters) (a, False) = (c, d)"
    by fastforce
  show ?thesis
    using r unfolding accumulator_inv_def
    by (auto simp: observe_counters_def c Let_def
        intro: exI [of _ "if d then [''counter_decreased''] else []"])
qed

lemma observe_inv:
  assumes "accumulator_inv a"
  shows "accumulator_inv (snd (observe a v))"
proof -
  have "fmpred (\<lambda>_. wire_counter) (extract_counters (ac_profile a) v)"
    using extract_reported_ok [of "ac_profile a" v] by (simp add: reported_ok_def fmpred_iff)
  with assms show ?thesis
    unfolding observe_def by (intro observe_counters_inv) (simp_all add: accumulator_inv_def)
qed

interpretation usage_stream: machine observe accumulator_inv
  by unfold_locales (rule observe_inv)

lemma accumulator_new_inv: "accumulator_inv (accumulator_new p)"
proof -
  have "normalize p fmempty = usage_default"
    by (cases p) (simp_all add: normalize_def usage_default_def read_path_def profile_checks_def chat_paths_def FIELDS_def, code_simp+)
  then show ?thesis
    by (simp add: accumulator_inv_def accumulator_new_def reported_ok_def)
qed
lemma observe_path_profile: "ac_profile (fst (observe_path q s)) = ac_profile (fst s)"
  by (simp add: observe_path_def split: option.split prod.split)

lemma observe_paths_profile: "ac_profile (fst (fold observe_path ps s)) = ac_profile (fst s)"
  by (induction ps arbitrary: s) (simp_all add: observe_path_profile)

lemma observe_profile: "ac_profile (snd (observe a v)) = ac_profile a"
  by (simp add: observe_def observe_counters_def Let_def split_beta observe_paths_profile)

lemma run_observe_profile: "ac_profile (snd (run_machine observe a vs)) = ac_profile a"
  by (induction vs arbitrary: a) (simp_all add: Let_def split_beta observe_profile)

lemma normalize_subsets:
  assumes "usage_value (normalize p m) field = Some n" and "usage_value (normalize p m) parent = Some k"
    and "(field, parent) \<in> {(''cache_read_input_tokens'', ''input_tokens''), (''cache_write_input_tokens'', ''input_tokens''),
       (''reasoning_output_tokens'', ''output_tokens'')}"
  shows "n \<le> k"
  using assms by (auto simp: normalize_def split: if_splits)

lemma normalize_flagged: "any_invalid (normalize p m) \<Longrightarrow> ''invalid_counter'' \<in> set (cu_violations (normalize p m))"
  by (auto simp: normalize_def flag_invalid_def any_invalid_def split: if_splits)

lemma accumulated_consistent:
  assumes "accumulator_inv a" and "ue_profile e = ac_profile a" and "ue_usage e = ac_usage a"
  shows "event_consistent e"
proof -
  define n where "n = normalize (ac_profile a) (ac_reported a)"
  have ok: "reported_ok (ac_profile a) (ac_reported a)"
    using assms(1) by (simp add: accumulator_inv_def)
  obtain vs where vs: "vs = [] \<or> vs = [''counter_decreased'']" "ac_usage a = n\<lparr>cu_violations := cu_violations n @ vs\<rparr>"
    using assms(1) by (auto simp: accumulator_inv_def n_def Let_def)
  have "''counter_decreased'' \<notin> set (cu_violations n)"
    using normalize_keeps(1) [OF ok] by (auto simp: usage_shape_def n_def VIOLATIONS_def)
  then have "filter (\<lambda>v. v \<noteq> ''counter_decreased'') (cu_violations n @ vs) = cu_violations n"
    using vs(1) by (auto intro: filter_True)
  moreover have "cu_reported n = ac_reported a"
    using normalize_keeps(2) [OF ok] by (simp add: n_def)
  moreover have "fmpred (\<lambda>_ c. ct_source c \<noteq> Derived \<and> ct_source c \<noteq> NotApplicable) (ac_reported a)"
    using ok by (fastforce simp: reported_ok_def fmpred_iff wire_counter_def)
  ultimately show ?thesis
    by (simp add: event_consistent_def assms(2,3) vs(2) n_def)
qed

lemma accumulated_validate:
  assumes "accumulator_inv a"
  shows "usage_validate (ac_usage a) \<longleftrightarrow> \<not> alias_conflict (ac_profile a) (ac_reported a)"
proof -
  obtain vs where "vs = [] \<or> vs = [''counter_decreased'']" and ok: "reported_ok (ac_profile a) (ac_reported a)"
    "ac_usage a = (let n = normalize (ac_profile a) (ac_reported a) in n\<lparr>cu_violations := cu_violations n @ vs\<rparr>)"
    using assms by (auto simp: accumulator_inv_def)
  then show ?thesis
    using normalized_validate [OF ok(1), of vs] by (simp add: Let_def)
qed

lemma accumulated_reported:
  assumes "accumulator_inv a"
  shows "cu_reported (ac_usage a) = ac_reported a"
  using assms normalize_keeps(2) [of "ac_profile a" "ac_reported a"] by (auto simp: accumulator_inv_def Let_def)

text \<open>Regular input has no bound of its own: a cache-miss counter above the prompt, reported without the
  cache-hit counter, is kept and nothing is flagged.\<close>

definition demo_miss :: "(string, counter) fmap" where
  "demo_miss = fmap_of_list
     [(''prompt_tokens'', \<lparr>ct_value = Some 10, ct_source = Reported\<rparr>),
      (''completion_tokens'', \<lparr>ct_value = Some 1, ct_source = Reported\<rparr>),
      (''total_tokens'', \<lparr>ct_value = Some 11, ct_source = Reported\<rparr>),
      (''prompt_cache_miss_tokens'', \<lparr>ct_value = Some 20, ct_source = Reported\<rparr>)]"

lemma deepseek_regular_unbounded:
  "usage_value (normalize DeepSeekV1 demo_miss) ''input_tokens'' = Some 10 \<and>
   usage_value (normalize DeepSeekV1 demo_miss) ''input_regular_tokens'' = Some 20 \<and>
   cu_violations (normalize DeepSeekV1 demo_miss) = []"
  by code_simp

section \<open>Properties\<close>

text \<open>C13. The arithmetic of normalized counters, whatever was reported. When input, output and total
  are all known, the total is exactly their sum, without wrap-around; when input, regular input, cache
  reads and cache writes are all known, the input is exactly the sum of the other three; cache reads
  and cache writes never exceed a known input, nor reasoning a known output; and an invalid counter is
  always visible as a violation. Regular input on its own is not bounded by the input: see
  \<open>deepseek_regular_unbounded\<close>.\<close>

theorem normalized_usage_consistent:
  "(\<forall>i out t. usage_value (normalize p m) ''input_tokens'' = Some i \<and> usage_value (normalize p m) ''output_tokens'' = Some out \<and>
      usage_value (normalize p m) ''total_tokens'' = Some t \<longrightarrow> unat t = unat i + unat out) \<and>
   (\<forall>i g r w. usage_value (normalize p m) ''input_tokens'' = Some i \<and> usage_value (normalize p m) ''input_regular_tokens'' = Some g \<and>
      usage_value (normalize p m) ''cache_read_input_tokens'' = Some r \<and> usage_value (normalize p m) ''cache_write_input_tokens'' = Some w \<longrightarrow>
      unat i = unat g + unat r + unat w) \<and>
   (\<forall>i part n. part \<in> {''cache_read_input_tokens'', ''cache_write_input_tokens''} \<and>
      usage_value (normalize p m) part = Some n \<and> usage_value (normalize p m) ''input_tokens'' = Some i \<longrightarrow> n \<le> i) \<and>
   (\<forall>n out. usage_value (normalize p m) ''reasoning_output_tokens'' = Some n \<and>
      usage_value (normalize p m) ''output_tokens'' = Some out \<longrightarrow> n \<le> out) \<and>
   (any_invalid (normalize p m) \<longrightarrow> ''invalid_counter'' \<in> set (cu_violations (normalize p m)))"
proof (intro conjI allI impI)
  fix i out t
  assume "usage_value (normalize p m) ''input_tokens'' = Some i \<and> usage_value (normalize p m) ''output_tokens'' = Some out \<and>
    usage_value (normalize p m) ''total_tokens'' = Some t"
  then show "unat t = unat i + unat out"
    unfolding normalize_def usage_value_flag using check_total_sum by blast
qed (use normalize_partition [of p m] normalize_subsets [of p m] normalize_flagged [of p m] in
    \<open>auto simp: partition_ok_def\<close>)

text \<open>C26. What the accumulator collected can be recorded: after any sequence of observations an event that
  carries its usage is valid, up to its own header, exactly when the provider did not report two
  different cache counters.\<close>

theorem accumulated_usage_recordable:
  assumes "a = snd (run_machine observe (accumulator_new p) vs)"
    and "ue_profile e = p" and "ue_usage e = ac_usage a" and "ue_schema e = SCHEMA" and "event_header_ok e"
  shows "usage_event_validate e \<longleftrightarrow> \<not> alias_conflict p (ac_reported a)"
proof -
  have inv: "accumulator_inv a"
    unfolding assms(1) by (rule usage_stream.run_inv [OF accumulator_new_inv])
  have p: "ac_profile a = p"
    unfolding assms(1) by (simp add: run_observe_profile accumulator_new_def)
  show ?thesis
    using accumulated_consistent [OF inv] accumulated_validate [OF inv] assms p
    by (simp add: usage_event_validate_def)
qed

text \<open>A stored event is returned only with the bytes and digest it was stored with.\<close>

lemma stored_event_round_trip:
  assumes "recorded_bytes es e = Ok bytes" and "recorded_deserialize es bytes = Some e"
  shows "from_stored_bytes es sha256 bytes digest = Ok e \<longleftrightarrow> digest = event_digest sha256 bytes"
proof -
  have "length bytes \<le> MAX_EVENT_BYTES"
    using assms(1) by (cases e) (auto simp: encoded_def split: if_splits)
  with assms show ?thesis by (auto simp: from_stored_bytes_def)
qed

section \<open>Witnesses\<close>

definition demo_usage :: json where
  "demo_usage = obj [(''input_tokens'', json_u64 10), (''output_tokens'', json_u64 3),
     (''cache_read_input_tokens'', json_u64 5), (''cache_creation_input_tokens'', json_u64 2)]"

definition demo_event :: usage_event where
  "demo_event =
     \<lparr>ue_schema = SCHEMA, ue_producer_id = ''p'', ue_request_id = ''r'', ue_attempt_id = ''a'', ue_event_id = ''e'',
      ue_revision = 1, ue_kind = UsageUpdated, ue_started_at_ms = 0, ue_observed_at_ms = 5, ue_provider = ''x'',
      ue_model_alias = ''m'', ue_upstream_model = ''u'', ue_reported_model = None, ue_provider_request_id = None,
      ue_provider_response_id = None, ue_profile = MessagesV1, ue_configuration_sha256 = replicate 64 (CHR ''0''),
      ue_upstream = InProgress, ue_gateway = InProgress, ue_finality = Partial, ue_observation_incomplete = False,
      ue_usage = ac_usage (snd (run_machine observe (accumulator_new MessagesV1) [demo_usage]))\<rparr>"

lemma demo_event_header: "event_header_ok demo_event"
  by (simp add: event_header_ok_def event_labels_ok_def demo_event_def safe_label_def hex_digest_def list_all_iff
      is_lower_hex_def is_ascii_digit_def is_ascii_alphanumeric_def is_ascii_lowercase_def)

definition demo_reported :: "(string, counter) fmap" where
  "demo_reported = fmap_of_list
     [(''input_tokens'', \<lparr>ct_value = Some 10, ct_source = Reported\<rparr>),
      (''output_tokens'', \<lparr>ct_value = Some 3, ct_source = Reported\<rparr>),
      (''cache_read_input_tokens'', \<lparr>ct_value = Some 5, ct_source = Reported\<rparr>),
      (''cache_creation_input_tokens'', \<lparr>ct_value = Some 2, ct_source = Reported\<rparr>)]"

lemma demo_normalized:
  "usage_value (normalize MessagesV1 demo_reported) ''input_tokens'' = Some 17 \<and>
   usage_value (normalize MessagesV1 demo_reported) ''output_tokens'' = Some 3 \<and>
   usage_value (normalize MessagesV1 demo_reported) ''total_tokens'' = Some 20"
proof -
  define u where "u = flag_invalid (fold read_path (paths MessagesV1) (usage_default\<lparr>cu_reported := demo_reported\<rparr>))"
  have r: "cu_reported (flag_invalid v) = cu_reported v" for v
    by (simp add: flag_invalid_def)
  have u: "usage_value u ''input_regular_tokens'' = Some 10" "usage_value u ''output_tokens'' = Some 3"
    "usage_value u ''cache_read_input_tokens'' = Some 5" "usage_value u ''cache_write_input_tokens'' = Some 2"
    "usage_value u ''reasoning_output_tokens'' = None"
    "fmlookup (cu_reported u) (TTL_PATHS ! 0) = None" "fmlookup (cu_reported u) (TTL_PATHS ! 1) = None"
    "cu_cache_write_details u = []" "fmlookup (cu_counters u) ''total_tokens'' = Some counter_default"
    by (simp_all add: u_def r keeps_rest_details usage_default_def read_path_def put_counter_def flag_invalid_def
        usage_value_def demo_reported_def fmlookup_of_list TTL_PATHS_def FIELDS_def counter_default_def)
  define w where "w = put_counter u ''input_tokens'' (counter_derived (Some 17))"
  have "profile_checks MessagesV1 u = w"
    using u by (simp add: profile_checks_def derive_input_def checked_add_def push_detail_def TTL_PATHS_def check_ttl_def w_def)
  moreover have "check_partition MessagesV1 w = w"
    using u by (simp add: check_partition_def checked_sub_def w_def)
  moreover have "fold check_subset
      [(''cache_read_input_tokens'', ''input_tokens''), (''cache_write_input_tokens'', ''input_tokens''),
       (''reasoning_output_tokens'', ''output_tokens'')] w = w"
    using u by (simp add: check_subset_def w_def)
  moreover have "check_total w = put_counter w ''total_tokens'' (counter_derived (Some 20))"
    using u by (simp add: check_total_def checked_add_def w_def) (simp add: put_counter_def counter_default_def usage_value_def checked_add_def)
  ultimately have "normalize MessagesV1 demo_reported = flag_invalid (put_counter w ''total_tokens'' (counter_derived (Some 20)))"
    unfolding normalize_def u_def [symmetric] by (simp only:)
  then show ?thesis
    using u(2) by (simp add: w_def)
qed

theorem normalized_usage_consistent_witness:
  "usage_value (normalize MessagesV1 demo_reported) ''total_tokens'' = Some 20 \<and>
   unat (20 :: u64) = unat (17 :: u64) + unat (3 :: u64)"
proof
  show "unat (20 :: u64) = unat (17 :: u64) + unat (3 :: u64)"
    by (rule conjunct1 [OF normalized_usage_consistent, rule_format]) (rule demo_normalized)
qed (simp add: demo_normalized)

theorem accumulated_usage_recordable_witness: "usage_event_validate demo_event"
proof -
  have "\<not> alias_conflict MessagesV1 (ac_reported (snd (run_machine observe (accumulator_new MessagesV1) [demo_usage])))"
    by (simp add: alias_conflict_def)
  then show ?thesis
    using accumulated_usage_recordable [OF refl, of demo_event MessagesV1 "[demo_usage]"] demo_event_header
    by (simp add: demo_event_def)
qed

end
