(* ===== verification/Usage_Provider.thy ===== *)
theory Usage_Provider
  imports Usage_Contract Ir_Base
begin

text \<open>
  Usage reported by provider packages, \<open>src/src/provider_plugins/usage.rs\<close>: the host reads the typed
  counters of a reply, keeps what is consistent, marks the rest invalid, and compares cumulative
  snapshots. Whether a JSON value has the wire shape of a snapshot or of one counter is decided by
  \<open>serde_json\<close>; these are the parameters \<open>snapshot_of\<close> and \<open>counter_shape\<close>.
\<close>

section \<open>Snapshots\<close>

datatype provider_counter = CounterReported u64 | CounterNotReported | CounterNotApplicable | CounterInvalid

record provider_counters =
  pc_input_tokens :: provider_counter
  pc_output_tokens :: provider_counter
  pc_total_tokens :: provider_counter
  pc_input_regular_tokens :: provider_counter
  pc_cache_read_input_tokens :: provider_counter
  pc_cache_write_input_tokens :: provider_counter
  pc_reasoning_output_tokens :: provider_counter

datatype usage_snapshot = SnapshotUnobserved | SnapshotObserved provider_counters

definition named_counters :: "provider_counters \<Rightarrow> (string \<times> provider_counter) list" where
  "named_counters c =
     [(''input_tokens'', pc_input_tokens c), (''output_tokens'', pc_output_tokens c),
      (''total_tokens'', pc_total_tokens c), (''input_regular_tokens'', pc_input_regular_tokens c),
      (''cache_read_input_tokens'', pc_cache_read_input_tokens c),
      (''cache_write_input_tokens'', pc_cache_write_input_tokens c),
      (''reasoning_output_tokens'', pc_reasoning_output_tokens c)]"

definition read_counter :: "string \<times> provider_counter \<Rightarrow> canonical_usage \<Rightarrow> canonical_usage" where
  "read_counter = (\<lambda>(name, c) u.
     case c of
       CounterReported v \<Rightarrow> put_counter u name \<lparr>ct_value = Some v, ct_source = Reported\<rparr>
     | CounterNotReported \<Rightarrow> put_counter u name \<lparr>ct_value = None, ct_source = NotReported\<rparr>
     | CounterNotApplicable \<Rightarrow> put_counter u name \<lparr>ct_value = None, ct_source = NotApplicable\<rparr>
     | CounterInvalid \<Rightarrow> usage_invalid u name ''invalid_counter'')"

definition source_of :: "canonical_usage \<Rightarrow> string \<Rightarrow> counter_source option" where
  "source_of u f = map_option ct_source (fmlookup (cu_counters u) f)"

definition settle_total :: "canonical_usage \<Rightarrow> canonical_usage" where
  "settle_total u =
     (case (usage_value u ''input_tokens'', usage_value u ''output_tokens'') of
        (Some input, Some out) \<Rightarrow>
          (case checked_add input out of
             None \<Rightarrow> usage_invalid u ''total_tokens'' ''total_mismatch''
           | Some s \<Rightarrow>
               if (case usage_value u ''total_tokens'' of Some t \<Rightarrow> t \<noteq> s | None \<Rightarrow> False)
               then usage_invalid u ''total_tokens'' ''total_mismatch''
               else if source_of u ''total_tokens'' = Some NotReported
               then put_counter u ''total_tokens'' \<lparr>ct_value = Some s, ct_source = Derived\<rparr>
               else u)
      | _ \<Rightarrow> u)"

definition settle_part :: "string \<Rightarrow> canonical_usage \<Rightarrow> canonical_usage" where
  "settle_part f u = (if usage_value u f \<noteq> None then usage_invalid u f ''input_partition'' else u)"

definition partition_broken :: "canonical_usage \<Rightarrow> bool" where
  "partition_broken u \<longleftrightarrow>
     fold (add_part u) PARTS (Some 0) = None \<or>
     (case (usage_value u ''input_tokens'', fold (add_part u) PARTS (Some 0)) of
        (Some input, Some s) \<Rightarrow> s > input \<or> (list_all (\<lambda>f. usage_value u f \<noteq> None) PARTS \<and> s \<noteq> input)
      | _ \<Rightarrow> False)"

definition settle_partition :: "canonical_usage \<Rightarrow> canonical_usage" where
  "settle_partition u =
     (if partition_broken u
      then let v = fold settle_part (''input_tokens'' # PARTS) u
           in if source_of v ''total_tokens'' = Some Derived
              then usage_invalid v ''total_tokens'' ''input_partition'' else v
      else u)"

definition provider_observe :: "usage_snapshot \<Rightarrow> canonical_usage" where
  "provider_observe snapshot =
     (let u = (case snapshot of
          SnapshotUnobserved \<Rightarrow> usage_default
        | SnapshotObserved c \<Rightarrow> fold read_counter (named_counters c) usage_default)
      in settle_partition (fold check_subset
           [(''input_regular_tokens'', ''input_tokens''), (''cache_read_input_tokens'', ''input_tokens''),
            (''cache_write_input_tokens'', ''input_tokens''), (''reasoning_output_tokens'', ''output_tokens'')]
           (settle_total u)))"

fun object_at :: "json \<Rightarrow> string \<Rightarrow> fields option" where
  "object_at v k = Option.bind (jget v k) as_object"

definition recoverable_shape :: "json \<Rightarrow> bool" where
  "recoverable_shape v \<longleftrightarrow>
     (case as_object v of
        None \<Rightarrow> False
      | Some m \<Rightarrow> fcard (fmdom m) = 2 \<and> fmlookup m ''kind'' \<noteq> None \<and> fmlookup m ''counters'' \<noteq> None) \<and>
     jget v ''kind'' = Some (JString ''observed'') \<and>
     (case object_at v ''counters'' of
        None \<Rightarrow> False
      | Some counters \<Rightarrow>
          fcard (fmdom counters) = length FIELDS \<and> list_all (\<lambda>f. fmlookup counters f \<noteq> None) FIELDS)"

definition sanitize_counter :: "(json \<Rightarrow> bool) \<Rightarrow> string \<Rightarrow> fields \<Rightarrow> fields" where
  "sanitize_counter counter_shape f counters =
     (case fmlookup counters f of
        Some c \<Rightarrow> if counter_shape c then counters else fmupd f (obj [(''source'', JString ''invalid'')]) counters
      | None \<Rightarrow> counters)"

definition sanitized :: "(json \<Rightarrow> bool) \<Rightarrow> json \<Rightarrow> json" where
  "sanitized counter_shape v =
     (case (as_object v, object_at v ''counters'') of
        (Some m, Some counters) \<Rightarrow>
          JObject (fmupd ''counters'' (JObject (fold (sanitize_counter counter_shape) FIELDS counters)) m)
      | _ \<Rightarrow> v)"

definition all_invalid :: canonical_usage where
  "all_invalid = fold (\<lambda>f u. usage_invalid u f ''invalid_counter'') FIELDS usage_default"

definition observe_wire :: "(json \<Rightarrow> usage_snapshot option) \<Rightarrow> (json \<Rightarrow> bool) \<Rightarrow> json \<Rightarrow> canonical_usage" where
  "observe_wire snapshot_of counter_shape v =
     (case snapshot_of v of
        Some s \<Rightarrow> provider_observe s
      | None \<Rightarrow>
          (case (if recoverable_shape v then snapshot_of (sanitized counter_shape v) else None) of
             Some s \<Rightarrow> provider_observe s
           | None \<Rightarrow> all_invalid))"

definition ensure_valid :: "canonical_usage \<Rightarrow> ir_error + unit" where
  "ensure_valid u = (if cu_violations u = [] then Ok () else Err (InvalidField ''provider_usage''))"

definition compare_field :: "canonical_usage \<Rightarrow> string \<Rightarrow> canonical_usage \<Rightarrow> canonical_usage" where
  "compare_field previous f current =
     (if source_of current f = Some Invalid then current
      else case usage_value previous f of
        None \<Rightarrow> current
      | Some old \<Rightarrow>
          if (case usage_value current f of None \<Rightarrow> True | Some v \<Rightarrow> v < old)
          then usage_invalid current f ''counter_decreased'' else current)"

definition observe_cumulative :: "canonical_usage \<Rightarrow> canonical_usage \<Rightarrow> canonical_usage" where
  "observe_cumulative previous current =
     (let v = fold (compare_field previous) FIELDS current
      in if source_of v ''total_tokens'' = Some Derived \<and>
            list_ex (\<lambda>f. source_of v f = Some Invalid) [''input_tokens'', ''output_tokens'']
         then usage_invalid v ''total_tokens'' ''counter_decreased'' else v)"

definition verify_response :: "json \<Rightarrow> canonical_usage \<Rightarrow> ir_error + unit" where
  "verify_response response u =
     (let actual = jget response ''usage'' in
      if actual = Some (usage_responses u) \<or>
         (\<not> observed u \<and> (case actual of None \<Rightarrow> True | Some v \<Rightarrow> is_null v))
      then Ok () else Err (InvalidField ''provider_usage''))"

section \<open>Shape and values\<close>

text \<open>The shape the recorder's contract asks of provider usage, and the arithmetic part of it stated on
  natural numbers.\<close>

definition host_shape :: "canonical_usage \<Rightarrow> bool" where
  "host_shape u \<longleftrightarrow>
     (\<forall>k. fmlookup (cu_counters u) k \<noteq> None \<longleftrightarrow> k \<in> set FIELDS) \<and>
     fmpred (\<lambda>_. counter_ok) (cu_counters u) \<and> distinct (cu_violations u) \<and>
     set (cu_violations u) \<subseteq> set VIOLATIONS \<and> cu_reported u = fmempty \<and> cu_cache_write_details u = []"

definition known :: "canonical_usage \<Rightarrow> string \<Rightarrow> nat" where
  "known u f = (case usage_value u f of None \<Rightarrow> 0 | Some n \<Rightarrow> unat n)"

definition part_sum :: "canonical_usage \<Rightarrow> nat" where
  "part_sum u = known u ''input_regular_tokens'' + known u ''cache_read_input_tokens'' + known u ''cache_write_input_tokens''"

definition total_ok :: "canonical_usage \<Rightarrow> bool" where
  "total_ok u \<longleftrightarrow> (\<forall>i out t. usage_value u ''input_tokens'' = Some i \<and> usage_value u ''output_tokens'' = Some out \<and>
     usage_value u ''total_tokens'' = Some t \<longrightarrow> unat t = unat i + unat out)"

definition parts_ok :: "canonical_usage \<Rightarrow> bool" where
  "parts_ok u \<longleftrightarrow> (\<forall>i. usage_value u ''input_tokens'' = Some i \<longrightarrow>
     part_sum u \<le> unat i \<and> ((\<forall>f \<in> set PARTS. usage_value u f \<noteq> None) \<longrightarrow> part_sum u = unat i))"

definition reasoning_ok :: "canonical_usage \<Rightarrow> bool" where
  "reasoning_ok u \<longleftrightarrow> (\<forall>r out. usage_value u ''reasoning_output_tokens'' = Some r \<and>
     usage_value u ''output_tokens'' = Some out \<longrightarrow> r \<le> out)"

text \<open>A checked sum that is still alive equals the sum; a failed one has left the range.\<close>

definition sums_to :: "u64 option \<Rightarrow> nat \<Rightarrow> bool" where
  "sums_to acc n \<longleftrightarrow> (case acc of Some s \<Rightarrow> unat s = n | None \<Rightarrow> 2 ^ 64 \<le> n)"

lemma sums_to_add_part: "sums_to acc n \<Longrightarrow> sums_to (add_part u f acc) (n + known u f)"
  by (auto simp: sums_to_def add_part_def known_def checked_add_Some checked_add_None split: option.splits)

lemma sums_to_Some: "sums_to acc n \<Longrightarrow> acc = Some s \<longleftrightarrow> unat s = n"
proof -
  assume "sums_to acc n"
  then show ?thesis using u64_less [of s] by (cases acc) (auto simp: sums_to_def word_unat_eq_iff)
qed

lemma sums_to_parts: "sums_to (fold (add_part u) PARTS (Some 0)) (part_sum u)"
proof -
  have "sums_to (Some 0) 0" by (simp add: sums_to_def)
  from sums_to_add_part [OF sums_to_add_part [OF sums_to_add_part [OF this]]] show ?thesis
    by (simp add: PARTS_def part_sum_def)
qed

lemmas add_parts_Some = sums_to_Some [OF sums_to_parts]

lemma add_parts_None: "fold (add_part u) PARTS (Some 0) = None \<Longrightarrow> 2 ^ 64 \<le> part_sum u"
  using sums_to_parts [of u] by (simp add: sums_to_def)

lemma provider_usage_valid_iff:
  assumes "host_shape u" and "total_ok u" and "parts_ok u" and "reasoning_ok u"
  shows "provider_usage_valid u"
proof -
  have fields: "fset (fmdom (cu_counters u)) = set FIELDS"
    using assms(1) by (auto simp: host_shape_def fmlookup_dom_iff)
  have "list_all (\<lambda>f. fmlookup (cu_counters u) f \<noteq> None) FIELDS"
    using assms(1) unfolding host_shape_def list_all_iff by blast
  moreover have "fcard (fmdom (cu_counters u)) = length FIELDS"
    by (simp add: fcard.rep_eq fields card_FIELDS)
  moreover have "length (cu_violations u) \<le> 32"
    using length_distinct_subset [of "cu_violations u" VIOLATIONS] assms(1) by (simp add: host_shape_def VIOLATIONS_def)
  ultimately have valid: "usage_validate u"
    using assms(1) by (auto simp: usage_validate_def host_shape_def list_all_iff)
  have parts: "\<exists>s. fold (add_part u) PARTS (Some 0) = Some s \<and> s \<le> i \<and>
      (list_all (\<lambda>f. usage_value u f \<noteq> None) PARTS \<longrightarrow> s = i)"
    if "usage_value u ''input_tokens'' = Some i" for i
  proof -
    have le: "part_sum u \<le> unat i" and eq: "(\<forall>f \<in> set PARTS. usage_value u f \<noteq> None) \<longrightarrow> part_sum u = unat i"
      using assms(3) that by (simp_all add: parts_ok_def)
    obtain s where s: "fold (add_part u) PARTS (Some 0) = Some s"
      using le add_parts_None [of u] u64_less [of i] by fastforce
    then have "unat s = part_sum u" by (simp add: add_parts_Some)
    with le eq have "s \<le> i" "list_all (\<lambda>f. usage_value u f \<noteq> None) PARTS \<longrightarrow> s = i"
      by (simp_all add: word_le_nat_alt word_unat_eq_iff list_all_iff)
    with s show ?thesis by blast
  qed
  show ?thesis
    using valid assms parts unfolding provider_usage_valid_def host_shape_def total_ok_def reasoning_ok_def
    by (fastforce simp: checked_add_Some split: option.splits)
qed

section \<open>Every phase keeps the contract\<close>

lemma host_shape_put [simp]:
  "host_shape u \<Longrightarrow> f \<in> set FIELDS \<Longrightarrow> counter_ok c \<Longrightarrow> host_shape (put_counter u f c)"
  by (auto simp: host_shape_def put_counter_def fmpred_iff)

lemma host_shape_invalid [simp]:
  "host_shape u \<Longrightarrow> f \<in> set FIELDS \<Longrightarrow> r \<in> set VIOLATIONS \<Longrightarrow> host_shape (usage_invalid u f r)"
  unfolding usage_invalid_def violate_def
  by (auto simp: host_shape_def put_counter_def fmpred_iff)

lemma host_shape_default: "host_shape usage_default"
  by (auto simp: host_shape_def usage_default_def fmpred_iff fmlookup_of_list FIELDS_def split: if_splits)

lemma host_shape_fold:
  "host_shape u \<Longrightarrow> (\<And>x u. x \<in> set xs \<Longrightarrow> host_shape u \<Longrightarrow> host_shape (f x u)) \<Longrightarrow> host_shape (fold f xs u)"
  by (induction xs arbitrary: u) simp_all

lemma host_shape_read:
  "name \<in> set FIELDS \<Longrightarrow> host_shape u \<Longrightarrow> host_shape (read_counter (name, c) u)"
  by (cases c) (simp_all add: read_counter_def counter_ok_def VIOLATIONS_def)

lemma host_shape_phases:
  "host_shape u \<Longrightarrow> host_shape (settle_total u)"
  "host_shape u \<Longrightarrow> f \<in> set FIELDS \<Longrightarrow> host_shape (check_subset (f, parent) u)"
  "host_shape u \<Longrightarrow> f \<in> set FIELDS \<Longrightarrow> host_shape (settle_part f u)"
  "host_shape u \<Longrightarrow> f \<in> set FIELDS \<Longrightarrow> host_shape (compare_field p f u)"
  by (simp_all add: settle_total_def check_subset_def settle_part_def compare_field_def VIOLATIONS_def
      counter_ok_def FIELDS_def split: option.split)

lemma host_shape_settle_partition: "host_shape u \<Longrightarrow> host_shape (settle_partition u)"
  unfolding settle_partition_def Let_def
  by (auto intro!: host_shape_fold host_shape_phases host_shape_invalid simp: PARTS_def FIELDS_def VIOLATIONS_def)

lemma host_shape_observe: "host_shape (provider_observe s)"
proof -
  have "host_shape (fold read_counter (named_counters c) usage_default)" for c
    by (rule host_shape_fold [OF host_shape_default])
      (auto simp: named_counters_def FIELDS_def intro!: host_shape_read)
  then have "host_shape (case s of SnapshotUnobserved \<Rightarrow> usage_default
      | SnapshotObserved c \<Rightarrow> fold read_counter (named_counters c) usage_default)"
    by (simp add: host_shape_default split: usage_snapshot.split)
  then show ?thesis
    unfolding provider_observe_def Let_def
    by (intro host_shape_settle_partition host_shape_fold host_shape_phases) (auto intro!: host_shape_phases simp: FIELDS_def)
qed

lemma settle_total_ok: "total_ok (settle_total u)"
  by (auto simp: total_ok_def settle_total_def checked_add_Some checked_add_None split: option.splits if_splits)

text \<open>Marking counters invalid never breaks what holds of the known ones.\<close>

definition forgets :: "canonical_usage \<Rightarrow> canonical_usage \<Rightarrow> bool" where
  "forgets u u' \<longleftrightarrow> (\<forall>f. usage_value u' f = usage_value u f \<or> usage_value u' f = None)"

lemma forgets_Some: "forgets u u' \<Longrightarrow> usage_value u' f = Some v \<Longrightarrow> usage_value u f = Some v"
  unfolding forgets_def by (metis option.distinct(1))

lemma forgets_refl: "forgets u u"
  by (simp add: forgets_def)

lemma forgets_trans: "forgets u v \<Longrightarrow> forgets v w \<Longrightarrow> forgets u w"
  unfolding forgets_def by metis

lemma forgets_invalid: "forgets u (usage_invalid u f r)"
  by (simp add: forgets_def)

lemma forgets_fold: "(\<And>x u. forgets u (f x u)) \<Longrightarrow> forgets u (fold f xs u)"
  by (induction xs arbitrary: u) (auto intro: forgets_refl forgets_trans)

lemma forgets_phases:
  "forgets u (check_subset q u)" "forgets u (settle_part f u)" "forgets u (compare_field p f u)"
  by (auto simp: forgets_def check_subset_def settle_part_def compare_field_def split: option.split prod.split)

lemma forgets_cumulative: "forgets u (observe_cumulative p u)"
  unfolding observe_cumulative_def Let_def
  by (auto intro: forgets_trans [OF _ forgets_invalid] forgets_fold forgets_phases)

lemma forgets_total_ok: "forgets u u' \<Longrightarrow> total_ok u \<Longrightarrow> total_ok u'"
  and forgets_reasoning_ok: "forgets u u' \<Longrightarrow> reasoning_ok u \<Longrightarrow> reasoning_ok u'"
  unfolding total_ok_def reasoning_ok_def by (blast dest: forgets_Some)+

lemma forgets_parts_ok:
  assumes "forgets u u'" and "parts_ok u"
  shows "parts_ok u'"
  unfolding parts_ok_def
proof (intro allI impI conjI)
  fix i
  assume "usage_value u' ''input_tokens'' = Some i"
  then have i: "usage_value u ''input_tokens'' = Some i"
    by (rule forgets_Some [OF assms(1)])
  have le: "known u' f \<le> known u f" for f
    using assms(1) unfolding forgets_def known_def by (metis (no_types, lifting) le0 option.case(1) order_refl)
  then have "part_sum u' \<le> part_sum u"
    unfolding part_sum_def by (intro add_mono)
  also have "\<dots> \<le> unat i"
    using assms(2) i by (simp add: parts_ok_def)
  finally show "part_sum u' \<le> unat i" .
  assume all: "\<forall>f \<in> set PARTS. usage_value u' f \<noteq> None"
  then have same: "usage_value u f = usage_value u' f" if "f \<in> set PARTS" for f
    using assms(1) that unfolding forgets_def by metis
  then have "part_sum u' = part_sum u"
    by (simp add: part_sum_def known_def PARTS_def)
  moreover have "part_sum u = unat i"
    using assms(2) i all same by (simp add: parts_ok_def)
  ultimately show "part_sum u' = unat i" by simp
qed
lemma forgets_settle_partition: "forgets u (settle_partition u)"
proof -
  have "forgets u (fold settle_part (''input_tokens'' # PARTS) u)"
    by (intro forgets_fold forgets_phases)
  then show ?thesis
    by (simp add: settle_partition_def Let_def forgets_refl forgets_trans [OF _ forgets_invalid] del: fold_simps)
qed

lemma settle_parts_forgotten: "f \<in> set fs \<Longrightarrow> usage_value (fold settle_part fs u) f = None"
proof (induction fs arbitrary: u)
  case (Cons g fs)
  show ?case
  proof (cases "f \<in> set fs")
    case False
    with Cons.prems have "f = g" by simp
    then have "usage_value (settle_part g u) f = None" by (simp add: settle_part_def)
    moreover have "forgets (settle_part g u) (fold settle_part fs (settle_part g u))"
      by (intro forgets_fold forgets_phases)
    ultimately show ?thesis by (metis fold_simps(2) forgets_def)
  qed (simp add: Cons.IH)
qed simp

lemma settle_partition_parts_ok: "parts_ok (settle_partition u)"
proof (cases "partition_broken u")
  case True
  then have "usage_value (settle_partition u) ''input_tokens'' = None"
    using settle_parts_forgotten [of "''input_tokens''" "''input_tokens'' # PARTS" u]
    by (simp add: settle_partition_def Let_def del: fold_simps)
  then show ?thesis by (simp add: parts_ok_def)
next
  case False
  then obtain s where s: "fold (add_part u) PARTS (Some 0) = Some s"
    by (auto simp: partition_broken_def)
  then have "unat s = part_sum u" by (simp add: add_parts_Some)
  with False s have "parts_ok u"
    by (auto simp: partition_broken_def parts_ok_def list_all_iff not_less word_le_nat_alt)
  moreover have "settle_partition u = u"
    using False by (simp add: settle_partition_def Let_def del: fold_simps)
  ultimately show ?thesis by simp
qed

lemma provider_observe_ok:
  "total_ok (provider_observe s)" "parts_ok (provider_observe s)" "reasoning_ok (provider_observe s)"
proof -
  define v where "v = settle_total (case s of SnapshotUnobserved \<Rightarrow> usage_default
      | SnapshotObserved c \<Rightarrow> fold read_counter (named_counters c) usage_default)"
  define w where "w = fold check_subset
           [(''input_regular_tokens'', ''input_tokens''), (''cache_read_input_tokens'', ''input_tokens''),
            (''cache_write_input_tokens'', ''input_tokens''), (''reasoning_output_tokens'', ''output_tokens'')] v"
  have s: "provider_observe s = settle_partition w"
    by (simp add: provider_observe_def Let_def v_def w_def)
  have "forgets v w"
    unfolding w_def by (intro forgets_fold forgets_phases)
  then have "total_ok w"
    by (rule forgets_total_ok) (simp add: v_def settle_total_ok)
  moreover have "reasoning_ok w"
    by (auto simp: reasoning_ok_def w_def split: if_splits)
  ultimately show "total_ok (provider_observe s)" "reasoning_ok (provider_observe s)"
    unfolding s by (simp_all add: forgets_total_ok [OF forgets_settle_partition] forgets_reasoning_ok [OF forgets_settle_partition])
  show "parts_ok (provider_observe s)"
    unfolding s by (rule settle_partition_parts_ok)
qed

lemma host_shape_cumulative: "host_shape u \<Longrightarrow> host_shape (observe_cumulative p u)"
  unfolding observe_cumulative_def Let_def
  by (auto intro!: host_shape_invalid host_shape_fold host_shape_phases simp: FIELDS_def VIOLATIONS_def simp del: fold_simps)

section \<open>Properties\<close>

text \<open>C27. Whatever a provider package reports, what the host makes of it can be recorded: the observation,
  compared with any earlier one, satisfies the contract the recorder checks, and so does the evidence
  kept of a reply whose usage has the wrong shape.\<close>

theorem provider_observations_recordable:
  "provider_usage_valid (observe_cumulative previous (provider_observe s)) \<and>
   provider_usage_valid (observe_wire snapshot_of counter_shape v)"
proof
  let ?c = "observe_cumulative previous (provider_observe s)"
  show "provider_usage_valid ?c"
    by (rule provider_usage_valid_iff [OF host_shape_cumulative [OF host_shape_observe]
          forgets_total_ok [OF forgets_cumulative] forgets_parts_ok [OF forgets_cumulative]
          forgets_reasoning_ok [OF forgets_cumulative]]) (rule provider_observe_ok)+
  have observe: "provider_usage_valid (provider_observe t)" for t
    by (rule provider_usage_valid_iff [OF host_shape_observe provider_observe_ok])
  have "host_shape all_invalid"
    unfolding all_invalid_def
    by (intro host_shape_fold host_shape_default host_shape_invalid) (simp_all add: VIOLATIONS_def)
  moreover have "usage_value all_invalid ''input_tokens'' = None" "usage_value all_invalid ''reasoning_output_tokens'' = None"
    by (simp_all add: all_invalid_def FIELDS_def)
  ultimately have "provider_usage_valid all_invalid"
    by (intro provider_usage_valid_iff) (simp_all add: total_ok_def parts_ok_def reasoning_ok_def)
  with observe show "provider_usage_valid (observe_wire snapshot_of counter_shape v)"
    by (simp add: observe_wire_def split: option.split)
qed

end
