(* ===== verification/Accounting.thy ===== *)
theory Accounting
  imports Usage_Contract
begin

text \<open>
  \<open>Accounting\<close> of \<open>src/src/adapters/managed.rs\<close>: the numeric usage and the allowlisted identities
  that a managed call reports, apart from its replay data. The managed adapters produce it
  (\<open>Managed_Output\<close>) and the attempt of \<open>Usage_Attempt\<close> records it.
\<close>

record accounting =
  ag_usage :: canonical_usage
  ag_model :: "string option"
  ag_response_id :: "string option"
  ag_upstream :: usage_outcome

text \<open>\<open>value.filter(|v| !v.is_null()).unwrap_or(&empty)\<close>.\<close>

definition present_or_empty :: "json option \<Rightarrow> json" where
  "present_or_empty v = (case v of Some x \<Rightarrow> if is_null x then obj [] else x | None \<Rightarrow> obj [])"

definition safe_text :: "json \<Rightarrow> string \<Rightarrow> string option" where
  "safe_text v key = (case str_at v key of Some s \<Rightarrow> if safe_label s then Some s else None | None \<Rightarrow> None)"

definition accounting_new :: "usage_profile \<Rightarrow> json option \<Rightarrow> json \<Rightarrow> usage_outcome \<Rightarrow> accounting" where
  "accounting_new p usage metadata upstream =
     \<lparr>ag_usage = normalize p (extract_counters p (present_or_empty usage)),
      ag_model = safe_text metadata ''model'', ag_response_id = safe_text metadata ''id'', ag_upstream = upstream\<rparr>"

end
