(* ===== verification/Usage_Attempt.thy ===== *)
theory Usage_Attempt
  imports Usage_Provider Accounting
begin

text \<open>
  Accounting of one upstream attempt, \<open>src/src/usage/mod.rs\<close> and \<open>src/src/usage/provider.rs\<close>: an attempt
  is started with a reserved slot in the recorder's queue, reports usage as it is observed, and ends
  with a terminal event, by \<open>finish\<close> or when the value is dropped. What the queue, the clock and the
  identifier source do is an argument of every operation (\<open>delivery\<close>): whether a message found room,
  whether it was acknowledged in time, the time, and a fresh identifier. The events an attempt
  placed in the queue are its log. \<open>Accounting::new\<close> is from \<open>src/src/adapters/managed.rs\<close>.
\<close>

section \<open>Attempts with built-in profiles\<close>

record delivery =
  dl_now :: u64
  dl_id :: string
  dl_sent :: bool
  dl_acked :: bool

record usage_sink =
  us_mode :: recorder_mode
  us_producer :: string
  us_supports_v2 :: bool

record attempt =
  at_mode :: recorder_mode
  at_terminal :: bool
  at_event :: usage_event
  at_accumulator :: accumulator
  at_finished :: bool
  at_log :: "usage_event list"
  at_dropped :: nat

definition at_put :: "attempt \<Rightarrow> usage_event \<Rightarrow> attempt" where
  "at_put a e = a\<lparr>at_event := e\<rparr>"

definition refresh :: "delivery \<Rightarrow> attempt \<Rightarrow> attempt" where
  "refresh d a =
     at_put a ((at_event a)\<lparr>ue_observed_at_ms := max (dl_now d) (ue_started_at_ms (at_event a)),
       ue_usage := ac_usage (at_accumulator a),
       ue_observation_incomplete := ue_observation_incomplete (at_event a) \<or> ac_incomplete (at_accumulator a)\<rparr>)"

definition acknowledged :: "delivery \<Rightarrow> recorder_mode \<Rightarrow> unit + unit" where
  "acknowledged d mode = (if mode = DurableLocal \<and> \<not> dl_acked d then Err () else Ok ())"

definition deliver :: "bool \<Rightarrow> delivery \<Rightarrow> attempt \<Rightarrow> (unit + unit) \<times> attempt" where
  "deliver terminal d a0 =
     (let a = refresh d a0 in
      if terminal then
        (if \<not> at_terminal a then (Err (), a)
         else (acknowledged d (at_mode a), a\<lparr>at_terminal := False, at_log := at_log a @ [at_event a]\<rparr>))
      else if at_mode a = DurableLocal then
        (if \<not> dl_sent d then (Err (), a)
         else (acknowledged d (at_mode a), a\<lparr>at_log := at_log a @ [at_event a]\<rparr>))
      else if \<not> dl_sent d then (Ok (), a\<lparr>at_dropped := at_dropped a + 1\<rparr>)
      else (acknowledged d (at_mode a), a\<lparr>at_log := at_log a @ [at_event a]\<rparr>))"

definition next_event_of :: "event_kind \<Rightarrow> delivery \<Rightarrow> attempt \<Rightarrow> attempt" where
  "next_event_of kind d a =
     at_put a ((at_event a)\<lparr>ue_revision := ue_revision (at_event a) + 1, ue_event_id := dl_id d, ue_kind := kind\<rparr>)"

definition seen_finality :: "canonical_usage \<Rightarrow> finality" where
  "seen_finality u = (if observed u then Partial else Unobserved)"

definition report_update :: "delivery \<Rightarrow> attempt \<Rightarrow> (unit + unit) \<times> attempt" where
  "report_update d a =
     (let a = next_event_of UsageUpdated d a
      in deliver False d (at_put a ((at_event a)\<lparr>ue_finality := seen_finality (ac_usage (at_accumulator a))\<rparr>)))"

definition attempt_observe :: "json \<Rightarrow> delivery \<Rightarrow> attempt \<Rightarrow> (unit + unit) \<times> attempt" where
  "attempt_observe v d a =
     (if at_finished a then (Ok (), a)
      else let (changed, acc) = observe (at_accumulator a) v; a = a\<lparr>at_accumulator := acc\<rparr>
           in if changed then report_update d a else (Ok (), a))"

definition or_keep :: "'a option \<Rightarrow> 'a option \<Rightarrow> 'a option" where
  "or_keep new old = (case new of Some _ \<Rightarrow> new | None \<Rightarrow> old)"

definition attempt_observe_managed :: "accounting \<Rightarrow> delivery \<Rightarrow> attempt \<Rightarrow> (unit + unit) \<times> attempt" where
  "attempt_observe_managed snapshot d a0 =
     (let e = at_event a0;
          a = at_put a0 (e\<lparr>ue_reported_model := or_keep (ag_model snapshot) (ue_reported_model e),
            ue_provider_response_id := or_keep (ag_response_id snapshot) (ue_provider_response_id e),
            ue_upstream := ag_upstream snapshot\<rparr>)
      in if at_finished a then (Ok (), a)
         else let (changed, acc) = observe_counters (at_accumulator a) (cu_reported (ag_usage snapshot));
                  a = a\<lparr>at_accumulator := acc\<rparr>
              in if changed then report_update d a else (Ok (), a))"

definition attempt_incomplete :: "attempt \<Rightarrow> attempt" where
  "attempt_incomplete a =
     at_put (a\<lparr>at_accumulator := (at_accumulator a)\<lparr>ac_incomplete := True\<rparr>\<rparr>)
       ((at_event a)\<lparr>ue_observation_incomplete := True\<rparr>)"

definition final_finality :: "attempt \<Rightarrow> finality" where
  "final_finality a =
     (let u = ac_usage (at_accumulator a) in
      if \<not> observed u then Unobserved
      else if \<not> ac_incomplete (at_accumulator a) \<and> ue_upstream (at_event a) \<in> {Completed, Incomplete} \<and> cu_violations u = []
      then Final else Partial)"

definition attempt_finish :: "usage_outcome \<Rightarrow> delivery \<Rightarrow> attempt \<Rightarrow> (unit + unit) \<times> attempt" where
  "attempt_finish gateway d a0 =
     (if at_finished a0 then (Ok (), a0)
      else let a = next_event_of AttemptFinished d (a0\<lparr>at_finished := True\<rparr>)
           in deliver True d (at_put a ((at_event a)\<lparr>ue_gateway := gateway, ue_finality := final_finality a\<rparr>)))"

definition payload_source :: "json \<Rightarrow> json" where
  "payload_source v =
     (case jget v ''response'' of
        Some w \<Rightarrow> w
      | None \<Rightarrow> (case jget v ''message'' of Some w \<Rightarrow> w | None \<Rightarrow> v))"

definition payload_metadata :: "json \<Rightarrow> attempt \<Rightarrow> attempt" where
  "payload_metadata v a =
     (let s = payload_source v; e = at_event a
      in at_put a (e\<lparr>ue_reported_model := or_keep (safe_text s ''model'') (ue_reported_model e),
           ue_provider_response_id := or_keep (safe_text s ''id'') (ue_provider_response_id e)\<rparr>))"

definition payload_outcome :: "json \<Rightarrow> attempt \<Rightarrow> attempt" where
  "payload_outcome v a =
     (let kind = (case str_at v ''type'' of Some k \<Rightarrow> k | None \<Rightarrow> '''') in
      if kind \<in> {''response.completed'', ''message_stop''} then at_put a ((at_event a)\<lparr>ue_upstream := Completed\<rparr>)
      else if kind = ''response.incomplete'' then at_put a ((at_event a)\<lparr>ue_upstream := Incomplete\<rparr>)
      else if kind \<in> {''response.failed'', ''error''} then at_put a ((at_event a)\<lparr>ue_upstream := Failed\<rparr>)
      else a)"

definition payload_usage :: "json \<Rightarrow> delivery \<Rightarrow> attempt \<Rightarrow> (unit + unit) \<times> attempt" where
  "payload_usage v d a =
     (case jget (payload_source v) ''usage'' of
        Some u \<Rightarrow> if is_null u then (Ok (), a) else attempt_observe u d a
      | None \<Rightarrow> (Ok (), a))"

definition observe_payload :: "json \<Rightarrow> delivery \<Rightarrow> attempt \<Rightarrow> (unit + unit) \<times> attempt" where
  "observe_payload v d a =
     (let (r, b) = payload_usage v d (payload_metadata v a)
      in case r of Inl e \<Rightarrow> (Err e, b) | Inr _ \<Rightarrow> (Ok (), payload_outcome v b))"

definition attempt_drop :: "delivery \<Rightarrow> attempt \<Rightarrow> attempt" where
  "attempt_drop d a0 =
     (if at_finished a0 then a0
      else
        let a = next_event_of AttemptFinished d a0;
            a = at_put a ((at_event a)\<lparr>ue_gateway :=
              (if ue_gateway (at_event a) = InProgress then Cancelled else ue_gateway (at_event a))\<rparr>);
            a = refresh d a;
            a = at_put a ((at_event a)\<lparr>ue_finality := seen_finality (ac_usage (at_accumulator a))\<rparr>)
        in if at_terminal a then a\<lparr>at_terminal := False, at_log := at_log a @ [at_event a]\<rparr> else a)"

datatype attempt_start = NotRecorded nat | StartRefused | StartFailed attempt | Started attempt

definition start_attempt :: "usage_sink option \<Rightarrow> usage_event \<Rightarrow> bool \<Rightarrow> delivery \<Rightarrow> delivery \<Rightarrow> attempt_start" where
  "start_attempt sink event reserved d d_drop =
     (case sink of
        None \<Rightarrow> NotRecorded 0
      | Some s \<Rightarrow>
          if us_mode s = Off then NotRecorded 0
          else if \<not> reserved then (if us_mode s = DurableLocal then StartRefused else NotRecorded 1)
          else
            let a = \<lparr>at_mode = us_mode s, at_terminal = True, at_event = event\<lparr>ue_producer_id := us_producer s\<rparr>,
                     at_accumulator = accumulator_new (ue_profile event), at_finished = False, at_log = [], at_dropped = 0\<rparr>
            in case deliver False d a of
                 (Inl _, a) \<Rightarrow> StartFailed (attempt_drop d_drop a)
               | (Inr _, a) \<Rightarrow> Started a)"

text \<open>The calls the proxy makes on a started attempt, in any order.\<close>

datatype attempt_call =
    Observe json delivery
  | ObserveManaged accounting delivery
  | ObservePayload json delivery
  | MarkIncomplete
  | SetUpstream usage_outcome
  | SetGateway usage_outcome
  | SetProviderRequest "string option"
  | Finish usage_outcome delivery

fun attempt_step :: "attempt \<Rightarrow> attempt_call \<Rightarrow> (unit + unit) \<times> attempt" where
  "attempt_step a (Observe v d) = attempt_observe v d a"
| "attempt_step a (ObserveManaged s d) = attempt_observe_managed s d a"
| "attempt_step a (ObservePayload v d) = observe_payload v d a"
| "attempt_step a MarkIncomplete = (Ok (), attempt_incomplete a)"
| "attempt_step a (SetUpstream u) = (Ok (), at_put a ((at_event a)\<lparr>ue_upstream := u\<rparr>))"
| "attempt_step a (SetGateway g) = (Ok (), at_put a ((at_event a)\<lparr>ue_gateway := g\<rparr>))"
| "attempt_step a (SetProviderRequest i) = (Ok (), at_put a ((at_event a)\<lparr>ue_provider_request_id := i\<rparr>))"
| "attempt_step a (Finish g d) = attempt_finish g d a"
section \<open>Attempts of provider packages\<close>

record provider_identity =
  pi_protocol :: string
  pi_provider_protocol :: string
  pi_id :: string
  pi_version :: string
  pi_package_sha256 :: string
  pi_executable_sha256 :: string

definition interpretation_of :: "provider_identity \<Rightarrow> usage_interpretation" where
  "interpretation_of i =
     \<lparr>in_kind = ''trusted_provider_plugin'', in_protocol = pi_protocol i, in_provider_protocol = pi_provider_protocol i,
      in_package_id = pi_id i, in_package_version = pi_version i, in_package_sha256 = pi_package_sha256 i,
      in_executable_sha256 = pi_executable_sha256 i\<rparr>"

record provider_observation =
  po_identity :: provider_identity
  po_usage :: canonical_usage

record provider_attempt =
  pa_mode :: recorder_mode
  pa_terminal :: bool
  pa_event :: usage_event_v2
  pa_finished :: bool
  pa_log :: "usage_event_v2 list"
  pa_dropped :: nat

definition pa_put :: "provider_attempt \<Rightarrow> usage_event_v2 \<Rightarrow> provider_attempt" where
  "pa_put a e = a\<lparr>pa_event := e\<rparr>"

definition pa_refresh :: "delivery \<Rightarrow> provider_attempt \<Rightarrow> provider_attempt" where
  "pa_refresh d a = pa_put a ((pa_event a)\<lparr>ue_observed_at_ms := max (dl_now d) (ue_started_at_ms (pa_event a))\<rparr>)"

definition pa_deliver :: "bool \<Rightarrow> delivery \<Rightarrow> provider_attempt \<Rightarrow> (unit + unit) \<times> provider_attempt" where
  "pa_deliver terminal d a0 =
     (let a = pa_refresh d a0 in
      if terminal then
        (if \<not> pa_terminal a then (Err (), a)
         else (acknowledged d (pa_mode a), a\<lparr>pa_terminal := False, pa_log := pa_log a @ [pa_event a]\<rparr>))
      else if pa_mode a = DurableLocal then
        (if \<not> dl_sent d then (Err (), a)
         else (acknowledged d (pa_mode a), a\<lparr>pa_log := pa_log a @ [pa_event a]\<rparr>))
      else if \<not> dl_sent d then (Ok (), a\<lparr>pa_dropped := pa_dropped a + 1\<rparr>)
      else (acknowledged d (pa_mode a), a\<lparr>pa_log := pa_log a @ [pa_event a]\<rparr>))"

definition pa_next :: "event_kind \<Rightarrow> delivery \<Rightarrow> provider_attempt \<Rightarrow> provider_attempt" where
  "pa_next kind d a =
     pa_put a ((pa_event a)\<lparr>ue_revision := ue_revision (pa_event a) + 1, ue_event_id := dl_id d, ue_kind := kind\<rparr>)"

definition pa_observe :: "provider_observation \<Rightarrow> delivery \<Rightarrow> provider_attempt \<Rightarrow> (unit + unit) \<times> provider_attempt" where
  "pa_observe ob d a0 =
     (if interpretation_of (po_identity ob) \<noteq> ue_profile (pa_event a0) \<or> \<not> provider_usage_valid (po_usage ob)
      then (Err (), a0)
      else if pa_finished a0 then (Ok (), a0)
      else if ue_usage (pa_event a0) = po_usage ob then (Ok (), a0)
      else
        let u = po_usage ob;
            a = pa_put a0 ((pa_event a0)\<lparr>ue_usage := u,
              ue_observation_incomplete := ue_observation_incomplete (pa_event a0) \<or> cu_violations u \<noteq> [] \<or> any_invalid u,
              ue_finality := seen_finality u\<rparr>)
        in pa_deliver False d (pa_next UsageUpdated d a))"

definition pa_finish :: "usage_outcome \<Rightarrow> delivery \<Rightarrow> provider_attempt \<Rightarrow> (unit + unit) \<times> provider_attempt" where
  "pa_finish gateway d a0 =
     (if pa_finished a0 then (Ok (), a0)
      else
        let a = pa_next AttemptFinished d (a0\<lparr>pa_finished := True\<rparr>); e = (pa_event a)\<lparr>ue_gateway := gateway\<rparr>;
            finality = (if \<not> observed (ue_usage e) then Unobserved
              else if \<not> ue_observation_incomplete e \<and> cu_violations (ue_usage e) = [] \<and>
                      ue_upstream e \<in> {Completed, Incomplete}
              then Final else Partial)
        in pa_deliver True d (pa_put a (e\<lparr>ue_finality := finality\<rparr>)))"

definition pa_drop :: "delivery \<Rightarrow> provider_attempt \<Rightarrow> provider_attempt" where
  "pa_drop d a0 =
     (if pa_finished a0 then a0
      else
        let a = pa_next AttemptFinished d a0; e = pa_event a;
            a = pa_refresh d (pa_put a (e\<lparr>ue_gateway := (if ue_gateway e = InProgress then Cancelled else ue_gateway e),
              ue_observation_incomplete := True, ue_finality := seen_finality (ue_usage e)\<rparr>))
        in if pa_terminal a then a\<lparr>pa_terminal := False, pa_log := pa_log a @ [pa_event a]\<rparr> else a)"

datatype provider_start = ProviderNotRecorded nat | ProviderRefused | ProviderFailed provider_attempt | ProviderStarted provider_attempt

definition start_provider_attempt ::
  "usage_sink option \<Rightarrow> usage_event_v2 \<Rightarrow> bool \<Rightarrow> delivery \<Rightarrow> delivery \<Rightarrow> provider_start" where
  "start_provider_attempt sink event reserved d d_drop =
     (case sink of
        None \<Rightarrow> ProviderNotRecorded 0
      | Some s \<Rightarrow>
          if us_mode s = Off then ProviderNotRecorded 0
          else if \<not> us_supports_v2 s then ProviderRefused
          else if \<not> reserved then (if us_mode s = DurableLocal then ProviderRefused else ProviderNotRecorded 1)
          else
            let a = \<lparr>pa_mode = us_mode s, pa_terminal = True, pa_event = event\<lparr>ue_producer_id := us_producer s\<rparr>,
                     pa_finished = False, pa_log = [], pa_dropped = 0\<rparr>
            in case pa_deliver False d a of
                 (Inl _, a) \<Rightarrow> ProviderFailed (pa_drop d_drop a)
               | (Inr _, a) \<Rightarrow> ProviderStarted a)"

section \<open>The log of an attempt\<close>

definition log_upto :: "nat \<Rightarrow> 'p event_of list \<Rightarrow> bool" where
  "log_upto k log \<longleftrightarrow>
     sorted_wrt (<) (map (\<lambda>e. unat (ue_revision e)) log) \<and> (\<forall>e \<in> set log. unat (ue_revision e) \<le> k)"

definition one_terminal :: "'p event_of list \<Rightarrow> bool" where
  "one_terminal log \<longleftrightarrow> log \<noteq> [] \<and> ue_kind (last log) = AttemptFinished \<and>
     (\<forall>e \<in> set (butlast log). ue_kind e \<noteq> AttemptFinished)"

definition attempt_running :: "nat \<Rightarrow> attempt \<Rightarrow> bool" where
  "attempt_running k a \<longleftrightarrow> \<not> at_finished a \<and> at_terminal a \<and> ue_revision (at_event a) = of_nat k \<and>
     log_upto k (at_log a) \<and> (\<forall>e \<in> set (at_log a). ue_kind e \<noteq> AttemptFinished)"

definition attempt_done :: "nat \<Rightarrow> attempt \<Rightarrow> bool" where
  "attempt_done k a \<longleftrightarrow> at_finished a \<and> log_upto k (at_log a) \<and> one_terminal (at_log a)"

lemma log_upto_snoc:
  assumes "log_upto k log" and "unat (ue_revision e) = Suc k"
  shows "log_upto (Suc k) (log @ [e])"
proof -
  have "\<forall>x \<in> set log. unat (ue_revision x) < unat (ue_revision e)"
    using assms by (auto simp: log_upto_def)
  with assms show ?thesis by (auto simp: log_upto_def sorted_wrt_append)
qed

lemma log_upto_mono: "log_upto k log \<Longrightarrow> k \<le> j \<Longrightarrow> log_upto j log"
  by (auto simp: log_upto_def intro: order_trans)

lemma one_terminal_snoc:
  "\<forall>e \<in> set log. ue_kind e \<noteq> AttemptFinished \<Longrightarrow> ue_kind t = AttemptFinished \<Longrightarrow> one_terminal (log @ [t])"
  by (simp add: one_terminal_def)

lemma revision_Suc:
  "Suc k < 2 ^ 64 \<Longrightarrow> unat (of_nat k + 1 :: u64) = Suc k"
proof -
  assume "Suc k < 2 ^ 64"
  then have "unat (of_nat (Suc k) :: u64) = Suc k"
    by (simp only: unat_of_nat) simp
  then show ?thesis by (simp add: add.commute)
qed

lemma at_put_simps [simp]:
  "at_event (at_put a e) = e" "at_log (at_put a e) = at_log a" "at_finished (at_put a e) = at_finished a"
  "at_terminal (at_put a e) = at_terminal a" "at_accumulator (at_put a e) = at_accumulator a" "at_mode (at_put a e) = at_mode a"
  by (simp_all add: at_put_def)

lemma report_update_running:
  assumes "attempt_running k a" and "Suc k < 2 ^ 64"
  shows "attempt_running (Suc k) (snd (report_update d a))"
proof -
  have "unat (ue_revision (at_event a) + 1) = Suc k"
    using assms by (simp add: attempt_running_def revision_Suc)
  moreover have "log_upto (Suc k) (at_log a)"
    using assms(1) by (auto simp: attempt_running_def intro: log_upto_mono)
  ultimately show ?thesis
    using assms(1) unfolding report_update_def deliver_def refresh_def next_event_of_def attempt_running_def
    by (auto simp: Let_def intro!: log_upto_snoc)
qed

lemma attempt_running_update:
  assumes "attempt_running k a"
  shows "attempt_running k (a\<lparr>at_accumulator := c\<rparr>)"
    "ue_revision e = ue_revision (at_event a) \<Longrightarrow> attempt_running k (at_put a e)"
  using assms by (simp_all add: attempt_running_def)

lemma attempt_observe_running:
  assumes "attempt_running k a" and "Suc k < 2 ^ 64"
  shows "\<exists>j \<in> {k, Suc k}. attempt_running j (snd (attempt_observe v d a))"
  using assms attempt_running_update(1) [OF assms(1)] report_update_running [OF _ assms(2)]
  by (auto simp: attempt_observe_def Let_def split: prod.split)

lemma attempt_observe_managed_running:
  assumes "attempt_running k a" and "Suc k < 2 ^ 64"
  shows "\<exists>j \<in> {k, Suc k}. attempt_running j (snd (attempt_observe_managed s d a))"
proof -
  define b where "b = at_put a ((at_event a)\<lparr>ue_reported_model := or_keep (ag_model s) (ue_reported_model (at_event a)),
      ue_provider_response_id := or_keep (ag_response_id s) (ue_provider_response_id (at_event a)), ue_upstream := ag_upstream s\<rparr>)"
  have b: "attempt_running k b"
    unfolding b_def by (rule attempt_running_update(2) [OF assms(1)]) simp
  show ?thesis
    using b attempt_running_update(1) [OF b] report_update_running [OF _ assms(2)]
    by (auto simp: attempt_observe_managed_def Let_def b_def [symmetric] split: prod.split)
qed

lemma observe_payload_running:
  assumes "attempt_running k a" and "Suc k < 2 ^ 64"
  shows "\<exists>j \<in> {k, Suc k}. attempt_running j (snd (observe_payload v d a))"
proof -
  have m: "attempt_running k (payload_metadata v a)"
    unfolding payload_metadata_def Let_def by (rule attempt_running_update(2) [OF assms(1)]) simp
  have out: "attempt_running j b \<Longrightarrow> attempt_running j (payload_outcome v b)" for j b
    unfolding payload_outcome_def Let_def by (auto intro: attempt_running_update(2))
  obtain r b where rb: "payload_usage v d (payload_metadata v a) = (r, b)" by fastforce
  have "\<exists>j \<in> {k, Suc k}. attempt_running j (snd (payload_usage v d (payload_metadata v a)))"
    using m attempt_observe_running [OF m assms(2)] by (simp add: payload_usage_def split: option.split)
  with rb obtain j where "j \<in> {k, Suc k}" "attempt_running j b" by auto
  then show ?thesis
    using out by (cases r) (auto simp: observe_payload_def rb)
qed

lemma attempt_finish_done:
  assumes "attempt_running k a" and "Suc k < 2 ^ 64"
  shows "attempt_done (Suc k) (snd (attempt_finish g d a))"
proof -
  have "unat (ue_revision (at_event a) + 1) = Suc k"
    using assms by (simp add: attempt_running_def revision_Suc)
  with assms(1) show ?thesis
    unfolding attempt_finish_def deliver_def refresh_def next_event_of_def attempt_running_def attempt_done_def
    by (auto simp: Let_def intro!: log_upto_snoc one_terminal_snoc)
qed

lemma attempt_drop_done:
  assumes "attempt_running k a" and "Suc k < 2 ^ 64"
  shows "log_upto (Suc k) (at_log (attempt_drop d a))" "one_terminal (at_log (attempt_drop d a))"
proof -
  have "unat (ue_revision (at_event a) + 1) = Suc k"
    using assms by (simp add: attempt_running_def revision_Suc)
  with assms(1) show "log_upto (Suc k) (at_log (attempt_drop d a))" "one_terminal (at_log (attempt_drop d a))"
    unfolding attempt_drop_def refresh_def next_event_of_def attempt_running_def
    by (auto simp: Let_def intro!: log_upto_snoc one_terminal_snoc)
qed

lemma attempt_step_running:
  assumes "attempt_running k a" and "Suc k < 2 ^ 64"
  shows "(\<exists>j \<in> {k, Suc k}. attempt_running j (snd (attempt_step a c))) \<or> attempt_done (Suc k) (snd (attempt_step a c))"
proof (cases c)
  case (Observe v d)
  then show ?thesis using attempt_observe_running [OF assms] by simp
next
  case (ObserveManaged s d)
  then show ?thesis using attempt_observe_managed_running [OF assms] by simp
next
  case (ObservePayload v d)
  then show ?thesis using observe_payload_running [OF assms] by simp
next
  case (Finish g d)
  then show ?thesis using attempt_finish_done [OF assms] by simp
qed (use attempt_running_update(2) [OF assms(1)] attempt_running_update(1) [OF assms(1)] assms(1) in
    \<open>simp_all add: attempt_incomplete_def attempt_running_def\<close>)

lemma attempt_step_done:
  assumes "attempt_done k a"
  shows "attempt_done k (snd (attempt_step a c))"
proof -
  have put: "attempt_done k (at_put a e)" for e
    using assms by (simp add: attempt_done_def)
  have "attempt_done k (payload_outcome v b)" if "attempt_done k b" for v b
    using that by (simp add: payload_outcome_def attempt_done_def Let_def)
  then show ?thesis
    using assms put
    by (cases c) (auto simp: attempt_done_def attempt_observe_def attempt_observe_managed_def observe_payload_def payload_usage_def
        payload_metadata_def attempt_incomplete_def attempt_finish_def Let_def split: option.split)
qed

lemma run_attempt_done: "attempt_done k a \<Longrightarrow> attempt_done k (snd (run_machine attempt_step a cs))"
  by (induction cs arbitrary: a) (simp_all add: Let_def split_beta attempt_step_done)

lemma run_attempt:
  assumes "attempt_running k a" and "k + length cs < 2 ^ 64"
  shows "\<exists>j \<le> k + length cs. attempt_running j (snd (run_machine attempt_step a cs)) \<or>
    attempt_done j (snd (run_machine attempt_step a cs))"
  using assms
proof (induction cs arbitrary: k a)
  case (Cons c cs)
  let ?b = "snd (attempt_step a c)"
  have run: "snd (run_machine attempt_step a (c # cs)) = snd (run_machine attempt_step ?b cs)"
    by (simp add: Let_def split_beta)
  have k: "Suc k < 2 ^ 64" using Cons.prems(2) by simp
  consider (going) j where "j \<in> {k, Suc k}" "attempt_running j ?b" | (over) "attempt_done (Suc k) ?b"
    using attempt_step_running [OF Cons.prems(1) k, of c] by blast
  then show ?case
  proof cases
    case (going j)
    then have "j + length cs < 2 ^ 64" "j + length cs \<le> k + length (c # cs)"
      using Cons.prems(2) by auto
    with Cons.IH [OF going(2)] show ?thesis
      unfolding run by (meson order_trans)
  next
    case over
    then show ?thesis
      unfolding run using run_attempt_done [OF over] by (intro exI [of _ "Suc k"]) simp
  qed
qed auto

lemma deliver_start:
  assumes "at_log a = []" and "ue_revision (at_event a) = 0" and "ue_kind (at_event a) = AttemptStarted"
    and "\<not> at_finished a" and "at_terminal a"
  shows "attempt_running 0 (snd (deliver False d a))"
  using assms by (auto simp: deliver_def refresh_def attempt_running_def log_upto_def Let_def)
section \<open>The events of the log are valid\<close>

definition final_ok :: "usage_event \<Rightarrow> bool" where
  "final_ok e \<longleftrightarrow> ue_kind e = AttemptFinished \<and> ue_upstream e \<in> {Completed, Incomplete} \<and>
     observed (ue_usage e) \<and> cu_violations (ue_usage e) = [] \<and> \<not> ue_observation_incomplete e"

definition logged_ok :: "usage_profile \<Rightarrow> usage_event \<Rightarrow> bool" where
  "logged_ok p e \<longleftrightarrow> ue_profile e = p \<and> (usage_event_validate e \<longleftrightarrow> \<not> alias_conflict p (cu_reported (ue_usage e))) \<and>
     (ue_finality e = Final \<longrightarrow> final_ok e)"

definition event_ready :: "usage_profile \<Rightarrow> attempt \<Rightarrow> bool" where
  "event_ready p a \<longleftrightarrow> accumulator_inv (at_accumulator a) \<and> ac_profile (at_accumulator a) = ue_profile (at_event a) \<and>
     ue_profile (at_event a) = p \<and> ue_schema (at_event a) = SCHEMA \<and> event_labels_ok (at_event a) \<and>
     (ue_observation_incomplete (at_event a) \<longrightarrow> ac_incomplete (at_accumulator a))"

definition attempt_sound :: "usage_profile \<Rightarrow> attempt \<Rightarrow> bool" where
  "attempt_sound p a \<longleftrightarrow> event_ready p a \<and> (\<not> at_finished a \<longrightarrow> ue_finality (at_event a) \<noteq> Final) \<and>
     (\<forall>e \<in> set (at_log a). logged_ok p e)"

fun call_safe :: "attempt_call \<Rightarrow> bool" where
  "call_safe (Observe v d) = safe_label (dl_id d)"
| "call_safe (ObserveManaged s d) =
     (safe_label (dl_id d) \<and> pred_option safe_label (ag_model s) \<and> pred_option safe_label (ag_response_id s) \<and>
      fmpred (\<lambda>_. wire_counter) (cu_reported (ag_usage s)))"
| "call_safe (ObservePayload v d) = safe_label (dl_id d)"
| "call_safe (SetProviderRequest i) = pred_option safe_label i"
| "call_safe (Finish g d) = safe_label (dl_id d)"
| "call_safe _ = True"

text \<open>What \<open>Accounting::new\<close> produces is safe to report.\<close>

lemma safe_text_safe: "pred_option safe_label (safe_text v k)"
  by (simp add: safe_text_def split: option.split)

lemma accounting_new_safe:
  "safe_label (dl_id d) \<Longrightarrow> call_safe (ObserveManaged (accounting_new p usage metadata upstream) d)"
  using normalize_keeps(2) [OF extract_reported_ok, of p] extract_reported_ok [of p]
  by (auto simp: accounting_new_def safe_text_safe reported_ok_def fmpred_iff)

lemma or_keep_safe: "pred_option P x \<Longrightarrow> pred_option P y \<Longrightarrow> pred_option P (or_keep x y)"
  by (cases x) (simp_all add: or_keep_def)

lemma observe_path_incomplete: "ac_incomplete (fst s) \<Longrightarrow> ac_incomplete (fst (observe_path q s))"
  by (auto simp: observe_path_def split: prod.splits option.splits)

lemma observe_counters_incomplete: "ac_incomplete a \<Longrightarrow> ac_incomplete (snd (observe_counters a m))"
proof -
  have "ac_incomplete (fst s) \<Longrightarrow> ac_incomplete (fst (fold observe_path ps s))" for ps s
    by (induction ps arbitrary: s) (simp_all add: observe_path_incomplete)
  then show "ac_incomplete a \<Longrightarrow> ac_incomplete (snd (observe_counters a m))"
    by (simp add: observe_counters_def Let_def split_beta)
qed

lemma observe_counters_profile: "ac_profile (snd (observe_counters a m)) = ac_profile a"
  using observe_paths_profile [of "sorted_list_of_fmap m" "(a, False)"]
  by (simp add: observe_counters_def Let_def split_beta)

lemma observe_incomplete: "ac_incomplete a \<Longrightarrow> ac_incomplete (snd (observe a v))"
  by (simp add: observe_def observe_counters_incomplete)

lemma refreshed_valid:
  assumes "event_ready p a"
    and "(ue_kind (at_event a) \<noteq> AttemptStarted \<or> ue_revision (at_event a) = 0) \<and>
      (ue_kind (at_event a) = AttemptStarted \<or> 0 < ue_revision (at_event a))"
  shows "usage_event_validate (at_event (refresh d a)) \<longleftrightarrow> \<not> alias_conflict p (cu_reported (ac_usage (at_accumulator a)))"
proof -
  let ?e = "at_event (refresh d a)" and ?c = "at_accumulator a"
  have e: "ue_profile ?e = ac_profile ?c" "ue_usage ?e = ac_usage ?c" "ue_schema ?e = SCHEMA"
    using assms(1) by (simp_all add: refresh_def event_ready_def)
  have inv: "accumulator_inv ?c" and p: "ac_profile ?c = p"
    using assms(1) by (simp_all add: event_ready_def)
  have "event_header_ok ?e"
    using assms by (simp add: event_header_ok_def event_labels_ok_def refresh_def event_ready_def)
  moreover have "event_consistent ?e"
    by (rule accumulated_consistent [OF inv e(1,2)])
  moreover have "usage_validate (ac_usage ?c) \<longleftrightarrow> \<not> alias_conflict p (cu_reported (ac_usage ?c))"
    using accumulated_validate [OF inv] accumulated_reported [OF inv] p by simp
  ultimately show ?thesis by (simp add: usage_event_validate_def e)
qed
lemma event_ready_put:
  "event_ready p a \<Longrightarrow> ue_profile e = ue_profile (at_event a) \<Longrightarrow> ue_schema e = SCHEMA \<Longrightarrow> event_labels_ok e \<Longrightarrow>
   ue_observation_incomplete e = ue_observation_incomplete (at_event a) \<Longrightarrow> event_ready p (at_put a e)"
  by (simp add: event_ready_def)

lemma event_ready_next: "event_ready p a \<Longrightarrow> safe_label (dl_id d) \<Longrightarrow> event_ready p (next_event_of kind d a)"
  unfolding next_event_of_def by (rule event_ready_put) (simp_all add: event_ready_def event_labels_ok_def)

lemma event_ready_refresh: "event_ready p a \<Longrightarrow> event_ready p (refresh d a)"
  by (simp add: event_ready_def refresh_def event_labels_ok_def)

definition final_claim :: "attempt \<Rightarrow> bool" where
  "final_claim a \<longleftrightarrow> (ue_finality (at_event a) = Final \<longrightarrow>
     ue_kind (at_event a) = AttemptFinished \<and> ue_upstream (at_event a) \<in> {Completed, Incomplete} \<and>
     observed (ac_usage (at_accumulator a)) \<and> cu_violations (ac_usage (at_accumulator a)) = [] \<and>
     \<not> ac_incomplete (at_accumulator a))"

lemma refreshed_logged:
  assumes "event_ready p a" and "final_claim a"
    and "(ue_kind (at_event a) \<noteq> AttemptStarted \<or> ue_revision (at_event a) = 0) \<and>
      (ue_kind (at_event a) = AttemptStarted \<or> 0 < ue_revision (at_event a))"
  shows "logged_ok p (at_event (refresh d a))"
  using refreshed_valid [OF assms(1,3)] assms(1,2)
  by (auto simp: logged_ok_def final_ok_def final_claim_def refresh_def event_ready_def)

lemma deliver_logs:
  assumes "event_ready p a" and "final_claim a" and "\<forall>e \<in> set (at_log a). logged_ok p e"
    and "(ue_kind (at_event a) \<noteq> AttemptStarted \<or> ue_revision (at_event a) = 0) \<and>
      (ue_kind (at_event a) = AttemptStarted \<or> 0 < ue_revision (at_event a))"
  shows "event_ready p (snd (deliver terminal d a)) \<and> (\<forall>e \<in> set (at_log (snd (deliver terminal d a))). logged_ok p e) \<and>
    ue_finality (at_event (snd (deliver terminal d a))) = ue_finality (at_event a) \<and>
    at_finished (snd (deliver terminal d a)) = at_finished a"
proof -
  have log: "at_log (refresh d a) = at_log a" "at_finished (refresh d a) = at_finished a"
    "ue_finality (at_event (refresh d a)) = ue_finality (at_event a)"
    by (simp_all add: refresh_def)
  show ?thesis
    using refreshed_logged [OF assms(1,2,4), of d] event_ready_refresh [OF assms(1), of d] assms(3)
    by (auto simp: deliver_def Let_def log event_ready_def)
qed

lemma next_positive:
  assumes "attempt_running k a" and "Suc k < 2 ^ 64"
  shows "0 < ue_revision (at_event a) + 1"
  using revision_Suc [OF assms(2)] assms(1) by (simp add: attempt_running_def word_gt_0 unat_eq_zero) (metis nat.distinct(1) unat_eq_zero)

lemma report_update_sound:
  assumes "event_ready p a" and "\<forall>e \<in> set (at_log a). logged_ok p e" and "attempt_running k a" and "Suc k < 2 ^ 64"
    and "safe_label (dl_id d)"
  shows "attempt_sound p (snd (report_update d a))"
proof -
  define b where "b = next_event_of UsageUpdated d a"
  define c where "c = at_put b ((at_event b)\<lparr>ue_finality := seen_finality (ac_usage (at_accumulator b))\<rparr>)"
  have b: "event_ready p b"
    unfolding b_def by (rule event_ready_next [OF assms(1,5)])
  have "event_ready p c"
    unfolding c_def by (rule event_ready_put [OF b]) (use b in \<open>simp_all add: event_ready_def event_labels_ok_def\<close>)
  moreover have "final_claim c" and fin: "ue_finality (at_event c) \<noteq> Final"
    by (simp_all add: c_def final_claim_def seen_finality_def)
  moreover have "\<forall>e \<in> set (at_log c). logged_ok p e"
    using assms(2) by (simp add: c_def b_def next_event_of_def)
  moreover have "(ue_kind (at_event c) \<noteq> AttemptStarted \<or> ue_revision (at_event c) = 0) \<and>
      (ue_kind (at_event c) = AttemptStarted \<or> 0 < ue_revision (at_event c))"
    using next_positive [OF assms(3,4)] by (simp add: c_def b_def next_event_of_def)
  ultimately have "attempt_sound p (snd (deliver False d c))"
    using deliver_logs [of p c False d] by (simp add: attempt_sound_def)
  then show ?thesis
    by (simp add: report_update_def Let_def b_def c_def)
qed

lemma event_ready_observe:
  "event_ready p a \<Longrightarrow> event_ready p (a\<lparr>at_accumulator := snd (observe (at_accumulator a) v)\<rparr>)"
  by (simp add: event_ready_def observe_inv observe_profile observe_incomplete)

lemma event_ready_counters:
  "event_ready p a \<Longrightarrow> fmpred (\<lambda>_. wire_counter) m \<Longrightarrow>
     event_ready p (a\<lparr>at_accumulator := snd (observe_counters (at_accumulator a) m)\<rparr>)"
  by (auto simp: event_ready_def observe_counters_profile observe_counters_incomplete accumulator_inv_def [of "at_accumulator a"]
      intro!: observe_counters_inv)

lemma attempt_observe_sound:
  assumes "attempt_sound p a" and "attempt_running k a" and "Suc k < 2 ^ 64" and "safe_label (dl_id d)"
  shows "attempt_sound p (snd (attempt_observe v d a))"
proof -
  let ?b = "a\<lparr>at_accumulator := snd (observe (at_accumulator a) v)\<rparr>"
  have a: "event_ready p a" "\<forall>e \<in> set (at_log a). logged_ok p e" "\<not> at_finished a" "ue_finality (at_event a) \<noteq> Final"
    using assms(1,2) by (simp_all add: attempt_sound_def attempt_running_def)
  have b: "event_ready p ?b" by (rule event_ready_observe [OF a(1)])
  have "attempt_sound p (snd (report_update d ?b))"
    using report_update_sound [OF b _ attempt_running_update(1) [OF assms(2)] assms(3,4)] a(2) by simp
  moreover have "attempt_sound p ?b"
    using a b by (simp add: attempt_sound_def)
  ultimately show ?thesis
    using a(3) by (simp add: attempt_observe_def Let_def split_beta)
qed

lemma labels_update:
  "event_labels_ok e \<Longrightarrow> pred_option safe_label m \<Longrightarrow> pred_option safe_label i \<Longrightarrow>
     event_labels_ok (e\<lparr>ue_reported_model := or_keep m (ue_reported_model e),
       ue_provider_response_id := or_keep i (ue_provider_response_id e)\<rparr>)"
  by (simp add: event_labels_ok_def or_keep_safe)

lemma attempt_observe_managed_sound:
  assumes "attempt_sound p a" and "attempt_running k a" and "Suc k < 2 ^ 64" and "call_safe (ObserveManaged s d)"
  shows "attempt_sound p (snd (attempt_observe_managed s d a))"
proof -
  define b where "b = at_put a ((at_event a)\<lparr>ue_reported_model := or_keep (ag_model s) (ue_reported_model (at_event a)),
      ue_provider_response_id := or_keep (ag_response_id s) (ue_provider_response_id (at_event a)), ue_upstream := ag_upstream s\<rparr>)"
  let ?c = "b\<lparr>at_accumulator := snd (observe_counters (at_accumulator b) (cu_reported (ag_usage s)))\<rparr>"
  have a: "event_ready p a" "\<forall>e \<in> set (at_log a). logged_ok p e" "\<not> at_finished a" "ue_finality (at_event a) \<noteq> Final"
    using assms(1,2) by (simp_all add: attempt_sound_def attempt_running_def)
  have "event_ready p b"
    unfolding b_def using a(1) assms(4)
    by (intro event_ready_put) (simp_all add: event_ready_def event_labels_ok_def or_keep_safe)
  then have c: "event_ready p ?c"
    using assms(4) by (intro event_ready_counters) simp_all
  have run: "attempt_running k b"
    unfolding b_def by (rule attempt_running_update(2) [OF assms(2)]) simp
  have log: "\<forall>e \<in> set (at_log ?c). logged_ok p e" "\<not> at_finished ?c" "ue_finality (at_event ?c) \<noteq> Final"
    using a by (simp_all add: b_def)
  have acc: "at_accumulator b = at_accumulator a"
    by (simp add: b_def)
  have "attempt_sound p (snd (report_update d ?c))"
    using report_update_sound [OF c log(1) attempt_running_update(1) [OF run] assms(3)] assms(4) by simp
  moreover have "attempt_sound p ?c"
    using c log by (simp add: attempt_sound_def)
  ultimately show ?thesis
    using a(3) by (simp add: attempt_observe_managed_def Let_def split_beta b_def [symmetric] acc)
qed

lemma observe_payload_sound:
  assumes "attempt_sound p a" and "attempt_running k a" and "Suc k < 2 ^ 64" and "safe_label (dl_id d)"
  shows "attempt_sound p (snd (observe_payload v d a))"
proof -
  let ?b = "payload_metadata v a"
  have a: "event_ready p a" "\<forall>e \<in> set (at_log a). logged_ok p e" "\<not> at_finished a" "ue_finality (at_event a) \<noteq> Final"
    using assms(1,2) by (simp_all add: attempt_sound_def attempt_running_def)
  have "event_ready p ?b"
    unfolding payload_metadata_def Let_def using a(1)
    by (intro event_ready_put) (simp_all add: event_ready_def labels_update safe_text_safe)
  then have b: "attempt_sound p ?b"
    using a by (simp add: attempt_sound_def payload_metadata_def Let_def)
  have run: "attempt_running k ?b"
    unfolding payload_metadata_def Let_def by (rule attempt_running_update(2) [OF assms(2)]) simp
  have "attempt_sound p (snd (payload_usage v d ?b))"
    using b attempt_observe_sound [OF b run assms(3,4)] by (simp add: payload_usage_def split: option.split)
  moreover have "attempt_sound p (payload_outcome v c)" if "attempt_sound p c" for c
    using that by (auto simp: payload_outcome_def Let_def attempt_sound_def event_ready_def event_labels_ok_def)
  ultimately show ?thesis
    by (cases "payload_usage v d ?b"; cases "fst (payload_usage v d ?b)") (auto simp: observe_payload_def)
qed

lemma attempt_finish_logged:
  assumes "attempt_sound p a" and "attempt_running k a" and "Suc k < 2 ^ 64" and "safe_label (dl_id d)"
  shows "\<forall>e \<in> set (at_log (snd (attempt_finish g d a))). logged_ok p e"
proof -
  define b where "b = next_event_of AttemptFinished d (a\<lparr>at_finished := True\<rparr>)"
  define c where "c = at_put b ((at_event b)\<lparr>ue_gateway := g, ue_finality := final_finality b\<rparr>)"
  have a: "event_ready p (a\<lparr>at_finished := True\<rparr>)" "\<forall>e \<in> set (at_log a). logged_ok p e" "\<not> at_finished a"
    using assms(1,2) by (simp_all add: attempt_sound_def attempt_running_def event_ready_def)
  have b: "event_ready p b"
    unfolding b_def by (rule event_ready_next [OF a(1) assms(4)])
  have "event_ready p c"
    unfolding c_def by (rule event_ready_put [OF b]) (use b in \<open>simp_all add: event_ready_def event_labels_ok_def\<close>)
  moreover have "final_claim c"
    by (simp add: c_def b_def final_claim_def final_finality_def next_event_of_def Let_def)
  moreover have "\<forall>e \<in> set (at_log c). logged_ok p e"
    using a(2) by (simp add: c_def b_def next_event_of_def)
  moreover have "(ue_kind (at_event c) \<noteq> AttemptStarted \<or> ue_revision (at_event c) = 0) \<and>
      (ue_kind (at_event c) = AttemptStarted \<or> 0 < ue_revision (at_event c))"
    using next_positive [OF assms(2,3)] by (simp add: c_def b_def next_event_of_def)
  ultimately have "\<forall>e \<in> set (at_log (snd (deliver True d c))). logged_ok p e"
    using deliver_logs [of p c True d] by simp
  then show ?thesis
    using a(3) by (simp add: attempt_finish_def Let_def b_def c_def)
qed

lemma attempt_drop_logged:
  assumes "attempt_sound p a" and "attempt_running k a" and "Suc k < 2 ^ 64" and "safe_label (dl_id d)"
  shows "\<forall>e \<in> set (at_log (attempt_drop d a)). logged_ok p e"
proof -
  define b where "b = next_event_of AttemptFinished d a"
  define g where "g = (if ue_gateway (at_event b) = InProgress then Cancelled else ue_gateway (at_event b))"
  define c where "c = at_put b ((at_event b)\<lparr>ue_gateway := g, ue_finality := seen_finality (ac_usage (at_accumulator b))\<rparr>)"
  have a: "event_ready p a" "\<forall>e \<in> set (at_log a). logged_ok p e" "\<not> at_finished a" "at_terminal a"
    using assms(1,2) by (simp_all add: attempt_sound_def attempt_running_def)
  have b: "event_ready p b"
    unfolding b_def by (rule event_ready_next [OF a(1) assms(4)])
  have "event_ready p c"
    unfolding c_def by (rule event_ready_put [OF b]) (use b in \<open>simp_all add: event_ready_def event_labels_ok_def\<close>)
  moreover have "final_claim c"
    by (simp add: c_def final_claim_def seen_finality_def)
  moreover have "(ue_kind (at_event c) \<noteq> AttemptStarted \<or> ue_revision (at_event c) = 0) \<and>
      (ue_kind (at_event c) = AttemptStarted \<or> 0 < ue_revision (at_event c))"
    using next_positive [OF assms(2,3)] by (simp add: c_def b_def next_event_of_def)
  ultimately have "logged_ok p (at_event (refresh d c))"
    by (rule refreshed_logged)
  moreover have "at_log (attempt_drop d a) = at_log a @ [at_event (refresh d c)]"
    using a(3,4) by (simp add: attempt_drop_def Let_def refresh_def c_def g_def b_def next_event_of_def)
  ultimately show ?thesis using a(2) by simp
qed

lemma attempt_step_sound:
  assumes "attempt_sound p a" and "attempt_running k a" and "Suc k < 2 ^ 64" and "call_safe c"
  shows "attempt_sound p (snd (attempt_step a c)) \<or>
    at_finished (snd (attempt_step a c)) \<and> (\<forall>e \<in> set (at_log (snd (attempt_step a c))). logged_ok p e)"
proof (cases c)
  case (Observe v d)
  then show ?thesis using attempt_observe_sound [OF assms(1-3)] assms(4) by simp
next
  case (ObserveManaged s d)
  then show ?thesis using attempt_observe_managed_sound [OF assms(1-3)] assms(4) by simp
next
  case (ObservePayload v d)
  then show ?thesis using observe_payload_sound [OF assms(1-3)] assms(4) by simp
next
  case (Finish g d)
  then show ?thesis
    using attempt_finish_logged [OF assms(1-3)] attempt_finish_done [OF assms(2,3)] assms(4) by (simp add: attempt_done_def)
qed (use assms in \<open>auto simp: attempt_sound_def event_ready_def event_labels_ok_def attempt_incomplete_def accumulator_inv_def\<close>)

lemma attempt_done_log:
  assumes "attempt_done k a"
  shows "at_log (snd (attempt_step a c)) = at_log a"
proof -
  have "at_log (payload_outcome v b) = at_log b" for v b
    by (simp add: payload_outcome_def Let_def)
  with assms show ?thesis
    by (cases c) (auto simp: attempt_done_def attempt_observe_def attempt_observe_managed_def observe_payload_def payload_usage_def
        payload_metadata_def attempt_incomplete_def attempt_finish_def Let_def split: option.split)
qed

lemma run_attempt_done_log: "attempt_done k a \<Longrightarrow> at_log (snd (run_machine attempt_step a cs)) = at_log a"
  by (induction cs arbitrary: a) (simp_all add: Let_def split_beta attempt_done_log attempt_step_done)

lemma run_attempt_sound:
  assumes "attempt_running k a" and "attempt_sound p a" and "k + length cs < 2 ^ 64" and "list_all call_safe cs"
  shows "\<exists>j \<le> k + length cs.
    attempt_running j (snd (run_machine attempt_step a cs)) \<and> attempt_sound p (snd (run_machine attempt_step a cs)) \<or>
    attempt_done j (snd (run_machine attempt_step a cs)) \<and>
      (\<forall>e \<in> set (at_log (snd (run_machine attempt_step a cs))). logged_ok p e)"
  using assms
proof (induction cs arbitrary: k a)
  case (Cons c cs)
  let ?b = "snd (attempt_step a c)"
  have run: "snd (run_machine attempt_step a (c # cs)) = snd (run_machine attempt_step ?b cs)"
    by (simp add: Let_def split_beta)
  have k: "Suc k < 2 ^ 64" using Cons.prems(3) by simp
  note step = attempt_step_sound [OF Cons.prems(2,1) k, of c]
  consider (going) j where "j \<in> {k, Suc k}" "attempt_running j ?b" | (over) "attempt_done (Suc k) ?b"
    using attempt_step_running [OF Cons.prems(1) k, of c] by blast
  then show ?case
  proof cases
    case (going j)
    then have "attempt_sound p ?b"
      using step Cons.prems(4) by (auto simp: attempt_running_def)
    moreover have le: "j + length cs < 2 ^ 64" "j + length cs \<le> k + length (c # cs)"
      using going(1) Cons.prems(3) by auto
    moreover have "list_all call_safe cs" using Cons.prems(4) by simp
    ultimately show ?thesis
      unfolding run using Cons.IH [OF going(2)] le(2) order_trans by blast
  next
    case over
    have "\<forall>e \<in> set (at_log ?b). logged_ok p e"
      using step Cons.prems(4) by (auto simp: attempt_sound_def)
    then show ?thesis
      unfolding run using run_attempt_done [OF over, of cs] run_attempt_done_log [OF over, of cs]
      by (intro exI [of _ "Suc k"]) simp
  qed
qed auto

lemma started_running:
  assumes "start_attempt sink e reserved d d' = Started a" and "ue_revision e = 0" and "ue_kind e = AttemptStarted"
  shows "attempt_running 0 a" "\<exists>s. sink = Some s \<and> a = snd (deliver False d
    \<lparr>at_mode = us_mode s, at_terminal = True, at_event = e\<lparr>ue_producer_id := us_producer s\<rparr>,
     at_accumulator = accumulator_new (ue_profile e), at_finished = False, at_log = [], at_dropped = 0\<rparr>)"
proof -
  show started: "\<exists>s. sink = Some s \<and> a = snd (deliver False d
    \<lparr>at_mode = us_mode s, at_terminal = True, at_event = e\<lparr>ue_producer_id := us_producer s\<rparr>,
     at_accumulator = accumulator_new (ue_profile e), at_finished = False, at_log = [], at_dropped = 0\<rparr>)"
    using assms(1) by (auto simp: start_attempt_def Let_def split: option.splits if_splits prod.splits sum.splits)
  then show "attempt_running 0 a"
    using assms(2,3) by (auto intro!: deliver_start)
qed

text \<open>An attempt of a provider package only ever carries usage of its own interpretation that the contract
  accepts; a reply of another package, or one with contradictory counters, changes nothing.\<close>

lemma pa_observe_usage:
  assumes "provider_usage_valid (ue_usage (pa_event a))"
  shows "provider_usage_valid (ue_usage (pa_event (snd (pa_observe ob d a)))) \<and>
    ue_profile (pa_event (snd (pa_observe ob d a))) = ue_profile (pa_event a) \<and>
    (fst (pa_observe ob d a) = Ok () \<longrightarrow> interpretation_of (po_identity ob) = ue_profile (pa_event a))"
  using assms by (auto simp: pa_observe_def pa_deliver_def pa_refresh_def pa_next_def pa_put_def Let_def)

section \<open>Properties\<close>

text \<open>C12. Every started attempt reports its end exactly once: whatever calls follow, whatever the queue does,
  when the attempt is dropped its log ends with one terminal event, nothing before it is terminal, and
  the revisions of the logged events strictly increase.\<close>

theorem attempt_reports_once:
  assumes "start_attempt sink e reserved d d' = Started a" and "ue_revision e = 0" and "ue_kind e = AttemptStarted"
    and "length calls < 2 ^ 64 - 1"
  shows "one_terminal (at_log (attempt_drop d'' (snd (run_machine attempt_step a calls)))) \<and>
    sorted_wrt (<) (map ue_revision (at_log (attempt_drop d'' (snd (run_machine attempt_step a calls)))))"
proof -
  let ?b = "snd (run_machine attempt_step a calls)"
  have sorted: "sorted_wrt (<) (map ue_revision log)" if "log_upto k log" for k log
    using that by (simp add: log_upto_def sorted_wrt_map word_less_nat_alt)
  obtain j where j: "j \<le> length calls" "attempt_running j ?b \<or> attempt_done j ?b"
    using run_attempt [OF started_running(1) [OF assms(1-3)], of calls] assms(4) by auto
  have "Suc j < 2 ^ 64" using j(1) assms(4) by linarith
  then show ?thesis
    using j(2) attempt_drop_done [of j ?b d''] sorted
    by (auto simp: attempt_done_def attempt_drop_def)
qed

text \<open>C25. What an attempt records. For a start event with safe labels and a run of fewer than
  \<open>2 ^ 64 - 1\<close> calls with safe labels, every event the attempt places in the queue carries the profile
  of the attempt and passes the validation of the recorder, except that an event of the DeepSeek profile
  is refused exactly when the two cache counters it reports disagree. An event is marked final only
  when the upstream ended, usage was observed, nothing contradicts it and the observation is complete.\<close>

theorem logged_events_valid:
  assumes "start_attempt (Some s) e reserved d d' = Started a" and "ue_revision e = 0" and "ue_kind e = AttemptStarted"
    and "ue_schema e = SCHEMA" and "ue_finality e = Unobserved"
    and "\<not> ue_observation_incomplete e" and "event_labels_ok (e\<lparr>ue_producer_id := us_producer s\<rparr>)"
    and "list_all call_safe calls" and "safe_label (dl_id d'')" and "length calls < 2 ^ 64 - 1"
  shows "\<forall>ev \<in> set (at_log (attempt_drop d'' (snd (run_machine attempt_step a calls)))).
    ue_profile ev = ue_profile e \<and>
    (usage_event_validate ev \<longleftrightarrow> \<not> alias_conflict (ue_profile e) (cu_reported (ue_usage ev))) \<and>
    (ue_finality ev = Final \<longrightarrow> final_ok ev)"
proof -
  let ?b = "snd (run_machine attempt_step a calls)"
  define a0 where "a0 = \<lparr>at_mode = us_mode s, at_terminal = True, at_event = e\<lparr>ue_producer_id := us_producer s\<rparr>,
     at_accumulator = accumulator_new (ue_profile e), at_finished = False, at_log = [], at_dropped = 0\<rparr>"
  have a: "a = snd (deliver False d a0)"
    using started_running(2) [OF assms(1-3)] by (auto simp: a0_def)
  have "event_ready (ue_profile e) a0"
    using assms(4-7) accumulator_new_inv by (simp add: event_ready_def a0_def) (simp add: accumulator_new_def)
  moreover have "final_claim a0"
    using assms(5) by (simp add: final_claim_def a0_def)
  ultimately have "attempt_sound (ue_profile e) a"
    using deliver_logs [of "ue_profile e" a0 False d] assms(2,3,5) unfolding a by (simp add: attempt_sound_def a0_def)
  then obtain j where j: "j \<le> length calls"
    "attempt_running j ?b \<and> attempt_sound (ue_profile e) ?b \<or> attempt_done j ?b \<and> (\<forall>ev \<in> set (at_log ?b). logged_ok (ue_profile e) ev)"
    using run_attempt_sound [OF started_running(1) [OF assms(1-3)], of "ue_profile e" calls] assms(8,10) by auto
  have "Suc j < 2 ^ 64" using j(1) assms(10) by linarith
  then have "\<forall>ev \<in> set (at_log (attempt_drop d'' ?b)). logged_ok (ue_profile e) ev"
    using j(2) attempt_drop_logged [of "ue_profile e" ?b j d''] assms(9) by (auto simp: attempt_done_def attempt_drop_def)
  then show ?thesis by (simp add: logged_ok_def)
qed

section \<open>Witnesses\<close>

definition demo_delivery :: delivery where
  "demo_delivery = \<lparr>dl_now = 7, dl_id = ''id'', dl_sent = True, dl_acked = True\<rparr>"

definition demo_sink :: usage_sink where
  "demo_sink = \<lparr>us_mode = BestEffort, us_producer = ''p'', us_supports_v2 = True\<rparr>"

definition demo_start :: usage_event where
  "demo_start = demo_event\<lparr>ue_revision := 0, ue_kind := AttemptStarted, ue_finality := Unobserved, ue_usage := usage_default\<rparr>"

definition demo_attempt :: attempt where
  "demo_attempt = snd (deliver False demo_delivery
     \<lparr>at_mode = BestEffort, at_terminal = True, at_event = demo_start\<lparr>ue_producer_id := ''p''\<rparr>,
      at_accumulator = accumulator_new MessagesV1, at_finished = False, at_log = [], at_dropped = 0\<rparr>)"

lemma demo_started: "start_attempt (Some demo_sink) demo_start True demo_delivery demo_delivery = Started demo_attempt"
  by (simp add: start_attempt_def demo_sink_def demo_attempt_def demo_start_def demo_event_def deliver_def refresh_def
      demo_delivery_def acknowledged_def Let_def)

lemma demo_start_header: "ue_revision demo_start = 0" "ue_kind demo_start = AttemptStarted"
  by (simp_all add: demo_start_def)

lemma demo_labels: "event_labels_ok (demo_start\<lparr>ue_producer_id := ''p''\<rparr>)"
  using demo_event_header by (simp add: event_header_ok_def event_labels_ok_def demo_start_def demo_event_def)

lemma demo_id: "safe_label (dl_id demo_delivery)"
  by (simp add: safe_label_def demo_delivery_def is_ascii_alphanumeric_def is_ascii_lowercase_def)

theorem attempt_reports_once_witness:
  "one_terminal (at_log (attempt_drop demo_delivery (snd (run_machine attempt_step demo_attempt
     [Observe demo_usage demo_delivery, Finish Completed demo_delivery]))))"
  using attempt_reports_once [OF demo_started demo_start_header, of "[Observe demo_usage demo_delivery, Finish Completed demo_delivery]"]
  by simp

theorem logged_events_valid_witness:
  "list_all usage_event_validate (at_log (attempt_drop demo_delivery (snd (run_machine attempt_step demo_attempt
     [Observe demo_usage demo_delivery, MarkIncomplete]))))"
proof -
  note logged_events_valid [OF demo_started demo_start_header, of "[Observe demo_usage demo_delivery, MarkIncomplete]" demo_delivery]
  with demo_labels demo_id show ?thesis
    by (simp add: demo_start_def demo_event_def demo_sink_def list_all_iff alias_conflict_def)
qed

end
