(* ===== verification/Replay.thy ===== *)
theory Replay
  imports Continuity Hex
begin

text \<open>
  Continuation records, \<open>src/src/continuation/replay.rs\<close> and the record and envelope parts of
  \<open>src/src/continuation/mod.rs\<close>: the three record versions with their validation, the conversion
  between records and native state, and the sealed envelopes of \<open>Protector\<close>. The three versions
  share all fields but the provider state, which is a type parameter of one record. Authenticated
  encryption (\<open>ring::aead\<close>), base64, and what \<open>serde_json\<close> prints and parses are the functions of
  the parameter \<open>crypto\<close>; a random nonce is an argument.
\<close>

section \<open>Records\<close>

type_synonym i64 = "64 word"
type_synonym cont_error = string

definition SCHEMA :: string where "SCHEMA = ''gateway-continuation/v1''"
definition REPLAY_V2 :: string where "REPLAY_V2 = ''gateway-continuation/v2''"
definition REPLAY_V3 :: string where "REPLAY_V3 = ''gateway-continuation/v3''"
definition ENVELOPE_PREFIX :: string where "ENVELOPE_PREFIX = ''arg-continuation-v1.''"
definition ENVELOPE_V2 :: string where "ENVELOPE_V2 = ''arg-continuation-v2.''"
definition ENVELOPE_V3 :: string where "ENVELOPE_V3 = ''arg-continuation-v3.''"
definition MAX_PAYLOAD :: nat where "MAX_PAYLOAD = 2 * 1024 * 1024"

definition label_char :: "char \<Rightarrow> bool" where
  "label_char b \<longleftrightarrow> is_ascii_alphanumeric b \<or> b \<in> set ''_-''"

definition label :: "string \<Rightarrow> cont_error + unit" where
  "label value =
     (if value = [] \<or> length value > 128 \<or> \<not> list_all label_char value then Err ''invalid identifier'' else Ok ())"

record origin =
  or_route :: json
  or_realm :: string
  or_generation :: string

definition origin_validate :: "origin \<Rightarrow> cont_error + unit" where
  "origin_validate o1 =
     and_then (label (or_realm o1)) (\<lambda>_.
     and_then (label (or_generation o1)) (\<lambda>_.
       if is_object (or_route o1) then Ok () else Err ''invalid origin''))"

record 's replay_of =
  rp_schema :: string
  rp_session :: string
  rp_epoch :: i64
  rp_origin :: origin
  rp_response :: string
  rp_parent :: "string option"
  rp_input_len :: nat
  rp_input_sha256 :: string
  rp_state :: 's
  rp_output :: "json list"

record provider_replay_wire =
  pw_binding :: provider_state_binding
  pw_format :: string
  pw_version :: u32
  pw_data_base64 :: string

text \<open>The state of a version 1 record is \<open>provider_status\<close> and \<open>steps\<close>; of version 2 \<open>outcome\<close> and
  \<open>native\<close>; of version 3 \<open>outcome\<close> and the wire form of provider state.\<close>

type_synonym replay_v1 = "(string \<times> json list) replay_of"
type_synonym replay_v2 = "(outcome \<times> native_replay) replay_of"
type_synonym replay_v3 = "(outcome \<times> provider_replay_wire) replay_of"

datatype replay_record = ReplayV1 replay_v1 | ReplayV2 replay_v2 | ReplayV3 replay_v3

record crypto =
  cr_b64_encode :: "string \<Rightarrow> string"
  cr_b64_decode :: "string \<Rightarrow> string option"
  cr_seal :: "string \<Rightarrow> string \<Rightarrow> string \<Rightarrow> string \<Rightarrow> string"
  cr_open :: "string \<Rightarrow> string \<Rightarrow> string \<Rightarrow> string \<Rightarrow> string option"
  cr_text :: "replay_record \<Rightarrow> string"
  cr_parse_v1 :: "string \<Rightarrow> replay_v1 option"
  cr_parse_v2 :: "string \<Rightarrow> replay_v2 option"
  cr_parse_v3 :: "string \<Rightarrow> replay_v3 option"
  cr_sha256 :: "string \<Rightarrow> string"

section \<open>Validation\<close>

definition names_validate :: "'s replay_of \<Rightarrow> cont_error + unit" where
  "names_validate r =
     and_then (label (rp_session r)) (\<lambda>_.
     and_then (label (rp_response r)) (\<lambda>_.
       case rp_parent r of Some parent \<Rightarrow> label parent | None \<Rightarrow> Ok ()))"

definition replay_v1_validate :: "replay_v1 \<Rightarrow> cont_error + unit" where
  "replay_v1_validate r =
     (if rp_schema r \<noteq> SCHEMA \<or> sint (rp_epoch r) \<le> 0 \<or> snd (rp_state r) = [] \<or> length (rp_input_sha256 r) \<noteq> 64 \<or>
         fst (rp_state r) \<notin> {''completed'', ''requires_action''}
      then Err ''invalid replay''
      else
        and_then (label (rp_session r)) (\<lambda>_.
        and_then (label (rp_response r)) (\<lambda>_.
        and_then (origin_validate (rp_origin r)) (\<lambda>_.
          case rp_parent r of Some parent \<Rightarrow> label parent | None \<Rightarrow> Ok ()))))"

definition is_ascii_hexdigit :: "char \<Rightarrow> bool" where
  "is_ascii_hexdigit c \<longleftrightarrow> is_lower_hex c \<or> 65 \<le> byte c \<and> byte c \<le> 70"

definition replay_v2_validate :: "replay_v2 \<Rightarrow> cont_error + unit" where
  "replay_v2_validate r =
     (if rp_schema r \<noteq> REPLAY_V2 \<or> sint (rp_epoch r) \<le> 0 \<or> length (rp_input_sha256 r) \<noteq> 64 \<or>
         \<not> list_all is_ascii_hexdigit (rp_input_sha256 r)
      then Err ''invalid replay''
      else
        and_then (names_validate r) (\<lambda>_.
        and_then (origin_validate (rp_origin r)) (\<lambda>_.
          map_err (\<lambda>_. ''native replay format'') (native_replay_validate (snd (rp_state r))))))"

definition json_index :: "json \<Rightarrow> string \<Rightarrow> json" where
  "json_index v k = (case jget v k of Some w \<Rightarrow> w | None \<Rightarrow> JNull)"

definition matches_origin :: "provider_state_binding \<Rightarrow> origin \<Rightarrow> bool" where
  "matches_origin b o1 \<longleftrightarrow>
     (let projection = json_index (or_route o1) ''provider_plugin'' in
        json_index (or_route o1) ''api'' = JString ''plugin'' \<and>
        json_index projection ''protocol'' = JString (pb_protocol b) \<and>
        json_index projection ''provider_protocol'' = JString (pb_provider_protocol b) \<and>
        json_index projection ''id'' = JString (pb_id b) \<and>
        json_index projection ''version'' = JString (pb_version b) \<and>
        json_index projection ''package_sha256'' = JString (pb_package_sha256 b) \<and>
        json_index projection ''executable_sha256'' = JString (pb_executable_sha256 b))"

definition decode_provider_state ::
  "crypto \<Rightarrow> provider_state_binding \<Rightarrow> string \<Rightarrow> u32 \<Rightarrow> string \<Rightarrow> cont_error + provider_native_state" where
  "decode_provider_state c binding format version data =
     (if length data > ((MAX_STATE_BYTES + 2) div 3) * 4 then Err ''provider state limit''
      else
        case cr_b64_decode c data of
          None \<Rightarrow> Err ''provider state encoding''
        | Some bytes \<Rightarrow>
            if cr_b64_encode c bytes \<noteq> data then Err ''provider state encoding''
            else map_err (\<lambda>_. ''provider state format'') (provider_native_state_new binding format version bytes))"

definition wire_internal :: "crypto \<Rightarrow> provider_replay_wire \<Rightarrow> cont_error + provider_native_state" where
  "wire_internal c w = decode_provider_state c (pw_binding w) (pw_format w) (pw_version w) (pw_data_base64 w)"

definition wire_from_internal :: "crypto \<Rightarrow> provider_native_state \<Rightarrow> provider_replay_wire" where
  "wire_from_internal c s =
     \<lparr>pw_binding = ps_binding s, pw_format = ps_format s, pw_version = ps_version s,
      pw_data_base64 = cr_b64_encode c (ps_bytes s)\<rparr>"

definition replay_v3_validate :: "crypto \<Rightarrow> replay_v3 \<Rightarrow> cont_error + unit" where
  "replay_v3_validate c r =
     (if rp_schema r \<noteq> REPLAY_V3 \<or> sint (rp_epoch r) \<le> 0 \<or> rp_input_len r > 4294967295 \<or>
         length (rp_input_sha256 r) \<noteq> 64 \<or> \<not> list_all is_lower_hex (rp_input_sha256 r) \<or>
         \<not> matches_origin (pw_binding (snd (rp_state r))) (rp_origin r)
      then Err ''invalid provider replay''
      else
        and_then (names_validate r) (\<lambda>_.
        and_then (origin_validate (rp_origin r)) (\<lambda>_.
        and_then (wire_internal c (snd (rp_state r))) (\<lambda>_. Ok ()))))"

fun replay_validate :: "crypto \<Rightarrow> replay_record \<Rightarrow> cont_error + unit" where
  "replay_validate c (ReplayV1 r) = replay_v1_validate r"
| "replay_validate c (ReplayV2 r) = replay_v2_validate r"
| "replay_validate c (ReplayV3 r) = replay_v3_validate c r"

fun replay_schema :: "replay_record \<Rightarrow> string" where
  "replay_schema (ReplayV1 _) = SCHEMA"
| "replay_schema (ReplayV2 _) = REPLAY_V2"
| "replay_schema (ReplayV3 _) = REPLAY_V3"

section \<open>Metadata and native state\<close>

record replay_metadata =
  rm_session :: string
  rm_epoch :: i64
  rm_origin :: origin
  rm_response :: string
  rm_outcome :: outcome

definition metadata_of :: "'s replay_of \<Rightarrow> outcome \<Rightarrow> replay_metadata" where
  "metadata_of r out =
     \<lparr>rm_session = rp_session r, rm_epoch = rp_epoch r, rm_origin = rp_origin r, rm_response = rp_response r, rm_outcome = out\<rparr>"

fun replay_metadata_of :: "replay_record \<Rightarrow> replay_metadata" where
  "replay_metadata_of (ReplayV1 r) =
     metadata_of r (if fst (rp_state r) = ''requires_action'' then AwaitingTools else OutcomeCompleted)"
| "replay_metadata_of (ReplayV2 r) = metadata_of r (fst (rp_state r))"
| "replay_metadata_of (ReplayV3 r) = metadata_of r (fst (rp_state r))"

record normalized_replay =
  nr_response :: string
  nr_parent :: "string option"
  nr_input_len :: nat
  nr_input_sha256 :: string
  nr_native :: native_state
  nr_output :: "json list"

definition normalized_of :: "'s replay_of \<Rightarrow> native_state \<Rightarrow> normalized_replay" where
  "normalized_of r native =
     \<lparr>nr_response = rp_response r, nr_parent = rp_parent r, nr_input_len = rp_input_len r,
      nr_input_sha256 = rp_input_sha256 r, nr_native = native, nr_output = rp_output r\<rparr>"

definition into_normalized :: "crypto \<Rightarrow> replay_record \<Rightarrow> cont_error + normalized_replay" where
  "into_normalized c record =
     and_then (replay_validate c record) (\<lambda>_.
       case record of
         ReplayV1 r \<Rightarrow> Ok (normalized_of r (Builtin (GeminiReplay 1 (snd (rp_state r)))))
       | ReplayV2 r \<Rightarrow> Ok (normalized_of r (Builtin (snd (rp_state r))))
       | ReplayV3 r \<Rightarrow> and_then (wire_internal c (snd (rp_state r))) (\<lambda>s. Ok (normalized_of r (Provider s))))"

record metadata_owned =
  mo_session :: string
  mo_epoch :: i64
  mo_origin :: origin
  mo_response :: string
  mo_parent :: "string option"
  mo_input_len :: nat
  mo_input_sha256 :: string
  mo_outcome :: outcome

definition record_of :: "string \<Rightarrow> metadata_owned \<Rightarrow> 's \<Rightarrow> json list \<Rightarrow> (outcome \<times> 's) replay_of" where
  "record_of schema m native out =
     \<lparr>rp_schema = schema, rp_session = mo_session m, rp_epoch = mo_epoch m, rp_origin = mo_origin m,
      rp_response = mo_response m, rp_parent = mo_parent m, rp_input_len = mo_input_len m,
      rp_input_sha256 = mo_input_sha256 m, rp_state = (mo_outcome m, native), rp_output = out\<rparr>"

definition from_native :: "crypto \<Rightarrow> metadata_owned \<Rightarrow> native_state \<Rightarrow> json list \<Rightarrow> cont_error + replay_record" where
  "from_native c m native out =
     (if (case native of Builtin _ \<Rightarrow> True | Provider _ \<Rightarrow> False) \<and>
         json_index (or_route (mo_origin m)) ''api'' = JString ''plugin''
      then Err ''provider replay required''
      else
        let r = (case native of
            Builtin n \<Rightarrow> ReplayV2 (record_of REPLAY_V2 m n out)
          | Provider s \<Rightarrow> ReplayV3 (record_of REPLAY_V3 m (wire_from_internal c s) out))
        in and_then (replay_validate c r) (\<lambda>_. Ok r))"

definition public_reasoning :: "string \<Rightarrow> string \<Rightarrow> json" where
  "public_reasoning i t =
     obj [(''type'', JString ''reasoning''), (''id'', JString i),
       (''summary'', JArray [obj [(''type'', JString ''summary_text''), (''text'', JString t)]])]"

section \<open>Sealed envelopes\<close>

record protector =
  pr_key :: string
  pr_id :: string

definition protector_new :: "string \<Rightarrow> string \<Rightarrow> cont_error + protector" where
  "protector_new key_id key =
     and_then (label key_id) (\<lambda>_.
       if length key \<noteq> 32 then Err ''invalid protection key'' else Ok \<lparr>pr_key = key, pr_id = key_id\<rparr>)"

fun record_prefix :: "replay_record \<Rightarrow> string" where
  "record_prefix (ReplayV1 _) = ENVELOPE_PREFIX"
| "record_prefix (ReplayV2 _) = ENVELOPE_V2"
| "record_prefix (ReplayV3 _) = ENVELOPE_V3"

definition envelope_aad :: "protector \<Rightarrow> string \<Rightarrow> string" where
  "envelope_aad p prefix = (if prefix = ENVELOPE_PREFIX then pr_id p else prefix @ pr_id p)"

definition seal_record :: "crypto \<Rightarrow> protector \<Rightarrow> string \<Rightarrow> replay_record \<Rightarrow> cont_error + string" where
  "seal_record c p nonce r =
     and_then (replay_validate c r) (\<lambda>_.
       let prefix = record_prefix r; bytes = cr_text c r in
       if length bytes > MAX_PAYLOAD then Err ''payload limit''
       else Ok (prefix @ pr_id p @ ''.'' @ hex nonce @ ''.'' @
              hex (cr_seal c (pr_key p) nonce (envelope_aad p prefix) bytes)))"

definition envelope_version :: "string \<Rightarrow> string option" where
  "envelope_version envelope =
     (if starts_with ENVELOPE_PREFIX envelope then Some ENVELOPE_PREFIX
      else if starts_with ENVELOPE_V2 envelope then Some ENVELOPE_V2
      else if starts_with ENVELOPE_V3 envelope then Some ENVELOPE_V3
      else None)"

definition parse_record :: "crypto \<Rightarrow> string \<Rightarrow> string \<Rightarrow> replay_record option" where
  "parse_record c prefix plain =
     (if prefix = ENVELOPE_PREFIX then map_option ReplayV1 (cr_parse_v1 c plain)
      else if prefix = ENVELOPE_V2 then map_option ReplayV2 (cr_parse_v2 c plain)
      else map_option ReplayV3 (cr_parse_v3 c plain))"

definition version_schema :: "string \<Rightarrow> string" where
  "version_schema prefix =
     (if prefix = ENVELOPE_PREFIX then SCHEMA else if prefix = ENVELOPE_V2 then REPLAY_V2 else REPLAY_V3)"

definition open_plain :: "crypto \<Rightarrow> string \<Rightarrow> string \<Rightarrow> cont_error + replay_record" where
  "open_plain c prefix plain =
     (if length plain > MAX_PAYLOAD then Err ''payload limit''
      else
        and_then (ok_or (parse_record c prefix plain) ''replay format'') (\<lambda>r.
        and_then (replay_validate c r) (\<lambda>_.
          if replay_schema r \<noteq> version_schema prefix then Err ''replay version mismatch''
          else if prefix = ENVELOPE_V3 \<and> cr_text c r \<noteq> plain then Err ''noncanonical provider replay''
          else Ok r)))"

definition open_record :: "crypto \<Rightarrow> protector \<Rightarrow> string \<Rightarrow> cont_error + replay_record" where
  "open_record c p envelope =
     (case envelope_version envelope of
        None \<Rightarrow> Err ''envelope version''
      | Some prefix \<Rightarrow>
          if length envelope > 2 * MAX_PAYLOAD + 1024 then Err ''payload limit''
          else
            let fields = split_char (CHR ''.'') (drop (length prefix) envelope) in
            if fields ! 0 \<noteq> pr_id p then Err ''key identity''
            else if length fields < 2 then Err ''envelope''
            else
              and_then (ok_or (unhex (fields ! 1)) ''hex encoding'') (\<lambda>nonce.
                if length nonce \<noteq> 12 then Err ''nonce''
                else if length fields < 3 then Err ''envelope''
                else
                  and_then (ok_or (unhex (fields ! 2)) ''hex encoding'') (\<lambda>bytes.
                    if length fields > 3 then Err ''envelope''
                    else
                      and_then (ok_or (cr_open c (pr_key p) nonce (envelope_aad p prefix) bytes) ''authentication'')
                        (open_plain c prefix))))"

definition open_v1 :: "crypto \<Rightarrow> protector \<Rightarrow> string \<Rightarrow> cont_error + replay_v1" where
  "open_v1 c p envelope =
     and_then (open_record c p envelope) (\<lambda>r.
       case r of ReplayV1 v \<Rightarrow> Ok v | _ \<Rightarrow> Err ''legacy replay required'')"

definition record_digest :: "crypto \<Rightarrow> replay_record \<Rightarrow> string" where
  "record_digest c r = hex (cr_sha256 c (cr_text c r))"
section \<open>Round trips\<close>

lemma label_chars: "label v = Ok () \<Longrightarrow> list_all label_char v \<and> length v \<le> 128"
  by (simp add: label_def split: if_splits)

lemma label_no_dot: "label v = Ok () \<Longrightarrow> CHR ''.'' \<notin> set v"
proof
  assume "label v = Ok ()" and "CHR ''.'' \<in> set v"
  then have "label_char CHR ''.''" by (auto dest!: label_chars simp: list_all_iff)
  then show False by (simp add: label_char_def is_ascii_alphanumeric_def is_ascii_digit_def is_ascii_lowercase_def)
qed

lemma hex_no_dot: "CHR ''.'' \<notin> set (hex bytes)"
proof
  assume "CHR ''.'' \<in> set (hex bytes)"
  then have "is_lower_hex CHR ''.''" using hex_lower [of bytes] by (simp add: list_all_iff)
  then show False by (simp add: is_lower_hex_def is_ascii_digit_def)
qed

lemma envelope_version_prefix: "envelope_version (record_prefix r @ rest) = Some (record_prefix r)"
  by (cases r) (simp_all add: envelope_version_def starts_with_iff ENVELOPE_PREFIX_def ENVELOPE_V2_def ENVELOPE_V3_def)

lemma envelope_fields:
  assumes "label key_id = Ok ()"
  shows "split_char CHR ''.'' (key_id @ ''.'' @ hex nonce @ ''.'' @ hex sealed) = [key_id, hex nonce, hex sealed]"
  using split_char_field [OF label_no_dot [OF assms]] split_char_field [OF hex_no_dot]
    split_char_last [OF hex_no_dot] by simp

lemma length_record_prefix: "length (record_prefix r) = 20"
  by (cases r) (simp_all add: ENVELOPE_PREFIX_def ENVELOPE_V2_def ENVELOPE_V3_def)

lemma version_schema_prefix: "version_schema (record_prefix r) = replay_schema r"
  by (cases r) (simp_all add: version_schema_def ENVELOPE_PREFIX_def ENVELOPE_V2_def ENVELOPE_V3_def)

lemma open_plain_text:
  assumes "replay_validate c r = Ok ()" and "length (cr_text c r) \<le> MAX_PAYLOAD"
    and "parse_record c (record_prefix r) (cr_text c r) = Some r"
  shows "open_plain c (record_prefix r) (cr_text c r) = Ok r"
  using assms by (simp add: open_plain_def version_schema_prefix)

text \<open>What a protector sealed it opens to the same record.\<close>

lemma open_sealed:
  assumes p: "protector_new key_id key = Ok p" and sealed: "seal_record c p nonce r = Ok env"
    and nonce: "length nonce = 12"
    and opens: "\<And>k n a x. cr_open c k n a (cr_seal c k n a x) = Some x"
    and tag: "\<And>k n a x. length (cr_seal c k n a x) = length x + 16"
    and parses: "parse_record c (record_prefix r) (cr_text c r) = Some r"
  shows "open_record c p env = Ok r"
proof -
  let ?bytes = "cr_seal c (pr_key p) nonce (envelope_aad p (record_prefix r)) (cr_text c r)"
  have id: "label (pr_id p) = Ok ()" using p by (auto simp: protector_new_def split: if_splits)
  have valid: "replay_validate c r = Ok ()" and small: "length (cr_text c r) \<le> MAX_PAYLOAD"
    and env: "env = record_prefix r @ pr_id p @ ''.'' @ hex nonce @ ''.'' @ hex ?bytes"
    using sealed by (auto simp: seal_record_def Let_def split: if_splits)
  have "length env \<le> 2 * MAX_PAYLOAD + 1024"
    using label_chars [OF id] small nonce by (simp add: env length_record_prefix length_hex tag)
  then show ?thesis
    using open_plain_text [OF valid small parses] envelope_fields [OF id]
    by (simp add: env open_record_def envelope_version_prefix Let_def unhex_hex nonce opens)
qed

lemma decode_encoded_state:
  assumes "cr_b64_decode c (cr_b64_encode c (ps_bytes s)) = Some (ps_bytes s)"
    and "wire_internal c (wire_from_internal c s) = Ok t"
  shows "t = s"
  using assms
  by (auto simp: wire_internal_def wire_from_internal_def decode_provider_state_def provider_native_state_new_def
      split: if_splits)

lemma native_round_trip:
  assumes r: "from_native c m native out = Ok r"
    and b64: "\<And>b. cr_b64_decode c (cr_b64_encode c b) = Some b"
  shows "into_normalized c r =
    Ok \<lparr>nr_response = mo_response m, nr_parent = mo_parent m, nr_input_len = mo_input_len m,
        nr_input_sha256 = mo_input_sha256 m, nr_native = native, nr_output = out\<rparr>"
proof (cases native)
  case (Builtin n)
  with r show ?thesis
    by (auto simp: from_native_def into_normalized_def normalized_of_def record_of_def split: if_splits)
next
  case (Provider s)
  let ?v = "record_of REPLAY_V3 m (wire_from_internal c s) out"
  from r Provider have v: "r = ReplayV3 ?v" and ok: "replay_v3_validate c ?v = Ok ()"
    by (auto simp: from_native_def Let_def split: if_splits)
  from ok obtain t where t: "wire_internal c (wire_from_internal c s) = Ok t"
    by (auto simp: replay_v3_validate_def record_of_def split: if_splits)
  with decode_encoded_state [OF b64 t] v ok Provider show ?thesis
    by (simp add: into_normalized_def normalized_of_def record_of_def)
qed

text \<open>A checkpoint survives storage. When native state is turned into a record and the record is
  sealed, the same protector opens the envelope to that record and the record yields the metadata,
  output and native state it was made from. Assumed of the code outside the repository: authenticated
  decryption inverts encryption and adds a 16 byte tag, base64 decoding inverts encoding, and the JSON
  parser reads back the text the serializer wrote for this record.\<close>

theorem checkpoint_round_trip:
  assumes "protector_new key_id key = Ok p" and "from_native c m native out = Ok r"
    and "seal_record c p nonce r = Ok env" and "length nonce = 12"
    and "\<And>k n a x. cr_open c k n a (cr_seal c k n a x) = Some x"
    and "\<And>k n a x. length (cr_seal c k n a x) = length x + 16"
    and "\<And>b. cr_b64_decode c (cr_b64_encode c b) = Some b"
    and "parse_record c (record_prefix r) (cr_text c r) = Some r"
  shows "open_record c p env = Ok r \<and>
    into_normalized c r =
      Ok \<lparr>nr_response = mo_response m, nr_parent = mo_parent m, nr_input_len = mo_input_len m,
          nr_input_sha256 = mo_input_sha256 m, nr_native = native, nr_output = out\<rparr>"
  using open_sealed [OF assms(1,3,4,5,6,8)] native_round_trip [OF assms(2,7)] by simp

text \<open>A concrete instance: encryption that appends a tag of sixteen bytes, identity base64, and a
  serializer that knows one record.\<close>

definition demo_origin :: origin where
  "demo_origin = \<lparr>or_route = obj [(''api'', JString ''messages'')], or_realm = ''realm'', or_generation = ''g1''\<rparr>"

definition demo_metadata :: metadata_owned where
  "demo_metadata = \<lparr>mo_session = ''s1'', mo_epoch = 1, mo_origin = demo_origin, mo_response = ''resp_1'',
     mo_parent = None, mo_input_len = 2, mo_input_sha256 = replicate 64 CHR ''a'', mo_outcome = AwaitingTools\<rparr>"

definition demo_native :: native_replay where
  "demo_native = MessagesReplay 1 [obj [(''type'', JString ''text'')]] (obj [])"

definition demo_record :: replay_v2 where
  "demo_record = record_of REPLAY_V2 demo_metadata demo_native []"

definition demo_crypto :: crypto where
  "demo_crypto = \<lparr>cr_b64_encode = (\<lambda>b. b), cr_b64_decode = Some,
     cr_seal = (\<lambda>k n a x. x @ replicate 16 CHR ''t''),
     cr_open = (\<lambda>k n a x. Some (take (length x - 16) x)),
     cr_text = (\<lambda>r. ''record''), cr_parse_v1 = (\<lambda>_. None), cr_parse_v2 = (\<lambda>_. Some demo_record),
     cr_parse_v3 = (\<lambda>_. None), cr_sha256 = (\<lambda>x. x)\<rparr>"

definition demo_protector :: protector where
  "demo_protector = \<lparr>pr_key = replicate 32 CHR ''k'', pr_id = ''key1''\<rparr>"

definition demo_envelope :: string where
  "demo_envelope = ''arg-continuation-v2.key1.'' @ hex (replicate 12 CHR ''n'') @ ''.'' @
     hex (''record'' @ replicate 16 CHR ''t'')"

lemma demo_record_made: "from_native demo_crypto demo_metadata (Builtin demo_native) [] = Ok (ReplayV2 demo_record)"
  by code_simp

lemma demo_record_sealed: "seal_record demo_crypto demo_protector (replicate 12 CHR ''n'') (ReplayV2 demo_record) = Ok demo_envelope"
proof -
  have "replay_validate demo_crypto (ReplayV2 demo_record) = Ok ()" by code_simp
  then show ?thesis
    by (simp add: seal_record_def demo_crypto_def demo_protector_def demo_envelope_def ENVELOPE_V2_def MAX_PAYLOAD_def)
qed

theorem checkpoint_round_trip_witness:
  "open_record demo_crypto demo_protector demo_envelope = Ok (ReplayV2 demo_record) \<and>
   into_normalized demo_crypto (ReplayV2 demo_record) =
     Ok \<lparr>nr_response = ''resp_1'', nr_parent = None, nr_input_len = 2, nr_input_sha256 = replicate 64 CHR ''a'',
         nr_native = Builtin demo_native, nr_output = []\<rparr>"
proof -
  have p: "protector_new ''key1'' (replicate 32 CHR ''k'') = Ok demo_protector" by code_simp
  have "parse_record demo_crypto (record_prefix (ReplayV2 demo_record)) (cr_text demo_crypto (ReplayV2 demo_record)) =
      Some (ReplayV2 demo_record)"
    by (simp add: parse_record_def demo_crypto_def ENVELOPE_PREFIX_def ENVELOPE_V2_def)
  from checkpoint_round_trip [OF p demo_record_made demo_record_sealed _ _ _ _ this] show ?thesis
    by (simp add: demo_crypto_def demo_metadata_def)
qed

end
