(* ===== verification/Continuation_Store.thy ===== *)
theory Continuation_Store
  imports Replay
begin

text \<open>
  The continuation store, \<open>src/src/continuation/sqlite.rs\<close> with the row types of
  \<open>src/src/continuation/mod.rs\<close>: sessions, attempts, finalized records and the transition log, and
  every operation of \<open>ContinuationStore\<close>. A table is a finite map from its primary key, an operation
  is one transaction: it returns its result with the new tables, or an error, and then the
  transaction is rolled back. The \<open>value\<close> column of \<open>sessions\<close> holds the session itself instead of its
  JSON text. Random identifiers are arguments; the SQL constraints (primary keys, uniqueness) that a
  badly chosen one would violate are checks that end in the error of a failed statement.
\<close>

section \<open>Tables\<close>

record session =
  se_id :: string
  se_epoch :: i64
  se_revision :: i64
  se_origin :: origin
  se_status :: string
  se_head :: "string option"
  se_pending_tools :: bool
  se_portable_sha256 :: "string option"

record attempt_row =
  ar_session :: string
  ar_epoch :: i64
  ar_input_digest :: string
  ar_status :: string
  ar_reserve :: nat

record record_row =
  rr_digest :: string
  rr_envelope :: "string option"

record transition_row =
  tr_session :: string
  tr_revision :: i64
  tr_kind :: string
  tr_decision :: string

record stored_replay =
  sr_id :: string
  sr_session :: string
  sr_epoch :: i64
  sr_digest :: string
  sr_envelope :: "string option"

record store =
  st_limit :: u64
  st_identity :: string
  st_protection :: "string option"
  st_sessions :: "(string, session) fmap"
  st_attempts :: "(string, attempt_row) fmap"
  st_records :: "(string, record_row) fmap"
  st_transitions :: "(string, transition_row) fmap"

definition database_operation :: cont_error where "database_operation = ''database operation''"

definition load :: "store \<Rightarrow> string \<Rightarrow> cont_error + session" where
  "load st sid = ok_or (fmlookup (st_sessions st) sid) database_operation"

definition save :: "store \<Rightarrow> session \<Rightarrow> store" where
  "save st s =
     (if se_id s |\<in>| fmdom (st_sessions st) then st\<lparr>st_sessions := fmupd (se_id s) s (st_sessions st)\<rparr> else st)"

definition set_attempt :: "store \<Rightarrow> string \<Rightarrow> attempt_row \<Rightarrow> store" where
  "set_attempt st a r = st\<lparr>st_attempts := fmupd a r (st_attempts st)\<rparr>"

section \<open>Opening\<close>

definition store_initial :: "string \<Rightarrow> u64 \<Rightarrow> store" where
  "store_initial identity limit =
     \<lparr>st_limit = limit, st_identity = identity, st_protection = None, st_sessions = fmempty,
      st_attempts = fmempty, st_records = fmempty, st_transitions = fmempty\<rparr>"

definition mark_unknown :: "session \<Rightarrow> session" where
  "mark_unknown s = s\<lparr>se_status := ''unknown'', se_revision := se_revision s + 1\<rparr>"

text \<open>The sessions of \<open>SELECT DISTINCT session FROM attempts WHERE status='pending'\<close>.\<close>

definition pending_sessions :: "store \<Rightarrow> string list" where
  "pending_sessions st =
     remdups (map (ar_session \<circ> snd)
       (filter (\<lambda>(_, r). ar_status r = ''pending'') (sorted_list_of_fmap (st_attempts st))))"

definition recover_session :: "store \<Rightarrow> string \<Rightarrow> cont_error + store" where
  "recover_session st sid = and_then (load st sid) (\<lambda>s. Ok (save st (mark_unknown s)))"

definition forget_pending :: "attempt_row \<Rightarrow> attempt_row" where
  "forget_pending r = (if ar_status r = ''pending'' then r\<lparr>ar_status := ''unknown''\<rparr> else r)"

text \<open>\<open>SqliteStore::open\<close> on existing tables: the limit is checked, then the attempts a crash left in
  flight become unknown in one transaction.\<close>

definition store_open :: "store \<Rightarrow> u64 \<Rightarrow> cont_error + store" where
  "store_open st limit =
     (if limit < 1024 * 1024 then Err ''store configuration''
      else if 2 ^ 63 \<le> unat limit then Err ''store limit''
      else
        and_then (fold_result recover_session (st\<lparr>st_limit := limit\<rparr>) (pending_sessions st)) (\<lambda>st'.
          Ok (st'\<lparr>st_attempts := fmmap forget_pending (st_attempts st')\<rparr>)))"

section \<open>Operations\<close>

definition bind_protection :: "store \<Rightarrow> string \<Rightarrow> cont_error + store" where
  "bind_protection st fingerprint =
     (case st_protection st of
        Some saved \<Rightarrow> if saved \<noteq> fingerprint then Err ''protection binding changed'' else Ok st
      | None \<Rightarrow> Ok (st\<lparr>st_protection := Some fingerprint\<rparr>))"

definition store_create :: "store \<Rightarrow> string \<Rightarrow> origin \<Rightarrow> cont_error + session \<times> store" where
  "store_create st uuid o1 =
     and_then (origin_validate o1) (\<lambda>_.
       let s = \<lparr>se_id = uuid, se_epoch = 1, se_revision = 1, se_origin = o1, se_status = ''ready'',
                se_head = None, se_pending_tools = False, se_portable_sha256 = None\<rparr>
       in if uuid |\<in>| fmdom (st_sessions st) then Err database_operation
          else Ok (s, st\<lparr>st_sessions := fmupd uuid s (st_sessions st)\<rparr>))"

definition store_session :: "store \<Rightarrow> string \<Rightarrow> cont_error + session" where
  "store_session st sid = and_then (label sid) (\<lambda>_. load st sid)"

definition used :: "store \<Rightarrow> nat" where
  "used st = sum_list (map (ar_reserve \<circ> snd) (sorted_list_of_fmap (st_attempts st)))"

definition over_capacity :: "store \<Rightarrow> u64 \<Rightarrow> bool" where
  "over_capacity st reserve \<longleftrightarrow>
     reserve = 0 \<or> (case checked_add (of_nat (used st)) reserve of None \<Rightarrow> True | Some v \<Rightarrow> v > st_limit st)"

definition same_request :: "string \<Rightarrow> i64 \<Rightarrow> string \<Rightarrow> attempt_row \<Rightarrow> bool" where
  "same_request sid epoch digest r \<longleftrightarrow> ar_session r = sid \<and> ar_epoch r = epoch \<and> ar_input_digest r = digest"

definition store_begin ::
  "store \<Rightarrow> string \<Rightarrow> string \<Rightarrow> i64 \<Rightarrow> string option \<Rightarrow> string \<Rightarrow> u64 \<Rightarrow> cont_error + string \<times> store" where
  "store_begin st uuid sid revision parent input_digest reserve =
     and_then (load st sid) (\<lambda>s.
       if se_revision s \<noteq> revision \<or> se_status s \<notin> {''ready'', ''compacting''} \<or> se_head s \<noteq> parent
       then Err ''session conflict or reconciliation required''
       else if 2 ^ 63 \<le> used st then Err database_operation
       else if over_capacity st reserve then Err ''store capacity''
       else if 2 ^ 63 \<le> unat reserve then Err ''capacity limit''
       else
         let attempt = ''resp_'' @ uuid in
         if attempt |\<in>| fmdom (st_attempts st) \<or>
            list_ex (\<lambda>(_, r). same_request sid (se_epoch s) input_digest r) (sorted_list_of_fmap (st_attempts st))
         then Err database_operation
         else
           Ok (attempt,
             save (set_attempt st attempt
               \<lparr>ar_session = sid, ar_epoch = se_epoch s, ar_input_digest = input_digest,
                ar_status = ''pending'', ar_reserve = unat reserve\<rparr>)
               (s\<lparr>se_status := (if se_status s = ''compacting'' then ''compacting_pending'' else ''pending''),
                  se_revision := se_revision s + 1\<rparr>)))"

definition store_finalize ::
  "store \<Rightarrow> string \<Rightarrow> string \<Rightarrow> string \<Rightarrow> string \<Rightarrow> bool \<Rightarrow> cont_error + store" where
  "store_finalize st sid attempt digest envelope pending_tools =
     and_then (load st sid) (\<lambda>s.
       case fmlookup (st_attempts st) attempt of
         None \<Rightarrow> Err database_operation
       | Some r \<Rightarrow>
           if ar_session r \<noteq> sid \<or> ar_epoch r \<noteq> se_epoch s \<or> ar_status r \<noteq> ''pending'' then Err database_operation
           else if 2 ^ 63 \<le> length envelope then Err ''payload limit''
           else if length envelope > ar_reserve r \<or> se_status s \<notin> {''pending'', ''compacting_pending''}
           then Err ''finalization conflict''
           else if attempt |\<in>| fmdom (st_records st) then Err database_operation
           else
             let st1 = st\<lparr>st_records :=
                   fmupd attempt \<lparr>rr_digest = digest, rr_envelope = Some envelope\<rparr> (st_records st)\<rparr>;
                 st2 = set_attempt st1 attempt (r\<lparr>ar_status := ''finalized''\<rparr>)
             in Ok (save st2
                  (s\<lparr>se_status := (if se_status s = ''compacting_pending'' then ''awaiting_compaction'' else ''ready''),
                     se_head := Some attempt, se_pending_tools := pending_tools,
                     se_revision := se_revision s + 1\<rparr>)))"

definition store_uncertain :: "store \<Rightarrow> string \<Rightarrow> string \<Rightarrow> cont_error + store" where
  "store_uncertain st sid attempt =
     (case fmlookup (st_attempts st) attempt of
        None \<Rightarrow> Ok st
      | Some r \<Rightarrow>
          if ar_session r = sid \<and> ar_status r = ''pending''
          then
            let st1 = set_attempt st attempt (r\<lparr>ar_status := ''unknown''\<rparr>) in
            and_then (load st1 sid) (\<lambda>s. Ok (save st1 (mark_unknown s)))
          else Ok st)"

definition store_record :: "store \<Rightarrow> string \<Rightarrow> cont_error + stored_replay" where
  "store_record st sid =
     (case (fmlookup (st_attempts st) sid, fmlookup (st_records st) sid) of
        (Some a, Some r) \<Rightarrow>
          if ar_status a = ''finalized''
          then Ok \<lparr>sr_id = sid, sr_session = ar_session a, sr_epoch = ar_epoch a, sr_digest = rr_digest r,
                   sr_envelope = rr_envelope r\<rparr>
          else Err ''finalized record missing''
      | _ \<Rightarrow> Err ''finalized record missing'')"

text \<open>SQL \<open>length\<close> of a text: its characters up to the first NUL. Every character has one byte that
  is not a UTF-8 continuation byte.\<close>

definition sql_length :: "string \<Rightarrow> nat" where
  "sql_length text = length (filter (\<lambda>b. byte b < 128 \<or> 192 \<le> byte b) (takeWhile (\<lambda>b. byte b \<noteq> 0) text))"

definition store_repair :: "store \<Rightarrow> string \<Rightarrow> string \<Rightarrow> string \<Rightarrow> cont_error + store" where
  "store_repair st sid digest envelope =
     (case (fmlookup (st_records st) sid, fmlookup (st_attempts st) sid) of
        (Some r, Some a) \<Rightarrow>
          if rr_digest r = digest \<and> rr_envelope r = None \<and> ar_status a = ''finalized'' \<and>
             sql_length envelope \<le> ar_reserve a
          then Ok (st\<lparr>st_records := fmupd sid (r\<lparr>rr_envelope := Some envelope\<rparr>) (st_records st)\<rparr>)
          else Err ''repair conflict''
      | _ \<Rightarrow> Err ''repair conflict'')"

definition next_epoch :: "session \<Rightarrow> string option \<Rightarrow> cont_error + session" where
  "next_epoch s portable =
     (if portable = None then Err ''portable history required''
      else Ok (s\<lparr>se_epoch := se_epoch s + 1, se_head := None, se_pending_tools := False,
                 se_portable_sha256 := portable, se_status := ''ready''\<rparr>))"

definition transition_session :: "session \<Rightarrow> string \<Rightarrow> string option \<Rightarrow> cont_error + session" where
  "transition_session s kind portable =
     (if kind = ''compact_begin'' \<and> se_status s = ''ready'' \<and> \<not> se_pending_tools s
      then Ok (s\<lparr>se_status := ''compacting''\<rparr>)
      else if kind = ''compact_commit'' \<and> se_status s = ''awaiting_compaction'' then next_epoch s portable
      else if kind = ''recover'' then next_epoch s portable
      else Err ''unsupported transition'')"

definition store_transition ::
  "store \<Rightarrow> string \<Rightarrow> string \<Rightarrow> i64 \<Rightarrow> string \<Rightarrow> string option \<Rightarrow> string \<Rightarrow> cont_error + session \<times> store" where
  "store_transition st uuid sid revision kind portable decision =
     and_then (label decision) (\<lambda>_.
     and_then (load st sid) (\<lambda>s.
       if se_revision s \<noteq> revision \<or> se_status s \<in> {''pending'', ''compacting_pending''}
       then Err ''transition conflict''
       else
         and_then (transition_session s kind portable) (\<lambda>s1.
           let s2 = s1\<lparr>se_revision := se_revision s1 + 1\<rparr>; st1 = save st s2 in
           if uuid |\<in>| fmdom (st_transitions st1) then Err database_operation
           else
             Ok (s2, st1\<lparr>st_transitions :=
               fmupd uuid \<lparr>tr_session = sid, tr_revision = se_revision s2, tr_kind = kind, tr_decision = decision\<rparr>
                 (st_transitions st1)\<rparr>))))"

section \<open>The store as a machine\<close>

datatype store_call =
    OpenStore u64
  | BindProtection string
  | Create string origin
  | Begin string string i64 "string option" string u64
  | Finalize string string string string bool
  | Uncertain string string
  | Repair string string string
  | Transition string string i64 string "string option" string

text \<open>A call that fails keeps the tables: its transaction is dropped.\<close>

definition transact :: "store \<Rightarrow> cont_error + store \<Rightarrow> (cont_error + unit) \<times> store" where
  "transact st m = (case m of Inl e \<Rightarrow> (Err e, st) | Inr st' \<Rightarrow> (Ok (), st'))"

fun store_call_run :: "store \<Rightarrow> store_call \<Rightarrow> cont_error + store" where
  "store_call_run st (OpenStore limit) = store_open st limit"
| "store_call_run st (BindProtection f) = bind_protection st f"
| "store_call_run st (Create u o1) = and_then (store_create st u o1) (\<lambda>p. Ok (snd p))"
| "store_call_run st (Begin u i n1 parent d n) = and_then (store_begin st u i n1 parent d n) (\<lambda>p. Ok (snd p))"
| "store_call_run st (Finalize i a d e t) = store_finalize st i a d e t"
| "store_call_run st (Uncertain i a) = store_uncertain st i a"
| "store_call_run st (Repair i d e) = store_repair st i d e"
| "store_call_run st (Transition u i n1 k p d) = and_then (store_transition st u i n1 k p d) (\<lambda>p. Ok (snd p))"

definition store_step :: "store \<Rightarrow> store_call \<Rightarrow> (cont_error + unit) \<times> store" where
  "store_step st c = transact st (store_call_run st c)"
section \<open>The session protocol\<close>

text \<open>What the store promises of one session, as a transition system: a session is idle, compacting,
  has exactly one attempt in flight, lost track of one, or waits for a compaction to be committed.
  An attempt that is in flight ends by becoming the head of the session or by being lost; the epoch
  changes, and the head is dropped, only by committing a compaction or by recovering.\<close>

datatype phase = Idle | Compacting | InFlight bool string | Lost | AwaitingCommit

record session_view =
  sv_phase :: phase
  sv_epoch :: i64
  sv_head :: "string option"

inductive session_protocol :: "session_view \<Rightarrow> session_view \<Rightarrow> bool" where
  begin_turn: "session_protocol \<lparr>sv_phase = Idle, sv_epoch = e, sv_head = h\<rparr>
      \<lparr>sv_phase = InFlight False a, sv_epoch = e, sv_head = h\<rparr>"
| begin_compaction: "session_protocol \<lparr>sv_phase = Compacting, sv_epoch = e, sv_head = h\<rparr>
      \<lparr>sv_phase = InFlight True a, sv_epoch = e, sv_head = h\<rparr>"
| finish_turn: "session_protocol \<lparr>sv_phase = InFlight False a, sv_epoch = e, sv_head = h\<rparr>
      \<lparr>sv_phase = Idle, sv_epoch = e, sv_head = Some a\<rparr>"
| finish_compaction: "session_protocol \<lparr>sv_phase = InFlight True a, sv_epoch = e, sv_head = h\<rparr>
      \<lparr>sv_phase = AwaitingCommit, sv_epoch = e, sv_head = Some a\<rparr>"
| lose: "session_protocol \<lparr>sv_phase = InFlight k a, sv_epoch = e, sv_head = h\<rparr>
      \<lparr>sv_phase = Lost, sv_epoch = e, sv_head = h\<rparr>"
| start_compaction: "session_protocol \<lparr>sv_phase = Idle, sv_epoch = e, sv_head = h\<rparr>
      \<lparr>sv_phase = Compacting, sv_epoch = e, sv_head = h\<rparr>"
| commit_compaction: "session_protocol \<lparr>sv_phase = AwaitingCommit, sv_epoch = e, sv_head = h\<rparr>
      \<lparr>sv_phase = Idle, sv_epoch = e + 1, sv_head = None\<rparr>"
| recover: "(\<And>k a. p \<noteq> InFlight k a) \<Longrightarrow> session_protocol \<lparr>sv_phase = p, sv_epoch = e, sv_head = h\<rparr>
      \<lparr>sv_phase = Idle, sv_epoch = e + 1, sv_head = None\<rparr>"

fun phase_shown :: "phase \<Rightarrow> string \<Rightarrow> string set \<Rightarrow> bool" where
  "phase_shown Idle status flying \<longleftrightarrow> status = ''ready'' \<and> flying = {}"
| "phase_shown Compacting status flying \<longleftrightarrow> status = ''compacting'' \<and> flying = {}"
| "phase_shown (InFlight k a) status flying \<longleftrightarrow>
     status = (if k then ''compacting_pending'' else ''pending'') \<and> flying = {a}"
| "phase_shown Lost status flying \<longleftrightarrow> status = ''unknown'' \<and> flying = {}"
| "phase_shown AwaitingCommit status flying \<longleftrightarrow> status = ''awaiting_compaction'' \<and> flying = {}"

definition attempts_of :: "store \<Rightarrow> string \<Rightarrow> string \<rightharpoonup> attempt_row" where
  "attempts_of st sid a =
     (case fmlookup (st_attempts st) a of Some r \<Rightarrow> if ar_session r = sid then Some r else None | None \<Rightarrow> None)"

definition in_flight :: "(string \<rightharpoonup> attempt_row) \<Rightarrow> string set" where
  "in_flight m = {a. \<exists>r. m a = Some r \<and> ar_status r = ''pending''}"

definition session_shown :: "(string \<rightharpoonup> attempt_row) \<Rightarrow> session \<Rightarrow> session_view \<Rightarrow> bool" where
  "session_shown m s v \<longleftrightarrow>
     phase_shown (sv_phase v) (se_status s) (in_flight m) \<and> sv_epoch v = se_epoch s \<and> sv_head v = se_head s"

definition shows_session :: "store \<Rightarrow> string \<Rightarrow> session_view \<Rightarrow> bool" where
  "shows_session st sid v \<longleftrightarrow>
     (case fmlookup (st_sessions st) sid of Some s \<Rightarrow> session_shown (attempts_of st sid) s v | None \<Rightarrow> False)"

section \<open>The invariant of the tables\<close>

definition session_ok :: "(string \<rightharpoonup> attempt_row) \<Rightarrow> session \<Rightarrow> bool" where
  "session_ok m s \<longleftrightarrow>
     (\<exists>v. session_shown m s v) \<and>
     (\<forall>a r. m a = Some r \<and> ar_status r = ''pending'' \<longrightarrow> ar_epoch r = se_epoch s) \<and>
     (\<forall>h. se_head s = Some h \<longrightarrow> (\<exists>r. m h = Some r \<and> ar_epoch r = se_epoch s \<and> ar_status r = ''finalized'')) \<and>
     (se_status s = ''awaiting_compaction'' \<longrightarrow> se_head s \<noteq> None)"

definition sessions_ok :: "store \<Rightarrow> bool" where
  "sessions_ok st \<longleftrightarrow>
     (\<forall>sid s. fmlookup (st_sessions st) sid = Some s \<longrightarrow> se_id s = sid \<and> session_ok (attempts_of st sid) s)"

definition attempt_ok :: "store \<Rightarrow> string \<Rightarrow> attempt_row \<Rightarrow> bool" where
  "attempt_ok st a r \<longleftrightarrow>
     ar_session r |\<in>| fmdom (st_sessions st) \<and> ar_status r \<in> {''pending'', ''unknown'', ''finalized''} \<and>
     0 < ar_reserve r \<and> (ar_status r = ''finalized'' \<longleftrightarrow> a |\<in>| fmdom (st_records st))"

definition record_ok :: "store \<Rightarrow> string \<Rightarrow> record_row \<Rightarrow> bool" where
  "record_ok st a r \<longleftrightarrow>
     (\<exists>t. fmlookup (st_attempts st) a = Some t \<and>
        (\<forall>e. rr_envelope r = Some e \<longrightarrow> sql_length e \<le> ar_reserve t))"

definition rows_ok :: "store \<Rightarrow> bool" where
  "rows_ok st \<longleftrightarrow>
     (\<forall>a r. fmlookup (st_attempts st) a = Some r \<longrightarrow> attempt_ok st a r) \<and>
     (\<forall>a r. fmlookup (st_records st) a = Some r \<longrightarrow> record_ok st a r)"

definition store_ok :: "store \<Rightarrow> bool" where
  "store_ok st \<longleftrightarrow> sessions_ok st \<and> rows_ok st \<and> used st < 2 ^ 63 \<and> unat (st_limit st) < 2 ^ 63"

section \<open>Effects of the operations\<close>

lemma sql_length_le: "sql_length e \<le> length e"
  unfolding sql_length_def by (meson length_filter_le length_takeWhile_le le_trans)

lemma used_sum: "used st = (\<Sum>a \<in> fset (fmdom (st_attempts st)). ar_reserve (the (fmlookup (st_attempts st) a)))"
proof -
  have "used st = sum_list (map (\<lambda>a. ar_reserve (the (fmlookup (st_attempts st) a)))
      (sorted_list_of_fset (fmdom (st_attempts st))))"
    by (simp add: used_def sorted_list_of_fmap_def comp_def)
  then show ?thesis
    by (simp add: sorted_list_of_fset.rep_eq sum_list_distinct_conv_sum_set)
qed

lemma used_insert:
  assumes "st_attempts st' = fmupd a r (st_attempts st)" and "a |\<notin>| fmdom (st_attempts st)"
  shows "used st' = used st + ar_reserve r"
proof -
  have "used st' = (\<Sum>x \<in> insert a (fset (fmdom (st_attempts st))).
      ar_reserve (the (if a = x then Some r else fmlookup (st_attempts st) x)))"
    by (simp add: used_sum assms(1))
  also have "\<dots> = ar_reserve r + (\<Sum>x \<in> fset (fmdom (st_attempts st)).
      ar_reserve (the (if a = x then Some r else fmlookup (st_attempts st) x)))"
    using assms(2) by (subst sum.insert) simp_all
  also have "\<dots> = ar_reserve r + used st"
    unfolding used_sum using assms(2) by (intro arg_cong2 [where f = "(+)"] refl sum.cong) auto
  finally show ?thesis by simp
qed

lemma used_same:
  assumes "fmdom (st_attempts st') = fmdom (st_attempts st)"
    and "\<And>a r r'. fmlookup (st_attempts st) a = Some r \<Longrightarrow> fmlookup (st_attempts st') a = Some r' \<Longrightarrow>
      ar_reserve r' = ar_reserve r"
  shows "used st' = used st"
  unfolding used_sum assms(1)
proof (rule sum.cong)
  fix a assume "a \<in> fset (fmdom (st_attempts st))"
  moreover from this have "a \<in> fset (fmdom (st_attempts st'))" using assms(1) by simp
  ultimately show "ar_reserve (the (fmlookup (st_attempts st') a)) = ar_reserve (the (fmlookup (st_attempts st) a))"
    using assms(2) by (auto simp: fmlookup_dom_iff)
qed simp

lemma attempts_of_Some: "attempts_of st sid a = Some r \<longleftrightarrow> fmlookup (st_attempts st) a = Some r \<and> ar_session r = sid"
  by (auto simp: attempts_of_def split: option.splits)

lemma attempts_of_upd:
  assumes "st_attempts st' = fmupd a r (st_attempts st)"
    and "\<And>t. fmlookup (st_attempts st) a = Some t \<Longrightarrow> ar_session t = ar_session r"
  shows "attempts_of st' i = (if i = ar_session r then (attempts_of st i)(a \<mapsto> r) else attempts_of st i)"
proof
  fix x
  show "attempts_of st' i x = (if i = ar_session r then (attempts_of st i)(a \<mapsto> r) else attempts_of st i) x"
  proof (cases "x = a")
    case True
    then show ?thesis
      using assms(2) by (cases "fmlookup (st_attempts st) a") (simp_all add: attempts_of_def assms(1))
  next
    case False
    then have "fmlookup (st_attempts st') x = fmlookup (st_attempts st) x" by (simp add: assms(1))
    with False show ?thesis by (cases "fmlookup (st_attempts st) x") (simp_all add: attempts_of_def)
  qed
qed

lemma attempts_of_same: "st_attempts st' = st_attempts st \<Longrightarrow> attempts_of st' i = attempts_of st i"
  by (rule ext) (simp add: attempts_of_def)

lemma load_Ok [simp]: "load st sid = Ok s \<longleftrightarrow> fmlookup (st_sessions st) sid = Some s"
  by (simp add: load_def)

lemma sessions_okD:
  "sessions_ok st \<Longrightarrow> fmlookup (st_sessions st) sid = Some s \<Longrightarrow> se_id s = sid \<and> session_ok (attempts_of st sid) s"
  by (simp add: sessions_ok_def)

lemma in_flight_upd:
  "in_flight (m(a \<mapsto> r)) = (if ar_status r = ''pending'' then insert a (in_flight m) else in_flight m - {a})"
  by (auto simp: in_flight_def)

text \<open>An operation that stores one session and changes only attempts of that session.\<close>

lemma sessions_ok_put:
  assumes "sessions_ok st" and "st_sessions st' = fmupd sid s' (st_sessions st)"
    and "\<And>i. i \<noteq> sid \<Longrightarrow> attempts_of st' i = attempts_of st i"
    and "se_id s' = sid" and "session_ok (attempts_of st' sid) s'"
  shows "sessions_ok st'"
  using assms by (auto simp: sessions_ok_def)
section \<open>Every operation keeps the invariant and follows the protocol\<close>

definition follows :: "store \<Rightarrow> store \<Rightarrow> bool" where
  "follows st st' \<longleftrightarrow>
     store_ok st' \<and>
     (\<forall>sid v. shows_session st sid v \<longrightarrow> (\<exists>v'. shows_session st' sid v' \<and> (v' = v \<or> session_protocol v v')))"

lemma follows_put:
  assumes ok: "store_ok st" and s: "fmlookup (st_sessions st) sid = Some s"
    and put: "st_sessions st' = fmupd sid s' (st_sessions st)"
    and others: "\<And>i. i \<noteq> sid \<Longrightarrow> attempts_of st' i = attempts_of st i"
    and sid: "se_id s' = sid" and session: "session_ok (attempts_of st' sid) s'"
    and shown: "session_shown (attempts_of st' sid) s' v'"
    and step: "\<And>v. session_shown (attempts_of st sid) s v \<Longrightarrow> v' = v \<or> session_protocol v v'"
    and rows: "rows_ok st'" and used: "used st' < 2 ^ 63" and limit: "st_limit st' = st_limit st"
  shows "follows st st'"
proof -
  have "sessions_ok st'"
    using ok sessions_ok_put [OF _ put others sid session] by (simp add: store_ok_def)
  moreover have "\<exists>w. shows_session st' i w \<and> (w = v \<or> session_protocol v w)" if v: "shows_session st i v" for i v
  proof (cases "i = sid")
    case True
    with v s have "session_shown (attempts_of st sid) s v" by (simp add: shows_session_def)
    from step [OF this] shown True put show ?thesis by (auto simp: shows_session_def)
  next
    case False
    with v put others [OF False] have "shows_session st' i v" by (auto simp: shows_session_def split: option.splits)
    then show ?thesis by blast
  qed
  ultimately show ?thesis using ok rows used limit by (simp add: follows_def store_ok_def)
qed

lemma follows_same_sessions:
  assumes "store_ok st" and "st_sessions st' = st_sessions st" and "st_attempts st' = st_attempts st"
    and "rows_ok st'" and "st_limit st' = st_limit st"
  shows "follows st st'"
proof -
  have same: "attempts_of st' i = attempts_of st i" for i by (rule attempts_of_same [OF assms(3)])
  have "used st' = used st" by (simp add: used_sum assms(3))
  with assms(1,4,5) have "store_ok st'" by (simp add: store_ok_def sessions_ok_def assms(2) same)
  moreover have "shows_session st' i v \<longleftrightarrow> shows_session st i v" for i v
    by (simp add: shows_session_def assms(2) same split: option.splits)
  ultimately show ?thesis by (auto simp: follows_def)
qed

text \<open>The view of a session is determined by its status.\<close>

lemma shown_phase:
  assumes "session_shown m s v"
  shows "v = \<lparr>sv_phase = sv_phase v, sv_epoch = se_epoch s, sv_head = se_head s\<rparr>"
    and "phase_shown (sv_phase v) (se_status s) (in_flight m)"
  using assms by (simp_all add: session_shown_def)

lemma shown_cases:
  assumes "session_shown m s v"
  shows "se_status s = ''ready'' \<Longrightarrow> v = \<lparr>sv_phase = Idle, sv_epoch = se_epoch s, sv_head = se_head s\<rparr>"
    and "se_status s = ''compacting'' \<Longrightarrow> v = \<lparr>sv_phase = Compacting, sv_epoch = se_epoch s, sv_head = se_head s\<rparr>"
    and "se_status s = ''unknown'' \<Longrightarrow> v = \<lparr>sv_phase = Lost, sv_epoch = se_epoch s, sv_head = se_head s\<rparr>"
    and "se_status s = ''awaiting_compaction'' \<Longrightarrow>
      v = \<lparr>sv_phase = AwaitingCommit, sv_epoch = se_epoch s, sv_head = se_head s\<rparr>"
    and "se_status s = ''pending'' \<Longrightarrow> in_flight m = {a} \<Longrightarrow>
      v = \<lparr>sv_phase = InFlight False a, sv_epoch = se_epoch s, sv_head = se_head s\<rparr>"
    and "se_status s = ''compacting_pending'' \<Longrightarrow> in_flight m = {a} \<Longrightarrow>
      v = \<lparr>sv_phase = InFlight True a, sv_epoch = se_epoch s, sv_head = se_head s\<rparr>"
    and "se_status s \<notin> {''pending'', ''compacting_pending''} \<Longrightarrow> in_flight m = {}"
  using shown_phase [OF assms] by (cases "sv_phase v"; auto split: if_splits)+

lemma rows_ok_sessions:
  assumes "rows_ok st" and "fset (fmdom (st_sessions st)) \<subseteq> fset (fmdom (st_sessions st'))"
    and "st_attempts st' = st_attempts st" and "st_records st' = st_records st"
  shows "rows_ok st'"
  using assms by (auto simp: rows_ok_def attempt_ok_def record_ok_def)

lemma rows_ok_upd:
  assumes "rows_ok st" and "fset (fmdom (st_sessions st)) \<subseteq> fset (fmdom (st_sessions st'))"
    and attempts: "st_attempts st' = fmupd a r (st_attempts st)" and a: "attempt_ok st' a r"
    and records: "\<And>x. x \<noteq> a \<Longrightarrow> fmlookup (st_records st') x = fmlookup (st_records st) x"
    and rec: "\<And>rr. fmlookup (st_records st') a = Some rr \<Longrightarrow> record_ok st' a rr"
  shows "rows_ok st'"
proof -
  have dom: "x |\<in>| fmdom (st_records st') \<longleftrightarrow> x |\<in>| fmdom (st_records st)" if "x \<noteq> a" for x
    using records [OF that] by (simp add: fmlookup_dom_iff)
  have "attempt_ok st' x t" if "fmlookup (st_attempts st') x = Some t" for x t
    using that assms(1,2) a dom [of x] by (auto simp: rows_ok_def attempt_ok_def attempts split: if_splits)
  moreover have "record_ok st' x t" if t: "fmlookup (st_records st') x = Some t" for x t
  proof (cases "x = a")
    case False
    with t records [OF False] assms(1) show ?thesis by (auto simp: rows_ok_def record_ok_def attempts)
  qed (use t rec in simp)
  ultimately show ?thesis by (simp add: rows_ok_def)
qed

lemma rows_ok_no_record:
  assumes "rows_ok st" and "\<And>r. fmlookup (st_attempts st) a = Some r \<Longrightarrow> ar_status r \<noteq> ''finalized''"
  shows "fmlookup (st_records st) a = None"
proof (rule ccontr)
  assume "fmlookup (st_records st) a \<noteq> None"
  then obtain rr where rr: "fmlookup (st_records st) a = Some rr" by blast
  with assms(1) have "record_ok st a rr" by (simp add: rows_ok_def)
  then obtain t where "fmlookup (st_attempts st) a = Some t" by (auto simp: record_ok_def)
  with assms rr show False by (auto simp: rows_ok_def attempt_ok_def dest: fmdomI)
qed

lemma shown_in_flight:
  assumes "session_shown m s v" and "m a = Some r" and "ar_status r = ''pending''"
  shows "in_flight m = {a} \<and> se_status s \<in> {''pending'', ''compacting_pending''} \<and>
    v = \<lparr>sv_phase = InFlight (se_status s = ''compacting_pending'') a, sv_epoch = se_epoch s, sv_head = se_head s\<rparr>"
proof -
  have "a \<in> in_flight m" using assms by (simp add: in_flight_def)
  with shown_phase [OF assms(1)] show ?thesis by (cases "sv_phase v") (auto split: if_splits)
qed

lemma create_follows:
  assumes ok: "store_ok st" and run: "store_create st uuid o1 = Ok (s, st')"
  shows "follows st st'"
proof -
  from run have new: "uuid |\<notin>| fmdom (st_sessions st)" and st': "st' = st\<lparr>st_sessions := fmupd uuid s (st_sessions st)\<rparr>"
    and s: "s = \<lparr>se_id = uuid, se_epoch = 1, se_revision = 1, se_origin = o1, se_status = ''ready'',
                se_head = None, se_pending_tools = False, se_portable_sha256 = None\<rparr>"
    by (auto simp: store_create_def Let_def split: if_splits)
  have same: "attempts_of st' i = attempts_of st i" for i by (rule attempts_of_same) (simp add: st')
  have sessions: "st_sessions st' = fmupd uuid s (st_sessions st)" by (simp add: st')
  have none: "attempts_of st uuid a = None" for a
    using ok new by (auto simp: store_ok_def rows_ok_def attempt_ok_def attempts_of_def split: option.splits)
  have "session_shown (attempts_of st uuid) s \<lparr>sv_phase = Idle, sv_epoch = 1, sv_head = None\<rparr>"
    by (simp add: session_shown_def s in_flight_def none)
  then have "session_ok (attempts_of st uuid) s" by (auto simp: session_ok_def none s)
  then have "session_ok (attempts_of st' uuid) s" by (simp only: same)
  then have "sessions_ok st'"
    using sessions_ok_put [OF _ sessions same] ok by (simp add: store_ok_def s)
  moreover have "rows_ok st'" using ok by (rule_tac rows_ok_sessions [of st]) (auto simp: store_ok_def st')
  moreover have "used st' = used st" by (simp add: used_def st')
  moreover have "shows_session st' i v" if "shows_session st i v" for i v
    using that new by (auto simp: shows_session_def same sessions fmdom_notD split: option.splits)
  moreover have "st_limit st' = st_limit st" by (simp add: st')
  ultimately show ?thesis using ok by (auto simp: follows_def store_ok_def)
qed

lemma begin_follows:
  assumes ok: "store_ok st" and run: "store_begin st uuid sid n1 parent d res = Ok (a, st')"
  shows "follows st st' \<and> used st' \<le> unat (st_limit st)"
proof -
  let ?row = "\<lambda>s. \<lparr>ar_session = sid, ar_epoch = se_epoch s, ar_input_digest = d, ar_status = ''pending'', ar_reserve = unat res\<rparr>"
  let ?s' = "\<lambda>s. s\<lparr>se_status := (if se_status s = ''compacting'' then ''compacting_pending'' else ''pending''),
                  se_revision := se_revision s + 1\<rparr>"
  from run obtain s where s: "fmlookup (st_sessions st) sid = Some s" and status: "se_status s \<in> {''ready'', ''compacting''}"
    and cap: "\<not> over_capacity st res" and res: "unat res < 2 ^ 63" and new: "a |\<notin>| fmdom (st_attempts st)"
    and st': "st' = save (set_attempt st a (?row s)) (?s' s)" and small: "used st < 2 ^ 63"
    by (auto simp: store_begin_def Let_def not_le split: if_splits)
  from ok s have sid: "se_id s = sid" and sok: "session_ok (attempts_of st sid) s"
    by (auto simp: store_ok_def dest: sessions_okD)
  have sessions: "st_sessions st' = fmupd sid (?s' s) (st_sessions st)"
    and attempts: "st_attempts st' = fmupd a (?row s) (st_attempts st)"
    and records: "st_records st' = st_records st" and limit: "st_limit st' = st_limit st"
    using s by (auto simp: st' save_def set_attempt_def sid intro: fmdomI)
  have m: "attempts_of st' i = (if i = sid then (attempts_of st i)(a \<mapsto> ?row s) else attempts_of st i)" for i
    using attempts_of_upd [OF attempts] new by (simp add: fmdom_notD)
  obtain v where v: "session_shown (attempts_of st sid) s v" using sok by (auto simp: session_ok_def)
  have idle: "in_flight (attempts_of st sid) = {}" using shown_cases(7) [OF v] status by auto
  let ?v' = "\<lparr>sv_phase = InFlight (se_status s = ''compacting'') a, sv_epoch = se_epoch s, sv_head = se_head s\<rparr>"
  have shown: "session_shown (attempts_of st' sid) (?s' s) ?v'"
    by (simp add: session_shown_def m in_flight_upd idle)
  have sok': "session_ok (attempts_of st' sid) (?s' s)"
    using sok shown new idle
    by (auto simp: session_ok_def m in_flight_def attempts_of_Some fmdom_notD split: if_splits)
  have step: "?v' = w \<or> session_protocol w ?v'" if w: "session_shown (attempts_of st sid) s w" for w
    using status
  proof (elim insertE emptyE)
    assume "se_status s = ''ready''"
    then show ?thesis using shown_cases(1) [OF w] by (simp add: session_protocol.begin_turn)
  next
    assume "se_status s = ''compacting''"
    then show ?thesis using shown_cases(2) [OF w] by (simp add: session_protocol.begin_compaction)
  qed
  have reserved: "used st + unat res \<le> unat (st_limit st)" and pos: "0 < unat res"
    using cap small by (auto simp: over_capacity_def checked_add_Some unat_of_nat word_le_nat_alt not_less
        unat_gt_0 split: option.splits)
  have used': "used st' = used st + unat res" using used_insert [OF attempts new] by simp
  have "rows_ok st" and none: "fmlookup (st_records st) a = None"
    using ok new rows_ok_no_record [of st a] by (auto simp: store_ok_def fmdom_notD)
  then have rows: "rows_ok st'"
    using pos by (rule_tac rows_ok_upd [OF _ _ attempts]) (auto simp: attempt_ok_def sessions records fmdom_notI)
  have "follows st st'"
    by (rule follows_put [OF ok s sessions _ _ sok' shown step rows])
      (use ok reserved used' limit sid in \<open>simp_all add: m store_ok_def\<close>)
  then show ?thesis using reserved used' by simp
qed
lemma finalize_follows:
  assumes ok: "store_ok st" and run: "store_finalize st sid a d e t = Ok st'"
  shows "follows st st'"
proof -
  let ?s' = "\<lambda>s. s\<lparr>se_status := (if se_status s = ''compacting_pending'' then ''awaiting_compaction'' else ''ready''),
                     se_head := Some a, se_pending_tools := t, se_revision := se_revision s + 1\<rparr>"
  from run obtain s r where s: "fmlookup (st_sessions st) sid = Some s" and r: "fmlookup (st_attempts st) a = Some r"
    and row: "ar_session r = sid" "ar_epoch r = se_epoch s" "ar_status r = ''pending''"
    and size: "length e \<le> ar_reserve r"
    and st': "st' = save (set_attempt (st\<lparr>st_records := fmupd a \<lparr>rr_digest = d, rr_envelope = Some e\<rparr> (st_records st)\<rparr>) a
        (r\<lparr>ar_status := ''finalized''\<rparr>)) (?s' s)"
    by (auto simp: store_finalize_def Let_def split: if_splits option.splits)
  from ok s have sid: "se_id s = sid" and sok: "session_ok (attempts_of st sid) s"
    by (auto simp: store_ok_def dest: sessions_okD)
  have sessions: "st_sessions st' = fmupd sid (?s' s) (st_sessions st)"
    and attempts: "st_attempts st' = fmupd a (r\<lparr>ar_status := ''finalized''\<rparr>) (st_attempts st)"
    and records: "st_records st' = fmupd a \<lparr>rr_digest = d, rr_envelope = Some e\<rparr> (st_records st)"
    and limit: "st_limit st' = st_limit st"
    using s by (auto simp: st' save_def set_attempt_def sid intro: fmdomI)
  have m: "attempts_of st' i = (if i = sid then (attempts_of st i)(a \<mapsto> r\<lparr>ar_status := ''finalized''\<rparr>) else attempts_of st i)" for i
    using attempts_of_upd [OF attempts] r row by simp
  have ma: "attempts_of st sid a = Some r" using r row by (simp add: attempts_of_Some)
  obtain v where v: "session_shown (attempts_of st sid) s v" using sok by (auto simp: session_ok_def)
  note fly = shown_in_flight [OF v ma row(3)]
  let ?v' = "\<lparr>sv_phase = (if se_status s = ''compacting_pending'' then AwaitingCommit else Idle),
    sv_epoch = se_epoch s, sv_head = Some a\<rparr>"
  have shown: "session_shown (attempts_of st' sid) (?s' s) ?v'"
    using fly by (simp add: session_shown_def m in_flight_upd)
  have sok': "session_ok (attempts_of st' sid) (?s' s)"
    unfolding session_ok_def using sok shown row by (auto simp: session_ok_def m split: if_splits)
  have step: "?v' = w \<or> session_protocol w ?v'" if w: "session_shown (attempts_of st sid) s w" for w
    using shown_in_flight [OF w ma row(3)]
    by (auto simp: session_protocol.finish_turn session_protocol.finish_compaction)
  have "used st' = used st"
    using r by (intro used_same) (auto simp: attempts fmdomI finsert_absorb split: if_splits)
  moreover have rows: "rows_ok st'"
    using ok r size sql_length_le [of e] s
    by (rule_tac rows_ok_upd [OF _ _ attempts])
      (auto simp: store_ok_def rows_ok_def attempt_ok_def record_ok_def attempts sessions records)
  ultimately show ?thesis
    using ok sid limit by (intro follows_put [OF ok s sessions _ _ sok' shown step rows]) (simp_all add: m store_ok_def)
qed

lemma uncertain_follows:
  assumes ok: "store_ok st" and run: "store_uncertain st sid a = Ok st'"
  shows "follows st st'"
proof (cases "\<exists>r. fmlookup (st_attempts st) a = Some r \<and> ar_session r = sid \<and> ar_status r = ''pending''")
  case False
  with run have "st' = st" by (auto simp: store_uncertain_def split: option.splits if_splits)
  with ok show ?thesis by (simp add: follows_same_sessions store_ok_def)
next
  case True
  then obtain r where r: "fmlookup (st_attempts st) a = Some r" and row: "ar_session r = sid" "ar_status r = ''pending''"
    by blast
  from run r row obtain s where s: "fmlookup (st_sessions st) sid = Some s"
    and st': "st' = save (set_attempt st a (r\<lparr>ar_status := ''unknown''\<rparr>)) (mark_unknown s)"
    by (auto simp: store_uncertain_def Let_def set_attempt_def)
  from ok s have sid: "se_id s = sid" and sok: "session_ok (attempts_of st sid) s"
    by (auto simp: store_ok_def dest: sessions_okD)
  have sessions: "st_sessions st' = fmupd sid (mark_unknown s) (st_sessions st)"
    and attempts: "st_attempts st' = fmupd a (r\<lparr>ar_status := ''unknown''\<rparr>) (st_attempts st)"
    and records: "st_records st' = st_records st" and limit: "st_limit st' = st_limit st"
    using s by (auto simp: st' save_def set_attempt_def sid mark_unknown_def intro: fmdomI)
  have m: "attempts_of st' i = (if i = sid then (attempts_of st i)(a \<mapsto> r\<lparr>ar_status := ''unknown''\<rparr>) else attempts_of st i)" for i
    using attempts_of_upd [OF attempts] r row by simp
  have ma: "attempts_of st sid a = Some r" using r row by (simp add: attempts_of_Some)
  obtain v where v: "session_shown (attempts_of st sid) s v" using sok by (auto simp: session_ok_def)
  let ?v' = "\<lparr>sv_phase = Lost, sv_epoch = se_epoch s, sv_head = se_head s\<rparr>"
  have shown: "session_shown (attempts_of st' sid) (mark_unknown s) ?v'"
    using shown_in_flight [OF v ma row(2)] by (simp add: session_shown_def m in_flight_upd mark_unknown_def)
  have sok': "session_ok (attempts_of st' sid) (mark_unknown s)"
    unfolding session_ok_def using sok shown row ma by (auto simp: session_ok_def m mark_unknown_def split: if_splits)
  have step: "?v' = w \<or> session_protocol w ?v'" if w: "session_shown (attempts_of st sid) s w" for w
    using shown_in_flight [OF w ma row(2)] by (simp add: session_protocol.lose)
  have "used st' = used st"
    using r by (intro used_same) (auto simp: attempts fmdomI finsert_absorb split: if_splits)
  moreover have "fmlookup (st_records st) a = None"
    using ok r row rows_ok_no_record [of st a] by (simp add: store_ok_def)
  then have rows: "rows_ok st'"
    using ok r s row
    by (rule_tac rows_ok_upd [OF _ _ attempts])
      (auto simp: store_ok_def rows_ok_def attempt_ok_def attempts sessions records fmdom_notI)
  ultimately show ?thesis
    using ok sid limit
    by (intro follows_put [OF ok s sessions _ _ sok' shown step rows]) (simp_all add: m store_ok_def mark_unknown_def)
qed

lemma repair_follows:
  assumes ok: "store_ok st" and run: "store_repair st a d e = Ok st'"
  shows "follows st st'"
proof -
  from run obtain r t where r: "fmlookup (st_records st) a = Some r" and t: "fmlookup (st_attempts st) a = Some t"
    and size: "sql_length e \<le> ar_reserve t"
    and st': "st' = st\<lparr>st_records := fmupd a (r\<lparr>rr_envelope := Some e\<rparr>) (st_records st)\<rparr>"
    by (auto simp: store_repair_def split: option.splits if_splits)
  have "rows_ok st'"
    using ok r t size
    by (auto simp: store_ok_def rows_ok_def attempt_ok_def record_ok_def st' split: if_splits intro: fmdomI)
  with ok show ?thesis by (intro follows_same_sessions) (simp_all add: st')
qed

lemma transition_follows:
  assumes ok: "store_ok st" and run: "store_transition st u sid n1 kind portable d = Ok (s', st')"
  shows "follows st st'"
proof -
  from run obtain s s1 where s: "fmlookup (st_sessions st) sid = Some s"
    and idle: "se_status s \<notin> {''pending'', ''compacting_pending''}"
    and s1: "transition_session s kind portable = Ok s1" and s': "s' = s1\<lparr>se_revision := se_revision s1 + 1\<rparr>"
    and st': "st_sessions st' = st_sessions (save st s')" "st_attempts st' = st_attempts (save st s')"
      "st_records st' = st_records (save st s')" "st_limit st' = st_limit (save st s')"
    by (auto simp: store_transition_def Let_def split: if_splits)
  from ok s have sid: "se_id s = sid" and sok: "session_ok (attempts_of st sid) s"
    by (auto simp: store_ok_def dest: sessions_okD)
  have sid': "se_id s' = sid"
    using s1 by (auto simp: transition_session_def next_epoch_def s' sid split: if_splits)
  have sessions: "st_sessions st' = fmupd sid s' (st_sessions st)" and attempts: "st_attempts st' = st_attempts st"
    and records: "st_records st' = st_records st" and limit: "st_limit st' = st_limit st"
    using s by (auto simp: st' save_def sid' intro: fmdomI)
  have m: "attempts_of st' i = attempts_of st i" for i by (rule attempts_of_same [OF attempts])
  obtain v where v: "session_shown (attempts_of st sid) s v" using sok by (auto simp: session_ok_def)
  note fly = shown_cases(7) [OF v idle]
  let ?v' = "\<lparr>sv_phase = (if kind = ''compact_begin'' then Compacting else Idle), sv_epoch = se_epoch s', sv_head = se_head s'\<rparr>"
  have shown: "session_shown (attempts_of st' sid) s' ?v'"
    using s1 fly by (auto simp: session_shown_def m s' transition_session_def next_epoch_def split: if_splits)
  have sok': "session_ok (attempts_of st' sid) s'"
    unfolding session_ok_def using sok shown fly s1
    by (auto simp: session_ok_def m s' transition_session_def next_epoch_def in_flight_def split: if_splits)
  have phase: "sv_phase w \<noteq> InFlight k x" if w: "session_shown (attempts_of st sid) s w" for w k x
    using shown_phase(2) [OF w] fly by (cases "sv_phase w") auto
  have step: "?v' = w \<or> session_protocol w ?v'" if w: "session_shown (attempts_of st sid) s w" for w
  proof (cases "kind = ''compact_begin''")
    case True
    with s1 shown_cases(1) [OF w] show ?thesis
      by (auto simp: transition_session_def s' session_protocol.start_compaction split: if_splits)
  next
    case False
    have "session_protocol \<lparr>sv_phase = sv_phase w, sv_epoch = se_epoch s, sv_head = se_head s\<rparr>
        \<lparr>sv_phase = Idle, sv_epoch = se_epoch s + 1, sv_head = None\<rparr>"
      using phase [OF w] by (rule session_protocol.recover)
    with False s1 shown_phase(1) [OF w] show ?thesis
      by (auto simp: transition_session_def next_epoch_def s' split: if_splits)
  qed
  have "used st' = used st" by (simp add: used_def attempts)
  moreover have rows: "rows_ok st'"
    using ok by (rule_tac rows_ok_sessions [of st]) (auto simp: store_ok_def sessions attempts records)
  ultimately show ?thesis
    using ok limit by (intro follows_put [OF ok s sessions _ sid' sok' shown step rows]) (simp_all add: m store_ok_def)
qed
section \<open>Opening marks what a crash left in flight\<close>

lemma recover_sessions:
  assumes "distinct ids" and "\<And>i. i \<in> set ids \<Longrightarrow> \<exists>s. fmlookup (st_sessions st) i = Some s \<and> se_id s = i"
  shows "\<exists>m. fold_result recover_session st ids = Ok (st\<lparr>st_sessions := m\<rparr>) \<and>
    (\<forall>i. fmlookup m i = (if i \<in> set ids then map_option mark_unknown (fmlookup (st_sessions st) i)
                         else fmlookup (st_sessions st) i))"
  using assms
proof (induction ids arbitrary: st)
  case Nil
  then show ?case by (intro exI [of _ "st_sessions st"]) simp
next
  case (Cons i ids)
  from Cons.prems(2) [of i] obtain s where s: "fmlookup (st_sessions st) i = Some s" "se_id s = i" by auto
  let ?st = "st\<lparr>st_sessions := fmupd i (mark_unknown s) (st_sessions st)\<rparr>"
  have one: "recover_session st i = Ok ?st"
    using s by (simp add: recover_session_def load_def save_def mark_unknown_def fmdomI)
  have "\<exists>s. fmlookup (st_sessions ?st) j = Some s \<and> se_id s = j" if "j \<in> set ids" for j
    using Cons.prems that by auto
  with Cons.IH [of ?st] Cons.prems(1) obtain m where
    "fold_result recover_session ?st ids = Ok (?st\<lparr>st_sessions := m\<rparr>)"
    "\<And>j. fmlookup m j = (if j \<in> set ids then map_option mark_unknown (fmlookup (st_sessions ?st) j)
                         else fmlookup (st_sessions ?st) j)"
    by auto
  with one s Cons.prems(1) show ?case by (intro exI [of _ m]) auto
qed

lemma set_pending_sessions:
  "i \<in> set (pending_sessions st) \<longleftrightarrow>
     (\<exists>a r. fmlookup (st_attempts st) a = Some r \<and> ar_session r = i \<and> ar_status r = ''pending'')"
  by (force simp: pending_sessions_def sorted_list_of_fmap_member)

lemma pending_session_in_flight: "i \<in> set (pending_sessions st) \<longleftrightarrow> in_flight (attempts_of st i) \<noteq> {}"
  by (auto simp: set_pending_sessions in_flight_def attempts_of_Some)

lemma store_open_Ok:
  assumes ok: "store_ok st" and limit: "1024 * 1024 \<le> limit" "unat limit < 2 ^ 63"
  shows "\<exists>st'. store_open st limit = Ok st' \<and> st_limit st' = limit \<and> st_records st' = st_records st \<and>
    st_attempts st' = fmmap forget_pending (st_attempts st) \<and>
    (\<forall>i. fmlookup (st_sessions st') i = (if in_flight (attempts_of st i) \<noteq> {}
       then map_option mark_unknown (fmlookup (st_sessions st) i) else fmlookup (st_sessions st) i))"
proof -
  have ids: "\<exists>s. fmlookup (st_sessions (st\<lparr>st_limit := limit\<rparr>)) i = Some s \<and> se_id s = i"
    if "i \<in> set (pending_sessions st)" for i
  proof -
    from that obtain a r where r: "fmlookup (st_attempts st) a = Some r" "ar_session r = i" by (auto simp: set_pending_sessions)
    with ok have "attempt_ok st a r" by (simp add: store_ok_def rows_ok_def)
    with r obtain s where "fmlookup (st_sessions st) i = Some s" by (auto simp: attempt_ok_def fmlookup_dom_iff)
    with ok show ?thesis by (auto simp: store_ok_def dest: sessions_okD)
  qed
  have "distinct (pending_sessions st)" by (simp add: pending_sessions_def)
  from recover_sessions [OF this ids] obtain m where
    "fold_result recover_session (st\<lparr>st_limit := limit\<rparr>) (pending_sessions st) = Ok (st\<lparr>st_limit := limit, st_sessions := m\<rparr>)"
    "\<And>i. fmlookup m i = (if i \<in> set (pending_sessions st) then map_option mark_unknown (fmlookup (st_sessions st) i)
                         else fmlookup (st_sessions st) i)"
    by auto
  with limit show ?thesis by (simp add: store_open_def pending_session_in_flight linorder_not_less not_le)
qed

lemma attempts_of_forget:
  "st_attempts st' = fmmap forget_pending (st_attempts st) \<Longrightarrow>
   attempts_of st' i a = map_option forget_pending (attempts_of st i a)"
  by (cases "fmlookup (st_attempts st) a") (simp_all add: attempts_of_def forget_pending_def)

lemma open_session:
  assumes ok: "session_ok m s" and m': "\<And>a. m' a = map_option forget_pending (m a)"
    and s': "s' = (if in_flight m \<noteq> {} then mark_unknown s else s)" and v: "session_shown m s v"
  shows "session_ok m' s' \<and> (\<exists>v'. session_shown m' s' v' \<and> (v' = v \<or> session_protocol v v'))"
proof -
  have idle: "in_flight m' = {}" by (auto simp: in_flight_def m' forget_pending_def split: if_splits)
  have kept: "\<exists>r'. m' h = Some r' \<and> ar_epoch r' = e \<and> ar_status r' = ''finalized''"
    if "m h = Some r" "ar_epoch r = e" "ar_status r = ''finalized''" for h r e
    using that by (simp add: m' forget_pending_def)
  have "\<exists>v'. session_shown m' s' v' \<and> (v' = v \<or> session_protocol v v')"
  proof (cases "in_flight m = {}")
    case True
    with v show ?thesis by (intro exI [of _ v]) (simp add: session_shown_def idle s')
  next
    case False
    then obtain a r where "m a = Some r" "ar_status r = ''pending''" by (auto simp: in_flight_def)
    from shown_in_flight [OF v this] False show ?thesis
      by (intro exI [of _ "\<lparr>sv_phase = Lost, sv_epoch = se_epoch s, sv_head = se_head s\<rparr>"])
        (simp add: session_shown_def idle s' mark_unknown_def session_protocol.lose)
  qed
  moreover have "\<forall>h. se_head s' = Some h \<longrightarrow> (\<exists>r. m' h = Some r \<and> ar_epoch r = se_epoch s' \<and> ar_status r = ''finalized'')"
    using ok kept by (auto simp: session_ok_def s' mark_unknown_def)
  moreover have "se_status s' = ''awaiting_compaction'' \<longrightarrow> se_head s' \<noteq> None"
    using ok by (simp add: session_ok_def s' mark_unknown_def)
  moreover have "m' a = Some r \<Longrightarrow> ar_status r \<noteq> ''pending''" for a r using idle by (auto simp: in_flight_def)
  ultimately show ?thesis unfolding session_ok_def by blast
qed

lemma open_follows:
  assumes ok: "store_ok st" and run: "store_open st limit = Ok st'"
  shows "follows st st'"
proof -
  have limit: "1024 * 1024 \<le> limit" "unat limit < 2 ^ 63" using run by (auto simp: store_open_def split: if_splits)
  from store_open_Ok [OF ok limit] run have lim: "st_limit st' = limit" and records: "st_records st' = st_records st"
    and attempts: "st_attempts st' = fmmap forget_pending (st_attempts st)"
    and sessions: "fmlookup (st_sessions st') i = (if in_flight (attempts_of st i) \<noteq> {}
       then map_option mark_unknown (fmlookup (st_sessions st) i) else fmlookup (st_sessions st) i)" for i by auto
  note m' = attempts_of_forget [OF attempts]
  have dom: "fmdom (st_sessions st') = fmdom (st_sessions st)"
    by (rule fset_eqI) (simp add: fmlookup_dom_iff sessions)
  have kept: "\<exists>s. fmlookup (st_sessions st) i = Some s \<and>
      s' = (if in_flight (attempts_of st i) \<noteq> {} then mark_unknown s else s)"
    if "fmlookup (st_sessions st') i = Some s'" for i s'
    using that sessions [of i] by (auto split: if_splits)
  have "sessions_ok st'" unfolding sessions_ok_def
  proof (intro allI impI)
    fix i s' assume "fmlookup (st_sessions st') i = Some s'"
    from kept [OF this] obtain s where s: "fmlookup (st_sessions st) i = Some s"
      and s': "s' = (if in_flight (attempts_of st i) \<noteq> {} then mark_unknown s else s)" by blast
    from ok s have "se_id s = i" and sok: "session_ok (attempts_of st i) s"
      by (auto simp: store_ok_def dest: sessions_okD)
    moreover from sok obtain v where "session_shown (attempts_of st i) s v" by (auto simp: session_ok_def)
    ultimately show "se_id s' = i \<and> session_ok (attempts_of st' i) s'"
      using open_session [OF sok m' s'] by (simp add: s' mark_unknown_def)
  qed
  moreover have "rows_ok st'"
    unfolding rows_ok_def
  proof (intro conjI allI impI)
    fix a r assume "fmlookup (st_attempts st') a = Some r"
    then obtain t where t: "fmlookup (st_attempts st) a = Some t" and "r = forget_pending t" by (auto simp: attempts)
    moreover from ok t have "attempt_ok st a t" by (simp add: store_ok_def rows_ok_def)
    ultimately show "attempt_ok st' a r" by (auto simp: attempt_ok_def dom records forget_pending_def)
  next
    fix a r assume "fmlookup (st_records st') a = Some r"
    then have "record_ok st a r" using ok by (simp add: store_ok_def rows_ok_def records)
    then obtain t where t: "fmlookup (st_attempts st) a = Some t"
      "\<forall>e. rr_envelope r = Some e \<longrightarrow> sql_length e \<le> ar_reserve t" by (auto simp: record_ok_def)
    then have "fmlookup (st_attempts st') a = Some (forget_pending t)" by (simp add: attempts)
    moreover have "ar_reserve (forget_pending t) = ar_reserve t" by (simp add: forget_pending_def)
    ultimately show "record_ok st' a r" using t by (auto simp: record_ok_def)
  qed
  moreover have "used st' = used st"
    by (rule used_same) (auto simp: attempts forget_pending_def split: if_splits)
  moreover have "\<exists>v'. shows_session st' i v' \<and> (v' = v \<or> session_protocol v v')" if v: "shows_session st i v" for i v
  proof -
    from v obtain s where s: "fmlookup (st_sessions st) i = Some s" and v: "session_shown (attempts_of st i) s v"
      by (auto simp: shows_session_def split: option.splits)
    from ok s have "session_ok (attempts_of st i) s" by (auto simp: store_ok_def dest: sessions_okD)
    note opened = open_session [OF this m' refl v]
    have "fmlookup (st_sessions st') i = Some (if in_flight (attempts_of st i) \<noteq> {} then mark_unknown s else s)"
      by (simp add: sessions s)
    with opened show ?thesis by (simp only: shows_session_def option.case)
  qed
  ultimately show ?thesis using ok lim limit by (simp add: follows_def store_ok_def)
qed

lemma call_follows: "store_ok st \<Longrightarrow> store_call_run st c = Ok st' \<Longrightarrow> follows st st'"
proof (cases c)
  case (BindProtection f)
  assume "store_ok st" and "store_call_run st c = Ok st'"
  with BindProtection have "st' = st\<lparr>st_protection := st_protection st'\<rparr>" and ok: "store_ok st"
    by (auto simp: bind_protection_def split: option.splits if_splits)
  then have "st_sessions st' = st_sessions st" "st_attempts st' = st_attempts st" "st_records st' = st_records st"
    "st_limit st' = st_limit st" by (metis store.select_convs store.update_convs(3) store.surjective)+
  with ok show ?thesis
    by (intro follows_same_sessions) (auto simp: store_ok_def intro: rows_ok_sessions [of st])
qed (auto dest: open_follows create_follows begin_follows finalize_follows uncertain_follows repair_follows transition_follows)
section \<open>The store as a transactional machine\<close>

lemma store_step_split:
  obtains (failed) e where "store_call_run st c = Err e" and "store_step st c = (Err e, st)"
  | (success) st' where "store_call_run st c = Ok st'" and "store_step st c = (Ok (), st')"
  by (cases "store_call_run st c") (simp_all add: store_step_def transact_def)

interpretation continuation_store: transactional_machine store_step store_ok
proof
  fix st c assume "store_ok st"
  then show "store_ok (snd (store_step st c))"
    by (cases rule: store_step_split [of st c]) (auto simp: follows_def dest: call_follows)
next
  fix st c e assume "fst (store_step st c) = Inl e"
  then show "snd (store_step st c) = st" by (cases rule: store_step_split [of st c]) simp_all
qed

lemma initial_ok: "store_open (store_initial identity limit) limit = Ok st \<Longrightarrow> store_ok st"
proof -
  assume run: "store_open (store_initial identity limit) limit = Ok st"
  then have "unat limit < 2 ^ 63" by (auto simp: store_open_def split: if_splits)
  then have "store_ok (store_initial identity limit)"
    by (simp add: store_ok_def store_initial_def sessions_ok_def rows_ok_def used_sum)
  from open_follows [OF this run] show ?thesis by (simp add: follows_def)
qed

text \<open>C7. Tables stay consistent. From a freshly initialized store, after any sequence of operations
  (failed ones and reopenings included), every session has a known status; exactly one attempt is in
  flight when the status says so and none otherwise, and it belongs to the session's epoch; a head is
  a finalized attempt of that session and epoch; an attempt has a record exactly when it is finalized;
  stored envelopes fit their reservation; and the reservations never overflow the sum the capacity
  check computes.\<close>

theorem store_invariant:
  assumes "store_open (store_initial identity limit) limit = Ok st"
  shows "store_ok (snd (run_machine store_step st calls))"
  using initial_ok [OF assms] by (rule continuation_store.run_inv)

definition demo_store :: store where
  "demo_store = store_initial ''store'' (2 ^ 24)"

lemma demo_store_opens: "store_open demo_store (2 ^ 24) = Ok demo_store"
  by (simp add: demo_store_def store_open_def store_initial_def pending_sessions_def sorted_list_of_fmap_def sorted_list_of_fset.rep_eq)

definition demo_calls :: "store_call list" where
  "demo_calls = [Create ''s1'' demo_origin, Begin ''1'' ''s1'' 1 None ''d1'' 4096,
     Finalize ''s1'' ''resp_1'' ''digest'' ''envelope'' False, Begin ''2'' ''s1'' 1 None ''d2'' 4096]"

theorem store_invariant_witness: "store_ok (snd (run_machine store_step demo_store demo_calls))"
  by (rule store_invariant [of "''store''" "2 ^ 24", OF demo_store_opens [unfolded demo_store_def], folded demo_store_def])

text \<open>C4. The store refines the session protocol. Every operation that succeeds on consistent tables
  shows each session either unchanged or moved by one step of \<open>session_protocol\<close>, and an operation
  that fails changes nothing; in particular an attempt in flight is never forgotten silently and an
  epoch never ends while an attempt is in flight.\<close>

theorem store_refines_protocol:
  assumes "store_ok st" and "shows_session st sid v"
  shows "(\<exists>e. store_step st c = (Err e, st)) \<or>
    (\<exists>st' v'. store_step st c = (Ok (), st') \<and> shows_session st' sid v' \<and> (v' = v \<or> session_protocol v v'))"
proof (cases rule: store_step_split [of st c])
  case (success st')
  with call_follows [OF assms(1)] have "follows st st'" by simp
  with success assms(2) show ?thesis by (auto simp: follows_def)
qed blast

definition demo_begun :: store where
  "demo_begun = \<lparr>st_limit = 2 ^ 24, st_identity = ''store'', st_protection = None,
     st_sessions = fmap_of_list [(''s1'', \<lparr>se_id = ''s1'', se_epoch = 1, se_revision = 2, se_origin = demo_origin,
       se_status = ''pending'', se_head = None, se_pending_tools = False, se_portable_sha256 = None\<rparr>)],
     st_attempts = fmap_of_list [(''resp_1'', \<lparr>ar_session = ''s1'', ar_epoch = 1, ar_input_digest = ''d1'',
       ar_status = ''pending'', ar_reserve = 4096\<rparr>)],
     st_records = fmempty, st_transitions = fmempty\<rparr>"

lemma demo_origin_valid: "origin_validate demo_origin = Ok ()"
  by code_simp

lemmas store_eval = demo_calls_def demo_store_def store_step_def transact_def store_create_def store_initial_def
  Let_def demo_origin_valid store_begin_def load_def used_def sorted_list_of_fmap_def sorted_list_of_fset.rep_eq
  over_capacity_def checked_add_def save_def set_attempt_def same_request_def

lemma demo_run: "snd (run_machine store_step demo_store (take 2 demo_calls)) = demo_begun"
  by (simp add: store_eval demo_begun_def)

lemma demo_begun_ok: "store_ok demo_begun"
  using continuation_store.run_inv [OF initial_ok [OF demo_store_opens [unfolded demo_store_def]],
      folded demo_store_def, of "take 2 demo_calls"] demo_run by simp

definition demo_view :: session_view where
  "demo_view = \<lparr>sv_phase = InFlight False ''resp_1'', sv_epoch = 1, sv_head = None\<rparr>"

lemma demo_begun_shows: "shows_session demo_begun ''s1'' demo_view"
  by (auto simp: shows_session_def session_shown_def demo_begun_def demo_view_def in_flight_def attempts_of_def
      split: option.splits if_splits)

theorem store_refines_protocol_witness:
  "\<exists>st' v'. store_step demo_begun (demo_calls ! 2) = (Ok (), st') \<and> shows_session st' ''s1'' v' \<and>
     (v' = demo_view \<or> session_protocol demo_view v')"
proof -
  have "\<nexists>e. store_step demo_begun (demo_calls ! 2) = (Err e, demo_begun)"
    by (simp add: store_eval demo_begun_def store_finalize_def)
  with store_refines_protocol [OF demo_begun_ok demo_begun_shows, of "demo_calls ! 2"] show ?thesis by blast
qed
section \<open>Durable records, single attempts, recovery\<close>

lemma store_record_Ok:
  "store_record st a = Ok x \<longleftrightarrow>
     (\<exists>t r. fmlookup (st_attempts st) a = Some t \<and> ar_status t = ''finalized'' \<and> fmlookup (st_records st) a = Some r \<and>
        x = \<lparr>sr_id = a, sr_session = ar_session t, sr_epoch = ar_epoch t, sr_digest = rr_digest r, sr_envelope = rr_envelope r\<rparr>)"
  by (auto simp: store_record_def split: option.splits)

lemma save_tables [simp]:
  "st_attempts (save st s) = st_attempts st" "st_records (save st s) = st_records st"
  by (simp_all add: save_def)

lemma set_attempt_tables [simp]:
  "st_attempts (set_attempt st a r) = fmupd a r (st_attempts st)" "st_records (set_attempt st a r) = st_records st"
  by (simp_all add: set_attempt_def)

lemma recover_tables:
  "fold_result recover_session st ids = Ok st' \<Longrightarrow> st_attempts st' = st_attempts st \<and> st_records st' = st_records st"
  by (induction ids arbitrary: st) (auto simp: recover_session_def)

text \<open>What an operation may do to the tables of attempts and records.\<close>

lemma call_tables:
  assumes run: "store_call_run st c = Ok st'"
  obtains (same) "st_attempts st' = st_attempts st" "st_records st' = st_records st"
  | (forgot) "st_attempts st' = fmmap forget_pending (st_attempts st)" "st_records st' = st_records st"
  | (begun) a sid e d k where "a |\<notin>| fmdom (st_attempts st)" "st_records st' = st_records st"
      "st_attempts st' = fmupd a \<lparr>ar_session = sid, ar_epoch = e, ar_input_digest = d,
         ar_status = ''pending'', ar_reserve = k\<rparr> (st_attempts st)"
      "\<And>x r. fmlookup (st_attempts st) x = Some r \<Longrightarrow> \<not> same_request sid e d r"
  | (settled) a r q where "fmlookup (st_attempts st) a = Some r" "ar_status r = ''pending''"
      "st_attempts st' = fmupd a (r\<lparr>ar_status := q\<rparr>) (st_attempts st)"
      "\<And>x. x \<noteq> a \<Longrightarrow> fmlookup (st_records st') x = fmlookup (st_records st) x"
  | (repaired) a r e where "fmlookup (st_records st) a = Some r" "rr_envelope r = None"
      "st_attempts st' = st_attempts st" "st_records st' = fmupd a (r\<lparr>rr_envelope := Some e\<rparr>) (st_records st)"
proof (cases c)
  case (OpenStore l)
  with run forgot show thesis by (auto simp: store_open_def dest: recover_tables split: if_splits)
next
  case (Begin u i n p d k)
  with run obtain s where s: "fmlookup (st_sessions st) i = Some s" by (auto simp: store_begin_def)
  with run Begin have new: "(''resp_'' @ u) |\<notin>| fmdom (st_attempts st)" "st_records st' = st_records st"
    "st_attempts st' = fmupd (''resp_'' @ u) \<lparr>ar_session = i, ar_epoch = se_epoch s, ar_input_digest = d,
         ar_status = ''pending'', ar_reserve = unat k\<rparr> (st_attempts st)"
    and fresh: "\<not> list_ex (\<lambda>(_, r). same_request i (se_epoch s) d r) (sorted_list_of_fmap (st_attempts st))"
    by (auto simp: store_begin_def Let_def split: if_splits)
  have "\<not> same_request i (se_epoch s) d r" if "fmlookup (st_attempts st) x = Some r" for x r
    using fresh that sorted_list_of_fmap_member [of x r] by (force simp: list_ex_iff)
  with new show thesis by (rule begun)
next
  case (Finalize i a d e t)
  with run obtain r where "fmlookup (st_attempts st) a = Some r" "ar_status r = ''pending''"
    "st_attempts st' = fmupd a (r\<lparr>ar_status := ''finalized''\<rparr>) (st_attempts st)"
    "\<And>x. x \<noteq> a \<Longrightarrow> fmlookup (st_records st') x = fmlookup (st_records st) x"
    by (auto simp: store_finalize_def Let_def split: option.splits if_splits)
  then show thesis by (rule settled)
next
  case (Uncertain i a)
  with run show thesis
    by (auto simp: store_uncertain_def Let_def split: option.splits if_splits intro: same settled)
next
  case (Repair a d e)
  with run show thesis by (auto simp: store_repair_def split: option.splits if_splits intro: repaired)
next
  case (BindProtection f)
  with run have "st_attempts st' = st_attempts st" "st_records st' = st_records st"
    by (auto simp: bind_protection_def split: option.splits if_splits)
  then show thesis by (rule same)
next
  case (Create u o1)
  with run have "st_attempts st' = st_attempts st" "st_records st' = st_records st"
    by (auto simp: store_create_def Let_def split: if_splits)
  then show thesis by (rule same)
next
  case (Transition u i n k p d)
  with run have "st_attempts st' = st_attempts st" "st_records st' = st_records st"
    by (auto simp: store_transition_def Let_def split: if_splits)
  then show thesis by (rule same)
qed

lemma record_settled:
  assumes x: "store_record st a = Ok x" and full: "sr_envelope x \<noteq> None" and run: "store_call_run st c = Ok st'"
  shows "store_record st' a = Ok x"
proof -
  from x obtain t r where t: "fmlookup (st_attempts st) a = Some t" "ar_status t = ''finalized''"
    and r: "fmlookup (st_records st) a = Some r"
    and x: "x = \<lparr>sr_id = a, sr_session = ar_session t, sr_epoch = ar_epoch t, sr_digest = rr_digest r, sr_envelope = rr_envelope r\<rparr>"
    by (auto simp: store_record_Ok)
  have "fmlookup (st_attempts st') a = Some t \<and> fmlookup (st_records st') a = Some r"
    using run
  proof (cases rule: call_tables)
    case (settled b s q)
    with t r show ?thesis by (cases "b = a") auto
  qed (use t r x full in \<open>auto simp: forget_pending_def fmdom_notD\<close>)
  with t x show ?thesis by (simp add: store_record_Ok)
qed

lemma record_settled_run:
  assumes "store_record st a = Ok x" and "sr_envelope x \<noteq> None"
  shows "store_record (snd (run_machine store_step st calls)) a = Ok x"
proof -
  have "machine store_step (\<lambda>st. store_record st a = Ok x)"
  proof
    fix s c assume s: "store_record s a = Ok x"
    show "store_record (snd (store_step s c)) a = Ok x"
      using record_settled [OF s assms(2)] s by (cases rule: store_step_split [of s c]) auto
  qed
  from machine.run_inv [OF this assms(1)] show ?thesis .
qed

lemma finalize_stored:
  assumes "store_finalize st sid a d e t = Ok st1" and "fmlookup (st_sessions st) sid = Some s"
  shows "store_record st1 a =
    Ok \<lparr>sr_id = a, sr_session = sid, sr_epoch = se_epoch s, sr_digest = d, sr_envelope = Some e\<rparr>"
  using assms by (auto simp: store_finalize_def store_record_Ok Let_def split: option.splits if_splits)

text \<open>C22. A finalized record is durable and immutable: once an attempt is finalized with a digest and
  an envelope, the record read for it is exactly that one after any later sequence of operations,
  reopening, compaction and recovery included.\<close>

theorem finalized_record_durable:
  assumes "store_finalize st sid a d e t = Ok st1" and "fmlookup (st_sessions st) sid = Some s"
  shows "store_record (snd (run_machine store_step st1 calls)) a =
    Ok \<lparr>sr_id = a, sr_session = sid, sr_epoch = se_epoch s, sr_digest = d, sr_envelope = Some e\<rparr>"
  using record_settled_run [OF finalize_stored [OF assms]] by simp

lemma demo_begun_session: "fmlookup (st_sessions demo_begun) ''s1'' = Some \<lparr>se_id = ''s1'', se_epoch = 1, se_revision = 2,
    se_origin = demo_origin, se_status = ''pending'', se_head = None, se_pending_tools = False, se_portable_sha256 = None\<rparr>"
  by (simp add: demo_begun_def)

theorem finalized_record_durable_witness:
  "\<exists>st1. store_finalize demo_begun ''s1'' ''resp_1'' ''digest'' ''envelope'' False = Ok st1 \<and>
     store_record (snd (run_machine store_step st1 [Transition ''t'' ''s1'' 3 ''recover'' (Some ''p'') ''d''])) ''resp_1'' =
       Ok \<lparr>sr_id = ''resp_1'', sr_session = ''s1'', sr_epoch = 1, sr_digest = ''digest'', sr_envelope = Some ''envelope''\<rparr>"
proof -
  have "\<exists>st1. store_finalize demo_begun ''s1'' ''resp_1'' ''digest'' ''envelope'' False = Ok st1"
    by (simp add: store_eval demo_begun_def store_finalize_def)
  then obtain st1 where f: "store_finalize demo_begun ''s1'' ''resp_1'' ''digest'' ''envelope'' False = Ok st1" by blast
  from finalized_record_durable [OF this demo_begun_session] f show ?thesis
    by (intro exI [of _ st1]) (simp only: session.select_convs simp_thms)
qed

text \<open>One session at most once asks for the same input in the same epoch.\<close>

definition request_key :: "store \<Rightarrow> string \<Rightarrow> (string \<times> i64 \<times> string) option" where
  "request_key st a = map_option (\<lambda>r. (ar_session r, ar_epoch r, ar_input_digest r)) (fmlookup (st_attempts st) a)"

definition unique_requests :: "store \<Rightarrow> bool" where
  "unique_requests st \<longleftrightarrow> (\<forall>a b. request_key st a \<noteq> None \<and> request_key st a = request_key st b \<longrightarrow> a = b)"

lemma unique_requests_call:
  assumes u: "unique_requests st" and run: "store_call_run st c = Ok st'"
  shows "unique_requests st'"
  using run
proof (cases rule: call_tables)
  case (begun a sid e d k)
  have key: "request_key st' x = (if x = a then Some (sid, e, d) else request_key st x)" for x
    by (simp add: request_key_def begun)
  have "request_key st x \<noteq> Some (sid, e, d)" for x
    using begun(4) [of x] by (auto simp: request_key_def same_request_def)
  with u show ?thesis unfolding unique_requests_def key by (metis option.distinct(1))
next
  case forgot
  then have "request_key st' x = request_key st x" for x
    by (cases "fmlookup (st_attempts st) x") (simp_all add: request_key_def forget_pending_def)
  with u show ?thesis by (simp add: unique_requests_def)
next
  case (settled a r q)
  then have "request_key st' x = request_key st x" for x by (cases "x = a") (simp_all add: request_key_def)
  with u show ?thesis by (simp add: unique_requests_def)
qed (use u in \<open>simp_all add: unique_requests_def request_key_def\<close>)

interpretation request_uniqueness: machine store_step unique_requests
proof
  fix st c assume u: "unique_requests st"
  then show "unique_requests (snd (store_step st c))"
    by (cases rule: store_step_split [of st c]) (auto dest: unique_requests_call)
qed
text \<open>C40. No input is sent twice in one epoch: in every store reached from a fresh one, two different
  attempts never have the same session, epoch and input digest.\<close>

theorem requests_attempted_once:
  assumes "store_open (store_initial identity limit) limit = Ok st"
    and "fmlookup (st_attempts (snd (run_machine store_step st calls))) a = Some r"
    and "fmlookup (st_attempts (snd (run_machine store_step st calls))) b = Some t"
    and "ar_session r = ar_session t" "ar_epoch r = ar_epoch t" "ar_input_digest r = ar_input_digest t"
  shows "a = b"
proof -
  have "unique_requests (store_initial identity limit)"
    by (simp add: unique_requests_def request_key_def store_initial_def)
  with unique_requests_call [of _ "OpenStore limit" st] assms(1) have "unique_requests st" by simp
  then have "unique_requests (snd (run_machine store_step st calls))" by (rule request_uniqueness.run_inv)
  moreover have "request_key (snd (run_machine store_step st calls)) a = request_key (snd (run_machine store_step st calls)) b"
    and "request_key (snd (run_machine store_step st calls)) a \<noteq> None"
    using assms by (simp_all add: request_key_def)
  ultimately show ?thesis by (simp add: unique_requests_def)
qed

theorem requests_attempted_once_witness:
  "{b. \<exists>t. fmlookup (st_attempts (snd (run_machine store_step demo_store (take 2 demo_calls)))) b = Some t \<and>
     ar_session t = ''s1'' \<and> ar_epoch t = 1 \<and> ar_input_digest t = ''d1''} = {''resp_1''}"
proof -
  note once = requests_attempted_once [of "''store''" "2 ^ 24", OF demo_store_opens [unfolded demo_store_def],
      folded demo_store_def, of "take 2 demo_calls", unfolded demo_run]
  let ?r = "\<lparr>ar_session = ''s1'', ar_epoch = 1, ar_input_digest = ''d1'', ar_status = ''pending'', ar_reserve = 4096\<rparr>"
  have r: "fmlookup (st_attempts demo_begun) ''resp_1'' = Some ?r" by (simp add: demo_begun_def)
  have "b = ''resp_1''"
    if "fmlookup (st_attempts demo_begun) b = Some t" "ar_session t = ''s1''" "ar_epoch t = 1" "ar_input_digest t = ''d1''" for b t
    by (rule once [OF that(1) r]) (simp_all add: that)
  then have "{b. \<exists>t. fmlookup (st_attempts demo_begun) b = Some t \<and> ar_session t = ''s1'' \<and> ar_epoch t = 1 \<and>
      ar_input_digest t = ''d1''} \<subseteq> {''resp_1''}" by blast
  moreover have "\<exists>t. fmlookup (st_attempts demo_begun) ''resp_1'' = Some t \<and> ar_session t = ''s1'' \<and> ar_epoch t = 1 \<and>
      ar_input_digest t = ''d1''" using r by simp
  ultimately show ?thesis unfolding demo_run by blast
qed

text \<open>While an attempt is in flight the session is locked: starting another attempt, and every
  host transition with a well formed decision, are rejected with their conflict errors whatever
  revision they name, and finalizing any other attempt of the session fails.\<close>

theorem in_flight_locks_session:
  assumes "store_ok st" and "shows_session st sid v" and "sv_phase v = InFlight k a"
  shows "store_begin st uuid sid n parent d res = Err ''session conflict or reconciliation required'' \<and>
    (label decision = Ok () \<longrightarrow> store_transition st uuid sid n kind portable decision = Err ''transition conflict'') \<and>
    (b \<noteq> a \<longrightarrow> store_finalize st sid b digest e t = Err database_operation)"
proof -
  from assms(2) obtain s where s: "fmlookup (st_sessions st) sid = Some s"
    and shown: "session_shown (attempts_of st sid) s v" by (auto simp: shows_session_def split: option.splits)
  from shown_phase(2) [OF shown] assms(3) have status: "se_status s = (if k then ''compacting_pending'' else ''pending'')"
    and flight: "in_flight (attempts_of st sid) = {a}" by simp_all
  have "ar_session r \<noteq> sid \<or> ar_status r \<noteq> ''pending''" if "fmlookup (st_attempts st) b = Some r" "b \<noteq> a" for r
  proof (rule ccontr)
    assume "\<not> ?thesis"
    with that have "b \<in> in_flight (attempts_of st sid)" by (simp add: in_flight_def attempts_of_Some)
    with flight that show False by simp
  qed
  then show ?thesis
    using s status by (auto simp: store_begin_def store_transition_def store_finalize_def load_def split: option.splits)
qed

theorem in_flight_locks_session_witness:
  "store_begin demo_begun ''9'' ''s1'' 2 None ''d9'' 4096 = Err ''session conflict or reconciliation required'' \<and>
   store_transition demo_begun ''t'' ''s1'' 2 ''recover'' (Some ''p'') ''host'' = Err ''transition conflict'' \<and>
   store_finalize demo_begun ''s1'' ''resp_9'' ''digest'' ''e'' False = Err database_operation"
proof -
  have "label ''host'' = Ok ()" by code_simp
  moreover have "sv_phase demo_view = InFlight False ''resp_1''" by (simp add: demo_view_def)
  note in_flight_locks_session [OF demo_begun_ok demo_begun_shows this]
  ultimately show ?thesis by (intro conjI; simp)
qed

definition recovered :: "session \<Rightarrow> session \<Rightarrow> bool" where
  "recovered s s' \<longleftrightarrow> se_status s' = ''ready'' \<and> se_head s' = None \<and> se_epoch s' = se_epoch s + 1"

lemma recover_succeeds:
  assumes ok: "store_ok st" and s: "fmlookup (st_sessions st) sid = Some s"
    and idle: "se_status s \<notin> {''pending'', ''compacting_pending''}"
    and u: "u |\<notin>| fmdom (st_transitions st)" and label: "label decision = Ok ()"
  shows "\<exists>s' st'. store_transition st u sid (se_revision s) ''recover'' (Some digest) decision = Ok (s', st') \<and>
    fmlookup (st_sessions st') sid = Some s' \<and> recovered s s' \<and> se_portable_sha256 s' = Some digest"
proof -
  let ?s' = "s\<lparr>se_epoch := se_epoch s + 1, se_head := None, se_pending_tools := False,
    se_portable_sha256 := Some digest, se_status := ''ready'', se_revision := se_revision s + 1\<rparr>"
  let ?row = "\<lparr>tr_session = sid, tr_revision = se_revision s + 1, tr_kind = ''recover'', tr_decision = decision\<rparr>"
  have sid: "se_id s = sid" using ok s by (auto simp: store_ok_def dest: sessions_okD)
  have "store_transition st u sid (se_revision s) ''recover'' (Some digest) decision =
      Ok (?s', save st ?s' \<lparr>st_transitions := fmupd u ?row (st_transitions st)\<rparr>)"
    using u idle label by (simp add: store_transition_def load_def s transition_session_def next_epoch_def save_def Let_def)
  moreover have "fmlookup (st_sessions (save st ?s')) sid = Some ?s'" using s by (simp add: save_def sid fmdomI)
  ultimately show ?thesis by (simp add: recovered_def)
qed

lemma idle_status:
  assumes "store_ok st" and "fmlookup (st_sessions st) sid = Some s" and "in_flight (attempts_of st sid) = {}"
  shows "se_status s \<notin> {''pending'', ''compacting_pending''}"
proof -
  from sessions_okD [OF _ assms(2)] assms(1) obtain v where "session_shown (attempts_of st sid) s v"
    by (auto simp: store_ok_def session_ok_def)
  with assms(3) show ?thesis by (cases "sv_phase v") (auto simp: session_shown_def split: if_splits)
qed

lemma uncertain_frees:
  assumes ok: "store_ok st" and s: "fmlookup (st_sessions st) sid = Some s"
    and a: "a \<in> in_flight (attempts_of st sid)"
  shows "\<exists>st1. store_uncertain st sid a = Ok st1 \<and> store_ok st1 \<and>
    fmlookup (st_sessions st1) sid = Some (mark_unknown s)"
proof -
  have sid: "se_id s = sid" using ok s by (auto simp: store_ok_def dest: sessions_okD)
  from a obtain r where r: "attempts_of st sid a = Some r" "ar_status r = ''pending''" by (auto simp: in_flight_def)
  then obtain st1 where run: "store_uncertain st sid a = Ok st1"
    and "fmlookup (st_sessions st1) sid = Some (mark_unknown s)"
    using s by (simp add: attempts_of_Some store_uncertain_def load_def set_attempt_def save_def mark_unknown_def sid fmdomI)
  moreover from run call_follows [OF ok, of "Uncertain sid a"] have "store_ok st1" by (simp add: follows_def)
  ultimately show ?thesis by blast
qed

lemma open_frees:
  assumes ok: "store_ok st" and s: "fmlookup (st_sessions st) sid = Some s"
    and limit: "1024 * 1024 \<le> limit" "unat limit < 2 ^ 63"
  shows "\<exists>st1. store_open st limit = Ok st1 \<and> store_ok st1 \<and>
    fmlookup (st_sessions st1) sid = Some (if in_flight (attempts_of st sid) \<noteq> {} then mark_unknown s else s)"
proof -
  from store_open_Ok [OF ok limit] obtain st1 where run: "store_open st limit = Ok st1"
    and sessions: "\<forall>i. fmlookup (st_sessions st1) i = (if in_flight (attempts_of st i) \<noteq> {}
       then map_option mark_unknown (fmlookup (st_sessions st) i) else fmlookup (st_sessions st) i)" by blast
  moreover from open_follows [OF ok run] have "store_ok st1" by (simp add: follows_def)
  ultimately show ?thesis using s by (intro exI [of _ st1]) simp
qed

end
