(* ===== verification/Continuation_Runtime.thy ===== *)
theory Continuation_Runtime
  imports Continuation_Store
begin

text \<open>
  The continuation runtime of \<open>src/src/continuation/mod.rs\<close> (\<open>Runtime::restore_record\<close>, \<open>restore\<close>,
  \<open>finalize_checked\<close>, \<open>Configuration::validate\<close> and \<open>start\<close>) and the host control routes of
  \<open>src/src/continuation/control.rs\<close>. \<open>Runtime::access\<close> runs one closure at a time on the store, so each
  of these is a function from the store to its result and the new store. The environment, the HMAC and
  the store found on disk are arguments.
\<close>

section \<open>Restoring\<close>

definition session_current :: "session \<Rightarrow> session \<Rightarrow> bool" where
  "session_current current s \<longleftrightarrow>
     se_id current = se_id s \<and> se_epoch current = se_epoch s \<and> se_origin current = se_origin s \<and>
     se_revision current = se_revision s \<and> se_head current = se_head s \<and> se_status current = se_status s \<and>
     se_pending_tools current = se_pending_tools s \<and> se_portable_sha256 current = se_portable_sha256 s"

definition check_current :: "store \<Rightarrow> session \<Rightarrow> replay_record \<Rightarrow> cont_error + unit" where
  "check_current st s original =
     (case original of
        ReplayV3 _ \<Rightarrow>
          and_then (store_session st (se_id s)) (\<lambda>current.
            if session_current current s then Ok () else Err ''stale provider session'')
      | _ \<Rightarrow> Ok ())"

definition restore_record ::
  "crypto \<Rightarrow> protector \<Rightarrow> store \<Rightarrow> session \<Rightarrow> string \<Rightarrow> cont_error + replay_record \<times> store" where
  "restore_record c p st s envelope =
     and_then (open_record c p envelope) (\<lambda>original.
     let hash = record_digest c original in
     and_then (check_current st s original) (\<lambda>_.
     let replay = replay_metadata_of original in
     if rm_session replay \<noteq> se_id s \<or> rm_epoch replay \<noteq> se_epoch s \<or> rm_origin replay \<noteq> se_origin s
     then Err ''origin mismatch''
     else
       and_then (store_record st (rm_response replay)) (\<lambda>saved.
         if sr_session saved \<noteq> se_id s \<or> sr_epoch saved \<noteq> se_epoch s \<or> sr_digest saved \<noteq> hash
         then Err ''record mismatch''
         else
           case sr_envelope saved of
             Some env \<Rightarrow>
               and_then (open_record c p env) (\<lambda>authoritative.
                 if record_digest c authoritative \<noteq> hash then Err ''stored payload mismatch''
                 else Ok (authoritative, st))
           | None \<Rightarrow>
               and_then (store_repair st (sr_id saved) hash envelope) (\<lambda>st'. Ok (original, st')))))"

definition restore :: "crypto \<Rightarrow> protector \<Rightarrow> store \<Rightarrow> session \<Rightarrow> string \<Rightarrow> cont_error + replay_v1 \<times> store" where
  "restore c p st s envelope =
     and_then (restore_record c p st s envelope) (\<lambda>(r, st').
       case r of ReplayV1 v \<Rightarrow> Ok (v, st') | _ \<Rightarrow> Err ''legacy replay required'')"

section \<open>Finalizing\<close>

text \<open>A provider record is accepted only as the continuation of the session's head, with the binding
  and state format of the record it continues.\<close>

definition check_parent :: "crypto \<Rightarrow> protector \<Rightarrow> store \<Rightarrow> session \<Rightarrow> replay_v3 \<Rightarrow> string \<Rightarrow> cont_error + unit" where
  "check_parent c p st s provider parent =
     and_then (store_record st parent) (\<lambda>saved.
       if sr_session saved \<noteq> se_id s \<or> sr_epoch saved \<noteq> se_epoch s then Err ''provider parent origin''
       else
         and_then (ok_or (sr_envelope saved) ''provider parent payload missing'') (\<lambda>env.
         and_then (open_record c p env) (\<lambda>previous.
           if record_digest c previous \<noteq> sr_digest saved then Err ''provider parent digest''
           else
             case previous of
               ReplayV3 q \<Rightarrow>
                 if rp_response q \<noteq> parent \<or> rp_origin q \<noteq> rp_origin provider \<or>
                    pw_binding (snd (rp_state q)) \<noteq> pw_binding (snd (rp_state provider)) \<or>
                    pw_format (snd (rp_state q)) \<noteq> pw_format (snd (rp_state provider)) \<or>
                    pw_version (snd (rp_state q)) \<noteq> pw_version (snd (rp_state provider))
                 then Err ''provider state binding''
                 else Ok ()
             | _ \<Rightarrow> Err ''provider parent version'')))"

definition check_provider :: "crypto \<Rightarrow> protector \<Rightarrow> store \<Rightarrow> replay_record \<Rightarrow> cont_error + unit" where
  "check_provider c p st r =
     (case r of
        ReplayV3 provider \<Rightarrow>
          and_then (replay_v3_validate c provider) (\<lambda>_.
          and_then (store_session st (rp_session provider)) (\<lambda>s.
            if se_epoch s \<noteq> rp_epoch provider \<or> se_origin s \<noteq> rp_origin provider \<or> se_head s \<noteq> rp_parent provider \<or>
               se_status s \<notin> {''pending'', ''compacting_pending''}
            then Err ''provider checkpoint origin''
            else
              case rp_parent provider of
                Some parent \<Rightarrow> check_parent c p st s provider parent
              | None \<Rightarrow> Ok ()))
      | _ \<Rightarrow> Ok ())"

definition finalize_checked ::
  "crypto \<Rightarrow> protector \<Rightarrow> store \<Rightarrow> string \<Rightarrow> replay_record \<Rightarrow> (string \<Rightarrow> cont_error + unit) \<Rightarrow> cont_error + string \<times> store" where
  "finalize_checked c p st nonce r check =
     and_then (check_provider c p st r) (\<lambda>_.
     and_then (seal_record c p nonce r) (\<lambda>envelope.
     and_then (check envelope) (\<lambda>_.
       let replay = replay_metadata_of r in
       and_then (store_finalize st (rm_session replay) (rm_response replay) (record_digest c r) envelope
           (rm_outcome replay = AwaitingTools)) (\<lambda>st'.
         Ok (envelope, st')))))"

definition runtime_finalize :: "crypto \<Rightarrow> protector \<Rightarrow> store \<Rightarrow> string \<Rightarrow> replay_record \<Rightarrow> cont_error + string \<times> store" where
  "runtime_finalize c p st nonce r = finalize_checked c p st nonce r (\<lambda>_. Ok ())"

section \<open>Configuration\<close>

record configuration =
  cf_directory :: string
  cf_store_id :: string
  cf_realm :: string
  cf_generation :: string
  cf_key_id :: string
  cf_key_env :: string
  cf_control_token_env :: string
  cf_max_store_bytes :: u64

definition configuration_validate :: "configuration \<Rightarrow> cont_error + unit" where
  "configuration_validate cf =
     (let fail = Err ''Invalid continuation configuration'' in
      if \<not> list_all (\<lambda>v. is_ok (label v))
           [cf_store_id cf, cf_realm cf, cf_generation cf, cf_key_id cf, cf_key_env cf, cf_control_token_env cf]
      then fail
      else if \<not> starts_with ''/'' (cf_directory cf) \<or> cf_max_store_bytes cf < 16 * 1024 * 1024 \<or>
        2 ^ 63 - 1 < unat (cf_max_store_bytes cf) \<or> cf_key_env cf = cf_control_token_env cf
      then fail
      else Ok ())"

record secrets =
  sc_local_token :: string
  sc_upstream_keys :: "(string, string) fmap"

definition is_ascii_graphic :: "char \<Rightarrow> bool" where
  "is_ascii_graphic b \<longleftrightarrow> 33 \<le> byte b \<and> byte b \<le> 126"

definition any_upstream :: "secrets \<Rightarrow> (string \<Rightarrow> bool) \<Rightarrow> bool" where
  "any_upstream sc P \<longleftrightarrow> list_ex (\<lambda>(_, v). P v) (sorted_list_of_fmap (sc_upstream_keys sc))"

text \<open>\<open>Configuration::start\<close>: \<open>env\<close> reads an environment variable, \<open>disk\<close> holds the tables found in the
  configured directory, \<open>hmac\<close> is HMAC-SHA256. Every failure is the same error; what a
  failed start leaves on disk is not part of the result.\<close>

definition configuration_start ::
  "(string \<Rightarrow> string option) \<Rightarrow> (string \<Rightarrow> string \<Rightarrow> string) \<Rightarrow> store \<Rightarrow> configuration \<Rightarrow> secrets \<Rightarrow>
   cont_error + (protector \<times> store) \<times> string" where
  "configuration_start env hmac disk cf sc =
     map_err (\<lambda>_. ''Cannot initialize verified continuation runtime'')
       (and_then (ok_or (env (cf_key_env cf)) []) (\<lambda>key.
        and_then (ok_or (env (cf_control_token_env cf)) []) (\<lambda>control.
        and_then (ensure (32 \<le> length control \<and> length control \<le> 4096 \<and> list_all is_ascii_graphic control \<and>
            key \<noteq> control \<and> control \<noteq> sc_local_token sc \<and> key \<noteq> sc_local_token sc \<and>
            \<not> any_upstream sc (\<lambda>v. v = control \<or> v = key)) []) (\<lambda>_.
        and_then (ok_or (unhex key) []) (\<lambda>bytes.
        and_then (protector_new (cf_key_id cf) bytes) (\<lambda>p.
        and_then (store_open disk (cf_max_store_bytes cf)) (\<lambda>st.
        and_then (ensure (st_identity st = cf_store_id cf) []) (\<lambda>_.
        and_then (bind_protection st
            (hex (hmac bytes (''gateway-store-protection/v1:'' @ cf_store_id cf @ '':'' @ cf_key_id cf)))) (\<lambda>st'.
          Ok ((p, st'), control))))))))))"

section \<open>Host control routes\<close>

datatype control_response = Unauthorized | Rejected | SessionBody session

record transition_body =
  tb_revision :: i64
  tb_kind :: string
  tb_portable_sha256 :: "string option"
  tb_decision_reference :: string
  tb_pending_tools :: bool
  tb_pending_approvals :: bool

text \<open>\<open>HeaderValue::to_str\<close>: visible ASCII, space and tab.\<close>

definition header_text :: "string \<Rightarrow> string option" where
  "header_text v = (if list_all (\<lambda>b. 32 \<le> byte b \<and> byte b \<le> 126 \<or> byte b = 9) v then Some v else None)"

definition authenticate :: "string \<Rightarrow> string list \<Rightarrow> bool" where
  "authenticate token values =
     (case values of
        [v] \<Rightarrow>
          (case header_text v of
             Some t \<Rightarrow> (case strip_prefix ''Bearer '' t of Some w \<Rightarrow> w = token | None \<Rightarrow> False)
           | None \<Rightarrow> False)
      | _ \<Rightarrow> False)"

datatype control_request =
    CreateSession string origin
  | SessionStatus string
  | TransitionSession string string transition_body

definition control_create :: "store \<Rightarrow> string \<Rightarrow> origin \<Rightarrow> control_response \<times> store" where
  "control_create st uuid o1 =
     (case store_create st uuid o1 of Inl _ \<Rightarrow> (Rejected, st) | Inr (s, st') \<Rightarrow> (SessionBody s, st'))"

definition control_status :: "store \<Rightarrow> string \<Rightarrow> control_response" where
  "control_status st sid = (case store_session st sid of Inl _ \<Rightarrow> Rejected | Inr s \<Rightarrow> SessionBody s)"

definition control_transition :: "store \<Rightarrow> string \<Rightarrow> string \<Rightarrow> transition_body \<Rightarrow> control_response \<times> store" where
  "control_transition st uuid sid body =
     (if tb_pending_tools body \<or> tb_pending_approvals body \<or>
         (case tb_portable_sha256 body of Some v \<Rightarrow> length v \<noteq> 64 \<or> \<not> list_all is_lower_hex v | None \<Rightarrow> False)
      then (Rejected, st)
      else
        case store_transition st uuid sid (tb_revision body) (tb_kind body) (tb_portable_sha256 body)
            (tb_decision_reference body) of
          Inl _ \<Rightarrow> (Rejected, st)
        | Inr (s, st') \<Rightarrow> (SessionBody s, st'))"

definition control_route :: "string \<Rightarrow> store \<Rightarrow> string list \<Rightarrow> control_request \<Rightarrow> control_response \<times> store" where
  "control_route token st authorization req =
     (if \<not> authenticate token authorization then (Unauthorized, st)
      else
        case req of
          CreateSession uuid o1 \<Rightarrow> control_create st uuid o1
        | SessionStatus sid \<Rightarrow> (control_status st sid, st)
        | TransitionSession uuid sid body \<Rightarrow> control_transition st uuid sid body)"
section \<open>What is restored belongs to the session\<close>

lemma open_record_valid: "open_record c p env = Ok r \<Longrightarrow> replay_validate c r = Ok ()"
  by (auto simp: open_record_def open_plain_def Let_def split: option.splits if_splits)

lemma repair_matches:
  assumes "store_repair st a d e = Ok st'"
  shows "\<exists>x. store_record st a = Ok x \<and> sr_digest x = d \<and> store_record st' a = Ok (x\<lparr>sr_envelope := Some e\<rparr>)"
  using assms by (auto simp: store_repair_def store_record_Ok split: option.splits if_splits)

text \<open>C9. Restored state is bound to its session. Whatever envelope a client presents, when a restore
  succeeds the record presented names the session, epoch and origin it is restored for, and the
  store holds a finalized record of that session and epoch with the digest of the presented one,
  whose payload is present afterwards. The record returned is valid and has that same digest: it is
  the presented record itself, with its session, epoch and origin, unless another record has the
  same digest. A provider record is restored only for the session as it currently is.\<close>

theorem restored_record_is_bound:
  assumes "restore_record c p st s env = Ok (r, st')"
  shows "\<exists>original saved. open_record c p env = Ok original \<and> record_digest c r = record_digest c original \<and>
      replay_validate c r = Ok () \<and>
      ((\<forall>x. record_digest c x = record_digest c original \<longrightarrow> x = original) \<longrightarrow> r = original) \<and>
      rm_session (replay_metadata_of original) = se_id s \<and> rm_epoch (replay_metadata_of original) = se_epoch s \<and>
      rm_origin (replay_metadata_of original) = se_origin s \<and>
      store_record st' (rm_response (replay_metadata_of original)) = Ok saved \<and>
      sr_session saved = se_id s \<and> sr_epoch saved = se_epoch s \<and> sr_digest saved = record_digest c original \<and>
      sr_envelope saved \<noteq> None \<and>
      ((\<exists>v. original = ReplayV3 v) \<longrightarrow> (\<exists>current. fmlookup (st_sessions st) (se_id s) = Some current \<and> session_current current s))"
proof -
  from assms obtain original saved where original: "open_record c p env = Ok original"
    and current: "check_current st s original = Ok ()"
    and meta: "rm_session (replay_metadata_of original) = se_id s" "rm_epoch (replay_metadata_of original) = se_epoch s"
      "rm_origin (replay_metadata_of original) = se_origin s"
    and saved: "store_record st (rm_response (replay_metadata_of original)) = Ok saved"
      "sr_session saved = se_id s" "sr_epoch saved = se_epoch s" "sr_digest saved = record_digest c original"
    and rest: "(case sr_envelope saved of
             Some e \<Rightarrow> and_then (open_record c p e) (\<lambda>authoritative.
                 if record_digest c authoritative \<noteq> record_digest c original then Err ''stored payload mismatch''
                 else Ok (authoritative, st))
           | None \<Rightarrow> and_then (store_repair st (sr_id saved) (record_digest c original) env) (\<lambda>st'. Ok (original, st'))) = Ok (r, st')"
    by (auto simp: restore_record_def Let_def split: if_splits)
  have v3: "\<exists>current. fmlookup (st_sessions st) (se_id s) = Some current \<and> session_current current s"
    if "original = ReplayV3 v" for v
    using current that by (auto simp: check_current_def store_session_def split: if_splits)
  show ?thesis
  proof (cases "sr_envelope saved")
    case (Some e)
    with rest have "open_record c p e = Ok r" "record_digest c r = record_digest c original" "st' = st"
      by (auto split: if_splits)
    with Some original meta saved v3 open_record_valid show ?thesis
      by (intro exI [of _ original] exI [of _ saved]) auto
  next
    case None
    with rest have r: "r = original" and repaired: "store_repair st (sr_id saved) (record_digest c original) env = Ok st'"
      by auto
    have "sr_id saved = rm_response (replay_metadata_of original)" using saved(1) by (auto simp: store_record_Ok)
    with repair_matches [OF repaired] saved(1)
    have "store_record st' (rm_response (replay_metadata_of original)) = Ok (saved\<lparr>sr_envelope := Some env\<rparr>)" by auto
    with r original meta saved v3 open_record_valid show ?thesis
      by (intro exI [of _ original] exI [of _ "saved\<lparr>sr_envelope := Some env\<rparr>"]) auto
  qed
qed

section \<open>What was finalized can be restored\<close>

lemma metadata_session_label: "replay_validate c r = Ok () \<Longrightarrow> label (rm_session (replay_metadata_of r)) = Ok ()"
  by (cases r) (auto simp: metadata_of_def replay_v1_validate_def replay_v2_validate_def replay_v3_validate_def
      names_validate_def split: if_splits)

lemma session_current_refl: "session_current s s"
  by (simp add: session_current_def)

text \<open>C10. A finalized checkpoint can be restored for as long as its epoch lasts. When a record of a
  session's current epoch and origin is finalized, then after any later operations of the store the
  envelope handed to the client restores exactly that record, and the store is not changed, for the
  session in the same epoch (for provider records: the session as it is stored then). The hypotheses
  on encryption and JSON are those of the sealed envelope.\<close>

theorem finalized_checkpoint_restores:
  assumes p: "protector_new key_id key = Ok p" and nonce: "length nonce = 12"
    and run: "finalize_checked c p st nonce r check = Ok (env, st1)"
    and s: "fmlookup (st_sessions st) (rm_session (replay_metadata_of r)) = Some s"
    and fits: "rm_epoch (replay_metadata_of r) = se_epoch s" "rm_origin (replay_metadata_of r) = se_origin s"
    and s2: "se_id s2 = rm_session (replay_metadata_of r)" "se_epoch s2 = se_epoch s" "se_origin s2 = se_origin s"
    and v3: "fmlookup (st_sessions (snd (run_machine store_step st1 calls))) (rm_session (replay_metadata_of r)) = Some s2"
    and opens: "\<And>k n a x. cr_open c k n a (cr_seal c k n a x) = Some x"
    and tag: "\<And>k n a x. length (cr_seal c k n a x) = length x + 16"
    and parses: "parse_record c (record_prefix r) (cr_text c r) = Some r"
  shows "restore_record c p (snd (run_machine store_step st1 calls)) s2 env = Ok (r, snd (run_machine store_step st1 calls))"
proof -
  let ?st = "snd (run_machine store_step st1 calls)"
  from run have sealed: "seal_record c p nonce r = Ok env"
    and fin: "store_finalize st (rm_session (replay_metadata_of r)) (rm_response (replay_metadata_of r))
      (record_digest c r) env (rm_outcome (replay_metadata_of r) = AwaitingTools) = Ok st1"
    by (auto simp: finalize_checked_def Let_def)
  have opened: "open_record c p env = Ok r" by (rule open_sealed [OF p sealed nonce opens tag parses])
  have "label (se_id s2) = Ok ()" using metadata_session_label [OF open_record_valid [OF opened]] s2 by simp
  with v3 s2 have "check_current ?st s2 r = Ok ()"
    by (cases r) (simp_all add: check_current_def store_session_def load_def session_current_refl)
  moreover have "store_record st1 (rm_response (replay_metadata_of r)) =
      Ok \<lparr>sr_id = rm_response (replay_metadata_of r), sr_session = rm_session (replay_metadata_of r), sr_epoch = se_epoch s,
          sr_digest = record_digest c r, sr_envelope = Some env\<rparr>"
    using finalize_stored [OF fin s] .
  note record_settled_run [OF this, of calls]
  ultimately show ?thesis using opened fits s2 by (simp add: restore_record_def Let_def)
qed
lemma demo_opens:
  "cr_open demo_crypto k n a (cr_seal demo_crypto k n a x) = Some x"
  "length (cr_seal demo_crypto k n a x) = length x + 16"
  "parse_record demo_crypto (record_prefix (ReplayV2 demo_record)) (cr_text demo_crypto (ReplayV2 demo_record)) =
     Some (ReplayV2 demo_record)"
  by (simp_all add: demo_crypto_def parse_record_def ENVELOPE_PREFIX_def ENVELOPE_V2_def)

lemma demo_protector_made: "protector_new ''key1'' (replicate 32 CHR ''k'') = Ok demo_protector"
  by code_simp

lemma demo_metadata_of:
  "replay_metadata_of (ReplayV2 demo_record) =
     \<lparr>rm_session = ''s1'', rm_epoch = 1, rm_origin = demo_origin, rm_response = ''resp_1'', rm_outcome = AwaitingTools\<rparr>"
  by (simp add: demo_record_def record_of_def metadata_of_def demo_metadata_def)

definition demo_finalized :: store where
  "demo_finalized = \<lparr>st_limit = 2 ^ 24, st_identity = ''store'', st_protection = None,
     st_sessions = fmap_of_list [(''s1'', \<lparr>se_id = ''s1'', se_epoch = 1, se_revision = 3, se_origin = demo_origin,
       se_status = ''ready'', se_head = Some ''resp_1'', se_pending_tools = True, se_portable_sha256 = None\<rparr>)],
     st_attempts = fmap_of_list [(''resp_1'', \<lparr>ar_session = ''s1'', ar_epoch = 1, ar_input_digest = ''d1'',
       ar_status = ''finalized'', ar_reserve = 4096\<rparr>)],
     st_records = fmap_of_list [(''resp_1'', \<lparr>rr_digest = hex ''record'', rr_envelope = Some demo_envelope\<rparr>)],
     st_transitions = fmempty\<rparr>"

lemma length_demo_envelope: "length demo_envelope = 94"
  by (simp add: demo_envelope_def length_hex)

lemma demo_finalizes:
  "finalize_checked demo_crypto demo_protector demo_begun (replicate 12 CHR ''n'') (ReplayV2 demo_record) (\<lambda>_. Ok ()) =
     Ok (demo_envelope, demo_finalized)"
proof -
  have "record_digest demo_crypto (ReplayV2 demo_record) = hex ''record''" by (simp add: record_digest_def demo_crypto_def)
  then show ?thesis
    by (simp add: finalize_checked_def check_provider_def demo_record_sealed Let_def demo_metadata_of store_finalize_def
        load_def demo_begun_def demo_finalized_def length_demo_envelope save_def set_attempt_def
        del: replay_metadata_of.simps)
qed

definition demo_session :: session where
  "demo_session = \<lparr>se_id = ''s1'', se_epoch = 1, se_revision = 3, se_origin = demo_origin,
       se_status = ''ready'', se_head = Some ''resp_1'', se_pending_tools = True, se_portable_sha256 = None\<rparr>"

theorem finalized_checkpoint_restores_witness:
  "restore_record demo_crypto demo_protector demo_finalized demo_session demo_envelope = Ok (ReplayV2 demo_record, demo_finalized)"
  using finalized_checkpoint_restores [OF demo_protector_made _ demo_finalizes _ _ _ _ _ _ _ demo_opens,
      of _ demo_session "[]"]
  by (simp add: demo_metadata_of demo_begun_def demo_finalized_def demo_session_def del: replay_metadata_of.simps)

lemma demo_restores:
  "restore_record demo_crypto demo_protector demo_finalized demo_session demo_envelope = Ok (ReplayV2 demo_record, demo_finalized)"
proof -
  have "open_record demo_crypto demo_protector demo_envelope = Ok (ReplayV2 demo_record)"
    by (rule open_sealed [OF demo_protector_made demo_record_sealed _ demo_opens]) simp
  moreover have "record_digest demo_crypto (ReplayV2 demo_record) = hex ''record''" by (simp add: record_digest_def demo_crypto_def)
  ultimately show ?thesis
    by (simp add: restore_record_def Let_def check_current_def demo_metadata_of demo_session_def store_record_def
        demo_finalized_def del: replay_metadata_of.simps)
qed

theorem restored_record_is_bound_witness:
  "\<exists>original saved. open_record demo_crypto demo_protector demo_envelope = Ok original \<and>
     rm_session (replay_metadata_of original) = ''s1'' \<and>
     store_record demo_finalized (rm_response (replay_metadata_of original)) = Ok saved \<and> sr_envelope saved \<noteq> None"
  using restored_record_is_bound [OF demo_restores] unfolding demo_session_def by auto

section \<open>Starting the runtime\<close>

lemma forgotten_status: "ar_status (forget_pending r) \<noteq> ''pending''"
  by (simp add: forget_pending_def)

text \<open>C23. The runtime starts only with separated secrets and its own store. When it starts, the
  protection key and the control token differ from each other, from the local token and from every
  upstream key; the protector has a 32 byte key; the store is the configured one, is bound to the
  fingerprint of this key, and has no attempt in flight, whatever a crash left on disk.\<close>

theorem started_runtime_is_separated:
  assumes "configuration_start env hmac disk cf sc = Ok ((p, st), control)"
  shows "\<exists>key bytes. env (cf_key_env cf) = Some key \<and> env (cf_control_token_env cf) = Some control \<and>
    unhex key = Some bytes \<and> pr_key p = bytes \<and> length bytes = 32 \<and> pr_id p = cf_key_id cf \<and>
    distinct [key, control, sc_local_token sc] \<and>
    (\<forall>name v. fmlookup (sc_upstream_keys sc) name = Some v \<longrightarrow> v \<notin> {key, control}) \<and>
    st_identity st = cf_store_id cf \<and>
    st_protection st =
      Some (hex (hmac bytes (''gateway-store-protection/v1:'' @ cf_store_id cf @ '':'' @ cf_key_id cf))) \<and>
    (\<forall>a r. fmlookup (st_attempts st) a = Some r \<longrightarrow> ar_status r \<noteq> ''pending'')"
proof -
  from assms obtain key bytes st1 where key: "env (cf_key_env cf) = Some key" and control: "env (cf_control_token_env cf) = Some control"
    and apart: "key \<noteq> control" "control \<noteq> sc_local_token sc" "key \<noteq> sc_local_token sc"
      "\<not> any_upstream sc (\<lambda>v. v = control \<or> v = key)"
    and bytes: "unhex key = Some bytes" and p: "protector_new (cf_key_id cf) bytes = Ok p"
    and st1: "store_open disk (cf_max_store_bytes cf) = Ok st1" "st_identity st1 = cf_store_id cf"
    and bound: "bind_protection st1 (hex (hmac bytes (''gateway-store-protection/v1:'' @ cf_store_id cf @ '':'' @ cf_key_id cf))) = Ok st"
    by (auto simp: configuration_start_def)
  have "pr_key p = bytes" "length bytes = 32" "pr_id p = cf_key_id cf"
    using p by (auto simp: protector_new_def split: if_splits)
  moreover have "\<forall>name v. fmlookup (sc_upstream_keys sc) name = Some v \<longrightarrow> v \<notin> {key, control}"
    using apart(4) sorted_list_of_fmap_member [of _ _ "sc_upstream_keys sc"] by (force simp: any_upstream_def list_ex_iff)
  moreover have "distinct [key, control, sc_local_token sc]" using apart(1-3) by simp
  moreover have "st_protection st = Some (hex (hmac bytes (''gateway-store-protection/v1:'' @ cf_store_id cf @ '':'' @ cf_key_id cf)))"
    and kept: "st_attempts st = st_attempts st1" "st_identity st = st_identity st1"
    using bound by (auto simp: bind_protection_def split: option.splits if_splits)
  moreover have "\<forall>a r. fmlookup (st_attempts st) a = Some r \<longrightarrow> ar_status r \<noteq> ''pending''"
    using kept st1(1) by (auto simp: store_open_def forgotten_status split: if_splits)
  ultimately show ?thesis
    using key control bytes st1(2) by (intro exI [of _ key] exI [of _ bytes] conjI) simp_all
qed

definition demo_configuration :: configuration where
  "demo_configuration = \<lparr>cf_directory = ''/state'', cf_store_id = ''store'', cf_realm = ''realm'', cf_generation = ''g1'',
     cf_key_id = ''key1'', cf_key_env = ''KEY'', cf_control_token_env = ''CONTROL'', cf_max_store_bytes = 2 ^ 24\<rparr>"

definition demo_env :: "string \<Rightarrow> string option" where
  "demo_env name =
     (if name = ''KEY'' then Some (hex (replicate 32 CHR ''k''))
      else if name = ''CONTROL'' then Some (replicate 32 CHR ''c'') else None)"

definition demo_secrets :: secrets where
  "demo_secrets = \<lparr>sc_local_token = ''local'', sc_upstream_keys = fmap_of_list [(''p'', ''upstream'')]\<rparr>"

lemma demo_key_apart: "hex (replicate 32 CHR ''k'') \<noteq> v" if "length v < 64"
  using that length_hex [of "replicate 32 CHR ''k''"] by auto

lemma demo_control_apart: "replicate 32 CHR ''c'' \<noteq> v" if "length v < 32"
  using that by auto

lemma demo_upstream: "\<not> any_upstream demo_secrets (\<lambda>v. v = replicate 32 CHR ''c'' \<or> v = hex (replicate 32 CHR ''k''))"
proof -
  have "v = ''upstream''" if "(n, v) \<in> set (sorted_list_of_fmap (sc_upstream_keys demo_secrets))" for n v
    using that by (simp add: sorted_list_of_fmap_member demo_secrets_def split: if_splits)
  then show ?thesis
    using demo_key_apart [of "''upstream''"] demo_control_apart [of "''upstream''"]
    by (fastforce simp: any_upstream_def list_ex_iff)
qed

lemma demo_starts:
  "\<exists>st. configuration_start demo_env (\<lambda>k m. m) demo_store demo_configuration demo_secrets =
     Ok ((demo_protector, st), replicate 32 CHR ''c'')"
proof -
  have "hex (replicate 32 CHR ''k'') \<noteq> replicate 32 CHR ''c''" "hex (replicate 32 CHR ''k'') \<noteq> ''local''"
    "replicate 32 CHR ''c'' \<noteq> ''local''" "list_all is_ascii_graphic (replicate 32 CHR ''c'')"
    by (rule demo_key_apart demo_control_apart, simp)+ (simp add: list_all_iff is_ascii_graphic_def)
  moreover have "st_identity demo_store = ''store''" "st_protection demo_store = None"
    by (simp_all add: demo_store_def store_initial_def)
  ultimately show ?thesis
    using demo_upstream demo_store_opens
    by (simp add: configuration_start_def demo_env_def demo_configuration_def unhex_hex demo_protector_made
        bind_protection_def demo_secrets_def)
qed

theorem started_runtime_is_separated_witness:
  "\<exists>key bytes. demo_env ''KEY'' = Some key \<and> unhex key = Some bytes \<and> pr_key demo_protector = bytes \<and> length bytes = 32"
proof -
  from demo_starts obtain st where "configuration_start demo_env (\<lambda>k m. m) demo_store demo_configuration demo_secrets =
     Ok ((demo_protector, st), replicate 32 CHR ''c'')" by blast
  from started_runtime_is_separated [OF this] show ?thesis by (auto simp: demo_configuration_def)
qed

section \<open>Host control\<close>

lemma authenticate_iff:
  "authenticate token values \<longleftrightarrow>
     values = [''Bearer '' @ token] \<and> header_text (''Bearer '' @ token) \<noteq> None"
  by (auto simp: authenticate_def header_text_def split: list.splits option.splits if_splits)

text \<open>C24. Only the host changes sessions through the control routes, and not while work is pending. A
  request that changes the store carries exactly one authorization header, the bearer token of the
  host; it is answered with the session as it is stored afterwards; and a transition among them
  declares neither pending tools nor pending approvals, names the stored revision and, if it gives
  one, a lower case SHA-256 of the portable history.\<close>

theorem control_changes_are_authorized:
  assumes ok: "store_ok st" and route: "control_route token st authorization req = (resp, st')" and changed: "st' \<noteq> st"
  shows "authorization = [''Bearer '' @ token] \<and>
    (\<exists>s. resp = SessionBody s \<and> fmlookup (st_sessions st') (se_id s) = Some s) \<and>
    (case req of
       TransitionSession uuid sid body \<Rightarrow>
         \<not> tb_pending_tools body \<and> \<not> tb_pending_approvals body \<and>
         (\<forall>v. tb_portable_sha256 body = Some v \<longrightarrow> length v = 64 \<and> list_all is_lower_hex v) \<and>
         (\<exists>s. fmlookup (st_sessions st) sid = Some s \<and> se_revision s = tb_revision body)
     | _ \<Rightarrow> True)"
proof -
  from route changed have auth: "authenticate token authorization" by (auto simp: control_route_def split: if_splits)
  show ?thesis
  proof (cases req)
    case (CreateSession uuid o1)
    with auth route changed have "\<exists>s. store_create st uuid o1 = Ok (s, st') \<and> resp = SessionBody s"
      by (auto simp: control_route_def control_create_def split: sum.splits prod.splits)
    with auth CreateSession show ?thesis
      by (auto simp: authenticate_iff store_create_def Let_def split: if_splits)
  next
    case (SessionStatus sid)
    with auth route changed show ?thesis by (simp add: control_route_def)
  next
    case (TransitionSession uuid sid body)
    with auth route changed obtain s where guards: "\<not> tb_pending_tools body" "\<not> tb_pending_approvals body"
        "\<forall>v. tb_portable_sha256 body = Some v \<longrightarrow> length v = 64 \<and> list_all is_lower_hex v"
      and resp: "resp = SessionBody s"
      and run: "store_transition st uuid sid (tb_revision body) (tb_kind body) (tb_portable_sha256 body)
        (tb_decision_reference body) = Ok (s, st')"
      by (auto simp: control_route_def control_transition_def split: if_splits sum.splits prod.splits option.splits)
    from run obtain s0 s1 where s0: "fmlookup (st_sessions st) sid = Some s0" "se_revision s0 = tb_revision body"
      and s1: "transition_session s0 (tb_kind body) (tb_portable_sha256 body) = Ok s1"
      and s: "s = s1\<lparr>se_revision := se_revision s1 + 1\<rparr>" and st': "st_sessions st' = st_sessions (save st s)"
      by (auto simp: store_transition_def Let_def split: if_splits)
    have "se_id s0 = sid" using ok s0 by (auto simp: store_ok_def dest: sessions_okD)
    then have "se_id s = sid" using s1 by (auto simp: s transition_session_def next_epoch_def split: if_splits)
    then have "fmlookup (st_sessions st') (se_id s) = Some s" using s0 by (simp add: st' save_def fmdomI)
    with auth guards resp s0 TransitionSession show ?thesis by (auto simp: authenticate_iff)
  qed
qed

lemma demo_create_route:
  "\<exists>s st'. control_route ''token'' demo_store [''Bearer token''] (CreateSession ''s1'' demo_origin) = (SessionBody s, st') \<and> st' \<noteq> demo_store"
proof -
  have "authenticate ''token'' [''Bearer token'']" by code_simp
  moreover have "fmempty \<noteq> fmupd ''s1'' x fmempty" for x :: session
    by (metis fmempty_lookup fmupd_lookup option.distinct(1))
  ultimately show ?thesis
    by (simp add: control_route_def control_create_def store_create_def demo_origin_valid demo_store_def store_initial_def Let_def)
qed

lemma demo_store_ok: "store_ok demo_store"
  using initial_ok [OF demo_store_opens [unfolded demo_store_def]] by (simp add: demo_store_def)

theorem control_changes_are_authorized_witness:
  "\<exists>resp st'. control_route ''token'' demo_store [''Bearer token''] (CreateSession ''s1'' demo_origin) = (resp, st') \<and>
     (\<exists>s. resp = SessionBody s \<and> fmlookup (st_sessions st') (se_id s) = Some s)"
proof -
  from demo_create_route obtain s st' where
    r: "control_route ''token'' demo_store [''Bearer token''] (CreateSession ''s1'' demo_origin) = (SessionBody s, st')"
    and "st' \<noteq> demo_store" by blast
  from control_changes_are_authorized [OF demo_store_ok this] r show ?thesis by auto
qed

section \<open>The way back\<close>






end
