(* ===== verification/Adapter_Tools.thy ===== *)
theory Adapter_Tools
  imports Capability Ir_Event Replay
begin

text \<open>
  What the wire adapters share: \<open>src/src/adapters/json.rs\<close> (provider JSON without duplicate keys,
  field access, bounded text chunks) and \<open>src/src/adapters/toolset.rs\<close> (the tools of one admitted
  request: resolving aliases, counting and restoring calls, the public form of a call). The grammar
  of JSON text is outside the repository: a parser that yields the document as it is written, with
  the members of objects in order and repetitions kept (\<open>raw_json\<close>), is a parameter.
\<close>

section \<open>Provider JSON\<close>

datatype raw_json =
    RNull
  | RBool bool
  | RNumber string
  | RString string
  | RArray "raw_json list"
  | RObject "(string \<times> raw_json) list"

text \<open>The visitor \<open>Unique\<close>: no object of the document repeats a key.\<close>

fun unique_keys :: "raw_json \<Rightarrow> bool" where
  "unique_keys (RObject ms) \<longleftrightarrow> distinct (map fst ms) \<and> (\<forall>m \<in> set ms. unique_keys (snd m))"
| "unique_keys (RArray vs) \<longleftrightarrow> (\<forall>v \<in> set vs. unique_keys v)"
| "unique_keys _ \<longleftrightarrow> True"

text \<open>\<open>Value\<close> keeps the last of several members with one key.\<close>

fun raw_value :: "raw_json \<Rightarrow> json" where
  "raw_value RNull = JNull"
| "raw_value (RBool b) = JBool b"
| "raw_value (RNumber n) = JNumber n"
| "raw_value (RString s) = JString s"
| "raw_value (RArray vs) = JArray (map raw_value vs)"
| "raw_value (RObject ms) = JObject (fmap_of_list (rev (map (\<lambda>m. (fst m, raw_value (snd m))) ms)))"

definition upstream_json :: ir_error where "upstream_json = InvalidField ''upstream_json''"

definition json_decode :: "(string \<Rightarrow> raw_json option) \<Rightarrow> string \<Rightarrow> ir_error + json" where
  "json_decode parse bytes =
     (case parse bytes of
        None \<Rightarrow> Err upstream_json
      | Some raw \<Rightarrow> if unique_keys raw then Ok (raw_value raw) else Err upstream_json)"

definition json_object :: "json \<Rightarrow> ir_error + fields" where
  "json_object v = ok_or (as_object v) upstream_json"

definition json_string :: "json \<Rightarrow> string \<Rightarrow> ir_error + string" where
  "json_string v field = ok_or (str_at v field) (InvalidField field)"

definition known_fields :: "json \<Rightarrow> string list \<Rightarrow> ir_error + unit" where
  "known_fields v fs =
     and_then (json_object v) (\<lambda>m.
       if \<not> fmpred (\<lambda>k _. k \<in> set fs) m then Err UnsupportedExtension else Ok ())"

text \<open>\<open>value[key] = x\<close> on the object values the adapters construct.\<close>

fun set_field :: "json \<Rightarrow> string \<Rightarrow> json \<Rightarrow> json" where
  "set_field (JObject m) k x = JObject (fmupd k x m)"
| "set_field v k x = v"

text \<open>\<open>value.get(field).is_some_and(|v| !v.is_null())\<close>.\<close>

definition present :: "json \<Rightarrow> string \<Rightarrow> bool" where
  "present v k = (case jget v k of Some x \<Rightarrow> \<not> is_null x | None \<Rightarrow> False)"

section \<open>Text chunks\<close>

definition continuation_byte :: "char \<Rightarrow> bool" where
  "continuation_byte b \<longleftrightarrow> 128 \<le> byte b \<and> byte b < 192"

text \<open>\<open>str::is_char_boundary\<close>.\<close>

definition is_char_boundary :: "string \<Rightarrow> nat \<Rightarrow> bool" where
  "is_char_boundary t n \<longleftrightarrow> n = 0 \<or> n = length t \<or> n < length t \<and> \<not> continuation_byte (t ! n)"

text \<open>The inner loop: the last boundary at or below a position.\<close>

fun chunk_end :: "string \<Rightarrow> nat \<Rightarrow> nat" where
  "chunk_end t 0 = 0"
| "chunk_end t (Suc n) = (if is_char_boundary t (Suc n) then Suc n else chunk_end t n)"

text \<open>The iterator \<open>event_text_chunks\<close>; \<open>None\<close> is an iterator that never ends.\<close>

partial_function (option) chunk_loop :: "nat \<Rightarrow> string \<Rightarrow> string list option" where
  "chunk_loop limit t =
     (if t = [] then Some []
      else
        let n = chunk_end t (min (length t) limit)
        in Option.bind (chunk_loop limit (drop n t)) (\<lambda>rest. Some (take n t # rest)))"

declare chunk_loop.simps [code]

text \<open>The type of strings here has byte lists that are no UTF-8 and that no Rust string holds; for
  them only, the loop may not end, and the text is taken in one piece.\<close>

definition event_text_chunks :: "string \<Rightarrow> string list" where
  "event_text_chunks t =
     (case chunk_loop (max_delta_bytes default_limits) t of Some cs \<Rightarrow> cs | None \<Rightarrow> [t])"

section \<open>Tools of one request\<close>

record prepared_tools =
  pt_registry :: custom_tool_bridge
  pt_parallel :: "bool option"
  pt_choice :: "tool_choice option"

definition prepared_tools_new :: "custom_tool_bridge \<Rightarrow> request_ir \<Rightarrow> prepared_tools" where
  "prepared_tools_new registry r =
     \<lparr>pt_registry = registry, pt_parallel = go_parallel_tool_calls (req_generation r),
      pt_choice = go_tool_choice (req_generation r)\<rparr>"

definition choice_excludes :: "tool_choice option \<Rightarrow> tool_identity \<Rightarrow> bool" where
  "choice_excludes choice original =
     (case choice of
        Some ChoiceNone \<Rightarrow> True
      | Some (ChoiceNamed tool _ _) \<Rightarrow> tool \<noteq> original
      | _ \<Rightarrow> False)"

definition resolve_identity :: "prepared_tools \<Rightarrow> tool_identity \<Rightarrow> ir_error + tool_identity \<times> tool_kind" where
  "resolve_identity p alias =
     and_then (original_of (pt_registry p) alias) (\<lambda>result.
       if choice_excludes (pt_choice p) (fst result) then Err InvalidToolMapping else Ok result)"

definition resolve :: "prepared_tools \<Rightarrow> string \<Rightarrow> ir_error + tool_identity \<times> tool_kind" where
  "resolve p name = and_then (tool_identity_new None name) (resolve_identity p)"

definition choice_demands :: "tool_choice option \<Rightarrow> bool" where
  "choice_demands choice =
     (case choice of Some ChoiceRequired \<Rightarrow> True | Some (ChoiceNamed _ _ _) \<Rightarrow> True | _ \<Rightarrow> False)"

definition validate_count :: "prepared_tools \<Rightarrow> nat \<Rightarrow> bool \<Rightarrow> ir_error + unit" where
  "validate_count p count completed =
     (if pt_parallel p = Some False \<and> count > 1 \<or> completed \<and> count = 0 \<and> choice_demands (pt_choice p)
      then Err InvalidToolMapping else Ok ())"

text \<open>Restoring a call may note a normalization in the registry, so the tools are passed along.\<close>

definition restore_tool ::
  "serde \<Rightarrow> (string \<Rightarrow> string) \<Rightarrow> prepared_tools \<Rightarrow> string \<Rightarrow> call_id \<Rightarrow> item_id \<Rightarrow> string \<Rightarrow>
     ir_error + tool_call \<times> prepared_tools" where
  "restore_tool sj lower p name call item raw =
     and_then (tool_identity_new None name) (\<lambda>tool.
       case restore_call sj lower (pt_registry p)
           \<lparr>tc_status = Some StatusCompleted, tc_item_id = Some item, tc_call_id = call, tc_tool = tool,
            tc_input = Json raw, tc_extensions = responses_extensions\<rparr> of
         (Inl e, _) \<Rightarrow> Err e
       | (Inr restored, registry) \<Rightarrow>
           and_then (resolve (p\<lparr>pt_registry := registry\<rparr>) name) (\<lambda>_. Ok (restored, p\<lparr>pt_registry := registry\<rparr>)))"

definition item_id_text :: "item_id option \<Rightarrow> string" where
  "item_id_text i = (case i of Some x \<Rightarrow> item_id_str x | None \<Rightarrow> [])"

definition tool_output :: "tool_call \<Rightarrow> string \<Rightarrow> json" where
  "tool_output call status =
     obj ([(''id'', JString (item_id_text (tc_item_id call))), (''status'', JString status),
           (''call_id'', JString (call_id_str (tc_call_id call))), (''name'', JString (tool_name (tc_tool call)))] @
       (case namespace (tc_tool call) of Some ns \<Rightarrow> [(''namespace'', JString ns)] | None \<Rightarrow> []) @
       (case tc_input call of
          Json raw \<Rightarrow> [(''type'', JString ''function_call''), (''arguments'', JString raw)]
        | Freeform raw \<Rightarrow> [(''type'', JString ''custom_tool_call''), (''input'', JString raw)]))"

section \<open>What the adapters take from outside\<close>

text \<open>The operations of other crates an adapter uses: \<open>serde_json\<close>, SHA-256, Unicode lower case, the
  ranges of decimal numbers (whether a literal denotes a float between two bounds, \<open>Number::as_f64\<close>),
  and the parser of provider documents.\<close>

record wire_env =
  we_serde :: serde
  we_sha256 :: "string \<Rightarrow> string"
  we_lower :: "string \<Rightarrow> string"
  we_unit_interval :: "string \<Rightarrow> bool" \<comment> \<open>\<open>(0.0..=1.0)\<close>\<close>
  we_to_two :: "string \<Rightarrow> bool" \<comment> \<open>\<open>(0.0..=2.0)\<close>\<close>
  we_top_p_ok :: "string \<Rightarrow> bool" \<comment> \<open>\<open>(0.95..=1.0)\<close>\<close>
  we_parse :: "string \<Rightarrow> raw_json option"

section \<open>Applying events\<close>

text \<open>\<open>validator.apply(event)?\<close>: the adapters give up on the first rejected event.\<close>

definition apply_ok :: "serde \<Rightarrow> event_validator \<Rightarrow> event_ir \<Rightarrow> ir_error + event_validator" where
  "apply_ok sj v event =
     (case apply_event (json_document sj) v event of
        (Inl e, _) \<Rightarrow> Err e
      | (Inr _, v') \<Rightarrow> Ok v')"

definition apply_all :: "serde \<Rightarrow> event_validator \<Rightarrow> event_ir list \<Rightarrow> ir_error + event_validator" where
  "apply_all sj v events = fold_result (apply_ok sj) v events"
section \<open>Chunks end and lose nothing\<close>

text \<open>What UTF-8 guarantees and the loop relies on: a text does not begin inside a character, and of
  four consecutive bytes at least one begins a character.\<close>

definition well_encoded :: "string \<Rightarrow> bool" where
  "well_encoded t \<longleftrightarrow>
     (t \<noteq> [] \<longrightarrow> \<not> continuation_byte (hd t)) \<and>
     (\<forall>i. i + 3 < length t \<longrightarrow> (\<exists>k \<le> 3. \<not> continuation_byte (t ! (i + k))))"

lemma chunk_end_le: "chunk_end t n \<le> n"
  by (induction n) auto

lemma chunk_end_boundary: "is_char_boundary t (chunk_end t n)"
  by (induction n) (auto simp: is_char_boundary_def)

lemma chunk_end_ge: "is_char_boundary t m \<Longrightarrow> m \<le> n \<Longrightarrow> m \<le> chunk_end t n"
  by (induction n) (auto simp: le_Suc_eq)

lemma chunk_end_progress:
  assumes "well_encoded t" and "4 \<le> limit"
  shows "min (length t) (limit - 3) \<le> chunk_end t (min (length t) limit)"
proof (cases "length t \<le> limit")
  case True
  then have "length t \<le> chunk_end t (min (length t) limit)"
    by (intro chunk_end_ge) (simp_all add: is_char_boundary_def)
  then show ?thesis by simp
next
  case False
  then have "limit - 3 + 3 < length t" using assms(2) by simp
  with assms(1) obtain k where k: "k \<le> 3" "\<not> continuation_byte (t ! (limit - 3 + k))"
    unfolding well_encoded_def by blast
  moreover have "limit - 3 + k < length t" using False k(1) assms(2) by linarith
  ultimately have "is_char_boundary t (limit - 3 + k)" by (simp add: is_char_boundary_def)
  then have "limit - 3 + k \<le> chunk_end t (min (length t) limit)"
    using False k assms(2) by (intro chunk_end_ge) simp_all
  then show ?thesis by simp
qed

lemma well_encoded_drop:
  assumes "well_encoded t" and "is_char_boundary t n"
  shows "well_encoded (drop n t)"
proof -
  have "\<not> continuation_byte (hd (drop n t))" if "drop n t \<noteq> []"
    using assms that by (auto simp: is_char_boundary_def well_encoded_def hd_drop_conv_nth hd_conv_nth)
  moreover have "\<exists>k \<le> 3. \<not> continuation_byte (drop n t ! (i + k))" if "i + 3 < length (drop n t)" for i
  proof -
    have "n + i + 3 < length t" using that by simp
    with assms(1) obtain k where "k \<le> 3" "\<not> continuation_byte (t ! (n + i + k))"
      by (auto simp: well_encoded_def)
    with that show ?thesis by (intro exI [of _ k]) (simp add: add.assoc)
  qed
  ultimately show ?thesis by (simp add: well_encoded_def)
qed

lemma chunk_loop_ends:
  assumes "4 \<le> limit" and "well_encoded t"
  shows "\<exists>cs. chunk_loop limit t = Some cs \<and> concat cs = t \<and> (\<forall>c \<in> set cs. c \<noteq> [] \<and> length c \<le> limit)"
  using assms(2)
proof (induction "length t" arbitrary: t rule: less_induct)
  case less
  show ?case
  proof (cases "t = []")
    case True
    then show ?thesis by (simp add: chunk_loop.simps)
  next
    case False
    let ?n = "chunk_end t (min (length t) limit)"
    have n: "0 < ?n" "?n \<le> length t" "?n \<le> limit"
      using chunk_end_progress [OF less.prems assms(1)] chunk_end_le [of t "min (length t) limit"] False assms(1)
      by (cases t; auto simp: min_def split: if_splits)+
    have "length (drop ?n t) < length t" using n False by simp
    from less.hyps [OF this well_encoded_drop [OF less.prems chunk_end_boundary]] obtain cs where
      "chunk_loop limit (drop ?n t) = Some cs" "concat cs = drop ?n t" "\<forall>c \<in> set cs. c \<noteq> [] \<and> length c \<le> limit"
      by blast
    then show ?thesis using n False by (subst chunk_loop.simps) (auto simp: Let_def)
  qed
qed

text \<open>C39. Splitting a text into deltas ends for every UTF-8 text: the loop that looks for character
  boundaries always advances, the chunks concatenate to the text, none is empty and none exceeds the
  largest delta an event may carry.\<close>

theorem text_chunks_end:
  assumes "well_encoded t"
  shows "chunk_loop (max_delta_bytes default_limits) t = Some (event_text_chunks t) \<and>
    concat (event_text_chunks t) = t \<and>
    (\<forall>c \<in> set (event_text_chunks t). c \<noteq> [] \<and> length c \<le> max_delta_bytes default_limits)"
proof -
  have "4 \<le> max_delta_bytes default_limits" by (simp add: default_limits_def)
  from chunk_loop_ends [OF this assms] show ?thesis by (auto simp: event_text_chunks_def)
qed

theorem text_chunks_end_witness:
  "chunk_loop (max_delta_bytes default_limits) [CHR ''a'', CHR 0xC3, CHR 0xA9] =
     Some (event_text_chunks [CHR ''a'', CHR 0xC3, CHR 0xA9]) \<and>
   concat (event_text_chunks [CHR ''a'', CHR 0xC3, CHR 0xA9]) = [CHR ''a'', CHR 0xC3, CHR 0xA9]"
proof -
  have "well_encoded [CHR ''a'', CHR 0xC3, CHR 0xA9]"
    by (simp add: well_encoded_def continuation_byte_def)
  from text_chunks_end [OF this] show ?thesis by blast
qed

lemma concat_event_text_chunks: "well_encoded t \<or> chunk_loop (max_delta_bytes default_limits) t = None \<Longrightarrow> concat (event_text_chunks t) = t"
  using chunk_loop_ends [of "max_delta_bytes default_limits" t]
  by (auto simp: event_text_chunks_def default_limits_def)

section \<open>Restored calls\<close>

text \<open>Restoring calls changes nothing of the tools but the record of normalized calls.\<close>

definition same_tools :: "prepared_tools \<Rightarrow> prepared_tools \<Rightarrow> bool" where
  "same_tools p p' \<longleftrightarrow>
     (\<exists>n. p' = p\<lparr>pt_registry := (pt_registry p)\<lparr>br_normalized := n\<rparr>\<rparr>)"

lemma same_tools_refl [simp]: "same_tools p p"
  unfolding same_tools_def by (rule exI [of _ "br_normalized (pt_registry p)"]) simp

lemma same_tools_trans: "same_tools p q \<Longrightarrow> same_tools q r \<Longrightarrow> same_tools p r"
  unfolding same_tools_def by force

lemma restore_call_registry: "\<exists>n. snd (restore_call sj lower br c) = br\<lparr>br_normalized := n\<rparr>"
proof -
  have same: "\<exists>n. br = br\<lparr>br_normalized := n\<rparr>" by (rule exI [of _ "br_normalized br"]) simp
  have "\<exists>n. snd (normalized_input br b i t) = br\<lparr>br_normalized := n\<rparr>" for b i t
    using same by (cases "normalize_patch_envelope t") (auto simp: normalized_input_def)
  moreover have "snd (restore_text br b g i t) = snd (normalized_input br b i t)" for b g i t
    by (simp add: restore_text_def split: prod.split sum.split)
  ultimately have "\<exists>n. snd (restore_text br b g i t) = br\<lparr>br_normalized := n\<rparr>" for b g i t by simp
  then have "\<exists>n. snd (restore_input sj lower br b i t) = br\<lparr>br_normalized := n\<rparr>" for b i t
    using same by (cases t) (simp_all add: restore_input_def split: option.split)
  moreover have "snd (restore_call sj lower br c) = br \<or>
      (\<exists>b. snd (restore_call sj lower br c) = snd (restore_input sj lower br b (tc_call_id c) (tc_input c)))"
    by (auto simp: restore_call_def split: option.splits prod.splits) (metis snd_conv)
  ultimately show ?thesis using same by metis
qed

lemma resolve_same:
  assumes "same_tools p p'"
  shows "resolve p' name = resolve p name"
proof -
  from assms have "resolve_identity p' t = resolve_identity p t" for t
    by (auto simp: same_tools_def resolve_identity_def original_of_def)
  then have "resolve_identity p' = resolve_identity p" by (rule ext)
  then show ?thesis by (simp add: resolve_def)
qed

lemma validate_count_same: "same_tools p p' \<Longrightarrow> validate_count p' n b = validate_count p n b"
  by (auto simp: same_tools_def validate_count_def)

lemma restore_tool_Ok:
  assumes "restore_tool sj lower p name call item raw = Ok (c, p')"
  shows "(\<exists>kind. resolve p name = Ok (tc_tool c, kind)) \<and> tc_call_id c = call \<and> tc_item_id c = Some item \<and> same_tools p p'"
proof -
  let ?l = "\<lambda>tool. \<lparr>tc_status = Some StatusCompleted, tc_item_id = Some item, tc_call_id = call, tc_tool = tool,
      tc_input = Json raw, tc_extensions = responses_extensions\<rparr>"
  from assms obtain tool registry where r: "tool_identity_new None name = Ok tool"
      "restore_call sj lower (pt_registry p) (?l tool) = (Ok c, registry)" "p' = p\<lparr>pt_registry := registry\<rparr>"
      "is_ok (resolve p' name)"
    by (auto simp: restore_tool_def is_ok_iff split: prod.splits sum.splits)
  from restore_call_registry [of sj lower "pt_registry p" "?l tool"] r have same: "same_tools p p'"
    by (auto simp: same_tools_def)
  with r(4) obtain t kind where "resolve p name = Ok (t, kind)" by (auto simp: is_ok_iff resolve_same)
  moreover from this r(1,2) have "t = tc_tool c"
    by (auto simp: resolve_def resolve_identity_def original_of_def restore_call_def moved_call_def
        split: option.splits prod.splits if_splits)
  ultimately show ?thesis
    using r(2) same by (auto simp: restore_call_def moved_call_def split: option.splits prod.splits if_splits)
qed

text \<open>What the provider's argument text becomes, said without the registry: the arguments of a function
  tool are kept to the character; a wrapped free-form call is the text in the envelope, after the patch
  normalization its binding may ask for; a structured edit is the patch it compiles to, inside the
  program the code-mode tool runs where the grammar is that one.\<close>

definition restores_to :: "wire_env \<Rightarrow> tool_binding \<Rightarrow> string \<Rightarrow> tool_input \<Rightarrow> bool" where
  "restores_to E b raw input \<longleftrightarrow>
     (case bi_structured b of
        Some rep \<Rightarrow>
          \<exists>patch. representation_compile (we_serde E) (we_lower E) rep raw = Ok patch \<and>
            (if bi_grammar b = Some CodeModeSourceV1
             then \<exists>program. helper_program (we_serde E) patch = Ok program \<and> input = Freeform program
             else input = Freeform patch)
      | None \<Rightarrow>
          (case bi_grammar b of
             None \<Rightarrow> input = Json raw
           | Some _ \<Rightarrow>
               \<exists>t. sj_parse_input (we_serde E) raw = Some t \<and>
                 (if bi_normalize b then \<exists>n. normalize_patch_envelope t = Ok n \<and> input = Freeform (np_text n)
                  else input = Freeform t)))"

text \<open>An output item that carries the arguments the provider gave for an alias.\<close>

definition arguments_shown :: "wire_env \<Rightarrow> prepared_tools \<Rightarrow> string \<Rightarrow> string \<Rightarrow> json \<Rightarrow> bool" where
  "arguments_shown E tools alias raw out \<longleftrightarrow>
     (\<exists>b input. fmlookup (br_reverse (pt_registry tools)) (ToolIdentity None alias) = Some b \<and> restores_to E b raw input \<and>
        (case input of
           Json a \<Rightarrow> str_at out ''type'' = Some ''function_call'' \<and> str_at out ''arguments'' = Some a
         | Freeform t \<Rightarrow> str_at out ''type'' = Some ''custom_tool_call'' \<and> str_at out ''input'' = Some t))"

lemma restore_text_Ok:
  assumes "restore_text br b g i t = (Ok input, br')"
  shows "if bi_normalize b then \<exists>n. normalize_patch_envelope t = Ok n \<and> input = Freeform (np_text n) else input = Freeform t"
  using assms by (auto simp: restore_text_def normalized_input_def split: prod.splits sum.splits if_splits)

lemma restore_input_Ok:
  assumes "restore_input (we_serde E) (we_lower E) br b i (Json raw) = (Ok input, br')"
  shows "restores_to E b raw input"
proof (cases "bi_structured b")
  case (Some rep)
  with assms show ?thesis by (auto simp: restore_input_def restores_to_def split: if_splits)
next
  case None
  with assms show ?thesis
    by (auto simp: restore_input_def restores_to_def split: option.splits if_splits dest!: restore_text_Ok)
qed

lemma restore_tool_arguments:
  assumes "restore_tool (we_serde E) (we_lower E) p name call item raw = Ok (c, p')"
  shows "\<exists>b. fmlookup (br_reverse (pt_registry p)) (ToolIdentity None name) = Some b \<and> restores_to E b raw (tc_input c)"
proof -
  from assms obtain registry where
    "restore_call (we_serde E) (we_lower E) (pt_registry p) \<lparr>tc_status = Some StatusCompleted, tc_item_id = Some item,
       tc_call_id = call, tc_tool = ToolIdentity None name, tc_input = Json raw, tc_extensions = responses_extensions\<rparr> = (Ok c, registry)"
    by (auto simp: restore_tool_def split: prod.splits sum.splits)
  then obtain b input br' where "fmlookup (br_reverse (pt_registry p)) (ToolIdentity None name) = Some b"
      "restore_input (we_serde E) (we_lower E) (pt_registry p) b call (Json raw) = (Ok input, br')" "tc_input c = input"
    by (auto simp: restore_call_def moved_call_def split: option.splits prod.splits if_splits)
  with restore_input_Ok show ?thesis by blast
qed

section \<open>Fields of constructed values\<close>

lemma jget_set_field: "k' \<noteq> k \<Longrightarrow> jget (set_field v k x) k' = jget v k'"
  by (cases v) simp_all

lemma str_at_set_field [simp]: "k' \<noteq> k \<Longrightarrow> str_at (set_field v k x) k' = str_at v k'"
  by (simp add: str_at_def jget_set_field)

lemma jget_set_same: "is_object v \<Longrightarrow> jget (set_field v k x) k = Some x"
  by (cases v) (simp_all add: is_object_def)

lemma is_object_obj [simp]: "is_object (obj kvs)" "is_object (JObject m)"
  by (simp_all add: is_object_def obj_def)

lemma is_object_set_field [simp]: "is_object (set_field v k x) = is_object v"
  by (cases v) (simp_all add: is_object_def)

lemma tool_output_fields:
  "str_at (tool_output c status) ''id'' = Some (item_id_text (tc_item_id c))"
  "str_at (tool_output c status) ''call_id'' = Some (call_id_str (tc_call_id c))"
  "str_at (tool_output c status) ''name'' = Some (tool_name (tc_tool c))"
  "str_at (tool_output c status) ''namespace'' = namespace (tc_tool c)"
  "str_at (tool_output c status) ''type'' =
     Some (case tc_input c of Json _ \<Rightarrow> ''function_call'' | Freeform _ \<Rightarrow> ''custom_tool_call'')"
  by (simp_all add: tool_output_def str_at_def jget_obj map_add_def split: option.split tool_input.split)

lemma tool_output_arguments:
  assumes "restore_tool (we_serde E) (we_lower E) q name call item raw = Ok (c, p')" and "same_tools p q"
  shows "arguments_shown E p name raw (tool_output c status)"
proof -
  from restore_tool_arguments [OF assms(1)] assms(2)
  obtain b where "fmlookup (br_reverse (pt_registry p)) (ToolIdentity None name) = Some b" "restores_to E b raw (tc_input c)"
    by (auto simp: same_tools_def)
  moreover have "case tc_input c of
      Json a \<Rightarrow> str_at (tool_output c status) ''type'' = Some ''function_call'' \<and> str_at (tool_output c status) ''arguments'' = Some a
    | Freeform t \<Rightarrow> str_at (tool_output c status) ''type'' = Some ''custom_tool_call'' \<and> str_at (tool_output c status) ''input'' = Some t"
    by (simp add: tool_output_def str_at_def jget_obj map_add_def split: option.split tool_input.split)
  ultimately show ?thesis unfolding arguments_shown_def by blast
qed

lemma arguments_shown_set_status:
  "arguments_shown E tools alias raw (set_field out ''status'' x) = arguments_shown E tools alias raw out"
  by (simp add: arguments_shown_def cong: tool_input.case_cong)

lemma event_text_chunks_short:
  assumes "length t \<le> max_delta_bytes default_limits"
  shows "event_text_chunks t = (if t = [] then [] else [t])"
proof (cases "t = []")
  case True
  then show ?thesis by (simp add: event_text_chunks_def chunk_loop.simps)
next
  case False
  then obtain n where n: "length t = Suc n" by (cases t) auto
  have "chunk_end t (length t) = length t" by (simp add: n is_char_boundary_def)
  with assms False show ?thesis
    by (simp add: event_text_chunks_def chunk_loop.simps [of _ t] chunk_loop.simps [of _ "[]"] min_def)
qed
end
