(* ===== verification/Managed_Output.thy ===== *)
theory Managed_Output
  imports Adapter_Tools Accounting
begin

text \<open>
  The outcome of a managed provider call, from \<open>src/src/adapters/managed.rs\<close>: the typed
  output, the check of its counters and the projection of the
  usage object clients see.
\<close>

record managed_output =
  mg_response :: json
  mg_native :: native_replay
  mg_outcome :: outcome
  mg_usage :: json
  mg_accounting :: accounting

fun drop_field :: "json \<Rightarrow> string \<Rightarrow> json" where
  "drop_field (JObject m) k = JObject (fmdrop k m)"
| "drop_field v k = v"

definition is_u64 :: "json \<Rightarrow> bool" where
  "is_u64 v \<longleftrightarrow> as_u64 v \<noteq> None"

definition drop_partial_details :: "string \<times> string \<Rightarrow> json \<Rightarrow> json" where
  "drop_partial_details = (\<lambda>(field, counter) u.
     if \<not> is_u64 (json_index (json_index u field) counter) then drop_field u field else u)"

definition project_usage :: "managed_output \<Rightarrow> managed_output" where
  "project_usage m =
     m\<lparr>mg_response := set_field (mg_response m) ''usage''
       (if list_ex (\<lambda>key. \<not> is_u64 (json_index (mg_usage m) key)) [''input_tokens'', ''output_tokens'', ''total_tokens'']
        then JNull
        else fold drop_partial_details
          [(''input_tokens_details'', ''cached_tokens''), (''output_tokens_details'', ''reasoning_tokens'')] (mg_usage m))\<rparr>"

definition checked_usage :: "managed_output \<Rightarrow> ir_error + managed_output" where
  "checked_usage m =
     (if cu_violations (ag_usage (mg_accounting m)) \<noteq> [] then Err (InvalidField ''usage'')
      else
        let u = usage_responses (ag_usage (mg_accounting m)) in
        Ok (m\<lparr>mg_usage := u, mg_response := set_field (mg_response m) ''usage'' u\<rparr>))"

end
