(* ===== verification/History_Walk.thy ===== *)
theory History_Walk
  imports Adapter_Tools
begin

text \<open>
  The loop over the history items that the Messages, Chat and Interactions adapters share: at a
  position with verified provider state the state is replayed and the items it covers are skipped,
  every other item takes one step, and state behind the last item is replayed at the end.

  The interface \<open>history_encoder\<close> is the contract of a step: it extends what is said to the provider
  by what the item says, and keeps account of the calls that still need a result. What follows for a
  whole history is proved once, here.
\<close>

function walk_items ::
  "(nat \<Rightarrow> item \<Rightarrow> 's \<Rightarrow> 'e + 's) \<Rightarrow> (nat \<Rightarrow> nat \<Rightarrow> native_state \<Rightarrow> 's \<Rightarrow> 'e + 's) \<Rightarrow> (nat \<Rightarrow> native_state \<Rightarrow> 's \<Rightarrow> 'e + 's) \<Rightarrow>
     provider_history \<Rightarrow> item list \<Rightarrow> nat \<Rightarrow> 's \<Rightarrow> 'e + 's" where
  "walk_items step replay closing history items position st =
     (if position < length items then
        (case fmlookup history position of
           None \<Rightarrow> and_then (step position (items ! position) st) (walk_items step replay closing history items (Suc position))
         | Some (stop, native) \<Rightarrow>
             and_then (replay position stop native st) (\<lambda>st.
               if stop > position then walk_items step replay closing history items stop st
               else and_then (step position (items ! position) st) (walk_items step replay closing history items (Suc position))))
      else case fmlookup history (length items) of
        None \<Rightarrow> Ok st
      | Some (stop, native) \<Rightarrow> closing stop native st)"
  by pat_completeness auto

termination
  by (relation "measure (\<lambda>(_, _, _, _, items, position, _). length items - position)") auto

declare walk_items.simps [simp del]

text \<open>Without provider state the loop is a fold.\<close>

lemma walk_items_no_history:
  "walk_items step replay closing fmempty items n st = fold_result (\<lambda>st (n, i). step n i st) st (enumerate n (drop n items))"
proof (induction step replay closing "fmempty :: provider_history" items n st rule: walk_items.induct)
  case (1 step replay closing items n st)
  show ?case
  proof (cases "n < length items")
    case True
    then have "drop n items = items ! n # drop (Suc n) items" by (simp add: Cons_nth_drop_Suc)
    with True 1(1) show ?thesis
      by (subst walk_items.simps) (auto intro!: and_then_cong)
  qed (simp add: walk_items.simps)
qed

text \<open>An invariant of the three kinds of step is one of the loop.\<close>

lemma walk_items_invariant:
  assumes "walk_items step replay closing history items n st = Ok st'" and "P st"
    and "\<And>n i st st'. step n i st = Ok st' \<Longrightarrow> P st \<Longrightarrow> P st'"
    and "\<And>n stop native st st'. replay n stop native st = Ok st' \<Longrightarrow> P st \<Longrightarrow> P st'"
    and "\<And>stop native st st'. closing stop native st = Ok st' \<Longrightarrow> P st \<Longrightarrow> P st'"
  shows "P st'"
  using assms(1,2)
proof (induction "length items - n" arbitrary: n st rule: less_induct)
  case less
  show ?case
  proof (cases "n < length items")
    case False
    show ?thesis
    proof (cases "fmlookup history (length items)")
      case None
      with False less.prems show ?thesis by (simp add: walk_items.simps)
    next
      case (Some seg)
      with False less.prems(1) have "closing (fst seg) (snd seg) st = Ok st'"
        by (simp add: walk_items.simps split: prod.splits)
      from assms(5) [OF this less.prems(2)] show ?thesis .
    qed
  next
    case True
    have rest: "P st'" if "and_then (step n (items ! n) st1) (walk_items step replay closing history items (Suc n)) = Ok st'"
      and "P st1" for st1
    proof -
      from that(1) obtain st2 where st2: "step n (items ! n) st1 = Ok st2"
          "walk_items step replay closing history items (Suc n) st2 = Ok st'" by auto
      have "length items - Suc n < length items - n" using True by simp
      from less.hyps [OF this st2(2) assms(3) [OF st2(1) that(2)]] show ?thesis .
    qed
    show ?thesis
    proof (cases "fmlookup history n")
      case None
      with True less.prems(1) have "and_then (step n (items ! n) st) (walk_items step replay closing history items (Suc n)) = Ok st'"
        by (subst (asm) walk_items.simps) simp
      from rest [OF this less.prems(2)] show ?thesis .
    next
      case (Some seg)
      obtain stop native where seg: "seg = (stop, native)" by (cases seg)
      with True Some less.prems(1) obtain st1 where st1: "replay n stop native st = Ok st1"
          "(if stop > n then walk_items step replay closing history items stop st1
            else and_then (step n (items ! n) st1) (walk_items step replay closing history items (Suc n))) = Ok st'"
        by (subst (asm) walk_items.simps) auto
      have p1: "P st1" by (rule assms(4) [OF st1(1) less.prems(2)])
      show ?thesis
      proof (cases "n < stop")
        case True
        then have "length items - stop < length items - n" using \<open>n < length items\<close> by simp
        from less.hyps [OF this _ p1] st1(2) True show ?thesis by simp
      next
        case False
        with st1(2) rest [OF _ p1] show ?thesis by simp
      qed
    qed
  qed
qed

text \<open>A failure that no kind of step raises is not raised by the loop.\<close>

lemma walk_items_safe:
  assumes "P st"
    and step: "\<And>n i st. P st \<Longrightarrow> step n i st \<noteq> Inl e" "\<And>n i st st'. step n i st = Ok st' \<Longrightarrow> P st \<Longrightarrow> P st'"
    and replay: "\<And>n stop native st. fmlookup history n = Some (stop, native) \<Longrightarrow> replay n stop native st \<noteq> Inl e"
      "\<And>n stop native st st'. fmlookup history n = Some (stop, native) \<Longrightarrow> replay n stop native st = Ok st' \<Longrightarrow> P st \<Longrightarrow> P st'"
    and closing: "\<And>stop native st. closing stop native st \<noteq> Inl e"
  shows "walk_items step replay closing history items n st \<noteq> Inl e"
  using assms(1)
proof (induction "length items - n" arbitrary: n st rule: less_induct)
  case less
  show ?case
  proof (cases "n < length items")
    case False
    then show ?thesis by (subst walk_items.simps) (simp add: closing split: option.split)
  next
    case True
    have rest: "and_then (step n (items ! n) st1) (walk_items step replay closing history items (Suc n)) \<noteq> Inl e" if "P st1" for st1
    proof (cases "step n (items ! n) st1")
      case (Inl x)
      with step(1) [OF that, of n "items ! n"] show ?thesis by simp
    next
      case (Inr st2)
      with less.hyps [of "Suc n" st2] step(2) [OF Inr that] True show ?thesis by simp
    qed
    show ?thesis
    proof (cases "fmlookup history n")
      case None
      with True rest [OF less.prems] show ?thesis by (subst walk_items.simps) simp
    next
      case (Some seg)
      obtain stop native where seg: "fmlookup history n = Some (stop, native)" using Some by (cases seg) simp
      show ?thesis
      proof (cases "replay n stop native st")
        case (Inl x)
        with replay(1) [OF seg, of st] True seg show ?thesis by (subst walk_items.simps) simp
      next
        case (Inr st1)
        have "P st1" by (rule replay(2) [OF seg Inr less.prems])
        with rest less.hyps [of stop st1] True seg Inr show ?thesis by (subst walk_items.simps) simp
      qed
    qed
  qed
qed

section \<open>Calls and their results\<close>

definition calls_in :: "item list \<Rightarrow> tool_call set" where
  "calls_in items = {c. ItemToolCall c \<in> set items}"

type_synonym open_calls = "(call_id, tool_call \<times> bool) fmap"

definition pending_ok :: "tool_call set \<Rightarrow> open_calls \<Rightarrow> bool" where
  "pending_ok calls pending \<longleftrightarrow>
     (\<forall>i e. fmlookup pending i = Some e \<longrightarrow> fst e \<in> calls \<and> tc_call_id (fst e) = i)"

lemma pending_ok_empty [simp]: "pending_ok calls fmempty"
  by (simp add: pending_ok_def)

lemma pending_ok_add [simp]:
  "pending_ok calls pending \<Longrightarrow> c \<in> calls \<Longrightarrow> pending_ok calls (fmupd (tc_call_id c) (c, b) pending)"
  by (auto simp: pending_ok_def simp del: split_paired_All split: if_splits)

lemma pending_ok_drop [simp]: "pending_ok calls pending \<Longrightarrow> pending_ok calls (fmdrop i pending)"
  by (auto simp: pending_ok_def simp del: split_paired_All split: if_splits)

fun user_turn :: "item \<Rightarrow> bool" where
  "user_turn (ItemMessage m) = (msg_role m = User)"
| "user_turn _ = False"

fun answers :: "call_id \<Rightarrow> item \<Rightarrow> bool" where
  "answers c (ItemToolResult res) = (tr_call_id res = c)"
| "answers c _ = False"

text \<open>A result for the call follows before any turn of the user.\<close>

fun answered :: "call_id \<Rightarrow> item list \<Rightarrow> bool" where
  "answered c [] = False"
| "answered c (i # items) = (answers c i \<or> \<not> user_turn i \<and> answered c items)"

fun all_answered :: "item list \<Rightarrow> bool" where
  "all_answered [] = True"
| "all_answered (ItemToolCall c # items) = (answered (tc_call_id c) items \<and> all_answered items)"
| "all_answered (_ # items) = all_answered items"

section \<open>The contract of a step\<close>

locale history_encoder =
  fixes step :: "nat \<Rightarrow> item \<Rightarrow> 's \<Rightarrow> 'e + 's"
    and pending :: "'s \<Rightarrow> open_calls"
    and inv :: "'s \<Rightarrow> bool"
    and spoken :: "'s \<Rightarrow> 'b list"
    and says :: "tool_call set \<Rightarrow> item \<Rightarrow> 'b list \<Rightarrow> bool"
  assumes step_says: "step n i st = Ok st' \<Longrightarrow> inv st \<Longrightarrow> pending_ok calls (pending st) \<Longrightarrow> calls_in [i] \<subseteq> calls \<Longrightarrow>
      inv st' \<and> pending_ok calls (pending st') \<and> (\<exists>bs. says calls i bs \<and> spoken st' = spoken st @ bs)"
    and step_keeps_open: "step n i st = Ok st' \<Longrightarrow> fmlookup (pending st) c \<noteq> None \<Longrightarrow>
      answers c i \<or> \<not> user_turn i \<and> fmlookup (pending st') c \<noteq> None"
    and step_opens: "step n (ItemToolCall call) st = Ok st' \<Longrightarrow> fmlookup (pending st') (tc_call_id call) \<noteq> None"
begin

abbreviation run :: "nat \<Rightarrow> item list \<Rightarrow> 's \<Rightarrow> 'e + 's" where
  "run n items st \<equiv> fold_result (\<lambda>st (n, i). step n i st) st (enumerate n items)"

lemma run_says:
  assumes "run n items st = Ok st'" and "inv st" and "pending_ok calls (pending st)" and "calls_in items \<subseteq> calls"
  shows "inv st' \<and> (\<exists>bss. list_all2 (says calls) items bss \<and> spoken st' = spoken st @ concat bss)"
  using assms
proof (induction items arbitrary: n st)
  case (Cons i items)
  from Cons.prems(1) obtain st1 where s: "step n i st = Ok st1" "run (Suc n) items st1 = Ok st'" by auto
  have sub: "calls_in [i] \<subseteq> calls" "calls_in items \<subseteq> calls" using Cons.prems(4) by (auto simp: calls_in_def)
  from step_says [OF s(1) Cons.prems(2,3) sub(1)] obtain bs where
    bs: "inv st1" "pending_ok calls (pending st1)" "says calls i bs" "spoken st1 = spoken st @ bs"
    by blast
  from Cons.IH [OF s(2) bs(1,2) sub(2)] obtain bss where
    "inv st'" "list_all2 (says calls) items bss" "spoken st' = spoken st1 @ concat bss"
    by blast
  with bs show ?case by (intro conjI exI [of _ "bs # bss"]) simp_all
qed simp

lemma run_answered:
  assumes "run n items st = Ok st'" and "pending st' = fmempty" and "fmlookup (pending st) c \<noteq> None"
  shows "answered c items"
  using assms
proof (induction items arbitrary: n st)
  case (Cons i items)
  from Cons.prems(1) obtain st1 where s: "step n i st = Ok st1" "run (Suc n) items st1 = Ok st'" by auto
  from step_keeps_open [OF s(1) Cons.prems(3)] Cons.IH [OF s(2) Cons.prems(2)] show ?case by auto
qed auto

lemma run_all_answered:
  assumes "run n items st = Ok st'" and "pending st' = fmempty"
  shows "all_answered items"
  using assms
proof (induction items arbitrary: n st)
  case (Cons i items)
  from Cons.prems(1) obtain st1 where s: "step n i st = Ok st1" "run (Suc n) items st1 = Ok st'" by auto
  have rest: "all_answered items" using Cons.IH [OF s(2) Cons.prems(2)] .
  show ?case
  proof (cases i)
    case (ItemToolCall c)
    with s(1) have "fmlookup (pending st1) (tc_call_id c) \<noteq> None" by (simp add: step_opens)
    with run_answered [OF s(2) Cons.prems(2)] rest ItemToolCall show ?thesis by simp
  qed (use rest in simp_all)
qed simp

lemma walk_says:
  assumes "walk_items step replay closing fmempty items 0 st = Ok st'" and "inv st" and "pending st = fmempty"
  shows "inv st' \<and> (\<exists>bss. list_all2 (says (calls_in items)) items bss \<and> spoken st' = spoken st @ concat bss)"
  using run_says [where n = 0 and items = items and st = st and st' = st' and calls = "calls_in items"] assms
  by (simp add: walk_items_no_history)

lemma walk_all_answered:
  assumes "walk_items step replay closing fmempty items 0 st = Ok st'" and "pending st' = fmempty"
  shows "all_answered items"
  using run_all_answered [where n = 0 and items = items and st = st and st' = st'] assms
  by (simp add: walk_items_no_history)

end

section \<open>Histories with verified provider state\<close>

text \<open>What a history tells from a position on, when a provider's own state stands for some of its items:
  behind the last item what the state stored there says, if any; at an item without state what the item
  says; at a position with state exactly what the provider said, and then either what follows the items
  it covers or, if it covers none, the item itself.\<close>

inductive tells ::
  "(item \<Rightarrow> 'b list \<Rightarrow> bool) \<Rightarrow> (native_state \<Rightarrow> 'b list \<Rightarrow> bool) \<Rightarrow> provider_history \<Rightarrow> item list \<Rightarrow> nat \<Rightarrow> 'b list \<Rightarrow> bool"
  for says replayed history items where
  finished: "fmlookup history (length items) = None \<Longrightarrow> tells says replayed history items (length items) []"
| behind: "fmlookup history (length items) = Some (length items, native) \<Longrightarrow> replayed native bs \<Longrightarrow>
    tells says replayed history items (length items) bs"
| item: "n < length items \<Longrightarrow> fmlookup history n = None \<Longrightarrow> says (items ! n) bs \<Longrightarrow>
    tells says replayed history items (Suc n) rest \<Longrightarrow> tells says replayed history items n (bs @ rest)"
| covered: "n < stop \<Longrightarrow> stop \<le> length items \<Longrightarrow> fmlookup history n = Some (stop, native) \<Longrightarrow> replayed native bs \<Longrightarrow>
    tells says replayed history items stop rest \<Longrightarrow> tells says replayed history items n (bs @ rest)"
| before: "n < length items \<Longrightarrow> fmlookup history n = Some (n, native) \<Longrightarrow> replayed native bs \<Longrightarrow> says (items ! n) cs \<Longrightarrow>
    tells says replayed history items (Suc n) rest \<Longrightarrow> tells says replayed history items n (bs @ cs @ rest)"

lemma tells_items:
  assumes "tells says replayed fmempty items n bs"
  shows "\<exists>bss. list_all2 says (drop n items) bss \<and> bs = concat bss"
  using assms
proof (induction rule: tells.induct)
  case finished
  show ?case by simp
next
  case (item n bs rest)
  then obtain bss where "list_all2 says (drop (Suc n) items) bss" "rest = concat bss" by blast
  with item show ?case
    by (intro exI [of _ "bs # bss"]) (simp add: Cons_nth_drop_Suc [symmetric, of n items])
qed simp_all

text \<open>The calls that provider state stands for.\<close>

definition segment :: "item list \<Rightarrow> nat \<Rightarrow> nat \<Rightarrow> item list" where
  "segment items n stop = take (stop - n) (drop n items)"

definition covered_calls :: "provider_history \<Rightarrow> item list \<Rightarrow> tool_call set" where
  "covered_calls history items =
     {c. \<exists>n stop native. fmlookup history n = Some (stop, native) \<and> c \<in> calls_in (segment items n stop)}"

lemma covered_calls_empty [simp]: "covered_calls fmempty items = {}"
  by (simp add: covered_calls_def)

lemma calls_in_segment: "calls_in (segment items n stop) \<subseteq> calls_in items"
  by (auto simp: calls_in_def segment_def dest: in_set_takeD in_set_dropD)

locale replaying_encoder = history_encoder step pending inv spoken says
  for step :: "nat \<Rightarrow> item \<Rightarrow> 's \<Rightarrow> 'e + 's"
    and pending :: "'s \<Rightarrow> open_calls"
    and inv :: "'s \<Rightarrow> bool"
    and spoken :: "'s \<Rightarrow> 'b list"
    and says :: "tool_call set \<Rightarrow> item \<Rightarrow> 'b list \<Rightarrow> bool" +
  fixes replay :: "item list \<Rightarrow> nat \<Rightarrow> nat \<Rightarrow> native_state \<Rightarrow> 's \<Rightarrow> 'e + 's"
    and closing :: "nat \<Rightarrow> nat \<Rightarrow> native_state \<Rightarrow> 's \<Rightarrow> 'e + 's"
    and replayed :: "native_state \<Rightarrow> 'b list \<Rightarrow> bool"
    and vouched :: "tool_call set"
  assumes replay_says: "replay items n stop native st = Ok st' \<Longrightarrow> inv st \<Longrightarrow> pending_ok calls (pending st) \<Longrightarrow>
      calls_in (segment items n stop) \<subseteq> calls \<inter> vouched \<Longrightarrow>
      n \<le> stop \<and> stop \<le> length items \<and> inv st' \<and> pending_ok calls (pending st') \<and>
      (\<exists>bs. replayed native bs \<and> spoken st' = spoken st @ bs)"
    and closing_says: "closing count stop native st = Ok st' \<Longrightarrow>
      stop = count \<and> (\<exists>bs. replayed native bs \<and> spoken st' = spoken st @ bs)"
begin

lemma walk_tells:
  assumes "walk_items step (replay items) (closing (length items)) history items n st = Ok st'" and "inv st"
    and "pending_ok (calls_in items) (pending st)" and "n \<le> length items" and "covered_calls history items \<subseteq> vouched"
  shows "\<exists>bs. tells (says (calls_in items)) replayed history items n bs \<and> spoken st' = spoken st @ bs"
  using assms(1-4)
proof (induction "length items - n" arbitrary: n st rule: less_induct)
  case less
  let ?tells = "tells (says (calls_in items)) replayed history items"
  have rest: "\<exists>bs cs. says (calls_in items) (items ! n) bs \<and> ?tells (Suc n) cs \<and> spoken st' = spoken st1 @ bs @ cs"
    if "n < length items"
      and "and_then (step n (items ! n) st1) (walk_items step (replay items) (closing (length items)) history items (Suc n)) = Ok st'"
      and "inv st1" and "pending_ok (calls_in items) (pending st1)" for st1
  proof -
    from that(2) obtain st2 where st2: "step n (items ! n) st1 = Ok st2"
      "walk_items step (replay items) (closing (length items)) history items (Suc n) st2 = Ok st'" by auto
    have "calls_in [items ! n] \<subseteq> calls_in items" using that(1) by (auto simp: calls_in_def)
    from step_says [OF st2(1) that(3,4) this] obtain bs where
      bs: "inv st2" "pending_ok (calls_in items) (pending st2)" "says (calls_in items) (items ! n) bs" "spoken st2 = spoken st1 @ bs"
      by blast
    have "length items - Suc n < length items - n" using that(1) by simp
    from less.hyps [OF this st2(2) bs(1,2)] that(1) bs(3,4) show ?thesis by auto
  qed
  show ?case
  proof (cases "n < length items")
    case False
    then have n: "n = length items" using less.prems(4) by simp
    show ?thesis
    proof (cases "fmlookup history (length items)")
      case None
      with n less.prems(1) show ?thesis by (subst (asm) walk_items.simps) (auto intro: tells.finished)
    next
      case (Some seg)
      obtain stop native where seg: "seg = (stop, native)" by (cases seg)
      with Some n less.prems(1) have "closing (length items) stop native st = Ok st'"
        by (subst (asm) walk_items.simps) simp
      from closing_says [OF this] Some seg n show ?thesis by (auto intro: tells.behind)
    qed
  next
    case True
    show ?thesis
    proof (cases "fmlookup history n")
      case None
      with True less.prems(1) have "and_then (step n (items ! n) st)
          (walk_items step (replay items) (closing (length items)) history items (Suc n)) = Ok st'"
        by (subst (asm) walk_items.simps) simp
      from rest [OF True this less.prems(2,3)] None True show ?thesis by (blast intro: tells.item)
    next
      case (Some seg)
      obtain stop native where seg: "fmlookup history n = Some (stop, native)" using Some by (cases seg) simp
      with True less.prems(1) obtain st1 where st1: "replay items n stop native st = Ok st1"
          "(if stop > n then walk_items step (replay items) (closing (length items)) history items stop st1
            else and_then (step n (items ! n) st1)
              (walk_items step (replay items) (closing (length items)) history items (Suc n))) = Ok st'"
        by (subst (asm) walk_items.simps) auto
      have "calls_in (segment items n stop) \<subseteq> calls_in items \<inter> vouched"
        using calls_in_segment [of items n stop] assms(5) seg by (fastforce simp: covered_calls_def)
      from replay_says [OF st1(1) less.prems(2,3) this] obtain bs where
        bs: "n \<le> stop" "stop \<le> length items" "inv st1" "pending_ok (calls_in items) (pending st1)"
          "replayed native bs" "spoken st1 = spoken st @ bs" by blast
      show ?thesis
      proof (cases "n < stop")
        case True
        then have "length items - stop < length items - n" using bs(2) by simp
        from less.hyps [OF this _ bs(3,4,2)] st1(2) True obtain cs where "?tells stop cs" "spoken st' = spoken st1 @ cs" by auto
        with tells.covered [where replayed = replayed, OF True bs(2) seg bs(5)] bs(6) show ?thesis by auto
      next
        case False
        with st1(2) bs(1) have stop: "stop = n" and "and_then (step n (items ! n) st1)
            (walk_items step (replay items) (closing (length items)) history items (Suc n)) = Ok st'" by simp_all
        from rest [OF \<open>n < length items\<close> this(2) bs(3,4)] obtain ds cs where
          "says (calls_in items) (items ! n) ds" "?tells (Suc n) cs" "spoken st' = spoken st1 @ ds @ cs" by blast
        with tells.before [where replayed = replayed, OF \<open>n < length items\<close> seg [unfolded stop] bs(5)] bs(6) show ?thesis by auto
      qed
    qed
  qed
qed

end

end
