(* ===== verification/Messages_Adapter.thy ===== *)
theory Messages_Adapter
  imports Managed_Output History_Walk
begin

text \<open>
  The Messages adapter, \<open>src/src/adapters/messages.rs\<close>: the request payload an admitted Responses
  request is encoded to, and the decoding of a complete provider message into a Responses object.

  The JSON array \<open>messages\<close> is kept as the list of its (role, blocks) pairs until it is put into the
  payload. \<open>self.tools\<close> records normalizations behind a shared reference, so the functions that
  restore tool calls return the tools they leave. The clock is an argument (\<open>None\<close> when the system
  time lies before the epoch).
\<close>

section \<open>Requests\<close>

record prepared_messages =
  pm_payload :: json
  pm_model :: string
  pm_tools :: prepared_tools
  pm_text_format :: "json option"
  pm_reasoning_controls :: "json option"

definition text_block :: "string \<Rightarrow> json" where
  "text_block t = obj [(''type'', JString ''text''), (''text'', JString t)]"

fun content_part :: "part_kind \<Rightarrow> ir_error + json" where
  "content_part (PartText _ t) = Ok (text_block t)"
| "content_part (PartImage url None) =
     (if starts_with ''https://'' url
      then Ok (obj [(''type'', JString ''image''),
        (''source'', obj [(''type'', JString ''url''), (''url'', JString url)])])
      else Err UnsupportedFeature)"
| "content_part _ = Err UnsupportedFeature"

fun message_content :: "content \<Rightarrow> ir_error + json list" where
  "message_content (ContentText t) = Ok [text_block t]"
| "message_content (ContentParts parts) = traverse (content_part \<circ> part_kind) parts"

type_synonym wire_message = "string \<times> json list"

definition wire_message_json :: "wire_message \<Rightarrow> json" where
  "wire_message_json m = obj [(''role'', JString (fst m)), (''content'', JArray (snd m))]"

definition last_role :: "wire_message list \<Rightarrow> string option" where
  "last_role ms = (if ms = [] then None else Some (fst (last ms)))"

definition push_message :: "wire_message list \<Rightarrow> string \<Rightarrow> json list \<Rightarrow> wire_message list" where
  "push_message ms r blocks =
     (if last_role ms = Some r then butlast ms @ [(r, snd (last ms) @ blocks)]
      else ms @ [(r, blocks)])"

text \<open>The state of the loop over the input items.\<close>

record encode_state =
  en_messages :: "wire_message list"
  en_pending :: open_calls
  en_envelope :: "json list"

definition push :: "encode_state \<Rightarrow> string \<Rightarrow> json list \<Rightarrow> encode_state" where
  "push st r blocks = st\<lparr>en_messages := push_message (en_messages st) r blocks\<rparr>"

definition native_blocks :: "native_state \<Rightarrow> ir_error + json list" where
  "native_blocks native =
     and_then (native_state_builtin native) (\<lambda>n.
       case n of
         MessagesReplay version blocks _ \<Rightarrow> if version = 1 then Ok blocks else Err ContinuityMismatch
       | _ \<Rightarrow> Err ContinuityMismatch)"

fun note_native_call :: "item \<Rightarrow> open_calls \<Rightarrow> open_calls" where
  "note_native_call (ItemToolCall call) pending = fmupd (tc_call_id call) (call, True) pending"
| "note_native_call _ pending = pending"

definition replay_segment ::
  "item list \<Rightarrow> nat \<Rightarrow> nat \<Rightarrow> native_state \<Rightarrow> encode_state \<Rightarrow> ir_error + encode_state" where
  "replay_segment items position stop native st =
     and_then (native_blocks native) (\<lambda>blocks.
       if stop < position \<or> stop > length items \<or> en_pending st \<noteq> fmempty then Err InvalidToolMapping
       else Ok (push (st\<lparr>en_pending := fold note_native_call (take (stop - position) (drop position items)) (en_pending st)\<rparr>)
         ''assistant'' blocks))"

definition encode_instruction :: "bool \<Rightarrow> nat \<Rightarrow> message \<Rightarrow> encode_state \<Rightarrow> ir_error + encode_state" where
  "encode_instruction bridge position m st =
     (if \<not> bridge \<or> en_messages st \<noteq> [] then Err UnsupportedFeature
      else and_then (message_content (msg_content m)) (\<lambda>blocks.
        if list_ex (\<lambda>v. json_index v ''type'' \<noteq> JString ''text'') blocks then Err UnsupportedFeature
        else Ok (st\<lparr>en_envelope := en_envelope st @
          [obj [(''role'', JString (if msg_role m = System then ''system'' else ''developer'')),
                (''position'', JNumber (nat_text position)), (''content'', JArray blocks)]]\<rparr>)))"

definition encode_turn :: "message \<Rightarrow> encode_state \<Rightarrow> ir_error + encode_state" where
  "encode_turn m st =
     (if en_pending st \<noteq> fmempty \<and>
         (msg_role m \<noteq> Assistant \<or> last_role (en_messages st) \<noteq> Some ''assistant'')
      then Err InvalidToolMapping
      else and_then (message_content (msg_content m)) (\<lambda>blocks.
        Ok (push st (if msg_role m = User then ''user'' else ''assistant'') blocks)))"

definition tool_use_block :: "tool_call \<Rightarrow> tool_identity \<Rightarrow> json \<Rightarrow> json" where
  "tool_use_block call tool input =
     obj [(''type'', JString ''tool_use''), (''id'', JString (call_id_str (tc_call_id call))),
       (''name'', JString (tool_name tool)), (''input'', input)]"

definition encode_call ::
  "wire_env \<Rightarrow> custom_tool_bridge \<Rightarrow> tool_call \<Rightarrow> encode_state \<Rightarrow> ir_error + encode_state" where
  "encode_call E registry call st =
     and_then (lower_call (we_serde E) (we_lower E) registry call) (\<lambda>lowered.
       case tc_input lowered of
         Freeform _ \<Rightarrow> Err UnsupportedFeature
       | Json arguments \<Rightarrow>
           and_then (ok_or (sj_parse_value (we_serde E) arguments) InvalidJsonArguments) (\<lambda>input.
             if \<not> is_object input then Err InvalidJsonArguments
             else if last_role (en_messages st) = Some ''user'' \<and> en_pending st \<noteq> fmempty
             then Err InvalidToolMapping
             else Ok (push (st\<lparr>en_pending := fmupd (tc_call_id call) (call, False) (en_pending st)\<rparr>) ''assistant''
               [tool_use_block call (tc_tool lowered) input])))"

definition tool_result_block :: "tool_result \<Rightarrow> string \<Rightarrow> json" where
  "tool_result_block result out =
     obj [(''type'', JString ''tool_result''), (''tool_use_id'', JString (call_id_str (tr_call_id result))),
       (''content'', JString out)]"

definition encode_result ::
  "wire_env \<Rightarrow> custom_tool_bridge \<Rightarrow> tool_result \<Rightarrow> encode_state \<Rightarrow> ir_error + encode_state" where
  "encode_result E registry result st =
     and_then (ok_or (fmlookup (en_pending st) (tr_call_id result)) InvalidToolMapping) (\<lambda>(call, native).
     and_then (if native then Ok ()
         else and_then (lower_result (we_serde E) (we_lower E) registry result call) (\<lambda>_. Ok ())) (\<lambda>_.
     and_then (result_text (we_serde E) registry result call) (\<lambda>out.
       Ok (push (st\<lparr>en_pending := fmdrop (tr_call_id result) (en_pending st)\<rparr>) ''user''
         [tool_result_block result out]))))"

fun encode_history_item ::
  "wire_env \<Rightarrow> custom_tool_bridge \<Rightarrow> bool \<Rightarrow> nat \<Rightarrow> item \<Rightarrow> encode_state \<Rightarrow> ir_error + encode_state" where
  "encode_history_item E registry bridge position (ItemMessage m) st =
     (if msg_role m \<in> {System, Developer} then encode_instruction bridge position m st else encode_turn m st)"
| "encode_history_item E registry bridge position (ItemToolCall call) st = encode_call E registry call st"
| "encode_history_item E registry bridge position (ItemToolResult result) st = encode_result E registry result st"
| "encode_history_item E registry bridge position _ st = Err UnsupportedFeature"

definition encode_tail :: "nat \<Rightarrow> native_state \<Rightarrow> encode_state \<Rightarrow> ir_error + encode_state" where
  "encode_tail stop native st = and_then (native_blocks native) (\<lambda>blocks. Ok (push st ''assistant'' blocks))"

definition encode_items ::
  "wire_env \<Rightarrow> custom_tool_bridge \<Rightarrow> bool \<Rightarrow> provider_history \<Rightarrow> item list \<Rightarrow> encode_state \<Rightarrow> ir_error + encode_state" where
  "encode_items E registry bridge history items st =
     walk_items (encode_history_item E registry bridge) (replay_segment items) encode_tail history items 0 st"

section \<open>The payload\<close>

definition messages_native_features :: "feature set" where
  "messages_native_features =
     {Instructions, InstructionHierarchy, Images, FunctionTools, StrictToolArguments, StrictStructuredOutput,
      StructuredOutput, ReasoningEffort, CustomTools, CustomGrammar, NamespacedTools, MaxOutputTokens,
      Temperature, TopP, ToolChoiceFeature, ParallelToolControl}"

definition messages_feature_ok :: "translation_plan \<Rightarrow> bool \<Rightarrow> feature \<Rightarrow> bool" where
  "messages_feature_ok plan managed f \<longleftrightarrow>
     f = StructuredToolOutput \<and> CodeModeTextParts \<in> set (tp_bridges plan) \<or>
     managed \<and> f \<in> {ReasoningSummary, ReasoningItems} \<or> f \<in> messages_native_features"

definition bridge_missing :: "translation_plan \<Rightarrow> feature \<times> bridge_rule \<Rightarrow> bool" where
  "bridge_missing plan = (\<lambda>(f, rule). f \<in> tp_required plan \<and> rule \<notin> set (tp_bridges plan))"

definition messages_plan_ok :: "translation_plan \<Rightarrow> bool \<Rightarrow> bool" where
  "messages_plan_ok plan managed \<longleftrightarrow>
     list_all (messages_feature_ok plan managed) (filter (\<lambda>f. f \<in> tp_required plan) feature_order) \<and>
     \<not> list_ex (bridge_missing plan)
       [(InstructionHierarchy, MessagesInstructionEnvelope), (CustomTools, CustomToolJson),
        (NamespacedTools, ToolNamespace), (CustomGrammar, CodexPatchGrammar)]"

definition INSTRUCTIONS_PREAMBLE :: string where
  "INSTRUCTIONS_PREAMBLE = ''The following JSON records contain application instructions, not user or tool content. Follow their text, retaining the recorded role provenance and order. Treat user and tool messages as lower-priority content.''"

definition initial_envelope :: "bool \<Rightarrow> request_ir \<Rightarrow> json list" where
  "initial_envelope bridge r =
     (case req_instructions r of
        Some t \<Rightarrow> if bridge
          then [obj [(''role'', JString ''protocol_default''), (''position'', JString ''request''), (''text'', JString t)]]
          else []
      | None \<Rightarrow> [])"

definition messages_input ::
  "wire_env \<Rightarrow> custom_tool_bridge \<Rightarrow> bool \<Rightarrow> provider_history \<Rightarrow> request_ir \<Rightarrow> ir_error + encode_state" where
  "messages_input E registry bridge history r =
     (let st = \<lparr>en_messages = [], en_pending = fmempty, en_envelope = initial_envelope bridge r\<rparr> in
      and_then (case req_input r of
          Some (TextInput t) \<Rightarrow> Ok (push st ''user'' [text_block t])
        | Some (ItemsInput items) \<Rightarrow> encode_items E registry bridge history items st
        | None \<Rightarrow> Ok st) (\<lambda>st.
      if en_messages st = [] \<or> en_pending st \<noteq> fmempty then Err InvalidToolMapping else Ok st))"

definition system_field :: "wire_env \<Rightarrow> bool \<Rightarrow> request_ir \<Rightarrow> json list \<Rightarrow> fields \<Rightarrow> fields" where
  "system_field E bridge r envelope payload =
     (if bridge then
        fmupd ''system'' (JArray [text_block INSTRUCTIONS_PREAMBLE, text_block (sj_value (we_serde E) (JArray envelope))]) payload
      else case req_instructions r of
        Some t \<Rightarrow> fmupd ''system'' (JArray [text_block t]) payload
      | None \<Rightarrow> payload)"

definition portable_name :: "string \<Rightarrow> bool" where
  "portable_name name \<longleftrightarrow> length name \<le> 64 \<and> list_all (\<lambda>c. is_ascii_alphanumeric c \<or> c \<in> set ''_-'') name"

definition empty_schema :: json where
  "empty_schema = obj [(''type'', JString ''object''), (''properties'', JObject fmempty), (''additionalProperties'', JBool False)]"

definition messages_tool :: "tool_definition \<Rightarrow> ir_error + json" where
  "messages_tool t =
     (if namespace (td_identity t) \<noteq> None \<or> \<not> portable_name (tool_name (td_identity t)) then Err UnsupportedFeature
      else case td_kind t of
        FunctionTool parameters strict \<Rightarrow>
          let schema = (case parameters of Some s \<Rightarrow> s | None \<Rightarrow> empty_schema) in
          if \<not> is_object schema \<or> str_at schema ''type'' \<noteq> Some ''object'' then Err UnsupportedFeature
          else Ok (obj ([(''name'', JString (tool_name (td_identity t))), (''input_schema'', schema)] @
            (case strict of Some b \<Rightarrow> [(''strict'', JBool b)] | None \<Rightarrow> []) @
            (case td_description t of Some d \<Rightarrow> [(''description'', JString d)] | None \<Rightarrow> [])))
      | _ \<Rightarrow> Err UnsupportedFeature)"

fun messages_choice :: "tool_choice \<Rightarrow> ir_error + json" where
  "messages_choice ChoiceAuto = Ok (obj [(''type'', JString ''auto'')])"
| "messages_choice ChoiceNone = Ok (obj [(''type'', JString ''none'')])"
| "messages_choice ChoiceRequired = Ok (obj [(''type'', JString ''any'')])"
| "messages_choice (ChoiceNamed tool _ _) = Ok (obj [(''type'', JString ''tool''), (''name'', JString (tool_name tool))])"
| "messages_choice (ChoiceExtension _ _) = Err UnsupportedFeature"

definition choice_field :: "custom_tool_bridge \<Rightarrow> request_ir \<Rightarrow> fields \<Rightarrow> ir_error + fields" where
  "choice_field registry r payload =
     (case go_tool_choice (req_generation r) of
        None \<Rightarrow> Ok payload
      | Some choice \<Rightarrow>
          and_then (lower_choice registry choice) (\<lambda>lowered.
          and_then (messages_choice lowered) (\<lambda>v. Ok (fmupd ''tool_choice'' v payload))))"

text \<open>\<open>payload.entry(key).or_insert_with(..)\<close>.\<close>

definition entry_or :: "fields \<Rightarrow> string \<Rightarrow> json \<Rightarrow> json" where
  "entry_or payload key v = (case fmlookup payload key of Some w \<Rightarrow> w | None \<Rightarrow> v)"

definition parallel_field :: "request_ir \<Rightarrow> fields \<Rightarrow> fields" where
  "parallel_field r payload =
     (case go_parallel_tool_calls (req_generation r) of
        None \<Rightarrow> payload
      | Some parallel \<Rightarrow>
          let choice = entry_or payload ''tool_choice'' (obj [(''type'', JString ''auto'')]) in
          fmupd ''tool_choice''
            (if json_index choice ''type'' \<noteq> JString ''none''
             then set_field choice ''disable_parallel_tool_use'' (JBool (\<not> parallel)) else choice) payload)"

definition format_field :: "request_ir \<Rightarrow> fields \<Rightarrow> ir_error + fields \<times> json option" where
  "format_field r payload =
     (case Option.bind (go_output (req_generation r)) oo_format of
        None \<Rightarrow> Ok (payload, None)
      | Some (FormatText _) \<Rightarrow> Ok (payload, None)
      | Some (FormatJsonSchema name schema strict _) \<Rightarrow>
          if strict = Some True \<and> name \<noteq> [] \<and> is_object schema
          then Ok (fmupd ''output_config''
                (obj [(''format'', obj [(''type'', JString ''json_schema''), (''schema'', schema)])]) payload,
              Some (obj [(''type'', JString ''json_schema''), (''name'', JString name), (''schema'', schema),
                (''strict'', JBool True)]))
          else Err UnsupportedFeature
      | Some _ \<Rightarrow> Err UnsupportedFeature)"

definition effort_put :: "json \<Rightarrow> fields \<Rightarrow> fields" where
  "effort_put v payload =
     fmupd ''output_config'' (set_field (entry_or payload ''output_config'' (JObject fmempty)) ''effort'' v) payload"

definition effort_field :: "bool \<Rightarrow> request_ir \<Rightarrow> fields \<Rightarrow> ir_error + fields" where
  "effort_field managed r payload =
     (case requested_effort r of
        Some effort \<Rightarrow>
          if managed then Ok payload
          else if \<not> claude_effort effort then Err UnsupportedFeature
          else Ok (effort_put (JString effort) payload)
      | None \<Rightarrow> Ok payload)"

definition sampling_field :: "(string \<Rightarrow> bool) \<Rightarrow> string \<Rightarrow> string option \<Rightarrow> fields \<Rightarrow> ir_error + fields" where
  "sampling_field in_range name v payload =
     (case v of
        None \<Rightarrow> Ok payload
      | Some n \<Rightarrow> if \<not> in_range n then Err UnsupportedFeature else Ok (fmupd name (JNumber n) payload))"

definition thinking_fields :: "json option \<Rightarrow> fields \<Rightarrow> fields" where
  "thinking_fields reasoning payload =
     (case reasoning of
        None \<Rightarrow> payload
      | Some c \<Rightarrow>
          let payload = fmupd ''thinking'' (json_index c ''thinking'') payload in
          (case jget c ''effort'' of Some e \<Rightarrow> effort_put e payload | None \<Rightarrow> payload))"

definition max_tokens_of :: "request_ir \<Rightarrow> translation_plan \<Rightarrow> ir_error + u64" where
  "max_tokens_of r plan =
     ok_or (case go_max_output_tokens (req_generation r) of Some n \<Rightarrow> Some n | None \<Rightarrow> rs_max_output_tokens (tp_route plan))
       (InvalidField ''max_output_tokens'')"

definition messages_base :: "request_ir \<Rightarrow> translation_plan \<Rightarrow> u64 \<Rightarrow> fields" where
  "messages_base r plan maximum =
     fmap_of_list [(''model'', JString (rs_model (tp_route plan))), (''max_tokens'', json_u64 maximum),
       (''stream'', JBool (case go_stream (req_generation r) of Some b \<Rightarrow> b | None \<Rightarrow> False))]"

definition tools_field :: "request_ir \<Rightarrow> json list \<Rightarrow> fields \<Rightarrow> fields" where
  "tools_field r tools payload = (if req_tools r \<noteq> None then fmupd ''tools'' (JArray tools) payload else payload)"

definition encode_with_history ::
  "wire_env \<Rightarrow> request_ir \<Rightarrow> translation_plan \<Rightarrow> provider_history \<Rightarrow> bool \<Rightarrow> ir_error + prepared_messages" where
  "encode_with_history E r plan history managed =
     (let contract = cp_reasoning_contract (rs_capabilities (tp_route plan));
          bridge = (MessagesInstructionEnvelope \<in> set (tp_bridges plan)) in
      if rs_api (tp_route plan) \<noteq> Messages then Err WrongProtocol
      else if managed \<noteq> (contract \<noteq> None) then Err UnsupportedFeature
      else if \<not> messages_plan_ok plan managed then Err UnsupportedFeature
      else
        and_then (for_plan (we_serde E) (we_sha256 E) r (rs_capabilities (tp_route plan)) (tp_editing plan) True) (\<lambda>registry.
        and_then (max_tokens_of r plan) (\<lambda>maximum.
        and_then (messages_input E registry bridge history r) (\<lambda>st.
        let payload = fmupd ''messages'' (JArray (map wire_message_json (en_messages st)))
          (system_field E bridge r (en_envelope st) (messages_base r plan maximum)) in
        and_then (traverse messages_tool (br_definitions registry)) (\<lambda>tools.
        if tools = [] \<and> choice_demands (go_tool_choice (req_generation r)) then Err InvalidToolMapping
        else
          and_then (choice_field registry r (tools_field r tools payload)) (\<lambda>payload.
          and_then (format_field r (parallel_field r payload)) (\<lambda>(payload, text_format).
          and_then (effort_field managed r payload) (\<lambda>payload.
          and_then (sampling_field (we_unit_interval E) ''temperature'' (go_temperature (req_generation r)) payload) (\<lambda>payload.
          and_then (sampling_field (we_unit_interval E) ''top_p'' (go_top_p (req_generation r)) payload) (\<lambda>payload.
          and_then (opt_traverse (\<lambda>c. controls (we_top_p_ok E) c r maximum) contract) (\<lambda>reasoning.
            Ok \<lparr>pm_payload = JObject (thinking_fields reasoning payload), pm_model = rs_model (tp_route plan),
                pm_tools = prepared_tools_new registry r, pm_text_format = text_format,
                pm_reasoning_controls = reasoning\<rparr>)))))))))))"

definition messages_encode_admitted ::
  "wire_env \<Rightarrow> request_ir \<Rightarrow> translation_plan \<Rightarrow> ir_error + prepared_messages" where
  "messages_encode_admitted E r plan = encode_with_history E r plan fmempty False"

definition messages_encode :: "wire_env \<Rightarrow> request_ir \<Rightarrow> continuity_binding \<Rightarrow> ir_error + prepared_messages" where
  "messages_encode E r target =
     (if rs_api (cb_route target) \<noteq> Messages then Err WrongProtocol
      else and_then (plan_translation (we_serde E) (we_sha256 E) (we_lower E) r target) (messages_encode_admitted E r))"

section \<open>Usage\<close>

definition usage_number :: "json \<Rightarrow> string \<Rightarrow> ir_error + u64" where
  "usage_number u field = ok_or (Option.bind (jget u field) as_u64) (InvalidField ''usage'')"

definition add_usage_field :: "json \<Rightarrow> u64 \<Rightarrow> string \<Rightarrow> ir_error + u64" where
  "add_usage_field u n field =
     (if jget u field = None then Ok n
      else and_then (usage_number u field) (\<lambda>m. ok_or (checked_add n m) (InvalidField ''usage'')))"

definition messages_usage :: "json \<Rightarrow> ir_error + u64 \<times> u64 \<times> u64" where
  "messages_usage u =
     and_then (usage_number u ''input_tokens'') (\<lambda>input.
     and_then (usage_number u ''output_tokens'') (\<lambda>generated.
     and_then (fold_result (add_usage_field u) input [''cache_read_input_tokens'', ''cache_creation_input_tokens'']) (\<lambda>input.
     and_then (ok_or (checked_add input generated) (InvalidField ''usage'')) (\<lambda>all_tokens.
       Ok (input, generated, all_tokens)))))"

definition messages_canonical :: "json \<Rightarrow> canonical_usage" where
  "messages_canonical raw = normalize MessagesV1 (extract_counters MessagesV1 raw)"

definition managed_usage :: "json option \<Rightarrow> ir_error + json" where
  "managed_usage v =
     (let raw = present_or_empty v in
      and_then (json_object raw) (\<lambda>_.
        let canonical = messages_canonical raw in
        if cu_violations canonical \<noteq> [] then Err (InvalidField ''usage'') else Ok (usage_responses canonical)))"

definition response_usage :: "json \<Rightarrow> u64 \<Rightarrow> u64 \<Rightarrow> u64 \<Rightarrow> json" where
  "response_usage raw input out all_tokens =
     set_field (set_field (set_field (usage_responses (messages_canonical raw))
       ''input_tokens'' (json_u64 input)) ''output_tokens'' (json_u64 out)) ''total_tokens'' (json_u64 all_tokens)"

definition projected_usage :: "json \<Rightarrow> ir_error + json" where
  "projected_usage raw =
     and_then (messages_usage raw) (\<lambda>(input, out, all_tokens). Ok (response_usage raw input out all_tokens))"

section \<open>Responses\<close>

definition messages_terminal ::
  "prepared_messages \<Rightarrow> string \<Rightarrow> nat \<Rightarrow> ir_error + terminal \<times> string option" where
  "messages_terminal p stop tool_count =
     and_then
       (if stop \<in> {''end_turn'', ''stop_sequence''} \<and> tool_count = 0 then Ok (terminal.Completed, None)
        else if stop = ''tool_use'' \<and> tool_count > 0 then Ok (terminal.Completed, None)
        else if stop = ''max_tokens'' then Ok (terminal.Incomplete, Some ''max_output_tokens'')
        else Err UnsupportedFeature) (\<lambda>(terminal, reason).
     and_then (validate_count (pm_tools p) tool_count (terminal = terminal.Completed)) (\<lambda>_.
       Ok (terminal, reason)))"

definition reflect_format :: "json option \<Rightarrow> json \<Rightarrow> json" where
  "reflect_format text_format response =
     (case text_format of
        Some format \<Rightarrow> set_field response ''text'' (obj [(''format'', format)])
      | None \<Rightarrow> response)"

record decode_state =
  de_validator :: event_validator
  de_output :: "json list"
  de_tool_count :: nat
  de_tools :: prepared_tools

definition text_events :: "item_id \<Rightarrow> output_index \<Rightarrow> output_kind \<Rightarrow> event_part_kind \<Rightarrow> string \<Rightarrow> event_ir list" where
  "text_events item index kind pk t =
     [ItemStarted item index kind, PartStarted item 0 pk] @
     map (TextDelta item 0) (event_text_chunks t) @ [PartFinished item 0]"

definition call_text :: "tool_input \<Rightarrow> string" where
  "call_text i = (case i of Json v \<Rightarrow> v | Freeform v \<Rightarrow> v)"

definition tool_events :: "item_id \<Rightarrow> output_index \<Rightarrow> call_id \<Rightarrow> tool_call \<Rightarrow> event_ir list" where
  "tool_events item index cid call =
     ItemStarted item index (Tool (tc_tool call) cid (tool_input_kind (tc_input call))) #
     map (ArgumentsDelta item) (event_text_chunks (call_text (tc_input call)))"

definition output_message :: "item_id \<Rightarrow> string \<Rightarrow> json" where
  "output_message item t =
     obj [(''id'', JString (item_id_str item)), (''type'', JString ''message''), (''status'', JString ''completed''),
       (''role'', JString ''assistant''),
       (''content'', JArray [obj [(''type'', JString ''output_text''), (''text'', JString t), (''annotations'', JArray [])]])]"

text \<open>One output item: its events, the end of the item, and what it adds to the output.\<close>

definition emit_item ::
  "wire_env \<Rightarrow> item_id \<Rightarrow> event_ir list \<Rightarrow> json \<Rightarrow> decode_state \<Rightarrow> ir_error + decode_state" where
  "emit_item E item events out st =
     and_then (apply_all (we_serde E) (de_validator st) (events @ [ItemFinished item])) (\<lambda>v.
       Ok (st\<lparr>de_validator := v, de_output := de_output st @ [out]\<rparr>))"

definition decode_redacted :: "json \<Rightarrow> decode_state \<Rightarrow> ir_error + decode_state" where
  "decode_redacted block st =
     and_then (known_fields block [''type'', ''data'']) (\<lambda>_.
     and_then (json_string block ''data'') (\<lambda>d. if d = [] then Err UnsupportedFeature else Ok st))"

definition decode_thinking ::
  "wire_env \<Rightarrow> item_id \<Rightarrow> output_index \<Rightarrow> json \<Rightarrow> decode_state \<Rightarrow> ir_error + decode_state" where
  "decode_thinking E item index block st =
     and_then (known_fields block [''type'', ''thinking'', ''signature'']) (\<lambda>_.
     and_then (json_string block ''thinking'') (\<lambda>t.
     and_then (json_string block ''signature'') (\<lambda>sig.
       if sig = [] then Err UnsupportedFeature
       else if t = [] then Ok st
       else emit_item E item (text_events item index Reasoning ReasoningText t)
         (public_reasoning (item_id_str item) t) st)))"

definition cited :: "json \<Rightarrow> bool" where
  "cited block =
     (case jget block ''citations'' of Some v \<Rightarrow> \<not> is_null v \<and> as_array v \<noteq> Some [] | None \<Rightarrow> False)"

definition decode_text ::
  "wire_env \<Rightarrow> item_id \<Rightarrow> output_index \<Rightarrow> json \<Rightarrow> decode_state \<Rightarrow> ir_error + decode_state" where
  "decode_text E item index block st =
     and_then (known_fields block [''type'', ''text'', ''citations'']) (\<lambda>_.
       if cited block then Err UnsupportedFeature
       else and_then (json_string block ''text'') (\<lambda>t.
         emit_item E item (text_events item index Message Text t) (output_message item t) st))"

definition decode_tool_use ::
  "wire_env \<Rightarrow> item_id \<Rightarrow> output_index \<Rightarrow> json \<Rightarrow> decode_state \<Rightarrow> ir_error + decode_state" where
  "decode_tool_use E item index block st =
     and_then (known_fields block [''type'', ''id'', ''name'', ''input'']) (\<lambda>_.
     and_then (json_string block ''name'') (\<lambda>name.
     and_then (json_string block ''id'') (\<lambda>raw_id.
     and_then (call_id_new raw_id) (\<lambda>cid.
     and_then (ok_or (case jget block ''input'' of Some v \<Rightarrow> if is_object v then Some v else None | None \<Rightarrow> None)
         InvalidJsonArguments) (\<lambda>input.
     and_then (restore_tool (we_serde E) (we_lower E) (de_tools st) name cid item (sj_value (we_serde E) input)) (\<lambda>(call, tools).
       emit_item E item (tool_events item index cid call) (tool_output call ''completed'')
         (st\<lparr>de_tools := tools, de_tool_count := de_tool_count st + 1\<rparr>)))))))"

definition decode_block ::
  "wire_env \<Rightarrow> bool \<Rightarrow> string \<Rightarrow> decode_state \<Rightarrow> nat \<times> json \<Rightarrow> ir_error + decode_state" where
  "decode_block E managed mid st = (\<lambda>(n, block).
     and_then (item_id_new (''item_'' @ mid @ ''_'' @ nat_text n)) (\<lambda>item.
     if length (de_output st) \<ge> 2 ^ 32 then Err SizeLimit
     else
       let index = of_nat (length (de_output st)) in
       and_then (json_string block ''type'') (\<lambda>kind.
         if kind = ''redacted_thinking'' \<and> managed then decode_redacted block st
         else if kind = ''thinking'' \<and> managed then decode_thinking E item index block st
         else if kind = ''text'' then decode_text E item index block st
         else if kind = ''tool_use'' then decode_tool_use E item index block st
         else Err UnsupportedFeature)))"

definition response_metrics :: "bool \<Rightarrow> json \<Rightarrow> ir_error + json" where
  "response_metrics managed v =
     (if managed then managed_usage (jget v ''usage'')
      else and_then (ok_or (jget v ''usage'') (InvalidField ''usage'')) projected_usage)"

definition terminal_status :: "terminal \<Rightarrow> string" where
  "terminal_status t =
     (case t of terminal.Completed \<Rightarrow> ''completed'' | terminal.Incomplete \<Rightarrow> ''incomplete'' | _ \<Rightarrow> ''failed'')"

definition mark_items :: "terminal \<Rightarrow> json list \<Rightarrow> json list" where
  "mark_items t items =
     (if t \<noteq> terminal.Completed then map (\<lambda>i. set_field i ''status'' (JString ''incomplete'')) items else items)"

definition incomplete_details :: "terminal \<Rightarrow> string option \<Rightarrow> json" where
  "incomplete_details t reason =
     (if t = terminal.Incomplete then obj [(''reason'', json_opt reason)] else JNull)"

definition decode_checks :: "prepared_messages \<Rightarrow> json \<Rightarrow> ir_error + string" where
  "decode_checks p v =
     and_then (json_string v ''type'') (\<lambda>kind.
     if kind \<noteq> ''message'' then Err (InvalidField ''messages_response'') else
     and_then (json_string v ''role'') (\<lambda>r.
     if r \<noteq> ''assistant'' then Err (InvalidField ''messages_response'') else
     and_then (json_string v ''model'') (\<lambda>model.
     if model \<noteq> pm_model p then Err (InvalidField ''messages_response'')
     else if list_ex (present v) [''container'', ''context_management'', ''stop_details''] then Err UnsupportedFeature
     else json_string v ''id'')))"

definition decoded_response ::
  "prepared_messages \<Rightarrow> response_id \<Rightarrow> u64 \<Rightarrow> terminal \<Rightarrow> string option \<Rightarrow> json list \<Rightarrow> json \<Rightarrow> json" where
  "decoded_response p rid seconds terminal reason outs metrics =
     reflect_format (pm_text_format p)
       (obj [(''id'', JString (response_id_str rid)), (''object'', JString ''response''),
         (''created_at'', json_u64 seconds), (''model'', JString (pm_model p)),
         (''status'', JString (terminal_status terminal)), (''output'', JArray (mark_items terminal outs)),
         (''error'', JNull), (''incomplete_details'', incomplete_details terminal reason), (''usage'', metrics)])"

definition messages_decode ::
  "wire_env \<Rightarrow> u64 option \<Rightarrow> prepared_messages \<Rightarrow> json \<Rightarrow> ir_error + json \<times> prepared_tools" where
  "messages_decode E now p v =
     (let managed = (pm_reasoning_controls p \<noteq> None) in
      and_then (decode_checks p v) (\<lambda>mid.
      and_then (response_id_new (''resp_'' @ mid)) (\<lambda>rid.
      and_then (event_validator_new default_limits) (\<lambda>validator.
      and_then (apply_ok (we_serde E) validator (Started rid)) (\<lambda>validator.
      and_then (ok_or (Option.bind (jget v ''content'') as_array) (InvalidField ''content'')) (\<lambda>content.
      and_then (fold_result (decode_block E managed mid)
          \<lparr>de_validator = validator, de_output = [], de_tool_count = 0, de_tools = pm_tools p\<rparr>
          (enumerate 0 content)) (\<lambda>st.
      and_then (json_string v ''stop_reason'') (\<lambda>stop.
      and_then (messages_terminal p stop (de_tool_count st)) (\<lambda>(terminal, reason).
      and_then (response_metrics managed v) (\<lambda>metrics.
      and_then (apply_all (we_serde E) (de_validator st)
          [event_ir.UsageUpdated \<lparr>input_tokens = as_u64 (json_index metrics ''input_tokens''),
              output_tokens = as_u64 (json_index metrics ''output_tokens'')\<rparr>,
           Finished terminal reason]) (\<lambda>_.
      and_then (ok_or now (InvalidField ''response_time'')) (\<lambda>seconds.
        Ok (decoded_response p rid seconds terminal reason (de_output st) metrics, de_tools st)))))))))))))"

definition messages_decode_bytes ::
  "wire_env \<Rightarrow> u64 option \<Rightarrow> prepared_messages \<Rightarrow> string \<Rightarrow> ir_error + json \<times> prepared_tools" where
  "messages_decode_bytes E now p bytes = and_then (json_decode (we_parse E) bytes) (messages_decode E now p)"

definition messages_decode_managed ::
  "wire_env \<Rightarrow> u64 option \<Rightarrow> prepared_messages \<Rightarrow> json \<Rightarrow> ir_error + managed_output" where
  "messages_decode_managed E now p v =
     and_then (known_fields v [''id'', ''type'', ''role'', ''model'', ''content'', ''stop_reason'', ''stop_sequence'', ''usage'']) (\<lambda>_.
     and_then (ok_or (pm_reasoning_controls p) UnsupportedFeature) (\<lambda>control.
     and_then (messages_decode E now p v) (\<lambda>(response, _).
       if json_index response ''status'' \<noteq> JString ''completed'' then Err InvalidEventOrder
       else and_then (ok_or (case as_array (json_index v ''content'') of
             Some (b # bs) \<Rightarrow> Some (b # bs) | _ \<Rightarrow> None) UnsupportedFeature) (\<lambda>blocks.
         Ok \<lparr>mg_response = response, mg_native = MessagesReplay 1 blocks control,
             mg_outcome = (if json_index v ''stop_reason'' = JString ''tool_use'' then AwaitingTools else OutcomeCompleted),
             mg_usage = json_index response ''usage'',
             mg_accounting = accounting_new MessagesV1 (jget v ''usage'') v usage_outcome.Completed\<rparr>))))"

section \<open>The history reaches the provider in order\<close>

text \<open>The conversation as a flat sequence of blocks, each with the role that speaks it.\<close>

definition spoken :: "wire_message list \<Rightarrow> (string \<times> json) list" where
  "spoken ms = concat (map (\<lambda>(r, blocks). map (Pair r) blocks) ms)"

lemma spoken_push_message: "spoken (push_message ms r blocks) = spoken ms @ map (Pair r) blocks"
  by (cases ms rule: rev_cases) (auto simp: push_message_def last_role_def spoken_def)

lemma roles_push_message:
  "map fst (push_message ms r blocks) =
     (if last_role ms = Some r then map fst ms else map fst ms @ [r])"
  by (cases ms rule: rev_cases) (auto simp: push_message_def last_role_def)

definition roles_ok :: "wire_message list \<Rightarrow> bool" where
  "roles_ok ms \<longleftrightarrow> distinct_adj (map fst ms) \<and> set (map fst ms) \<subseteq> {''user'', ''assistant''}"

lemma roles_ok_push: "roles_ok ms \<Longrightarrow> r \<in> {''user'', ''assistant''} \<Longrightarrow> roles_ok (push_message ms r blocks)"
  unfolding roles_ok_def roles_push_message
  by (cases ms rule: rev_cases) (auto simp: last_role_def distinct_adj_append_iff)

text \<open>What one item of the history says: the blocks of its turn, the use of a tool, or the result of a
  call made before.\<close>

definition speaker :: "message \<Rightarrow> string" where
  "speaker m = (if msg_role m = User then ''user'' else ''assistant'')"

fun item_says ::
  "wire_env \<Rightarrow> custom_tool_bridge \<Rightarrow> tool_call set \<Rightarrow> item \<Rightarrow> (string \<times> json) list \<Rightarrow> bool" where
  "item_says E registry calls (ItemMessage m) bs \<longleftrightarrow>
     (if msg_role m \<in> {System, Developer} then bs = []
      else \<exists>blocks. message_content (msg_content m) = Ok blocks \<and> bs = map (Pair (speaker m)) blocks)"
| "item_says E registry calls (ItemToolCall c) bs \<longleftrightarrow>
     (\<exists>l raw input. lower_call (we_serde E) (we_lower E) registry c = Ok l \<and> tc_input l = Json raw \<and>
        sj_parse_value (we_serde E) raw = Some input \<and> bs = [(''assistant'', tool_use_block c (tc_tool l) input)])"
| "item_says E registry calls (ItemToolResult res) bs \<longleftrightarrow>
     (\<exists>c out. c \<in> calls \<and> tc_call_id c = tr_call_id res \<and> result_text (we_serde E) registry res c = Ok out \<and>
        bs = [(''user'', tool_result_block res out)])"
| "item_says E registry calls _ bs \<longleftrightarrow> False"

lemma push_simps [simp]:
  "en_messages (push st r bs) = push_message (en_messages st) r bs"
  "en_pending (push st r bs) = en_pending st"
  "en_envelope (push st r bs) = en_envelope st"
  by (simp_all add: push_def)

lemma encode_instruction_Ok:
  assumes "encode_instruction bridge n m st = Ok st'"
  obtains e where "bridge" "en_messages st = []" "st' = st\<lparr>en_envelope := en_envelope st @ [e]\<rparr>"
  using assms by (auto simp: encode_instruction_def split: if_splits)

lemma encode_turn_Ok:
  assumes "encode_turn m st = Ok st'"
  obtains blocks where "message_content (msg_content m) = Ok blocks" "st' = push st (speaker m) blocks"
    "en_pending st = fmempty \<or> msg_role m = Assistant"
  using assms by (auto simp: encode_turn_def speaker_def split: if_splits)

lemma encode_call_Ok:
  assumes "encode_call E registry call st = Ok st'"
  obtains l raw input where "lower_call (we_serde E) (we_lower E) registry call = Ok l" "tc_input l = Json raw"
    "sj_parse_value (we_serde E) raw = Some input"
    "st' = push (st\<lparr>en_pending := fmupd (tc_call_id call) (call, False) (en_pending st)\<rparr>) ''assistant''
       [tool_use_block call (tc_tool l) input]"
proof -
  from assms obtain l where l: "lower_call (we_serde E) (we_lower E) registry call = Ok l"
    by (auto simp: encode_call_def)
  then show thesis using assms that by (cases "tc_input l") (auto simp: encode_call_def split: if_splits)
qed

lemma encode_result_Ok:
  assumes "encode_result E registry res st = Ok st'"
  obtains c native out where "fmlookup (en_pending st) (tr_call_id res) = Some (c, native)"
    "result_text (we_serde E) registry res c = Ok out"
    "st' = push (st\<lparr>en_pending := fmdrop (tr_call_id res) (en_pending st)\<rparr>) ''user'' [tool_result_block res out]"
  using assms by (auto simp: encode_result_def split: if_splits)

lemmas encode_item_elims = encode_instruction_Ok encode_turn_Ok encode_call_Ok encode_result_Ok

lemma speaker_role [simp]: "speaker m = ''user'' \<or> speaker m = ''assistant''"
  by (simp add: speaker_def)

lemma encode_item_says:
  assumes "encode_history_item E registry bridge n i st = Ok st'" and "pending_ok calls (en_pending st)" and "calls_in [i] \<subseteq> calls"
  shows "pending_ok calls (en_pending st') \<and>
    (\<exists>bs. item_says E registry calls i bs \<and> spoken (en_messages st') = spoken (en_messages st) @ bs)"
proof (cases i)
  case (ItemMessage m)
  with assms show ?thesis
    by (auto simp: spoken_push_message split: if_splits elim!: encode_item_elims)
next
  case (ItemToolCall c)
  with assms show ?thesis
    by (auto simp: calls_in_def spoken_push_message elim!: encode_item_elims)
next
  case (ItemToolResult res)
  with assms(1) have "encode_result E registry res st = Ok st'" by simp
  then show ?thesis
  proof (cases rule: encode_result_Ok)
    case (1 c native out)
    with assms(2) have "c \<in> calls \<and> tc_call_id c = tr_call_id res" by (auto simp: pending_ok_def)
    with 1 ItemToolResult assms(2) show ?thesis by (auto simp: spoken_push_message)
  qed
qed (use assms in simp_all)

lemma encode_item_roles:
  assumes "encode_history_item E registry bridge n i st = Ok st'" and "roles_ok (en_messages st)"
  shows "roles_ok (en_messages st')"
  using assms by (cases i) (auto simp: roles_ok_push split: if_splits elim!: encode_item_elims)

interpretation messages_history: history_encoder "encode_history_item E registry bridge" en_pending
    "\<lambda>st. roles_ok (en_messages st)" "\<lambda>st. spoken (en_messages st)" "item_says E registry"
proof unfold_locales
  fix n i st st' calls
  assume "encode_history_item E registry bridge n i st = Ok st'" "roles_ok (en_messages st)"
    "pending_ok calls (en_pending st)" "calls_in [i] \<subseteq> calls"
  then show "roles_ok (en_messages st') \<and> pending_ok calls (en_pending st') \<and>
    (\<exists>bs. item_says E registry calls i bs \<and> spoken (en_messages st') = spoken (en_messages st) @ bs)"
    using encode_item_roles encode_item_says by blast
next
  fix n i st st' c
  assume "encode_history_item E registry bridge n i st = Ok st'" "fmlookup (en_pending st) c \<noteq> None"
  then show "answers c i \<or> \<not> user_turn i \<and> fmlookup (en_pending st') c \<noteq> None"
    by (cases i) (auto split: if_splits elim!: encode_item_elims)
next
  fix n call st st'
  assume "encode_history_item E registry bridge n (ItemToolCall call) st = Ok st'"
  then show "fmlookup (en_pending st') (tc_call_id call) \<noteq> None" by (auto elim!: encode_item_elims)
qed

text \<open>Replayed provider state keeps the roles alternating too.\<close>

lemma encode_items_roles:
  assumes "encode_items E registry bridge history items st = Ok st'" and "roles_ok (en_messages st)"
  shows "roles_ok (en_messages st')"
  using assms unfolding encode_items_def
  by (rule walk_items_invariant [where P = "\<lambda>st. roles_ok (en_messages st)"])
    (auto simp: replay_segment_def encode_tail_def intro!: roles_ok_push dest: encode_item_roles split: if_splits)

section \<open>The payload carries the conversation\<close>

lemma payload_messages_kept:
  "fmlookup (tools_field r tools payload) ''messages'' = fmlookup payload ''messages''"
  "choice_field registry r payload = Ok p1 \<Longrightarrow> fmlookup p1 ''messages'' = fmlookup payload ''messages''"
  "fmlookup (parallel_field r payload) ''messages'' = fmlookup payload ''messages''"
  "format_field r payload = Ok (p1, tf) \<Longrightarrow> fmlookup p1 ''messages'' = fmlookup payload ''messages''"
  "effort_field managed r payload = Ok p1 \<Longrightarrow> fmlookup p1 ''messages'' = fmlookup payload ''messages''"
  "name \<noteq> ''messages'' \<Longrightarrow> sampling_field ok name v payload = Ok p1 \<Longrightarrow> fmlookup p1 ''messages'' = fmlookup payload ''messages''"
  "fmlookup (thinking_fields reasoning payload) ''messages'' = fmlookup payload ''messages''"
  by (auto simp: tools_field_def choice_field_def parallel_field_def format_field_def effort_field_def effort_put_def
      sampling_field_def thinking_fields_def Let_def split: option.splits if_splits output_format.splits)

lemma encode_with_history_Ok:
  assumes "encode_with_history E r plan history managed = Ok p"
  obtains registry st where
    "for_plan (we_serde E) (we_sha256 E) r (rs_capabilities (tp_route plan)) (tp_editing plan) True = Ok registry"
    "messages_input E registry (MessagesInstructionEnvelope \<in> set (tp_bridges plan)) history r = Ok st"
    "jget (pm_payload p) ''messages'' = Some (JArray (map wire_message_json (en_messages st)))"
    "pm_tools p = prepared_tools_new registry r"
proof -
  from assms show thesis
    by (auto simp: encode_with_history_def Let_def payload_messages_kept split: if_splits
        dest!: payload_messages_kept(2,4,5) payload_messages_kept(6) [rotated] intro!: that)
qed

text \<open>C35. A request admitted to a Messages route reaches the provider as it was: the messages of the
  payload alternate between user and assistant, and read as one sequence of blocks they are what the
  items of the history say, in their order (turns, the use of a tool under its alias with its
  arguments, results with the text of the matching call), with nothing added, dropped or reordered.\<close>

theorem messages_history_in_order:
  assumes "messages_encode_admitted E r plan = Ok p" and "req_input r = Some (ItemsInput items)"
  shows "\<exists>registry ms bss.
    for_plan (we_serde E) (we_sha256 E) r (rs_capabilities (tp_route plan)) (tp_editing plan) True = Ok registry \<and>
    jget (pm_payload p) ''messages'' = Some (JArray (map wire_message_json ms)) \<and> ms \<noteq> [] \<and> roles_ok ms \<and>
    list_all2 (item_says E registry (calls_in items)) items bss \<and> spoken ms = concat bss"
proof -
  from assms(1) obtain registry st where st:
    "for_plan (we_serde E) (we_sha256 E) r (rs_capabilities (tp_route plan)) (tp_editing plan) True = Ok registry"
    "messages_input E registry (MessagesInstructionEnvelope \<in> set (tp_bridges plan)) fmempty r = Ok st"
    "jget (pm_payload p) ''messages'' = Some (JArray (map wire_message_json (en_messages st)))"
    unfolding messages_encode_admitted_def by (rule encode_with_history_Ok)
  let ?bridge = "MessagesInstructionEnvelope \<in> set (tp_bridges plan)"
  let ?st0 = "\<lparr>en_messages = [], en_pending = fmempty, en_envelope = initial_envelope ?bridge r\<rparr>"
  from st(2) assms(2) have run: "encode_items E registry ?bridge fmempty items ?st0 = Ok st"
      and ne: "en_messages st \<noteq> []"
    by (auto simp: messages_input_def Let_def split: if_splits)
  from messages_history.walk_says [OF run [unfolded encode_items_def]] obtain bss where
    "roles_ok (en_messages st)"
    "list_all2 (item_says E registry (calls_in items)) items bss" "spoken (en_messages st) = concat bss"
    by (auto simp: spoken_def roles_ok_def)
  then show ?thesis using st ne by blast
qed

text \<open>No tool call of an encoded history stays open: behind every call, before any further
  turn of the user, stands its result.\<close>

theorem messages_calls_answered:
  assumes "messages_encode_admitted E r plan = Ok p"
  shows "all_answered (history_items r)"
proof (cases "req_input r")
  case (Some i)
  then show ?thesis
  proof (cases i)
    case (ItemsInput items)
    from assms obtain registry st where
      "messages_input E registry (MessagesInstructionEnvelope \<in> set (tp_bridges plan)) fmempty r = Ok st"
      unfolding messages_encode_admitted_def by (rule encode_with_history_Ok)
    then have "all_answered items"
      using Some ItemsInput
      by (intro messages_history.walk_all_answered) (auto simp: messages_input_def Let_def encode_items_def split: if_splits)
    with Some ItemsInput show ?thesis by (simp add: history_items_def)
  qed (simp add: history_items_def)
qed (simp add: history_items_def)

section \<open>A worked exchange\<close>

definition demo_wire_env :: wire_env where
  "demo_wire_env =
     \<lparr>we_serde = demo_serde, we_sha256 = (\<lambda>_. ''''), we_lower = (\<lambda>s. s), we_unit_interval = (\<lambda>_. True),
      we_to_two = (\<lambda>_. True), we_top_p_ok = (\<lambda>_. True), we_parse = (\<lambda>_. None)\<rparr>"

definition demo_wire_call :: tool_call where
  "demo_wire_call =
     \<lparr>tc_status = None, tc_item_id = None, tc_call_id = CallId ''c1'', tc_tool = ToolIdentity None ''arg_custom_0'',
      tc_input = Json ''{}'', tc_extensions = responses_extensions\<rparr>"

definition demo_wire_result :: tool_result where
  "demo_wire_result =
     \<lparr>tr_item_id = None, tr_call_id = CallId ''c1'', tr_kind = FunctionKind, tr_output = JString ''ok'',
      tr_extensions = responses_extensions\<rparr>"

definition demo_turn :: message where
  "demo_turn =
     \<lparr>msg_status = None, msg_id = None, msg_role = User, msg_content = ContentText ''hi'', msg_explicit_type = True,
      msg_extensions = responses_extensions\<rparr>"

definition demo_wire_items :: "item list" where
  "demo_wire_items = [ItemMessage demo_turn, ItemToolCall demo_wire_call, ItemToolResult demo_wire_result]"

definition demo_wire_request :: request_ir where
  "demo_wire_request = demo_tools_request\<lparr>req_instructions := None, req_input := Some (ItemsInput demo_wire_items)\<rparr>"

definition demo_wire_messages :: "wire_message list" where
  "demo_wire_messages =
     [(''user'', [text_block ''hi'']),
      (''assistant'', [tool_use_block demo_wire_call (ToolIdentity None ''arg_custom_0'') (JObject fmempty)]),
      (''user'', [tool_result_block demo_wire_result ''ok''])]"

lemma demo_wire_lower: "lower_call demo_serde (\<lambda>s. s) demo_bridge demo_wire_call = Ok demo_wire_call"
proof -
  have "structured_binding demo_bridge t = None" for t
    by (auto simp: structured_binding_def find_None_iff sorted_list_of_fmap_member demo_bridge_def split: if_splits)
  then show ?thesis
    by (simp add: lower_call_def original_patch_def structured_form_def binding_of_def alias_of_def lower_input_def
        moved_call_def demo_bridge_def demo_wire_call_def responses_extensions_def)
qed

lemma demo_wire_binding:
  "binding_of demo_bridge (tc_tool demo_wire_call) =
     Ok \<lparr>bi_normalize = False, bi_structured = None, bi_original = ToolIdentity None ''arg_custom_0'',
         bi_grammar = None, bi_wrapped = False\<rparr>"
  by (simp add: binding_of_def alias_of_def demo_bridge_def demo_wire_call_def)

lemma demo_wire_lower_result:
  "lower_result demo_serde (\<lambda>s. s) demo_bridge demo_wire_result demo_wire_call = Ok demo_wire_result"
  unfolding lower_result_def convert_result_def demo_wire_lower demo_wire_binding and_then_simps
  by (simp add: demo_wire_call_def demo_wire_result_def Let_def grammar_kind_def responses_extensions_def)

lemma demo_wire_for_plan: "for_plan demo_serde (\<lambda>_. '''') demo_wire_request demo_profile None True = Ok demo_bridge"
proof -
  have "top_tools demo_wire_request = top_tools demo_tools_request"
    by (simp add: demo_wire_request_def top_tools_def)
  with demo_for_plan show ?thesis by (simp add: for_plan_def with_editing_def)
qed

lemma demo_encode_call: "encode_call demo_wire_env demo_bridge demo_wire_call st =
    (if last_role (en_messages st) = Some ''user'' \<and> en_pending st \<noteq> fmempty then Err InvalidToolMapping
     else Ok (push (st\<lparr>en_pending := fmupd (CallId ''c1'') (demo_wire_call, False) (en_pending st)\<rparr>) ''assistant''
       [tool_use_block demo_wire_call (ToolIdentity None ''arg_custom_0'') (JObject fmempty)]))"
  by (simp add: encode_call_def demo_wire_env_def demo_wire_lower)
    (simp add: demo_wire_call_def demo_serde_def is_object_def)

lemma demo_encode_result:
  assumes "fmlookup (en_pending st) (CallId ''c1'') = Some (demo_wire_call, False)"
  shows "encode_result demo_wire_env demo_bridge demo_wire_result st =
    Ok (push (st\<lparr>en_pending := fmdrop (CallId ''c1'') (en_pending st)\<rparr>) ''user'' [tool_result_block demo_wire_result ''ok''])"
proof -
  have "result_text demo_serde demo_bridge demo_wire_result demo_wire_call = Ok ''ok''"
    by (simp add: result_text_def demo_bridge_def demo_wire_result_def)
  moreover have "tr_call_id demo_wire_result = CallId ''c1''" by (simp add: demo_wire_result_def)
  moreover have "we_serde demo_wire_env = demo_serde" "we_lower demo_wire_env = (\<lambda>s. s)" by (simp_all add: demo_wire_env_def)
  ultimately show ?thesis using assms by (simp add: encode_result_def demo_wire_lower_result)
qed

lemma demo_encode_input:
  "messages_input demo_wire_env demo_bridge False fmempty demo_wire_request =
     Ok \<lparr>en_messages = demo_wire_messages, en_pending = fmempty, en_envelope = []\<rparr>"
  by (simp add: messages_input_def demo_wire_request_def encode_items_def walk_items_no_history demo_wire_items_def demo_encode_call
      demo_encode_result Let_def initial_envelope_def encode_turn_def demo_turn_def push_def push_message_def
      last_role_def demo_wire_messages_def fmdrop_fmupd_same)

lemma demo_messages_encode: "is_ok (messages_encode_admitted demo_wire_env demo_wire_request demo_plan)"
proof -
  have "messages_plan_ok demo_plan False" by code_simp
  moreover have "is_ok (traverse messages_tool (br_definitions demo_bridge))" by code_simp
  then obtain tools where "traverse messages_tool (br_definitions demo_bridge) = Ok tools" by (auto simp: is_ok_iff)
  ultimately show ?thesis
    using demo_wire_for_plan demo_encode_input
    by (simp add: messages_encode_admitted_def encode_with_history_def demo_plan_def demo_route_def Let_def demo_wire_env_def
        max_tokens_of_def)
      (simp add: demo_wire_request_def demo_tools_request_def demo_generation_def choice_demands_def choice_field_def
        format_field_def effort_field_def requested_effort_def sampling_field_def demo_profile_def)
qed

theorem messages_history_in_order_witness:
  "\<exists>ms bss. roles_ok ms \<and>
     list_all2 (item_says demo_wire_env demo_bridge (calls_in demo_wire_items)) demo_wire_items bss \<and> spoken ms = concat bss"
proof -
  obtain p where p: "messages_encode_admitted demo_wire_env demo_wire_request demo_plan = Ok p"
    using demo_messages_encode by (auto simp: is_ok_iff)
  have "req_input demo_wire_request = Some (ItemsInput demo_wire_items)" by (simp add: demo_wire_request_def)
  from messages_history_in_order [OF p this] show ?thesis
    using demo_wire_for_plan by (auto simp: demo_wire_env_def demo_plan_def demo_route_def)
qed

theorem messages_calls_answered_witness: "all_answered demo_wire_items"
proof -
  obtain p where p: "messages_encode_admitted demo_wire_env demo_wire_request demo_plan = Ok p"
    using demo_messages_encode by (auto simp: is_ok_iff)
  from messages_calls_answered [OF p] show ?thesis by (simp add: history_items_def demo_wire_request_def)
qed

section \<open>What a decoded response shows\<close>

definition output_text :: "json \<Rightarrow> string option" where
  "output_text out =
     (case as_array (json_index out ''content'') of Some [part] \<Rightarrow> str_at part ''text'' | _ \<Rightarrow> None)"

text \<open>A block of the provider and the output item it becomes: a text block is a message with its text; a
  tool use is a call with the same call identifier, of the tool the alias was issued for, with its
  arguments; a thinking block is a reasoning item with its text as summary.\<close>

definition shown_summary :: "json \<Rightarrow> string option" where
  "shown_summary out =
     (case as_array (json_index out ''summary'') of Some [part] \<Rightarrow> str_at part ''text'' | _ \<Rightarrow> None)"

definition block_shown :: "wire_env \<Rightarrow> prepared_tools \<Rightarrow> json \<Rightarrow> json \<Rightarrow> bool" where
  "block_shown E tools block out \<longleftrightarrow>
     (str_at block ''type'' = Some ''text'' \<and> str_at out ''type'' = Some ''message'' \<and>
        str_at block ''text'' \<noteq> None \<and> output_text out = str_at block ''text'' \<or>
      str_at block ''type'' = Some ''thinking'' \<and> str_at out ''type'' = Some ''reasoning'' \<and>
        str_at block ''thinking'' \<noteq> None \<and> shown_summary out = str_at block ''thinking'' \<or>
      str_at block ''type'' = Some ''tool_use'' \<and> str_at out ''type'' \<in> {Some ''function_call'', Some ''custom_tool_call''} \<and>
        str_at out ''call_id'' = str_at block ''id'' \<and>
        (\<exists>alias t kind. str_at block ''name'' = Some alias \<and> resolve tools alias = Ok (t, kind) \<and>
           str_at out ''name'' = Some (tool_name t) \<and> str_at out ''namespace'' = namespace t \<and>
           (\<exists>input. jget block ''input'' = Some input \<and>
              arguments_shown E tools alias (sj_value (we_serde E) input) out)))"

text \<open>With reasoning controls, redacted thinking and thinking without a text stay with the provider; without
  them a message with a thinking block is refused.\<close>

definition hidden_block :: "bool \<Rightarrow> json \<Rightarrow> bool" where
  "hidden_block managed block \<longleftrightarrow>
     managed \<and> (str_at block ''type'' = Some ''redacted_thinking'' \<or>
                str_at block ''type'' = Some ''thinking'' \<and> str_at block ''thinking'' = Some [])"

lemma output_message_fields:
  "str_at (output_message item t) ''type'' = Some ''message''"
  "output_text (output_message item t) = Some t"
  by (simp_all add: output_message_def output_text_def str_at_def json_index_def jget_obj)

lemma output_text_set_field [simp]: "k \<noteq> ''content'' \<Longrightarrow> output_text (set_field out k x) = output_text out"
  by (simp add: output_text_def json_index_def jget_set_field)

lemma shown_summary_set_field [simp]: "k \<noteq> ''summary'' \<Longrightarrow> shown_summary (set_field out k x) = shown_summary out"
  by (simp add: shown_summary_def json_index_def jget_set_field)

lemma public_reasoning_fields:
  "str_at (public_reasoning i t) ''type'' = Some ''reasoning''" "shown_summary (public_reasoning i t) = Some t"
  by (simp_all add: public_reasoning_def shown_summary_def str_at_def json_index_def jget_obj)

lemma block_shown_set_status: "block_shown E tools b (set_field out ''status'' x) = block_shown E tools b out"
  by (simp add: block_shown_def arguments_shown_set_status)

lemma call_id_new_text: "call_id_new s = Ok c \<Longrightarrow> call_id_str c = s"
  by (auto simp: call_id_new_def split: if_splits)

lemma emit_item_Ok:
  "emit_item E item events out st = Ok st' \<Longrightarrow>
     de_output st' = de_output st @ [out] \<and> de_tools st' = de_tools st \<and> de_tool_count st' = de_tool_count st"
  by (auto simp: emit_item_def)

lemma decode_text_shown:
  assumes "decode_text E item index b st = Ok st'" and "str_at b ''type'' = Some ''text''"
  shows "de_tools st' = de_tools st \<and> (\<exists>out. de_output st' = de_output st @ [out] \<and> block_shown E tools b out)"
  using assms
  by (auto simp: decode_text_def json_string_def block_shown_def output_message_fields split: if_splits dest!: emit_item_Ok)

lemma decode_thinking_shown:
  assumes "decode_thinking E item index b st = Ok st'" and "str_at b ''type'' = Some ''thinking''"
  shows "de_tools st' = de_tools st \<and>
    (if str_at b ''thinking'' = Some [] then de_output st' = de_output st
     else \<exists>out. de_output st' = de_output st @ [out] \<and> block_shown E tools b out)"
  using assms
  by (auto simp: decode_thinking_def json_string_def block_shown_def public_reasoning_fields split: if_splits dest!: emit_item_Ok)

lemma decode_redacted_shown: "decode_redacted b st = Ok st' \<Longrightarrow> st' = st"
  by (auto simp: decode_redacted_def split: if_splits)

lemma decode_tool_shown:
  assumes "decode_tool_use E item index b st = Ok st'" and "str_at b ''type'' = Some ''tool_use''"
    and "same_tools tools (de_tools st)"
  shows "same_tools tools (de_tools st') \<and> (\<exists>out. de_output st' = de_output st @ [out] \<and> block_shown E tools b out)"
proof -
  from assms(1) obtain name raw_id cid input call tools' where c: "str_at b ''name'' = Some name" "str_at b ''id'' = Some raw_id"
      "call_id_new raw_id = Ok cid" "jget b ''input'' = Some input"
      "restore_tool (we_serde E) (we_lower E) (de_tools st) name cid item (sj_value (we_serde E) input) = Ok (call, tools')"
      "de_output st' = de_output st @ [tool_output call ''completed'']" "de_tools st' = tools'"
    by (auto simp: decode_tool_use_def json_string_def split: option.splits if_splits dest!: emit_item_Ok)
  from restore_tool_Ok [OF c(5)] obtain kind' where r: "resolve tools name = Ok (tc_tool call, kind')" "tc_call_id call = cid"
      "same_tools tools tools'"
    using assms(3) resolve_same same_tools_trans by metis
  then have "block_shown E tools b (tool_output call ''completed'')"
    using assms(2) c(1-4) tool_output_arguments [OF c(5) assms(3)]
    by (auto simp: block_shown_def tool_output_fields call_id_new_text split: tool_input.split)
  with c r show ?thesis by blast
qed

lemma decode_block_shown:
  assumes "decode_block E managed mid st (n, b) = Ok st'" and "same_tools tools (de_tools st)"
  shows "same_tools tools (de_tools st') \<and>
    (if hidden_block managed b then de_output st' = de_output st
     else \<exists>out. de_output st' = de_output st @ [out] \<and> block_shown E tools b out)"
proof -
  from assms(1) obtain item kind index where kind: "str_at b ''type'' = Some kind"
    and step: "(if kind = ''redacted_thinking'' \<and> managed then decode_redacted b st
      else if kind = ''thinking'' \<and> managed then decode_thinking E item index b st
      else if kind = ''text'' then decode_text E item index b st
      else if kind = ''tool_use'' then decode_tool_use E item index b st
      else Err UnsupportedFeature) = Ok st'"
    by (auto simp: decode_block_def Let_def json_string_def split: if_splits)
  then consider
    (redacted) "managed" "str_at b ''type'' = Some ''redacted_thinking''" "decode_redacted b st = Ok st'"
  | (thinking) "managed" "str_at b ''type'' = Some ''thinking''" "decode_thinking E item index b st = Ok st'"
  | (words) "str_at b ''type'' = Some ''text''" "decode_text E item index b st = Ok st'"
  | (tool) "str_at b ''type'' = Some ''tool_use''" "decode_tool_use E item index b st = Ok st'"
    by (auto split: if_splits)
  then show ?thesis
  proof cases
    case redacted
    with decode_redacted_shown [OF redacted(3)] assms(2) show ?thesis by (simp add: hidden_block_def)
  next
    case thinking
    with decode_thinking_shown [OF thinking(3,2), of tools] assms(2) show ?thesis by (simp add: hidden_block_def)
  next
    case words
    with decode_text_shown [OF words(2,1), of tools] assms(2) show ?thesis by (simp add: hidden_block_def)
  next
    case tool
    with decode_tool_shown [OF tool(2,1) assms(2)] show ?thesis by (simp add: hidden_block_def)
  qed
qed

lemma decode_blocks_shown:
  assumes "fold_result (decode_block E managed mid) st (enumerate n bs) = Ok st'" and "same_tools tools (de_tools st)"
  shows "\<exists>outs. de_output st' = de_output st @ outs \<and>
    list_all2 (block_shown E tools) (filter (\<lambda>b. \<not> hidden_block managed b) bs) outs"
  using assms
proof (induction bs arbitrary: n st)
  case (Cons b bs)
  then obtain st1 where s: "decode_block E managed mid st (n, b) = Ok st1"
      "fold_result (decode_block E managed mid) st1 (enumerate (Suc n) bs) = Ok st'"
    by auto
  note shown = decode_block_shown [OF s(1) Cons.prems(2)]
  with Cons.IH [OF s(2)] obtain outs where
    outs: "de_output st' = de_output st1 @ outs" "list_all2 (block_shown E tools) (filter (\<lambda>b. \<not> hidden_block managed b) bs) outs"
    by blast
  show ?case
  proof (cases "hidden_block managed b")
    case True
    with shown outs show ?thesis by auto
  next
    case False
    with shown obtain out where "de_output st1 = de_output st @ [out]" "block_shown E tools b out" by auto
    with False outs show ?thesis by (intro exI [of _ "out # outs"]) simp
  qed
qed simp

lemma jget_reflect_format: "k \<noteq> ''text'' \<Longrightarrow> jget (reflect_format f v) k = jget v k"
  by (simp add: reflect_format_def jget_set_field split: option.split)

text \<open>C37. A decoded provider message shows every block once and in order: each text block as a message with
  exactly its text, each tool use as a call of the client's own tool with the provider's call
  identifier and its input as arguments, and, with reasoning controls, each thinking block as a reasoning
  item with exactly its text. Left out are only redacted and empty thinking blocks, and only with
  reasoning controls. The response is completed unless the provider stopped at the token limit.\<close>

theorem messages_response_faithful:
  assumes "messages_decode E now p v = Ok (response, tools)"
  shows "\<exists>blocks outs. jget v ''content'' = Some (JArray blocks) \<and> jget response ''output'' = Some (JArray outs) \<and>
    list_all2 (block_shown E (pm_tools p))
      (filter (\<lambda>b. \<not> hidden_block (pm_reasoning_controls p \<noteq> None) b) blocks) outs \<and>
    str_at response ''status'' =
      Some (if str_at v ''stop_reason'' = Some ''max_tokens'' then ''incomplete'' else ''completed'')"
proof -
  let ?managed = "pm_reasoning_controls p \<noteq> None"
  from assms obtain mid blocks st val stop terminal reason metrics rid seconds where d:
    "Option.bind (jget v ''content'') as_array = Some blocks"
    "fold_result (decode_block E ?managed mid) \<lparr>de_validator = val, de_output = [], de_tool_count = 0, de_tools = pm_tools p\<rparr>
       (enumerate 0 blocks) = Ok st"
    "str_at v ''stop_reason'' = Some stop" "messages_terminal p stop (de_tool_count st) = Ok (terminal, reason)"
    "response = decoded_response p rid seconds terminal reason (de_output st) metrics"
    by (auto simp: messages_decode_def json_string_def Let_def)
  let ?shown = "filter (\<lambda>b. \<not> hidden_block ?managed b) blocks"
  from decode_blocks_shown [OF d(2), of "pm_tools p"] have "list_all2 (block_shown E (pm_tools p)) ?shown (de_output st)"
    by simp
  then have "list_all2 (block_shown E (pm_tools p)) ?shown (mark_items terminal (de_output st))"
    by (simp add: mark_items_def list.rel_map block_shown_set_status)
  moreover have "jget v ''content'' = Some (JArray blocks)"
    using d(1) by (cases "jget v ''content''") (auto elim: as_array.elims)
  moreover have "terminal_status terminal = (if stop = ''max_tokens'' then ''incomplete'' else ''completed'')"
    using d(4) by (auto simp: messages_terminal_def terminal_status_def split: if_splits)
  ultimately show ?thesis
    using d(3,5) by (intro exI [of _ blocks] exI [of _ "mark_items terminal (de_output st)"])
      (simp add: decoded_response_def jget_reflect_format jget_obj str_at_def)
qed

definition demo_prepared :: prepared_messages where
  "demo_prepared =
     \<lparr>pm_payload = JNull, pm_model = ''m'', pm_tools = prepared_tools_new demo_bridge demo_wire_request,
      pm_text_format = None, pm_reasoning_controls = None\<rparr>"

definition demo_block :: json where "demo_block = text_block ''hi''"

definition demo_message :: json where
  "demo_message =
     obj [(''type'', JString ''message''), (''role'', JString ''assistant''), (''model'', JString ''m''), (''id'', JString ''x''),
       (''content'', JArray [demo_block]), (''stop_reason'', JString ''end_turn''),
       (''usage'', obj [(''input_tokens'', JNumber ''3''), (''output_tokens'', JNumber ''4'')])]"

lemma demo_ids:
  "response_id_new ''resp_x'' = Ok (ResponseId ''resp_x'')"
  "item_id_new (''item_'' @ ''x'' @ ''_'' @ nat_text 0) = Ok (ItemId ''item_x_0'')"
  by code_simp+

lemmas demo_event_eval =
  event_validator_new_def default_limits_def apply_all_def apply_ok_def text_events_def event_text_chunks_short
  apply_event_def event_handler_defs insert_item_def any_value_iff

lemma demo_usage: "messages_usage (obj [(''input_tokens'', JNumber ''3''), (''output_tokens'', JNumber ''4'')]) = Ok (3, 4, 7)"
  by (simp add: messages_usage_def usage_number_def add_usage_field_def jget_obj parse_u64_def is_ascii_digit_def
      checked_add_def)

lemma demo_messages_decode: "is_ok (messages_decode demo_wire_env (Some 0) demo_prepared demo_message)"
proof -
  have checks: "decode_checks demo_prepared demo_message = Ok ''x''" by code_simp
  have content: "Option.bind (jget demo_message ''content'') as_array = Some [demo_block]" by code_simp
  have stop: "json_string demo_message ''stop_reason'' = Ok ''end_turn''" by code_simp
  have ends: "messages_terminal demo_prepared ''end_turn'' 0 = Ok (terminal.Completed, None)"
    by (simp add: messages_terminal_def validate_count_def demo_prepared_def prepared_tools_new_def demo_wire_request_def
        demo_tools_request_def demo_generation_def choice_demands_def)
  have metrics: "is_ok (response_metrics False demo_message)"
    using demo_usage by (simp add: response_metrics_def projected_usage_def demo_message_def jget_obj)
  have block: "json_string demo_block ''type'' = Ok ''text''" "known_fields demo_block [''type'', ''text'', ''citations''] = Ok ()"
    "cited demo_block = False" "json_string demo_block ''text'' = Ok ''hi''"
    by code_simp+
  have ids: "response_id_new (''resp_'' @ ''x'') = Ok (ResponseId ''resp_x'')" using demo_ids(1) by simp
  from metrics obtain m where m: "response_metrics False demo_message = Ok m" by (auto simp: is_ok_iff)
  have plain: "(pm_reasoning_controls demo_prepared \<noteq> None) = False" by (simp add: demo_prepared_def)
  show ?thesis
    unfolding messages_decode_def Let_def plain checks and_then_simps ids content ok_or_simps stop
    using demo_ids(2)
    by (simp add: item_id_new_def decode_block_def block decode_text_def emit_item_def demo_event_eval ends m Let_def)
qed

theorem messages_response_faithful_witness:
  "\<exists>response tools out. messages_decode demo_wire_env (Some 0) demo_prepared demo_message = Ok (response, tools) \<and>
     jget response ''output'' = Some (JArray [out]) \<and> output_text out = Some ''hi''"
proof -
  obtain response tools where r: "messages_decode demo_wire_env (Some 0) demo_prepared demo_message = Ok (response, tools)"
    using demo_messages_decode by (auto simp: is_ok_iff)
  have content: "jget demo_message ''content'' = Some (JArray [demo_block])" by code_simp
  have fields: "str_at demo_block ''type'' = Some ''text''" "str_at demo_block ''text'' = Some ''hi''" by code_simp+
  have "pm_reasoning_controls demo_prepared = None" by (simp add: demo_prepared_def)
  with messages_response_faithful [OF r] content fields r show ?thesis
    by (auto simp: list_all2_Cons1 block_shown_def hidden_block_def)
qed

section \<open>Token counts\<close>

definition count_at :: "json \<Rightarrow> string \<Rightarrow> nat" where
  "count_at u field = (case Option.bind (jget u field) as_u64 of Some n \<Rightarrow> unat n | None \<Rightarrow> 0)"

lemma add_usage_field_Ok: "add_usage_field u n field = Ok m \<Longrightarrow> unat m = unat n + count_at u field"
  by (auto simp: add_usage_field_def usage_number_def count_at_def checked_add_Some split: if_splits)

text \<open>The token counts of a Messages response are exact: the input is the sum of the uncached, cached
  and newly cached tokens and the total adds the output; a sum beyond 64 bits is an error, never a
  wrapped count.\<close>

theorem messages_usage_exact:
  assumes "messages_usage u = Ok (input, generated, all_tokens)"
  shows "unat input = count_at u ''input_tokens'' + count_at u ''cache_read_input_tokens'' + count_at u ''cache_creation_input_tokens'' \<and>
    unat generated = count_at u ''output_tokens'' \<and> unat all_tokens = unat input + unat generated"
  using assms
  by (auto simp: messages_usage_def usage_number_def checked_add_Some count_at_def dest!: add_usage_field_Ok)

theorem messages_usage_exact_witness:
  "messages_usage (obj [(''input_tokens'', JNumber ''3''), (''output_tokens'', JNumber ''4'')]) = Ok (3, 4, 7) \<and>
   unat (7 :: u64) = unat (3 :: u64) + unat (4 :: u64)"
  using messages_usage_exact [OF demo_usage] demo_usage by simp

end
