(* ===== verification/Wire_Stream.thy ===== *)
theory Wire_Stream
  imports Adapter_Tools Sse
begin

text \<open>
  The contract every incremental decoder keeps towards the HTTP front end (\<open>ActiveStream\<close> of
  \<open>src/src/adapters/mod.rs\<close> calls them all the same way): a stream that failed or finished takes nothing
  more, a failure is final and never counts as completion, every input keeps an invariant that relates the
  stream to the events it has let out, and those events carry consecutive sequence numbers.
\<close>

definition sequence_of :: "json \<Rightarrow> u64 option" where
  "sequence_of e = Option.bind (jget e ''sequence_number'') as_u64"

definition numbers_from :: "u64 \<Rightarrow> nat \<Rightarrow> u64 option list" where
  "numbers_from n k = map (\<lambda>i. Some (n + of_nat i)) [0..<k]"

lemma numbers_from_add: "numbers_from n (j + k) = numbers_from n j @ numbers_from (n + of_nat j) k"
  by (induction k) (simp_all add: numbers_from_def add.assoc)

section \<open>Events\<close>

text \<open>\<open>emit\<close> puts the kind and the sequence number into an event.\<close>

definition numbered :: "string \<Rightarrow> u64 \<Rightarrow> json \<Rightarrow> json" where
  "numbered kind n event = set_field (set_field event ''type'' (JString kind)) ''sequence_number'' (json_u64 n)"

definition at_item :: "item_id \<Rightarrow> nat \<Rightarrow> (string \<times> json) list \<Rightarrow> json" where
  "at_item item i fs = obj ([(''item_id'', JString (item_id_str item)), (''output_index'', JNumber (nat_text i))] @ fs)"

definition content_zero :: "string \<times> json" where
  "content_zero = (''content_index'', JNumber ''0'')"

definition empty_part :: json where
  "empty_part = obj [(''type'', JString ''output_text''), (''text'', JString []), (''annotations'', JArray [])]"

definition text_delta_event :: "item_id \<Rightarrow> nat \<Rightarrow> string \<Rightarrow> json" where
  "text_delta_event item i t = at_item item i [content_zero, (''delta'', JString t), (''logprobs'', JArray [])]"

lemma sequence_of_numbered: "is_object e \<Longrightarrow> sequence_of (numbered kind n e) = Some n"
  by (cases e) (simp_all add: sequence_of_def numbered_def is_object_def json_u64_def)

lemma numbered_type: "is_object e \<Longrightarrow> str_at (numbered kind n e) ''type'' = Some kind"
  by (cases e) (simp_all add: numbered_def is_object_def str_at_def)

lemma numbered_field: "k \<noteq> ''type'' \<Longrightarrow> k \<noteq> ''sequence_number'' \<Longrightarrow> jget (numbered kind n e) k = jget e k"
  by (simp add: numbered_def jget_set_field)

lemma at_item_object [simp]: "is_object (at_item item i fs)"
  by (simp add: at_item_def)

lemma nat_text_eq [simp]: "nat_text m = nat_text n \<longleftrightarrow> m = n"
  by (metis digits_value_nat_text option.inject)

text \<open>The text deltas of output item \<open>i\<close> among a list of events, concatenated: what a client accumulates.\<close>

definition delta_at :: "nat \<Rightarrow> json \<Rightarrow> string" where
  "delta_at i e =
     (if str_at e ''type'' = Some ''response.output_text.delta'' \<and> jget e ''output_index'' = Some (JNumber (nat_text i))
      then (case str_at e ''delta'' of Some t \<Rightarrow> t | None \<Rightarrow> []) else [])"

definition text_of :: "nat \<Rightarrow> json list \<Rightarrow> string" where
  "text_of i out = concat (map (delta_at i) out)"

lemma text_of_append [simp]: "text_of i (a @ b) = text_of i a @ text_of i b"
  by (simp add: text_of_def)

lemma text_of_Nil [simp]: "text_of i [] = []"
  by (simp add: text_of_def)

lemma text_of_single [simp]: "text_of i [e] = delta_at i e"
  by (simp add: text_of_def)

lemma delta_at_other: "is_object e \<Longrightarrow> kind \<noteq> ''response.output_text.delta'' \<Longrightarrow> delta_at i (numbered kind n e) = []"
  by (simp add: delta_at_def numbered_type)

lemma delta_at_text_delta:
  "delta_at j (numbered ''response.output_text.delta'' n (text_delta_event item i t)) = (if j = i then t else [])"
proof -
  have "is_object (text_delta_event item i t)" by (simp add: text_delta_event_def)
  moreover have "jget (text_delta_event item i t) ''output_index'' = Some (JNumber (nat_text i))"
    "jget (text_delta_event item i t) ''delta'' = Some (JString t)"
    by (simp_all add: text_delta_event_def at_item_def jget_obj content_zero_def)
  ultimately show ?thesis
    by (auto simp: delta_at_def numbered_type numbered_field str_at_def [of _ "''delta''"])
qed

section \<open>The contract\<close>

text \<open>The events a run has let out.\<close>

definition emitted :: "(ir_error + json list) list \<Rightarrow> json list" where
  "emitted outs = concat (map (\<lambda>r. case r of Inr out \<Rightarrow> out | Inl _ \<Rightarrow> []) outs)"

lemma emitted_simps [simp]:
  "emitted [] = []" "emitted (Inr out # outs) = out @ emitted outs" "emitted (Inl e # outs) = emitted outs"
  by (simp_all add: emitted_def)

locale wire_stream =
  fixes event :: "'s \<Rightarrow> 'e \<Rightarrow> (ir_error + json list) \<times> 's"
    and live :: "'s \<Rightarrow> bool"
    and complete :: "'s \<Rightarrow> bool"
    and clock :: "'s \<Rightarrow> u64"
    and inv :: "json list \<Rightarrow> 's \<Rightarrow> bool" \<comment> \<open>what holds of the stream once these events were let out\<close>
  assumes dead: "\<not> live st \<Longrightarrow> event st e = (Err InvalidEventOrder, st)"
    and gives_up: "live st \<Longrightarrow> event st e = (Err x, st') \<Longrightarrow> \<not> live st' \<and> \<not> complete st'"
    and keeps: "event st e = (r, st') \<Longrightarrow> inv seen st \<Longrightarrow> inv (seen @ emitted [r]) st'"
    and numbers: "event st e = (Ok out, st') \<Longrightarrow> inv seen st \<Longrightarrow>
      map sequence_of out = numbers_from (clock st) (length out) \<and> clock st' = clock st + of_nat (length out)"
begin

lemma dead_run: "\<not> live st \<Longrightarrow> run_machine event st es = (replicate (length es) (Err InvalidEventOrder), st)"
  by (induction es) (simp_all add: dead)

lemma emitted_dead: "emitted (replicate n (Err InvalidEventOrder)) = []"
  by (induction n) simp_all

lemma run_inv:
  assumes "run_machine event st es = (outs, st')" and "inv seen st"
  shows "inv (seen @ emitted outs) st'"
  using assms
proof (induction es arbitrary: st outs seen)
  case (Cons e es)
  obtain r st1 where one: "event st e = (r, st1)" by (cases "event st e")
  obtain rest where rest: "run_machine event st1 es = (rest, st')" "outs = r # rest"
    using Cons.prems one by (auto simp: Let_def split: prod.splits)
  from Cons.IH [OF rest(1) keeps [OF one Cons.prems(2)]] have "inv ((seen @ emitted [r]) @ emitted rest) st'" .
  moreover have "emitted outs = emitted [r] @ emitted rest" by (simp add: rest(2) emitted_def)
  ultimately show ?case by simp
qed simp

lemma run_numbers:
  assumes "run_machine event st es = (outs, st')" and "inv seen st"
  shows "map sequence_of (emitted outs) = numbers_from (clock st) (length (emitted outs))"
  using assms
proof (induction es arbitrary: st outs seen)
  case (Cons e es)
  obtain r st1 where one: "event st e = (r, st1)" by (cases "event st e")
  obtain rest where rest: "run_machine event st1 es = (rest, st')" "outs = r # rest"
    using Cons.prems one by (auto simp: Let_def split: prod.splits)
  show ?case
  proof (cases r)
    case (Inr out)
    with one numbers [of st e out st1 seen] Cons.prems(2) Cons.IH [OF rest(1) keeps [OF one Cons.prems(2)]] rest(2) show ?thesis
      by (simp add: numbers_from_add)
  next
    case (Inl x)
    have "\<not> live st1" using one Inl gives_up dead by (cases "live st") auto
    then have "rest = replicate (length es) (Err InvalidEventOrder)" using dead_run rest(1) by simp
    with rest(2) Inl show ?thesis by (simp add: emitted_dead numbers_from_def)
  qed
qed (simp add: numbers_from_def)

lemma complete_run:
  assumes "run_machine event st es = (outs, st')" and "live st" and "complete st'"
  shows "\<exists>n. list_all is_ok (take n outs) \<and> drop n outs = replicate (length outs - n) (Err InvalidEventOrder)"
  using assms
proof (induction es arbitrary: st outs)
  case (Cons e es)
  obtain r st1 where one: "event st e = (r, st1)" by (cases "event st e")
  obtain rest where rest: "run_machine event st1 es = (rest, st')" "outs = r # rest"
    using Cons.prems one by (auto simp: Let_def split: prod.splits)
  show ?case
  proof (cases r)
    case (Inr out)
    show ?thesis
    proof (cases "live st1")
      case True
      from Cons.IH [OF rest(1) True Cons.prems(3)] obtain n where
        "list_all is_ok (take n rest) \<and> drop n rest = replicate (length rest - n) (Err InvalidEventOrder)" by blast
      with Inr rest(2) show ?thesis by (intro exI [of _ "Suc n"]) simp
    next
      case False
      then have "rest = replicate (length es) (Err InvalidEventOrder)" using dead_run rest(1) by simp
      with Inr rest(2) show ?thesis by (intro exI [of _ 1]) simp
    qed
  next
    case (Inl x)
    with one gives_up [OF Cons.prems(2)] have "\<not> live st1 \<and> \<not> complete st1" by simp
    then show ?thesis using dead_run [of st1 es] rest(1) Cons.prems(3) by simp
  qed
qed simp

end

end
