(* ===== verification/Messages_Stream.thy ===== *)
theory Messages_Stream
  imports Messages_Adapter Wire_Stream "HOL-Library.Code_Target_Nat"
begin

text \<open>
  The incremental Messages decoder, \<open>src/src/adapters/messages/stream.rs\<close>: server-sent events of the
  provider become numbered Responses events. \<open>convert\<close> works on the state and the events emitted so far
  and gives up with an error; a stream that gave up is only marked as failed, and every later call looks
  at that mark alone, so the rest of the state it leaves is the state before the event.
\<close>

section \<open>State\<close>

datatype block_kind = TextBlock | ToolBlock string call_id tool_kind string

record stream_block =
  sb_id :: item_id
  sb_open :: bool
  sb_kind :: block_kind
  sb_output :: json

record messages_stream =
  ms_prepared :: prepared_messages
  ms_validator :: event_validator
  ms_response :: "json option"
  ms_blocks :: "stream_block list"
  ms_stop :: "string option"
  ms_usage :: json
  ms_sequence :: u64
  ms_buffered :: nat
  ms_limit :: nat
  ms_failed :: bool
  ms_done :: bool

definition messages_stream_new :: "prepared_messages \<Rightarrow> nat \<Rightarrow> ir_error + messages_stream" where
  "messages_stream_new p limit =
     (if limit = 0 then Err SizeLimit
      else and_then (event_validator_new default_limits) (\<lambda>v.
        Ok \<lparr>ms_prepared = p, ms_validator = v, ms_response = None, ms_blocks = [], ms_stop = None, ms_usage = JNull,
            ms_sequence = 0, ms_buffered = 0, ms_limit = limit, ms_failed = False, ms_done = False\<rparr>))"

text \<open>The stream and the events it has emitted for the current input.\<close>

type_synonym emitting = "messages_stream \<times> json list"

definition stream_emit :: "string \<Rightarrow> json \<Rightarrow> emitting \<Rightarrow> emitting" where
  "stream_emit kind event = (\<lambda>(st, out).
     (st\<lparr>ms_sequence := ms_sequence st + 1\<rparr>, out @ [numbered kind (ms_sequence st) event]))"

definition stream_reserve :: "nat \<Rightarrow> messages_stream \<Rightarrow> ir_error + messages_stream" where
  "stream_reserve n st =
     (if n > ms_limit st - ms_buffered st then Err SizeLimit else Ok (st\<lparr>ms_buffered := ms_buffered st + n\<rparr>))"

definition stream_apply :: "wire_env \<Rightarrow> event_ir \<Rightarrow> messages_stream \<Rightarrow> ir_error + messages_stream" where
  "stream_apply E event st =
     and_then (apply_ok (we_serde E) (ms_validator st) event) (\<lambda>v. Ok (st\<lparr>ms_validator := v\<rparr>))"

definition is_tool_block :: "stream_block \<Rightarrow> bool" where
  "is_tool_block b = (case sb_kind b of ToolBlock _ _ _ _ \<Rightarrow> True | TextBlock \<Rightarrow> False)"

definition stream_tool_count :: "messages_stream \<Rightarrow> nat" where
  "stream_tool_count st = length (filter is_tool_block (ms_blocks st))"

definition index_field :: "json \<Rightarrow> ir_error + nat" where
  "index_field v = and_then (ok_or (Option.bind (jget v ''index'') as_u64) (InvalidField ''index'')) (\<lambda>n. Ok (unat n))"

definition update_block :: "nat \<Rightarrow> (stream_block \<Rightarrow> stream_block) \<Rightarrow> messages_stream \<Rightarrow> messages_stream" where
  "update_block i f st = st\<lparr>ms_blocks := (ms_blocks st)[i := f (ms_blocks st ! i)]\<rparr>"

text \<open>\<open>block.output["content"][0]["text"].push_str(text)\<close>.\<close>

fun push_text :: "string \<Rightarrow> json \<Rightarrow> json" where
  "push_text t (JObject m) =
     (case fmlookup m ''content'' of
        Some (JArray (part # parts)) \<Rightarrow>
          JObject (fmupd ''content''
            (JArray (set_field part ''text'' (JString ((case str_at part ''text'' of Some s \<Rightarrow> s | None \<Rightarrow> []) @ t)) # parts)) m)
      | _ \<Rightarrow> JObject m)"
| "push_text t v = v"

definition stream_text_delta :: "wire_env \<Rightarrow> nat \<Rightarrow> string \<Rightarrow> emitting \<Rightarrow> ir_error + emitting" where
  "stream_text_delta E i t = (\<lambda>(st, out).
     and_then (stream_reserve (length t) st) (\<lambda>st.
     let item = sb_id (ms_blocks st ! i) in
     and_then (stream_apply E (TextDelta item 0 t) st) (\<lambda>st.
       let st = update_block i (\<lambda>b. b\<lparr>sb_output := push_text t (sb_output b)\<rparr>) st in
       Ok (if t \<noteq> [] then
             stream_emit ''response.output_text.delta''
               (at_item item i [content_zero, (''delta'', JString t), (''logprobs'', JArray [])]) (st, out)
           else (st, out)))))"

section \<open>The events of the provider\<close>

definition start_checks :: "messages_stream \<Rightarrow> json \<Rightarrow> ir_error + unit" where
  "start_checks st message =
     and_then (json_string message ''type'') (\<lambda>kind.
     if kind \<noteq> ''message'' then Err (InvalidField ''message_start'') else
     and_then (json_string message ''role'') (\<lambda>r.
     if r \<noteq> ''assistant'' then Err (InvalidField ''message_start'') else
     and_then (json_string message ''model'') (\<lambda>model.
     if model \<noteq> pm_model (ms_prepared st) \<or> Option.bind (jget message ''content'') as_array \<noteq> Some [] \<or>
        present message ''stop_reason''
     then Err (InvalidField ''message_start'')
     else if list_ex (present message) [''container'', ''context_management'', ''stop_details''] then Err UnsupportedFeature
     else Ok ())))"

definition created_response :: "prepared_messages \<Rightarrow> response_id \<Rightarrow> u64 \<Rightarrow> json" where
  "created_response p rid seconds =
     reflect_format (pm_text_format p)
       (obj [(''id'', JString (response_id_str rid)), (''object'', JString ''response''), (''status'', JString ''in_progress''),
         (''model'', JString (pm_model p)), (''created_at'', json_u64 seconds), (''output'', JArray []),
         (''error'', JNull), (''incomplete_details'', JNull), (''usage'', JNull)])"

definition on_message_start :: "wire_env \<Rightarrow> u64 option \<Rightarrow> json \<Rightarrow> emitting \<Rightarrow> ir_error + emitting" where
  "on_message_start E now v = (\<lambda>(st, out).
     and_then (known_fields v [''type'', ''message'']) (\<lambda>_.
     if ms_response st \<noteq> None then Err InvalidEventOrder else
     and_then (ok_or (jget v ''message'') (InvalidField ''message'')) (\<lambda>message.
     and_then (start_checks st message) (\<lambda>_.
     and_then (json_string message ''id'') (\<lambda>mid.
     and_then (response_id_new (''resp_'' @ mid)) (\<lambda>rid.
     and_then (ok_or (jget message ''usage'') (InvalidField ''usage'')) (\<lambda>u.
     and_then (messages_usage u) (\<lambda>(input, generated, _).
     and_then (stream_apply E (Started rid) (st\<lparr>ms_usage := u\<rparr>)) (\<lambda>st.
     and_then (stream_apply E (event_ir.UsageUpdated \<lparr>input_tokens = Some input, output_tokens = Some generated\<rparr>) st) (\<lambda>st.
     and_then (ok_or now (InvalidField ''response_time'')) (\<lambda>seconds.
       let response = created_response (ms_prepared st) rid seconds in
       Ok (stream_emit ''response.created'' (obj [(''response'', response)]) (st\<lparr>ms_response := Some response\<rparr>, out)))))))))))))"

text \<open>The identifier of the provider message, read back from the response.\<close>

definition stream_message_id :: "messages_stream \<Rightarrow> string" where
  "stream_message_id st =
     (case Option.bind (ms_response st) (\<lambda>r. str_at r ''id'') of Some s \<Rightarrow> drop 5 s | None \<Rightarrow> [])"

definition open_text :: "item_id \<Rightarrow> json \<Rightarrow> ir_error + block_kind \<times> json \<times> output_kind" where
  "open_text item block =
     and_then (known_fields block [''type'', ''text'', ''citations'']) (\<lambda>_.
       if cited block then Err UnsupportedFeature
       else Ok (TextBlock,
         obj [(''id'', JString (item_id_str item)), (''type'', JString ''message''), (''role'', JString ''assistant''),
           (''status'', JString ''in_progress''), (''content'', JArray [])], Message))"

definition open_tool :: "messages_stream \<Rightarrow> item_id \<Rightarrow> json \<Rightarrow> ir_error + block_kind \<times> json \<times> output_kind" where
  "open_tool st item block =
     and_then (known_fields block [''type'', ''id'', ''name'', ''input'']) (\<lambda>_.
     if Option.bind (jget block ''input'') as_object \<noteq> Some fmempty then Err InvalidJsonArguments else
     and_then (json_string block ''name'') (\<lambda>alias.
     and_then (resolve (pm_tools (ms_prepared st)) alias) (\<lambda>(tool, kind).
     and_then (validate_count (pm_tools (ms_prepared st)) (stream_tool_count st + 1) False) (\<lambda>_.
     and_then (json_string block ''id'') (\<lambda>raw_id.
     and_then (call_id_new raw_id) (\<lambda>call.
       Ok (ToolBlock alias call kind [],
         tool_output \<lparr>tc_status = Some tool_call_status.InProgress, tc_item_id = Some item, tc_call_id = call, tc_tool = tool,
             tc_input = (if kind = CustomKind then Freeform [] else Json []), tc_extensions = responses_extensions\<rparr>
           ''in_progress'',
         Tool tool call kind)))))))"

definition open_kind ::
  "messages_stream \<Rightarrow> item_id \<Rightarrow> json \<Rightarrow> string \<Rightarrow> ir_error + block_kind \<times> json \<times> output_kind" where
  "open_kind st item block kind =
     (if kind = ''text'' then open_text item block
      else if kind = ''tool_use'' then open_tool st item block else Err UnsupportedFeature)"

definition start_text :: "wire_env \<Rightarrow> nat \<Rightarrow> item_id \<Rightarrow> json \<Rightarrow> emitting \<Rightarrow> ir_error + emitting" where
  "start_text E i item block = (\<lambda>(st, out).
     and_then (stream_apply E (PartStarted item 0 Text) st) (\<lambda>st.
       let st = update_block i (\<lambda>b. b\<lparr>sb_output := set_field (sb_output b) ''content'' (JArray [empty_part])\<rparr>) st;
           em = stream_emit ''response.content_part.added'' (at_item item i [content_zero, (''part'', empty_part)]) (st, out)
       in and_then (json_string block ''text'') (\<lambda>t. stream_text_delta E i t em)))"

definition begin_block :: "wire_env \<Rightarrow> nat \<Rightarrow> item_id \<Rightarrow> json \<Rightarrow> string \<Rightarrow> emitting \<Rightarrow> ir_error + emitting" where
  "begin_block E i item block kind = (\<lambda>(st, out).
     and_then (open_kind st item block kind) (\<lambda>(bk, shown, ek).
     and_then (stream_apply E (ItemStarted item (of_nat i) ek) st) (\<lambda>st.
       let st = st\<lparr>ms_blocks := ms_blocks st @ [\<lparr>sb_id = item, sb_open = True, sb_kind = bk, sb_output = shown\<rparr>]\<rparr>;
           em = stream_emit ''response.output_item.added'' (obj [(''output_index'', JNumber (nat_text i)), (''item'', shown)]) (st, out)
       in if bk = TextBlock then start_text E i item block em else Ok em)))"

definition on_block_start :: "wire_env \<Rightarrow> json \<Rightarrow> emitting \<Rightarrow> ir_error + emitting" where
  "on_block_start E v = (\<lambda>(st, out).
     and_then (known_fields v [''type'', ''index'', ''content_block'']) (\<lambda>_.
     if ms_stop st \<noteq> None then Err InvalidEventOrder else
     and_then (index_field v) (\<lambda>i.
     if i \<noteq> length (ms_blocks st) then Err InvalidEventOrder else
     and_then (ok_or (jget v ''content_block'') (InvalidField ''content_block'')) (\<lambda>block.
     and_then (item_id_new (''item_'' @ stream_message_id st @ ''_'' @ nat_text i)) (\<lambda>item.
     and_then (json_string block ''type'') (\<lambda>kind. begin_block E i item block kind (st, out)))))))"

definition open_block :: "messages_stream \<Rightarrow> nat \<Rightarrow> ir_error + stream_block" where
  "open_block st i =
     (if i < length (ms_blocks st) \<and> sb_open (ms_blocks st ! i) then Ok (ms_blocks st ! i) else Err InvalidEventOrder)"

definition arguments_delta :: "wire_env \<Rightarrow> nat \<Rightarrow> stream_block \<Rightarrow> string \<Rightarrow> emitting \<Rightarrow> ir_error + emitting" where
  "arguments_delta E i b t = (\<lambda>(st, out).
     and_then (stream_reserve (length t) st) (\<lambda>st.
     case sb_kind b of
       TextBlock \<Rightarrow> Err UnsupportedFeature
     | ToolBlock alias call kind raw \<Rightarrow>
         if length t > max_delta_bytes default_limits \<or> length raw + length t > max_argument_bytes default_limits
         then Err SizeLimit
         else
           let st = update_block i (\<lambda>b. b\<lparr>sb_kind := ToolBlock alias call kind (raw @ t)\<rparr>) st in
           if kind = FunctionKind then
             and_then (stream_apply E (ArgumentsDelta (sb_id b) t) st) (\<lambda>st.
               Ok (stream_emit ''response.function_call_arguments.delta''
                 (at_item (sb_id b) i [(''delta'', JString t)]) (st, out)))
           else Ok (st, out)))"

definition on_block_delta :: "wire_env \<Rightarrow> json \<Rightarrow> emitting \<Rightarrow> ir_error + emitting" where
  "on_block_delta E v = (\<lambda>(st, out).
     and_then (known_fields v [''type'', ''index'', ''delta'']) (\<lambda>_.
     if ms_stop st \<noteq> None then Err InvalidEventOrder else
     and_then (index_field v) (\<lambda>i.
     and_then (open_block st i) (\<lambda>b.
     and_then (ok_or (jget v ''delta'') (InvalidField ''delta'')) (\<lambda>delta.
     and_then (json_string delta ''type'') (\<lambda>kind.
       if sb_kind b = TextBlock \<and> kind = ''text_delta'' then
         and_then (known_fields delta [''type'', ''text'']) (\<lambda>_.
         and_then (json_string delta ''text'') (\<lambda>t. stream_text_delta E i t (st, out)))
       else if is_tool_block b \<and> kind = ''input_json_delta'' then
         and_then (known_fields delta [''type'', ''partial_json'']) (\<lambda>_.
         and_then (json_string delta ''partial_json'') (\<lambda>t. arguments_delta E i b t (st, out)))
       else Err UnsupportedFeature))))))"

definition close_text :: "wire_env \<Rightarrow> nat \<Rightarrow> stream_block \<Rightarrow> emitting \<Rightarrow> ir_error + emitting" where
  "close_text E i b = (\<lambda>(st, out).
     and_then (stream_apply E (PartFinished (sb_id b) 0) st) (\<lambda>st.
       let part = (case as_array (json_index (sb_output b) ''content'') of Some (p # _) \<Rightarrow> p | _ \<Rightarrow> JNull) in
       Ok (stream_emit ''response.content_part.done'' (at_item (sb_id b) i [content_zero, (''part'', part)])
         (stream_emit ''response.output_text.done''
           (at_item (sb_id b) i [content_zero, (''text'', json_index part ''text''), (''logprobs'', JArray [])]) (st, out)))))"

definition restored_prefix :: "tool_input \<Rightarrow> string" where
  "restored_prefix i =
     (case i of Json _ \<Rightarrow> ''response.function_call_arguments'' | Freeform _ \<Rightarrow> ''response.custom_tool_call_input'')"

definition close_tool ::
  "wire_env \<Rightarrow> nat \<Rightarrow> stream_block \<Rightarrow> string \<Rightarrow> call_id \<Rightarrow> tool_kind \<Rightarrow> string \<Rightarrow> emitting \<Rightarrow> ir_error + emitting" where
  "close_tool E i b alias call kind raw = (\<lambda>(st, out).
     let raw' = (if raw = [] then ''{}'' else raw);
         p = ms_prepared st;
         emit_delta = (kind = CustomKind \<or> raw = []) in
     and_then (restore_tool (we_serde E) (we_lower E) (pm_tools p) alias call (sb_id b) raw') (\<lambda>(restored, tools).
     let t = call_text (tc_input restored);
         chunks = (if emit_delta then event_text_chunks t else []);
         st = update_block i (\<lambda>b. b\<lparr>sb_kind := ToolBlock alias call kind raw'\<rparr>)
           (st\<lparr>ms_prepared := p\<lparr>pm_tools := tools\<rparr>\<rparr>) in
     and_then (apply_all (we_serde E) (ms_validator st) (map (ArgumentsDelta (sb_id b)) chunks)) (\<lambda>v.
       let st = update_block i (\<lambda>b. b\<lparr>sb_output := tool_output restored ''completed''\<rparr>) (st\<lparr>ms_validator := v\<rparr>);
           em = fold (\<lambda>c. stream_emit (restored_prefix (tc_input restored) @ ''.delta'')
             (at_item (sb_id b) i [(''delta'', JString c)])) chunks (st, out);
           field = (case tc_input restored of Freeform _ \<Rightarrow> ''input'' | Json _ \<Rightarrow> ''arguments'')
       in Ok (stream_emit (restored_prefix (tc_input restored) @ ''.done'') (at_item (sb_id b) i [(field, JString t)]) em))))"

definition on_block_stop :: "wire_env \<Rightarrow> json \<Rightarrow> emitting \<Rightarrow> ir_error + emitting" where
  "on_block_stop E v = (\<lambda>(st, out).
     and_then (known_fields v [''type'', ''index'']) (\<lambda>_.
     if ms_stop st \<noteq> None then Err InvalidEventOrder else
     and_then (index_field v) (\<lambda>i.
     and_then (open_block st i) (\<lambda>b.
     and_then (case sb_kind b of
         TextBlock \<Rightarrow> close_text E i b (st, out)
       | ToolBlock alias call kind raw \<Rightarrow> close_tool E i b alias call kind raw (st, out)) (\<lambda>(st, out).
     and_then (stream_apply E (ItemFinished (sb_id b)) st) (\<lambda>st.
       let st = update_block i (\<lambda>b. b\<lparr>sb_open := False, sb_output := set_field (sb_output b) ''status'' (JString ''completed'')\<rparr>) st
       in Ok (stream_emit ''response.output_item.done''
         (obj [(''output_index'', JNumber (nat_text i)), (''item'', sb_output (ms_blocks st ! i))]) (st, out))))))))"

text \<open>\<open>merged[key] = value\<close> for every member of the update.\<close>

definition merge_usage :: "json \<Rightarrow> fields \<Rightarrow> json" where
  "merge_usage u update = (case u of JObject m \<Rightarrow> JObject (m ++\<^sub>f update) | _ \<Rightarrow> u)"

definition on_message_delta :: "wire_env \<Rightarrow> json \<Rightarrow> emitting \<Rightarrow> ir_error + emitting" where
  "on_message_delta E v = (\<lambda>(st, out).
     and_then (known_fields v [''type'', ''delta'', ''usage'']) (\<lambda>_.
     if ms_stop st \<noteq> None \<or> list_ex sb_open (ms_blocks st) then Err InvalidEventOrder else
     and_then (ok_or (jget v ''delta'') (InvalidField ''delta'')) (\<lambda>delta.
     and_then (known_fields delta [''stop_reason'', ''stop_sequence'', ''stop_details'', ''container'']) (\<lambda>_.
     if list_ex (present delta) [''stop_details'', ''container''] then Err UnsupportedFeature else
     and_then (json_string delta ''stop_reason'') (\<lambda>stop.
     and_then (messages_terminal (ms_prepared st) stop (stream_tool_count st)) (\<lambda>_.
     and_then (ok_or (jget v ''usage'') (InvalidField ''usage'')) (\<lambda>update.
     and_then (json_object update) (\<lambda>fs.
     let merged = merge_usage (ms_usage st) fs in
     and_then (messages_usage merged) (\<lambda>(input, generated, _).
     and_then (stream_apply E (event_ir.UsageUpdated \<lparr>input_tokens = Some input, output_tokens = Some generated\<rparr>) st) (\<lambda>st.
       Ok (st\<lparr>ms_usage := merged, ms_stop := Some stop\<rparr>, out)))))))))))"

definition final_response ::
  "messages_stream \<Rightarrow> json \<Rightarrow> terminal \<Rightarrow> string option \<Rightarrow> u64 \<times> u64 \<times> u64 \<Rightarrow> json" where
  "final_response st response terminal reason = (\<lambda>(input, generated, all_tokens).
     let items = map sb_output (ms_blocks st);
         response = set_field (set_field (set_field response
           ''status'' (JString (if terminal = terminal.Completed then ''completed'' else ''incomplete'')))
           ''output'' (JArray (if terminal = terminal.Incomplete
              then map (\<lambda>v. set_field v ''status'' (JString ''incomplete'')) items else items)))
           ''usage'' (response_usage (ms_usage st) input generated all_tokens)
     in case reason of
          Some r \<Rightarrow> set_field response ''incomplete_details'' (obj [(''reason'', JString r)])
        | None \<Rightarrow> response)"

definition set_done :: "emitting \<Rightarrow> emitting" where
  "set_done = (\<lambda>(st, out). (st\<lparr>ms_done := True\<rparr>, out))"

definition on_message_stop :: "wire_env \<Rightarrow> json \<Rightarrow> json \<Rightarrow> emitting \<Rightarrow> ir_error + emitting" where
  "on_message_stop E response v = (\<lambda>(st, out).
     and_then (known_fields v [''type'']) (\<lambda>_.
     and_then (ok_or (ms_stop st) InvalidEventOrder) (\<lambda>stop.
     and_then (messages_terminal (ms_prepared st) stop (stream_tool_count st)) (\<lambda>(terminal, reason).
     and_then (stream_apply E (Finished terminal reason) st) (\<lambda>st.
     and_then (messages_usage (ms_usage st)) (\<lambda>u.
       let response = final_response st response terminal reason u in
       Ok (set_done (stream_emit (''response.'' @ (if terminal = terminal.Completed then ''completed'' else ''incomplete''))
         (obj [(''response'', response)]) (st\<lparr>ms_response := Some response\<rparr>, out)))))))))"

definition stream_convert :: "wire_env \<Rightarrow> u64 option \<Rightarrow> messages_stream \<Rightarrow> sse_event \<Rightarrow> ir_error + emitting" where
  "stream_convert E now st event =
     (if length (se_data event) > ms_limit st then Err SizeLimit else
      and_then (json_decode (we_parse E) (se_data event)) (\<lambda>v.
      and_then (json_string v ''type'') (\<lambda>kind.
      if se_event event \<noteq> kind then Err (InvalidField ''messages_event'')
      else if kind = ''ping'' then and_then (known_fields v [''type'']) (\<lambda>_. Ok (st, []))
      else if kind = ''error'' then Err (InvalidField ''upstream_stream_error'')
      else if kind = ''message_start'' then on_message_start E now v (st, [])
      else
        and_then (ok_or (ms_response st) InvalidEventOrder) (\<lambda>response.
        if kind = ''content_block_start'' then on_block_start E v (st, [])
        else if kind = ''content_block_delta'' then on_block_delta E v (st, [])
        else if kind = ''content_block_stop'' then on_block_stop E v (st, [])
        else if kind = ''message_delta'' then on_message_delta E v (st, [])
        else if kind = ''message_stop'' then on_message_stop E response v (st, [])
        else Err UnsupportedFeature))))"

definition messages_stream_event ::
  "wire_env \<Rightarrow> u64 option \<Rightarrow> messages_stream \<Rightarrow> sse_event \<Rightarrow> (ir_error + json list) \<times> messages_stream" where
  "messages_stream_event E now st event =
     (if ms_failed st \<or> ms_done st then (Err InvalidEventOrder, st)
      else case stream_convert E now st event of
        Inl e \<Rightarrow> (Err e, st\<lparr>ms_failed := True\<rparr>)
      | Inr (st', out) \<Rightarrow> (Ok out, st'))"

definition messages_stream_finish :: "messages_stream \<Rightarrow> ir_error + unit" where
  "messages_stream_finish st = (if ms_done st \<and> \<not> ms_failed st then Ok () else Err InvalidEventOrder)"

definition messages_stream_complete :: "messages_stream \<Rightarrow> bool" where
  "messages_stream_complete st \<longleftrightarrow> ms_done st \<and> \<not> ms_failed st"

section \<open>What every event does to the stream\<close>

text \<open>The stream moves on: it only adds events, numbered from where it stood, and only takes room it has.\<close>

definition advances :: "emitting \<Rightarrow> emitting \<Rightarrow> bool" where
  "advances em em' \<longleftrightarrow>
     (\<exists>new. snd em' = snd em @ new \<and> ms_sequence (fst em') = ms_sequence (fst em) + of_nat (length new) \<and>
        map sequence_of new = numbers_from (ms_sequence (fst em)) (length new)) \<and>
     ms_limit (fst em') = ms_limit (fst em) \<and> ms_failed (fst em') = ms_failed (fst em) \<and>
     (ms_buffered (fst em) \<le> ms_limit (fst em) \<longrightarrow> ms_buffered (fst em') \<le> ms_limit (fst em))"

lemma advances_same:
  assumes "ms_sequence st' = ms_sequence st" and "ms_limit st' = ms_limit st" and "ms_failed st' = ms_failed st"
    and "ms_buffered st' = ms_buffered st"
  shows "advances (st, out) (st', out)"
  using assms by (simp add: advances_def numbers_from_def)

lemma advances_trans:
  assumes "advances a b" and "advances b c"
  shows "advances a c"
proof -
  from assms obtain new1 new2 where
    "snd b = snd a @ new1" "ms_sequence (fst b) = ms_sequence (fst a) + of_nat (length new1)"
    "map sequence_of new1 = numbers_from (ms_sequence (fst a)) (length new1)"
    "snd c = snd b @ new2" "ms_sequence (fst c) = ms_sequence (fst b) + of_nat (length new2)"
    "map sequence_of new2 = numbers_from (ms_sequence (fst b)) (length new2)"
    unfolding advances_def by metis
  then have "\<exists>new. snd c = snd a @ new \<and> ms_sequence (fst c) = ms_sequence (fst a) + of_nat (length new) \<and>
      map sequence_of new = numbers_from (ms_sequence (fst a)) (length new)"
    by (intro exI [of _ "new1 @ new2"]) (simp add: numbers_from_add add.assoc)
  moreover have "ms_limit (fst c) = ms_limit (fst a)" "ms_failed (fst c) = ms_failed (fst a)"
    "ms_buffered (fst a) \<le> ms_limit (fst a) \<longrightarrow> ms_buffered (fst c) \<le> ms_limit (fst a)"
    using assms by (simp_all add: advances_def)
  ultimately show ?thesis unfolding advances_def by blast
qed

lemma advances_emit: "is_object e \<Longrightarrow> advances em (stream_emit kind e em)"
  by (cases em) (simp add: advances_def stream_emit_def numbers_from_def sequence_of_numbered)

lemma stream_apply_Ok: "stream_apply E e st = Ok st' \<Longrightarrow> \<exists>v. st' = st\<lparr>ms_validator := v\<rparr> \<and> apply_ok (we_serde E) (ms_validator st) e = Ok v"
  by (auto simp: stream_apply_def)

lemma advances_apply: "stream_apply E e st = Ok st' \<Longrightarrow> advances (st, out) (st', out)"
  by (auto dest!: stream_apply_Ok intro: advances_same)

lemma advances_update: "advances (st, out) (update_block i f st, out)"
  by (simp add: update_block_def advances_same)

lemma advances_reserve: "stream_reserve n st = Ok st' \<Longrightarrow> advances (st, out) (st', out)"
  by (auto simp: stream_reserve_def advances_def numbers_from_def split: if_splits)

lemma stream_text_delta_Ok:
  assumes "stream_text_delta E i t (st, out) = Ok em"
  obtains st1 st2 st3 where "stream_reserve (length t) st = Ok st1"
    "stream_apply E (TextDelta (sb_id (ms_blocks st1 ! i)) 0 t) st1 = Ok st2"
    "st3 = update_block i (\<lambda>b. b\<lparr>sb_output := push_text t (sb_output b)\<rparr>) st2"
    "em = (if t \<noteq> [] then stream_emit ''response.output_text.delta'' (text_delta_event (sb_id (ms_blocks st1 ! i)) i t) (st3, out)
       else (st3, out))"
proof -
  from assms obtain st1 st2 where "stream_reserve (length t) st = Ok st1"
    "stream_apply E (TextDelta (sb_id (ms_blocks st1 ! i)) 0 t) st1 = Ok st2"
    "Ok (if t \<noteq> [] then stream_emit ''response.output_text.delta'' (text_delta_event (sb_id (ms_blocks st1 ! i)) i t)
         (update_block i (\<lambda>b. b\<lparr>sb_output := push_text t (sb_output b)\<rparr>) st2, out)
       else (update_block i (\<lambda>b. b\<lparr>sb_output := push_text t (sb_output b)\<rparr>) st2, out)) = (Ok em :: ir_error + emitting)"
    unfolding stream_text_delta_def Let_def prod.case and_then_eq_Inr text_delta_event_def by blast
  then show thesis using that [of st1 st2] by simp
qed

lemma advances_text_delta:
  assumes "stream_text_delta E i t em = Ok em'"
  shows "advances em em'"
proof -
  obtain st out where em: "em = (st, out)" by (cases em)
  from assms [unfolded em] show ?thesis
  proof (rule stream_text_delta_Ok)
    fix st1 st2 st3
    assume s: "stream_reserve (length t) st = Ok st1"
      "stream_apply E (TextDelta (sb_id (ms_blocks st1 ! i)) 0 t) st1 = Ok st2"
      "st3 = update_block i (\<lambda>b. b\<lparr>sb_output := push_text t (sb_output b)\<rparr>) st2"
      and em': "em' = (if t \<noteq> [] then stream_emit ''response.output_text.delta'' (text_delta_event (sb_id (ms_blocks st1 ! i)) i t) (st3, out)
       else (st3, out))"
    have a: "advances (st, out) (st3, out)" unfolding s(3)
      by (rule advances_trans [OF advances_reserve [OF s(1)]], rule advances_trans [OF advances_apply [OF s(2)] advances_update])
    have "advances (st3, out) em'"
      unfolding em' by (simp add: advances_emit text_delta_event_def advances_same)
    with a show ?thesis unfolding em by (rule advances_trans)
  qed
qed

lemma arguments_delta_Ok:
  assumes "arguments_delta E i b t (st, out) = Ok em"
  obtains st1 st2 al call kind raw where "stream_reserve (length t) st = Ok st1"
    "sb_kind b = ToolBlock al call kind raw"
    "st2 = update_block i (\<lambda>b. b\<lparr>sb_kind := ToolBlock al call kind (raw @ t)\<rparr>) st1"
    "kind \<noteq> FunctionKind \<and> em = (st2, out) \<or>
     kind = FunctionKind \<and> (\<exists>st3. stream_apply E (ArgumentsDelta (sb_id b) t) st2 = Ok st3 \<and>
       em = stream_emit ''response.function_call_arguments.delta'' (at_item (sb_id b) i [(''delta'', JString t)]) (st3, out))"
proof -
  from assms obtain st1 where st1: "stream_reserve (length t) st = Ok st1" by (auto simp: arguments_delta_def)
  show thesis
  proof (cases "sb_kind b")
    case TextBlock
    with assms st1 show ?thesis by (simp add: arguments_delta_def)
  next
    case (ToolBlock al call kind raw)
    with assms st1 show ?thesis
      using that [of st1 al call kind raw] by (cases "kind = FunctionKind") (auto simp: arguments_delta_def Let_def split: if_splits)
  qed
qed

lemma advances_arguments_delta:
  assumes "arguments_delta E i b t em = Ok em'"
  shows "advances em em'"
proof -
  obtain st out where em: "em = (st, out)" by (cases em)
  from assms [unfolded em] show ?thesis
  proof (rule arguments_delta_Ok)
    fix st1 st2 al call kind raw
    assume s: "stream_reserve (length t) st = Ok st1" "st2 = update_block i (\<lambda>b. b\<lparr>sb_kind := ToolBlock al call kind (raw @ t)\<rparr>) st1"
      and c: "kind \<noteq> FunctionKind \<and> em' = (st2, out) \<or>
       kind = FunctionKind \<and> (\<exists>st3. stream_apply E (ArgumentsDelta (sb_id b) t) st2 = Ok st3 \<and>
         em' = stream_emit ''response.function_call_arguments.delta'' (at_item (sb_id b) i [(''delta'', JString t)]) (st3, out))"
    have a: "advances (st, out) (st2, out)"
      unfolding s(2) by (rule advances_trans [OF advances_reserve [OF s(1)] advances_update])
    from c have "advances (st2, out) em'"
      by (auto simp: advances_same intro: advances_trans [OF advances_apply advances_emit])
    with a show ?thesis unfolding em by (rule advances_trans)
  qed
qed

lemma advances_fold_emit:
  assumes "\<And>c. is_object (ev c)"
  shows "advances em (fold (\<lambda>c. stream_emit kind (ev c)) cs em)"
proof (induction cs arbitrary: em)
  case Nil
  then show ?case by (cases em) (simp add: advances_same)
next
  case (Cons c cs)
  show ?case
    using advances_trans [OF advances_emit [OF assms [of c], of em kind] Cons.IH] by simp
qed

lemma on_message_start_Ok:
  assumes "on_message_start E now v (st, out) = Ok em"
  obtains u rid seconds tokens st1 st2 where "ms_response st = None"
    "stream_apply E (Started rid) (st\<lparr>ms_usage := u\<rparr>) = Ok st1" "stream_apply E (event_ir.UsageUpdated tokens) st1 = Ok st2"
    "em = stream_emit ''response.created'' (obj [(''response'', created_response (ms_prepared st2) rid seconds)])
       (st2\<lparr>ms_response := Some (created_response (ms_prepared st2) rid seconds)\<rparr>, out)"
  using assms by (auto simp: on_message_start_def Let_def split: if_splits)

lemma advances_message_start:
  assumes "on_message_start E now v em = Ok em'"
  shows "advances em em'"
proof -
  obtain st out where em: "em = (st, out)" by (cases em)
  from assms [unfolded em] show ?thesis
  proof (rule on_message_start_Ok)
    fix u rid seconds tokens and st1 st2 :: messages_stream
    let ?r = "created_response (ms_prepared st2) rid seconds"
    assume s: "stream_apply E (Started rid) (st\<lparr>ms_usage := u\<rparr>) = Ok st1" "stream_apply E (event_ir.UsageUpdated tokens) st1 = Ok st2"
      and em': "em' = stream_emit ''response.created'' (obj [(''response'', ?r)]) (st2\<lparr>ms_response := Some ?r\<rparr>, out)"
    have "advances (st, out) (st\<lparr>ms_usage := u\<rparr>, out)" by (simp add: advances_same)
    from advances_trans [OF advances_trans [OF this advances_apply [OF s(1)]] advances_apply [OF s(2)]]
    have "advances em (st2, out)" by (simp add: em)
    moreover have "advances (st2, out) (st2\<lparr>ms_response := Some ?r\<rparr>, out)" by (simp add: advances_same)
    ultimately show ?thesis
      unfolding em' by (rule advances_trans [OF advances_trans advances_emit]) simp
  qed
qed

lemma advances_start_text:
  assumes "start_text E i item block em = Ok em'"
  shows "advances em em'"
proof -
  obtain st out where em: "em = (st, out)" by (cases em)
  let ?f = "\<lambda>b. b\<lparr>sb_output := set_field (sb_output b) ''content'' (JArray [empty_part])\<rparr>"
  from assms em obtain st1 t where s: "stream_apply E (PartStarted item 0 Text) st = Ok st1"
      "stream_text_delta E i t (stream_emit ''response.content_part.added'' (at_item item i [content_zero, (''part'', empty_part)])
         (update_block i ?f st1, out)) = Ok em'"
    by (auto simp: start_text_def Let_def)
  show ?thesis unfolding em
    by (rule advances_trans [OF advances_apply [OF s(1)]], rule advances_trans [OF advances_update],
        rule advances_trans [OF advances_emit advances_text_delta [OF s(2)]]) simp
qed

lemma begin_block_Ok:
  assumes "begin_block E i item block kind (st, out) = Ok em"
  obtains bk shown ek st1 em1 where "open_kind st item block kind = Ok (bk, shown, ek)"
    "stream_apply E (ItemStarted item (of_nat i) ek) st = Ok st1"
    "em1 = stream_emit ''response.output_item.added'' (obj [(''output_index'', JNumber (nat_text i)), (''item'', shown)])
       (st1\<lparr>ms_blocks := ms_blocks st1 @ [\<lparr>sb_id = item, sb_open = True, sb_kind = bk, sb_output = shown\<rparr>]\<rparr>, out)"
    "(if bk = TextBlock then start_text E i item block em1 else Ok em1) = Ok em"
proof -
  from assms obtain bk shown ek where opened: "open_kind st item block kind = Ok (bk, shown, ek)"
    by (auto simp: begin_block_def)
  with assms obtain st1 where applied: "stream_apply E (ItemStarted item (of_nat i) ek) st = Ok st1"
    by (auto simp: begin_block_def)
  show thesis
    by (rule that [OF opened applied refl]) (use assms opened applied in \<open>simp add: begin_block_def Let_def\<close>)
qed

lemma on_block_start_Ok:
  assumes "on_block_start E v (st, out) = Ok em"
  obtains item block kind where "ms_stop st = None" "begin_block E (length (ms_blocks st)) item block kind (st, out) = Ok em"
  using assms by (auto simp: on_block_start_def split: if_splits)

lemma advances_block_start:
  assumes "on_block_start E v em = Ok em'"
  shows "advances em em'"
proof -
  obtain st out where em: "em = (st, out)" by (cases em)
  from assms [unfolded em] obtain item block kind where "begin_block E (length (ms_blocks st)) item block kind (st, out) = Ok em'"
    by (rule on_block_start_Ok)
  then show ?thesis
  proof (rule begin_block_Ok)
    fix bk shown ek and st1 :: messages_stream and em1
    let ?i = "length (ms_blocks st)"
    let ?st2 = "st1\<lparr>ms_blocks := ms_blocks st1 @ [\<lparr>sb_id = item, sb_open = True, sb_kind = bk, sb_output = shown\<rparr>]\<rparr>"
    assume a: "stream_apply E (ItemStarted item (of_nat ?i) ek) st = Ok st1"
      and em1: "em1 = stream_emit ''response.output_item.added''
        (obj [(''output_index'', JNumber (nat_text ?i)), (''item'', shown)]) (?st2, out)"
      and step: "(if bk = TextBlock then start_text E ?i item block em1 else Ok em1) = Ok em'"
    have "advances (st1, out) (?st2, out)" by (simp add: advances_same)
    then have one: "advances em em1" unfolding em em1
      by (rule advances_trans [OF advances_trans [OF advances_apply [OF a]] advances_emit]) simp
    from step show ?thesis
      by (cases "bk = TextBlock") (use one in \<open>auto intro: advances_trans dest: advances_start_text\<close>)
  qed
qed

lemma advances_block_delta:
  assumes "on_block_delta E v em = Ok em'"
  shows "advances em em'"
  using assms
  by (cases em) (auto simp: on_block_delta_def split: if_splits intro: advances_text_delta advances_arguments_delta)

lemma advances_close_text:
  assumes "close_text E i b em = Ok em'"
  shows "advances em em'"
  using assms
  by (cases em) (auto simp: close_text_def Let_def intro!: advances_trans [OF advances_trans [OF advances_apply advances_emit] advances_emit])

lemma close_tool_Ok:
  assumes "close_tool E i b al call kind raw (st, out) = Ok em"
  obtains raw' restored tools v chunks st1 st2 where
    "restore_tool (we_serde E) (we_lower E) (pm_tools (ms_prepared st)) al call (sb_id b) raw' = Ok (restored, tools)"
    "st1 = update_block i (\<lambda>b. b\<lparr>sb_kind := ToolBlock al call kind raw'\<rparr>)
       (st\<lparr>ms_prepared := (ms_prepared st)\<lparr>pm_tools := tools\<rparr>\<rparr>)"
    "apply_all (we_serde E) (ms_validator st1) (map (ArgumentsDelta (sb_id b)) chunks) = Ok v"
    "st2 = update_block i (\<lambda>b. b\<lparr>sb_output := tool_output restored ''completed''\<rparr>) (st1\<lparr>ms_validator := v\<rparr>)"
    "em = stream_emit (restored_prefix (tc_input restored) @ ''.done'')
       (at_item (sb_id b) i [(case tc_input restored of Freeform _ \<Rightarrow> ''input'' | Json _ \<Rightarrow> ''arguments'',
          JString (call_text (tc_input restored)))])
       (fold (\<lambda>c. stream_emit (restored_prefix (tc_input restored) @ ''.delta'')
          (at_item (sb_id b) i [(''delta'', JString c)])) chunks (st2, out))"
  using assms by (auto simp: close_tool_def Let_def simp del: append.simps)

lemma advances_close_tool:
  assumes "close_tool E i b al call kind raw em = Ok em'"
  shows "advances em em'"
proof -
  obtain st out where em: "em = (st, out)" by (cases em)
  from assms [unfolded em] show ?thesis
  proof (rule close_tool_Ok)
    fix raw' restored tools v chunks st1 st2
    assume s: "st1 = update_block i (\<lambda>b. b\<lparr>sb_kind := ToolBlock al call kind raw'\<rparr>)
         (st\<lparr>ms_prepared := (ms_prepared st)\<lparr>pm_tools := tools\<rparr>\<rparr>)"
      "st2 = update_block i (\<lambda>b. b\<lparr>sb_output := tool_output restored ''completed''\<rparr>) (st1\<lparr>ms_validator := v\<rparr>)"
      and em': "em' = stream_emit (restored_prefix (tc_input restored) @ ''.done'')
       (at_item (sb_id b) i [(case tc_input restored of Freeform _ \<Rightarrow> ''input'' | Json _ \<Rightarrow> ''arguments'',
          JString (call_text (tc_input restored)))])
       (fold (\<lambda>c. stream_emit (restored_prefix (tc_input restored) @ ''.delta'')
          (at_item (sb_id b) i [(''delta'', JString c)])) chunks (st2, out))"
    have "advances (st, out) (st2, out)" by (rule advances_same) (simp_all add: s update_block_def)
    then show ?thesis unfolding em em'
      by (rule advances_trans [OF _ advances_trans [OF advances_fold_emit advances_emit]]) simp_all
  qed
qed

lemma advances_block_stop:
  assumes "on_block_stop E v em = Ok em'"
  shows "advances em em'"
proof -
  obtain st out where em: "em = (st, out)" by (cases em)
  let ?f = "\<lambda>b. b\<lparr>sb_open := False, sb_output := set_field (sb_output b) ''status'' (JString ''completed'')\<rparr>"
  from assms em obtain i b st1 out1 st2 shown where s: "(case sb_kind b of TextBlock \<Rightarrow> close_text E i b (st, out)
       | ToolBlock al call kind raw \<Rightarrow> close_tool E i b al call kind raw (st, out)) = Ok (st1, out1)"
      "stream_apply E (ItemFinished (sb_id b)) st1 = Ok st2"
      "em' = stream_emit ''response.output_item.done'' (obj [(''output_index'', JNumber (nat_text i)), (''item'', shown)])
         (update_block i ?f st2, out1)"
    by (auto simp: on_block_stop_def Let_def split: if_splits)
  from s(1) have "advances (st, out) (st1, out1)"
    by (auto split: block_kind.splits dest: advances_close_text advances_close_tool)
  then show ?thesis unfolding em s(3)
    by (rule advances_trans [OF _ advances_trans [OF advances_apply [OF s(2)] advances_trans [OF advances_update advances_emit]]]) simp
qed

lemma advances_message_delta:
  assumes "on_message_delta E v em = Ok em'"
  shows "advances em em'"
proof -
  obtain st out where em: "em = (st, out)" by (cases em)
  from assms em obtain u stop st1 e where s: "stream_apply E e st = Ok st1" "em' = (st1\<lparr>ms_usage := u, ms_stop := Some stop\<rparr>, out)"
    by (auto simp: on_message_delta_def Let_def split: if_splits)
  show ?thesis unfolding em s(2) by (rule advances_trans [OF advances_apply [OF s(1)]]) (simp add: advances_same)
qed

lemma on_message_stop_Ok:
  assumes "on_message_stop E response v (st, out) = Ok em"
  obtains stop terminal reason st1 u where "ms_stop st = Some stop"
    "messages_terminal (ms_prepared st) stop (stream_tool_count st) = Ok (terminal, reason)"
    "stream_apply E (Finished terminal reason) st = Ok st1"
    "em = set_done (stream_emit (''response.'' @ (if terminal = terminal.Completed then ''completed'' else ''incomplete''))
       (obj [(''response'', final_response st1 response terminal reason u)])
       (st1\<lparr>ms_response := Some (final_response st1 response terminal reason u)\<rparr>, out))"
  using assms by (auto simp: on_message_stop_def Let_def simp del: append.simps)

lemma advances_done: "advances em (set_done em)"
  by (cases em) (simp add: set_done_def advances_same)

lemma advances_message_stop:
  assumes "on_message_stop E response v em = Ok em'"
  shows "advances em em'"
proof -
  obtain st out where em: "em = (st, out)" by (cases em)
  from assms [unfolded em] show ?thesis
  proof (rule on_message_stop_Ok)
    fix terminal reason u and st1 :: messages_stream
    let ?r = "final_response st1 response terminal reason u"
    assume a: "stream_apply E (Finished terminal reason) st = Ok st1"
      and e: "em' = set_done (stream_emit (''response.'' @ (if terminal = terminal.Completed then ''completed'' else ''incomplete''))
         (obj [(''response'', ?r)]) (st1\<lparr>ms_response := Some ?r\<rparr>, out))"
    have "advances (st1, out) (st1\<lparr>ms_response := Some ?r\<rparr>, out)" by (simp add: advances_same)
    then show ?thesis unfolding em e
      by (rule advances_trans [OF advances_trans [OF advances_apply [OF a]] advances_trans [OF advances_emit advances_done]]) simp
  qed
qed

lemma advances_convert:
  assumes "stream_convert E now st event = Ok em"
  shows "advances (st, []) em"
  using assms
  by (auto simp: stream_convert_def advances_same split: if_splits
      dest: advances_message_start advances_block_start advances_block_delta advances_block_stop advances_message_delta
        advances_message_stop)

section \<open>The text the client assembles\<close>

lemma emit_other:
  assumes "is_object e" and "kind \<noteq> ''response.output_text.delta''"
  shows "text_of i (snd (stream_emit kind e em)) = text_of i (snd em)"
    "ms_blocks (fst (stream_emit kind e em)) = ms_blocks (fst em)"
  using assms by (cases em; simp add: stream_emit_def delta_at_other)+

lemma emit_text_delta:
  "text_of j (snd (stream_emit ''response.output_text.delta'' (text_delta_event item i t) em)) =
     text_of j (snd em) @ (if j = i then t else [])"
  by (cases em) (simp add: stream_emit_def delta_at_text_delta)

lemma emit_blocks [simp]: "ms_blocks (fst (stream_emit kind e em)) = ms_blocks (fst em)"
  by (cases em) (simp add: stream_emit_def)

text \<open>Every text block shows the deltas emitted for it; every other block is a tool call.\<close>

definition shows_text :: "json list \<Rightarrow> nat \<Rightarrow> stream_block \<Rightarrow> bool" where
  "shows_text seen i b \<longleftrightarrow>
     sb_kind b = TextBlock \<and> output_text (sb_output b) = Some (text_of i seen) \<or>
     sb_kind b \<noteq> TextBlock \<and> str_at (sb_output b) ''type'' \<noteq> Some ''message''"

definition tracks :: "json list \<Rightarrow> emitting \<Rightarrow> bool" where
  "tracks seen em \<longleftrightarrow>
     (\<forall>i < length (ms_blocks (fst em)). shows_text (seen @ snd em) i (ms_blocks (fst em) ! i)) \<and>
     (\<forall>i \<ge> length (ms_blocks (fst em)). text_of i (seen @ snd em) = [])"

lemma tracks_same:
  assumes "tracks seen em" and "ms_blocks (fst em') = ms_blocks (fst em)" and "\<And>i. text_of i (snd em') = text_of i (snd em)"
  shows "tracks seen em'"
  using assms by (simp add: tracks_def shows_text_def)

lemma tracks_emit: "tracks seen em \<Longrightarrow> is_object e \<Longrightarrow> kind \<noteq> ''response.output_text.delta'' \<Longrightarrow> tracks seen (stream_emit kind e em)"
  by (erule tracks_same) (simp_all add: emit_other)

lemma tracks_state: "tracks seen (st, out) \<Longrightarrow> ms_blocks st' = ms_blocks st \<Longrightarrow> tracks seen (st', out)"
  by (erule tracks_same) simp_all

lemma tracks_apply: "tracks seen (st, out) \<Longrightarrow> stream_apply E e st = Ok st' \<Longrightarrow> tracks seen (st', out)"
  by (erule tracks_state) (auto dest: stream_apply_Ok)

lemma tracks_reserve: "tracks seen (st, out) \<Longrightarrow> stream_reserve n st = Ok st' \<Longrightarrow> tracks seen (st', out)"
  by (erule tracks_state) (auto simp: stream_reserve_def split: if_splits)

text \<open>Changing one block keeps the rest.\<close>

lemma tracks_update:
  assumes "tracks seen (st, out)" and "i < length (ms_blocks st) \<Longrightarrow> shows_text (seen @ out) i (f (ms_blocks st ! i))"
  shows "tracks seen (update_block i f st, out)"
proof -
  have "shows_text (seen @ out) j ((ms_blocks st)[i := f (ms_blocks st ! i)] ! j)" if "j < length (ms_blocks st)" for j
    using assms that by (cases "j = i") (auto simp: tracks_def)
  with assms(1) show ?thesis by (simp add: tracks_def update_block_def)
qed

lemma output_text_push:
  assumes "output_text out = Some s"
  shows "output_text (push_text t out) = Some (s @ t)"
proof -
  from assms obtain m part where out: "out = JObject m" "fmlookup m ''content'' = Some (JArray [part])" "str_at part ''text'' = Some s"
    by (cases out) (auto simp: output_text_def json_index_def split: option.splits list.splits elim!: as_array.elims)
  then show ?thesis
    by (cases part) (simp_all add: output_text_def json_index_def str_at_def)
qed

lemma tracks_text_delta:
  assumes "stream_text_delta E i t em = Ok em'" and "tracks seen em" and "i < length (ms_blocks (fst em))"
    and "sb_kind (ms_blocks (fst em) ! i) = TextBlock"
  shows "tracks seen em'"
proof -
  obtain st out where em: "em = (st, out)" by (cases em)
  from assms(1) [unfolded em] show ?thesis
  proof (rule stream_text_delta_Ok)
    fix st1 st2 st3
    assume s: "stream_reserve (length t) st = Ok st1"
      "stream_apply E (TextDelta (sb_id (ms_blocks st1 ! i)) 0 t) st1 = Ok st2"
      "st3 = update_block i (\<lambda>b. b\<lparr>sb_output := push_text t (sb_output b)\<rparr>) st2"
      and em': "em' = (if t \<noteq> [] then stream_emit ''response.output_text.delta'' (text_delta_event (sb_id (ms_blocks st1 ! i)) i t) (st3, out)
       else (st3, out))"
    from s have blocks: "ms_blocks st3 = (ms_blocks st)[i := (ms_blocks st ! i)\<lparr>sb_output := push_text t (sb_output (ms_blocks st ! i))\<rparr>]"
      by (auto simp: update_block_def stream_reserve_def split: if_splits dest!: stream_apply_Ok)
    have out': "text_of j (snd em') = text_of j out @ (if j = i then t else [])" for j
      unfolding em' using emit_text_delta [of j "sb_id (ms_blocks st1 ! i)" i t "(st3, out)"]
      by (cases "t = []"; cases "j = i") simp_all
    have blocks': "ms_blocks (fst em') = ms_blocks st3" unfolding em' by simp
    show ?thesis
      using assms(2-4) unfolding tracks_def blocks' blocks em
      by (auto simp: out' nth_list_update shows_text_def intro!: output_text_push [THEN trans])
  qed
qed

lemma tracks_arguments_delta:
  assumes "arguments_delta E i b t em = Ok em'" and "tracks seen em" and "b = ms_blocks (fst em) ! i"
    and "i < length (ms_blocks (fst em))"
  shows "tracks seen em'"
proof -
  obtain st out where em: "em = (st, out)" by (cases em)
  from assms(1) [unfolded em] show ?thesis
  proof (rule arguments_delta_Ok)
    fix st1 st2 al call kind raw
    assume s: "stream_reserve (length t) st = Ok st1" "sb_kind b = ToolBlock al call kind raw"
        "st2 = update_block i (\<lambda>b. b\<lparr>sb_kind := ToolBlock al call kind (raw @ t)\<rparr>) st1"
      and c: "kind \<noteq> FunctionKind \<and> em' = (st2, out) \<or>
       kind = FunctionKind \<and> (\<exists>st3. stream_apply E (ArgumentsDelta (sb_id b) t) st2 = Ok st3 \<and>
         em' = stream_emit ''response.function_call_arguments.delta'' (at_item (sb_id b) i [(''delta'', JString t)]) (st3, out))"
    have same: "ms_blocks st1 = ms_blocks st" using s(1) by (auto simp: stream_reserve_def split: if_splits)
    have "shows_text (seen @ out) i b" using assms(2-4) em by (auto simp: tracks_def)
    then have "shows_text (seen @ out) i (b\<lparr>sb_kind := ToolBlock al call kind (raw @ t)\<rparr>)"
      using s(2) by (auto simp: shows_text_def)
    then have "tracks seen (st2, out)"
      unfolding s(3) using tracks_reserve [OF assms(2) [unfolded em] s(1)] assms(3) em same by (intro tracks_update) simp_all
    with c show ?thesis by (auto intro!: tracks_emit dest: tracks_apply)
  qed
qed

lemma open_block_Ok: "open_block st i = Ok b \<Longrightarrow> i < length (ms_blocks st) \<and> b = ms_blocks st ! i \<and> sb_open b"
  by (auto simp: open_block_def split: if_splits)

lemma tracks_block_delta:
  assumes "on_block_delta E v em = Ok em'" and "tracks seen em"
  shows "tracks seen em'"
proof -
  obtain st out where em: "em = (st, out)" by (cases em)
  from assms(1) em obtain i b t where b: "open_block st i = Ok b"
    and step: "sb_kind b = TextBlock \<and> stream_text_delta E i t (st, out) = Ok em' \<or> arguments_delta E i b t (st, out) = Ok em'"
    by (auto simp: on_block_delta_def split: if_splits)
  from open_block_Ok [OF b] step assms(2) em show ?thesis
    by (auto intro: tracks_text_delta tracks_arguments_delta)
qed

lemma tracks_close_text:
  assumes "close_text E i b em = Ok em'" and "tracks seen em"
  shows "tracks seen em'"
  using assms by (cases em) (auto simp: close_text_def Let_def intro!: tracks_emit dest: tracks_apply)

lemma tracks_fold_emit:
  assumes "tracks seen em" and "\<And>c. is_object (ev c)" and "kind \<noteq> ''response.output_text.delta''"
  shows "tracks seen (fold (\<lambda>c. stream_emit kind (ev c)) cs em)"
  using assms(1) by (induction cs arbitrary: em) (simp_all add: tracks_emit assms(2,3))

lemma restored_prefix_other:
  "restored_prefix i @ ''.delta'' \<noteq> ''response.output_text.delta''" "restored_prefix i @ ''.done'' \<noteq> ''response.output_text.delta''"
  by (simp_all add: restored_prefix_def split: tool_input.split)

lemma tool_output_not_message: "str_at (tool_output c status) ''type'' \<noteq> Some ''message''"
  by (simp add: tool_output_fields split: tool_input.split)

lemma tracks_close_tool:
  assumes "close_tool E i b al call kind raw em = Ok em'" and "tracks seen em" and "i < length (ms_blocks (fst em))"
    and "sb_kind (ms_blocks (fst em) ! i) \<noteq> TextBlock"
  shows "tracks seen em'"
proof -
  obtain st out where em: "em = (st, out)" by (cases em)
  from assms(1) [unfolded em] show ?thesis
  proof (rule close_tool_Ok)
    fix raw' restored tools v chunks and st1 st2 :: messages_stream
    assume s: "st1 = update_block i (\<lambda>b. b\<lparr>sb_kind := ToolBlock al call kind raw'\<rparr>)
         (st\<lparr>ms_prepared := (ms_prepared st)\<lparr>pm_tools := tools\<rparr>\<rparr>)"
      "st2 = update_block i (\<lambda>b. b\<lparr>sb_output := tool_output restored ''completed''\<rparr>) (st1\<lparr>ms_validator := v\<rparr>)"
      and em': "em' = stream_emit (restored_prefix (tc_input restored) @ ''.done'')
       (at_item (sb_id b) i [(case tc_input restored of Freeform _ \<Rightarrow> ''input'' | Json _ \<Rightarrow> ''arguments'',
          JString (call_text (tc_input restored)))])
       (fold (\<lambda>c. stream_emit (restored_prefix (tc_input restored) @ ''.delta'')
          (at_item (sb_id b) i [(''delta'', JString c)])) chunks (st2, out))"
    have "tracks seen (st\<lparr>ms_prepared := (ms_prepared st)\<lparr>pm_tools := tools\<rparr>\<rparr>, out)"
      using assms(2) em by (auto intro: tracks_state)
    then have "tracks seen (st1, out)" unfolding s(1)
      using assms(2-4) em by (intro tracks_update) (auto simp: tracks_def shows_text_def)
    then have "tracks seen (st1\<lparr>ms_validator := v\<rparr>, out)" by (auto intro: tracks_state)
    then have "tracks seen (st2, out)" unfolding s(2)
    proof (rule tracks_update)
      have "sb_kind (ms_blocks st1 ! i) \<noteq> TextBlock" if "i < length (ms_blocks st1)"
        using that by (auto simp: s(1) update_block_def)
      then show "shows_text (seen @ out) i ((ms_blocks (st1\<lparr>ms_validator := v\<rparr>) ! i)\<lparr>sb_output := tool_output restored ''completed''\<rparr>)"
        if "i < length (ms_blocks (st1\<lparr>ms_validator := v\<rparr>))"
        using that by (simp add: shows_text_def tool_output_not_message)
    qed
    then show ?thesis unfolding em' by (intro tracks_emit tracks_fold_emit) (simp_all add: restored_prefix_other)
  qed
qed

lemma on_block_stop_Ok:
  assumes "on_block_stop E v (st, out) = Ok em"
  obtains i b st1 out1 st2 where "open_block st i = Ok b"
    "(case sb_kind b of TextBlock \<Rightarrow> close_text E i b (st, out)
      | ToolBlock al call kind raw \<Rightarrow> close_tool E i b al call kind raw (st, out)) = Ok (st1, out1)"
    "stream_apply E (ItemFinished (sb_id b)) st1 = Ok st2"
    "em = stream_emit ''response.output_item.done''
       (obj [(''output_index'', JNumber (nat_text i)),
         (''item'', sb_output (ms_blocks (update_block i (\<lambda>b. b\<lparr>sb_open := False,
            sb_output := set_field (sb_output b) ''status'' (JString ''completed'')\<rparr>) st2) ! i))])
       (update_block i (\<lambda>b. b\<lparr>sb_open := False, sb_output := set_field (sb_output b) ''status'' (JString ''completed'')\<rparr>) st2, out1)"
  using assms by (auto simp: on_block_stop_def Let_def split: if_splits)

lemma shows_text_status:
  "shows_text seen i b \<Longrightarrow> shows_text seen i (b\<lparr>sb_open := False, sb_output := set_field (sb_output b) ''status'' x\<rparr>)"
  by (simp add: shows_text_def)

lemma tracks_block_stop:
  assumes "on_block_stop E v em = Ok em'" and "tracks seen em"
  shows "tracks seen em'"
proof -
  obtain st out where em: "em = (st, out)" by (cases em)
  from assms(1) [unfolded em] show ?thesis
  proof (rule on_block_stop_Ok)
    fix i b st1 out1 and st2 :: messages_stream
    let ?st3 = "update_block i (\<lambda>b. b\<lparr>sb_open := False, sb_output := set_field (sb_output b) ''status'' (JString ''completed'')\<rparr>) st2"
    assume b: "open_block st i = Ok b"
      and c: "(case sb_kind b of TextBlock \<Rightarrow> close_text E i b (st, out)
        | ToolBlock al call kind raw \<Rightarrow> close_tool E i b al call kind raw (st, out)) = Ok (st1, out1)"
      and a: "stream_apply E (ItemFinished (sb_id b)) st1 = Ok st2"
      and em': "em' = stream_emit ''response.output_item.done''
        (obj [(''output_index'', JNumber (nat_text i)), (''item'', sb_output (ms_blocks ?st3 ! i))]) (?st3, out1)"
    from c open_block_Ok [OF b] assms(2) em have "tracks seen (st1, out1)"
      by (cases "sb_kind b") (auto intro: tracks_close_text tracks_close_tool)
    then have t2: "tracks seen (st2, out1)" using a by (rule tracks_apply)
    then have "tracks seen (?st3, out1)"
      by (rule tracks_update) (use t2 in \<open>auto simp: tracks_def intro: shows_text_status\<close>)
    then show ?thesis unfolding em' by (rule tracks_emit) simp_all
  qed
qed

lemma tracks_start_text:
  assumes "start_text E i item block em = Ok em'" and "i < length (ms_blocks (fst em))"
    and "sb_kind (ms_blocks (fst em) ! i) = TextBlock" and "is_object (sb_output (ms_blocks (fst em) ! i))"
    and "\<And>j. j < length (ms_blocks (fst em)) \<Longrightarrow> j \<noteq> i \<Longrightarrow> shows_text (seen @ snd em) j (ms_blocks (fst em) ! j)"
    and "\<And>j. i \<le> j \<Longrightarrow> text_of j (seen @ snd em) = []"
  shows "tracks seen em'"
proof -
  obtain st out where em: "em = (st, out)" by (cases em)
  let ?f = "\<lambda>b. b\<lparr>sb_output := set_field (sb_output b) ''content'' (JArray [empty_part])\<rparr>"
  from assms(1) em obtain st1 t where s: "stream_apply E (PartStarted item 0 Text) st = Ok st1"
      "stream_text_delta E i t (stream_emit ''response.content_part.added'' (at_item item i [content_zero, (''part'', empty_part)])
         (update_block i ?f st1, out)) = Ok em'"
    by (auto simp: start_text_def Let_def)
  have same: "ms_blocks st1 = ms_blocks st" using s(1) by (auto dest: stream_apply_Ok)
  have empty: "output_text (set_field v ''content'' (JArray [empty_part])) = Some []" if "is_object v" for v
    using that by (simp add: output_text_def json_index_def jget_set_same) (simp add: empty_part_def str_at_def jget_obj)
  have "tracks seen (update_block i ?f st1, out)"
    unfolding tracks_def
  proof (intro conjI allI impI)
    fix j assume "j < length (ms_blocks (fst (update_block i ?f st1, out)))"
    then show "shows_text (seen @ snd (update_block i ?f st1, out)) j (ms_blocks (fst (update_block i ?f st1, out)) ! j)"
      using assms(2-6) em by (cases "j = i") (auto simp: update_block_def same shows_text_def empty)
  next
    fix j assume "length (ms_blocks (fst (update_block i ?f st1, out))) \<le> j"
    then show "text_of j (seen @ snd (update_block i ?f st1, out)) = []"
      using assms(2,6) em by (simp add: update_block_def same)
  qed
  then have "tracks seen (stream_emit ''response.content_part.added'' (at_item item i [content_zero, (''part'', empty_part)])
      (update_block i ?f st1, out))"
    by (rule tracks_emit) simp_all
  with s(2) show ?thesis
    by (rule tracks_text_delta) (use assms(2,3) em in \<open>simp_all add: update_block_def same\<close>)
qed

lemma open_kind_Ok:
  assumes "open_kind st item block kind = Ok (bk, shown, ek)"
  shows "bk = TextBlock \<and> is_object shown \<or> bk \<noteq> TextBlock \<and> str_at shown ''type'' \<noteq> Some ''message''"
  using assms by (auto simp: open_kind_def open_text_def open_tool_def tool_output_not_message split: if_splits)

lemma tracks_begin_block:
  assumes "begin_block E (length (ms_blocks st)) item block kind (st, out) = Ok em" and "tracks seen (st, out)"
  shows "tracks seen em"
  using assms(1)
proof (rule begin_block_Ok)
  fix bk shown ek and st1 :: messages_stream and em1
  let ?i = "length (ms_blocks st)"
  let ?b = "\<lparr>sb_id = item, sb_open = True, sb_kind = bk, sb_output = shown\<rparr>"
  assume o: "open_kind st item block kind = Ok (bk, shown, ek)" and a: "stream_apply E (ItemStarted item (of_nat ?i) ek) st = Ok st1"
    and em1: "em1 = stream_emit ''response.output_item.added'' (obj [(''output_index'', JNumber (nat_text ?i)), (''item'', shown)])
       (st1\<lparr>ms_blocks := ms_blocks st1 @ [?b]\<rparr>, out)"
    and step: "(if bk = TextBlock then start_text E ?i item block em1 else Ok em1) = Ok em"
  have same: "ms_blocks st1 = ms_blocks st" using a by (auto dest: stream_apply_Ok)
  have out1: "text_of j (snd em1) = text_of j out" for j by (simp add: em1 emit_other)
  have blocks1: "ms_blocks (fst em1) = ms_blocks st @ [?b]" by (simp add: em1 same)
  have old: "shows_text (seen @ snd em1) j (ms_blocks (fst em1) ! j)" if "j < ?i" for j
    using assms(2) that by (auto simp: tracks_def shows_text_def out1 blocks1 nth_append)
  have none: "text_of j (seen @ snd em1) = []" if "?i \<le> j" for j
    using assms(2) that by (simp add: tracks_def out1)
  show ?thesis
  proof (cases "bk = TextBlock")
    case True
    with step have "start_text E ?i item block em1 = Ok em" by simp
    then show ?thesis
      by (rule tracks_start_text) (use True open_kind_Ok [OF o] old none in \<open>auto simp: blocks1 nth_append\<close>)
  next
    case False
    have "shows_text (seen @ snd em1) j (ms_blocks (fst em1) ! j)" if "j < length (ms_blocks (fst em1))" for j
      using that old False open_kind_Ok [OF o] by (cases "j < ?i") (auto simp: blocks1 nth_append shows_text_def less_Suc_eq)
    moreover have "text_of j (seen @ snd em1) = []" if "length (ms_blocks (fst em1)) \<le> j" for j
      using that by (intro none) (simp add: blocks1)
    ultimately have "tracks seen em1" unfolding tracks_def by blast
    with False step show ?thesis by simp
  qed
qed

lemma tracks_convert:
  assumes "stream_convert E now st event = Ok em" and "tracks seen (st, [])"
  shows "tracks seen em"
proof -
  have start: "tracks seen em" if "on_message_start E now v (st, []) = Ok em" for v
    using that by (rule on_message_start_Ok)
      (use assms(2) in \<open>auto intro!: tracks_emit dest!: stream_apply_Ok intro: tracks_state\<close>)
  have delta: "tracks seen em" if "on_message_delta E v (st, []) = Ok em" for v
    using that assms(2) by (auto simp: on_message_delta_def Let_def split: if_splits dest!: stream_apply_Ok intro: tracks_state)
  have done_: "tracks seen (set_done em1)" if "tracks seen em1" for em1
    using that by (cases em1) (auto simp: set_done_def intro: tracks_state)
  have stop: "tracks seen em" if "on_message_stop E response v (st, []) = Ok em" for response v
    using that by (rule on_message_stop_Ok)
      (use assms(2) in \<open>auto intro!: done_ tracks_emit dest!: stream_apply_Ok intro: tracks_state\<close>)
  have begins: "tracks seen em" if "on_block_start E v (st, []) = Ok em" for v
    using that assms(2) by (auto elim!: on_block_start_Ok intro: tracks_begin_block)
  show ?thesis
    using assms start delta stop begins tracks_block_delta [of E _ "(st, [])" em] tracks_block_stop [of E _ "(st, [])" em]
    by (auto simp: stream_convert_def split: if_splits)
qed

section \<open>Streams as a whole\<close>

definition stream_live :: "messages_stream \<Rightarrow> bool" where
  "stream_live st \<longleftrightarrow> \<not> (ms_failed st \<or> ms_done st)"

text \<open>One call of the front end: the clock and the event.\<close>

definition stream_step :: "wire_env \<Rightarrow> messages_stream \<Rightarrow> u64 option \<times> sse_event \<Rightarrow> (ir_error + json list) \<times> messages_stream" where
  "stream_step E st = (\<lambda>(now, event). messages_stream_event E now st event)"

text \<open>The state of a stream: the blocks show what was emitted, the buffer is within its limit, and a finished
  stream has put its blocks into the response.\<close>

definition response_shows :: "messages_stream \<Rightarrow> bool" where
  "response_shows st \<longleftrightarrow>
     (\<exists>response items. ms_response st = Some response \<and> jget response ''output'' = Some (JArray items) \<and>
        list_all2 (\<lambda>b v. v = sb_output b \<or> v = set_field (sb_output b) ''status'' (JString ''incomplete'')) (ms_blocks st) items)"

definition stream_inv :: "json list \<Rightarrow> messages_stream \<Rightarrow> bool" where
  "stream_inv seen st \<longleftrightarrow>
     tracks seen (st, []) \<and> ms_buffered st \<le> ms_limit st \<and> pred_option is_object (ms_response st) \<and>
     (ms_done st \<longrightarrow> response_shows st)"

lemma final_response_output:
  assumes "is_object response"
  shows "is_object (final_response st response terminal reason u) \<and>
    (\<exists>items. jget (final_response st response terminal reason u) ''output'' = Some (JArray items) \<and>
      list_all2 (\<lambda>b v. v = sb_output b \<or> v = set_field (sb_output b) ''status'' (JString ''incomplete'')) (ms_blocks st) items)"
  using assms
  by (auto simp: final_response_def jget_set_field jget_set_same list.rel_map list_all2_same Let_def split: prod.split option.split)

text \<open>The blocks of a message come and go without touching the response or the end mark.\<close>

definition frame :: "emitting \<Rightarrow> json option \<times> bool" where
  "frame em = (ms_response (fst em), ms_done (fst em))"

lemma frame_simps [simp]:
  "frame (stream_emit kind e em) = frame em"
  "frame (update_block i f st, out) = frame (st, out)"
  "frame (st\<lparr>ms_validator := v\<rparr>, out) = frame (st, out)"
  "frame (st\<lparr>ms_blocks := bs\<rparr>, out) = frame (st, out)"
  "frame (st\<lparr>ms_prepared := p\<rparr>, out) = frame (st, out)"
  by (cases em; simp add: frame_def stream_emit_def update_block_def)+

lemma frame_fold_emit [simp]: "frame (fold (\<lambda>c. stream_emit kind (ev c)) cs em) = frame em"
  by (induction cs arbitrary: em) simp_all

lemma frame_apply: "stream_apply E e st = Ok st' \<Longrightarrow> frame (st', out) = frame (st, out)"
  by (auto dest!: stream_apply_Ok)

lemma frame_reserve: "stream_reserve n st = Ok st' \<Longrightarrow> frame (st', out) = frame (st, out)"
  by (auto simp: frame_def stream_reserve_def split: if_splits)

lemma frame_text_delta: "stream_text_delta E i t em = Ok em' \<Longrightarrow> frame em' = frame em"
  by (cases em) (auto elim!: stream_text_delta_Ok simp: frame_reserve frame_apply)

lemma frame_arguments_delta: "arguments_delta E i b t em = Ok em' \<Longrightarrow> frame em' = frame em"
  by (cases em) (auto elim!: arguments_delta_Ok simp: frame_reserve frame_apply)

lemma frame_start_text: "start_text E i item block em = Ok em' \<Longrightarrow> frame em' = frame em"
  by (cases em) (auto simp: start_text_def Let_def frame_apply dest!: frame_text_delta)

lemma frame_close_tool: "close_tool E i b al call kind raw em = Ok em' \<Longrightarrow> frame em' = frame em"
  by (cases em) (auto elim!: close_tool_Ok simp del: append.simps)

lemma frame_close_text: "close_text E i b em = Ok em' \<Longrightarrow> frame em' = frame em"
  by (cases em) (auto simp: close_text_def Let_def frame_apply)

lemma frame_begin_block:
  assumes "begin_block E i item block kind (st, out) = Ok em"
  shows "frame em = frame (st, out)"
  using assms
proof (rule begin_block_Ok)
  fix bk shown ek em1 and st1 :: messages_stream
  assume a: "stream_apply E (ItemStarted item (of_nat i) ek) st = Ok st1"
    and em1: "em1 = stream_emit ''response.output_item.added'' (obj [(''output_index'', JNumber (nat_text i)), (''item'', shown)])
       (st1\<lparr>ms_blocks := ms_blocks st1 @ [\<lparr>sb_id = item, sb_open = True, sb_kind = bk, sb_output = shown\<rparr>]\<rparr>, out)"
    and step: "(if bk = TextBlock then start_text E i item block em1 else Ok em1) = Ok em"
  have "frame em1 = frame (st, out)" unfolding em1 using frame_apply [OF a] by simp
  moreover have "frame em = frame em1" using step by (cases "bk = TextBlock") (simp_all add: frame_start_text)
  ultimately show ?thesis by simp
qed

lemma frame_block_start: "on_block_start E v em = Ok em' \<Longrightarrow> frame em' = frame em"
  by (cases em) (auto elim!: on_block_start_Ok dest: frame_begin_block)

lemma frame_block_delta: "on_block_delta E v em = Ok em' \<Longrightarrow> frame em' = frame em"
  by (cases em) (auto simp: on_block_delta_def split: if_splits intro: frame_text_delta frame_arguments_delta)

lemma frame_block_stop: "on_block_stop E v em = Ok em' \<Longrightarrow> frame em' = frame em"
  by (cases em) (auto elim!: on_block_stop_Ok simp: frame_apply split: block_kind.splits dest!: frame_close_text frame_close_tool)

lemma convert_response:
  assumes "stream_convert E now st event = Ok em" and "\<not> ms_done st" and "pred_option is_object (ms_response st)"
  shows "pred_option is_object (ms_response (fst em)) \<and> (ms_done (fst em) \<longrightarrow> response_shows (fst em))"
proof -
  have same: ?thesis if "frame em = frame (st, [])" using that assms(2,3) by (simp add: frame_def)
  have start: ?thesis if "on_message_start E now v (st, []) = Ok em" for v
    using that
  proof (rule on_message_start_Ok)
    fix u rid seconds tokens and st1 st2 :: messages_stream
    let ?r = "created_response (ms_prepared st2) rid seconds"
    assume s: "stream_apply E (Started rid) (st\<lparr>ms_usage := u\<rparr>) = Ok st1" "stream_apply E (event_ir.UsageUpdated tokens) st1 = Ok st2"
      and em: "em = stream_emit ''response.created'' (obj [(''response'', ?r)]) (st2\<lparr>ms_response := Some ?r\<rparr>, [])"
    have "ms_done st2 = ms_done st" using s by (auto dest!: stream_apply_Ok)
    moreover have "is_object ?r" by (simp add: created_response_def reflect_format_def split: option.split)
    ultimately show ?thesis using assms(2) by (simp add: em stream_emit_def)
  qed
  have delta: ?thesis if "on_message_delta E v (st, []) = Ok em" for v
    using that assms(2,3) by (auto simp: on_message_delta_def Let_def split: if_splits dest!: stream_apply_Ok)
  have stop: ?thesis if "on_message_stop E response v (st, []) = Ok em" and "ms_response st = Some response" for response v
    using that(1)
  proof (rule on_message_stop_Ok)
    fix terminal reason u and st1 :: messages_stream
    let ?r = "final_response st1 response terminal reason u"
    assume e: "em = set_done (stream_emit (''response.'' @ (if terminal = terminal.Completed then ''completed'' else ''incomplete''))
         (obj [(''response'', ?r)]) (st1\<lparr>ms_response := Some ?r\<rparr>, []))"
    have "is_object response" using assms(3) that(2) by simp
    from final_response_output [OF this, of st1 terminal reason u] show ?thesis
      by (auto simp: e stream_emit_def set_done_def response_shows_def)
  qed
  show ?thesis
    using assms(1) same start delta stop frame_block_start [of E _ "(st, [])" em] frame_block_delta [of E _ "(st, [])" em]
      frame_block_stop [of E _ "(st, [])" em]
    by (auto simp: stream_convert_def split: if_splits)
qed

lemma stream_inv_step:
  assumes "stream_step E st e = (r, st')" and "stream_inv seen st"
  shows "stream_inv (seen @ emitted [r]) st' \<and> ms_limit st' = ms_limit st"
proof -
  obtain now event where e: "e = (now, event)" by (cases e)
  show ?thesis
  proof (cases "stream_live st \<and> is_ok (stream_convert E now st event)")
    case True
    then obtain out where c: "stream_convert E now st event = Ok (st', out)" "r = Ok out"
      using assms(1) e by (auto simp: is_ok_iff stream_step_def messages_stream_event_def stream_live_def)
    have t: "tracks (seen @ out) (st', [])"
      using tracks_convert [OF c(1)] assms(2) by (auto simp: stream_inv_def tracks_def)
    have a: "advances (st, []) (st', out)" by (rule advances_convert [OF c(1)])
    show ?thesis
      using t a convert_response [OF c(1)] True assms(2) c(2)
      by (auto simp: stream_inv_def advances_def stream_live_def)
  next
    case False
    then have "emitted [r] = []" "st' = st \<or> st' = st\<lparr>ms_failed := True\<rparr>"
      using assms(1) e by (auto simp: stream_step_def messages_stream_event_def stream_live_def split: sum.splits prod.splits if_splits)
    with assms(2) show ?thesis by (auto simp: stream_inv_def tracks_def response_shows_def)
  qed
qed

lemma stream_inv_new: "messages_stream_new p limit = Ok st0 \<Longrightarrow> stream_inv [] st0 \<and> ms_limit st0 = limit"
  by (auto simp: messages_stream_new_def stream_inv_def tracks_def split: if_splits)

interpretation msgs: wire_stream "stream_step E" stream_live messages_stream_complete ms_sequence
    "\<lambda>seen st. stream_inv seen st \<and> ms_limit st = limit"
proof
  fix st e
  assume "\<not> stream_live st"
  then show "stream_step E st e = (Err InvalidEventOrder, st)"
    by (cases e) (simp add: stream_step_def messages_stream_event_def stream_live_def)
next
  fix st e x st'
  assume "stream_live st" "stream_step E st e = (Err x, st')"
  then show "\<not> stream_live st' \<and> \<not> messages_stream_complete st'"
    by (cases e) (auto simp: stream_step_def messages_stream_event_def stream_live_def messages_stream_complete_def
        split: sum.splits prod.splits)
next
  fix st e r st' seen
  assume "stream_step E st e = (r, st')" "stream_inv seen st \<and> ms_limit st = limit"
  then show "stream_inv (seen @ emitted [r]) st' \<and> ms_limit st' = limit" using stream_inv_step by blast
next
  fix st e out st'
  assume "stream_step E st e = (Ok out, st')"
  then obtain now event where "stream_convert E now st event = Ok (st', out)"
    by (cases e) (auto simp: stream_step_def messages_stream_event_def split: if_splits sum.splits prod.splits)
  from advances_convert [OF this]
  show "map sequence_of out = numbers_from (ms_sequence st) (length out) \<and> ms_sequence st' = ms_sequence st + of_nat (length out)"
    by (auto simp: advances_def)
qed

text \<open>The events of a Messages stream carry the sequence numbers 0, 1, 2, ... without gap or repetition,
  whatever the provider sends and however the stream ends.\<close>

theorem messages_stream_numbered:
  assumes "messages_stream_new p limit = Ok st0" and "run_machine (stream_step E) st0 es = (outs, st)"
  shows "map sequence_of (emitted outs) = numbers_from 0 (length (emitted outs))"
  using msgs.run_numbers [OF assms(2) stream_inv_new [OF assms(1)]] assms(1)
  by (auto simp: messages_stream_new_def split: if_splits)

text \<open>C36. What a client assembles from the deltas of a Messages stream is what the final response says: in a
  stream that completed, each message item of the final response has as its text exactly the
  concatenation of the text deltas emitted for its index.\<close>

theorem messages_stream_text:
  assumes "messages_stream_new p limit = Ok st0" and "run_machine (stream_step E) st0 es = (outs, st)"
    and "messages_stream_complete st"
  shows "\<exists>response items. ms_response st = Some response \<and> jget response ''output'' = Some (JArray items) \<and>
    (\<forall>i < length items. str_at (items ! i) ''type'' = Some ''message'' \<longrightarrow>
       output_text (items ! i) = Some (text_of i (emitted outs)))"
proof -
  have inv: "stream_inv (emitted outs) st" using msgs.run_inv [OF assms(2) stream_inv_new [OF assms(1)]] by simp
  with assms(3) obtain response items where r: "ms_response st = Some response" "jget response ''output'' = Some (JArray items)"
    and items: "list_all2 (\<lambda>b v. v = sb_output b \<or> v = set_field (sb_output b) ''status'' (JString ''incomplete'')) (ms_blocks st) items"
    by (auto simp: stream_inv_def messages_stream_complete_def response_shows_def)
  have "output_text (items ! i) = Some (text_of i (emitted outs))"
    if i: "i < length items" and m: "str_at (items ! i) ''type'' = Some ''message''" for i
  proof -
    from items i have "i < length (ms_blocks st)"
      and v: "items ! i = sb_output (ms_blocks st ! i) \<or> items ! i = set_field (sb_output (ms_blocks st ! i)) ''status'' (JString ''incomplete'')"
      by (auto simp: list_all2_conv_all_nth)
    with inv have "shows_text (emitted outs) i (ms_blocks st ! i)" by (simp add: stream_inv_def tracks_def)
    with v m show ?thesis by (auto simp: shows_text_def)
  qed
  with r show ?thesis by blast
qed

text \<open>A Messages stream never holds more text and arguments than the limit it was opened with, whatever the
  provider sends.\<close>

theorem messages_stream_bounded:
  assumes "messages_stream_new p limit = Ok st0"
  shows "ms_buffered (snd (run_machine (stream_step E) st0 es)) \<le> limit"
proof -
  obtain outs st where run: "run_machine (stream_step E) st0 es = (outs, st)" by fastforce
  from msgs.run_inv [OF run stream_inv_new [OF assms]] have "stream_inv (emitted outs) st \<and> ms_limit st = limit" by simp
  then show ?thesis by (simp add: run stream_inv_def)
qed

section \<open>A worked stream\<close>

definition demo_stream_parse :: "string \<Rightarrow> raw_json option" where
  "demo_stream_parse s =
     (if s = ''a'' then Some (RObject [(''type'', RString ''message_start''), (''message'', RObject
          [(''type'', RString ''message''), (''role'', RString ''assistant''), (''model'', RString ''m''), (''id'', RString ''x''),
           (''content'', RArray []), (''usage'', RObject [(''input_tokens'', RNumber ''3''), (''output_tokens'', RNumber ''0'')])])])
      else if s = ''b'' then Some (RObject [(''type'', RString ''content_block_start''), (''index'', RNumber ''0''),
          (''content_block'', RObject [(''type'', RString ''text''), (''text'', RString ''hi'')])])
      else if s = ''d'' then Some (RObject [(''type'', RString ''content_block_stop''), (''index'', RNumber ''0'')])
      else if s = ''e'' then Some (RObject [(''type'', RString ''message_delta''), (''delta'', RObject [(''stop_reason'', RString ''end_turn'')]),
          (''usage'', RObject [(''output_tokens'', RNumber ''4'')])])
      else if s = ''f'' then Some (RObject [(''type'', RString ''message_stop'')])
      else None)"

definition demo_stream_env :: wire_env where "demo_stream_env = demo_wire_env\<lparr>we_parse := demo_stream_parse\<rparr>"

definition demo_stream_events :: "(u64 option \<times> sse_event) list" where
  "demo_stream_events = map (\<lambda>(k, d). (Some 0, \<lparr>se_event = k, se_data = d\<rparr>))
     [(''message_start'', ''a''), (''content_block_start'', ''b''), (''content_block_stop'', ''d''), (''message_delta'', ''e'')]"

definition demo_stream0 :: messages_stream where
  "demo_stream0 =
     \<lparr>ms_prepared = demo_prepared, ms_validator = \<lparr>ev_started = False, ev_terminal = None, ev_terminal_reason = None,
        ev_items = fmempty, ev_indices = {}, ev_calls = {}, ev_parts = 0, ev_argument_bytes = 0, ev_usage = None,
        ev_limits = default_limits\<rparr>,
      ms_response = None, ms_blocks = [], ms_stop = None, ms_usage = JNull, ms_sequence = 0, ms_buffered = 0,
      ms_limit = 1000, ms_failed = False, ms_done = False\<rparr>"

lemma demo_stream_new: "messages_stream_new demo_prepared 1000 = Ok demo_stream0"
  by (simp add: messages_stream_new_def demo_stream0_def event_validator_new_def default_limits_def)

definition demo_last_event :: "u64 option \<times> sse_event" where
  "demo_last_event = (Some 0, \<lparr>se_event = ''message_stop'', se_data = ''f''\<rparr>)"

text \<open>A stream that has all but the last event.\<close>

definition ready_to_stop :: "wire_env \<Rightarrow> messages_stream \<Rightarrow> bool" where
  "ready_to_stop E st \<longleftrightarrow>
     stream_live st \<and> 1 \<le> ms_limit st \<and> ms_response st \<noteq> None \<and> is_ok (messages_usage (ms_usage st)) \<and>
     (case ms_stop st of
        None \<Rightarrow> False
      | Some stop \<Rightarrow>
          (case messages_terminal (ms_prepared st) stop (stream_tool_count st) of
             Inl _ \<Rightarrow> False
           | Inr (t, reason) \<Rightarrow> is_ok (apply_ok (we_serde E) (ms_validator st) (Finished t reason))))"

lemma stop_completes:
  assumes "ready_to_stop demo_stream_env st"
  shows "\<exists>out st'. stream_step demo_stream_env st demo_last_event = (Ok [out], st') \<and> messages_stream_complete st' \<and>
    str_at out ''type'' \<noteq> Some ''response.output_text.delta''"
proof -
  from assms obtain response stop t reason v u where s: "ms_response st = Some response" "ms_stop st = Some stop"
      "messages_terminal (ms_prepared st) stop (stream_tool_count st) = Ok (t, reason)"
      "apply_ok (we_serde demo_stream_env) (ms_validator st) (Finished t reason) = Ok v" "messages_usage (ms_usage st) = Ok u"
    by (auto simp: ready_to_stop_def is_ok_iff split: option.splits sum.splits)
  have read: "json_decode (we_parse demo_stream_env) ''f'' = Ok (JObject (fmap_of_list [(''type'', JString ''message_stop'')]))"
    by (simp add: json_decode_def demo_stream_env_def demo_stream_parse_def)
  have fields: "known_fields (JObject (fmap_of_list [(''type'', JString ''message_stop'')])) [''type''] = Ok ()"
    "json_string (JObject (fmap_of_list [(''type'', JString ''message_stop'')])) ''type'' = Ok ''message_stop''"
    by code_simp+
  show ?thesis
    using assms s read fields
    by (simp add: stream_step_def demo_last_event_def messages_stream_event_def ready_to_stop_def stream_live_def stream_convert_def
        on_message_stop_def stream_apply_def Let_def set_done_def stream_emit_def messages_stream_complete_def numbered_type)
qed

lemma demo_stream_ready:
  "(let r = run_machine (stream_step demo_stream_env) demo_stream0 demo_stream_events
    in ready_to_stop demo_stream_env (snd r) \<and> text_of 0 (emitted (fst r)) = ''hi'')"
  by code_simp

lemma run_machine_snoc:
  assumes "run_machine step s es = (outs, s1)" and "step s1 e = (r, s2)"
  shows "run_machine step s (es @ [e]) = (outs @ [r], s2)"
  using assms by (induction es arbitrary: s outs) (auto simp: Let_def split: prod.splits)

theorem messages_stream_text_witness:
  "\<exists>outs st response items. run_machine (stream_step demo_stream_env) demo_stream0 (demo_stream_events @ [demo_last_event]) = (outs, st) \<and>
     messages_stream_complete st \<and> ms_response st = Some response \<and> jget response ''output'' = Some (JArray items) \<and>
     text_of 0 (emitted outs) = ''hi''"
proof -
  obtain outs st where run: "run_machine (stream_step demo_stream_env) demo_stream0 demo_stream_events = (outs, st)" by fastforce
  with demo_stream_ready have r: "ready_to_stop demo_stream_env st" "text_of 0 (emitted outs) = ''hi''" by (simp_all add: Let_def)
  from stop_completes [OF r(1)] obtain out st' where
    last: "stream_step demo_stream_env st demo_last_event = (Ok [out], st')" "messages_stream_complete st'"
      "str_at out ''type'' \<noteq> Some ''response.output_text.delta''" by blast
  note whole = run_machine_snoc [OF run last(1)]
  have "text_of 0 (emitted (outs @ [Ok [out]])) = ''hi''" using r(2) last(3) by (simp add: emitted_def text_of_def delta_at_def)
  with messages_stream_text [OF demo_stream_new whole last(2)] whole last(2) show ?thesis by blast
qed

theorem messages_stream_numbered_witness:
  "map sequence_of (emitted (fst (run_machine (stream_step demo_stream_env) demo_stream0 demo_stream_events))) =
     numbers_from 0 (length (emitted (fst (run_machine (stream_step demo_stream_env) demo_stream0 demo_stream_events))))"
  by (rule messages_stream_numbered [OF demo_stream_new]) (rule prod.collapse [symmetric])

theorem messages_stream_bounded_witness:
  "ms_buffered (snd (run_machine (stream_step demo_stream_env) demo_stream0 demo_stream_events)) \<le> 1000"
  by (rule messages_stream_bounded [OF demo_stream_new])
end
