(* ===== verification/Chat_Adapter.thy ===== *)
theory Chat_Adapter
  imports Messages_Adapter
begin

text \<open>
  The Chat Completions adapter, \<open>src/src/adapters/chat.rs\<close> and \<open>src/src/adapters/chat/reasoning.rs\<close>: the
  request payload, the decoding of a complete provider response, and the managed variant for the two
  reasoning dialects.

  \<open>messages\<close> is a list of JSON values, as in the code: replayed assistant messages are put into it as
  the provider sent them. Appending a tool call to such a message relies on its \<open>tool_calls\<close> being an
  array and panics otherwise; \<open>chat_failure\<close> tells the panic from a rejected request.
\<close>

section \<open>Requests\<close>

record prepared_chat =
  pc_payload :: json
  pc_model :: string
  pc_tools :: prepared_tools
  pc_reasoning_contract :: "reasoning_contract option"
  pc_reasoning_controls :: "json option"

text \<open>\<open>Panicked\<close> is the one expectation of the encoder that depends on what is replayed,
  \<open>expect("constructed tool array")\<close>; the other expectations on its way are about values it has just
  built itself (see \<open>Bridge\<close> for those of the registry).\<close>

datatype chat_failure = Rejected ir_error | Panicked

definition reject :: "ir_error + 'a \<Rightarrow> chat_failure + 'a" where
  "reject m = (case m of Inl e \<Rightarrow> Err (Rejected e) | Inr x \<Rightarrow> Ok x)"

fun chat_role :: "role \<Rightarrow> string" where
  "chat_role System = ''system''"
| "chat_role Developer = ''developer''"
| "chat_role User = ''user''"
| "chat_role Assistant = ''assistant''"

fun chat_part :: "role \<Rightarrow> part_kind \<Rightarrow> ir_error + json" where
  "chat_part r (PartText _ t) = Ok (text_block t)"
| "chat_part r (PartImage url detail) =
     (if r = User \<and> starts_with ''https://'' url then
        (case detail of
           None \<Rightarrow> Ok (obj [(''type'', JString ''image_url''), (''image_url'', obj [(''url'', JString url)])])
         | Some d \<Rightarrow>
             if d \<in> {''auto'', ''low'', ''high''}
             then Ok (obj [(''type'', JString ''image_url''),
               (''image_url'', obj [(''url'', JString url), (''detail'', JString d)])])
             else Err UnsupportedFeature)
      else Err UnsupportedFeature)"
| "chat_part r _ = Err UnsupportedFeature"

fun chat_content :: "content \<Rightarrow> role \<Rightarrow> ir_error + json" where
  "chat_content (ContentText t) r = Ok (JString t)"
| "chat_content (ContentParts parts) r =
     and_then (traverse (chat_part r \<circ> part_kind) parts) (\<lambda>ps. Ok (JArray ps))"

record chat_state =
  ch_messages :: "json list"
  ch_pending :: open_calls
  ch_instructions :: "json list"

definition chat_push :: "json \<Rightarrow> chat_state \<Rightarrow> chat_state" where
  "chat_push m st = st\<lparr>ch_messages := ch_messages st @ [m]\<rparr>"

definition last_chat_role :: "json list \<Rightarrow> json" where
  "last_chat_role ms = (if ms = [] then JNull else json_index (last ms) ''role'')"

definition native_assistant :: "chat_dialect option \<Rightarrow> native_state \<Rightarrow> ir_error + json \<times> bool" where
  "native_assistant dialect native =
     and_then (native_state_builtin native) (\<lambda>n.
       case n of
         ChatReplay version prior assistant _ \<Rightarrow>
           if version = 1 then Ok (assistant, Some prior = dialect) else Err ContinuityMismatch
       | _ \<Rightarrow> Err ContinuityMismatch)"

definition chat_replay ::
  "chat_dialect option \<Rightarrow> item list \<Rightarrow> nat \<Rightarrow> nat \<Rightarrow> native_state \<Rightarrow> chat_state \<Rightarrow> chat_failure + chat_state" where
  "chat_replay dialect items position stop native st =
     and_then (reject (native_assistant dialect native)) (\<lambda>(assistant, same).
       if \<not> same \<or> stop < position \<or> stop > length items \<or> ch_pending st \<noteq> fmempty
       then Err (Rejected ContinuityMismatch)
       else Ok (chat_push assistant
         (st\<lparr>ch_pending := fold note_native_call (take (stop - position) (drop position items)) (ch_pending st)\<rparr>)))"

definition chat_closing :: "chat_dialect option \<Rightarrow> nat \<Rightarrow> native_state \<Rightarrow> chat_state \<Rightarrow> chat_failure + chat_state" where
  "chat_closing dialect stop native st =
     and_then (reject (native_assistant dialect native)) (\<lambda>(assistant, same).
       if \<not> same then Err (Rejected ContinuityMismatch) else Ok (chat_push assistant st))"

definition chat_instruction :: "nat \<Rightarrow> message \<Rightarrow> chat_state \<Rightarrow> chat_failure + chat_state" where
  "chat_instruction position m st =
     (if ch_messages st \<noteq> [] then Err (Rejected UnsupportedFeature)
      else and_then (reject (chat_content (msg_content m) (msg_role m))) (\<lambda>c.
        Ok (st\<lparr>ch_instructions := ch_instructions st @
          [obj [(''role'', JString (chat_role (msg_role m))), (''position'', JNumber (nat_text position)), (''content'', c)]]\<rparr>)))"

definition chat_message :: "string \<Rightarrow> json \<Rightarrow> json" where
  "chat_message r c = obj [(''role'', JString r), (''content'', c)]"

definition chat_turn :: "message \<Rightarrow> chat_state \<Rightarrow> chat_failure + chat_state" where
  "chat_turn m st =
     (if ch_pending st \<noteq> fmempty then Err (Rejected InvalidToolMapping)
      else and_then (reject (chat_content (msg_content m) (msg_role m))) (\<lambda>c.
        Ok (chat_push (chat_message (chat_role (msg_role m)) c) st)))"

definition chat_tool_call :: "call_id \<Rightarrow> string \<Rightarrow> string \<Rightarrow> json" where
  "chat_tool_call cid name raw =
     obj [(''id'', JString (call_id_str cid)), (''type'', JString ''function''),
       (''function'', obj [(''name'', JString name), (''arguments'', JString raw)])]"

definition calls_message :: "json \<Rightarrow> json" where
  "calls_message tool =
     obj [(''role'', JString ''assistant''), (''content'', JNull), (''tool_calls'', JArray [tool])]"

definition push_tool_call :: "json list \<Rightarrow> json \<Rightarrow> chat_failure + json list" where
  "push_tool_call ms tool =
     (if last_chat_role ms = JString ''assistant'' then
        (case (case jget (last ms) ''tool_calls'' of Some v \<Rightarrow> v | None \<Rightarrow> JArray []) of
           JArray calls \<Rightarrow> Ok (butlast ms @ [set_field (last ms) ''tool_calls'' (JArray (calls @ [tool]))])
         | _ \<Rightarrow> Err Panicked)
      else Ok (ms @ [calls_message tool]))"

definition lowered_arguments ::
  "wire_env \<Rightarrow> custom_tool_bridge \<Rightarrow> tool_call \<Rightarrow> ir_error + string \<times> string" where
  "lowered_arguments E registry call =
     and_then (lower_call (we_serde E) (we_lower E) registry call) (\<lambda>lowered.
       case tc_input lowered of
         Freeform _ \<Rightarrow> Err UnsupportedFeature
       | Json raw \<Rightarrow>
           and_then (ok_or (sj_parse_value (we_serde E) raw) InvalidJsonArguments) (\<lambda>v.
             if \<not> is_object v then Err InvalidJsonArguments else Ok (tool_name (tc_tool lowered), raw)))"

definition chat_call ::
  "wire_env \<Rightarrow> custom_tool_bridge \<Rightarrow> tool_call \<Rightarrow> chat_state \<Rightarrow> chat_failure + chat_state" where
  "chat_call E registry call st =
     (if last_chat_role (ch_messages st) = JString ''tool'' \<and> ch_pending st \<noteq> fmempty
      then Err (Rejected InvalidToolMapping)
      else and_then (reject (lowered_arguments E registry call)) (\<lambda>(name, raw).
        and_then (push_tool_call (ch_messages st) (chat_tool_call (tc_call_id call) name raw)) (\<lambda>ms.
          Ok (st\<lparr>ch_messages := ms, ch_pending := fmupd (tc_call_id call) (call, False) (ch_pending st)\<rparr>))))"

definition chat_tool_message :: "tool_result \<Rightarrow> string \<Rightarrow> json" where
  "chat_tool_message result out =
     obj [(''role'', JString ''tool''), (''tool_call_id'', JString (call_id_str (tr_call_id result))), (''content'', JString out)]"

definition chat_result ::
  "wire_env \<Rightarrow> custom_tool_bridge \<Rightarrow> tool_result \<Rightarrow> chat_state \<Rightarrow> chat_failure + chat_state" where
  "chat_result E registry result st =
     and_then (ok_or (fmlookup (ch_pending st) (tr_call_id result)) (Rejected InvalidToolMapping)) (\<lambda>(call, native).
     and_then (if native then Ok ()
         else and_then (reject (lower_result (we_serde E) (we_lower E) registry result call)) (\<lambda>_. Ok ())) (\<lambda>_.
     and_then (reject (result_text (we_serde E) registry result call)) (\<lambda>out.
       Ok (chat_push (chat_tool_message result out)
         (st\<lparr>ch_pending := fmdrop (tr_call_id result) (ch_pending st)\<rparr>)))))"

fun chat_item ::
  "wire_env \<Rightarrow> custom_tool_bridge \<Rightarrow> bool \<Rightarrow> nat \<Rightarrow> item \<Rightarrow> chat_state \<Rightarrow> chat_failure + chat_state" where
  "chat_item E registry bridge position (ItemMessage m) st =
     (if bridge \<and> msg_role m \<in> {System, Developer} then chat_instruction position m st else chat_turn m st)"
| "chat_item E registry bridge position (ItemToolCall call) st = chat_call E registry call st"
| "chat_item E registry bridge position (ItemToolResult result) st = chat_result E registry result st"
| "chat_item E registry bridge position _ st = Err (Rejected UnsupportedFeature)"

definition chat_preface :: "bool \<Rightarrow> request_ir \<Rightarrow> json list" where
  "chat_preface bridge r =
     (case req_instructions r of
        Some t \<Rightarrow> if bridge then [] else [chat_message ''system'' (JString t)]
      | None \<Rightarrow> [])"

definition chat_input ::
  "wire_env \<Rightarrow> custom_tool_bridge \<Rightarrow> bool \<Rightarrow> chat_dialect option \<Rightarrow> provider_history \<Rightarrow> request_ir \<Rightarrow>
     chat_failure + chat_state" where
  "chat_input E registry bridge dialect history r =
     (let st = \<lparr>ch_messages = chat_preface bridge r, ch_pending = fmempty, ch_instructions = initial_envelope bridge r\<rparr> in
      and_then (case req_input r of
          Some (TextInput t) \<Rightarrow> Ok (chat_push (chat_message ''user'' (JString t)) st)
        | Some (ItemsInput items) \<Rightarrow>
            walk_items (chat_item E registry bridge) (chat_replay dialect items) (chat_closing dialect) history items 0 st
        | None \<Rightarrow> Ok st) (\<lambda>st.
      if ch_messages st = [] \<or> ch_pending st \<noteq> fmempty then Err (Rejected InvalidToolMapping) else Ok st))"

definition chat_messages :: "wire_env \<Rightarrow> bool \<Rightarrow> chat_state \<Rightarrow> json list" where
  "chat_messages E bridge st =
     (if bridge then
        chat_message ''system'' (JString (INSTRUCTIONS_PREAMBLE @ [CHR 10] @ sj_value (we_serde E) (JArray (ch_instructions st)))) #
          ch_messages st
      else ch_messages st)"

section \<open>The payload\<close>

definition chat_plan_ok :: "translation_plan \<Rightarrow> bool \<Rightarrow> bool" where
  "chat_plan_ok plan managed \<longleftrightarrow>
     list_all (messages_feature_ok plan managed) (filter (\<lambda>f. f \<in> tp_required plan) feature_order) \<and>
     \<not> list_ex (bridge_missing plan)
       [(CustomTools, CustomToolJson), (NamespacedTools, ToolNamespace), (CustomGrammar, CodexPatchGrammar)]"

definition asks_stream :: "request_ir \<Rightarrow> bool" where
  "asks_stream r = (go_stream (req_generation r) = Some True)"

definition chat_base :: "request_ir \<Rightarrow> translation_plan \<Rightarrow> u64 \<Rightarrow> json list \<Rightarrow> fields" where
  "chat_base r plan maximum messages =
     (let payload = fmap_of_list [(''model'', JString (rs_model (tp_route plan))), (''messages'', JArray messages),
        (''store'', JBool False), (''n'', JNumber ''1''), (''stream'', JBool (asks_stream r)),
        (''max_completion_tokens'', json_u64 maximum)] in
      if asks_stream r then fmupd ''stream_options'' (obj [(''include_usage'', JBool True)]) payload else payload)"

definition chat_tool :: "tool_definition \<Rightarrow> ir_error + json" where
  "chat_tool t =
     (if \<not> portable_name (tool_name (td_identity t)) then Err UnsupportedFeature
      else case td_kind t of
        FunctionTool parameters strict \<Rightarrow>
          let schema = (case parameters of Some s \<Rightarrow> s | None \<Rightarrow> empty_schema) in
          if \<not> is_object schema \<or> str_at schema ''type'' \<noteq> Some ''object'' then Err UnsupportedFeature
          else Ok (obj [(''type'', JString ''function''),
            (''function'', obj ([(''name'', JString (tool_name (td_identity t))), (''parameters'', schema)] @
              (case td_description t of Some d \<Rightarrow> [(''description'', JString d)] | None \<Rightarrow> []) @
              (case strict of Some b \<Rightarrow> [(''strict'', JBool b)] | None \<Rightarrow> [])))])
      | _ \<Rightarrow> Err UnsupportedFeature)"

fun chat_choice :: "tool_choice \<Rightarrow> ir_error + json" where
  "chat_choice ChoiceAuto = Ok (JString ''auto'')"
| "chat_choice ChoiceNone = Ok (JString ''none'')"
| "chat_choice ChoiceRequired = Ok (JString ''required'')"
| "chat_choice (ChoiceNamed tool _ _) =
     Ok (obj [(''type'', JString ''function''), (''function'', obj [(''name'', JString (tool_name tool))])])"
| "chat_choice (ChoiceExtension _ _) = Err UnsupportedFeature"

definition chat_choice_field :: "custom_tool_bridge \<Rightarrow> request_ir \<Rightarrow> fields \<Rightarrow> ir_error + fields" where
  "chat_choice_field registry r payload =
     (case go_tool_choice (req_generation r) of
        None \<Rightarrow> Ok payload
      | Some choice \<Rightarrow>
          and_then (lower_choice registry choice) (\<lambda>lowered.
          and_then (chat_choice lowered) (\<lambda>v. Ok (fmupd ''tool_choice'' v payload))))"

definition chat_parallel_field :: "request_ir \<Rightarrow> fields \<Rightarrow> fields" where
  "chat_parallel_field r payload =
     (case go_parallel_tool_calls (req_generation r) of
        Some b \<Rightarrow> fmupd ''parallel_tool_calls'' (JBool b) payload
      | None \<Rightarrow> payload)"

fun chat_format :: "output_format \<Rightarrow> ir_error + json" where
  "chat_format (FormatText _) = Ok (obj [(''type'', JString ''text'')])"
| "chat_format (FormatJsonObject _) = Ok (obj [(''type'', JString ''json_object'')])"
| "chat_format (FormatJsonSchema name schema strict _) =
     (if name = [] \<or> \<not> portable_name name \<or> \<not> is_object schema then Err (InvalidField ''response_format'')
      else Ok (obj [(''type'', JString ''json_schema''),
        (''json_schema'', obj ([(''name'', JString name), (''schema'', schema)] @
          (case strict of Some b \<Rightarrow> [(''strict'', JBool b)] | None \<Rightarrow> [])))]))"
| "chat_format _ = Err UnsupportedFeature"

definition chat_format_field :: "request_ir \<Rightarrow> fields \<Rightarrow> ir_error + fields" where
  "chat_format_field r payload =
     (case Option.bind (go_output (req_generation r)) oo_format of
        None \<Rightarrow> Ok payload
      | Some format \<Rightarrow> and_then (chat_format format) (\<lambda>v. Ok (fmupd ''response_format'' v payload)))"

definition chat_effort_field :: "bool \<Rightarrow> request_ir \<Rightarrow> fields \<Rightarrow> ir_error + fields" where
  "chat_effort_field managed r payload =
     (case requested_effort r of
        Some effort \<Rightarrow>
          if managed then Ok payload
          else if effort \<notin> {''none'', ''minimal'', ''low'', ''medium'', ''high'', ''xhigh'', ''max''} then Err UnsupportedFeature
          else Ok (fmupd ''reasoning_effort'' (JString effort) payload)
      | None \<Rightarrow> Ok payload)"

definition chat_controls ::
  "request_ir \<Rightarrow> translation_plan \<Rightarrow> chat_dialect option \<Rightarrow> u64 \<Rightarrow> json option \<Rightarrow> fields \<Rightarrow> ir_error + fields" where
  "chat_controls r plan dialect maximum reasoning payload =
     (case reasoning of
        None \<Rightarrow> Ok payload
      | Some c \<Rightarrow>
          let fields = fmupd ''max_tokens'' (json_u64 maximum)
            (fmdrop ''max_completion_tokens'' (fmdrop ''n'' (fmdrop ''store'' payload))) in
          and_then (json_object c) (\<lambda>m.
            let fields = fields ++\<^sub>f m in
            if dialect = Some DeepSeekDialect then
              (if go_parallel_tool_calls (req_generation r) \<noteq> None \<and> ProviderParallelPermission \<notin> set (tp_bridges plan)
               then Err UnsupportedFeature
               else Ok (fmdrop ''parallel_tool_calls'' fields))
            else Ok fields))"

definition chat_payload ::
  "wire_env \<Rightarrow> custom_tool_bridge \<Rightarrow> request_ir \<Rightarrow> translation_plan \<Rightarrow> bool \<Rightarrow> chat_dialect option \<Rightarrow> json list \<Rightarrow>
     ir_error + fields \<times> json option" where
  "chat_payload E registry r plan managed dialect messages =
     and_then (max_tokens_of r plan) (\<lambda>maximum.
     and_then (traverse chat_tool (br_definitions registry)) (\<lambda>tools.
     if tools = [] \<and> choice_demands (go_tool_choice (req_generation r)) then Err InvalidToolMapping
     else
       and_then (chat_choice_field registry r (tools_field r tools (chat_base r plan maximum messages))) (\<lambda>payload.
       and_then (chat_format_field r (chat_parallel_field r payload)) (\<lambda>payload.
       and_then (chat_effort_field managed r payload) (\<lambda>payload.
       and_then (sampling_field (we_to_two E) ''temperature'' (go_temperature (req_generation r)) payload) (\<lambda>payload.
       and_then (sampling_field (we_unit_interval E) ''top_p'' (go_top_p (req_generation r)) payload) (\<lambda>payload.
       and_then (opt_traverse (\<lambda>c. controls (we_top_p_ok E) c r maximum)
           (cp_reasoning_contract (rs_capabilities (tp_route plan)))) (\<lambda>reasoning.
       and_then (chat_controls r plan dialect maximum reasoning payload) (\<lambda>payload.
         Ok (payload, reasoning))))))))))"

definition chat_encode_with_history ::
  "wire_env \<Rightarrow> request_ir \<Rightarrow> translation_plan \<Rightarrow> provider_history \<Rightarrow> bool \<Rightarrow> chat_failure + prepared_chat" where
  "chat_encode_with_history E r plan history managed =
     (let contract = cp_reasoning_contract (rs_capabilities (tp_route plan));
          dialect = Option.bind contract chat_dialect_of;
          bridge = (ChatInstructionEnvelope \<in> set (tp_bridges plan)) in
      if managed \<noteq> (contract \<noteq> None) \<or> managed \<and> dialect = None \<or> \<not> chat_plan_ok plan managed
      then Err (Rejected UnsupportedFeature)
      else and_then (reject (for_plan (we_serde E) (we_sha256 E) r (rs_capabilities (tp_route plan)) (tp_editing plan) True)) (\<lambda>registry.
        if dialect = Some DeepSeekDialect \<and> InstructionHierarchy \<in> tp_required plan \<and> \<not> bridge
        then Err (Rejected UnsupportedFeature)
        else
          and_then (chat_input E registry bridge dialect history r) (\<lambda>st.
          and_then (reject (chat_payload E registry r plan managed dialect (chat_messages E bridge st))) (\<lambda>(payload, reasoning).
            Ok \<lparr>pc_payload = JObject payload, pc_model = rs_model (tp_route plan),
                pc_tools = prepared_tools_new registry r, pc_reasoning_contract = contract,
                pc_reasoning_controls = reasoning\<rparr>))))"

definition chat_encode_admitted :: "wire_env \<Rightarrow> request_ir \<Rightarrow> translation_plan \<Rightarrow> chat_failure + prepared_chat" where
  "chat_encode_admitted E r plan = chat_encode_with_history E r plan fmempty False"

definition chat_encode :: "wire_env \<Rightarrow> request_ir \<Rightarrow> continuity_binding \<Rightarrow> chat_failure + prepared_chat" where
  "chat_encode E r target =
     (if rs_api (cb_route target) \<noteq> ChatCompletions then Err (Rejected WrongProtocol)
      else and_then (reject (plan_translation (we_serde E) (we_sha256 E) (we_lower E) r target)) (chat_encode_admitted E r))"
section \<open>Usage\<close>

definition usage_detail :: "json \<Rightarrow> json \<Rightarrow> string \<times> string \<times> string \<times> u64 \<Rightarrow> ir_error + json" where
  "usage_detail v result = (\<lambda>(source, key, target, maximum).
     if \<not> present v source then Ok result
     else
       let details = json_index v source in
       and_then (json_object details) (\<lambda>_.
         case jget details key of
           None \<Rightarrow> Ok result
         | Some count \<Rightarrow>
             (case as_u64 count of
                Some n \<Rightarrow> if n \<le> maximum then Ok (set_field result target (obj [(key, json_u64 n)])) else Err (InvalidField ''usage'')
              | None \<Rightarrow> Err (InvalidField ''usage''))))"

definition chat_usage :: "json \<Rightarrow> ir_error + json" where
  "chat_usage v =
     and_then (usage_number v ''prompt_tokens'') (\<lambda>input.
     and_then (usage_number v ''completion_tokens'') (\<lambda>out.
     and_then (usage_number v ''total_tokens'') (\<lambda>all_tokens.
     if checked_add input out \<noteq> Some all_tokens then Err (InvalidField ''usage'')
     else fold_result (usage_detail v)
       (obj [(''input_tokens'', json_u64 input), (''output_tokens'', json_u64 out), (''total_tokens'', json_u64 all_tokens)])
       [(''prompt_tokens_details'', ''cached_tokens'', ''input_tokens_details'', input),
        (''completion_tokens_details'', ''reasoning_tokens'', ''output_tokens_details'', out)])))"

section \<open>Responses\<close>

definition chat_terminal :: "prepared_chat \<Rightarrow> string \<Rightarrow> nat \<Rightarrow> ir_error + terminal \<times> string option" where
  "chat_terminal p finish count =
     and_then
       (if finish = ''stop'' \<and> count = 0 then Ok (terminal.Completed, None)
        else if finish = ''tool_calls'' \<and> count > 0 then Ok (terminal.Completed, None)
        else if finish = ''length'' then Ok (terminal.Incomplete, Some ''max_output_tokens'')
        else Err UnsupportedFeature) (\<lambda>(terminal, reason).
     and_then (validate_count (pc_tools p) count (terminal = terminal.Completed)) (\<lambda>_.
       Ok (terminal, reason)))"

definition chat_head :: "prepared_chat \<Rightarrow> json \<Rightarrow> ir_error + string \<times> response_id \<times> u64" where
  "chat_head p v =
     and_then (json_string v ''object'') (\<lambda>kind.
     if kind \<noteq> ''chat.completion'' then Err (InvalidField ''chat_response'') else
     and_then (json_string v ''model'') (\<lambda>model.
     if model \<noteq> pc_model p then Err (InvalidField ''chat_response'') else
     and_then (json_string v ''id'') (\<lambda>mid.
     and_then (response_id_new (''resp_'' @ mid)) (\<lambda>rid.
     and_then (ok_or (Option.bind (jget v ''created'') as_u64) (InvalidField ''created'')) (\<lambda>created.
       Ok (mid, rid, created))))))"

definition only_choice :: "json \<Rightarrow> ir_error + json" where
  "only_choice v =
     and_then (ok_or (case Option.bind (jget v ''choices'') as_array of Some [c] \<Rightarrow> Some c | _ \<Rightarrow> None)
         (InvalidField ''choices'')) (\<lambda>choice.
       if Option.bind (jget choice ''index'') as_u64 \<noteq> Some 0 \<or> present choice ''logprobs'' then Err UnsupportedFeature
       else Ok choice)"

definition unsupported_message :: "json \<Rightarrow> bool" where
  "unsupported_message m \<longleftrightarrow>
     present m ''audio'' \<or> present m ''function_call'' \<or>
     present m ''refusal'' \<and> str_at m ''refusal'' \<noteq> Some [] \<or>
     present m ''annotations'' \<and> Option.bind (jget m ''annotations'') as_array \<noteq> Some []"

definition chat_assistant :: "json \<Rightarrow> ir_error + json" where
  "chat_assistant choice =
     and_then (ok_or (jget choice ''message'') (InvalidField ''message'')) (\<lambda>m.
     and_then (known_fields m [''role'', ''content'', ''tool_calls'', ''refusal'', ''annotations'', ''audio'', ''function_call'']) (\<lambda>_.
     and_then (json_string m ''role'') (\<lambda>r.
       if r \<noteq> ''assistant'' then Err (InvalidField ''role'')
       else if unsupported_message m then Err UnsupportedFeature
       else Ok m)))"

definition chat_text :: "wire_env \<Rightarrow> string \<Rightarrow> json \<Rightarrow> decode_state \<Rightarrow> ir_error + decode_state" where
  "chat_text E mid m st =
     (if \<not> present m ''content'' then Ok st
      else
        and_then (ok_or (str_at m ''content'') UnsupportedFeature) (\<lambda>t.
        and_then (item_id_new (''item_'' @ mid @ ''_0'')) (\<lambda>item.
          emit_item E item (text_events item 0 Message Text t) (output_message item t) st)))"

definition chat_tool_output :: "wire_env \<Rightarrow> string \<Rightarrow> decode_state \<Rightarrow> json \<Rightarrow> ir_error + decode_state" where
  "chat_tool_output E mid st tool =
     and_then (known_fields tool [''id'', ''type'', ''function'']) (\<lambda>_.
     and_then (json_string tool ''type'') (\<lambda>kind.
     if kind \<noteq> ''function'' then Err UnsupportedFeature else
     and_then (ok_or (jget tool ''function'') (InvalidField ''function'')) (\<lambda>f.
     and_then (known_fields f [''name'', ''arguments'']) (\<lambda>_.
     and_then (item_id_new (''item_'' @ mid @ ''_'' @ nat_text (length (de_output st)))) (\<lambda>item.
     and_then (json_string f ''name'') (\<lambda>name.
     and_then (json_string tool ''id'') (\<lambda>raw_id.
     and_then (call_id_new raw_id) (\<lambda>cid.
     and_then (json_string f ''arguments'') (\<lambda>raw.
     and_then (restore_tool (we_serde E) (we_lower E) (de_tools st) name cid item raw) (\<lambda>(call, tools).
     if length (de_output st) \<ge> 2 ^ 32 then Err SizeLimit
     else emit_item E item (tool_events item (of_nat (length (de_output st))) (tc_call_id call) call)
       (tool_output call ''completed'') (st\<lparr>de_tools := tools, de_tool_count := de_tool_count st + 1\<rparr>)))))))))))"

definition chat_calls :: "wire_env \<Rightarrow> string \<Rightarrow> json \<Rightarrow> decode_state \<Rightarrow> ir_error + decode_state" where
  "chat_calls E mid m st =
     (if \<not> present m ''tool_calls'' then Ok st
      else and_then (ok_or (Option.bind (jget m ''tool_calls'') as_array) (InvalidField ''tool_calls'')) (\<lambda>calls.
        fold_result (chat_tool_output E mid) st calls))"

definition chat_metrics :: "json \<Rightarrow> ir_error + json option" where
  "chat_metrics v =
     (if \<not> present v ''usage'' then Ok None
      else and_then (chat_usage (json_index v ''usage'')) (\<lambda>u. Ok (Some u)))"

definition metrics_event :: "json \<Rightarrow> event_ir" where
  "metrics_event u =
     event_ir.UsageUpdated \<lparr>input_tokens = as_u64 (json_index u ''input_tokens''),
       output_tokens = as_u64 (json_index u ''output_tokens'')\<rparr>"

definition chat_response ::
  "prepared_chat \<Rightarrow> response_id \<Rightarrow> u64 \<Rightarrow> terminal \<Rightarrow> string option \<Rightarrow> json list \<Rightarrow> json option \<Rightarrow> json" where
  "chat_response p rid created terminal reason outs metrics =
     obj [(''id'', JString (response_id_str rid)), (''object'', JString ''response''), (''created_at'', json_u64 created),
       (''model'', JString (pc_model p)), (''status'', JString (terminal_status terminal)),
       (''output'', JArray (mark_items terminal outs)),
       (''usage'', case metrics of Some u \<Rightarrow> u | None \<Rightarrow> JNull), (''error'', JNull),
       (''incomplete_details'', case reason of Some t \<Rightarrow> obj [(''reason'', JString t)] | None \<Rightarrow> JNull)]"

definition chat_decode :: "wire_env \<Rightarrow> prepared_chat \<Rightarrow> json \<Rightarrow> ir_error + json \<times> prepared_tools" where
  "chat_decode E p v =
     and_then (chat_head p v) (\<lambda>(mid, rid, created).
     and_then (only_choice v) (\<lambda>choice.
     and_then (chat_assistant choice) (\<lambda>m.
     and_then (event_validator_new default_limits) (\<lambda>validator.
     and_then (apply_ok (we_serde E) validator (Started rid)) (\<lambda>validator.
     and_then (chat_text E mid m
         \<lparr>de_validator = validator, de_output = [], de_tool_count = 0, de_tools = pc_tools p\<rparr>) (\<lambda>st.
     and_then (chat_calls E mid m st) (\<lambda>st.
     and_then (json_string choice ''finish_reason'') (\<lambda>finish.
     and_then (chat_terminal p finish (de_tool_count st)) (\<lambda>(terminal, reason).
     and_then (chat_metrics v) (\<lambda>metrics.
     and_then (apply_all (we_serde E) (de_validator st)
         ((case metrics of Some u \<Rightarrow> [metrics_event u] | None \<Rightarrow> []) @ [Finished terminal reason])) (\<lambda>_.
       Ok (chat_response p rid created terminal reason (de_output st) metrics, de_tools st))))))))))))"

definition chat_decode_bytes :: "wire_env \<Rightarrow> prepared_chat \<Rightarrow> string \<Rightarrow> ir_error + json \<times> prepared_tools" where
  "chat_decode_bytes E p bytes = and_then (json_decode (we_parse E) bytes) (chat_decode E p)"

section \<open>Reasoning dialects\<close>

definition chat_dialect :: "prepared_chat \<Rightarrow> ir_error + chat_dialect" where
  "chat_dialect p = ok_or (Option.bind (pc_reasoning_contract p) chat_dialect_of) UnsupportedFeature"

text \<open>\<open>value.as_str().ok_or(unsupported())\<close> of a field that is present, as a list of at most one text.\<close>

definition summary_text :: "json \<Rightarrow> string \<Rightarrow> ir_error + string list" where
  "summary_text assistant field =
     (if \<not> present assistant field then Ok []
      else and_then (ok_or (str_at assistant field) UnsupportedFeature) (\<lambda>t. Ok (if t = [] then [] else [t])))"

definition detail_field :: "string \<Rightarrow> ir_error + string" where
  "detail_field kind =
     (if kind = ''reasoning.text'' then Ok ''text''
      else if kind = ''reasoning.summary'' then Ok ''summary''
      else if kind = ''reasoning.encrypted'' then Ok ''data''
      else Err UnsupportedFeature)"

definition detail_id :: "json \<Rightarrow> string set \<Rightarrow> ir_error + string set" where
  "detail_id detail ids =
     (if \<not> present detail ''id'' then Ok ids
      else
        and_then (ok_or (str_at detail ''id'') UnsupportedFeature) (\<lambda>i.
        and_then (item_id_new i) (\<lambda>_. if i \<in> ids then Err InvalidIdentifier else Ok (insert i ids))))"

definition reasoning_detail ::
  "prepared_chat \<Rightarrow> string list \<times> string set \<Rightarrow> nat \<times> json \<Rightarrow> ir_error + string list \<times> string set" where
  "reasoning_detail p = (\<lambda>(texts, ids) (position, detail).
     and_then (json_string detail ''type'') (\<lambda>kind.
     and_then (detail_field kind) (\<lambda>field.
     and_then (known_fields detail ([''type'', ''id'', ''format'', ''index'', field] @
         (if kind = ''reasoning.text'' then [''signature''] else []))) (\<lambda>_.
     and_then (json_string detail ''format'') (\<lambda>format.
     if (case pc_reasoning_contract p of Some c \<Rightarrow> \<not> accepts_format c format | None \<Rightarrow> True) then Err UnsupportedFeature
     else if (case jget detail ''index'' of Some v \<Rightarrow> as_u64 v \<noteq> Some (of_nat position) | None \<Rightarrow> False) then Err InvalidEventOrder
     else and_then (detail_id detail ids) (\<lambda>ids.
     if present detail ''signature'' \<and> str_at detail ''signature'' = None then Err UnsupportedFeature
     else and_then (json_string detail field) (\<lambda>t.
       if kind = ''reasoning.encrypted'' \<and> t = [] then Err UnsupportedFeature
       else Ok (if kind \<noteq> ''reasoning.encrypted'' \<and> t \<noteq> [] then texts @ [t] else texts, ids))))))))"

definition detail_summaries :: "prepared_chat \<Rightarrow> json \<Rightarrow> ir_error + string list" where
  "detail_summaries p assistant =
     and_then (ok_or (Option.bind (jget assistant ''reasoning_details'') as_array) UnsupportedFeature) (\<lambda>details.
     and_then (fold_result (reasoning_detail p) ([], {}) (enumerate 0 details)) (\<lambda>(texts, _). Ok texts))"

definition public_summaries :: "prepared_chat \<Rightarrow> json \<Rightarrow> ir_error + string list" where
  "public_summaries p assistant =
     and_then (chat_dialect p) (\<lambda>dialect.
       case dialect of
         DeepSeekDialect \<Rightarrow> summary_text assistant ''reasoning_content''
       | OpenRouterDialect \<Rightarrow>
           and_then (if present assistant ''reasoning_details'' then detail_summaries p assistant
               else summary_text assistant ''reasoning'') (\<lambda>texts.
             if present assistant ''reasoning'' \<and> str_at assistant ''reasoning'' = None then Err UnsupportedFeature
             else Ok texts))"

definition accounting_profile :: "prepared_chat \<Rightarrow> usage_profile" where
  "accounting_profile p =
     (if Option.bind (pc_reasoning_contract p) chat_dialect_of = Some DeepSeekDialect then DeepSeekV1 else ChatV1)"

definition count_of :: "json option \<Rightarrow> ir_error + u64 option" where
  "count_of v =
     (case v of
        None \<Rightarrow> Ok None
      | Some x \<Rightarrow> if is_null x then Ok None else and_then (ok_or (as_u64 x) UnsupportedFeature) (\<lambda>n. Ok (Some n)))"

text \<open>Three counters of which the third must be the sum, where all of them are known.\<close>

definition sum_disagrees :: "u64 option \<Rightarrow> u64 option \<Rightarrow> u64 option \<Rightarrow> bool" where
  "sum_disagrees a b t \<longleftrightarrow>
     (case (a, b, t) of (Some a, Some b, Some t) \<Rightarrow> checked_add a b \<noteq> Some t | _ \<Rightarrow> False)"

definition exceeds :: "u64 option \<Rightarrow> u64 option \<Rightarrow> bool" where
  "exceeds part whole \<longleftrightarrow> (case (part, whole) of (Some a, Some b) \<Rightarrow> a > b | _ \<Rightarrow> False)"

definition deepseek_cached :: "json \<Rightarrow> u64 option \<Rightarrow> u64 option \<Rightarrow> ir_error + u64 option" where
  "deepseek_cached v input cached =
     and_then (count_of (jget v ''prompt_cache_hit_tokens'')) (\<lambda>hit.
     and_then (count_of (jget v ''prompt_cache_miss_tokens'')) (\<lambda>miss.
       if sum_disagrees hit miss input then Err UnsupportedFeature
       else case hit of
         None \<Rightarrow> Ok cached
       | Some n \<Rightarrow> if cached \<noteq> None \<and> cached \<noteq> Some n then Err UnsupportedFeature else Ok (Some n)))"

definition detail_object :: "json \<Rightarrow> string \<Rightarrow> ir_error + unit" where
  "detail_object v key =
     (if present v key then and_then (json_object (json_index v key)) (\<lambda>_. Ok ()) else Ok ())"

definition known_counts :: "u64 option \<Rightarrow> u64 option \<Rightarrow> u64 option \<Rightarrow> u64 option \<Rightarrow> u64 option \<Rightarrow> json" where
  "known_counts input out all_tokens cached reasoning =
     obj ([(''input_tokens'', json_opt_u64 input), (''output_tokens'', json_opt_u64 out), (''total_tokens'', json_opt_u64 all_tokens)] @
       (case cached of Some n \<Rightarrow> [(''input_tokens_details'', obj [(''cached_tokens'', json_u64 n)])] | None \<Rightarrow> []) @
       (case reasoning of Some n \<Rightarrow> [(''output_tokens_details'', obj [(''reasoning_tokens'', json_u64 n)])] | None \<Rightarrow> []))"

definition chat_managed_usage :: "json option \<Rightarrow> chat_dialect \<Rightarrow> ir_error + json" where
  "chat_managed_usage usage dialect =
     (let v = present_or_empty usage in
      and_then (json_object v) (\<lambda>_.
      and_then (count_of (jget v ''prompt_tokens'')) (\<lambda>input.
      and_then (count_of (jget v ''completion_tokens'')) (\<lambda>out.
      and_then (count_of (jget v ''total_tokens'')) (\<lambda>all_tokens.
      if sum_disagrees input out all_tokens then Err UnsupportedFeature else
      and_then (each (detail_object v) [''prompt_tokens_details'', ''completion_tokens_details'']) (\<lambda>_.
      and_then (count_of (Option.bind (jget v ''prompt_tokens_details'') (\<lambda>d. jget d ''cached_tokens''))) (\<lambda>cached.
      and_then (count_of (Option.bind (jget v ''completion_tokens_details'') (\<lambda>d. jget d ''reasoning_tokens''))) (\<lambda>reasoning.
      and_then (if dialect = DeepSeekDialect then deepseek_cached v input cached else Ok cached) (\<lambda>cached.
      if exceeds cached input \<or> exceeds reasoning out then Err UnsupportedFeature
      else Ok (known_counts input out all_tokens cached reasoning))))))))))"

definition managed_message_fields :: "chat_dialect \<Rightarrow> string list" where
  "managed_message_fields dialect =
     [''role'', ''content'', ''tool_calls'', ''refusal'', ''annotations'', ''audio'', ''function_call''] @
     (case dialect of DeepSeekDialect \<Rightarrow> [''reasoning_content''] | OpenRouterDialect \<Rightarrow> [''reasoning'', ''reasoning_details''])"

definition strip_reasoning :: "fields \<Rightarrow> fields" where
  "strip_reasoning m =
     (let m = fmdrop ''reasoning_details'' (fmdrop ''reasoning'' (fmdrop ''reasoning_content'' m)) in
      if fmlookup m ''content'' = Some (JString []) then fmupd ''content'' JNull m else m)"

definition stripped_response :: "json \<Rightarrow> json \<Rightarrow> fields \<Rightarrow> json" where
  "stripped_response v choice m =
     set_field (set_field v ''choices'' (JArray [set_field choice ''message'' (JObject (strip_reasoning m))])) ''usage'' JNull"

definition summary_events :: "item_id \<Rightarrow> nat \<times> string \<Rightarrow> event_ir list" where
  "summary_events item = (\<lambda>(n, t).
     [PartStarted item (of_nat n) ReasoningText] @ map (TextDelta item (of_nat n)) (event_text_chunks t) @
     [PartFinished item (of_nat n)])"

definition check_summaries :: "wire_env \<Rightarrow> string \<Rightarrow> string list \<Rightarrow> ir_error + unit" where
  "check_summaries E mid summaries =
     and_then (event_validator_new default_limits) (\<lambda>validator.
     and_then (response_id_new (''reasoning_'' @ mid)) (\<lambda>rid.
     and_then (apply_ok (we_serde E) validator (Started rid)) (\<lambda>validator.
     and_then (item_id_new (''rs_'' @ mid)) (\<lambda>item.
     and_then (apply_ok (we_serde E) validator (ItemStarted item 0 Reasoning)) (\<lambda>validator.
     and_then (fold_result (\<lambda>v (n, t).
         if n \<ge> 2 ^ 32 then Err SizeLimit else apply_all (we_serde E) v (summary_events item (n, t)))
         validator (enumerate 0 summaries)) (\<lambda>validator.
     and_then (apply_all (we_serde E) validator [ItemFinished item, Finished terminal.Completed None]) (\<lambda>_. Ok ())))))))"

definition reasoning_item :: "string \<Rightarrow> string list \<Rightarrow> json" where
  "reasoning_item i summaries =
     obj [(''type'', JString ''reasoning''), (''id'', JString i),
       (''summary'', JArray (map (\<lambda>s. obj [(''type'', JString ''summary_text''), (''text'', JString s)]) summaries))]"

definition managed_choice :: "json \<Rightarrow> ir_error + json" where
  "managed_choice v =
     and_then (known_fields v [''id'', ''object'', ''created'', ''model'', ''choices'', ''usage'', ''system_fingerprint'',
         ''service_tier'', ''provider'']) (\<lambda>_.
     and_then (ok_or (case as_array (json_index v ''choices'') of Some [c] \<Rightarrow> Some c | _ \<Rightarrow> None) UnsupportedFeature) (\<lambda>choice.
     and_then (known_fields choice [''index'', ''message'', ''finish_reason'', ''logprobs'', ''native_finish_reason'']) (\<lambda>_.
       Ok choice)))"

definition chat_decode_managed :: "wire_env \<Rightarrow> prepared_chat \<Rightarrow> json \<Rightarrow> ir_error + managed_output" where
  "chat_decode_managed E p v =
     and_then (managed_choice v) (\<lambda>choice.
     and_then (ok_or (jget choice ''message'') UnsupportedFeature) (\<lambda>assistant.
     and_then (chat_dialect p) (\<lambda>dialect.
     and_then (known_fields assistant (managed_message_fields dialect)) (\<lambda>_.
     and_then (public_summaries p assistant) (\<lambda>summaries.
     and_then (ok_or (as_object assistant) UnsupportedFeature) (\<lambda>m.
     and_then (chat_managed_usage (jget v ''usage'') dialect) (\<lambda>usage.
     and_then (chat_decode E p (stripped_response v choice m)) (\<lambda>(response, _).
     if json_index response ''status'' \<noteq> JString ''completed'' then Err InvalidEventOrder else
     and_then (json_string v ''id'') (\<lambda>mid.
     and_then (check_summaries E mid summaries) (\<lambda>_.
     and_then (ok_or (as_array (json_index response ''output'')) UnsupportedFeature) (\<lambda>outs.
     and_then (ok_or (pc_reasoning_controls p) UnsupportedFeature) (\<lambda>control.
       Ok \<lparr>mg_response = set_field (set_field response ''usage'' usage) ''output''
             (JArray (reasoning_item (''rs_'' @ mid) summaries # outs)),
           mg_native = ChatReplay 1 dialect assistant control,
           mg_outcome = (if json_index choice ''finish_reason'' = JString ''tool_calls'' then AwaitingTools else OutcomeCompleted),
           mg_usage = usage,
           mg_accounting = accounting_new (accounting_profile p) (jget v ''usage'') v usage_outcome.Completed\<rparr>))))))))))))"
section \<open>The history reaches the provider in order\<close>

text \<open>What a sequence of chat messages says: texts with their speaker, tool calls, and answers to them.\<close>

datatype utterance = Said json json | Called json | Answered json json

definition calls_of :: "json \<Rightarrow> json list" where
  "calls_of m = (case Option.bind (jget m ''tool_calls'') as_array of Some cs \<Rightarrow> cs | None \<Rightarrow> [])"

definition message_says :: "json \<Rightarrow> utterance list" where
  "message_says m =
     (if json_index m ''role'' = JString ''tool''
      then [Answered (json_index m ''tool_call_id'') (json_index m ''content'')]
      else (if json_index m ''content'' = JNull then [] else [Said (json_index m ''role'') (json_index m ''content'')]) @
        map Called (calls_of m))"

definition chat_spoken :: "json list \<Rightarrow> utterance list" where
  "chat_spoken ms = concat (map message_says ms)"

text \<open>A message of the gateway's own making: an object whose tool calls, if any, are an array.\<close>

definition own_message :: "json \<Rightarrow> bool" where
  "own_message m \<longleftrightarrow> is_object m \<and> (jget m ''tool_calls'' = None \<or> (\<exists>cs. jget m ''tool_calls'' = Some (JArray cs)))"

fun chat_says :: "wire_env \<Rightarrow> custom_tool_bridge \<Rightarrow> bool \<Rightarrow> tool_call set \<Rightarrow> item \<Rightarrow> utterance list \<Rightarrow> bool" where
  "chat_says E registry bridge calls (ItemMessage m) us \<longleftrightarrow>
     (if bridge \<and> msg_role m \<in> {System, Developer} then us = []
      else \<exists>c. chat_content (msg_content m) (msg_role m) = Ok c \<and> us = [Said (JString (chat_role (msg_role m))) c])"
| "chat_says E registry bridge calls (ItemToolCall c) us \<longleftrightarrow>
     (\<exists>name raw. lowered_arguments E registry c = Ok (name, raw) \<and> us = [Called (chat_tool_call (tc_call_id c) name raw)])"
| "chat_says E registry bridge calls (ItemToolResult res) us \<longleftrightarrow>
     (\<exists>c out. c \<in> calls \<and> tc_call_id c = tr_call_id res \<and> result_text (we_serde E) registry res c = Ok out \<and>
        us = [Answered (JString (call_id_str (tr_call_id res))) (JString out)])"
| "chat_says E registry bridge calls _ us \<longleftrightarrow> False"

lemma reject_Ok [simp]: "reject m = Ok x \<longleftrightarrow> m = Ok x"
  by (cases m) (simp_all add: reject_def)

lemma reject_simps [simp]: "reject (Ok x) = Ok x" "reject (Err e) = Err (Rejected e)"
  by (simp_all add: reject_def)

lemma reject_not_panicked [simp]: "reject m \<noteq> Err Panicked"
  by (cases m) (simp_all add: reject_def)

lemma chat_spoken_append [simp]: "chat_spoken (ms @ ns) = chat_spoken ms @ chat_spoken ns"
  by (simp add: chat_spoken_def)

lemma chat_role_not_tool [simp]: "chat_role r \<noteq> ''tool''"
  by (cases r) simp_all

lemma chat_content_not_null: "chat_content c r = Ok v \<Longrightarrow> v \<noteq> JNull"
  by (cases c) auto

lemma own_messages [simp]:
  "own_message (chat_message r c)" "own_message (chat_tool_message res out)" "own_message (calls_message t)"
  by (simp_all add: own_message_def chat_message_def chat_tool_message_def calls_message_def jget_obj)

lemma says_own:
  "r \<noteq> ''tool'' \<Longrightarrow> c \<noteq> JNull \<Longrightarrow> chat_spoken [chat_message r c] = [Said (JString r) c]"
  "chat_spoken [chat_tool_message res out] = [Answered (JString (call_id_str (tr_call_id res))) (JString out)]"
  "chat_spoken [calls_message t] = [Called t]"
  by (simp_all add: chat_spoken_def message_says_def calls_of_def chat_message_def chat_tool_message_def calls_message_def
      jget_obj json_index_def)

lemma says_turn [simp]:
  "chat_content c r = Ok v \<Longrightarrow> chat_spoken [chat_message (chat_role r) v] = [Said (JString (chat_role r)) v]"
  using chat_content_not_null says_own(1) by simp

lemma push_tool_call_own:
  assumes "list_all own_message ms"
  shows "\<exists>ms'. push_tool_call ms t = Ok ms' \<and> list_all own_message ms' \<and> chat_spoken ms' = chat_spoken ms @ [Called t]"
proof (cases "last_chat_role ms = JString ''assistant''")
  case True
  then obtain ms0 m where ms: "ms = ms0 @ [m]"
    by (cases ms rule: rev_cases) (auto simp: last_chat_role_def)
  with assms have m: "is_object m" "jget m ''tool_calls'' = None \<or> (\<exists>cs. jget m ''tool_calls'' = Some (JArray cs))"
    by (auto simp: own_message_def)
  have role: "json_index m ''role'' = JString ''assistant''" using True ms by (simp add: last_chat_role_def)
  let ?m = "set_field m ''tool_calls'' (JArray (calls_of m @ [t]))"
  have "push_tool_call ms t = Ok (ms0 @ [?m])"
    using m(2) True ms by (auto simp: push_tool_call_def calls_of_def)
  moreover have "own_message ?m" using m(1) by (simp add: own_message_def jget_set_same)
  moreover have "message_says ?m = message_says m @ [Called t]"
    using m(1) role by (simp add: message_says_def calls_of_def json_index_def jget_set_field jget_set_same)
  ultimately show ?thesis using assms ms by (simp add: chat_spoken_def)
next
  case False
  with assms show ?thesis by (simp add: push_tool_call_def says_own)
qed

lemma chat_push_simps [simp]:
  "ch_messages (chat_push m st) = ch_messages st @ [m]" "ch_pending (chat_push m st) = ch_pending st"
  "ch_instructions (chat_push m st) = ch_instructions st"
  by (simp_all add: chat_push_def)

lemma chat_turn_Ok:
  assumes "chat_turn m st = Ok st'"
  obtains c where "chat_content (msg_content m) (msg_role m) = Ok c" "ch_pending st = fmempty"
    "st' = chat_push (chat_message (chat_role (msg_role m)) c) st"
  using assms by (auto simp: chat_turn_def split: if_splits)

lemma chat_instruction_Ok:
  assumes "chat_instruction n m st = Ok st'"
  obtains e where "ch_messages st = []" "st' = st\<lparr>ch_instructions := ch_instructions st @ [e]\<rparr>"
  using assms by (auto simp: chat_instruction_def split: if_splits)

lemma chat_call_Ok:
  assumes "chat_call E registry call st = Ok st'"
  obtains name raw ms where "lowered_arguments E registry call = Ok (name, raw)"
    "push_tool_call (ch_messages st) (chat_tool_call (tc_call_id call) name raw) = Ok ms"
    "st' = st\<lparr>ch_messages := ms, ch_pending := fmupd (tc_call_id call) (call, False) (ch_pending st)\<rparr>"
  using assms by (auto simp: chat_call_def split: if_splits)

lemma chat_result_Ok:
  assumes "chat_result E registry res st = Ok st'"
  obtains c native out where "fmlookup (ch_pending st) (tr_call_id res) = Some (c, native)"
    "result_text (we_serde E) registry res c = Ok out"
    "st' = chat_push (chat_tool_message res out) (st\<lparr>ch_pending := fmdrop (tr_call_id res) (ch_pending st)\<rparr>)"
  using assms by (auto simp: chat_result_def split: if_splits)

lemmas chat_item_elims = chat_turn_Ok chat_instruction_Ok chat_call_Ok chat_result_Ok

lemma chat_item_says:
  assumes "chat_item E registry bridge n i st = Ok st'" and "list_all own_message (ch_messages st)"
    and "pending_ok calls (ch_pending st)" and "calls_in [i] \<subseteq> calls"
  shows "list_all own_message (ch_messages st') \<and> pending_ok calls (ch_pending st') \<and>
    (\<exists>us. chat_says E registry bridge calls i us \<and> chat_spoken (ch_messages st') = chat_spoken (ch_messages st) @ us)"
proof (cases i)
  case (ItemMessage m)
  with assms show ?thesis
    by (auto split: if_splits elim!: chat_item_elims)
next
  case (ItemToolCall c)
  with assms(1) have "chat_call E registry c st = Ok st'" by simp
  then show ?thesis
  proof (cases rule: chat_call_Ok)
    case (1 name raw ms)
    with push_tool_call_own [OF assms(2), of "chat_tool_call (tc_call_id c) name raw"] ItemToolCall assms(3,4)
    show ?thesis by (auto simp: calls_in_def)
  qed
next
  case (ItemToolResult res)
  with assms(1) have "chat_result E registry res st = Ok st'" by simp
  then show ?thesis
  proof (cases rule: chat_result_Ok)
    case (1 c native out)
    with assms(3) have "c \<in> calls \<and> tc_call_id c = tr_call_id res" by (auto simp: pending_ok_def)
    with 1 ItemToolResult assms show ?thesis by (auto simp: says_own)
  qed
qed (use assms in simp_all)

interpretation chat_history: history_encoder "chat_item E registry bridge" ch_pending
    "\<lambda>st. list_all own_message (ch_messages st)" "\<lambda>st. chat_spoken (ch_messages st)" "chat_says E registry bridge"
proof unfold_locales
  fix n i st st' calls
  assume "chat_item E registry bridge n i st = Ok st'" "list_all own_message (ch_messages st)"
    "pending_ok calls (ch_pending st)" "calls_in [i] \<subseteq> calls"
  then show "list_all own_message (ch_messages st') \<and> pending_ok calls (ch_pending st') \<and>
    (\<exists>us. chat_says E registry bridge calls i us \<and> chat_spoken (ch_messages st') = chat_spoken (ch_messages st) @ us)"
    by (rule chat_item_says)
next
  fix n i st st' c
  assume "chat_item E registry bridge n i st = Ok st'" "fmlookup (ch_pending st) c \<noteq> None"
  then show "answers c i \<or> \<not> user_turn i \<and> fmlookup (ch_pending st') c \<noteq> None"
    by (cases i) (auto split: if_splits elim!: chat_item_elims)
next
  fix n call st st'
  assume "chat_item E registry bridge n (ItemToolCall call) st = Ok st'"
  then show "fmlookup (ch_pending st') (tc_call_id call) \<noteq> None" by (auto elim!: chat_item_elims)
qed
lemma chat_payload_messages:
  assumes "chat_payload E registry r plan managed dialect messages = Ok (payload, reasoning)"
    and "cp_reasoning_contract (rs_capabilities (tp_route plan)) = None"
  shows "fmlookup payload ''messages'' = Some (JArray messages)"
proof -
  have keep:
    "fmlookup (tools_field r tools p) ''messages'' = fmlookup p ''messages''"
    "chat_choice_field registry r p = Ok p1 \<Longrightarrow> fmlookup p1 ''messages'' = fmlookup p ''messages''"
    "fmlookup (chat_parallel_field r p) ''messages'' = fmlookup p ''messages''"
    "chat_format_field r p = Ok p1 \<Longrightarrow> fmlookup p1 ''messages'' = fmlookup p ''messages''"
    "chat_effort_field managed r p = Ok p1 \<Longrightarrow> fmlookup p1 ''messages'' = fmlookup p ''messages''"
    "name \<noteq> ''messages'' \<Longrightarrow> sampling_field ok name v p = Ok p1 \<Longrightarrow> fmlookup p1 ''messages'' = fmlookup p ''messages''"
    for tools p p1 name ok v
    by (auto simp: tools_field_def chat_choice_field_def chat_parallel_field_def chat_format_field_def chat_effort_field_def
        sampling_field_def split: option.splits if_splits)
  have base: "fmlookup (chat_base r plan maximum messages) ''messages'' = Some (JArray messages)" for maximum
    by (simp add: chat_base_def Let_def)
  from assms show ?thesis
    by (auto simp: chat_payload_def chat_controls_def keep(1,3) base split: if_splits
        dest!: keep(2,4,5) keep(6) [rotated])
qed

lemma chat_encode_admitted_Ok:
  assumes "chat_encode_admitted E r plan = Ok p"
  obtains registry st where
    "for_plan (we_serde E) (we_sha256 E) r (rs_capabilities (tp_route plan)) (tp_editing plan) True = Ok registry"
    "chat_input E registry (ChatInstructionEnvelope \<in> set (tp_bridges plan)) None fmempty r = Ok st"
    "jget (pc_payload p) ''messages'' = Some (JArray (chat_messages E (ChatInstructionEnvelope \<in> set (tp_bridges plan)) st))"
proof -
  from assms have c: "cp_reasoning_contract (rs_capabilities (tp_route plan)) = None"
    by (auto simp: chat_encode_admitted_def chat_encode_with_history_def Let_def split: if_splits)
  with assms show thesis
    by (auto simp: chat_encode_admitted_def chat_encode_with_history_def Let_def split: if_splits
        dest!: chat_payload_messages [OF _ c] intro!: that)
qed

lemma chat_walk_items_Ok:
  assumes "chat_input E registry bridge dialect fmempty r = Ok st" and "req_input r = Some (ItemsInput items)"
  shows "walk_items (chat_item E registry bridge) (chat_replay dialect items) (chat_closing dialect) fmempty items 0
      \<lparr>ch_messages = chat_preface bridge r, ch_pending = fmempty, ch_instructions = initial_envelope bridge r\<rparr> = Ok st \<and>
    ch_pending st = fmempty"
  using assms by (auto simp: chat_input_def Let_def split: if_splits)

lemma own_preface [simp]: "list_all own_message (chat_preface bridge r)"
  by (simp add: chat_preface_def split: option.split)

definition preamble :: "utterance list \<Rightarrow> bool" where
  "preamble us \<longleftrightarrow> us = [] \<or> (\<exists>c. us = [Said (JString ''system'') c])"

text \<open>C32. A request admitted to a Chat route reaches the provider as it was: after at most one leading system
  message, the messages of the payload say what the items of the history say, in their order (turns with
  their roles, tool calls under their aliases with unchanged arguments, results with the text of the
  matching call), with nothing added, dropped or reordered, however calls are grouped into messages.\<close>

theorem chat_history_in_order:
  assumes "chat_encode_admitted E r plan = Ok p" and "req_input r = Some (ItemsInput items)"
  shows "\<exists>registry ms pre uss.
    for_plan (we_serde E) (we_sha256 E) r (rs_capabilities (tp_route plan)) (tp_editing plan) True = Ok registry \<and>
    jget (pc_payload p) ''messages'' = Some (JArray ms) \<and> list_all own_message ms \<and> preamble pre \<and>
    list_all2 (chat_says E registry (ChatInstructionEnvelope \<in> set (tp_bridges plan)) (calls_in items)) items uss \<and>
    chat_spoken ms = pre @ concat uss"
proof -
  let ?bridge = "ChatInstructionEnvelope \<in> set (tp_bridges plan)"
  from assms(1) obtain registry st where st:
    "for_plan (we_serde E) (we_sha256 E) r (rs_capabilities (tp_route plan)) (tp_editing plan) True = Ok registry"
    "chat_input E registry ?bridge None fmempty r = Ok st"
    "jget (pc_payload p) ''messages'' = Some (JArray (chat_messages E ?bridge st))"
    by (rule chat_encode_admitted_Ok)
  from chat_history.walk_says [OF conjunct1 [OF chat_walk_items_Ok [OF st(2) assms(2)]]] obtain uss where u:
    "list_all own_message (ch_messages st)" "list_all2 (chat_says E registry ?bridge (calls_in items)) items uss"
    "chat_spoken (ch_messages st) = chat_spoken (chat_preface ?bridge r) @ concat uss"
    by auto
  let ?pre = "chat_spoken (if ?bridge then take 1 (chat_messages E ?bridge st) else chat_preface ?bridge r)"
  have "preamble ?pre"
    by (auto simp: preamble_def chat_messages_def chat_preface_def says_own chat_spoken_def [of "[]"] split: option.split)
  moreover have "chat_spoken (chat_messages E ?bridge st) = ?pre @ concat uss"
    using u(3) chat_spoken_append [of "[chat_message s c]" "ch_messages st" for s c]
    by (auto simp: chat_messages_def chat_preface_def chat_spoken_def split: option.splits)
  moreover have "list_all own_message (chat_messages E ?bridge st)" using u(1) by (simp add: chat_messages_def)
  ultimately show ?thesis using st u(2) by blast
qed

section \<open>The array of tool calls\<close>

text \<open>A message to which a tool call can be appended: it has no tool calls yet, or an array of them.\<close>

definition takes_calls :: "json \<Rightarrow> bool" where
  "takes_calls m \<longleftrightarrow> jget m ''tool_calls'' = None \<or> (\<exists>cs. jget m ''tool_calls'' = Some (JArray cs))"

abbreviation all_take_calls :: "chat_state \<Rightarrow> bool" where
  "all_take_calls st \<equiv> list_all takes_calls (ch_messages st)"

lemma own_takes_calls: "own_message m \<Longrightarrow> takes_calls m"
  by (simp add: own_message_def takes_calls_def)

lemma takes_calls_set: "takes_calls (set_field m ''tool_calls'' (JArray cs))"
  by (cases m) (simp_all add: takes_calls_def)

lemma push_tool_call_takes:
  assumes "list_all takes_calls ms"
  shows "\<exists>ms'. push_tool_call ms t = Ok ms' \<and> list_all takes_calls ms'"
proof (cases "last_chat_role ms = JString ''assistant''")
  case True
  then obtain ms0 m where ms: "ms = ms0 @ [m]"
    by (cases ms rule: rev_cases) (auto simp: last_chat_role_def)
  with assms obtain cs where "(case jget m ''tool_calls'' of Some v \<Rightarrow> v | None \<Rightarrow> JArray []) = JArray cs"
    by (auto simp: takes_calls_def)
  with True ms assms show ?thesis by (simp add: push_tool_call_def takes_calls_set)
next
  case False
  with assms show ?thesis by (simp add: push_tool_call_def own_takes_calls)
qed

lemma chat_item_safe: "all_take_calls st \<Longrightarrow> chat_item E registry bridge n i st \<noteq> Err Panicked"
proof (cases i)
  case (ItemToolCall c)
  moreover assume "all_take_calls st"
  moreover from push_tool_call_takes [OF this] have "push_tool_call (ch_messages st) t \<noteq> Err Panicked" for t
    by (metis sum.distinct(1))
  ultimately show ?thesis by (auto simp: chat_call_def and_then_def split: sum.splits)
qed (auto simp: chat_turn_def chat_instruction_def chat_result_def ok_or_def and_then_def split: sum.splits option.splits)

lemma chat_item_takes: "chat_item E registry bridge n i st = Ok st' \<Longrightarrow> all_take_calls st \<Longrightarrow> all_take_calls st'"
proof (cases i)
  case (ItemToolCall c)
  moreover assume "chat_item E registry bridge n i st = Ok st'" "all_take_calls st"
  ultimately show ?thesis using push_tool_call_takes [of "ch_messages st"] by (auto elim!: chat_call_Ok) (metis sum.inject(2))
qed (auto simp: own_takes_calls split: if_splits elim!: chat_item_elims)

definition replay_takes_calls :: "native_state \<Rightarrow> bool" where
  "replay_takes_calls native \<longleftrightarrow> (\<forall>v d m c. native = Builtin (ChatReplay v d m c) \<longrightarrow> takes_calls m)"

lemma native_assistant_Ok: "native_assistant dialect native = Ok (m, same) \<Longrightarrow> \<exists>v d c. native = Builtin (ChatReplay v d m c)"
  by (cases native) (auto simp: native_assistant_def split: native_replay.splits if_splits)

lemma chat_replay_safe: "chat_replay dialect items n stop native st \<noteq> Err Panicked"
  using reject_not_panicked by (auto simp: chat_replay_def and_then_def split: sum.split prod.split)

lemma chat_closing_safe: "chat_closing dialect stop native st \<noteq> Err Panicked"
  using reject_not_panicked by (auto simp: chat_closing_def and_then_def split: sum.split prod.split)

lemma chat_replay_takes:
  "chat_replay dialect items n stop native st = Ok st' \<Longrightarrow> replay_takes_calls native \<Longrightarrow> all_take_calls st \<Longrightarrow> all_take_calls st'"
  by (auto simp: chat_replay_def replay_takes_calls_def split: if_splits dest!: native_assistant_Ok)

lemma and_then_safe: "m \<noteq> Err e \<Longrightarrow> (\<And>x. m = Ok x \<Longrightarrow> f x \<noteq> Err e) \<Longrightarrow> and_then m f \<noteq> Err e"
  by (cases m) auto

lemma if_safe: "(b \<Longrightarrow> m \<noteq> e) \<Longrightarrow> (\<not> b \<Longrightarrow> m' \<noteq> e) \<Longrightarrow> (if b then m else m') \<noteq> e"
  by simp

lemma chat_input_safe:
  assumes "\<And>n stop native. fmlookup history n = Some (stop, native) \<Longrightarrow> replay_takes_calls native"
  shows "chat_input E registry bridge dialect history r \<noteq> Err Panicked"
proof -
  have "walk_items (chat_item E registry bridge) (chat_replay dialect items) (chat_closing dialect) history items 0
      \<lparr>ch_messages = chat_preface bridge r, ch_pending = fmempty, ch_instructions = initial_envelope bridge r\<rparr> \<noteq> Err Panicked" for items
  proof (rule walk_items_safe [where P = all_take_calls])
    show "all_take_calls \<lparr>ch_messages = chat_preface bridge r, ch_pending = fmempty, ch_instructions = initial_envelope bridge r\<rparr>"
      using own_preface [of bridge r] by (auto simp: list_all_iff own_takes_calls)
  qed (auto simp: chat_item_safe chat_replay_safe chat_closing_safe intro: chat_item_takes chat_replay_takes assms)
  then show ?thesis
    unfolding chat_input_def Let_def by (intro and_then_safe) (auto split: option.splits input.splits)
qed

text \<open>C33. The expectation that the tool calls of the last assistant message are an array holds for every
  request, plan and provider history in which each replayed assistant message has either no
  \<open>tool_calls\<close> or an array there, so it always holds without replayed state. (It is this one
  expectation of the encoder the claim is about; \<open>replayed_message_panics\<close> below shows that the
  condition on replayed messages is needed.)\<close>

theorem chat_tool_array_constructed:
  assumes "\<forall>n stop native. fmlookup history n = Some (stop, native) \<longrightarrow> replay_takes_calls native"
  shows "chat_encode_with_history E r plan history managed \<noteq> Err Panicked"
  using assms unfolding chat_encode_with_history_def Let_def
  by (intro if_safe and_then_safe) (auto simp: chat_input_safe)

theorem chat_tool_array_constructed_witness:
  "chat_encode_with_history demo_wire_env demo_wire_request demo_plan
     (fmap_of_list [(0, (1, Builtin (ChatReplay 1 DeepSeekDialect (chat_message ''assistant'' (JString ''hi'')) JNull)))])
     True \<noteq> Err Panicked"
proof (rule chat_tool_array_constructed, intro allI impI)
  fix n stop native
  assume "fmlookup (fmap_of_list [(0, (1, Builtin (ChatReplay 1 DeepSeekDialect (chat_message ''assistant'' (JString ''hi'')) JNull)))]) n =
    Some (stop :: nat, native)"
  then have "native = Builtin (ChatReplay 1 DeepSeekDialect (chat_message ''assistant'' (JString ''hi'')) JNull)"
    by (simp split: if_splits)
  then show "replay_takes_calls native" by (simp add: replay_takes_calls_def own_takes_calls)
qed

text \<open>A history is encoded for a Chat provider only if behind every tool call, before any further turn of
  the user, stands its result.\<close>

theorem chat_calls_answered:
  assumes "chat_encode_admitted E r plan = Ok p"
  shows "all_answered (history_items r)"
proof (cases "req_input r")
  case (Some i)
  from assms obtain registry st where
    st: "chat_input E registry (ChatInstructionEnvelope \<in> set (tp_bridges plan)) None fmempty r = Ok st"
    by (rule chat_encode_admitted_Ok)
  show ?thesis
  proof (cases i)
    case (ItemsInput items)
    with Some chat_walk_items_Ok [OF st, of items] have "all_answered items"
      by (auto intro: chat_history.walk_all_answered)
    with Some ItemsInput show ?thesis by (simp add: history_items_def)
  qed (use Some in \<open>simp add: history_items_def\<close>)
qed (simp add: history_items_def)

text \<open>Replayed state is not of the gateway's own making. An assistant message the provider sent with
  \<open>"tool_calls": null\<close> is accepted and kept for replay; a tool call of the client behind it makes the
  encoder panic.\<close>

definition null_calls_message :: json where
  "null_calls_message =
     obj [(''role'', JString ''assistant''), (''content'', JString ''hi''), (''tool_calls'', JNull)]"

lemma null_calls_accepted:
  "chat_assistant (obj [(''message'', null_calls_message)]) = Ok null_calls_message"
  "chat_calls E mid null_calls_message st = Ok st"
  by (code_simp, simp add: chat_calls_def null_calls_message_def present_def jget_obj)

lemma replayed_message_panics:
  assumes "chat_replay dialect items n stop (Builtin (ChatReplay 1 prior null_calls_message c)) st = Ok st1"
    and "lowered_arguments E registry call = Ok (name, raw)"
  shows "chat_call E registry call st1 = Err Panicked"
proof -
  from assms(1) have "ch_messages st1 = ch_messages st @ [null_calls_message]"
    by (auto simp: chat_replay_def native_assistant_def split: if_splits)
  then show ?thesis
    using assms(2) by (simp add: chat_call_def push_tool_call_def last_chat_role_def null_calls_message_def jget_obj json_index_def reject_def)
qed

section \<open>What a decoded response shows\<close>

definition message_items :: "json \<Rightarrow> (string + json) list" where
  "message_items m = (case str_at m ''content'' of Some t \<Rightarrow> [Inl t] | None \<Rightarrow> []) @ map Inr (calls_of m)"

fun chat_shown :: "wire_env \<Rightarrow> prepared_tools \<Rightarrow> string + json \<Rightarrow> json \<Rightarrow> bool" where
  "chat_shown E tools (Inl t) out \<longleftrightarrow> str_at out ''type'' = Some ''message'' \<and> output_text out = Some t"
| "chat_shown E tools (Inr call) out \<longleftrightarrow>
     str_at out ''type'' \<in> {Some ''function_call'', Some ''custom_tool_call''} \<and>
     str_at out ''call_id'' = str_at call ''id'' \<and>
     (\<exists>alias t kind. str_at (json_index call ''function'') ''name'' = Some alias \<and> resolve tools alias = Ok (t, kind) \<and>
        str_at out ''name'' = Some (tool_name t) \<and> str_at out ''namespace'' = namespace t \<and>
        (\<exists>raw. str_at (json_index call ''function'') ''arguments'' = Some raw \<and> arguments_shown E tools alias raw out))"

lemma chat_shown_set_status: "chat_shown E tools i (set_field out ''status'' x) = chat_shown E tools i out"
  by (cases i) (simp_all add: arguments_shown_set_status)

lemma chat_text_shown:
  assumes "chat_text E mid m st = Ok st'"
  shows "de_tools st' = de_tools st \<and> de_tool_count st' = de_tool_count st \<and>
    (\<exists>outs. de_output st' = de_output st @ outs \<and>
       list_all2 (chat_shown E tools) (case str_at m ''content'' of Some t \<Rightarrow> [Inl t] | None \<Rightarrow> []) outs)"
proof (cases "present m ''content''")
  case True
  with assms obtain t item where "str_at m ''content'' = Some t"
      "emit_item E item (text_events item 0 Message Text t) (output_message item t) st = Ok st'"
    by (auto simp: chat_text_def)
  then show ?thesis by (auto simp: output_message_fields dest!: emit_item_Ok)
next
  case False
  then have "str_at m ''content'' = None"
    by (auto simp: present_def str_at_def split: option.splits)
  with assms False show ?thesis by (simp add: chat_text_def)
qed

lemma chat_tool_shown:
  assumes "chat_tool_output E mid st c = Ok st'" and "same_tools tools (de_tools st)"
  shows "same_tools tools (de_tools st') \<and> de_tool_count st' = Suc (de_tool_count st) \<and>
    (\<exists>out. de_output st' = de_output st @ [out] \<and> chat_shown E tools (Inr c) out)"
proof -
  from assms(1) obtain f name raw_id cid item raw call tools' where c: "jget c ''function'' = Some f"
      "str_at f ''name'' = Some name" "str_at c ''id'' = Some raw_id"
      "call_id_new raw_id = Ok cid" "restore_tool (we_serde E) (we_lower E) (de_tools st) name cid item raw = Ok (call, tools')"
      "de_output st' = de_output st @ [tool_output call ''completed'']" "de_tools st' = tools'"
      "de_tool_count st' = Suc (de_tool_count st)" "str_at f ''arguments'' = Some raw"
    by (auto simp: chat_tool_output_def json_string_def split: if_splits dest!: emit_item_Ok)
  from restore_tool_Ok [OF c(5)] obtain kind' where r: "resolve tools name = Ok (tc_tool call, kind')" "tc_call_id call = cid"
      "same_tools tools tools'"
    using assms(2) resolve_same same_tools_trans by metis
  then have "chat_shown E tools (Inr c) (tool_output call ''completed'')"
    using c(1-4,9) tool_output_arguments [OF c(5) assms(2)]
    by (auto simp: tool_output_fields call_id_new_text json_index_def split: tool_input.split)
  with c r show ?thesis by blast
qed

lemma chat_tools_shown:
  assumes "fold_result (chat_tool_output E mid) st cs = Ok st'" and "same_tools tools (de_tools st)"
  shows "de_tool_count st' = de_tool_count st + length cs \<and>
    (\<exists>outs. de_output st' = de_output st @ outs \<and> list_all2 (chat_shown E tools) (map Inr cs) outs)"
  using assms
proof (induction cs arbitrary: st)
  case (Cons c cs)
  then obtain st1 where s: "chat_tool_output E mid st c = Ok st1" "fold_result (chat_tool_output E mid) st1 cs = Ok st'"
    by auto
  from chat_tool_shown [OF s(1) Cons.prems(2)] obtain out where
    out: "same_tools tools (de_tools st1)" "de_tool_count st1 = Suc (de_tool_count st)"
      "de_output st1 = de_output st @ [out]" "chat_shown E tools (Inr c) out" by blast
  from Cons.IH [OF s(2) out(1)] obtain outs where
    "de_tool_count st' = de_tool_count st1 + length cs"
    "de_output st' = de_output st1 @ outs" "list_all2 (chat_shown E tools) (map Inr cs) outs" by blast
  with out show ?case by (intro conjI exI [of _ "out # outs"]) simp_all
qed simp

lemma chat_calls_shown:
  assumes "chat_calls E mid m st = Ok st'" and "same_tools tools (de_tools st)"
  shows "de_tool_count st' = de_tool_count st + length (calls_of m) \<and>
    (\<exists>outs. de_output st' = de_output st @ outs \<and> list_all2 (chat_shown E tools) (map Inr (calls_of m)) outs)"
proof (cases "present m ''tool_calls''")
  case True
  with assms(1) obtain cs where "Option.bind (jget m ''tool_calls'') as_array = Some cs"
      "fold_result (chat_tool_output E mid) st cs = Ok st'"
    by (auto simp: chat_calls_def)
  with chat_tools_shown [OF _ assms(2)] show ?thesis by (simp add: calls_of_def)
next
  case False
  then have "calls_of m = []" by (auto simp: present_def calls_of_def split: option.splits)
  with assms False show ?thesis by (simp add: chat_calls_def)
qed

lemma chat_decode_shows:
  assumes "chat_decode E p v = Ok (response, tools)"
  shows "\<exists>choice m outs. only_choice v = Ok choice \<and> jget choice ''message'' = Some m \<and>
    jget response ''output'' = Some (JArray outs) \<and> list_all2 (chat_shown E (pc_tools p)) (message_items m) outs \<and>
    (case str_at response ''status'' of
       Some s \<Rightarrow> s = (if str_at choice ''finish_reason'' = Some ''length'' then ''incomplete'' else ''completed'')
     | None \<Rightarrow> False) \<and>
    (str_at response ''status'' = Some ''completed'' \<longrightarrow>
       (str_at choice ''finish_reason'' = Some ''tool_calls'') = (calls_of m \<noteq> []))"
proof -
  from assms obtain mid rid created choice m val st1 st finish terminal reason metrics where d:
    "only_choice v = Ok choice" "chat_assistant choice = Ok m"
    "chat_text E mid m \<lparr>de_validator = val, de_output = [], de_tool_count = 0, de_tools = pc_tools p\<rparr> = Ok st1"
    "chat_calls E mid m st1 = Ok st"
    "str_at choice ''finish_reason'' = Some finish" "chat_terminal p finish (de_tool_count st) = Ok (terminal, reason)"
    "response = chat_response p rid created terminal reason (de_output st) metrics"
    by (auto simp: chat_decode_def json_string_def)
  from chat_text_shown [OF d(3), of "pc_tools p"] obtain texts where
    t: "de_tools st1 = pc_tools p" "de_tool_count st1 = 0" "de_output st1 = texts"
      "list_all2 (chat_shown E (pc_tools p)) (case str_at m ''content'' of Some t \<Rightarrow> [Inl t] | None \<Rightarrow> []) texts"
    by auto
  from chat_calls_shown [OF d(4), of "pc_tools p"] t(1-3) obtain outs where
    o: "de_tool_count st = length (calls_of m)" "de_output st = texts @ outs"
      "list_all2 (chat_shown E (pc_tools p)) (map Inr (calls_of m)) outs"
    by auto
  have "list_all2 (chat_shown E (pc_tools p)) (message_items m) (mark_items terminal (de_output st))"
    using t(4) o(2,3) by (simp add: message_items_def mark_items_def list.rel_map chat_shown_set_status list_all2_appendI)
  moreover have "jget choice ''message'' = Some m" using d(2) by (auto simp: chat_assistant_def split: if_splits)
  moreover have "terminal_status terminal = (if finish = ''length'' then ''incomplete'' else ''completed'')"
      "terminal = terminal.Completed \<longrightarrow> (finish = ''tool_calls'') = (calls_of m \<noteq> [])"
    using d(6) o(1) by (auto simp: chat_terminal_def terminal_status_def split: if_splits)
  moreover have "str_at response ''status'' = Some (terminal_status terminal)"
      "jget response ''output'' = Some (JArray (mark_items terminal (de_output st)))"
    by (simp_all add: d(7) chat_response_def str_at_def jget_obj)
  moreover have "terminal_status terminal = ''completed'' \<Longrightarrow> terminal = terminal.Completed"
    by (cases terminal) (simp_all add: terminal_status_def)
  ultimately show ?thesis using d(1,5) by (intro exI [of _ choice] exI [of _ m] exI conjI) auto
qed

text \<open>C34. A decoded chat completion shows what the assistant message says, once and in order: its text as a
  message with exactly that text, then each tool call as a call of the client's own tool with the
  provider's call identifier and the provider's arguments, to the character for a function tool and
  as the text they carry for a free-form or structured one. The response is completed unless the provider stopped at the token limit,
  and a completed one has tool calls exactly when the provider says so.\<close>

theorem chat_response_faithful:
  assumes "chat_decode E p v = Ok (response, tools)"
  shows "\<exists>choice m outs. only_choice v = Ok choice \<and> jget choice ''message'' = Some m \<and>
    jget response ''output'' = Some (JArray outs) \<and> list_all2 (chat_shown E (pc_tools p)) (message_items m) outs \<and>
    (case str_at response ''status'' of
       Some s \<Rightarrow> s = (if str_at choice ''finish_reason'' = Some ''length'' then ''incomplete'' else ''completed'')
     | None \<Rightarrow> False) \<and>
    (str_at response ''status'' = Some ''completed'' \<longrightarrow>
       (str_at choice ''finish_reason'' = Some ''tool_calls'') = (calls_of m \<noteq> []))"
  by (rule chat_decode_shows [OF assms])

section \<open>A worked exchange\<close>

definition demo_chat_plan :: translation_plan where
  "demo_chat_plan = demo_plan\<lparr>tp_route := demo_route\<lparr>rs_api := ChatCompletions\<rparr>\<rparr>"

definition demo_chat_messages :: "json list" where
  "demo_chat_messages =
     [chat_message ''user'' (JString ''hi''), calls_message (chat_tool_call (CallId ''c1'') ''arg_custom_0'' ''{}''),
      chat_tool_message demo_wire_result ''ok'']"

lemma demo_lowered_arguments:
  "lowered_arguments demo_wire_env demo_bridge demo_wire_call = Ok (''arg_custom_0'', ''{}'')"
  by (simp add: lowered_arguments_def demo_wire_env_def demo_wire_lower)
    (simp add: demo_wire_call_def demo_serde_def is_object_def)

lemma demo_result_text: "result_text demo_serde demo_bridge demo_wire_result demo_wire_call = Ok ''ok''"
  by (simp add: result_text_def demo_bridge_def demo_wire_result_def)

lemma demo_chat_input:
  "chat_input demo_wire_env demo_bridge False None fmempty demo_wire_request =
     Ok \<lparr>ch_messages = demo_chat_messages, ch_pending = fmempty, ch_instructions = []\<rparr>"
proof -
  have env: "we_serde demo_wire_env = demo_serde" "we_lower demo_wire_env = (\<lambda>s. s)" by (simp_all add: demo_wire_env_def)
  have ids: "tc_call_id demo_wire_call = CallId ''c1''" "tr_call_id demo_wire_result = CallId ''c1''"
    by (simp_all add: demo_wire_call_def demo_wire_result_def)
  have roles: "last_chat_role [chat_message ''user'' (JString ''hi'')] = JString ''user''" by code_simp
  have turn: "msg_role demo_turn = User" "msg_content demo_turn = ContentText ''hi''" by (simp_all add: demo_turn_def)
  show ?thesis
    by (simp add: chat_input_def demo_wire_request_def walk_items_no_history demo_wire_items_def Let_def chat_preface_def
        initial_envelope_def chat_turn_def turn chat_push_def chat_call_def reject_def demo_lowered_arguments push_tool_call_def
        roles chat_result_def ids env demo_wire_lower_result demo_result_text demo_chat_messages_def fmdrop_fmupd_same)
qed

lemma demo_chat_payload: "is_ok (chat_payload demo_wire_env demo_bridge demo_wire_request demo_chat_plan False None ms)"
proof -
  have "is_ok (traverse chat_tool (br_definitions demo_bridge))" by code_simp
  then obtain tools where tools: "traverse chat_tool (br_definitions demo_bridge) = Ok tools" by (auto simp: is_ok_iff)
  have g: "req_generation demo_wire_request = demo_generation\<lparr>go_tool_choice := None\<rparr>"
    by (simp add: demo_wire_request_def demo_tools_request_def)
  have none: "go_output demo_generation = None" "go_temperature demo_generation = None"
    "go_top_p demo_generation = None" "go_max_output_tokens demo_generation = Some 64" "go_reasoning demo_generation = None"
    by (simp_all add: demo_generation_def)
  have contract: "cp_reasoning_contract (rs_capabilities (tp_route demo_chat_plan)) = None"
    by (simp add: demo_chat_plan_def demo_route_def demo_profile_def)
  show ?thesis
    by (simp add: chat_payload_def tools max_tokens_of_def g none contract choice_demands_def chat_choice_field_def
        chat_format_field_def chat_effort_field_def requested_effort_def sampling_field_def chat_controls_def)
qed

lemma demo_chat_encode: "is_ok (chat_encode_admitted demo_wire_env demo_wire_request demo_chat_plan)"
proof -
  have plan: "chat_plan_ok demo_chat_plan False" by code_simp
  have env: "for_plan (we_serde demo_wire_env) (we_sha256 demo_wire_env) demo_wire_request demo_profile None True = Ok demo_bridge"
    using demo_wire_for_plan by (simp add: demo_wire_env_def)
  have p: "rs_capabilities (tp_route demo_chat_plan) = demo_profile" "tp_editing demo_chat_plan = None"
    "cp_reasoning_contract demo_profile = None" "tp_bridges demo_chat_plan = [CustomToolJson]"
    by (simp_all add: demo_chat_plan_def demo_route_def demo_profile_def demo_plan_def)
  obtain payload reasoning where "chat_payload demo_wire_env demo_bridge demo_wire_request demo_chat_plan False None
      (chat_messages demo_wire_env False \<lparr>ch_messages = demo_chat_messages, ch_pending = fmempty, ch_instructions = []\<rparr>) =
      Ok (payload, reasoning)"
    using demo_chat_payload by (fastforce simp: is_ok_iff)
  then show ?thesis
    by (simp add: chat_encode_admitted_def chat_encode_with_history_def p Let_def plan env demo_chat_input)
qed

theorem chat_history_in_order_witness:
  "\<exists>ms pre uss. preamble pre \<and>
     list_all2 (chat_says demo_wire_env demo_bridge False (calls_in demo_wire_items)) demo_wire_items uss \<and>
     chat_spoken ms = pre @ concat uss"
proof -
  obtain p where p: "chat_encode_admitted demo_wire_env demo_wire_request demo_chat_plan = Ok p"
    using demo_chat_encode by (auto simp: is_ok_iff)
  have "req_input demo_wire_request = Some (ItemsInput demo_wire_items)" by (simp add: demo_wire_request_def)
  from chat_history_in_order [OF p this] show ?thesis
    using demo_wire_for_plan by (auto simp: demo_wire_env_def demo_chat_plan_def demo_plan_def demo_route_def)
qed

theorem chat_calls_answered_witness: "all_answered (history_items demo_wire_request)"
proof -
  obtain p where p: "chat_encode_admitted demo_wire_env demo_wire_request demo_chat_plan = Ok p"
    using demo_chat_encode by (auto simp: is_ok_iff)
  from chat_calls_answered [OF p] show ?thesis .
qed

definition demo_prepared_chat :: prepared_chat where
  "demo_prepared_chat =
     \<lparr>pc_payload = JNull, pc_model = ''m'', pc_tools = prepared_tools_new demo_bridge demo_wire_request,
      pc_reasoning_contract = None, pc_reasoning_controls = None\<rparr>"

definition demo_assistant :: json where
  "demo_assistant = obj [(''role'', JString ''assistant''), (''content'', JString ''hi'')]"

definition demo_choice :: json where
  "demo_choice =
     obj [(''index'', JNumber ''0''), (''message'', demo_assistant), (''finish_reason'', JString ''stop'')]"

definition demo_completion :: json where
  "demo_completion =
     obj [(''object'', JString ''chat.completion''), (''model'', JString ''m''), (''id'', JString ''x''), (''created'', JNumber ''1''),
       (''choices'', JArray [demo_choice])]"

lemma demo_chat_parts:
  "only_choice demo_completion = Ok demo_choice"
  "chat_assistant demo_choice = Ok demo_assistant"
  "json_string demo_choice ''finish_reason'' = Ok ''stop''"
  "chat_metrics demo_completion = Ok None"
  "present demo_assistant ''content''" "str_at demo_assistant ''content'' = Some ''hi''"
  "present demo_assistant ''tool_calls'' = False" "calls_of demo_assistant = []"
  by (simp add: only_choice_def demo_completion_def demo_choice_def jget_obj parse_u64_def is_ascii_digit_def present_def, code_simp+)

lemma demo_chat_head: "chat_head demo_prepared_chat demo_completion = Ok (''x'', ResponseId ''resp_x'', 1)"
  using demo_ids(1)
  by (simp add: chat_head_def demo_completion_def demo_prepared_chat_def json_string_def str_at_def jget_obj parse_u64_def is_ascii_digit_def)

lemma demo_chat_decode: "is_ok (chat_decode demo_wire_env demo_prepared_chat demo_completion)"
proof -
  have ends: "chat_terminal demo_prepared_chat ''stop'' 0 = Ok (terminal.Completed, None)"
    by (simp add: chat_terminal_def validate_count_def demo_prepared_chat_def prepared_tools_new_def demo_wire_request_def
        demo_tools_request_def demo_generation_def choice_demands_def)
  have item: "item_id_new (''item_'' @ ''x'' @ ''_0'') = Ok (ItemId ''item_x_0'')" by code_simp
  show ?thesis
    unfolding chat_decode_def demo_chat_head and_then_simps prod.case demo_chat_parts
    using item
    by (simp add: chat_text_def chat_calls_def demo_chat_parts emit_item_def demo_event_eval ends item_id_new_def)
qed

theorem chat_response_faithful_witness:
  "\<exists>response tools out. chat_decode demo_wire_env demo_prepared_chat demo_completion = Ok (response, tools) \<and>
     jget response ''output'' = Some (JArray [out]) \<and> output_text out = Some ''hi''"
proof -
  obtain response tools where r: "chat_decode demo_wire_env demo_prepared_chat demo_completion = Ok (response, tools)"
    using demo_chat_decode by (auto simp: is_ok_iff)
  have "jget demo_choice ''message'' = Some demo_assistant" by code_simp
  moreover have "message_items demo_assistant = [Inl ''hi'']" by (simp add: message_items_def demo_chat_parts)
  ultimately show ?thesis
    using chat_response_faithful [OF r] r demo_chat_parts(1) by (auto simp: list_all2_Cons1)
qed
section \<open>Token counts\<close>

text \<open>What a usage object of a response says of one counter.\<close>

lemma set_details_counts:
  assumes "usage_detail v u (source, key, target, maximum) = Ok u'" and "is_object u"
    and "target \<notin> {''input_tokens'', ''output_tokens'', ''total_tokens''}"
  shows "is_object u' \<and> (\<forall>k \<noteq> target. jget u' k = jget u k) \<and>
    (jget u' target = jget u target \<or>
     (\<exists>n \<le> maximum. jget u' target = Some (obj [(key, json_u64 n)])))"
  using assms
  by (auto simp: usage_detail_def Let_def jget_set_field jget_set_same split: if_splits option.splits)

text \<open>The token counts of a chat response are those of the provider, and only if they add up: the total is
  the sum of prompt and completion tokens without wrap-around, and cached or reasoning tokens are shown
  only when they do not exceed what they are part of.\<close>

theorem chat_usage_exact:
  assumes "chat_usage v = Ok u"
  shows "count_at u ''input_tokens'' = count_at v ''prompt_tokens'' \<and>
    count_at u ''output_tokens'' = count_at v ''completion_tokens'' \<and>
    count_at u ''total_tokens'' = count_at u ''input_tokens'' + count_at u ''output_tokens'' \<and>
    count_at (json_index u ''input_tokens_details'') ''cached_tokens'' \<le> count_at u ''input_tokens'' \<and>
    count_at (json_index u ''output_tokens_details'') ''reasoning_tokens'' \<le> count_at u ''output_tokens''"
proof -
  from assms obtain input out all_tokens u1 where u:
    "usage_number v ''prompt_tokens'' = Ok input" "usage_number v ''completion_tokens'' = Ok out"
    "checked_add input out = Some all_tokens"
    "usage_detail v (obj [(''input_tokens'', json_u64 input), (''output_tokens'', json_u64 out), (''total_tokens'', json_u64 all_tokens)])
       (''prompt_tokens_details'', ''cached_tokens'', ''input_tokens_details'', input) = Ok u1"
    "usage_detail v u1 (''completion_tokens_details'', ''reasoning_tokens'', ''output_tokens_details'', out) = Ok u"
    by (auto simp: chat_usage_def split: if_splits)
  from set_details_counts [OF u(4)] have u1: "is_object u1"
      "jget u1 ''input_tokens'' = Some (json_u64 input)" "jget u1 ''output_tokens'' = Some (json_u64 out)"
      "jget u1 ''total_tokens'' = Some (json_u64 all_tokens)" "jget u1 ''output_tokens_details'' = None"
      "jget u1 ''input_tokens_details'' = None \<or>
       (\<exists>n \<le> input. jget u1 ''input_tokens_details'' = Some (obj [(''cached_tokens'', json_u64 n)]))"
    by (auto simp: jget_obj)
  from set_details_counts [OF u(5) u1(1)] u1 have u2:
      "jget u ''input_tokens'' = Some (json_u64 input)" "jget u ''output_tokens'' = Some (json_u64 out)"
      "jget u ''total_tokens'' = Some (json_u64 all_tokens)"
      "jget u ''input_tokens_details'' = None \<or>
       (\<exists>n \<le> input. jget u ''input_tokens_details'' = Some (obj [(''cached_tokens'', json_u64 n)]))"
      "jget u ''output_tokens_details'' = None \<or>
       (\<exists>n \<le> out. jget u ''output_tokens_details'' = Some (obj [(''reasoning_tokens'', json_u64 n)]))"
    by auto
  from u(1,2) have "count_at v ''prompt_tokens'' = unat input" "count_at v ''completion_tokens'' = unat out"
    by (auto simp: usage_number_def count_at_def)
  moreover from u2 have "count_at u ''input_tokens'' = unat input" "count_at u ''output_tokens'' = unat out"
      "count_at u ''total_tokens'' = unat all_tokens"
    by (auto simp: count_at_def)
  moreover from u2(4) have "count_at (json_index u ''input_tokens_details'') ''cached_tokens'' \<le> unat input"
    by (auto simp: count_at_def json_index_def jget_obj word_le_nat_alt)
  moreover from u2(5) have "count_at (json_index u ''output_tokens_details'') ''reasoning_tokens'' \<le> unat out"
    by (auto simp: count_at_def json_index_def jget_obj word_le_nat_alt)
  moreover from u(3) have "unat all_tokens = unat input + unat out" by (simp add: checked_add_Some)
  ultimately show ?thesis by simp
qed

lemma demo_chat_usage:
  "chat_usage (obj [(''prompt_tokens'', JNumber ''3''), (''completion_tokens'', JNumber ''4''), (''total_tokens'', JNumber ''7'')]) =
     Ok (obj [(''input_tokens'', json_u64 3), (''output_tokens'', json_u64 4), (''total_tokens'', json_u64 7)])"
  by (simp add: chat_usage_def usage_number_def usage_detail_def present_def jget_obj parse_u64_def is_ascii_digit_def checked_add_def)

theorem chat_usage_exact_witness:
  "count_at (obj [(''input_tokens'', json_u64 3), (''output_tokens'', json_u64 4), (''total_tokens'', json_u64 7)]) ''total_tokens'' =
   count_at (obj [(''input_tokens'', json_u64 3), (''output_tokens'', json_u64 4), (''total_tokens'', json_u64 7)]) ''input_tokens'' +
   count_at (obj [(''input_tokens'', json_u64 3), (''output_tokens'', json_u64 4), (''total_tokens'', json_u64 7)]) ''output_tokens''"
  using chat_usage_exact [OF demo_chat_usage] by blast

section \<open>Managed responses\<close>

lemma calls_of_stripped: "calls_of (JObject (strip_reasoning m)) = calls_of (JObject m)"
  by (simp add: calls_of_def strip_reasoning_def Let_def)

lemma only_choice_stripped:
  assumes "only_choice (stripped_response v choice m) = Ok c" and "is_object v"
  shows "c = set_field choice ''message'' (JObject (strip_reasoning m))"
  using assms by (auto simp: only_choice_def stripped_response_def jget_set_field jget_set_same split: if_splits)

text \<open>A managed chat response keeps the assistant message exactly as the provider sent it, as the state to
  replay, and shows the client one reasoning item with the public summaries in front of the items of the
  message, with reasoning fields removed from what is shown and nothing else changed.\<close>

theorem chat_managed_replay:
  assumes "chat_decode_managed E p v = Ok mg"
  shows "\<exists>choice m dialect control summaries mid outs.
    jget v ''choices'' = Some (JArray [choice]) \<and> jget choice ''message'' = Some (JObject m) \<and>
    pc_reasoning_controls p = Some control \<and> chat_dialect p = Ok dialect \<and>
    mg_native mg = ChatReplay 1 dialect (JObject m) control \<and>
    public_summaries p (JObject m) = Ok summaries \<and>
    jget (mg_response mg) ''output'' = Some (JArray (reasoning_item (''rs_'' @ mid) summaries # outs)) \<and>
    list_all2 (chat_shown E (pc_tools p)) (message_items (JObject (strip_reasoning m))) outs \<and>
    (mg_outcome mg = AwaitingTools) = (calls_of (JObject m) \<noteq> [])"
proof -
  from assms obtain choice m dialect control summaries mid outs response tools usage where d:
    "managed_choice v = Ok choice" "jget choice ''message'' = Some (JObject m)" "chat_dialect p = Ok dialect"
    "public_summaries p (JObject m) = Ok summaries"
    "chat_decode E p (stripped_response v choice m) = Ok (response, tools)"
    "json_index response ''status'' = JString ''completed''"
    "as_array (json_index response ''output'') = Some outs" "pc_reasoning_controls p = Some control"
    "mg_response mg = set_field (set_field response ''usage'' usage) ''output''
       (JArray (reasoning_item (''rs_'' @ mid) summaries # outs))"
    "mg_native mg = ChatReplay 1 dialect (JObject m) control"
    "mg_outcome mg = (if json_index choice ''finish_reason'' = JString ''tool_calls'' then AwaitingTools else OutcomeCompleted)"
    by (auto simp: chat_decode_managed_def split: if_splits elim!: as_object.elims)
  from d(1) have v: "is_object v" "jget v ''choices'' = Some (JArray [choice])" "is_object choice"
    by (auto simp: managed_choice_def known_fields_def json_object_def is_object_def json_index_def
        split: option.splits list.splits if_splits elim: as_array.elims)
  from chat_decode_shows [OF d(5)] obtain c m' outs' where f:
    "only_choice (stripped_response v choice m) = Ok c" "jget c ''message'' = Some m'"
    "jget response ''output'' = Some (JArray outs')" "list_all2 (chat_shown E (pc_tools p)) (message_items m') outs'"
    "str_at response ''status'' = Some ''completed'' \<longrightarrow>
       (str_at c ''finish_reason'' = Some ''tool_calls'') = (calls_of m' \<noteq> [])"
    by blast
  have c: "c = set_field choice ''message'' (JObject (strip_reasoning m))" by (rule only_choice_stripped [OF f(1) v(1)])
  with f(2) v(3) have m': "m' = JObject (strip_reasoning m)" by (simp add: jget_set_same)
  have "outs' = outs" using f(3) d(7) by (simp add: json_index_def)
  moreover have "is_object response" using f(3) by (cases response) simp_all
  moreover have "(json_index choice ''finish_reason'' = JString ''tool_calls'') = (str_at c ''finish_reason'' = Some ''tool_calls'')"
    by (auto simp: c json_index_def str_at_def jget_set_field split: option.splits elim: as_str.elims)
  moreover have "str_at response ''status'' = Some ''completed''"
    using d(6) by (auto simp: json_index_def str_at_def split: option.splits)
  ultimately show ?thesis
    using d v(2) f(4,5) m' calls_of_stripped by (intro exI conjI) (auto simp: jget_set_same)
qed

end
