(* ===== verification/Interactions_Adapter.thy ===== *)
theory Interactions_Adapter
  imports Chat_Adapter
begin

text \<open>
  The Gemini Interactions adapter, \<open>src/src/adapters/interactions.rs\<close>: the request payload with replayed
  provider steps, the subset of JSON Schema that is admitted, and the decoding of a complete interaction.

  \<open>integral\<close> stands for the question whether a number literal denotes a finite float without fractional
  part (\<open>Number::as_f64\<close> and \<open>fract\<close>). The code expects the entries of \<open>required\<close> to be strings in
  schemas that \<open>schema\<close> has admitted (\<open>admitted_required\<close> shows that they are).
\<close>

section \<open>Schemas\<close>

text \<open>The first argument of \<open>schema\<close> is the number of levels left: 65 at depth 0, none below depth 64.\<close>

definition schema_entry :: "(json \<Rightarrow> ir_error + unit) \<Rightarrow> string \<times> json \<Rightarrow> ir_error + unit" where
  "schema_entry child = (\<lambda>(k, v).
     if k = ''type'' then
       (if (case as_str v of Some s \<Rightarrow> s \<in> {''object'', ''array'', ''string'', ''number'', ''integer'', ''boolean'', ''null''} | None \<Rightarrow> False)
        then Ok () else Err UnsupportedFeature)
     else if k \<in> {''title'', ''description''} then (if is_string v then Ok () else Err UnsupportedFeature)
     else if k = ''enum'' then
       (if (case as_array v of Some a \<Rightarrow> a \<noteq> [] | None \<Rightarrow> False) then Ok () else Err UnsupportedFeature)
     else if k = ''required'' then
       (if (case as_array v of Some a \<Rightarrow> list_all is_string a | None \<Rightarrow> False) then Ok () else Err UnsupportedFeature)
     else if k = ''additionalProperties'' then (if as_bool v \<noteq> None then Ok () else Err UnsupportedFeature)
     else if k = ''properties'' then
       and_then (ok_or (as_object v) UnsupportedFeature) (\<lambda>m. each (child \<circ> snd) (sorted_list_of_fmap m))
     else if k = ''items'' then child v
     else if k = ''anyOf'' then
       (case as_array v of
          None \<Rightarrow> Err UnsupportedFeature
        | Some a \<Rightarrow> if a = [] then Err UnsupportedFeature else each child a)
     else Err UnsupportedFeature)"

primrec schema :: "nat \<Rightarrow> json \<Rightarrow> ir_error + unit" where
  "schema 0 = (\<lambda>v. Err SizeLimit)"
| "schema (Suc n) = (\<lambda>v.
     and_then (ok_or (as_object v) UnsupportedFeature) (\<lambda>m. each (schema_entry (schema n)) (sorted_list_of_fmap m)))"

primrec json_depth :: "json \<Rightarrow> nat" where
  "json_depth JNull = 0"
| "json_depth (JBool b) = 0"
| "json_depth (JNumber n) = 0"
| "json_depth (JString s) = 0"
| "json_depth (JArray xs) = Suc (Max (insert 0 (set (map json_depth xs))))"
| "json_depth (JObject m) = Suc (Max (insert 0 (fset (fmran (fmmap json_depth m)))))"

lemma json_depth_field: "jget v k = Some c \<Longrightarrow> json_depth c < json_depth v"
proof (cases v)
  case (JObject m)
  moreover assume "jget v k = Some c"
  ultimately have "json_depth c \<in> fset (fmran (fmmap json_depth m))" by (simp add: fmranI)
  then have "json_depth c \<le> Max (insert 0 (fset (fmran (fmmap json_depth m))))" by (intro Max_ge) simp_all
  with JObject show ?thesis by simp
qed simp_all

lemma json_depth_element: "as_array v = Some xs \<Longrightarrow> x \<in> set xs \<Longrightarrow> json_depth x < json_depth v"
proof (cases v)
  case (JArray ys)
  assume "as_array v = Some xs" "x \<in> set xs"
  with JArray have "json_depth x \<in> set (map json_depth ys)" by simp
  then have "json_depth x \<le> Max (insert 0 (set (map json_depth ys)))" by (intro Max_ge) simp_all
  with JArray show ?thesis by simp
qed simp_all

definition parse_i64 :: "string \<Rightarrow> bool" where
  "parse_i64 s =
     (case s of
        [] \<Rightarrow> False
      | c # cs \<Rightarrow>
          if c = CHR ''-'' then cs \<noteq> [] \<and> (case digits_value 0 cs of Some n \<Rightarrow> n \<le> 2 ^ 63 | None \<Rightarrow> False)
          else let t = (if c = CHR ''+'' then cs else s) in
            t \<noteq> [] \<and> (case digits_value 0 t of Some n \<Rightarrow> n < 2 ^ 63 | None \<Rightarrow> False))"

fun type_matches :: "(string \<Rightarrow> bool) \<Rightarrow> string \<Rightarrow> json \<Rightarrow> bool" where
  "type_matches integral t v =
     (if t = ''object'' then is_object v
      else if t = ''array'' then as_array v \<noteq> None
      else if t = ''string'' then is_string v
      else if t = ''integer'' then
        (case v of JNumber n \<Rightarrow> parse_i64 n \<or> parse_u64 n \<noteq> None \<or> integral n | _ \<Rightarrow> False)
      else if t = ''number'' then (case v of JNumber _ \<Rightarrow> True | _ \<Rightarrow> False)
      else if t = ''boolean'' then as_bool v \<noteq> None
      else t = ''null'' \<and> is_null v)"

definition has_required :: "fields \<Rightarrow> json \<Rightarrow> bool" where
  "has_required fs k = (case as_str k of Some s \<Rightarrow> fmlookup fs s \<noteq> None | None \<Rightarrow> False)"

function schema_matches :: "(string \<Rightarrow> bool) \<Rightarrow> json \<Rightarrow> json \<Rightarrow> bool" where
  "schema_matches integral s v \<longleftrightarrow>
     (case Option.bind (jget s ''enum'') as_array of Some a \<Rightarrow> v \<in> set a | None \<Rightarrow> True) \<and>
     (case Option.bind (jget s ''anyOf'') as_array of
        Some a \<Rightarrow> list_ex (\<lambda>c. schema_matches integral c v) a
      | None \<Rightarrow> True) \<and>
     (case str_at s ''type'' of Some t \<Rightarrow> type_matches integral t v | None \<Rightarrow> True) \<and>
     (case as_object v of
        None \<Rightarrow> True
      | Some fs \<Rightarrow>
          (case Option.bind (jget s ''required'') as_array of Some ks \<Rightarrow> list_all (has_required fs) ks | None \<Rightarrow> True) \<and>
          list_all (\<lambda>(k, x).
            case Option.bind (jget s ''properties'') (\<lambda>p. jget p k) of
              Some c \<Rightarrow> schema_matches integral c x
            | None \<Rightarrow> jget s ''additionalProperties'' \<noteq> Some (JBool False)) (sorted_list_of_fmap fs)) \<and>
     (case as_array v of
        None \<Rightarrow> True
      | Some xs \<Rightarrow>
          (case jget s ''items'' of Some c \<Rightarrow> list_all (schema_matches integral c) xs | None \<Rightarrow> True))"
  by pat_completeness auto

termination
proof (relation "measure (\<lambda>(_, s, _). json_depth s)", goal_cases)
  case (2 integral s v a c)
  then obtain w where w: "jget s ''anyOf'' = Some w" "as_array w = Some a" "c \<in> set a" by (auto simp: bind_eq_Some_conv)
  from less_trans [OF json_depth_element [OF w(2,3)] json_depth_field [OF w(1)]] show ?case by simp
next
  case (3 integral s v fs z k x c)
  then show ?case by (auto simp: bind_eq_Some_conv dest!: json_depth_field)
next
  case (4 integral s v xs c z)
  then show ?case by (auto dest!: json_depth_field)
qed simp

declare schema_matches.simps [simp del]

section \<open>Requests\<close>

record prepared_interactions =
  pi_payload :: json
  pi_model :: string
  pi_tools :: prepared_tools

record decoded_interaction =
  di_response :: json
  di_steps :: "json list"
  di_provider_status :: string

fun gemini_part :: "part_kind \<Rightarrow> ir_error + json" where
  "gemini_part (PartText _ t) = Ok (text_block t)"
| "gemini_part _ = Err UnsupportedFeature"

fun texts :: "content \<Rightarrow> ir_error + json list" where
  "texts (ContentText t) = Ok [text_block t]"
| "texts (ContentParts parts) = traverse (gemini_part \<circ> part_kind) parts"

record gemini_state =
  ge_input :: "json list"
  ge_pending :: open_calls
  ge_instructions :: "json list"

definition gemini_push :: "json \<Rightarrow> gemini_state \<Rightarrow> gemini_state" where
  "gemini_push step st = st\<lparr>ge_input := ge_input st @ [step]\<rparr>"

definition native_steps :: "native_state \<Rightarrow> ir_error + json list" where
  "native_steps native =
     and_then (native_state_builtin native) (\<lambda>n.
       case n of
         GeminiReplay version steps \<Rightarrow> if version = 1 then Ok steps else Err ContinuityMismatch
       | _ \<Rightarrow> Err ContinuityMismatch)"

definition gemini_replay ::
  "item list \<Rightarrow> nat \<Rightarrow> nat \<Rightarrow> native_state \<Rightarrow> gemini_state \<Rightarrow> ir_error + gemini_state" where
  "gemini_replay items position stop native st =
     and_then (native_steps native) (\<lambda>steps.
       if stop < position \<or> stop > length items then Err InvalidToolMapping
       else Ok (st\<lparr>ge_pending := fold note_native_call (take (stop - position) (drop position items)) (ge_pending st),
         ge_input := ge_input st @ steps\<rparr>))"

definition gemini_closing :: "nat \<Rightarrow> nat \<Rightarrow> native_state \<Rightarrow> gemini_state \<Rightarrow> ir_error + gemini_state" where
  "gemini_closing count stop native st =
     and_then (native_steps native) (\<lambda>steps.
       if stop \<noteq> count then Err InvalidToolMapping else Ok (st\<lparr>ge_input := ge_input st @ steps\<rparr>))"

definition gemini_instruction :: "nat \<Rightarrow> message \<Rightarrow> gemini_state \<Rightarrow> ir_error + gemini_state" where
  "gemini_instruction position m st =
     (if ge_input st \<noteq> [] then Err UnsupportedFeature
      else and_then (texts (msg_content m)) (\<lambda>c.
        Ok (st\<lparr>ge_instructions := ge_instructions st @
          [obj [(''role'', JString (if msg_role m = System then ''system'' else ''developer'')),
            (''position'', JNumber (nat_text position)), (''content'', JArray c)]]\<rparr>)))"

definition gemini_step :: "string \<Rightarrow> json list \<Rightarrow> json" where
  "gemini_step kind c = obj [(''type'', JString kind), (''content'', JArray c)]"

definition gemini_turn :: "message \<Rightarrow> gemini_state \<Rightarrow> ir_error + gemini_state" where
  "gemini_turn m st =
     (if ge_pending st \<noteq> fmempty then Err InvalidToolMapping
      else and_then (texts (msg_content m)) (\<lambda>c.
        Ok (gemini_push (gemini_step (if msg_role m = User then ''user_input'' else ''model_output'') c) st)))"

definition function_call_step :: "call_id \<Rightarrow> string \<Rightarrow> json \<Rightarrow> json" where
  "function_call_step cid name args =
     obj [(''type'', JString ''function_call''), (''id'', JString (call_id_str cid)), (''name'', JString name), (''arguments'', args)]"

definition gemini_call ::
  "wire_env \<Rightarrow> custom_tool_bridge \<Rightarrow> tool_call \<Rightarrow> gemini_state \<Rightarrow> ir_error + gemini_state" where
  "gemini_call E registry call st =
     and_then (lower_call (we_serde E) (we_lower E) registry call) (\<lambda>lowered.
       case tc_input lowered of
         Freeform _ \<Rightarrow> Err UnsupportedFeature
       | Json raw \<Rightarrow>
           and_then (ok_or (sj_parse_value (we_serde E) raw) InvalidJsonArguments) (\<lambda>args.
             if \<not> is_object args then Err InvalidJsonArguments
             else Ok (gemini_push (function_call_step (tc_call_id call) (tool_name (tc_tool lowered)) args)
               (st\<lparr>ge_pending := fmupd (tc_call_id call) (call, False) (ge_pending st)\<rparr>))))"

definition result_part :: "json \<Rightarrow> ir_error + json" where
  "result_part part =
     and_then (known_fields part [''type'', ''text'']) (\<lambda>_.
     and_then (json_string part ''type'') (\<lambda>kind.
     if kind \<notin> {''input_text'', ''output_text'', ''text''} then Err UnsupportedFeature
     else and_then (json_string part ''text'') (\<lambda>t. Ok (text_block t))))"

fun gemini_tool_result :: "json \<Rightarrow> ir_error + json" where
  "gemini_tool_result (JString t) = Ok (JString t)"
| "gemini_tool_result (JObject m) = Ok (JObject m)"
| "gemini_tool_result (JArray parts) = and_then (traverse result_part parts) (\<lambda>ps. Ok (JArray ps))"
| "gemini_tool_result _ = Err UnsupportedFeature"

text \<open>The result of a call that replayed state vouches for needs no declaration of the tool.\<close>

definition checked_result ::
  "wire_env \<Rightarrow> custom_tool_bridge \<Rightarrow> tool_result \<Rightarrow> tool_call \<Rightarrow> bool \<Rightarrow> ir_error + tool_result" where
  "checked_result E registry result call authenticated =
     (if authenticated then
        (if tr_kind result \<noteq> tool_input_kind (tc_input call) \<or> ext_fields (tr_extensions result) \<noteq> fmempty
         then Err InvalidToolMapping else Ok result)
      else lower_result (we_serde E) (we_lower E) registry result call)"

definition code_mode_exec :: "policy option \<Rightarrow> tool_call \<Rightarrow> bool" where
  "code_mode_exec editing call \<longleftrightarrow>
     (case editing of Some p \<Rightarrow> po_client_contract p = CodeMode | None \<Rightarrow> False) \<and>
     tool_name (tc_tool call) = ''exec'' \<and> namespace (tc_tool call) = None"

definition function_result_step :: "call_id \<Rightarrow> json \<Rightarrow> json" where
  "function_result_step cid out =
     obj [(''type'', JString ''function_result''), (''call_id'', JString (call_id_str cid)), (''result'', out)]"

definition gemini_result ::
  "wire_env \<Rightarrow> custom_tool_bridge \<Rightarrow> policy option \<Rightarrow> tool_result \<Rightarrow> gemini_state \<Rightarrow> ir_error + gemini_state" where
  "gemini_result E registry editing result st =
     and_then (ok_or (fmlookup (ge_pending st) (tr_call_id result)) InvalidToolMapping) (\<lambda>(call, authenticated).
     and_then (checked_result E registry result call authenticated) (\<lambda>checked.
     and_then (if code_mode_exec editing call
         then and_then (result_text (we_serde E) registry result call) (\<lambda>t. Ok (JString t))
         else Ok (tr_output checked)) (\<lambda>out.
     and_then (gemini_tool_result out) (\<lambda>v.
       Ok (gemini_push (function_result_step (tr_call_id result) v)
         (st\<lparr>ge_pending := fmdrop (tr_call_id result) (ge_pending st)\<rparr>))))))"

fun gemini_item ::
  "wire_env \<Rightarrow> custom_tool_bridge \<Rightarrow> policy option \<Rightarrow> nat \<Rightarrow> item \<Rightarrow> gemini_state \<Rightarrow> ir_error + gemini_state" where
  "gemini_item E registry editing position (ItemMessage m) st =
     (if msg_role m \<in> {System, Developer} then gemini_instruction position m st else gemini_turn m st)"
| "gemini_item E registry editing position (ItemToolCall call) st = gemini_call E registry call st"
| "gemini_item E registry editing position (ItemToolResult result) st = gemini_result E registry editing result st"
| "gemini_item E registry editing position _ st = Err UnsupportedFeature"

definition gemini_input ::
  "wire_env \<Rightarrow> custom_tool_bridge \<Rightarrow> policy option \<Rightarrow> provider_history \<Rightarrow> request_ir \<Rightarrow> ir_error + gemini_state" where
  "gemini_input E registry editing history r =
     (let st = \<lparr>ge_input = [], ge_pending = fmempty, ge_instructions = initial_envelope True r\<rparr> in
      and_then (case req_input r of
          Some (TextInput t) \<Rightarrow> Ok (gemini_push (gemini_step ''user_input'' [text_block t]) st)
        | Some (ItemsInput items) \<Rightarrow>
            walk_items (gemini_item E registry editing) (gemini_replay items) (gemini_closing (length items)) history items 0 st
        | None \<Rightarrow> Ok st) (\<lambda>st.
      if ge_pending st \<noteq> fmempty then Err InvalidToolMapping else Ok st))"

section \<open>The payload\<close>

definition gemini_plan_ok :: "translation_plan \<Rightarrow> bool" where
  "gemini_plan_ok plan \<longleftrightarrow>
     list_all (\<lambda>f. f = StructuredToolOutput \<and> CodeModeTextParts \<in> set (tp_bridges plan) \<or>
         f \<in> {Instructions, InstructionHierarchy, FunctionTools, CustomTools, NamespacedTools, CustomGrammar, ToolChoiceFeature,
           ParallelToolControl, MaxOutputTokens, ReasoningEffort, StructuredOutput, StrictStructuredOutput})
       (filter (\<lambda>f. f \<in> tp_required plan) feature_order) \<and>
     \<not> list_ex (bridge_missing plan)
       [(InstructionHierarchy, GeminiInstructionEnvelope), (CustomTools, CustomToolJson),
        (NamespacedTools, ToolNamespace), (CustomGrammar, CodexPatchGrammar)]"

definition gemini_tool :: "tool_definition \<Rightarrow> ir_error + json" where
  "gemini_tool t =
     (case td_kind t of
        FunctionTool parameters strict \<Rightarrow>
          if strict = Some True then Err UnsupportedFeature
          else
            let parameters = (case parameters of Some s \<Rightarrow> s | None \<Rightarrow> empty_schema) in
            and_then (schema 65 parameters) (\<lambda>_.
              Ok (obj ([(''type'', JString ''function''), (''name'', JString (tool_name (td_identity t))), (''parameters'', parameters)] @
                (case td_description t of Some d \<Rightarrow> [(''description'', JString d)] | None \<Rightarrow> []))))
      | _ \<Rightarrow> Err UnsupportedFeature)"

definition gemini_sampling_ok :: "request_ir \<Rightarrow> json list \<Rightarrow> bool" where
  "gemini_sampling_ok r tools \<longleftrightarrow>
     go_temperature (req_generation r) = None \<and> go_top_p (req_generation r) = None \<and>
     \<not> (go_parallel_tool_calls (req_generation r) = Some False \<and> tools \<noteq> [])"

definition gemini_maximum :: "request_ir \<Rightarrow> translation_plan \<Rightarrow> ir_error + u64" where
  "gemini_maximum r plan =
     (case (case go_max_output_tokens (req_generation r) of Some n \<Rightarrow> Some n | None \<Rightarrow> rs_max_output_tokens (tp_route plan)) of
        None \<Rightarrow> Err UnsupportedFeature
      | Some n \<Rightarrow> if n = 0 \<or> n > 2147483647 then Err UnsupportedFeature else Ok n)"

definition gemini_thinking :: "request_ir \<Rightarrow> json \<Rightarrow> ir_error + json" where
  "gemini_thinking r generation =
     (case go_reasoning (req_generation r) of
        None \<Rightarrow> Ok generation
      | Some reasoning \<Rightarrow>
          if ro_summary reasoning \<noteq> None then Err UnsupportedFeature
          else case ro_effort reasoning of
            None \<Rightarrow> Ok generation
          | Some level \<Rightarrow>
              if level \<notin> {''minimal'', ''low'', ''medium'', ''high''} then Err UnsupportedFeature
              else Ok (set_field generation ''thinking_level'' (JString level)))"

fun gemini_choice :: "tool_choice \<Rightarrow> ir_error + json" where
  "gemini_choice ChoiceAuto = Ok (JString ''auto'')"
| "gemini_choice ChoiceNone = Ok (JString ''none'')"
| "gemini_choice ChoiceRequired = Ok (JString ''any'')"
| "gemini_choice (ChoiceNamed tool _ _) =
     Ok (obj [(''allowed_tools'', obj [(''mode'', JString ''any''), (''tools'', JArray [JString (tool_name tool)])])])"
| "gemini_choice (ChoiceExtension _ _) = Err UnsupportedFeature"

definition gemini_choice_field :: "custom_tool_bridge \<Rightarrow> request_ir \<Rightarrow> json \<Rightarrow> ir_error + json" where
  "gemini_choice_field registry r generation =
     (case go_tool_choice (req_generation r) of
        None \<Rightarrow> Ok generation
      | Some choice \<Rightarrow>
          and_then (lower_choice registry choice) (\<lambda>lowered.
          and_then (gemini_choice lowered) (\<lambda>v. Ok (set_field generation ''tool_choice'' v))))"

definition gemini_payload :: "request_ir \<Rightarrow> translation_plan \<Rightarrow> json list \<Rightarrow> json list \<Rightarrow> json \<Rightarrow> json" where
  "gemini_payload r plan input tools generation =
     obj [(''model'', JString (rs_model (tp_route plan))), (''input'', JArray input), (''tools'', JArray tools), (''store'', JBool False),
       (''background'', JBool False), (''stream'', JBool (case go_stream (req_generation r) of Some b \<Rightarrow> b | None \<Rightarrow> False)),
       (''generation_config'', generation)]"

definition gemini_system :: "wire_env \<Rightarrow> json list \<Rightarrow> json \<Rightarrow> json" where
  "gemini_system E envelope payload =
     (if envelope = [] then payload
      else set_field payload ''system_instruction'' (JString (sj_value (we_serde E)
        (obj [(''schema'', JString ''gateway-gemini-instructions/v1''), (''instructions'', JArray envelope)]))))"

definition gemini_format :: "request_ir \<Rightarrow> json \<Rightarrow> ir_error + json" where
  "gemini_format r payload =
     (case Option.bind (go_output (req_generation r)) oo_format of
        None \<Rightarrow> Ok payload
      | Some (FormatText _) \<Rightarrow> Ok payload
      | Some (FormatJsonSchema _ s _ _) \<Rightarrow>
          and_then (schema 65 s) (\<lambda>_.
            Ok (set_field payload ''response_format''
              (obj [(''type'', JString ''text''), (''mime_type'', JString ''application/json''), (''schema'', s)])))
      | Some _ \<Rightarrow> Err UnsupportedFeature)"

definition interactions_encode ::
  "wire_env \<Rightarrow> request_ir \<Rightarrow> translation_plan \<Rightarrow> provider_history \<Rightarrow> ir_error + prepared_interactions" where
  "interactions_encode E r plan history =
     (if rs_api (tp_route plan) \<noteq> GeminiInteractions then Err WrongProtocol
      else if \<not> gemini_plan_ok plan then Err UnsupportedFeature
      else
        and_then (for_plan (we_serde E) (we_sha256 E) r (rs_capabilities (tp_route plan)) (tp_editing plan) True) (\<lambda>registry.
        and_then (gemini_input E registry (tp_editing plan) history r) (\<lambda>st.
        and_then (traverse gemini_tool (br_definitions registry)) (\<lambda>tools.
        if \<not> gemini_sampling_ok r tools then Err UnsupportedFeature else
        and_then (gemini_maximum r plan) (\<lambda>maximum.
        and_then (gemini_thinking r (obj [(''max_output_tokens'', json_u64 maximum), (''thinking_summaries'', JString ''none'')])) (\<lambda>generation.
        and_then (gemini_choice_field registry r generation) (\<lambda>generation.
        if tools = [] \<and> choice_demands (go_tool_choice (req_generation r)) then Err InvalidToolMapping else
        and_then (gemini_format r (gemini_system E (ge_instructions st) (gemini_payload r plan (ge_input st) tools generation))) (\<lambda>payload.
          Ok \<lparr>pi_payload = payload, pi_model = rs_model (tp_route plan), pi_tools = prepared_tools_new registry r\<rparr>))))))))"

section \<open>Usage\<close>

definition gemini_count :: "json \<Rightarrow> string \<Rightarrow> ir_error + u64 option" where
  "gemini_count v k =
     (case jget v k of None \<Rightarrow> Ok None | Some n \<Rightarrow> and_then (ok_or (as_u64 n) UnsupportedFeature) (\<lambda>c. Ok (Some c)))"

definition both_counts :: "u64 option \<Rightarrow> u64 option \<Rightarrow> ir_error + u64 option" where
  "both_counts a b =
     (case (a, b) of
        (Some x, Some y) \<Rightarrow> and_then (ok_or (checked_add x y) SizeLimit) (\<lambda>n. Ok (Some n))
      | _ \<Rightarrow> Ok None)"

definition gemini_usage :: "json option \<Rightarrow> ir_error + json" where
  "gemini_usage usage =
     (case usage of
        None \<Rightarrow> Ok (obj [(''input_tokens'', JNull), (''output_tokens'', JNull), (''total_tokens'', JNull)])
      | Some v \<Rightarrow>
          and_then (known_fields v [''total_input_tokens'', ''total_output_tokens'', ''total_thought_tokens'', ''total_cached_tokens'',
            ''total_tokens'', ''total_tool_use_tokens'', ''input_tokens_by_modality'', ''output_tokens_by_modality'',
            ''cached_tokens_by_modality'']) (\<lambda>_.
          and_then (gemini_count v ''total_input_tokens'') (\<lambda>input.
          and_then (gemini_count v ''total_output_tokens'') (\<lambda>visible.
          and_then (gemini_count v ''total_thought_tokens'') (\<lambda>thought.
          and_then (gemini_count v ''total_tokens'') (\<lambda>all_tokens.
          and_then (gemini_count v ''total_cached_tokens'') (\<lambda>cached.
          and_then (gemini_count v ''total_tool_use_tokens'') (\<lambda>used.
          if used \<notin> {None, Some 0} then Err UnsupportedFeature else
          and_then (both_counts visible thought) (\<lambda>out.
          if sum_disagrees input out all_tokens \<or> exceeds cached input then Err UnsupportedFeature
          else Ok (obj [(''input_tokens'', json_opt_u64 input), (''output_tokens'', json_opt_u64 out), (''total_tokens'', json_opt_u64 all_tokens),
            (''input_tokens_details'', obj [(''cached_tokens'', json_opt_u64 cached)]),
            (''output_tokens_details'', obj [(''reasoning_tokens'', json_opt_u64 thought)])]))))))))))"

section \<open>Responses\<close>

definition thought_ok :: "json \<Rightarrow> ir_error + unit" where
  "thought_ok step =
     and_then (known_fields step [''type'', ''signature'', ''summary'']) (\<lambda>_.
       if (case jget step ''signature'' of Some v \<Rightarrow> \<not> is_string v | None \<Rightarrow> False) \<or>
          (case jget step ''summary'' of Some v \<Rightarrow> as_array v \<noteq> Some [] | None \<Rightarrow> False)
       then Err UnsupportedFeature else Ok ())"

definition text_part :: "json \<Rightarrow> ir_error + string" where
  "text_part p =
     and_then (known_fields p [''type'', ''text'', ''annotations'']) (\<lambda>_.
     and_then (json_string p ''type'') (\<lambda>kind.
       if kind \<noteq> ''text'' \<or> (case jget p ''annotations'' of Some v \<Rightarrow> as_array v \<noteq> Some [] | None \<Rightarrow> False)
       then Err UnsupportedFeature else json_string p ''text''))"

definition output_part :: "string \<Rightarrow> json" where
  "output_part t = obj [(''type'', JString ''output_text''), (''text'', JString t), (''annotations'', JArray [])]"

definition decode_part ::
  "wire_env \<Rightarrow> item_id \<Rightarrow> event_validator \<times> json list \<Rightarrow> nat \<times> json \<Rightarrow> ir_error + event_validator \<times> json list" where
  "decode_part E item = (\<lambda>(validator, content) (i, p).
     and_then (text_part p) (\<lambda>t.
     if i \<ge> 2 ^ 32 then Err SizeLimit else
     and_then (apply_all (we_serde E) validator
         ([PartStarted item (of_nat i) Text] @ map (TextDelta item (of_nat i)) (event_text_chunks t) @ [PartFinished item (of_nat i)])) (\<lambda>validator.
       Ok (validator, content @ [output_part t]))))"

definition interaction_message :: "item_id \<Rightarrow> json list \<Rightarrow> json" where
  "interaction_message item content =
     obj [(''id'', JString (item_id_str item)), (''type'', JString ''message''), (''role'', JString ''assistant''),
       (''status'', JString ''completed''), (''content'', JArray content)]"

definition decode_model_output :: "wire_env \<Rightarrow> string \<Rightarrow> json \<Rightarrow> decode_state \<Rightarrow> ir_error + decode_state" where
  "decode_model_output E rid step st =
     and_then (known_fields step [''type'', ''content'']) (\<lambda>_.
     and_then (ok_or (Option.bind (jget step ''content'') as_array) UnsupportedFeature) (\<lambda>parts.
     and_then (item_id_new (rid @ ''_'' @ nat_text (length (de_output st)))) (\<lambda>item.
     if length (de_output st) \<ge> 2 ^ 32 then Err SizeLimit else
     and_then (apply_ok (we_serde E) (de_validator st) (ItemStarted item (of_nat (length (de_output st))) Message)) (\<lambda>validator.
     and_then (fold_result (decode_part E item) (validator, []) (enumerate 0 parts)) (\<lambda>(validator, content).
     and_then (apply_ok (we_serde E) validator (ItemFinished item)) (\<lambda>validator.
       Ok (st\<lparr>de_validator := validator, de_output := de_output st @ [interaction_message item content]\<rparr>)))))))"

definition declared_parameters :: "json \<Rightarrow> string \<Rightarrow> ir_error + json" where
  "declared_parameters payload name =
     and_then (ok_or (Option.bind (as_array (json_index payload ''tools''))
         (find (\<lambda>t. json_index t ''name'' = JString name))) InvalidToolMapping) (\<lambda>d.
       Ok (json_index d ''parameters''))"

definition decode_function_call ::
  "wire_env \<Rightarrow> (string \<Rightarrow> bool) \<Rightarrow> json \<Rightarrow> string \<Rightarrow> json \<Rightarrow> decode_state \<times> call_id set \<Rightarrow> ir_error + decode_state \<times> call_id set" where
  "decode_function_call E integral payload rid step = (\<lambda>(st, calls).
     and_then (known_fields step [''type'', ''id'', ''name'', ''arguments'']) (\<lambda>_.
     and_then (json_string step ''id'') (\<lambda>raw_id.
     and_then (call_id_new raw_id) (\<lambda>cid.
     if cid \<in> calls then Err DuplicateId else
     and_then (ok_or (case jget step ''arguments'' of Some v \<Rightarrow> if is_object v then Some v else None | None \<Rightarrow> None)
         InvalidJsonArguments) (\<lambda>args.
     and_then (item_id_new (rid @ ''_'' @ nat_text (length (de_output st)))) (\<lambda>item.
     and_then (json_string step ''name'') (\<lambda>name.
     and_then (declared_parameters payload name) (\<lambda>parameters.
     if \<not> schema_matches integral parameters args then Err InvalidJsonArguments else
     and_then (restore_tool (we_serde E) (we_lower E) (de_tools st) name cid item (sj_value (we_serde E) args)) (\<lambda>(call, tools).
     if length (de_output st) \<ge> 2 ^ 32 then Err SizeLimit else
     and_then (emit_item E item (tool_events item (of_nat (length (de_output st))) (tc_call_id call) call) (tool_output call ''completed'')
         (st\<lparr>de_tools := tools, de_tool_count := de_tool_count st + 1\<rparr>)) (\<lambda>st.
       Ok (st, insert cid calls)))))))))))"

definition decode_step ::
  "wire_env \<Rightarrow> (string \<Rightarrow> bool) \<Rightarrow> json \<Rightarrow> string \<Rightarrow> decode_state \<times> call_id set \<Rightarrow> json \<Rightarrow> ir_error + decode_state \<times> call_id set" where
  "decode_step E integral payload rid = (\<lambda>(st, calls) step.
     and_then (json_string step ''type'') (\<lambda>kind.
       if kind = ''thought'' then and_then (thought_ok step) (\<lambda>_. Ok (st, calls))
       else if kind = ''model_output'' then and_then (decode_model_output E rid step st) (\<lambda>st. Ok (st, calls))
       else if kind = ''function_call'' then decode_function_call E integral payload rid step (st, calls)
       else Err UnsupportedFeature))"

definition interaction_head :: "prepared_interactions \<Rightarrow> json \<Rightarrow> ir_error + string \<times> json list" where
  "interaction_head p v =
     and_then (known_fields v [''id'', ''object'', ''model'', ''status'', ''steps'', ''created'', ''updated'', ''usage'']) (\<lambda>_.
     if (case jget v ''model'' of Some m \<Rightarrow> as_str m \<noteq> Some (pi_model p) | None \<Rightarrow> False) \<or>
        (case jget v ''object'' of Some x \<Rightarrow> as_str x \<noteq> Some ''interaction'' | None \<Rightarrow> False)
     then Err UnsupportedFeature else
     and_then (json_string v ''id'') (\<lambda>i.
     and_then (item_id_new i) (\<lambda>_.
     and_then (json_string v ''status'') (\<lambda>status.
     if status \<notin> {''completed'', ''requires_action'', ''incomplete''} then Err UnsupportedFeature else
     and_then (ok_or (Option.bind (jget v ''steps'') as_array) UnsupportedFeature) (\<lambda>steps.
       Ok (status, steps))))))"

definition item_texts :: "json \<Rightarrow> string" where
  "item_texts item =
     (case Option.bind (jget item ''content'') as_array of
        Some parts \<Rightarrow> concat (map (\<lambda>p. case str_at p ''text'' of Some t \<Rightarrow> t | None \<Rightarrow> []) parts)
      | None \<Rightarrow> [])"

definition structured_ok :: "wire_env \<Rightarrow> (string \<Rightarrow> bool) \<Rightarrow> json \<Rightarrow> string \<Rightarrow> json list \<Rightarrow> ir_error + unit" where
  "structured_ok E integral payload status outs =
     (case Option.bind (jget payload ''response_format'') (\<lambda>f. jget f ''schema'') of
        Some s \<Rightarrow>
          if status = ''completed'' then
            and_then (json_decode (we_parse E) (concat (map item_texts outs))) (\<lambda>document.
              if \<not> schema_matches integral s document then Err (InvalidField ''structured_output'') else Ok ())
          else Ok ()
      | None \<Rightarrow> Ok ())"

definition interaction_response :: "prepared_interactions \<Rightarrow> string \<Rightarrow> u64 \<Rightarrow> string \<Rightarrow> json list \<Rightarrow> json \<Rightarrow> json" where
  "interaction_response p rid seconds status outs usage =
     obj [(''id'', JString rid), (''object'', JString ''response''), (''model'', JString (pi_model p)), (''created_at'', json_u64 seconds),
       (''status'', JString (if status = ''incomplete'' then ''incomplete'' else ''completed'')), (''output'', JArray outs),
       (''usage'', usage), (''error'', JNull),
       (''incomplete_details'', if status = ''incomplete'' then obj [(''reason'', JString ''max_output_tokens'')] else JNull)]"

definition interaction_end :: "string \<Rightarrow> event_ir" where
  "interaction_end status =
     (if status = ''incomplete'' then Finished terminal.Incomplete (Some ''max_output_tokens'') else Finished terminal.Completed None)"

definition interactions_decode ::
  "wire_env \<Rightarrow> (string \<Rightarrow> bool) \<Rightarrow> u64 option \<Rightarrow> prepared_interactions \<Rightarrow> json \<Rightarrow> string \<Rightarrow>
     ir_error + decoded_interaction \<times> prepared_tools" where
  "interactions_decode E integral now p v rid =
     and_then (interaction_head p v) (\<lambda>(status, steps).
     and_then (event_validator_new default_limits) (\<lambda>validator.
     and_then (response_id_new rid) (\<lambda>response.
     and_then (apply_ok (we_serde E) validator (Started response)) (\<lambda>validator.
     and_then (fold_result (decode_step E integral (pi_payload p) rid)
         (\<lparr>de_validator = validator, de_output = [], de_tool_count = 0, de_tools = pi_tools p\<rparr>, {}) steps) (\<lambda>(st, _).
     if (status = ''requires_action'') \<noteq> (de_tool_count st \<noteq> 0) then Err InvalidToolMapping else
     and_then (validate_count (pi_tools p) (de_tool_count st) (status \<noteq> ''incomplete'')) (\<lambda>_.
     and_then (structured_ok E integral (pi_payload p) status (de_output st)) (\<lambda>_.
     and_then (gemini_usage (jget v ''usage'')) (\<lambda>usage.
     and_then (apply_all (we_serde E) (de_validator st) [metrics_event usage, interaction_end status]) (\<lambda>_.
     and_then (ok_or now UnsupportedFeature) (\<lambda>seconds.
       Ok (\<lparr>di_response = interaction_response p rid seconds status (de_output st) usage, di_steps = steps,
           di_provider_status = status\<rparr>, de_tools st)))))))))))"

definition interactions_decode_bytes ::
  "wire_env \<Rightarrow> (string \<Rightarrow> bool) \<Rightarrow> u64 option \<Rightarrow> prepared_interactions \<Rightarrow> string \<Rightarrow> string \<Rightarrow>
     ir_error + decoded_interaction \<times> prepared_tools" where
  "interactions_decode_bytes E integral now p bytes rid =
     and_then (json_decode (we_parse E) bytes) (\<lambda>v. interactions_decode E integral now p v rid)"

section \<open>Admitted schemas\<close>

text \<open>The schemas that \<open>schema_matches\<close> comes to from a given one.\<close>

inductive subschema :: "json \<Rightarrow> json \<Rightarrow> bool" where
  whole: "subschema s s"
| any_of: "subschema s t \<Longrightarrow> Option.bind (jget t ''anyOf'') as_array = Some a \<Longrightarrow> c \<in> set a \<Longrightarrow> subschema s c"
| property: "subschema s t \<Longrightarrow> Option.bind (jget t ''properties'') (\<lambda>p. jget p k) = Some c \<Longrightarrow> subschema s c"
| element: "subschema s t \<Longrightarrow> jget t ''items'' = Some c \<Longrightarrow> subschema s c"

lemma each_Ok: "each f xs = Ok () \<longleftrightarrow> (\<forall>x \<in> set xs. f x = Ok ())"
  by (induction xs) (auto simp: each_def and_then_def split: sum.splits)

lemma schema_field:
  assumes "schema (Suc n) s = Ok ()" and "jget s k = Some v"
  shows "schema_entry (schema n) (k, v) = Ok ()"
proof -
  from assms obtain m where m: "s = JObject m" "each (schema_entry (schema n)) (sorted_list_of_fmap m) = Ok ()"
    by (cases s) auto
  have "(k, v) \<in> set (sorted_list_of_fmap m)" using assms(2) m(1) by (simp add: sorted_list_of_fmap_member)
  with m(2) show ?thesis by (auto simp: each_Ok)
qed

lemma schema_children:
  assumes "schema (Suc n) s = Ok ()"
  shows "Option.bind (jget s ''anyOf'') as_array = Some a \<Longrightarrow> c \<in> set a \<Longrightarrow> schema n c = Ok ()"
    "Option.bind (jget s ''properties'') (\<lambda>p. jget p k) = Some c \<Longrightarrow> schema n c = Ok ()"
    "jget s ''items'' = Some c \<Longrightarrow> schema n c = Ok ()"
proof -
  assume "Option.bind (jget s ''anyOf'') as_array = Some a" "c \<in> set a"
  then obtain w where w: "jget s ''anyOf'' = Some w" "as_array w = Some a" "c \<in> set a" by (auto simp: bind_eq_Some_conv)
  from schema_field [OF assms w(1)] w(2,3) show "schema n c = Ok ()" by (auto simp: schema_entry_def each_Ok split: if_splits)
next
  assume "Option.bind (jget s ''properties'') (\<lambda>p. jget p k) = Some c"
  then obtain w where w: "jget s ''properties'' = Some w" "jget w k = Some c" by (auto simp: bind_eq_Some_conv)
  then obtain m where m: "w = JObject m" by (cases w) auto
  with w have "(k, c) \<in> set (sorted_list_of_fmap m)" by (simp add: sorted_list_of_fmap_member)
  with schema_field [OF assms w(1)] m show "schema n c = Ok ()" by (auto simp: schema_entry_def each_Ok)
next
  assume "jget s ''items'' = Some c"
  from schema_field [OF assms this] show "schema n c = Ok ()" by (simp add: schema_entry_def)
qed

text \<open>Matching never meets a schema that was not admitted, goes at most 64 levels deep and finds only strings
  where it reads the names of required fields.\<close>

theorem admitted_required:
  assumes "subschema s t" and "schema n s = Ok ()"
  shows "(\<exists>m \<le> n. schema m t = Ok ()) \<and>
    (\<forall>v. jget t ''required'' = Some v \<longrightarrow> (\<exists>ks. as_array v = Some ks \<and> list_all is_string ks))"
proof -
  have 1: "\<exists>m \<le> n. schema m t = Ok ()"
    using assms
  proof (induction rule: subschema.induct)
    case (whole s)
    then show ?case by blast
  next
    case (any_of s t a c)
    then obtain m where m: "m \<le> n" "schema m t = Ok ()" by blast
    then show ?case using schema_children(1) [OF _ any_of(2,3)] by (cases m) (auto intro: Suc_leD)
  next
    case (property s t k c)
    then obtain m where m: "m \<le> n" "schema m t = Ok ()" by blast
    then show ?case using schema_children(2) [OF _ property(2)] by (cases m) (auto intro: Suc_leD)
  next
    case (element s t c)
    then obtain m where m: "m \<le> n" "schema m t = Ok ()" by blast
    then show ?case using schema_children(3) [OF _ element(2)] by (cases m) (auto intro: Suc_leD)
  qed
  then obtain m where m: "schema m t = Ok ()" by blast
  have "\<exists>ks. as_array v = Some ks \<and> list_all is_string ks" if "jget t ''required'' = Some v" for v
  proof (cases m)
    case (Suc k)
    with m that schema_field have "schema_entry (schema k) (''required'', v) = Ok ()" by blast
    then show ?thesis by (auto simp: schema_entry_def split: if_splits option.splits)
  qed (use m in simp)
  with 1 show ?thesis by blast
qed

section \<open>The history reaches the provider in order\<close>

text \<open>The result of a call is what its tool declaration makes of it; that of a call a provider's own state
  vouches for needs no declaration and is taken as it is.\<close>

fun gemini_says ::
  "wire_env \<Rightarrow> custom_tool_bridge \<Rightarrow> policy option \<Rightarrow> tool_call set \<Rightarrow> tool_call set \<Rightarrow> item \<Rightarrow> json list \<Rightarrow> bool" where
  "gemini_says E registry editing vouched calls (ItemMessage m) ss \<longleftrightarrow>
     (if msg_role m \<in> {System, Developer} then ss = []
      else \<exists>c. texts (msg_content m) = Ok c \<and>
        ss = [gemini_step (if msg_role m = User then ''user_input'' else ''model_output'') c])"
| "gemini_says E registry editing vouched calls (ItemToolCall c) ss \<longleftrightarrow>
     (\<exists>l raw args. lower_call (we_serde E) (we_lower E) registry c = Ok l \<and> tc_input l = Json raw \<and>
        sj_parse_value (we_serde E) raw = Some args \<and> ss = [function_call_step (tc_call_id c) (tool_name (tc_tool l)) args])"
| "gemini_says E registry editing vouched calls (ItemToolResult res) ss \<longleftrightarrow>
     (\<exists>c l out v. c \<in> calls \<and> tc_call_id c = tr_call_id res \<and>
        (lower_result (we_serde E) (we_lower E) registry res c = Ok l \<or>
         c \<in> vouched \<and> l = res \<and> tr_kind res = tool_input_kind (tc_input c) \<and> ext_fields (tr_extensions res) = fmempty) \<and>
        (if code_mode_exec editing c then \<exists>t. result_text (we_serde E) registry res c = Ok t \<and> out = JString t
         else out = tr_output l) \<and>
        gemini_tool_result out = Ok v \<and> ss = [function_result_step (tr_call_id res) v])"
| "gemini_says E registry editing vouched calls _ ss \<longleftrightarrow> False"

text \<open>Only calls that replayed state stands for are authenticated by it.\<close>

definition vouched_only :: "tool_call set \<Rightarrow> gemini_state \<Rightarrow> bool" where
  "vouched_only V st \<longleftrightarrow> (\<forall>i e. fmlookup (ge_pending st) i = Some e \<longrightarrow> snd e \<longrightarrow> fst e \<in> V)"

lemma vouched_only_push:
  "vouched_only V st \<Longrightarrow> vouched_only V (gemini_push s (st\<lparr>ge_pending := fmupd i (c, False) (ge_pending st)\<rparr>))"
  "vouched_only V st \<Longrightarrow> vouched_only V (gemini_push s (st\<lparr>ge_pending := fmdrop i (ge_pending st)\<rparr>))"
  by (auto simp: vouched_only_def gemini_push_def simp del: split_paired_All split: if_splits)

lemma note_native_calls:
  assumes "pending_ok calls pending" and "calls_in items \<subseteq> calls \<inter> V"
    and "\<forall>i e. fmlookup pending i = Some e \<longrightarrow> snd e \<longrightarrow> fst e \<in> V"
  shows "pending_ok calls (fold note_native_call items pending) \<and>
    (\<forall>i e. fmlookup (fold note_native_call items pending) i = Some e \<longrightarrow> snd e \<longrightarrow> fst e \<in> V)"
  using assms
proof (induction items arbitrary: pending)
  case (Cons i items)
  have sub: "calls_in items \<subseteq> calls \<inter> V" using Cons.prems(2) by (auto simp: calls_in_def)
  show ?case
  proof (cases i)
    case (ItemToolCall c)
    then have "c \<in> calls \<inter> V" using Cons.prems(2) by (auto simp: calls_in_def)
    with Cons.prems have "pending_ok calls (note_native_call i pending)"
      "\<forall>k e. fmlookup (note_native_call i pending) k = Some e \<longrightarrow> snd e \<longrightarrow> fst e \<in> V"
      unfolding ItemToolCall by (auto simp del: split_paired_All split: if_splits)
    from Cons.IH [OF this(1) sub this(2)] show ?thesis by simp
  qed (use Cons.IH [OF Cons.prems(1) sub Cons.prems(3)] in simp_all)
qed simp

lemma gemini_instruction_Ok:
  assumes "gemini_instruction n m st = Ok st'"
  obtains e where "st' = st\<lparr>ge_instructions := ge_instructions st @ [e]\<rparr>"
  using assms by (auto simp: gemini_instruction_def split: if_splits)

lemma gemini_turn_Ok:
  assumes "gemini_turn m st = Ok st'"
  obtains c where "texts (msg_content m) = Ok c" "ge_pending st = fmempty"
    "st' = gemini_push (gemini_step (if msg_role m = User then ''user_input'' else ''model_output'') c) st"
  using assms by (auto simp: gemini_turn_def split: if_splits)

lemma gemini_call_Ok:
  assumes "gemini_call E registry call st = Ok st'"
  obtains l raw args where "lower_call (we_serde E) (we_lower E) registry call = Ok l" "tc_input l = Json raw"
    "sj_parse_value (we_serde E) raw = Some args"
    "st' = gemini_push (function_call_step (tc_call_id call) (tool_name (tc_tool l)) args)
       (st\<lparr>ge_pending := fmupd (tc_call_id call) (call, False) (ge_pending st)\<rparr>)"
proof -
  from assms obtain l where l: "lower_call (we_serde E) (we_lower E) registry call = Ok l" by (auto simp: gemini_call_def)
  then show thesis using assms that by (cases "tc_input l") (auto simp: gemini_call_def split: if_splits)
qed

lemma gemini_result_Ok:
  assumes "gemini_result E registry editing res st = Ok st'"
  obtains c b l out v where "fmlookup (ge_pending st) (tr_call_id res) = Some (c, b)" "checked_result E registry res c b = Ok l"
    "if code_mode_exec editing c then \<exists>t. result_text (we_serde E) registry res c = Ok t \<and> out = JString t else out = tr_output l"
    "gemini_tool_result out = Ok v"
    "st' = gemini_push (function_result_step (tr_call_id res) v) (st\<lparr>ge_pending := fmdrop (tr_call_id res) (ge_pending st)\<rparr>)"
proof -
  from assms obtain c b l out v where s: "fmlookup (ge_pending st) (tr_call_id res) = Some (c, b)" "checked_result E registry res c b = Ok l"
      "(if code_mode_exec editing c then and_then (result_text (we_serde E) registry res c) (\<lambda>t. Ok (JString t)) else Ok (tr_output l)) = Ok out"
      "gemini_tool_result out = Ok v"
      "st' = gemini_push (function_result_step (tr_call_id res) v) (st\<lparr>ge_pending := fmdrop (tr_call_id res) (ge_pending st)\<rparr>)"
    unfolding gemini_result_def and_then_eq_Inr by (elim exE conjE) (auto simp: and_then_eq_Inr)
  from s(3) have "if code_mode_exec editing c then \<exists>t. result_text (we_serde E) registry res c = Ok t \<and> out = JString t else out = tr_output l"
    by (auto split: if_splits)
  with s that show thesis by blast
qed

lemmas gemini_item_elims = gemini_instruction_Ok gemini_turn_Ok gemini_call_Ok gemini_result_Ok

lemma gemini_push_simps [simp]:
  "ge_input (gemini_push s st) = ge_input st @ [s]" "ge_pending (gemini_push s st) = ge_pending st"
  by (simp_all add: gemini_push_def)

lemma gemini_item_says:
  assumes "gemini_item E registry editing n i st = Ok st'" and "vouched_only V st" and "pending_ok calls (ge_pending st)"
    and "calls_in [i] \<subseteq> calls"
  shows "vouched_only V st' \<and> pending_ok calls (ge_pending st') \<and>
    (\<exists>ss. gemini_says E registry editing V calls i ss \<and> ge_input st' = ge_input st @ ss)"
proof (cases i)
  case (ItemMessage m)
  with assms(1) have "ge_pending st' = ge_pending st" by (auto split: if_splits elim!: gemini_item_elims)
  moreover from ItemMessage assms(1) have "\<exists>ss. gemini_says E registry editing V calls i ss \<and> ge_input st' = ge_input st @ ss"
    by (auto split: if_splits elim!: gemini_item_elims)
  ultimately show ?thesis using assms(2,3) by (simp add: vouched_only_def)
next
  case (ItemToolCall c)
  with assms show ?thesis by (auto simp: vouched_only_push calls_in_def elim!: gemini_item_elims)
next
  case (ItemToolResult res)
  with assms(1) have "gemini_result E registry editing res st = Ok st'" by simp
  then show ?thesis
  proof (cases rule: gemini_result_Ok)
    case (1 c b l out v)
    have "fst (c, b) \<in> calls \<and> tc_call_id (fst (c, b)) = tr_call_id res" "snd (c, b) \<longrightarrow> fst (c, b) \<in> V"
      using assms(2,3) 1(1) unfolding pending_ok_def vouched_only_def by blast+
    then have c: "c \<in> calls" "tc_call_id c = tr_call_id res" "b \<longrightarrow> c \<in> V" by simp_all
    then have "lower_result (we_serde E) (we_lower E) registry res c = Ok l \<or>
        c \<in> V \<and> l = res \<and> tr_kind res = tool_input_kind (tc_input c) \<and> ext_fields (tr_extensions res) = fmempty"
      using 1(2) by (auto simp: checked_result_def split: if_splits)
    with c 1(3,4) have "gemini_says E registry editing V calls i [function_result_step (tr_call_id res) v]"
      unfolding ItemToolResult gemini_says.simps by blast
    moreover have "vouched_only V st'" using assms(2) 1(5) by (simp add: vouched_only_push)
    ultimately show ?thesis using 1(5) assms(3) by simp
  qed
qed (use assms in simp_all)

definition gemini_replayed :: "native_state \<Rightarrow> json list \<Rightarrow> bool" where
  "gemini_replayed native ss \<longleftrightarrow> native = Builtin (GeminiReplay 1 ss)"

lemma native_steps_Ok: "native_steps native = Ok ss \<Longrightarrow> gemini_replayed native ss"
  by (cases native) (auto simp: native_steps_def gemini_replayed_def split: native_replay.splits if_splits)

interpretation gemini_history: replaying_encoder "gemini_item E registry editing" ge_pending "vouched_only V" ge_input
    "gemini_says E registry editing V" gemini_replay gemini_closing gemini_replayed V
proof unfold_locales
  fix n i st st' calls
  assume "gemini_item E registry editing n i st = Ok st'" "vouched_only V st" "pending_ok calls (ge_pending st)" "calls_in [i] \<subseteq> calls"
  then show "vouched_only V st' \<and> pending_ok calls (ge_pending st') \<and>
    (\<exists>ss. gemini_says E registry editing V calls i ss \<and> ge_input st' = ge_input st @ ss)"
    by (rule gemini_item_says)
next
  fix n i st st' c
  assume "gemini_item E registry editing n i st = Ok st'" "fmlookup (ge_pending st) c \<noteq> None"
  then show "answers c i \<or> \<not> user_turn i \<and> fmlookup (ge_pending st') c \<noteq> None"
    by (cases i) (auto split: if_splits elim!: gemini_item_elims)
next
  fix n call st st'
  assume "gemini_item E registry editing n (ItemToolCall call) st = Ok st'"
  then show "fmlookup (ge_pending st') (tc_call_id call) \<noteq> None" by (auto elim!: gemini_item_elims)
next
  fix items n stop native st st' calls
  assume r: "gemini_replay items n stop native st = Ok st'" "vouched_only V st" "pending_ok calls (ge_pending st)"
    "calls_in (segment items n stop) \<subseteq> calls \<inter> V"
  then obtain ss where ss: "native_steps native = Ok ss" "n \<le> stop" "stop \<le> length items"
      "ge_pending st' = fold note_native_call (segment items n stop) (ge_pending st)" "ge_input st' = ge_input st @ ss"
    by (auto simp: gemini_replay_def segment_def split: if_splits)
  with note_native_calls [OF r(3,4)] r(2) native_steps_Ok
  show "n \<le> stop \<and> stop \<le> length items \<and> vouched_only V st' \<and> pending_ok calls (ge_pending st') \<and>
    (\<exists>ss. gemini_replayed native ss \<and> ge_input st' = ge_input st @ ss)"
    by (auto simp: vouched_only_def simp del: split_paired_All)
next
  fix count stop native st st'
  assume "gemini_closing count stop native st = Ok st'"
  then show "stop = count \<and> (\<exists>ss. gemini_replayed native ss \<and> ge_input st' = ge_input st @ ss)"
    by (auto simp: gemini_closing_def split: if_splits dest: native_steps_Ok)
qed

lemma gemini_format_input: "gemini_format r payload = Ok payload' \<Longrightarrow> jget payload' ''input'' = jget payload ''input''"
  by (auto simp: gemini_format_def jget_set_field split: option.splits output_format.splits)

lemma interactions_encode_Ok:
  assumes "interactions_encode E r plan history = Ok p"
  obtains registry st where
    "for_plan (we_serde E) (we_sha256 E) r (rs_capabilities (tp_route plan)) (tp_editing plan) True = Ok registry"
    "gemini_input E registry (tp_editing plan) history r = Ok st"
    "jget (pi_payload p) ''input'' = Some (JArray (ge_input st))"
proof -
  from assms obtain registry st tools generation payload where s:
    "for_plan (we_serde E) (we_sha256 E) r (rs_capabilities (tp_route plan)) (tp_editing plan) True = Ok registry"
    "gemini_input E registry (tp_editing plan) history r = Ok st"
    "gemini_format r (gemini_system E (ge_instructions st) (gemini_payload r plan (ge_input st) tools generation)) = Ok payload"
    "pi_payload p = payload"
    by (auto simp: interactions_encode_def split: if_splits)
  have "jget (gemini_system E (ge_instructions st) (gemini_payload r plan (ge_input st) tools generation)) ''input'' =
      Some (JArray (ge_input st))"
    by (simp add: gemini_system_def gemini_payload_def jget_set_field jget_obj)
  with s(3,4) gemini_format_input have "jget (pi_payload p) ''input'' = Some (JArray (ge_input st))" by simp
  with s that show thesis by blast
qed

text \<open>C31. The history reaches a Gemini Interactions provider in order, with and without the provider's own
  state. Whatever verified provider history a request comes with, the steps of the payload are, in order
  and with nothing between them, what each turn, call and result of the client's history says, and where
  provider state stands for a stretch of it exactly the steps of that state, once, at that place; a
  result that needs no declared tool answers a call such state stands for. Without provider state the
  steps are item by item those of the client's history, and every call is answered before the next
  turn of the user.\<close>

theorem gemini_history_in_order:
  assumes "interactions_encode E r plan history = Ok p" and "req_input r = Some (ItemsInput items)"
  shows "\<exists>registry ss.
    for_plan (we_serde E) (we_sha256 E) r (rs_capabilities (tp_route plan)) (tp_editing plan) True = Ok registry \<and>
    jget (pi_payload p) ''input'' = Some (JArray ss) \<and>
    tells (gemini_says E registry (tp_editing plan) (covered_calls history items) (calls_in items)) gemini_replayed
      history items 0 ss \<and>
    (history = fmempty \<longrightarrow> all_answered items \<and>
       (\<exists>sss. list_all2 (gemini_says E registry (tp_editing plan) {} (calls_in items)) items sss \<and> ss = concat sss))"
proof -
  from assms(1) obtain registry st where st:
    "for_plan (we_serde E) (we_sha256 E) r (rs_capabilities (tp_route plan)) (tp_editing plan) True = Ok registry"
    "gemini_input E registry (tp_editing plan) history r = Ok st"
    "jget (pi_payload p) ''input'' = Some (JArray (ge_input st))"
    by (rule interactions_encode_Ok)
  let ?st = "\<lparr>ge_input = [], ge_pending = fmempty, ge_instructions = initial_envelope True r\<rparr>"
  let ?V = "covered_calls history items"
  from st(2) assms(2) have walk: "walk_items (gemini_item E registry (tp_editing plan)) (gemini_replay items)
        (gemini_closing (length items)) history items 0 ?st = Ok st" "ge_pending st = fmempty"
    by (auto simp: gemini_input_def Let_def split: if_splits)
  have "vouched_only ?V ?st" by (simp add: vouched_only_def)
  from gemini_history.walk_tells [OF walk(1) this] have
    tells: "tells (gemini_says E registry (tp_editing plan) ?V (calls_in items)) gemini_replayed history items 0 (ge_input st)"
    by simp
  have "all_answered items" if "history = fmempty"
    using gemini_history.walk_all_answered [OF walk(1) [unfolded that] walk(2)] .
  moreover have "\<exists>sss. list_all2 (gemini_says E registry (tp_editing plan) {} (calls_in items)) items sss \<and> ge_input st = concat sss"
    if "history = fmempty"
    using tells_items [OF tells [unfolded that]] by simp
  ultimately show ?thesis using st tells by blast
qed

section \<open>What a decoded interaction shows\<close>

definition shown_steps :: "json list \<Rightarrow> json list" where
  "shown_steps steps = filter (\<lambda>s. str_at s ''type'' \<noteq> Some ''thought'') steps"

text \<open>A step of the model as a client sees it: the same text, or a call of the client's own tool whose arguments
  satisfy the declared schema.\<close>

definition step_shown :: "(string \<Rightarrow> bool) \<Rightarrow> prepared_interactions \<Rightarrow> json \<Rightarrow> json \<Rightarrow> bool" where
  "step_shown integral p step out \<longleftrightarrow>
     (if str_at step ''type'' = Some ''model_output'' then
        str_at out ''type'' = Some ''message'' \<and> item_texts out = item_texts step
      else
        str_at out ''type'' \<in> {Some ''function_call'', Some ''custom_tool_call''} \<and> str_at out ''call_id'' = str_at step ''id'' \<and>
        (\<exists>alias parameters args t kind. str_at step ''name'' = Some alias \<and>
           declared_parameters (pi_payload p) alias = Ok parameters \<and> jget step ''arguments'' = Some args \<and>
           schema_matches integral parameters args \<and> resolve (pi_tools p) alias = Ok (t, kind) \<and>
           str_at out ''name'' = Some (tool_name t) \<and> str_at out ''namespace'' = namespace t))"

lemma decode_parts_texts:
  assumes "fold_result (decode_part E item) (validator, content) (enumerate n parts) = Ok (validator', content')"
  shows "\<exists>ts. traverse text_part parts = Ok ts \<and> content' = content @ map output_part ts"
  using assms
proof (induction parts arbitrary: validator content n)
  case (Cons q parts)
  then obtain validator1 content1 where s: "decode_part E item (validator, content) (n, q) = Ok (validator1, content1)"
      "fold_result (decode_part E item) (validator1, content1) (enumerate (Suc n) parts) = Ok (validator', content')"
    by auto
  from s(1) obtain t where t: "text_part q = Ok t" "content1 = content @ [output_part t]"
    by (auto simp: decode_part_def split: if_splits)
  from Cons.IH [OF s(2)] obtain ts where "traverse text_part parts = Ok ts" "content' = content1 @ map output_part ts" by blast
  with t show ?case by (intro exI [of _ "t # ts"]) simp
qed simp

lemma text_part_text: "text_part q = Ok t \<Longrightarrow> str_at q ''text'' = Some t"
  by (auto simp: text_part_def json_string_def split: if_splits)

lemma traverse_texts:
  "traverse text_part parts = Ok ts \<Longrightarrow>
     concat (map (\<lambda>q. case str_at q ''text'' of Some t \<Rightarrow> t | None \<Rightarrow> []) parts) = concat ts"
  by (induction parts arbitrary: ts) (auto simp: text_part_text)

lemma output_part_text [simp]: "str_at (output_part t) ''text'' = Some t"
  by (simp add: output_part_def str_at_def jget_obj)

lemma model_output_shown:
  assumes "decode_model_output E rid step st = Ok st'" and "str_at step ''type'' = Some ''model_output''"
  shows "de_tools st' = de_tools st \<and> de_tool_count st' = de_tool_count st \<and>
    (\<exists>out. de_output st' = de_output st @ [out] \<and> step_shown integral p step out)"
proof -
  from assms(1) obtain parts item v1 v2 content v3 where s: "Option.bind (jget step ''content'') as_array = Some parts"
      "fold_result (decode_part E item) (v1, []) (enumerate 0 parts) = Ok (v2, content)"
      "st' = st\<lparr>de_validator := v3, de_output := de_output st @ [interaction_message item content]\<rparr>"
    by (auto simp: decode_model_output_def split: if_splits)
  from decode_parts_texts [OF s(2)] obtain ts where ts: "traverse text_part parts = Ok ts" "content = map output_part ts" by auto
  have "item_texts step = concat ts" using s(1) traverse_texts [OF ts(1)] by (simp add: item_texts_def)
  moreover have "item_texts (interaction_message item content) = concat ts"
    by (simp add: item_texts_def interaction_message_def jget_obj ts(2) comp_def)
  moreover have "str_at (interaction_message item content) ''type'' = Some ''message''"
    by (simp add: interaction_message_def str_at_def jget_obj)
  ultimately show ?thesis using s(3) assms(2) by (simp add: step_shown_def)
qed

lemma function_call_shown:
  assumes "decode_function_call E integral (pi_payload p) rid step (st, calls) = Ok (st', calls')"
    and "same_tools (pi_tools p) (de_tools st)" and "str_at step ''type'' = Some ''function_call''"
  shows "same_tools (pi_tools p) (de_tools st') \<and> de_tool_count st' = Suc (de_tool_count st) \<and>
    (\<exists>out. de_output st' = de_output st @ [out] \<and> step_shown integral p step out)"
proof -
  from assms(1) obtain raw_id cid args item name parameters call tools' where c: "str_at step ''id'' = Some raw_id"
      "call_id_new raw_id = Ok cid" "jget step ''arguments'' = Some args" "str_at step ''name'' = Some name"
      "declared_parameters (pi_payload p) name = Ok parameters" "schema_matches integral parameters args"
      "restore_tool (we_serde E) (we_lower E) (de_tools st) name cid item (sj_value (we_serde E) args) = Ok (call, tools')"
      "de_output st' = de_output st @ [tool_output call ''completed'']" "de_tools st' = tools'"
      "de_tool_count st' = Suc (de_tool_count st)"
    by (auto simp: decode_function_call_def json_string_def split: if_splits option.splits dest!: emit_item_Ok)
  from restore_tool_Ok [OF c(7)] obtain kind' where r: "resolve (pi_tools p) name = Ok (tc_tool call, kind')" "tc_call_id call = cid"
      "same_tools (pi_tools p) tools'"
    using assms(2) resolve_same same_tools_trans by metis
  then have "step_shown integral p step (tool_output call ''completed'')"
    using c(1-6) assms(3) by (auto simp: step_shown_def tool_output_fields call_id_new_text split: tool_input.split)
  with c r show ?thesis by blast
qed

lemma decode_steps_shown:
  assumes "fold_result (decode_step E integral (pi_payload p) rid) (st, calls) steps = Ok (st', calls')"
    and "same_tools (pi_tools p) (de_tools st)"
  shows "de_tool_count st' = de_tool_count st + length (filter (\<lambda>s. str_at s ''type'' = Some ''function_call'') steps) \<and>
    (\<exists>outs. de_output st' = de_output st @ outs \<and> list_all2 (step_shown integral p) (shown_steps steps) outs)"
  using assms
proof (induction steps arbitrary: st calls)
  case (Cons s steps)
  then obtain st1 calls1 where d: "decode_step E integral (pi_payload p) rid (st, calls) s = Ok (st1, calls1)"
      "fold_result (decode_step E integral (pi_payload p) rid) (st1, calls1) steps = Ok (st', calls')"
    by auto
  from d(1) consider (thought) "str_at s ''type'' = Some ''thought''" "st1 = st"
    | (message) "str_at s ''type'' = Some ''model_output''" "decode_model_output E rid s st = Ok st1"
    | (call) "str_at s ''type'' = Some ''function_call''"
        "decode_function_call E integral (pi_payload p) rid s (st, calls) = Ok (st1, calls1)"
    by (auto simp: decode_step_def json_string_def split: if_splits)
  then show ?case
  proof cases
    case thought
    with Cons.IH [OF d(2)] Cons.prems(2) show ?thesis by (simp add: shown_steps_def)
  next
    case message
    from model_output_shown [OF message(2,1), of integral p] obtain out where
      out: "de_tools st1 = de_tools st" "de_tool_count st1 = de_tool_count st" "de_output st1 = de_output st @ [out]"
        "step_shown integral p s out" by blast
    from Cons.IH [OF d(2)] Cons.prems(2) out(1) obtain outs where
      "de_tool_count st' = de_tool_count st1 + length (filter (\<lambda>s. str_at s ''type'' = Some ''function_call'') steps)"
      "de_output st' = de_output st1 @ outs" "list_all2 (step_shown integral p) (shown_steps steps) outs" by auto
    with out message(1) show ?thesis by (intro conjI exI [of _ "out # outs"]) (simp_all add: shown_steps_def)
  next
    case call
    from function_call_shown [OF call(2) Cons.prems(2) call(1)] obtain out where
      out: "same_tools (pi_tools p) (de_tools st1)" "de_tool_count st1 = Suc (de_tool_count st)" "de_output st1 = de_output st @ [out]"
        "step_shown integral p s out" by blast
    from Cons.IH [OF d(2) out(1)] obtain outs where
      "de_tool_count st' = de_tool_count st1 + length (filter (\<lambda>s. str_at s ''type'' = Some ''function_call'') steps)"
      "de_output st' = de_output st1 @ outs" "list_all2 (step_shown integral p) (shown_steps steps) outs" by auto
    with out call(1) show ?thesis by (intro conjI exI [of _ "out # outs"]) (simp_all add: shown_steps_def)
  qed
qed (simp add: shown_steps_def)

lemma interactions_decode_shows:
  assumes "interactions_decode E integral now p v rid = Ok (d, tools)"
  shows "\<exists>outs. interaction_head p v = Ok (di_provider_status d, di_steps d) \<and>
    jget (di_response d) ''output'' = Some (JArray outs) \<and> list_all2 (step_shown integral p) (shown_steps (di_steps d)) outs \<and>
    str_at (di_response d) ''status'' = Some (if di_provider_status d = ''incomplete'' then ''incomplete'' else ''completed'') \<and>
    (di_provider_status d = ''requires_action'') = (\<exists>s \<in> set (di_steps d). str_at s ''type'' = Some ''function_call'')"
proof -
  from assms obtain status steps validator st calls seconds usage where s: "interaction_head p v = Ok (status, steps)"
      "fold_result (decode_step E integral (pi_payload p) rid)
         (\<lparr>de_validator = validator, de_output = [], de_tool_count = 0, de_tools = pi_tools p\<rparr>, {}) steps = Ok (st, calls)"
      "(status = ''requires_action'') = (de_tool_count st \<noteq> 0)"
      "d = \<lparr>di_response = interaction_response p rid seconds status (de_output st) usage, di_steps = steps, di_provider_status = status\<rparr>"
    by (auto simp: interactions_decode_def split: if_splits)
  from decode_steps_shown [OF s(2)] obtain outs where o:
    "de_tool_count st = length (filter (\<lambda>s. str_at s ''type'' = Some ''function_call'') steps)"
    "de_output st = outs" "list_all2 (step_shown integral p) (shown_steps steps) outs"
    by auto
  have "(status = ''requires_action'') = (\<exists>s \<in> set steps. str_at s ''type'' = Some ''function_call'')"
    using s(3) o(1) by (auto simp: filter_empty_conv)
  with s(1,4) o(2,3) show ?thesis
    by (auto simp: interaction_response_def str_at_def [of "obj _"] jget_obj)
qed

section \<open>A worked request\<close>

definition demo_gemini_plan :: translation_plan where
  "demo_gemini_plan = demo_plan\<lparr>tp_route := demo_route\<lparr>rs_api := GeminiInteractions\<rparr>\<rparr>"

definition demo_gemini_input :: "json list" where
  "demo_gemini_input =
     [gemini_step ''user_input'' [text_block ''hi''], function_call_step (CallId ''c1'') ''arg_custom_0'' (JObject fmempty),
      function_result_step (CallId ''c1'') (JString ''ok'')]"

lemma demo_gemini_walk:
  "gemini_input demo_wire_env demo_bridge None fmempty demo_wire_request =
     Ok \<lparr>ge_input = demo_gemini_input, ge_pending = fmempty, ge_instructions = []\<rparr>"
proof -
  have env: "we_serde demo_wire_env = demo_serde" "we_lower demo_wire_env = (\<lambda>s. s)" by (simp_all add: demo_wire_env_def)
  have call: "tc_call_id demo_wire_call = CallId ''c1''" "tc_input demo_wire_call = Json ''{}''"
      "tc_tool demo_wire_call = ToolIdentity None ''arg_custom_0''" "sj_parse_value demo_serde ''{}'' = Some (JObject fmempty)"
    by (simp_all add: demo_wire_call_def demo_serde_def)
  have result: "tr_call_id demo_wire_result = CallId ''c1''" "tr_output demo_wire_result = JString ''ok''"
    by (simp_all add: demo_wire_result_def)
  have turn: "msg_role demo_turn = User" "msg_content demo_turn = ContentText ''hi''" by (simp_all add: demo_turn_def)
  show ?thesis
    by (simp add: gemini_input_def demo_wire_request_def walk_items_no_history demo_wire_items_def Let_def initial_envelope_def
        gemini_turn_def turn gemini_push_def gemini_call_def env demo_wire_lower call is_object_def gemini_result_def result
        checked_result_def demo_wire_lower_result code_mode_exec_def demo_gemini_input_def fmdrop_fmupd_same)
qed

text \<open>The same request when the model's own state stands for its call.\<close>

definition demo_native_steps :: "json list" where
  "demo_native_steps = [obj [(''type'', JString ''thought'')], function_call_step (CallId ''c1'') ''arg_custom_0'' (JObject fmempty)]"

definition demo_gemini_history :: provider_history where
  "demo_gemini_history = fmap_of_list [(1, (2, Builtin (GeminiReplay 1 demo_native_steps)))]"

lemma demo_gemini_replay:
  "gemini_input demo_wire_env demo_bridge None demo_gemini_history demo_wire_request =
     Ok \<lparr>ge_input = gemini_step ''user_input'' [text_block ''hi''] # demo_native_steps @
          [function_result_step (CallId ''c1'') (JString ''ok'')], ge_pending = fmempty, ge_instructions = []\<rparr>"
proof -
  have env: "we_serde demo_wire_env = demo_serde" "we_lower demo_wire_env = (\<lambda>s. s)" by (simp_all add: demo_wire_env_def)
  have call: "tc_call_id demo_wire_call = CallId ''c1''" "tc_input demo_wire_call = Json ''{}''" by (simp_all add: demo_wire_call_def)
  have result: "tr_call_id demo_wire_result = CallId ''c1''" "tr_output demo_wire_result = JString ''ok''"
      "tr_kind demo_wire_result = FunctionKind" "ext_fields (tr_extensions demo_wire_result) = fmempty"
    by (simp_all add: demo_wire_result_def responses_extensions_def)
  have turn: "msg_role demo_turn = User" "msg_content demo_turn = ContentText ''hi''" by (simp_all add: demo_turn_def)
  show ?thesis
    by (simp add: gemini_input_def demo_wire_request_def walk_items.simps demo_wire_items_def Let_def initial_envelope_def
        demo_gemini_history_def gemini_replay_def native_steps_def
        gemini_turn_def turn gemini_push_def env call gemini_result_def result numeral_2_eq_2
        checked_result_def code_mode_exec_def fmdrop_fmupd_same)
qed

lemma schema_obj:
  assumes "\<And>k v. (k, v) \<in> set kvs \<Longrightarrow> schema_entry (schema n) (k, v) = Ok ()"
  shows "schema (Suc n) (obj kvs) = Ok ()"
proof -
  have "(k, v) \<in> set kvs" if "(k, v) \<in> set (sorted_list_of_fmap (fmap_of_list kvs))" for k v
    using that by (simp add: sorted_list_of_fmap_member fmlookup_of_list map_of_SomeD)
  then show ?thesis using assms by (auto simp: obj_def each_Ok)
qed

lemma schema_entries:
  "schema_entry c (''type'', JString ''object'') = Ok ()" "schema_entry c (''type'', JString ''string'') = Ok ()"
  "schema_entry c (''additionalProperties'', JBool b) = Ok ()" "schema_entry c (''required'', strings ks) = Ok ()"
  "(\<And>k v. (k, v) \<in> set kvs \<Longrightarrow> c v = Ok ()) \<Longrightarrow> schema_entry c (''properties'', obj kvs) = Ok ()"
proof -
  have "c v = Ok ()" if "\<And>k v. (k, v) \<in> set kvs \<Longrightarrow> c v = Ok ()" "(k, v) \<in> set (sorted_list_of_fmap (fmap_of_list kvs))" for k v
    using that by (simp add: sorted_list_of_fmap_member fmlookup_of_list) (metis map_of_SomeD)
  then show "(\<And>k v. (k, v) \<in> set kvs \<Longrightarrow> c v = Ok ()) \<Longrightarrow> schema_entry c (''properties'', obj kvs) = Ok ()"
    by (auto simp: schema_entry_def obj_def each_Ok)
  have "list_all is_string (map JString ks)" by (simp add: list_all_iff is_string_def)
  then show "schema_entry c (''required'', strings ks) = Ok ()" by (simp add: schema_entry_def strings_def)
qed (simp_all add: schema_entry_def)

lemma demo_gemini_tools: "is_ok (traverse gemini_tool (br_definitions demo_bridge))"
proof -
  have levels: "(65::nat) = Suc 64" "(64::nat) = Suc 63" by simp_all
  have "empty_schema = obj [(''type'', JString ''object''), (''properties'', obj []), (''additionalProperties'', JBool False)]"
    by (simp add: empty_schema_def obj_def)
  moreover have "schema (Suc 64) (obj [(''type'', JString ''object''), (''properties'', obj []), (''additionalProperties'', JBool False)]) = Ok ()"
    by (rule schema_obj) (auto intro: schema_entries)
  ultimately have empty: "schema 65 empty_schema = Ok ()" by (simp only: levels(1))
  have "schema (Suc 63) (obj [(''type'', JString ''string'')]) = Ok ()" by (rule schema_obj) (auto intro: schema_entries)
  then have inner: "schema 64 (obj [(''type'', JString ''string'')]) = Ok ()" by (simp only: levels(2))
  have "envelope_parameters demo_serde (Some GrammarText) None =
      obj [(''type'', JString ''object''), (''properties'', obj [(''input'', obj [(''type'', JString ''string'')])]),
        (''required'', strings [''input'']), (''additionalProperties'', JBool False)]"
    by (simp add: envelope_parameters_def)
  moreover have "schema (Suc 64) (obj [(''type'', JString ''object''), (''properties'', obj [(''input'', obj [(''type'', JString ''string'')])]),
        (''required'', strings [''input'']), (''additionalProperties'', JBool False)]) = Ok ()"
    by (rule schema_obj) (use inner in \<open>auto intro: schema_entries\<close>)
  ultimately have wrapped: "schema 65 (envelope_parameters demo_serde (Some GrammarText) None) = Ok ()" by (simp only: levels(1))
  show ?thesis using empty wrapped by (simp add: demo_bridge_def gemini_tool_def)
qed

lemma demo_gemini_encode:
  assumes "gemini_input demo_wire_env demo_bridge None history demo_wire_request = Ok st" and "ge_instructions st = []"
  shows "\<exists>p. interactions_encode demo_wire_env demo_wire_request demo_gemini_plan history = Ok p \<and>
    jget (pi_payload p) ''input'' = Some (JArray (ge_input st))"
proof -
  have plan: "gemini_plan_ok demo_gemini_plan" by code_simp
  have env: "for_plan (we_serde demo_wire_env) (we_sha256 demo_wire_env) demo_wire_request demo_profile None True = Ok demo_bridge"
    using demo_wire_for_plan by (simp add: demo_wire_env_def)
  have p: "rs_capabilities (tp_route demo_gemini_plan) = demo_profile" "tp_editing demo_gemini_plan = None"
    "rs_api (tp_route demo_gemini_plan) = GeminiInteractions"
    by (simp_all add: demo_gemini_plan_def demo_route_def demo_plan_def)
  obtain tools where tools: "traverse gemini_tool (br_definitions demo_bridge) = Ok tools"
    using demo_gemini_tools by (auto simp: is_ok_iff)
  have g: "req_generation demo_wire_request = demo_generation\<lparr>go_tool_choice := None\<rparr>"
    by (simp add: demo_wire_request_def demo_tools_request_def)
  have none: "go_output demo_generation = None" "go_temperature demo_generation = None" "go_parallel_tool_calls demo_generation = None"
    "go_top_p demo_generation = None" "go_max_output_tokens demo_generation = Some 64" "go_reasoning demo_generation = None"
    by (simp_all add: demo_generation_def)
  have "is_ok (interactions_encode demo_wire_env demo_wire_request demo_gemini_plan history)"
    by (simp add: interactions_encode_def p plan env assms tools gemini_sampling_ok_def g none gemini_maximum_def
        gemini_thinking_def gemini_choice_field_def choice_demands_def gemini_format_def)
  then obtain q where q: "interactions_encode demo_wire_env demo_wire_request demo_gemini_plan history = Ok q"
    by (auto simp: is_ok_iff)
  from interactions_encode_Ok [OF q] show ?thesis using q env assms(1) by (metis p(1,2) sum.inject(2))
qed

theorem gemini_history_in_order_witness:
  "\<exists>ss sss. tells (gemini_says demo_wire_env demo_bridge None (covered_calls demo_gemini_history demo_wire_items)
        (calls_in demo_wire_items)) gemini_replayed demo_gemini_history demo_wire_items 0 ss \<and>
     ss = gemini_step ''user_input'' [text_block ''hi''] # demo_native_steps @ [function_result_step (CallId ''c1'') (JString ''ok'')] \<and>
     list_all2 (gemini_says demo_wire_env demo_bridge None {} (calls_in demo_wire_items)) demo_wire_items sss \<and>
     all_answered demo_wire_items"
proof -
  have items: "req_input demo_wire_request = Some (ItemsInput demo_wire_items)" by (simp add: demo_wire_request_def)
  have bridge: "for_plan (we_serde demo_wire_env) (we_sha256 demo_wire_env) demo_wire_request
      (rs_capabilities (tp_route demo_gemini_plan)) (tp_editing demo_gemini_plan) True = Ok demo_bridge"
    "tp_editing demo_gemini_plan = None"
    using demo_wire_for_plan by (simp_all add: demo_wire_env_def demo_gemini_plan_def demo_plan_def demo_route_def)
  obtain p where p: "interactions_encode demo_wire_env demo_wire_request demo_gemini_plan demo_gemini_history = Ok p"
    "jget (pi_payload p) ''input'' = Some (JArray
      (gemini_step ''user_input'' [text_block ''hi''] # demo_native_steps @ [function_result_step (CallId ''c1'') (JString ''ok'')]))"
    using demo_gemini_encode [OF demo_gemini_replay] by auto
  obtain q where q: "interactions_encode demo_wire_env demo_wire_request demo_gemini_plan fmempty = Ok q"
    using demo_gemini_encode [OF demo_gemini_walk] by auto
  from gemini_history_in_order [OF p(1) items] gemini_history_in_order [OF q items] p(2) bridge show ?thesis by auto
qed

end
