(* ===== verification/Interactions_Stream.thy ===== *)
theory Interactions_Stream
  imports Interactions_Adapter Wire_Stream
begin

text \<open>
  The Gemini Interactions stream, \<open>src/src/adapters/interactions/stream.rs\<close>: steps of the provider are put
  together before anything that can be executed is exposed; text leaves early as progress events. A
  rejected event makes the managed stream that owns this state invalid, and nothing is read from it
  afterwards, so no state is kept for that case.
\<close>

section \<open>State\<close>

record gemini_stream =
  gs_prepared :: prepared_interactions
  gs_limit :: nat
  gs_bytes :: nat
  gs_steps :: "json list"
  gs_active :: "nat option"
  gs_arguments :: string
  gs_interaction :: "json option"
  gs_terminal :: bool
  gs_done :: bool
  gs_response_id :: string
  gs_progress :: "json list"
  gs_cumulative_usage :: "json option"

definition gemini_stream_new :: "prepared_interactions \<Rightarrow> nat \<Rightarrow> string \<Rightarrow> gemini_stream" where
  "gemini_stream_new p limit rid =
     \<lparr>gs_prepared = p, gs_limit = limit, gs_bytes = 0, gs_steps = [], gs_active = None, gs_arguments = [], gs_interaction = None,
      gs_terminal = False, gs_done = False, gs_response_id = rid, gs_progress = [], gs_cumulative_usage = None\<rparr>"

section \<open>Events\<close>

definition event_fields :: "string \<Rightarrow> string list option" where
  "event_fields kind =
     (if kind \<in> {''interaction.created'', ''interaction.completed''} then Some [''event_type'', ''event_id'', ''interaction'']
      else if kind = ''interaction.status_update'' then Some [''event_type'', ''event_id'', ''interaction_id'', ''status'']
      else if kind = ''step.start'' then Some [''event_type'', ''event_id'', ''index'', ''step'']
      else if kind = ''step.delta'' then Some [''event_type'', ''event_id'', ''index'', ''delta'', ''metadata'']
      else if kind = ''step.stop'' then Some [''event_type'', ''event_id'', ''index'', ''step_usage'', ''usage'']
      else None)"

text \<open>\<open>if let Some(cumulative) = value.get(field) { usage(Some(cumulative))?; .. }\<close>.\<close>

definition note_usage :: "json option \<Rightarrow> gemini_stream \<Rightarrow> ir_error + gemini_stream" where
  "note_usage u st =
     (case u of
        None \<Rightarrow> Ok st
      | Some v \<Rightarrow> and_then (gemini_usage (Some v)) (\<lambda>_. Ok (st\<lparr>gs_cumulative_usage := Some v\<rparr>)))"

definition created_ok :: "gemini_stream \<Rightarrow> json \<Rightarrow> ir_error + unit" where
  "created_ok st meta =
     and_then (known_fields meta [''id'', ''status'', ''model'', ''object'', ''created'', ''updated'', ''steps'', ''usage'']) (\<lambda>_.
     and_then (json_string meta ''status'') (\<lambda>status.
     if status \<noteq> ''in_progress'' \<or>
        (case jget meta ''model'' of Some m \<Rightarrow> as_str m \<noteq> Some (pi_model (gs_prepared st)) | None \<Rightarrow> False) \<or>
        (case jget meta ''object'' of Some x \<Rightarrow> as_str x \<noteq> Some ''interaction'' | None \<Rightarrow> False) \<or>
        (case jget meta ''steps'' of Some x \<Rightarrow> as_array x \<noteq> Some [] | None \<Rightarrow> False)
     then Err UnsupportedFeature else
     and_then (json_string meta ''id'') (\<lambda>i.
     and_then (item_id_new i) (\<lambda>_. Ok ()))))"

definition on_created :: "json \<Rightarrow> gemini_stream \<Rightarrow> ir_error + gemini_stream" where
  "on_created v st =
     (if gs_interaction st \<noteq> None then Err InvalidEventOrder else
     and_then (ok_or (jget v ''interaction'') UnsupportedFeature) (\<lambda>meta.
     and_then (created_ok st meta) (\<lambda>_.
     and_then (note_usage (jget meta ''usage'') st) (\<lambda>st.
       Ok (st\<lparr>gs_interaction := Some meta\<rparr>)))))"

definition on_status_update :: "json \<Rightarrow> gemini_stream \<Rightarrow> ir_error + gemini_stream" where
  "on_status_update v st =
     and_then (ok_or (gs_interaction st) InvalidEventOrder) (\<lambda>meta.
     if jget v ''interaction_id'' \<noteq> jget meta ''id'' then Err UnsupportedFeature else
     and_then (json_string v ''status'') (\<lambda>status.
       if status \<notin> {''in_progress'', ''requires_action'', ''completed'', ''incomplete'', ''failed'', ''cancelled''}
       then Err UnsupportedFeature else Ok st))"

definition on_step_start :: "json \<Rightarrow> gemini_stream \<Rightarrow> ir_error + gemini_stream" where
  "on_step_start v st =
     (if gs_interaction st = None \<or> gs_active st \<noteq> None \<or>
         as_u64 (json_index v ''index'') \<noteq> Some (of_nat (length (gs_steps st)))
      then Err InvalidEventOrder else
      and_then (ok_or (jget v ''step'') UnsupportedFeature) (\<lambda>s.
      and_then (json_string s ''type'') (\<lambda>kind.
        if kind \<notin> {''thought'', ''function_call'', ''model_output''} then Err UnsupportedFeature
        else Ok (st\<lparr>gs_active := Some (length (gs_steps st)), gs_steps := gs_steps st @ [s], gs_arguments := []\<rparr>))))"

definition extend_signature :: "json \<Rightarrow> json \<Rightarrow> ir_error + json" where
  "extend_signature d s =
     and_then (known_fields d [''type'', ''signature'']) (\<lambda>_.
     and_then (json_string d ''signature'') (\<lambda>t.
       Ok (set_field s ''signature'' (JString ((case str_at s ''signature'' of Some old \<Rightarrow> old | None \<Rightarrow> []) @ t)))))"

definition step_content :: "json \<Rightarrow> ir_error + json list" where
  "step_content s =
     and_then (case jget s ''content'' of None \<Rightarrow> Ok [text_block []] | Some v \<Rightarrow> ok_or (as_array v) UnsupportedFeature) (\<lambda>content.
       Ok (if content = [] then [text_block []] else content))"

definition extend_text :: "json \<Rightarrow> json \<Rightarrow> ir_error + json" where
  "extend_text d s =
     and_then (known_fields d [''type'', ''text'']) (\<lambda>_.
     and_then (step_content s) (\<lambda>content.
     and_then (json_string (last content) ''text'') (\<lambda>old.
     and_then (json_string d ''text'') (\<lambda>t.
       Ok (set_field s ''content'' (JArray (butlast content @ [set_field (last content) ''text'' (JString (old @ t))])))))))"

definition delta_usage :: "json \<Rightarrow> gemini_stream \<Rightarrow> ir_error + gemini_stream" where
  "delta_usage v st =
     (case jget v ''metadata'' of
        None \<Rightarrow> Ok st
      | Some m \<Rightarrow> and_then (known_fields m [''total_usage'']) (\<lambda>_. note_usage (jget m ''total_usage'') st))"

definition apply_delta :: "nat \<Rightarrow> json \<Rightarrow> gemini_stream \<Rightarrow> ir_error + gemini_stream" where
  "apply_delta i d st =
     (let s = gs_steps st ! i in
      and_then (json_string s ''type'') (\<lambda>step_type.
      and_then (json_string d ''type'') (\<lambda>delta_type.
        if step_type = ''thought'' \<and> delta_type = ''thought_signature'' then
          and_then (extend_signature d s) (\<lambda>s. Ok (st\<lparr>gs_steps := (gs_steps st)[i := s]\<rparr>))
        else if step_type = ''function_call'' \<and> delta_type = ''arguments_delta'' then
          and_then (known_fields d [''type'', ''arguments'']) (\<lambda>_.
          and_then (json_string d ''arguments'') (\<lambda>t. Ok (st\<lparr>gs_arguments := gs_arguments st @ t\<rparr>)))
        else if step_type = ''model_output'' \<and> delta_type = ''text'' then
          and_then (extend_text d s) (\<lambda>s. Ok (st\<lparr>gs_steps := (gs_steps st)[i := s]\<rparr>))
        else Err UnsupportedFeature)))"

definition on_step_delta :: "json \<Rightarrow> gemini_stream \<Rightarrow> ir_error + gemini_stream" where
  "on_step_delta v st =
     and_then (ok_or (gs_active st) InvalidEventOrder) (\<lambda>i.
     if as_u64 (json_index v ''index'') \<noteq> Some (of_nat i) then Err InvalidEventOrder else
     and_then (delta_usage v st) (\<lambda>st.
     and_then (ok_or (jget v ''delta'') UnsupportedFeature) (\<lambda>d. apply_delta i d st)))"

definition close_arguments :: "wire_env \<Rightarrow> nat \<Rightarrow> gemini_stream \<Rightarrow> ir_error + gemini_stream" where
  "close_arguments E i st =
     (if gs_arguments st = [] then Ok st
      else if jget (gs_steps st ! i) ''arguments'' \<noteq> None then Err InvalidJsonArguments
      else and_then (json_decode (we_parse E) (gs_arguments st)) (\<lambda>args.
        Ok (st\<lparr>gs_steps := (gs_steps st)[i := set_field (gs_steps st ! i) ''arguments'' args]\<rparr>)))"

definition on_step_stop :: "wire_env \<Rightarrow> json \<Rightarrow> gemini_stream \<Rightarrow> ir_error + gemini_stream" where
  "on_step_stop E v st =
     and_then (ok_or (gs_active st) InvalidEventOrder) (\<lambda>i.
     if as_u64 (json_index v ''index'') \<noteq> Some (of_nat i) then Err InvalidEventOrder else
     and_then (close_arguments E i (st\<lparr>gs_active := None\<rparr>)) (\<lambda>st.
     and_then (case jget v ''step_usage'' of None \<Rightarrow> Ok () | Some u \<Rightarrow> and_then (gemini_usage (Some u)) (\<lambda>_. Ok ())) (\<lambda>_.
       note_usage (jget v ''usage'') st)))"

definition on_interaction_completed :: "json \<Rightarrow> gemini_stream \<Rightarrow> ir_error + gemini_stream" where
  "on_interaction_completed v st =
     (if gs_active st \<noteq> None then Err InvalidEventOrder else
     and_then (ok_or (gs_interaction st) InvalidEventOrder) (\<lambda>prior.
     and_then (ok_or (jget v ''interaction'') UnsupportedFeature) (\<lambda>meta.
     if jget meta ''id'' \<noteq> jget prior ''id'' then Err UnsupportedFeature
     else if jget meta ''steps'' \<notin> {None, Some (JArray (gs_steps st))} then Err UnsupportedFeature
     else
       let meta = (case (jget meta ''usage'', gs_cumulative_usage st) of
             (None, Some u) \<Rightarrow> set_field meta ''usage'' u
           | _ \<Rightarrow> meta) in
       Ok (st\<lparr>gs_interaction := Some (set_field meta ''steps'' (JArray (gs_steps st))), gs_terminal := True\<rparr>))))"

definition handle_event :: "wire_env \<Rightarrow> string \<Rightarrow> json \<Rightarrow> gemini_stream \<Rightarrow> ir_error + gemini_stream" where
  "handle_event E kind v st =
     (if kind = ''interaction.created'' then on_created v st
      else if kind = ''interaction.status_update'' then on_status_update v st
      else if kind = ''step.start'' then on_step_start v st
      else if kind = ''step.delta'' then on_step_delta v st
      else if kind = ''step.stop'' then on_step_stop E v st
      else if kind = ''interaction.completed'' then on_interaction_completed v st
      else Err UnsupportedFeature)"

section \<open>Progress\<close>

definition public_count :: "json list \<Rightarrow> nat" where
  "public_count steps = length (filter (\<lambda>s. json_index s ''type'' \<noteq> JString ''thought'') steps)"

definition gemini_progress :: "json list \<Rightarrow> gemini_stream \<Rightarrow> gemini_stream" where
  "gemini_progress es st = st\<lparr>gs_progress := gs_progress st @ es\<rparr>"

definition step_event :: "string \<Rightarrow> nat \<Rightarrow> (string \<times> json) list \<Rightarrow> json" where
  "step_event kind i fs = obj ([(''type'', JString kind), (''output_index'', JNumber (nat_text i))] @ fs)"

definition public_id :: "gemini_stream \<Rightarrow> nat \<Rightarrow> string" where
  "public_id st i = gs_response_id st @ ''_'' @ nat_text i"

definition show_event :: "string \<Rightarrow> json \<Rightarrow> gemini_stream \<Rightarrow> ir_error + gemini_stream" where
  "show_event kind v st =
     (if kind = ''interaction.created'' then
        Ok (gemini_progress [obj [(''type'', JString ''response.created''),
          (''response'', obj [(''id'', JString (gs_response_id st)), (''object'', JString ''response''),
            (''status'', JString ''in_progress''), (''output'', JArray [])])]] st)
      else if kind = ''step.start'' \<and> json_index (json_index v ''step'') ''type'' = JString ''model_output'' then
        let i = public_count (take (length (gs_steps st) - 1) (gs_steps st)) in
        Ok (gemini_progress
          [step_event ''response.output_item.added'' i [(''item'', obj [(''id'', JString (public_id st i)), (''type'', JString ''message''),
             (''role'', JString ''assistant''), (''status'', JString ''in_progress''), (''content'', JArray [])])],
           step_event ''response.content_part.added'' i [(''item_id'', JString (public_id st i)), content_zero, (''part'', empty_part)]] st)
      else if kind = ''step.delta'' \<and> json_index (json_index v ''delta'') ''type'' = JString ''text'' then
        and_then (ok_or (gs_active st) InvalidEventOrder) (\<lambda>position.
          let i = public_count (take position (gs_steps st)) in
          Ok (gemini_progress [step_event ''response.output_text.delta'' i
            [(''item_id'', JString (public_id st i)), content_zero, (''delta'', json_index (json_index v ''delta'') ''text'')]] st))
      else Ok st)"

definition gemini_document :: "wire_env \<Rightarrow> sse_event \<Rightarrow> ir_error + string \<times> json" where
  "gemini_document E event =
     and_then (json_decode (we_parse E) (se_data event)) (\<lambda>v.
     and_then (json_string v ''event_type'') (\<lambda>kind.
     and_then (ok_or (event_fields kind) UnsupportedFeature) (\<lambda>allowed.
     and_then (known_fields v allowed) (\<lambda>_.
       if (case jget v ''event_id'' of Some i \<Rightarrow> \<not> is_string i | None \<Rightarrow> False) then Err UnsupportedFeature
       else if se_event event \<noteq> ''message'' \<and> se_event event \<noteq> kind then Err InvalidEventOrder
       else Ok (kind, v)))))"

definition gemini_stream_event :: "wire_env \<Rightarrow> gemini_stream \<Rightarrow> sse_event \<Rightarrow> ir_error + gemini_stream" where
  "gemini_stream_event E st event =
     (let n = gs_bytes st + length (se_data event) in
      if n \<ge> 2 ^ 64 \<or> n > gs_limit st then Err SizeLimit
      else if gs_done st then Err InvalidEventOrder
      else
        let st = st\<lparr>gs_bytes := n\<rparr> in
        if se_data event = ''[DONE]'' then
          (if \<not> gs_terminal st \<or> gs_active st \<noteq> None then Err InvalidEventOrder else Ok (st\<lparr>gs_done := True\<rparr>))
        else if gs_terminal st then Err InvalidEventOrder
        else
          and_then (gemini_document E event) (\<lambda>(kind, v).
          and_then (handle_event E kind v st) (\<lambda>st. show_event kind v st)))"

definition gemini_stream_accounting :: "gemini_stream \<Rightarrow> accounting" where
  "gemini_stream_accounting st =
     (let meta = (case gs_interaction st of Some m \<Rightarrow> m | None \<Rightarrow> obj []) in
      accounting_new GeminiInteractionsV1 (if gs_terminal st then jget meta ''usage'' else gs_cumulative_usage st) meta
        (if gs_terminal st \<and> as_str (json_index meta ''status'') \<in> {Some ''completed'', Some ''requires_action''}
         then usage_outcome.Completed else usage_outcome.InProgress))"

definition gemini_take_progress :: "gemini_stream \<Rightarrow> json list \<times> gemini_stream" where
  "gemini_take_progress st = (gs_progress st, st\<lparr>gs_progress := []\<rparr>)"

definition gemini_stream_complete :: "gemini_stream \<Rightarrow> bool" where
  "gemini_stream_complete st = gs_done st"

definition gemini_stream_finish ::
  "wire_env \<Rightarrow> (string \<Rightarrow> bool) \<Rightarrow> u64 option \<Rightarrow> gemini_stream \<Rightarrow> ir_error + decoded_interaction" where
  "gemini_stream_finish E integral now st =
     (if \<not> gs_done st \<or> \<not> gs_terminal st then Err InvalidEventOrder
      else
        and_then (ok_or (gs_interaction st) UnsupportedFeature) (\<lambda>v.
        and_then (interactions_decode E integral now (gs_prepared st) v (gs_response_id st)) (\<lambda>(d, _). Ok d)))"

section \<open>The text shown is the text decoded\<close>

text \<open>What a client has accumulated for a message is the end of the text of the step it shows; the part before
  it, if any, is what the provider already put into the event that started the step.\<close>

definition text_match :: "json list \<Rightarrow> json list \<Rightarrow> bool" where
  "text_match steps shown \<longleftrightarrow>
     (\<forall>i < length (shown_steps steps). str_at (shown_steps steps ! i) ''type'' = Some ''model_output'' \<longrightarrow>
        (\<exists>pre. item_texts (shown_steps steps ! i) = pre @ text_of i shown)) \<and>
     (\<forall>i \<ge> length (shown_steps steps). text_of i shown = [])"

lemma shown_steps_snoc [simp]:
  "shown_steps (steps @ [s]) = shown_steps steps @ (if str_at s ''type'' = Some ''thought'' then [] else [s])"
  by (simp add: shown_steps_def)

lemma text_match_quiet: "(\<And>i. text_of i es = []) \<Longrightarrow> text_match steps (shown @ es) = text_match steps shown"
  by (simp add: text_match_def)

lemma text_match_push: "text_match steps shown \<Longrightarrow> text_match (steps @ [s]) shown"
  by (auto simp: text_match_def nth_append less_Suc_eq)

lemma text_match_change:
  "text_match (steps @ [s]) shown \<Longrightarrow> str_at s' ''type'' = str_at s ''type'' \<Longrightarrow> item_texts s' = item_texts s \<Longrightarrow>
     text_match (steps @ [s']) shown"
  by (auto simp: text_match_def nth_append less_Suc_eq)

lemma text_match_delta:
  assumes "text_match (steps @ [s]) shown" and "str_at s ''type'' = Some ''model_output''" and "str_at s' ''type'' = str_at s ''type''"
    and "item_texts s' = item_texts s @ t"
    and "\<And>i. text_of i es = (if i = length (shown_steps steps) then t else [])"
  shows "text_match (steps @ [s']) (shown @ es)"
  unfolding text_match_def
proof (intro conjI allI impI)
  let ?n = "length (shown_steps steps)"
  fix i
  assume i: "i < length (shown_steps (steps @ [s']))" "str_at (shown_steps (steps @ [s']) ! i) ''type'' = Some ''model_output''"
  show "\<exists>pre. item_texts (shown_steps (steps @ [s']) ! i) = pre @ text_of i (shown @ es)"
  proof (cases "i < ?n")
    case True
    with assms i show ?thesis by (auto simp: text_match_def nth_append less_Suc_eq)
  next
    case False
    with i assms(2,3) have n: "i = ?n" by simp
    have "\<exists>pre. item_texts s = pre @ text_of ?n shown" using assms(1,2) by (auto simp: text_match_def)
    with n assms(2-5) show ?thesis by auto
  qed
next
  fix i
  assume "length (shown_steps (steps @ [s'])) \<le> i"
  with assms show "text_of i (shown @ es) = []" by (simp add: text_match_def)
qed

lemma public_count_shown: "public_count steps = length (shown_steps steps)"
proof -
  have "(json_index s ''type'' \<noteq> JString ''thought'') = (str_at s ''type'' \<noteq> Some ''thought'')" for s
    by (cases "jget s ''type''") (auto simp: json_index_def str_at_def elim: as_str.elims)
  then show ?thesis by (simp add: public_count_def shown_steps_def)
qed

lemma item_texts_set [simp]: "k \<noteq> ''content'' \<Longrightarrow> item_texts (set_field s k x) = item_texts s"
  by (simp add: item_texts_def jget_set_field)

lemma extend_text_texts:
  assumes "extend_text d s = Ok s'" and "is_object s"
  shows "\<exists>t. str_at d ''text'' = Some t \<and> item_texts s' = item_texts s @ t \<and> str_at s' ''type'' = str_at s ''type''"
proof -
  let ?text = "\<lambda>q. case str_at q ''text'' of Some t \<Rightarrow> t | None \<Rightarrow> []"
  from assms(1) obtain content old t where s: "step_content s = Ok content" "str_at (last content) ''text'' = Some old"
      "str_at d ''text'' = Some t" "s' = set_field s ''content'' (JArray (butlast content @ [set_field (last content) ''text'' (JString (old @ t))]))"
    by (auto simp: extend_text_def json_string_def)
  have ne: "content \<noteq> []" and before: "item_texts s = concat (map ?text content)"
    using s(1) by (auto simp: step_content_def item_texts_def text_block_def str_at_def jget_obj split: option.splits if_splits)
  have "is_object (last content)" using s(2) by (cases "last content") (auto simp: str_at_def is_object_def)
  then have "?text (set_field (last content) ''text'' (JString (old @ t))) = old @ t" by (simp add: str_at_def jget_set_same)
  moreover have "concat (map ?text content) = concat (map ?text (butlast content)) @ old"
    using ne s(2) append_butlast_last_id [OF ne] by (metis (no_types, lifting) concat.simps concat_append list.simps(8,9) map_append append_Nil2 option.simps(5))
  ultimately have "item_texts s' = item_texts s @ t"
    using s(4) before assms(2) by (simp add: item_texts_def jget_set_same)
  then show ?thesis using s(3,4) by (simp add: str_at_def jget_set_field)
qed

lemma extend_signature_texts:
  "extend_signature d s = Ok s' \<Longrightarrow> item_texts s' = item_texts s \<and> str_at s' ''type'' = str_at s ''type''"
  by (auto simp: extend_signature_def str_at_def jget_set_field)

section \<open>What every event keeps\<close>

definition gemini_stream_inv :: "prepared_interactions \<Rightarrow> nat \<Rightarrow> json list \<Rightarrow> gemini_stream \<Rightarrow> bool" where
  "gemini_stream_inv p limit seen st \<longleftrightarrow>
     gs_prepared st = p \<and> gs_limit st = limit \<and> gs_bytes st \<le> limit \<and>
     (\<forall>i. gs_active st = Some i \<longrightarrow> Suc i = length (gs_steps st)) \<and>
     text_match (gs_steps st) (seen @ gs_progress st) \<and>
     (gs_terminal st \<longrightarrow> gs_active st = None \<and>
        (\<exists>m. gs_interaction st = Some m \<and> (is_object m \<longrightarrow> jget m ''steps'' = Some (JArray (gs_steps st)))))"

lemma note_usage_same:
  "note_usage u st = Ok st' \<Longrightarrow> \<exists>c. st' = st\<lparr>gs_cumulative_usage := c\<rparr>"
  by (auto simp: note_usage_def split: option.splits intro: exI [of _ "gs_cumulative_usage st"])

lemma delta_usage_same: "delta_usage v st = Ok st' \<Longrightarrow> \<exists>c. st' = st\<lparr>gs_cumulative_usage := c\<rparr>"
  by (auto simp: delta_usage_def split: option.splits intro: exI [of _ "gs_cumulative_usage st"] dest: note_usage_same)

lemma inv_usage [simp]: "gemini_stream_inv p limit seen (st\<lparr>gs_cumulative_usage := c\<rparr>) = gemini_stream_inv p limit seen st"
  by (simp add: gemini_stream_inv_def)

lemma step_event_delta:
  "kind \<noteq> ''response.output_text.delta'' \<Longrightarrow> delta_at i (step_event kind j fs) = []"
  "delta_at i (step_event ''response.output_text.delta'' j [(''item_id'', JString x), content_zero, (''delta'', JString t)]) =
     (if i = j then t else [])"
  by (simp_all add: delta_at_def step_event_def str_at_def jget_obj content_zero_def)

lemma inv_progress:
  "(\<And>i. text_of i es = []) \<Longrightarrow> gemini_stream_inv p limit seen (gemini_progress es st) = gemini_stream_inv p limit seen st"
  by (simp add: gemini_stream_inv_def gemini_progress_def text_match_quiet flip: append_assoc)

lemma created_quiet: "delta_at i (obj [(''type'', JString ''response.created''), (''response'', r)]) = []"
  by (simp add: delta_at_def str_at_def jget_obj)

text \<open>Apart from text deltas, what is shown carries no text.\<close>

lemma show_event_quiet:
  assumes "show_event kind v st = Ok st'"
    and "kind \<noteq> ''step.delta'' \<or> json_index (json_index v ''delta'') ''type'' \<noteq> JString ''text''"
  shows "gemini_stream_inv p limit seen st' = gemini_stream_inv p limit seen st"
  using assms
  by (auto simp: show_event_def Let_def inv_progress text_of_def step_event_delta created_quiet split: if_splits)

lemma on_created_inv:
  assumes "on_created v st = Ok st'" and "gemini_stream_inv p limit seen st" and "\<not> gs_terminal st"
  shows "gemini_stream_inv p limit seen st'"
proof -
  from assms(1) obtain meta c where "st' = st\<lparr>gs_cumulative_usage := c, gs_interaction := Some meta\<rparr>"
    by (auto simp: on_created_def split: if_splits dest!: note_usage_same)
  with assms(2,3) show ?thesis by (simp add: gemini_stream_inv_def)
qed

lemma on_step_start_inv:
  assumes "on_step_start v st = Ok st'" and "gemini_stream_inv p limit seen st" and "\<not> gs_terminal st"
  shows "gemini_stream_inv p limit seen st'"
  using assms by (auto simp: on_step_start_def gemini_stream_inv_def text_match_push split: if_splits)

lemma active_last:
  assumes "gemini_stream_inv p limit seen st" and "gs_active st = Some i"
  obtains "gs_steps st = take i (gs_steps st) @ [gs_steps st ! i]" "\<And>s. (gs_steps st)[i := s] = take i (gs_steps st) @ [s]"
    "i < length (gs_steps st)"
proof -
  have i: "Suc i = length (gs_steps st)" using assms by (simp add: gemini_stream_inv_def)
  then have "gs_steps st = take i (gs_steps st) @ [gs_steps st ! i]"
    by (metis lessI order_refl take_Suc_conv_app_nth take_all)
  moreover have "(gs_steps st)[i := s] = take i (gs_steps st) @ [s]" for s using i by (simp add: upd_conv_take_nth_drop)
  ultimately show thesis using that i by simp
qed

lemma inv_last:
  assumes "gemini_stream_inv p limit seen st" and "gs_active st = Some i" and "\<not> gs_terminal st"
    and "str_at s ''type'' = str_at (gs_steps st ! i) ''type''" and "item_texts s = item_texts (gs_steps st ! i)"
  shows "gemini_stream_inv p limit seen (st\<lparr>gs_steps := (gs_steps st)[i := s]\<rparr>)"
proof (rule active_last [OF assms(1,2)])
  assume a: "gs_steps st = take i (gs_steps st) @ [gs_steps st ! i]" "\<And>s. (gs_steps st)[i := s] = take i (gs_steps st) @ [s]"
  have "text_match (take i (gs_steps st) @ [gs_steps st ! i]) (seen @ gs_progress st)"
    using assms(1) a(1) by (simp add: gemini_stream_inv_def)
  from text_match_change [OF this assms(4,5)] have "text_match ((gs_steps st)[i := s]) (seen @ gs_progress st)" unfolding a(2) .
  with assms(1-3) show ?thesis by (simp add: gemini_stream_inv_def)
qed

lemma json_text_at: "json_index d k = JString t \<longleftrightarrow> str_at d k = Some t"
  by (cases "jget d k") (auto simp: json_index_def str_at_def elim: as_str.elims)

lemma on_step_delta_cases:
  assumes "on_step_delta v st = Ok st'" and "gemini_stream_inv p limit seen st" and "\<not> gs_terminal st"
  obtains (other) "gemini_stream_inv p limit seen st'" "json_index (json_index v ''delta'') ''type'' \<noteq> JString ''text''"
  | (visible) i d s c where "gs_active st = Some i" "jget v ''delta'' = Some d" "str_at (gs_steps st ! i) ''type'' = Some ''model_output''"
      "extend_text d (gs_steps st ! i) = Ok s" "st' = st\<lparr>gs_cumulative_usage := c, gs_steps := (gs_steps st)[i := s]\<rparr>"
      "json_index (json_index v ''delta'') ''type'' = JString ''text''"
proof -
  from assms(1) obtain i d st1 where g: "gs_active st = Some i" "delta_usage v st = Ok st1" "jget v ''delta'' = Some d"
      "apply_delta i d st1 = Ok st'"
    by (auto simp: on_step_delta_def split: if_splits)
  from delta_usage_same [OF g(2)] obtain c where st1: "st1 = st\<lparr>gs_cumulative_usage := c\<rparr>" by blast
  have inv1: "gemini_stream_inv p limit seen st1" "gs_active st1 = Some i" "\<not> gs_terminal st1" using assms(2,3) g(1) st1 by simp_all
  from g(4) consider (signature) s where "str_at d ''type'' = Some ''thought_signature''" "extend_signature d (gs_steps st1 ! i) = Ok s"
      "st' = st1\<lparr>gs_steps := (gs_steps st1)[i := s]\<rparr>"
    | (arguments) t where "str_at d ''type'' = Some ''arguments_delta''" "st' = st1\<lparr>gs_arguments := t\<rparr>"
    | (words) s where "str_at (gs_steps st1 ! i) ''type'' = Some ''model_output''" "str_at d ''type'' = Some ''text''"
        "extend_text d (gs_steps st1 ! i) = Ok s" "st' = st1\<lparr>gs_steps := (gs_steps st1)[i := s]\<rparr>"
    by (auto simp: apply_delta_def Let_def json_string_def split: if_splits)
  moreover have kind: "json_index (json_index v ''delta'') ''type'' = JString ''text'' \<longleftrightarrow> str_at d ''type'' = Some ''text''"
    using g(3) by (simp add: json_index_def [of v] json_text_at)
  ultimately show thesis
  proof cases
    case signature
    with extend_signature_texts [OF signature(2)] inv_last [OF inv1] kind other show thesis by simp
  next
    case arguments
    with inv1 kind other show thesis by (simp add: gemini_stream_inv_def)
  next
    case words
    with g(1,3) st1 visible kind show thesis by simp
  qed
qed

lemma step_delta_inv:
  assumes "on_step_delta v st = Ok st1" and "show_event ''step.delta'' v st1 = Ok st'"
    and "gemini_stream_inv p limit seen st" and "\<not> gs_terminal st"
  shows "gemini_stream_inv p limit seen st'"
  using assms(1,3,4)
proof (cases rule: on_step_delta_cases)
  case other
  with show_event_quiet [OF assms(2)] show ?thesis by blast
next
  case (visible i d s c)
  have obj: "is_object (gs_steps st ! i)" using visible(3) by (cases "gs_steps st ! i") (auto simp: str_at_def is_object_def)
  from extend_text_texts [OF visible(4) obj] obtain t where
    t: "str_at d ''text'' = Some t" "item_texts s = item_texts (gs_steps st ! i) @ t" "str_at s ''type'' = str_at (gs_steps st ! i) ''type''"
    by blast
  show ?thesis
  proof (rule active_last [OF assms(3) visible(1)])
    assume a: "gs_steps st = take i (gs_steps st) @ [gs_steps st ! i]" "\<And>s. (gs_steps st)[i := s] = take i (gs_steps st) @ [s]"
    let ?n = "length (shown_steps (take i (gs_steps st)))"
    let ?delta = "json_index (json_index v ''delta'') ''text''"
    have delta: "?delta = JString t" using visible(2) t(1) by (simp add: json_index_def [of v] json_text_at)
    from assms(2) visible(1,5,6) delta obtain x where
      st': "st' = gemini_progress [step_event ''response.output_text.delta'' ?n
        [(''item_id'', JString x), content_zero, (''delta'', JString t)]] st1"
      by (auto simp: show_event_def Let_def public_count_shown)
    have "text_match (take i (gs_steps st) @ [gs_steps st ! i]) (seen @ gs_progress st)"
      using assms(3) a(1) by (simp add: gemini_stream_inv_def)
    from text_match_delta [OF this visible(3) t(3,2), of "[step_event ''response.output_text.delta'' ?n
        [(''item_id'', JString x), content_zero, (''delta'', JString t)]]"]
    have "text_match (gs_steps st1) (seen @ gs_progress st')"
      using st' visible(5) a(2) by (simp add: gemini_progress_def step_event_delta)
    with assms(3,4) visible(1,5) st' show ?thesis by (simp add: gemini_stream_inv_def gemini_progress_def)
  qed
qed

lemma on_step_stop_inv:
  assumes "on_step_stop E v st = Ok st'" and "gemini_stream_inv p limit seen st" and "\<not> gs_terminal st"
  shows "gemini_stream_inv p limit seen st'"
proof -
  from assms(1) obtain i st1 c where s: "gs_active st = Some i" "close_arguments E i (st\<lparr>gs_active := None\<rparr>) = Ok st1"
      "st' = st1\<lparr>gs_cumulative_usage := c\<rparr>"
    by (auto simp: on_step_stop_def split: if_splits option.splits dest!: note_usage_same)
  have "gemini_stream_inv p limit seen (st\<lparr>gs_steps := (gs_steps st)[i := set_field (gs_steps st ! i) ''arguments'' x]\<rparr>)" for x
    by (rule inv_last [OF assms(2) s(1) assms(3)]) (simp_all add: str_at_def jget_set_field)
  then have "gemini_stream_inv p limit seen (st\<lparr>gs_active := None, gs_steps := (gs_steps st)[i := set_field (gs_steps st ! i) ''arguments'' x]\<rparr>)" for x
    using assms(3) by (simp add: gemini_stream_inv_def)
  moreover have "gemini_stream_inv p limit seen (st\<lparr>gs_active := None\<rparr>)" using assms(2,3) by (simp add: gemini_stream_inv_def)
  ultimately show ?thesis using s(2,3) by (auto simp: close_arguments_def split: if_splits)
qed

lemma on_interaction_completed_inv:
  assumes "on_interaction_completed v st = Ok st'" and "gemini_stream_inv p limit seen st"
  shows "gemini_stream_inv p limit seen st'"
proof -
  from assms(1) obtain meta where "gs_active st = None"
      "st' = st\<lparr>gs_interaction := Some (set_field meta ''steps'' (JArray (gs_steps st))), gs_terminal := True\<rparr>"
    by (auto simp: on_interaction_completed_def Let_def split: if_splits)
  with assms(2) show ?thesis by (simp add: gemini_stream_inv_def jget_set_same)
qed

lemma handle_show_inv:
  assumes "handle_event E kind v st = Ok st1" and "show_event kind v st1 = Ok st'"
    and "gemini_stream_inv p limit seen st" and "\<not> gs_terminal st"
  shows "gemini_stream_inv p limit seen st'"
proof (cases "kind = ''step.delta''")
  case True
  with assms show ?thesis using step_delta_inv by (simp add: handle_event_def)
next
  case False
  have "gemini_stream_inv p limit seen st1"
    using assms(1,3,4) False on_created_inv on_step_start_inv on_step_stop_inv on_interaction_completed_inv
    by (auto simp: handle_event_def on_status_update_def split: if_splits)
  with show_event_quiet [OF assms(2)] False show ?thesis by blast
qed

lemma gemini_event_inv:
  assumes "gemini_stream_event E st event = Ok st'" and "gemini_stream_inv p limit seen st"
  shows "gemini_stream_inv p limit seen st'"
proof -
  let ?st = "st\<lparr>gs_bytes := gs_bytes st + length (se_data event)\<rparr>"
  have "gs_bytes st + length (se_data event) \<le> gs_limit st"
    using assms(1) by (auto simp: gemini_stream_event_def Let_def split: if_splits)
  then have inv: "gemini_stream_inv p limit seen ?st" using assms(2) by (simp add: gemini_stream_inv_def)
  show ?thesis
  proof (cases "se_data event = ''[DONE]''")
    case True
    with assms(1) have "st' = ?st\<lparr>gs_done := True\<rparr>" by (auto simp: gemini_stream_event_def Let_def split: if_splits)
    with inv show ?thesis by (simp add: gemini_stream_inv_def)
  next
    case False
    with assms(1) obtain kind v st1 where "\<not> gs_terminal ?st" "handle_event E kind v ?st = Ok st1" "show_event kind v st1 = Ok st'"
      by (auto simp: gemini_stream_event_def Let_def split: if_splits)
    with handle_show_inv inv show ?thesis by blast
  qed
qed

definition gemini_stream_step ::
  "wire_env \<Rightarrow> json list \<times> gemini_stream \<Rightarrow> sse_event \<Rightarrow> ir_error + json list \<times> gemini_stream" where
  "gemini_stream_step E = (\<lambda>(seen, st) event.
     and_then (gemini_stream_event E st event) (\<lambda>st.
       let (es, st) = gemini_take_progress st in Ok (seen @ es, st)))"

lemma gemini_run_inv:
  assumes "fold_result (gemini_stream_step E) ([], gemini_stream_new p limit rid) events = Ok (shown, st)"
  shows "gemini_stream_inv p limit shown st \<and> gs_progress st = []"
proof -
  have take: "gemini_stream_inv p limit (seen @ gs_progress st) (st\<lparr>gs_progress := []\<rparr>)" if "gemini_stream_inv p limit seen st" for seen st
    using that by (simp add: gemini_stream_inv_def)
  have new: "gemini_stream_inv p limit [] (gemini_stream_new p limit rid)" "gs_progress (gemini_stream_new p limit rid) = []"
    by (simp_all add: gemini_stream_inv_def gemini_stream_new_def text_match_def shown_steps_def)
  have "case (shown, st) of (seen, st) \<Rightarrow> gemini_stream_inv p limit seen st \<and> gs_progress st = []"
    by (rule fold_result_invariant [OF assms])
      (auto simp: new gemini_stream_step_def gemini_take_progress_def Let_def dest!: gemini_event_inv intro: take)
  then show ?thesis by simp
qed

text \<open>A Gemini stream that finishes hands over for replay exactly the steps it assembled, and every message it showed
  early ends in the response with the text that was shown; the events it read are within the byte limit.\<close>

theorem gemini_stream_faithful:
  assumes "fold_result (gemini_stream_step E) ([], gemini_stream_new p limit rid) events = Ok (shown, st)"
    and "gemini_stream_finish E integral now st = Ok d"
  shows "di_steps d = gs_steps st \<and> gs_bytes st \<le> limit \<and>
    (\<exists>outs. jget (di_response d) ''output'' = Some (JArray outs) \<and>
       (\<forall>i < length outs. str_at (outs ! i) ''type'' = Some ''message'' \<longrightarrow> (\<exists>pre. item_texts (outs ! i) = pre @ text_of i shown)))"
proof -
  from gemini_run_inv [OF assms(1)] have inv: "gemini_stream_inv p limit shown st" "gs_progress st = []" by simp_all
  from assms(2) obtain v tools where v: "gs_terminal st" "gs_interaction st = Some v"
      "interactions_decode E integral now (gs_prepared st) v (gs_response_id st) = Ok (d, tools)"
    by (auto simp: gemini_stream_finish_def split: if_splits)
  from interactions_decode_shows [OF v(3)] obtain outs where o: "interaction_head (gs_prepared st) v = Ok (di_provider_status d, di_steps d)"
      "jget (di_response d) ''output'' = Some (JArray outs)"
      "list_all2 (step_shown integral (gs_prepared st)) (shown_steps (di_steps d)) outs"
    by blast
  have "Option.bind (jget v ''steps'') as_array = Some (di_steps d)"
    using o(1) by (auto simp: interaction_head_def split: if_splits)
  moreover from this have "is_object v" by (cases v) (simp_all add: is_object_def)
  ultimately have steps: "di_steps d = gs_steps st" using inv(1) v(1,2) by (simp add: gemini_stream_inv_def)
  have "\<exists>pre. item_texts (outs ! i) = pre @ text_of i shown"
    if i: "i < length outs" "str_at (outs ! i) ''type'' = Some ''message''" for i
  proof -
    from o(3) i(1) have "step_shown integral (gs_prepared st) (shown_steps (gs_steps st) ! i) (outs ! i)" "i < length (shown_steps (gs_steps st))"
      by (auto simp: list_all2_conv_all_nth steps)
    then show ?thesis
      using i(2) inv by (auto simp: step_shown_def gemini_stream_inv_def text_match_def split: if_splits)
  qed
  with o(2) steps inv(1) show ?thesis by (auto simp: gemini_stream_inv_def)
qed

end
