(* ===== verification/Messages_Managed.thy ===== *)
theory Messages_Managed
  imports Messages_Adapter Wire_Stream
begin

text \<open>
  The native Messages assembly for managed execution, \<open>src/src/adapters/messages/managed_stream.rs\<close>: the
  provider's blocks are kept whole for replay, public text leaves early as progress events. An event
  that is rejected ends the managed stream that owns this state; what can still be read of it then (the
  accounting) is not changed by a rejected event, so the state before the event stands for it.
\<close>

record native_messages =
  nm_prepared :: prepared_messages
  nm_message :: "json option"
  nm_blocks :: "json list"
  nm_active :: "nat option"
  nm_arguments :: string
  nm_signature_started :: bool
  nm_public_count :: nat
  nm_active_public :: "nat option"
  nm_stopped :: bool
  nm_done :: bool
  nm_limit :: nat
  nm_bytes :: nat
  nm_progress :: "json list"

definition native_messages_new :: "prepared_messages \<Rightarrow> nat \<Rightarrow> native_messages" where
  "native_messages_new p limit =
     \<lparr>nm_prepared = p, nm_message = None, nm_blocks = [], nm_active = None, nm_arguments = [], nm_signature_started = False,
      nm_public_count = 0, nm_active_public = None, nm_stopped = False, nm_done = False, nm_limit = limit, nm_bytes = 0,
      nm_progress = []\<rparr>"

definition native_item_id :: "native_messages \<Rightarrow> nat \<Rightarrow> ir_error + string" where
  "native_item_id st i =
     and_then (ok_or (nm_message st) InvalidEventOrder) (\<lambda>m.
     and_then (json_string m ''id'') (\<lambda>mid. Ok (''item_'' @ mid @ ''_'' @ nat_text i)))"

definition json_opt_index :: "nat option \<Rightarrow> json" where
  "json_opt_index i = (case i of Some n \<Rightarrow> JNumber (nat_text n) | None \<Rightarrow> JNull)"

definition public_event :: "string \<Rightarrow> nat option \<Rightarrow> (string \<times> json) list \<Rightarrow> json" where
  "public_event kind i fs = obj ([(''type'', JString kind), (''output_index'', json_opt_index i)] @ fs)"

definition add_progress :: "json list \<Rightarrow> native_messages \<Rightarrow> native_messages" where
  "add_progress es st = st\<lparr>nm_progress := nm_progress st @ es\<rparr>"

definition start_public :: "nat \<Rightarrow> bool \<Rightarrow> native_messages \<Rightarrow> ir_error + native_messages" where
  "start_public i reasoning st =
     and_then (native_item_id st i) (\<lambda>item.
       let p = Some (nm_public_count st);
           shown = (if reasoning
             then obj [(''type'', JString ''reasoning''), (''id'', JString item), (''summary'', JArray [])]
             else obj [(''type'', JString ''message''), (''id'', JString item), (''role'', JString ''assistant''),
               (''status'', JString ''in_progress''), (''content'', JArray [])]);
           part = (if reasoning
             then public_event ''response.reasoning_summary_part.added'' p
               [(''item_id'', JString item), (''summary_index'', JNumber ''0''),
                (''part'', obj [(''type'', JString ''summary_text''), (''text'', JString [])])]
             else public_event ''response.content_part.added'' p
               [(''item_id'', JString item), (''content_index'', JNumber ''0''),
                (''part'', obj [(''type'', JString ''output_text''), (''text'', JString []), (''annotations'', JArray [])])])
       in Ok (add_progress [public_event ''response.output_item.added'' p [(''item'', shown)], part]
         (st\<lparr>nm_active_public := p, nm_public_count := nm_public_count st + 1\<rparr>)))"

definition public_text :: "nat \<Rightarrow> string \<Rightarrow> bool \<Rightarrow> native_messages \<Rightarrow> ir_error + native_messages" where
  "public_text i t thinking st =
     (if t = [] then Ok st
      else
        and_then (if nm_active_public st = None then start_public i thinking st else Ok st) (\<lambda>st.
        and_then (native_item_id st i) (\<lambda>item.
          Ok (add_progress
            [if thinking
             then public_event ''response.reasoning_summary_text.delta'' (nm_active_public st)
               [(''item_id'', JString item), (''summary_index'', JNumber ''0''), (''delta'', JString t)]
             else public_event ''response.output_text.delta'' (nm_active_public st)
               [(''item_id'', JString item), (''content_index'', JNumber ''0''), (''delta'', JString t)]] st))))"

definition native_start_checks :: "native_messages \<Rightarrow> json \<Rightarrow> ir_error + unit" where
  "native_start_checks st message =
     and_then (known_fields message [''id'', ''type'', ''role'', ''model'', ''content'', ''stop_reason'', ''stop_sequence'', ''usage'']) (\<lambda>_.
     and_then (json_string message ''type'') (\<lambda>kind.
     if kind \<noteq> ''message'' then Err UnsupportedFeature else
     and_then (json_string message ''role'') (\<lambda>r.
     if r \<noteq> ''assistant'' then Err UnsupportedFeature else
     and_then (json_string message ''model'') (\<lambda>model.
     if model \<noteq> pm_model (nm_prepared st) \<or> as_array (json_index message ''content'') \<noteq> Some [] \<or>
        present message ''stop_reason'' \<or> present message ''stop_sequence''
     then Err UnsupportedFeature else Ok ()))))"

definition native_message_start :: "json \<Rightarrow> native_messages \<Rightarrow> ir_error + native_messages" where
  "native_message_start v st =
     and_then (known_fields v [''type'', ''message'']) (\<lambda>_.
     if nm_message st \<noteq> None then Err InvalidEventOrder else
     and_then (ok_or (jget v ''message'') UnsupportedFeature) (\<lambda>message.
     and_then (native_start_checks st message) (\<lambda>_.
     and_then (json_string message ''id'') (\<lambda>mid.
     and_then (response_id_new (''resp_'' @ mid)) (\<lambda>_.
     and_then (managed_usage (jget message ''usage'')) (\<lambda>_.
       Ok (add_progress [obj [(''type'', JString ''response.created''),
           (''response'', obj [(''id'', JString (''resp_'' @ mid)), (''object'', JString ''response''),
             (''status'', JString ''in_progress''), (''output'', JArray [])])]]
         (st\<lparr>nm_message := Some message\<rparr>))))))))"

definition native_block_ok :: "native_messages \<Rightarrow> json \<Rightarrow> string \<Rightarrow> ir_error + unit" where
  "native_block_ok st block kind =
     (if kind = ''thinking'' then
        and_then (known_fields block [''type'', ''thinking'', ''signature'']) (\<lambda>_.
        and_then (json_string block ''thinking'') (\<lambda>_.
          if (case jget block ''signature'' of Some v \<Rightarrow> \<not> is_string v | None \<Rightarrow> False) then Err UnsupportedFeature else Ok ()))
      else if kind = ''redacted_thinking'' then
        and_then (known_fields block [''type'', ''data'']) (\<lambda>_.
        and_then (json_string block ''data'') (\<lambda>d. if d = [] then Err UnsupportedFeature else Ok ()))
      else if kind = ''text'' then
        and_then (known_fields block [''type'', ''text'', ''citations'']) (\<lambda>_.
        and_then (json_string block ''text'') (\<lambda>_. if cited block then Err UnsupportedFeature else Ok ()))
      else if kind = ''tool_use'' then
        and_then (known_fields block [''type'', ''id'', ''name'', ''input'']) (\<lambda>_.
        and_then (json_string block ''id'') (\<lambda>raw_id.
        and_then (call_id_new raw_id) (\<lambda>_.
        and_then (json_string block ''name'') (\<lambda>name.
        and_then (resolve (pm_tools (nm_prepared st)) name) (\<lambda>_.
          if as_object (json_index block ''input'') \<noteq> Some fmempty then Err InvalidJsonArguments else Ok ())))))
      else Err UnsupportedFeature)"

definition open_native :: "string \<Rightarrow> json \<Rightarrow> native_messages \<Rightarrow> native_messages" where
  "open_native kind block st =
     st\<lparr>nm_active := Some (length (nm_blocks st)), nm_arguments := [], nm_signature_started := False, nm_active_public := None,
       nm_public_count := nm_public_count st + (if kind = ''tool_use'' then 1 else 0), nm_blocks := nm_blocks st @ [block]\<rparr>"

definition show_opened :: "string \<Rightarrow> json \<Rightarrow> nat \<Rightarrow> native_messages \<Rightarrow> ir_error + native_messages" where
  "show_opened kind block i st =
     (if kind \<in> {''thinking'', ''text''} then
        and_then (json_string block (if kind = ''thinking'' then ''thinking'' else ''text'')) (\<lambda>t.
          if kind \<noteq> ''thinking'' \<or> t \<noteq> [] then
            and_then (start_public i (kind = ''thinking'') st) (public_text i t (kind = ''thinking''))
          else Ok st)
      else Ok st)"

definition native_block_start :: "json \<Rightarrow> native_messages \<Rightarrow> ir_error + native_messages" where
  "native_block_start v st =
     and_then (known_fields v [''type'', ''index'', ''content_block'']) (\<lambda>_.
     if nm_message st = None \<or> nm_active st \<noteq> None \<or> nm_stopped st \<or>
        as_u64 (json_index v ''index'') \<noteq> Some (of_nat (length (nm_blocks st)))
     then Err InvalidEventOrder else
     and_then (ok_or (jget v ''content_block'') UnsupportedFeature) (\<lambda>block.
     and_then (json_string block ''type'') (\<lambda>kind.
     and_then (native_block_ok st block kind) (\<lambda>_.
       show_opened kind block (length (nm_blocks st)) (open_native kind block st)))))"

text \<open>Which field of the block a delta extends, and whether its text is public (\<open>Some\<close>, with the mark of thinking).\<close>

definition delta_target :: "native_messages \<Rightarrow> string \<Rightarrow> string \<Rightarrow> ir_error + string \<times> bool option" where
  "delta_target st block_type delta_type =
     (if block_type = ''thinking'' \<and> delta_type = ''thinking_delta'' \<and> \<not> nm_signature_started st then Ok (''thinking'', Some True)
      else if block_type = ''thinking'' \<and> delta_type = ''signature_delta'' then Ok (''signature'', None)
      else if block_type = ''text'' \<and> delta_type = ''text_delta'' then Ok (''text'', Some False)
      else if block_type = ''tool_use'' \<and> delta_type = ''input_json_delta'' then Ok (''partial_json'', None)
      else Err UnsupportedFeature)"

definition append_field :: "string \<Rightarrow> string \<Rightarrow> json \<Rightarrow> json" where
  "append_field field t block =
     set_field block field (JString ((case str_at block field of Some s \<Rightarrow> s | None \<Rightarrow> []) @ t))"

definition extend_native :: "nat \<Rightarrow> string \<Rightarrow> string \<Rightarrow> native_messages \<Rightarrow> native_messages" where
  "extend_native i field t st =
     (let st = st\<lparr>nm_signature_started := nm_signature_started st \<or> field = ''signature''\<rparr> in
      if field = ''partial_json'' then st\<lparr>nm_arguments := nm_arguments st @ t\<rparr>
      else st\<lparr>nm_blocks := (nm_blocks st)[i := append_field field t (nm_blocks st ! i)]\<rparr>)"

definition native_block_delta :: "json \<Rightarrow> native_messages \<Rightarrow> ir_error + native_messages" where
  "native_block_delta v st =
     and_then (known_fields v [''type'', ''index'', ''delta'']) (\<lambda>_.
     and_then (ok_or (nm_active st) InvalidEventOrder) (\<lambda>i.
     if as_u64 (json_index v ''index'') \<noteq> Some (of_nat i) then Err InvalidEventOrder else
     and_then (ok_or (jget v ''delta'') UnsupportedFeature) (\<lambda>delta.
     and_then (json_string (nm_blocks st ! i) ''type'') (\<lambda>block_type.
     and_then (json_string delta ''type'') (\<lambda>delta_type.
     and_then (delta_target st block_type delta_type) (\<lambda>(field, public).
     and_then (known_fields delta [''type'', field]) (\<lambda>_.
     and_then (json_string delta field) (\<lambda>t.
     let st = extend_native i field t st
     in case public of
          Some thinking \<Rightarrow> public_text i t thinking st
        | None \<Rightarrow> Ok st))))))))"

definition native_block_stop :: "wire_env \<Rightarrow> json \<Rightarrow> native_messages \<Rightarrow> ir_error + native_messages" where
  "native_block_stop E v st =
     and_then (known_fields v [''type'', ''index'']) (\<lambda>_.
     and_then (ok_or (nm_active st) InvalidEventOrder) (\<lambda>i.
     if as_u64 (json_index v ''index'') \<noteq> Some (of_nat i) then Err InvalidEventOrder else
     let st = st\<lparr>nm_active := None\<rparr> in
     and_then (if json_index (nm_blocks st ! i) ''type'' = JString ''tool_use'' \<and> nm_arguments st \<noteq> [] then
         and_then (json_decode (we_parse E) (nm_arguments st)) (\<lambda>input.
           Ok (st\<lparr>nm_blocks := (nm_blocks st)[i := set_field (nm_blocks st ! i) ''input'' input]\<rparr>))
       else Ok st) (\<lambda>st.
     if json_index (nm_blocks st ! i) ''type'' = JString ''thinking'' \<and>
        (case as_str (json_index (nm_blocks st ! i) ''signature'') of None \<Rightarrow> True | Some s \<Rightarrow> s = [])
     then Err UnsupportedFeature else Ok st)))"

fun merge_fields :: "json \<Rightarrow> fields \<Rightarrow> json" where
  "merge_fields (JObject m) fs = JObject (m ++\<^sub>f fs)"
| "merge_fields v fs = v"

definition native_message_delta :: "json \<Rightarrow> native_messages \<Rightarrow> ir_error + native_messages" where
  "native_message_delta v st =
     and_then (known_fields v [''type'', ''delta'', ''usage'']) (\<lambda>_.
     if nm_message st = None \<or> nm_active st \<noteq> None \<or> nm_stopped st then Err InvalidEventOrder else
     and_then (ok_or (jget v ''delta'') UnsupportedFeature) (\<lambda>delta.
     and_then (known_fields delta [''stop_reason'', ''stop_sequence'']) (\<lambda>_.
     and_then (json_string delta ''stop_reason'') (\<lambda>_.
     and_then (ok_or (nm_message st) UnsupportedFeature) (\<lambda>message.
     and_then (json_object delta) (\<lambda>fs.
     let message = merge_fields message fs in
     and_then (case jget v ''usage'' of
         None \<Rightarrow> Ok message
       | Some u \<Rightarrow>
           and_then (managed_usage (Some u)) (\<lambda>_.
           let message = (if \<not> is_object (json_index message ''usage'') then set_field message ''usage'' (JObject fmempty) else message) in
           and_then (json_object u) (\<lambda>us.
             Ok (set_field message ''usage'' (merge_fields (json_index message ''usage'') us))))) (\<lambda>message.
       Ok (st\<lparr>nm_message := Some message, nm_stopped := True\<rparr>))))))))"

definition native_message_stop :: "json \<Rightarrow> native_messages \<Rightarrow> ir_error + native_messages" where
  "native_message_stop v st =
     and_then (known_fields v [''type'']) (\<lambda>_.
     if \<not> nm_stopped st \<or> nm_active st \<noteq> None then Err InvalidEventOrder else
     and_then (ok_or (nm_message st) UnsupportedFeature) (\<lambda>message.
       Ok (st\<lparr>nm_message := Some (set_field message ''content'' (JArray (nm_blocks st))), nm_done := True\<rparr>)))"

definition native_messages_event :: "wire_env \<Rightarrow> native_messages \<Rightarrow> sse_event \<Rightarrow> ir_error + native_messages" where
  "native_messages_event E st event =
     (let n = nm_bytes st + length (se_data event) in
      if n \<ge> 2 ^ 64 \<or> n > nm_limit st then Err SizeLimit
      else if nm_done st then Err InvalidEventOrder
      else
        let st = st\<lparr>nm_bytes := n\<rparr> in
        and_then (json_decode (we_parse E) (se_data event)) (\<lambda>v.
        and_then (json_string v ''type'') (\<lambda>kind.
        if se_event event \<noteq> kind then Err InvalidEventOrder
        else if kind = ''ping'' then and_then (known_fields v [''type'']) (\<lambda>_. Ok st)
        else if kind = ''message_start'' then native_message_start v st
        else if kind = ''content_block_start'' then native_block_start v st
        else if kind = ''content_block_delta'' then native_block_delta v st
        else if kind = ''content_block_stop'' then native_block_stop E v st
        else if kind = ''message_delta'' then native_message_delta v st
        else if kind = ''message_stop'' then native_message_stop v st
        else Err UnsupportedFeature)))"

definition native_messages_accounting :: "native_messages \<Rightarrow> accounting" where
  "native_messages_accounting st =
     (let meta = (case nm_message st of Some m \<Rightarrow> m | None \<Rightarrow> JObject fmempty) in
      accounting_new MessagesV1 (jget meta ''usage'') meta
        (if nm_done st then usage_outcome.Completed else usage_outcome.InProgress))"

definition native_messages_take_progress :: "native_messages \<Rightarrow> json list \<times> native_messages" where
  "native_messages_take_progress st = (nm_progress st, st\<lparr>nm_progress := []\<rparr>)"

definition native_messages_complete :: "native_messages \<Rightarrow> bool" where
  "native_messages_complete st = nm_done st"

definition native_messages_finish :: "wire_env \<Rightarrow> u64 option \<Rightarrow> native_messages \<Rightarrow> ir_error + managed_output" where
  "native_messages_finish E now st =
     (if \<not> nm_done st then Err InvalidEventOrder
      else and_then (ok_or (nm_message st) UnsupportedFeature) (messages_decode_managed E now (nm_prepared st)))"

section \<open>What is handed over is what was assembled\<close>

definition native_inv :: "native_messages \<Rightarrow> bool" where
  "native_inv st \<longleftrightarrow>
     nm_bytes st \<le> nm_limit st \<and> (nm_bytes st = 0 \<or> nm_bytes st < 2 ^ 64) \<and>
     pred_option is_object (nm_message st) \<and>
     (case nm_active st of None \<Rightarrow> True | Some i \<Rightarrow> Suc i = length (nm_blocks st) \<and> nm_message st \<noteq> None \<and> \<not> nm_stopped st) \<and>
     (nm_stopped st \<longrightarrow> nm_message st \<noteq> None) \<and>
     (nm_done st \<longrightarrow> nm_stopped st \<and> Option.bind (nm_message st) (\<lambda>m. jget m ''content'') = Some (JArray (nm_blocks st)))"

lemma known_fields_object: "known_fields v fs = Ok () \<Longrightarrow> is_object v"
  by (auto simp: known_fields_def json_object_def is_object_def)

lemma merge_fields_object [simp]: "is_object (merge_fields v fs) = is_object v"
  by (cases v) (simp_all add: is_object_def)

text \<open>Showing text changes only what is shown.\<close>

definition native_core ::
  "native_messages \<Rightarrow> json option \<times> json list \<times> nat option \<times> bool \<times> bool \<times> nat \<times> nat \<times> prepared_messages" where
  "native_core st =
     (nm_message st, nm_blocks st, nm_active st, nm_stopped st, nm_done st, nm_limit st, nm_bytes st, nm_prepared st)"

lemma native_inv_core: "native_core st' = native_core st \<Longrightarrow> native_inv st' = native_inv st"
  by (cases "nm_active st") (simp_all add: native_core_def native_inv_def)

lemma core_progress [simp]: "native_core (add_progress es st) = native_core st"
  by (simp add: native_core_def add_progress_def)

lemma start_public_core: "start_public i r st = Ok st' \<Longrightarrow> native_core st' = native_core st"
  by (auto simp: start_public_def Let_def) (simp_all add: native_core_def)

lemma public_text_core: "public_text i t thinking st = Ok st' \<Longrightarrow> native_core st' = native_core st"
  by (auto simp: public_text_def split: if_splits dest!: start_public_core)

lemma show_opened_core: "show_opened kind block i st = Ok st' \<Longrightarrow> native_core st' = native_core st"
  by (auto simp: show_opened_def split: if_splits dest!: start_public_core public_text_core)

lemma block_start_inv:
  assumes "native_block_start v st = Ok st'" and "native_inv st" and "\<not> nm_done st"
  shows "native_inv st' \<and> nm_prepared st' = nm_prepared st"
proof -
  from assms(1) obtain kind block where step: "nm_message st \<noteq> None" "nm_active st = None" "\<not> nm_stopped st"
      "show_opened kind block (length (nm_blocks st)) (open_native kind block st) = Ok st'"
    by (auto simp: native_block_start_def split: if_splits)
  note core = show_opened_core [OF step(4)]
  have "native_inv (open_native kind block st)"
    using assms(2,3) step(1-3) by (simp add: native_inv_def open_native_def)
  with native_inv_core [OF core] core show ?thesis by (simp add: native_core_def open_native_def)
qed

lemma block_delta_inv:
  assumes "native_block_delta v st = Ok st'" and "native_inv st" and "\<not> nm_done st"
  shows "native_inv st' \<and> nm_prepared st' = nm_prepared st"
proof -
  from assms(1) obtain i field t where step: "nm_active st = Some i" "native_core st' = native_core (extend_native i field t st)"
    by (auto simp: native_block_delta_def Let_def split: if_splits option.splits dest!: public_text_core)
  have "native_inv (extend_native i field t st)"
    using assms(2,3) step(1) by (simp add: native_inv_def extend_native_def Let_def)
  with native_inv_core [OF step(2)] step(2) show ?thesis by (simp add: native_core_def extend_native_def Let_def split: if_splits)
qed

lemma block_stop_inv:
  assumes "native_block_stop E v st = Ok st'" and "native_inv st" and "\<not> nm_done st"
  shows "native_inv st' \<and> nm_prepared st' = nm_prepared st"
  using assms by (auto simp: native_block_stop_def Let_def native_inv_def split: if_splits)

lemma message_start_inv:
  assumes "native_message_start v st = Ok st'" and "native_inv st" and "\<not> nm_done st"
  shows "native_inv st' \<and> nm_prepared st' = nm_prepared st"
proof -
  from assms(1) obtain message where step: "nm_message st = None" "is_object message"
      "native_core st' = native_core (st\<lparr>nm_message := Some message\<rparr>)"
    by (auto simp: native_message_start_def native_start_checks_def split: if_splits dest!: known_fields_object)
  with assms(2,3) show ?thesis
    by (simp add: native_inv_core [OF step(3)]) (auto simp: native_inv_def native_core_def split: option.splits)
qed

lemma message_delta_inv:
  assumes "native_message_delta v st = Ok st'" and "native_inv st" and "\<not> nm_done st"
  shows "native_inv st' \<and> nm_prepared st' = nm_prepared st"
  using assms
  by (auto simp: native_message_delta_def native_inv_def Let_def split: if_splits option.splits)

lemma message_stop_inv:
  assumes "native_message_stop v st = Ok st'" and "native_inv st" and "\<not> nm_done st"
  shows "native_inv st' \<and> nm_prepared st' = nm_prepared st"
  using assms
  by (auto simp: native_message_stop_def native_inv_def jget_set_same split: if_splits option.splits)

lemma native_event_inv:
  assumes "native_messages_event E st event = Ok st'" and "native_inv st"
  shows "native_inv st' \<and> nm_prepared st' = nm_prepared st"
proof -
  let ?st = "st\<lparr>nm_bytes := nm_bytes st + length (se_data event)\<rparr>"
  have "nm_bytes st + length (se_data event) \<le> nm_limit st" "nm_bytes st + length (se_data event) < 2 ^ 64" "\<not> nm_done st"
    using assms(1) by (auto simp: native_messages_event_def Let_def split: if_splits)
  then have inv: "native_inv ?st" "\<not> nm_done ?st" using assms(2) by (cases "nm_active st"; simp add: native_inv_def)+
  then show ?thesis
    using assms(1) message_start_inv [OF _ inv] block_start_inv [OF _ inv] block_delta_inv [OF _ inv] block_stop_inv [OF _ inv]
      message_delta_inv [OF _ inv] message_stop_inv [OF _ inv]
    by (auto simp: native_messages_event_def Let_def split: if_splits)
qed

lemma native_run_inv:
  assumes "fold_result (native_messages_event E) (native_messages_new p limit) events = Ok st"
  shows "native_inv st \<and> nm_prepared st = p"
  by (rule fold_result_invariant [OF assms])
    (auto simp: native_messages_new_def native_inv_def dest: native_event_inv)

lemma decode_managed_native:
  assumes "messages_decode_managed E now p v = Ok out"
  shows "\<exists>blocks control. jget v ''content'' = Some (JArray blocks) \<and> blocks \<noteq> [] \<and> pm_reasoning_controls p = Some control \<and>
    mg_native out = MessagesReplay 1 blocks control"
  using assms
  by (auto simp: messages_decode_managed_def json_index_def split: if_splits option.splits list.splits elim!: as_array.elims)

text \<open>A managed Messages stream finishes only after the provider ended the message with no block open, and what
  it hands over for replay is exactly the list of native blocks it assembled (never empty), with the
  reasoning controls of the request; the events it read are within the byte limit.\<close>

lemma managed_messages_replay:
  assumes "fold_result (native_messages_event E) (native_messages_new p limit) events = Ok st"
    and "native_messages_finish E now st = Ok out"
  shows "nm_stopped st \<and> nm_active st = None \<and> nm_bytes st \<le> nm_limit st \<and> nm_blocks st \<noteq> [] \<and>
    (\<exists>control. pm_reasoning_controls p = Some control \<and> mg_native out = MessagesReplay 1 (nm_blocks st) control \<and>
      native_replay_validate (mg_native out) = (if is_object control then Ok () else Err ContinuityMismatch))"
proof -
  from assms(2) obtain m where m: "nm_done st" "nm_message st = Some m" "messages_decode_managed E now (nm_prepared st) m = Ok out"
    by (auto simp: native_messages_finish_def split: if_splits)
  have inv: "native_inv st" "nm_prepared st = p" using native_run_inv [OF assms(1)] by simp_all
  with m have content: "jget m ''content'' = Some (JArray (nm_blocks st))" and stopped: "nm_stopped st"
    by (simp_all add: native_inv_def)
  moreover have "nm_active st = None" using inv(1) stopped by (cases "nm_active st") (auto simp: native_inv_def)
  moreover have "nm_bytes st \<le> nm_limit st" using inv(1) by (simp add: native_inv_def)
  ultimately show ?thesis using decode_managed_native [OF m(3)] inv(2) by auto
qed
end
