(* ===== verification/Chat_Stream.thy ===== *)
theory Chat_Stream
  imports Chat_Adapter Wire_Stream "HOL-Library.Code_Target_Nat"
begin

text \<open>
  The incremental Chat decoder, \<open>src/src/adapters/chat/stream.rs\<close>: text is passed on as it comes, tool
  calls are collected until the provider finishes, and then the collected completion is decoded as a
  whole and projected into the remaining events.

  Handlers map the stream and the events emitted so far for the current input (\<open>chat_emitting\<close>) to new
  ones. A stream that failed answers every call with an error, so its other fields, which the code may have
  changed before the failure, are left as they were. The code expects of decoded items that they have an identifier, a name and arguments;
  \<open>decoded_text\<close> reads such a field.
\<close>

section \<open>State\<close>

record tool_fragments =
  tf_id :: string
  tf_name :: string
  tf_arguments :: string
  tf_function_type :: bool

definition no_fragments :: tool_fragments where
  "no_fragments = \<lparr>tf_id = [], tf_name = [], tf_arguments = [], tf_function_type = False\<rparr>"

record chat_stream =
  cs_prepared :: prepared_chat
  cs_validator :: event_validator
  cs_id :: "string option"
  cs_created :: "u64 option"
  cs_text :: "string option"
  cs_calls :: "(nat, tool_fragments) fmap"
  cs_finish_reason :: "string option"
  cs_final_response :: "json option"
  cs_usage :: "json option"
  cs_buffered :: nat
  cs_argument_bytes :: nat
  cs_limit :: nat
  cs_sequence :: u64
  cs_failed :: bool
  cs_done :: bool

type_synonym chat_emitting = "chat_stream \<times> json list"

definition chat_stream_new :: "prepared_chat \<Rightarrow> nat \<Rightarrow> ir_error + chat_stream" where
  "chat_stream_new p max_output_bytes =
     (if max_output_bytes = 0 then Err SizeLimit
      else and_then (event_validator_new default_limits) (\<lambda>v.
        Ok \<lparr>cs_prepared = p, cs_validator = v, cs_id = None, cs_created = None, cs_text = None, cs_calls = fmempty,
            cs_finish_reason = None, cs_final_response = None, cs_usage = None, cs_buffered = 0, cs_argument_bytes = 0,
            cs_limit = max_output_bytes, cs_sequence = 0, cs_failed = False, cs_done = False\<rparr>))"

definition chat_emit :: "string \<Rightarrow> json \<Rightarrow> chat_emitting \<Rightarrow> chat_emitting" where
  "chat_emit kind v = (\<lambda>(st, out).
     (st\<lparr>cs_sequence := cs_sequence st + 1\<rparr>, out @ [numbered kind (cs_sequence st) v]))"

definition chat_reserve :: "nat \<Rightarrow> chat_emitting \<Rightarrow> ir_error + chat_emitting" where
  "chat_reserve bytes = (\<lambda>(st, out).
     if bytes > cs_limit st - cs_buffered st then Err SizeLimit
     else Ok (st\<lparr>cs_buffered := cs_buffered st + bytes\<rparr>, out))"

definition chat_apply :: "wire_env \<Rightarrow> event_ir \<Rightarrow> chat_emitting \<Rightarrow> ir_error + chat_emitting" where
  "chat_apply E event = (\<lambda>(st, out).
     and_then (apply_ok (we_serde E) (cs_validator st) event) (\<lambda>v. Ok (st\<lparr>cs_validator := v\<rparr>, out)))"

text \<open>An assignment to fields of the stream.\<close>

definition chat_set :: "(chat_stream \<Rightarrow> chat_stream) \<Rightarrow> chat_emitting \<Rightarrow> chat_emitting" where
  "chat_set f = (\<lambda>(st, out). (f st, out))"

section \<open>Deltas\<close>

definition message_added :: "item_id \<Rightarrow> json" where
  "message_added item =
     obj [(''output_index'', JNumber (nat_text 0)),
       (''item'', obj [(''id'', JString (item_id_str item)), (''type'', JString ''message''), (''role'', JString ''assistant''),
         (''status'', JString ''in_progress''), (''content'', JArray [])])]"

definition start_chat_text :: "wire_env \<Rightarrow> item_id \<Rightarrow> chat_emitting \<Rightarrow> ir_error + chat_emitting" where
  "start_chat_text E item em =
     (if cs_text (fst em) \<noteq> None then Ok em
      else if fcard (fmdom (cs_calls (fst em))) \<ge> max_items default_limits then Err SizeLimit
      else
        and_then (chat_apply E (ItemStarted item 0 Message) em) (\<lambda>em.
        and_then (chat_apply E (PartStarted item 0 Text) em) (\<lambda>em.
          Ok (chat_emit ''response.content_part.added'' (at_item item 0 [content_zero, (''part'', empty_part)])
            (chat_emit ''response.output_item.added'' (message_added item)
              (chat_set (\<lambda>st. st\<lparr>cs_text := Some []\<rparr>) em))))))"

definition chat_text_delta :: "wire_env \<Rightarrow> string \<Rightarrow> chat_emitting \<Rightarrow> ir_error + chat_emitting" where
  "chat_text_delta E t em =
     and_then (chat_reserve (length t) em) (\<lambda>em.
     and_then (item_id_new (''item_'' @ (case cs_id (fst em) of Some i \<Rightarrow> i | None \<Rightarrow> []) @ ''_0'')) (\<lambda>item.
     and_then (start_chat_text E item em) (\<lambda>em.
     and_then (chat_apply E (TextDelta item 0 t) em) (\<lambda>em.
       let em = chat_set (\<lambda>st. st\<lparr>cs_text := Some ((case cs_text st of Some s \<Rightarrow> s | None \<Rightarrow> []) @ t)\<rparr>) em in
       Ok (if t \<noteq> [] then chat_emit ''response.output_text.delta'' (text_delta_event item 0 t) em else em)))))"

definition fragment :: "json option \<Rightarrow> ir_error + string option" where
  "fragment v =
     (case v of
        None \<Rightarrow> Ok None
      | Some x \<Rightarrow>
          if is_null x then Ok None
          else and_then (ok_or (as_str x) (InvalidField ''tool_fragment'')) (\<lambda>t. Ok (Some t)))"

definition fragment_length :: "string option \<Rightarrow> nat" where
  "fragment_length t = (case t of Some s \<Rightarrow> length s | None \<Rightarrow> 0)"

definition append_fragment :: "nat option \<Rightarrow> string option \<Rightarrow> string \<Rightarrow> ir_error + string" where
  "append_fragment limit new old =
     (case new of
        None \<Rightarrow> Ok old
      | Some t \<Rightarrow>
          if (case limit of Some n \<Rightarrow> length t > n - length old | None \<Rightarrow> False) then Err SizeLimit else Ok (old @ t))"

definition argument_room :: "string option \<Rightarrow> chat_emitting \<Rightarrow> ir_error + chat_emitting" where
  "argument_room arguments em =
     (case arguments of
        None \<Rightarrow> Ok em
      | Some a \<Rightarrow>
          if length a > max_delta_bytes default_limits \<or>
             length a > max_argument_bytes default_limits - cs_argument_bytes (fst em)
          then Err SizeLimit
          else Ok (chat_set (\<lambda>st. st\<lparr>cs_argument_bytes := cs_argument_bytes st + length a\<rparr>) em))"

definition extend_fragments ::
  "json \<Rightarrow> string option \<Rightarrow> string option \<Rightarrow> string option \<Rightarrow> tool_fragments \<Rightarrow> ir_error + tool_fragments" where
  "extend_fragments delta i name arguments call =
     and_then (if present delta ''type'' then
         (if str_at delta ''type'' \<noteq> Some ''function'' then Err UnsupportedFeature else Ok (call\<lparr>tf_function_type := True\<rparr>))
       else Ok call) (\<lambda>call.
     and_then (append_fragment (Some 512) i (tf_id call)) (\<lambda>i.
     and_then (append_fragment (Some 64) name (tf_name call)) (\<lambda>name.
     and_then (append_fragment None arguments (tf_arguments call)) (\<lambda>arguments.
       Ok (call\<lparr>tf_id := i, tf_name := name, tf_arguments := arguments\<rparr>)))))"

definition delta_index :: "json \<Rightarrow> ir_error + nat" where
  "delta_index delta =
     and_then (ok_or (Option.bind (jget delta ''index'') as_u64) (InvalidField ''tool_index'')) (\<lambda>n.
       if unat n < max_items default_limits then Ok (unat n) else Err (InvalidField ''tool_index''))"

definition chat_tool_delta :: "chat_emitting \<Rightarrow> json \<Rightarrow> ir_error + chat_emitting" where
  "chat_tool_delta em delta =
     and_then (known_fields delta [''index'', ''id'', ''type'', ''function'']) (\<lambda>_.
     and_then (delta_index delta) (\<lambda>index.
     let calls = cs_calls (fst em) in
     if fmlookup calls index = None \<and>
        fcard (fmdom calls) + (if cs_text (fst em) \<noteq> None then 1 else 0) \<ge> max_items default_limits
     then Err SizeLimit
     else
       let f = (if present delta ''function'' then jget delta ''function'' else None) in
       and_then (case f of Some v \<Rightarrow> known_fields v [''name'', ''arguments''] | None \<Rightarrow> Ok ()) (\<lambda>_.
       and_then (fragment (jget delta ''id'')) (\<lambda>i.
       and_then (fragment (Option.bind f (\<lambda>v. jget v ''name''))) (\<lambda>name.
       and_then (fragment (Option.bind f (\<lambda>v. jget v ''arguments''))) (\<lambda>arguments.
       and_then (chat_reserve (fragment_length i + fragment_length name + fragment_length arguments) em) (\<lambda>em.
       and_then (argument_room arguments em) (\<lambda>em.
       and_then (extend_fragments delta i name arguments
           (case fmlookup calls index of Some c \<Rightarrow> c | None \<Rightarrow> no_fragments)) (\<lambda>call.
         Ok (chat_set (\<lambda>st. st\<lparr>cs_calls := fmupd index call (cs_calls st)\<rparr>) em))))))))))"

section \<open>The end of the message\<close>

definition flushed_call :: "nat \<times> nat \<times> tool_fragments \<Rightarrow> ir_error + json" where
  "flushed_call = (\<lambda>(expected, index, call).
     if expected \<noteq> index \<or> \<not> tf_function_type call then Err InvalidEventOrder
     else Ok (obj [(''id'', JString (tf_id call)), (''type'', JString ''function''),
       (''function'', obj [(''name'', JString (tf_name call)), (''arguments'', JString (tf_arguments call))])]))"

definition flush_source :: "chat_stream \<Rightarrow> json list \<Rightarrow> json" where
  "flush_source st calls =
     obj [(''id'', json_opt (cs_id st)), (''object'', JString ''chat.completion''), (''created'', json_opt_u64 (cs_created st)),
       (''model'', JString (pc_model (cs_prepared st))),
       (''choices'', JArray [obj [(''index'', JNumber ''0''),
         (''message'', obj [(''role'', JString ''assistant''), (''content'', json_opt (cs_text st)), (''tool_calls'', JArray calls)]),
         (''finish_reason'', json_opt (cs_finish_reason st))]]),
       (''usage'', JNull)]"

definition decoded_text :: "json \<Rightarrow> string \<Rightarrow> string" where
  "decoded_text item field = (case str_at item field of Some t \<Rightarrow> t | None \<Rightarrow> [])"

definition flush_message :: "wire_env \<Rightarrow> nat \<Rightarrow> item_id \<Rightarrow> json \<Rightarrow> chat_emitting \<Rightarrow> ir_error + chat_emitting" where
  "flush_message E index item v em =
     and_then (chat_apply E (PartFinished item 0) em) (\<lambda>em.
       let part = (case as_array (json_index v ''content'') of Some (p # _) \<Rightarrow> p | _ \<Rightarrow> JNull) in
       Ok (chat_emit ''response.content_part.done'' (at_item item index [content_zero, (''part'', part)])
         (chat_emit ''response.output_text.done''
           (at_item item index [content_zero, (''text'', json_index part ''text''), (''logprobs'', JArray [])]) em)))"

definition flush_chunk ::
  "wire_env \<Rightarrow> nat \<Rightarrow> item_id \<Rightarrow> string \<Rightarrow> chat_emitting \<Rightarrow> string \<Rightarrow> ir_error + chat_emitting" where
  "flush_chunk E index item prefix em chunk =
     and_then (chat_apply E (ArgumentsDelta item chunk) em) (\<lambda>em.
       Ok (chat_emit (prefix @ ''.delta'') (at_item item index [(''delta'', JString chunk)]) em))"

definition flush_tool :: "wire_env \<Rightarrow> nat \<Rightarrow> item_id \<Rightarrow> json \<Rightarrow> chat_emitting \<Rightarrow> ir_error + chat_emitting" where
  "flush_tool E index item v em =
     (let custom = (json_index v ''type'' = JString ''custom_tool_call'');
          argument = (if custom then ''input'' else ''arguments'');
          prefix = (if custom then ''response.custom_tool_call_input'' else ''response.function_call_arguments'') in
      and_then (tool_identity_new (str_at v ''namespace'') (decoded_text v ''name'')) (\<lambda>tool.
      and_then (call_id_new (decoded_text v ''call_id'')) (\<lambda>cid.
      and_then (chat_apply E (ItemStarted item (of_nat index) (Tool tool cid (if custom then CustomKind else FunctionKind))) em) (\<lambda>em.
      let em = chat_emit ''response.output_item.added''
          (obj [(''output_index'', JNumber (nat_text index)),
            (''item'', set_field (set_field v ''status'' (JString ''in_progress'')) argument (JString []))]) em;
          t = decoded_text v argument in
      and_then (fold_result (flush_chunk E index item prefix) em (event_text_chunks t)) (\<lambda>em.
        Ok (chat_emit (prefix @ ''.done'') (at_item item index [(argument, JString t)]) em))))))"

definition flush_item :: "wire_env \<Rightarrow> chat_emitting \<Rightarrow> nat \<times> json \<Rightarrow> ir_error + chat_emitting" where
  "flush_item E em = (\<lambda>(index, v).
     and_then (item_id_new (decoded_text v ''id'')) (\<lambda>item.
     and_then (if json_index v ''type'' = JString ''message'' then flush_message E index item v em
         else flush_tool E index item v em) (\<lambda>em.
     and_then (chat_apply E (ItemFinished item) em) (\<lambda>em.
       Ok (chat_emit ''response.output_item.done'' (obj [(''output_index'', JNumber (nat_text index)), (''item'', v)]) em)))))"

definition response_items :: "json \<Rightarrow> json list" where
  "response_items response = (case as_array (json_index response ''output'') of Some items \<Rightarrow> items | None \<Rightarrow> [])"

definition chat_flush :: "wire_env \<Rightarrow> chat_emitting \<Rightarrow> ir_error + chat_emitting" where
  "chat_flush E em =
     and_then (traverse flushed_call (enumerate 0 (sorted_list_of_fmap (cs_calls (fst em))))) (\<lambda>calls.
     and_then (chat_decode E (cs_prepared (fst em)) (flush_source (fst em) calls)) (\<lambda>(response, tools).
     and_then (fold_result (flush_item E)
         (chat_set (\<lambda>st. st\<lparr>cs_prepared := (cs_prepared st)\<lparr>pc_tools := tools\<rparr>\<rparr>) em)
         (enumerate 0 (response_items response))) (\<lambda>em.
       Ok (chat_set (\<lambda>st. st\<lparr>cs_final_response := Some response\<rparr>) em))))"

section \<open>Chunks\<close>

definition on_chat_done :: "wire_env \<Rightarrow> chat_stream \<Rightarrow> ir_error + chat_emitting" where
  "on_chat_done E st =
     and_then (ok_or (cs_finish_reason st) InvalidEventOrder) (\<lambda>finish.
     and_then (chat_terminal (cs_prepared st) finish (fcard (fmdom (cs_calls st)))) (\<lambda>(terminal, reason).
     and_then (ok_or (cs_final_response st) InvalidEventOrder) (\<lambda>response.
     and_then (chat_apply E (Finished terminal reason) (st\<lparr>cs_final_response := None\<rparr>, [])) (\<lambda>em.
       let response = set_field response ''usage'' (case cs_usage st of Some u \<Rightarrow> u | None \<Rightarrow> JNull) in
       Ok (chat_set (\<lambda>st. st\<lparr>cs_done := True\<rparr>)
         (chat_emit (if terminal = terminal.Completed then ''response.completed'' else ''response.incomplete'')
           (obj [(''response'', response)]) em))))))"

definition chunk_checks :: "chat_stream \<Rightarrow> json \<Rightarrow> ir_error + string \<times> u64" where
  "chunk_checks st v =
     and_then (known_fields v [''id'', ''object'', ''created'', ''model'', ''choices'', ''usage'', ''system_fingerprint'',
         ''service_tier'', ''obfuscation'', ''metadata'', ''moderation'']) (\<lambda>_.
     if list_ex (present v) [''metadata'', ''moderation''] then Err UnsupportedFeature else
     and_then (json_string v ''object'') (\<lambda>kind.
     if kind \<noteq> ''chat.completion.chunk'' then Err (InvalidField ''chat_chunk'') else
     and_then (json_string v ''model'') (\<lambda>model.
     if model \<noteq> pc_model (cs_prepared st) then Err (InvalidField ''chat_chunk'') else
     and_then (json_string v ''id'') (\<lambda>i.
     and_then (ok_or (Option.bind (jget v ''created'') as_u64) (InvalidField ''created'')) (\<lambda>created.
       Ok (i, created))))))"

definition started_response :: "chat_stream \<Rightarrow> response_id \<Rightarrow> u64 \<Rightarrow> json" where
  "started_response st rid created =
     obj [(''response'', obj [(''id'', JString (response_id_str rid)), (''object'', JString ''response''),
       (''created_at'', json_u64 created), (''model'', JString (pc_model (cs_prepared st))), (''status'', JString ''in_progress''),
       (''output'', JArray []), (''usage'', JNull), (''error'', JNull), (''incomplete_details'', JNull)])]"

definition chunk_identity :: "wire_env \<Rightarrow> string \<Rightarrow> u64 \<Rightarrow> chat_emitting \<Rightarrow> ir_error + chat_emitting" where
  "chunk_identity E i created em =
     (case cs_id (fst em) of
        Some existing \<Rightarrow>
          if existing \<noteq> i \<or> cs_created (fst em) \<noteq> Some created then Err (InvalidField ''chat_chunk_identity'') else Ok em
      | None \<Rightarrow>
          and_then (response_id_new (''resp_'' @ i)) (\<lambda>rid.
          and_then (chat_apply E (Started rid) em) (\<lambda>em.
            let em = chat_set (\<lambda>st. st\<lparr>cs_id := Some i, cs_created := Some created\<rparr>) em in
            Ok (chat_emit ''response.created'' (started_response (fst em) rid created) em))))"

definition chat_finish_field :: "wire_env \<Rightarrow> json \<Rightarrow> chat_emitting \<Rightarrow> ir_error + chat_emitting" where
  "chat_finish_field E choice em =
     (if \<not> present choice ''finish_reason'' then Ok em
      else and_then (ok_or (str_at choice ''finish_reason'') (InvalidField ''finish_reason'')) (\<lambda>finish.
        chat_flush E (chat_set (\<lambda>st. st\<lparr>cs_finish_reason := Some finish\<rparr>) em)))"

definition choice_delta :: "json \<Rightarrow> ir_error + json" where
  "choice_delta choice =
     and_then (known_fields choice [''index'', ''delta'', ''finish_reason'', ''logprobs'']) (\<lambda>_.
     if Option.bind (jget choice ''index'') as_u64 \<noteq> Some 0 \<or> present choice ''logprobs'' then Err UnsupportedFeature else
     and_then (ok_or (jget choice ''delta'') (InvalidField ''delta'')) (\<lambda>delta.
     and_then (known_fields delta [''role'', ''content'', ''tool_calls'', ''refusal'', ''annotations'', ''audio'', ''function_call'']) (\<lambda>_.
     if present delta ''role'' \<and> str_at delta ''role'' \<noteq> Some ''assistant'' then Err (InvalidField ''role'')
     else if unsupported_message delta then Err UnsupportedFeature
     else Ok delta)))"

definition on_chat_choice :: "wire_env \<Rightarrow> json \<Rightarrow> chat_emitting \<Rightarrow> ir_error + chat_emitting" where
  "on_chat_choice E choice em =
     and_then (choice_delta choice) (\<lambda>delta.
     and_then (if present delta ''content''
         then and_then (ok_or (str_at delta ''content'') UnsupportedFeature) (\<lambda>t. chat_text_delta E t em) else Ok em) (\<lambda>em.
     and_then (if present delta ''tool_calls''
         then and_then (ok_or (Option.bind (jget delta ''tool_calls'') as_array) (InvalidField ''tool_calls''))
           (fold_result chat_tool_delta em) else Ok em) (\<lambda>em.
       chat_finish_field E choice em)))"

definition on_chat_choices :: "wire_env \<Rightarrow> json \<Rightarrow> chat_emitting \<Rightarrow> ir_error + chat_emitting" where
  "on_chat_choices E v em =
     and_then (ok_or (Option.bind (jget v ''choices'') as_array) (InvalidField ''choices'')) (\<lambda>choices.
       case choices of
         [] \<Rightarrow> if cs_finish_reason (fst em) = None \<or> \<not> present v ''usage'' then Err InvalidEventOrder else Ok em
       | [choice] \<Rightarrow> if cs_finish_reason (fst em) \<noteq> None then Err InvalidEventOrder else on_chat_choice E choice em
       | _ \<Rightarrow> Err InvalidEventOrder)"

definition on_chat_usage :: "wire_env \<Rightarrow> json \<Rightarrow> chat_emitting \<Rightarrow> ir_error + chat_emitting" where
  "on_chat_usage E v em =
     (if \<not> present v ''usage'' then Ok em
      else
        and_then (chat_usage (json_index v ''usage'')) (\<lambda>u.
        and_then (chat_apply E (metrics_event u) em) (\<lambda>em.
          Ok (chat_set (\<lambda>st. st\<lparr>cs_usage := Some u\<rparr>) em))))"

definition chat_convert :: "wire_env \<Rightarrow> chat_stream \<Rightarrow> sse_event \<Rightarrow> ir_error + chat_emitting" where
  "chat_convert E st event =
     (if se_event event \<noteq> ''message'' then Err (InvalidField ''chat_stream_event'')
      else if length (se_data event) > cs_limit st then Err SizeLimit
      else if se_data event = ''[DONE]'' then on_chat_done E st
      else
        and_then (json_decode (we_parse E) (se_data event)) (\<lambda>v.
        and_then (chunk_checks st v) (\<lambda>(i, created).
        and_then (chunk_identity E i created (st, [])) (\<lambda>em.
        and_then (on_chat_choices E v em) (\<lambda>em.
          on_chat_usage E v em)))))"

definition chat_stream_event :: "wire_env \<Rightarrow> chat_stream \<Rightarrow> sse_event \<Rightarrow> (ir_error + json list) \<times> chat_stream" where
  "chat_stream_event E st event =
     (if cs_failed st \<or> cs_done st then (Err InvalidEventOrder, st)
      else case chat_convert E st event of
        Inl e \<Rightarrow> (Err e, st\<lparr>cs_failed := True\<rparr>)
      | Inr (st', out) \<Rightarrow> (Ok out, st'))"

definition chat_stream_complete :: "chat_stream \<Rightarrow> bool" where
  "chat_stream_complete st \<longleftrightarrow> cs_done st \<and> \<not> cs_failed st"

definition chat_stream_finish :: "chat_stream \<Rightarrow> ir_error + unit" where
  "chat_stream_finish st = (if chat_stream_complete st then Ok () else Err InvalidEventOrder)"

section \<open>What every event keeps\<close>

text \<open>The items of a response show the text that was streamed for them.\<close>

definition shows_streamed :: "json list \<Rightarrow> json \<Rightarrow> bool" where
  "shows_streamed events response \<longleftrightarrow>
     is_object response \<and> jget response ''output'' = Some (JArray (response_items response)) \<and>
     (\<forall>i < length (response_items response). str_at (response_items response ! i) ''type'' = Some ''message'' \<longrightarrow>
        output_text (response_items response ! i) = Some (text_of i events))"

text \<open>Between inputs: events are numbered from where the input began, the buffer is within its limit, the
  text deltas are the collected text, and a final response shows them.\<close>

definition chat_inv :: "json list \<Rightarrow> u64 \<Rightarrow> chat_emitting \<Rightarrow> bool" where
  "chat_inv seen base em \<longleftrightarrow>
     map sequence_of (snd em) = numbers_from base (length (snd em)) \<and>
     cs_sequence (fst em) = base + of_nat (length (snd em)) \<and>
     cs_buffered (fst em) \<le> cs_limit (fst em) \<and> \<not> cs_done (fst em) \<and>
     (\<forall>i. text_of i (seen @ snd em) = (if i = 0 then (case cs_text (fst em) of Some t \<Rightarrow> t | None \<Rightarrow> []) else [])) \<and>
     (\<forall>r. cs_final_response (fst em) = Some r \<longrightarrow> cs_finish_reason (fst em) \<noteq> None \<and> shows_streamed (seen @ snd em) r)"

lemma chat_inv_emit:
  assumes "chat_inv seen base em" and "is_object v" and "kind \<noteq> ''response.output_text.delta''"
  shows "chat_inv seen base (chat_emit kind v em)"
proof -
  obtain st out where em: "em = (st, out)" by (cases em)
  have "text_of i (seen @ out @ [numbered kind (cs_sequence st) v]) = text_of i (seen @ out)" for i
    using assms(2,3) by (simp add: delta_at_other)
  then show ?thesis
    using assms(1,2) em
    by (simp add: chat_inv_def chat_emit_def numbers_from_add [of base "length out" 1, simplified] numbers_from_def
        sequence_of_numbered shows_streamed_def)
qed

text \<open>Changes of the state that the invariant does not mention.\<close>

lemma chat_inv_same:
  assumes "chat_inv seen base em" and "snd em' = snd em" and "cs_sequence (fst em') = cs_sequence (fst em)"
    and "cs_buffered (fst em') = cs_buffered (fst em)" and "cs_limit (fst em') = cs_limit (fst em)"
    and "cs_text (fst em') = cs_text (fst em)" and "cs_done (fst em') = cs_done (fst em)" and "cs_final_response (fst em') \<in> {None, cs_final_response (fst em)}"
    and "cs_finish_reason (fst em) \<noteq> None \<longrightarrow> cs_finish_reason (fst em') \<noteq> None"
  shows "chat_inv seen base em'"
  using assms by (auto simp: chat_inv_def)

lemma chat_set_simps [simp]: "fst (chat_set f em) = f (fst em)" "snd (chat_set f em) = snd em"
  by (cases em; simp add: chat_set_def)+

lemma chat_emit_state [simp]: "fst (chat_emit kind v em) = (fst em)\<lparr>cs_sequence := cs_sequence (fst em) + 1\<rparr>"
  by (cases em) (simp add: chat_emit_def)

lemma event_objects [simp]:
  "is_object (message_added item)" "is_object (text_delta_event item i t)" "is_object (started_response st rid created)"
  by (simp_all add: message_added_def text_delta_event_def started_response_def)

lemma chat_apply_Ok:
  assumes "chat_apply E e em = Ok em'"
  obtains v where "em' = chat_set (\<lambda>st. st\<lparr>cs_validator := v\<rparr>) em"
  using assms by (cases em) (auto simp: chat_apply_def chat_set_def)

lemma chat_inv_apply: "chat_apply E e em = Ok em' \<Longrightarrow> chat_inv seen base em \<Longrightarrow> chat_inv seen base em'"
  by (erule chat_apply_Ok) (auto elim!: chat_inv_same)

lemma chat_reserve_Ok:
  assumes "chat_reserve n em = Ok em'"
  obtains "em' = chat_set (\<lambda>st. st\<lparr>cs_buffered := cs_buffered st + n\<rparr>) em"
    "cs_buffered (fst em) \<le> cs_limit (fst em) \<Longrightarrow> cs_buffered (fst em) + n \<le> cs_limit (fst em)"
  using assms by (cases em) (auto simp: chat_reserve_def chat_set_def split: if_splits)

lemma chat_inv_reserve: "chat_reserve n em = Ok em' \<Longrightarrow> chat_inv seen base em \<Longrightarrow> chat_inv seen base em'"
  by (erule chat_reserve_Ok) (auto simp: chat_inv_def)

lemma start_chat_text_inv:
  assumes "start_chat_text E item em = Ok em'" and "chat_inv seen base em" and "cs_final_response (fst em) = None"
  shows "chat_inv seen base em' \<and> cs_final_response (fst em') = None"
proof (cases "cs_text (fst em) = None")
  case True
  with assms(1) obtain em1 em2 where s: "chat_apply E (ItemStarted item 0 Message) em = Ok em1"
      "chat_apply E (PartStarted item 0 Text) em1 = Ok em2"
      "em' = chat_emit ''response.content_part.added'' (at_item item 0 [content_zero, (''part'', empty_part)])
        (chat_emit ''response.output_item.added'' (message_added item) (chat_set (\<lambda>st. st\<lparr>cs_text := Some []\<rparr>) em2))"
    by (auto simp: start_chat_text_def split: if_splits)
  have none: "cs_text (fst em2) = None" "cs_final_response (fst em2) = None"
    using True assms(3) s(1,2) by (auto elim!: chat_apply_Ok)
  have "chat_inv seen base em2" using s(1,2) assms(2) chat_inv_apply by blast
  then have "chat_inv seen base (chat_set (\<lambda>st. st\<lparr>cs_text := Some []\<rparr>) em2)" using none by (simp add: chat_inv_def)
  then show ?thesis
    using s(3) none(2) by (simp add: chat_inv_emit)
next
  case False
  with assms show ?thesis by (auto simp: start_chat_text_def)
qed

lemma chat_text_delta_inv:
  assumes "chat_text_delta E t em = Ok em'" and "chat_inv seen base em" and "cs_final_response (fst em) = None"
  shows "chat_inv seen base em' \<and> cs_final_response (fst em') = None"
proof -
  from assms(1) obtain em1 item em2 em3 where s: "chat_reserve (length t) em = Ok em1" "start_chat_text E item em1 = Ok em2"
      "chat_apply E (TextDelta item 0 t) em2 = Ok em3"
      "em' = (let em = chat_set (\<lambda>st. st\<lparr>cs_text := Some ((case cs_text st of Some s \<Rightarrow> s | None \<Rightarrow> []) @ t)\<rparr>) em3 in
        if t \<noteq> [] then chat_emit ''response.output_text.delta'' (text_delta_event item 0 t) em else em)"
    by (auto simp: chat_text_delta_def Let_def)
  have "chat_inv seen base em1" "cs_final_response (fst em1) = None"
    using chat_inv_reserve [OF s(1)] assms(2,3) s(1) by (auto elim!: chat_reserve_Ok)
  from start_chat_text_inv [OF s(2) this] have "chat_inv seen base em2" "cs_final_response (fst em2) = None" by auto
  then have 3: "chat_inv seen base em3" "cs_final_response (fst em3) = None"
    using chat_inv_apply [OF s(3)] s(3) by (auto elim!: chat_apply_Ok)
  obtain st out where em3: "em3 = (st, out)" by (cases em3)
  show ?thesis
    using 3 s(4) em3
    by (auto simp: chat_inv_def Let_def chat_emit_def chat_set_def numbers_from_add [of base "length out" 1, simplified]
        numbers_from_def sequence_of_numbered delta_at_text_delta split: option.splits)
qed

lemma chat_tool_delta_inv:
  assumes "chat_tool_delta em delta = Ok em'" and "chat_inv seen base em"
  shows "chat_inv seen base em' \<and> cs_final_response (fst em') = cs_final_response (fst em)"
proof -
  from assms(1) obtain n arguments index call em1 em2 where s: "chat_reserve n em = Ok em1" "argument_room arguments em1 = Ok em2"
      "em' = chat_set (\<lambda>st. st\<lparr>cs_calls := fmupd index call (cs_calls st)\<rparr>) em2"
    by (auto simp: chat_tool_delta_def Let_def split: if_splits)
  have "chat_inv seen base em1" using chat_inv_reserve [OF s(1) assms(2)] .
  moreover have "cs_final_response (fst em1) = cs_final_response (fst em)" using s(1) by (auto elim!: chat_reserve_Ok)
  ultimately have "chat_inv seen base em2" "cs_final_response (fst em2) = cs_final_response (fst em)"
    using s(2) by (auto simp: argument_room_def split: option.splits if_splits elim!: chat_inv_same)
  with s(3) show ?thesis by (auto elim!: chat_inv_same)
qed

section \<open>The end of the message\<close>

text \<open>What the projection of decoded items keeps.\<close>

definition flush_keeps :: "chat_emitting \<Rightarrow> chat_emitting \<Rightarrow> bool" where
  "flush_keeps em em' \<longleftrightarrow>
     cs_text (fst em') = cs_text (fst em) \<and> cs_final_response (fst em') = cs_final_response (fst em) \<and>
     cs_finish_reason (fst em') = cs_finish_reason (fst em) \<and> cs_failed (fst em') = cs_failed (fst em) \<and>
     cs_done (fst em') = cs_done (fst em) \<and> (\<forall>seen base. chat_inv seen base em \<longrightarrow> chat_inv seen base em')"

lemma flush_keeps_trans: "flush_keeps a b \<Longrightarrow> flush_keeps b c \<Longrightarrow> flush_keeps a c"
  by (simp add: flush_keeps_def)

lemma flush_keeps_emit: "is_object v \<Longrightarrow> kind \<noteq> ''response.output_text.delta'' \<Longrightarrow> flush_keeps em (chat_emit kind v em)"
  by (simp add: flush_keeps_def chat_inv_emit)

lemma flush_keeps_apply: "chat_apply E e em = Ok em' \<Longrightarrow> flush_keeps em em'"
  using chat_inv_apply by (auto simp: flush_keeps_def elim!: chat_apply_Ok)

lemma flush_keeps_then_emit:
  "flush_keeps em em' \<Longrightarrow> is_object v \<Longrightarrow> kind \<noteq> ''response.output_text.delta'' \<Longrightarrow> flush_keeps em (chat_emit kind v em')"
  using flush_keeps_trans flush_keeps_emit by blast

lemma flush_message_keeps: "flush_message E index item v em = Ok em' \<Longrightarrow> flush_keeps em em'"
  by (auto simp: flush_message_def Let_def intro!: flush_keeps_then_emit dest: flush_keeps_apply)

lemma flush_chunks_keep:
  assumes "fold_result (flush_chunk E index item prefix) em chunks = Ok em'" and "prefix @ ''.delta'' \<noteq> ''response.output_text.delta''"
  shows "flush_keeps em em'"
  using assms(1)
proof (induction chunks arbitrary: em)
  case Nil
  then show ?case by (simp add: flush_keeps_def)
next
  case (Cons c chunks)
  then obtain em1 where "flush_chunk E index item prefix em c = Ok em1" "fold_result (flush_chunk E index item prefix) em1 chunks = Ok em'"
    by auto
  moreover from this(1) have "flush_keeps em em1"
    using assms(2) by (auto simp: flush_chunk_def intro!: flush_keeps_then_emit dest: flush_keeps_apply)
  ultimately show ?case using Cons.IH flush_keeps_trans by blast
qed

lemma flush_tool_keeps:
  assumes "flush_tool E index item v em = Ok em'"
  shows "flush_keeps em em'"
proof -
  let ?custom = "json_index v ''type'' = JString ''custom_tool_call''"
  let ?prefix = "if ?custom then ''response.custom_tool_call_input'' else ''response.function_call_arguments''"
  let ?argument = "if ?custom then ''input'' else ''arguments''"
  from assms obtain kind em1 em2 where s: "chat_apply E kind em = Ok em1"
      "fold_result (flush_chunk E index item ?prefix)
        (chat_emit ''response.output_item.added''
          (obj [(''output_index'', JNumber (nat_text index)),
            (''item'', set_field (set_field v ''status'' (JString ''in_progress'')) ?argument (JString []))]) em1)
        (event_text_chunks (decoded_text v ?argument)) = Ok em2"
      "em' = chat_emit (?prefix @ ''.done'') (at_item item index [(?argument, JString (decoded_text v ?argument))]) em2"
    unfolding flush_tool_def Let_def and_then_eq_Inr by (elim exE conjE) blast
  have names: "?prefix @ ''.delta'' \<noteq> ''response.output_text.delta''" "?prefix @ ''.done'' \<noteq> ''response.output_text.delta''"
    by auto
  have "flush_keeps em em2"
    by (rule flush_keeps_trans [OF flush_keeps_then_emit flush_chunks_keep [OF s(2) names(1)]])
      (simp_all add: flush_keeps_apply [OF s(1)])
  then show ?thesis unfolding s(3) by (rule flush_keeps_then_emit) (use names(2) in simp_all)
qed

lemma flush_item_keeps:
  assumes "flush_item E em x = Ok em'"
  shows "flush_keeps em em'"
proof -
  obtain index v where x: "x = (index, v)" by (cases x)
  with assms obtain item em1 em2 where s:
    "(if json_index v ''type'' = JString ''message'' then flush_message E index item v em else flush_tool E index item v em) = Ok em1"
    "chat_apply E (ItemFinished item) em1 = Ok em2"
    "em' = chat_emit ''response.output_item.done'' (obj [(''output_index'', JNumber (nat_text index)), (''item'', v)]) em2"
    by (auto simp: flush_item_def)
  from s(1) have "flush_keeps em em1" using flush_message_keeps flush_tool_keeps by (auto split: if_splits)
  with flush_keeps_apply [OF s(2)] s(3) show ?thesis by (auto intro!: flush_keeps_then_emit dest: flush_keeps_trans)
qed

lemma flush_items_keep: "fold_result (flush_item E) em xs = Ok em' \<Longrightarrow> flush_keeps em em'"
proof (induction xs arbitrary: em)
  case Nil
  then show ?case by (simp add: flush_keeps_def)
next
  case (Cons x xs)
  then obtain em1 where "flush_item E em x = Ok em1" "fold_result (flush_item E) em1 xs = Ok em'" by auto
  with Cons.IH flush_item_keeps flush_keeps_trans show ?case by blast
qed

text \<open>The completion that is decoded at the end says what was collected.\<close>

lemma flush_source_items:
  assumes "only_choice (flush_source st calls) = Ok choice" and "jget choice ''message'' = Some m"
  shows "message_items m = (case cs_text st of Some t \<Rightarrow> [Inl t] | None \<Rightarrow> []) @ map Inr calls"
  using assms
  by (auto simp: only_choice_def flush_source_def jget_obj message_items_def calls_of_def str_at_def json_opt_def
      split: if_splits option.splits)

lemma decoded_shows_text:
  assumes "chat_decode E p (flush_source st calls) = Ok (response, tools)"
  shows "\<exists>items. jget response ''output'' = Some (JArray items) \<and>
    (\<forall>i < length items. str_at (items ! i) ''type'' = Some ''message'' \<longrightarrow>
       i = 0 \<and> cs_text st \<noteq> None \<and> output_text (items ! i) = cs_text st)"
proof -
  from chat_decode_shows [OF assms] obtain choice m outs where f:
    "only_choice (flush_source st calls) = Ok choice" "jget choice ''message'' = Some m"
    "jget response ''output'' = Some (JArray outs)" "list_all2 (chat_shown E (pc_tools p)) (message_items m) outs"
    by blast
  have "i = 0 \<and> cs_text st \<noteq> None \<and> output_text (outs ! i) = cs_text st"
    if i: "i < length outs" "str_at (outs ! i) ''type'' = Some ''message''" for i
  proof -
    let ?texts = "(case cs_text st of Some t \<Rightarrow> [Inl t] | None \<Rightarrow> []) :: (string + json) list"
    from f(4) i(1) have shown: "chat_shown E (pc_tools p) (message_items m ! i) (outs ! i)" "i < length (message_items m)"
      by (auto simp: list_all2_conv_all_nth)
    have "i < length ?texts"
    proof (rule ccontr)
      assume "\<not> i < length ?texts"
      then have "\<exists>c. message_items m ! i = Inr c"
        using flush_source_items [OF f(1,2)] shown(2) by (simp add: nth_append)
      with shown(1) i(2) show False by auto
    qed
    with shown(1) flush_source_items [OF f(1,2)] show ?thesis by (auto split: option.splits)
  qed
  with f(3) show ?thesis by blast
qed

lemma chat_flush_inv:
  assumes "chat_flush E em = Ok em'" and "chat_inv seen base em" and "cs_finish_reason (fst em) \<noteq> None"
  shows "chat_inv seen base em'"
proof -
  from assms(1) obtain calls response tools em1 where s:
    "chat_decode E (cs_prepared (fst em)) (flush_source (fst em) calls) = Ok (response, tools)"
    "fold_result (flush_item E) (chat_set (\<lambda>st. st\<lparr>cs_prepared := (cs_prepared st)\<lparr>pc_tools := tools\<rparr>\<rparr>) em)
       (enumerate 0 (response_items response)) = Ok em1"
    "em' = chat_set (\<lambda>st. st\<lparr>cs_final_response := Some response\<rparr>) em1"
    by (auto simp: chat_flush_def)
  have "chat_inv seen base (chat_set (\<lambda>st. st\<lparr>cs_prepared := (cs_prepared st)\<lparr>pc_tools := tools\<rparr>\<rparr>) em)"
    using assms(2) by (auto elim!: chat_inv_same)
  with flush_items_keep [OF s(2)] have 1: "chat_inv seen base em1" "cs_text (fst em1) = cs_text (fst em)"
      "cs_finish_reason (fst em1) = cs_finish_reason (fst em)"
    by (auto simp: flush_keeps_def)
  from decoded_shows_text [OF s(1)] obtain items where items: "jget response ''output'' = Some (JArray items)"
      "\<And>i. i < length items \<Longrightarrow> str_at (items ! i) ''type'' = Some ''message'' \<Longrightarrow>
         i = 0 \<and> cs_text (fst em) \<noteq> None \<and> output_text (items ! i) = cs_text (fst em)"
    by blast
  have "is_object response" using items(1) by (cases response) simp_all
  moreover have "response_items response = items" using items(1) by (simp add: response_items_def json_index_def)
  ultimately have "shows_streamed (seen @ snd em1) response"
    using items 1(1,2) by (fastforce simp: shows_streamed_def chat_inv_def)
  with 1 assms(3) s(3) show ?thesis by (simp add: chat_inv_def)
qed

section \<open>Whole streams\<close>

lemma chunk_identity_inv:
  assumes "chunk_identity E i created em = Ok em'" and "chat_inv seen base em"
  shows "chat_inv seen base em' \<and> cs_final_response (fst em') = cs_final_response (fst em) \<and>
    cs_finish_reason (fst em') = cs_finish_reason (fst em)"
proof (cases "cs_id (fst em)")
  case None
  with assms(1) obtain rid em1 where s: "chat_apply E (Started rid) em = Ok em1"
      "em' = (let em = chat_set (\<lambda>st. st\<lparr>cs_id := Some i, cs_created := Some created\<rparr>) em1 in
         chat_emit ''response.created'' (started_response (fst em) rid created) em)"
    by (auto simp: chunk_identity_def Let_def)
  have "chat_inv seen base (chat_set (\<lambda>st. st\<lparr>cs_id := Some i, cs_created := Some created\<rparr>) em1)"
    using chat_inv_apply [OF s(1) assms(2)] by (auto elim!: chat_inv_same)
  then show ?thesis using s by (auto simp: Let_def chat_inv_emit elim!: chat_apply_Ok)
next
  case (Some j)
  with assms show ?thesis by (auto simp: chunk_identity_def split: if_splits)
qed

lemma chat_tool_deltas_inv:
  "fold_result chat_tool_delta em ds = Ok em' \<Longrightarrow> chat_inv seen base em \<Longrightarrow>
     chat_inv seen base em' \<and> cs_final_response (fst em') = cs_final_response (fst em)"
proof (induction ds arbitrary: em)
  case (Cons d ds)
  then obtain em1 where s: "chat_tool_delta em d = Ok em1" "fold_result chat_tool_delta em1 ds = Ok em'" by auto
  from chat_tool_delta_inv [OF s(1) Cons.prems(2)] Cons.IH [OF s(2)] show ?case by simp
qed simp

lemma on_chat_choice_inv:
  assumes "on_chat_choice E choice em = Ok em'" and "chat_inv seen base em" and "cs_final_response (fst em) = None"
  shows "chat_inv seen base em'"
proof -
  from assms(1) obtain delta em1 em2 where s:
    "(if present delta ''content'' then and_then (ok_or (str_at delta ''content'') UnsupportedFeature) (\<lambda>t. chat_text_delta E t em)
      else Ok em) = Ok em1"
    "(if present delta ''tool_calls''
      then and_then (ok_or (Option.bind (jget delta ''tool_calls'') as_array) (InvalidField ''tool_calls'')) (fold_result chat_tool_delta em1)
      else Ok em1) = Ok em2"
    "chat_finish_field E choice em2 = Ok em'"
    unfolding on_chat_choice_def and_then_eq_Inr by (elim exE conjE) blast
  from s(1) assms(2,3) have 1: "chat_inv seen base em1" "cs_final_response (fst em1) = None"
    by (auto split: if_splits dest: chat_text_delta_inv)
  from s(2) 1 have 2: "chat_inv seen base em2" "cs_final_response (fst em2) = None"
    by (auto split: if_splits dest: chat_tool_deltas_inv)
  show ?thesis
  proof (cases "present choice ''finish_reason''")
    case True
    with s(3) obtain finish where "chat_flush E (chat_set (\<lambda>st. st\<lparr>cs_finish_reason := Some finish\<rparr>) em2) = Ok em'"
      by (auto simp: chat_finish_field_def)
    moreover have "chat_inv seen base (chat_set (\<lambda>st. st\<lparr>cs_finish_reason := Some finish\<rparr>) em2)"
      using 2(1) by (auto elim!: chat_inv_same)
    ultimately show ?thesis using chat_flush_inv by fastforce
  qed (use s(3) 2 in \<open>simp add: chat_finish_field_def\<close>)
qed

lemma on_chat_choices_inv:
  assumes "on_chat_choices E v em = Ok em'" and "chat_inv seen base em"
  shows "chat_inv seen base em'"
proof -
  from assms(1) obtain choices where c: "(case choices of
       [] \<Rightarrow> if cs_finish_reason (fst em) = None \<or> \<not> present v ''usage'' then Err InvalidEventOrder else Ok em
     | [choice] \<Rightarrow> if cs_finish_reason (fst em) \<noteq> None then Err InvalidEventOrder else on_chat_choice E choice em
     | _ \<Rightarrow> Err InvalidEventOrder) = Ok em'"
    by (auto simp: on_chat_choices_def)
  have "cs_final_response (fst em) = None" if "cs_finish_reason (fst em) = None"
    using assms(2) that by (auto simp: chat_inv_def)
  with c assms(2) show ?thesis
    by (auto split: list.splits if_splits dest: on_chat_choice_inv)
qed

lemma on_chat_usage_inv:
  assumes "on_chat_usage E v em = Ok em'" and "chat_inv seen base em"
  shows "chat_inv seen base em'"
proof (cases "present v ''usage''")
  case True
  with assms(1) obtain u em1 where s: "chat_apply E (metrics_event u) em = Ok em1" "em' = chat_set (\<lambda>st. st\<lparr>cs_usage := Some u\<rparr>) em1"
    by (auto simp: on_chat_usage_def)
  from chat_inv_apply [OF s(1) assms(2)] s(2) show ?thesis by (auto elim!: chat_inv_same)
qed (use assms in \<open>simp add: on_chat_usage_def\<close>)

text \<open>The last event: it carries the response that was decoded at the end, and its numbers and text go on.\<close>

definition shows_final :: "json list \<Rightarrow> bool" where
  "shows_final seen \<longleftrightarrow>
     (\<exists>pre e response. seen = pre @ [e] \<and> jget e ''response'' = Some response \<and> shows_streamed seen response)"

lemma on_chat_done_inv:
  assumes "on_chat_done E st = Ok (st', out)" and "chat_inv seen base (st, [])"
  shows "chat_inv seen base (st'\<lparr>cs_done := False\<rparr>, out) \<and> shows_final (seen @ out)"
proof -
  from assms(1) obtain response terminal reason em kind where s: "cs_final_response st = Some response"
      "kind = (if terminal = terminal.Completed then ''response.completed'' else ''response.incomplete'')"
      "chat_apply E (Finished terminal reason) (st\<lparr>cs_final_response := None\<rparr>, []) = Ok em"
      "(st', out) = chat_set (\<lambda>st. st\<lparr>cs_done := True\<rparr>) (chat_emit kind
        (obj [(''response'', set_field response ''usage'' (case cs_usage st of Some u \<Rightarrow> u | None \<Rightarrow> JNull))]) em)"
    by (auto simp: on_chat_done_def Let_def)
  let ?r = "set_field response ''usage'' (case cs_usage st of Some u \<Rightarrow> u | None \<Rightarrow> JNull)"
  have 0: "chat_inv seen base (st\<lparr>cs_final_response := None\<rparr>, [])" using assms(2) by (auto elim!: chat_inv_same)
  have "snd em = []" using s(3) by (auto elim!: chat_apply_Ok)
  then obtain st1 where em: "em = (st1, [])" by (cases em) simp
  let ?em = "chat_emit kind (obj [(''response'', ?r)]) em"
  have 1: "chat_inv seen base ?em"
    using chat_inv_apply [OF s(3) 0] s(2) by (auto intro!: chat_inv_emit)
  have st': "st' = (fst ?em)\<lparr>cs_done := True\<rparr>" "out = snd ?em"
    using arg_cong [OF s(4), of fst] arg_cong [OF s(4), of snd] by simp_all
  have "chat_inv seen base (st'\<lparr>cs_done := False\<rparr>, out)"
    using 1 unfolding st' by (rule chat_inv_same) (use 1 in \<open>simp_all add: chat_inv_def\<close>)
  moreover have out: "out = [numbered kind (cs_sequence st1) (obj [(''response'', ?r)])]"
    using st'(2) em by (simp add: chat_emit_def)
  moreover have "shows_streamed (seen @ out) ?r"
  proof -
    have "kind \<noteq> ''response.output_text.delta''" using s(2) by auto
    then have "text_of i (seen @ out) = text_of i (seen @ [])" for i using out by (simp add: delta_at_other)
    moreover have "shows_streamed (seen @ []) response" using assms(2) s(1) by (simp add: chat_inv_def)
    ultimately show ?thesis by (simp add: shows_streamed_def response_items_def json_index_def jget_set_field)
  qed
  ultimately show ?thesis by (auto simp: shows_final_def numbered_field jget_obj)
qed

lemma chat_convert_inv:
  assumes "chat_convert E st event = Ok (st', out)" and "chat_inv seen base (st, [])"
  shows "chat_inv seen base (st'\<lparr>cs_done := False\<rparr>, out) \<and> (cs_done st' \<longrightarrow> shows_final (seen @ out))"
proof (cases "se_data event = ''[DONE]''")
  case True
  with assms(1) have "on_chat_done E st = Ok (st', out)" by (auto simp: chat_convert_def split: if_splits)
  from on_chat_done_inv [OF this assms(2)] show ?thesis by blast
next
  case False
  with assms(1) obtain i created v em1 em2 where s: "chunk_identity E i created (st, []) = Ok em1"
      "on_chat_choices E v em1 = Ok em2" "on_chat_usage E v em2 = Ok (st', out)"
    by (auto simp: chat_convert_def split: if_splits)
  have "chat_inv seen base (st', out)"
    using chunk_identity_inv [OF s(1) assms(2)] on_chat_choices_inv [OF s(2)] on_chat_usage_inv [OF s(3)] by blast
  moreover from this have "\<not> cs_done st'" by (simp add: chat_inv_def)
  ultimately show ?thesis by (auto elim!: chat_inv_same)
qed

text \<open>The stream between inputs: what was let out is what it collected, and a stream that is done has let out
  a final response that shows it.\<close>

definition chat_stream_inv :: "json list \<Rightarrow> chat_stream \<Rightarrow> bool" where
  "chat_stream_inv seen st \<longleftrightarrow>
     chat_inv seen (cs_sequence st) (st\<lparr>cs_done := False\<rparr>, []) \<and> (cs_done st \<longrightarrow> shows_final seen)"

definition chat_live :: "chat_stream \<Rightarrow> bool" where
  "chat_live st \<longleftrightarrow> \<not> cs_failed st \<and> \<not> cs_done st"

lemma chat_stream_step:
  assumes "chat_stream_event E st event = (r, st')" and "chat_stream_inv seen st"
  shows "chat_stream_inv (seen @ emitted [r]) st' \<and>
    (\<forall>out. r = Ok out \<longrightarrow> map sequence_of out = numbers_from (cs_sequence st) (length out) \<and>
       cs_sequence st' = cs_sequence st + of_nat (length out))"
proof (cases "cs_failed st \<or> cs_done st")
  case True
  with assms show ?thesis by (auto simp: chat_stream_event_def)
next
  case False
  then have st: "st\<lparr>cs_done := False\<rparr> = st" by simp
  show ?thesis
  proof (cases "chat_convert E st event")
    case (Inl e)
    with False assms st show ?thesis by (auto simp: chat_stream_event_def chat_stream_inv_def elim!: chat_inv_same)
  next
    case (Inr p)
    then obtain st1 out where c: "chat_convert E st event = Ok (st1, out)" by (cases p) simp
    with False assms(1) have r: "r = Ok out" "st' = st1" by (simp_all add: chat_stream_event_def)
    have "chat_inv seen (cs_sequence st) (st, [])" using assms(2) st by (simp add: chat_stream_inv_def)
    from chat_convert_inv [OF c this] r show ?thesis
      by (auto simp: chat_stream_inv_def chat_inv_def numbers_from_def)
  qed
qed

interpretation chat_wire: wire_stream "chat_stream_event E" chat_live chat_stream_complete cs_sequence chat_stream_inv
proof
  fix st e
  assume "\<not> chat_live st"
  then show "chat_stream_event E st e = (Err InvalidEventOrder, st)" by (auto simp: chat_stream_event_def chat_live_def)
next
  fix st e x st'
  assume "chat_live st" "chat_stream_event E st e = (Err x, st')"
  then show "\<not> chat_live st' \<and> \<not> chat_stream_complete st'"
    by (auto simp: chat_stream_event_def chat_live_def chat_stream_complete_def split: sum.splits prod.splits)
next
  fix st e r st' seen
  assume "chat_stream_event E st e = (r, st')" "chat_stream_inv seen st"
  then show "chat_stream_inv (seen @ emitted [r]) st'" using chat_stream_step by blast
next
  fix st e out st' seen
  assume "chat_stream_event E st e = (Ok out, st')" "chat_stream_inv seen st"
  then show "map sequence_of out = numbers_from (cs_sequence st) (length out) \<and> cs_sequence st' = cs_sequence st + of_nat (length out)"
    using chat_stream_step by blast
qed

lemma chat_stream_new_inv: "chat_stream_new p limit = Ok st \<Longrightarrow> chat_stream_inv [] st \<and> chat_live st \<and> cs_sequence st = 0"
  by (auto simp: chat_stream_new_def chat_stream_inv_def chat_inv_def chat_live_def numbers_from_def split: if_splits)

text \<open>C38. A Chat stream that completes lets out, as its last event, a response whose message items carry exactly the
  text a client accumulates from the deltas; and all its events are numbered 0, 1, 2, ....\<close>

theorem chat_stream_text:
  assumes "chat_stream_new p limit = Ok st" and "run_machine (chat_stream_event E) st es = (outs, st')"
    and "chat_stream_complete st'"
  shows "\<exists>pre e response items. emitted outs = pre @ [e] \<and> jget e ''response'' = Some response \<and>
    jget response ''output'' = Some (JArray items) \<and>
    (\<forall>i < length items. str_at (items ! i) ''type'' = Some ''message'' \<longrightarrow>
       output_text (items ! i) = Some (text_of i (emitted outs))) \<and>
    map sequence_of (emitted outs) = numbers_from 0 (length (emitted outs))"
proof -
  from chat_stream_new_inv [OF assms(1)] have st: "chat_stream_inv [] st" "cs_sequence st = 0" by auto
  from chat_wire.run_inv [OF assms(2) st(1)] assms(3) have "shows_final (emitted outs)"
    by (simp add: chat_stream_inv_def chat_stream_complete_def)
  moreover from chat_wire.run_numbers [OF assms(2) st(1)] st(2)
  have "map sequence_of (emitted outs) = numbers_from 0 (length (emitted outs))" by simp
  ultimately show ?thesis unfolding shows_final_def shows_streamed_def by blast
qed

section \<open>A worked stream\<close>

definition demo_chat_parse :: "string \<Rightarrow> raw_json option" where
  "demo_chat_parse s =
     (if s = ''a'' then Some (RObject [(''object'', RString ''chat.completion.chunk''), (''model'', RString ''m''), (''id'', RString ''x''),
          (''created'', RNumber ''1''), (''choices'', RArray [RObject [(''index'', RNumber ''0''),
            (''delta'', RObject [(''content'', RString ''hi'')]), (''finish_reason'', RString ''stop'')]])])
      else None)"

definition demo_chat_env :: wire_env where "demo_chat_env = demo_wire_env\<lparr>we_parse := demo_chat_parse\<rparr>"

definition demo_chat_chunk :: sse_event where
  "demo_chat_chunk = \<lparr>se_event = ''message'', se_data = ''a''\<rparr>"

definition demo_chat_stream :: chat_stream where
  "demo_chat_stream =
     \<lparr>cs_prepared = demo_prepared_chat, cs_validator = \<lparr>ev_started = False, ev_terminal = None, ev_terminal_reason = None,
        ev_items = fmempty, ev_indices = {}, ev_calls = {}, ev_parts = 0, ev_argument_bytes = 0, ev_usage = None,
        ev_limits = default_limits\<rparr>,
      cs_id = None, cs_created = None, cs_text = None, cs_calls = fmempty, cs_finish_reason = None, cs_final_response = None,
      cs_usage = None, cs_buffered = 0, cs_argument_bytes = 0, cs_limit = 1000, cs_sequence = 0, cs_failed = False, cs_done = False\<rparr>"

lemma demo_chat_new: "chat_stream_new demo_prepared_chat 1000 = Ok demo_chat_stream"
  by (simp add: chat_stream_new_def demo_chat_stream_def event_validator_new_def default_limits_def)

text \<open>A stream that waits for the end marker only.\<close>

definition ready_for_done :: "wire_env \<Rightarrow> chat_stream \<Rightarrow> bool" where
  "ready_for_done E st \<longleftrightarrow>
     chat_live st \<and> 6 \<le> cs_limit st \<and> cs_final_response st \<noteq> None \<and>
     (case cs_finish_reason st of
        None \<Rightarrow> False
      | Some finish \<Rightarrow>
          (case chat_terminal (cs_prepared st) finish (fcard (fmdom (cs_calls st))) of
             Inl _ \<Rightarrow> False
           | Inr (t, reason) \<Rightarrow> is_ok (apply_ok (we_serde E) (cs_validator st) (Finished t reason))))"

definition done_event :: sse_event where
  "done_event = \<lparr>se_event = ''message'', se_data = ''[DONE]''\<rparr>"

lemma done_completes:
  assumes "ready_for_done E st"
  shows "\<exists>out st'. chat_stream_event E st done_event = (Ok [out], st') \<and> chat_stream_complete st' \<and> delta_at i out = []"
proof -
  from assms obtain response finish t reason v where s: "cs_final_response st = Some response" "cs_finish_reason st = Some finish"
      "chat_terminal (cs_prepared st) finish (fcard (fmdom (cs_calls st))) = Ok (t, reason)"
      "apply_ok (we_serde E) (cs_validator st) (Finished t reason) = Ok v"
    by (auto simp: ready_for_done_def is_ok_iff split: option.splits sum.splits)
  then show ?thesis
    using assms
    by (simp add: ready_for_done_def chat_stream_event_def done_event_def chat_live_def chat_convert_def on_chat_done_def Let_def
        chat_apply_def chat_set_def chat_emit_def chat_stream_complete_def delta_at_other)
qed

lemma demo_chat_ready:
  "(case chat_stream_event demo_chat_env demo_chat_stream demo_chat_chunk
    of (r, st) \<Rightarrow> ready_for_done demo_chat_env st \<and> text_of 0 (emitted [r]) = ''hi'')"
  by code_simp

theorem chat_stream_text_witness:
  "\<exists>outs st. run_machine (chat_stream_event demo_chat_env) demo_chat_stream [demo_chat_chunk, done_event] = (outs, st) \<and>
     chat_stream_complete st \<and> text_of 0 (emitted outs) = ''hi'' \<and>
     (\<exists>pre e response items. emitted outs = pre @ [e] \<and> jget e ''response'' = Some response \<and>
        jget response ''output'' = Some (JArray items))"
proof -
  obtain r st where first: "chat_stream_event demo_chat_env demo_chat_stream demo_chat_chunk = (r, st)" by (rule prod.exhaust)
  with demo_chat_ready have ready: "ready_for_done demo_chat_env st" "text_of 0 (emitted [r]) = ''hi''" by simp_all
  from done_completes [OF ready(1)] obtain out st' where last: "chat_stream_event demo_chat_env st done_event = (Ok [out], st')"
      "chat_stream_complete st'" "delta_at 0 out = []" by blast
  have run: "run_machine (chat_stream_event demo_chat_env) demo_chat_stream [demo_chat_chunk, done_event] = ([r, Ok [out]], st')"
    using first last(1) by (simp add: Let_def)
  have "text_of 0 (emitted [r, Ok [out]]) = ''hi''" using ready(2) last(3) by (cases r) simp_all
  with chat_stream_text [OF demo_chat_new run last(2)] run last(2) show ?thesis by blast
qed

end
