(* ===== verification/Chat_Managed.thy ===== *)
theory Chat_Managed
  imports Chat_Stream
begin

text \<open>
  The native Chat assembly for managed execution, \<open>src/src/adapters/chat/managed_stream.rs\<close>: the assistant
  message of the provider is put together field by field, with its reasoning, and what may be shown early
  (reasoning summaries and text) leaves as progress events. A rejected event makes the managed stream that
  owns this state invalid, and nothing is read from it afterwards, so no state is kept for that case.
\<close>

section \<open>State\<close>

record native_chat =
  nc_prepared :: prepared_chat
  nc_meta :: json
  nc_assistant :: json
  nc_calls :: "json list"
  nc_details :: "json list"
  nc_finish :: "string option"
  nc_usage :: "json option"
  nc_done :: bool
  nc_started :: bool
  nc_text_started :: bool
  nc_shown_text :: string
  nc_shown_reasoning :: "string list"
  nc_progress :: "json list"
  nc_bytes :: nat
  nc_limit :: nat

definition immutable :: "string \<Rightarrow> json \<Rightarrow> json \<Rightarrow> ir_error + json" where
  "immutable key v target =
     (if is_null v then Ok (if jget target key = None then set_field target key JNull else target)
      else if (case jget target key of Some old \<Rightarrow> \<not> is_null old \<and> old \<noteq> v | None \<Rightarrow> False) then Err InvalidIdentifier
      else Ok (set_field target key v))"

definition append_text :: "string \<Rightarrow> json \<Rightarrow> json \<Rightarrow> ir_error + json" where
  "append_text key v target =
     (if is_null v then Ok (if jget target key = None then set_field target key JNull else target)
      else
        and_then (ok_or (as_str v) UnsupportedFeature) (\<lambda>t.
        and_then (if present target key then ok_or (str_at target key) UnsupportedFeature else Ok []) (\<lambda>old.
          Ok (set_field target key (JString (old @ t))))))"

definition native_chat_new :: "prepared_chat \<Rightarrow> nat \<Rightarrow> native_chat" where
  "native_chat_new p limit =
     \<lparr>nc_prepared = p, nc_meta = obj [], nc_assistant = obj [], nc_calls = [], nc_details = [], nc_finish = None, nc_usage = None,
      nc_done = False, nc_started = False, nc_text_started = False, nc_shown_text = [], nc_shown_reasoning = [], nc_progress = [],
      nc_bytes = 0, nc_limit = limit\<rparr>"

definition identity_complete :: "native_chat \<Rightarrow> bool" where
  "identity_complete st \<longleftrightarrow>
     is_string (json_index (nc_meta st) ''id'') \<and> is_string (json_index (nc_meta st) ''model'') \<and>
     is_u64 (json_index (nc_meta st) ''created'')"

section \<open>Progress\<close>

definition progress_at :: "string \<Rightarrow> nat \<Rightarrow> (string \<times> json) list \<Rightarrow> json" where
  "progress_at kind i fs = obj ([(''type'', JString kind), (''output_index'', JNumber (nat_text i))] @ fs)"

definition chat_progress :: "json list \<Rightarrow> native_chat \<Rightarrow> native_chat" where
  "chat_progress es st = st\<lparr>nc_progress := nc_progress st @ es\<rparr>"

definition start_progress :: "string \<Rightarrow> native_chat \<Rightarrow> native_chat" where
  "start_progress pid st =
     (if nc_started st then st
      else (chat_progress
        [obj [(''type'', JString ''response.created''),
           (''response'', obj [(''id'', JString (''resp_'' @ pid)), (''object'', JString ''response''),
             (''status'', JString ''in_progress''), (''output'', JArray [])])],
         progress_at ''response.output_item.added'' 0
           [(''item'', obj [(''type'', JString ''reasoning''), (''id'', JString (''rs_'' @ pid)), (''summary'', JArray [])])]] st)
        \<lparr>nc_started := True\<rparr>)"

text \<open>The leading details that are whole enough to be shown; a detail of the wrong kind is an error.\<close>

fun available_details :: "prepared_chat \<Rightarrow> json list \<Rightarrow> ir_error + json list" where
  "available_details p [] = Ok []"
| "available_details p (d # ds) =
     (case as_str (json_index d ''type'') of
        None \<Rightarrow> Ok []
      | Some kind \<Rightarrow>
          and_then (detail_field kind) (\<lambda>field.
            case as_str (json_index d ''format'') of
              None \<Rightarrow> Ok []
            | Some format \<Rightarrow>
                if (case pc_reasoning_contract p of Some c \<Rightarrow> \<not> accepts_format c format | None \<Rightarrow> True) then Err UnsupportedFeature
                else if jget d field = None then Ok []
                else if kind = ''reasoning.encrypted'' \<and> as_str (json_index d field) = Some [] then Ok []
                else and_then (available_details p ds) (\<lambda>rest. Ok (d # rest))))"

definition shown_summaries :: "bool \<Rightarrow> native_chat \<Rightarrow> ir_error + string list" where
  "shown_summaries terminal st =
     and_then (if terminal then Ok True
         else and_then (chat_dialect (nc_prepared st)) (\<lambda>d. Ok (d = DeepSeekDialect))) (\<lambda>whole.
       if whole then public_summaries (nc_prepared st) (nc_assistant st)
       else if jget (nc_assistant st) ''reasoning_details'' \<noteq> None then
         and_then (available_details (nc_prepared st) (nc_details st)) (\<lambda>ds.
           public_summaries (nc_prepared st) (obj [(''reasoning_details'', JArray ds)]))
       else Ok [])"

definition show_summary :: "string \<Rightarrow> native_chat \<Rightarrow> nat \<times> string \<Rightarrow> ir_error + native_chat" where
  "show_summary rid st = (\<lambda>(i, t).
     let st = (if i = length (nc_shown_reasoning st)
         then (chat_progress [progress_at ''response.reasoning_summary_part.added'' 0
             [(''item_id'', JString rid), (''summary_index'', JNumber (nat_text i)),
              (''part'', obj [(''type'', JString ''summary_text''), (''text'', JString [])])]] st)
           \<lparr>nc_shown_reasoning := nc_shown_reasoning st @ [[]]\<rparr>
         else st) in
     and_then (ok_or (strip_prefix (nc_shown_reasoning st ! i) t) InvalidEventOrder) (\<lambda>delta.
       let st = (if delta \<noteq> []
           then chat_progress [progress_at ''response.reasoning_summary_text.delta'' 0
             [(''item_id'', JString rid), (''summary_index'', JNumber (nat_text i)), (''delta'', JString delta)]] st
           else st) in
       Ok (st\<lparr>nc_shown_reasoning := (nc_shown_reasoning st)[i := t]\<rparr>)))"

definition start_shown_text :: "string \<Rightarrow> string \<Rightarrow> native_chat \<Rightarrow> native_chat" where
  "start_shown_text tid t st =
     (if t \<noteq> [] \<and> \<not> nc_text_started st
      then (chat_progress
        [progress_at ''response.output_item.added'' 1
           [(''item'', obj [(''type'', JString ''message''), (''id'', JString tid), (''role'', JString ''assistant''),
             (''status'', JString ''in_progress''), (''content'', JArray [])])],
         progress_at ''response.content_part.added'' 1
           [(''item_id'', JString tid), content_zero, (''part'', empty_part)]] st)\<lparr>nc_text_started := True\<rparr>
      else st)"

definition show_text :: "string \<Rightarrow> native_chat \<Rightarrow> ir_error + native_chat" where
  "show_text tid st =
     (if \<not> present (nc_assistant st) ''content'' then Ok st
      else
        and_then (ok_or (str_at (nc_assistant st) ''content'') UnsupportedFeature) (\<lambda>t.
        let st = start_shown_text tid t st in
        and_then (ok_or (strip_prefix (nc_shown_text st) t) InvalidEventOrder) (\<lambda>delta.
          let st = (if delta \<noteq> []
              then chat_progress [progress_at ''response.output_text.delta'' 1
                [(''item_id'', JString tid), content_zero, (''delta'', JString delta)]] st
              else st) in
          Ok (st\<lparr>nc_shown_text := t\<rparr>))))"

definition publish_progress :: "bool \<Rightarrow> native_chat \<Rightarrow> ir_error + native_chat" where
  "publish_progress terminal st =
     (if \<not> identity_complete st then Ok st
      else
        and_then (json_string (nc_meta st) ''id'') (\<lambda>pid.
        let st = start_progress pid st in
        and_then (shown_summaries terminal st) (\<lambda>summaries.
        and_then (fold_result (show_summary (''rs_'' @ pid)) st (enumerate 0 summaries)) (\<lambda>st.
          show_text (''item_'' @ pid @ ''_0'') st))))"

section \<open>Chunks\<close>

definition native_chat_response :: "native_chat \<Rightarrow> ir_error + json" where
  "native_chat_response st =
     and_then (ok_or (nc_finish st) InvalidEventOrder) (\<lambda>finish.
       Ok (obj [(''id'', json_index (nc_meta st) ''id''), (''model'', json_index (nc_meta st) ''model''),
         (''created'', json_index (nc_meta st) ''created''), (''object'', JString ''chat.completion''),
         (''usage'', (case nc_usage st of Some u \<Rightarrow> u | None \<Rightarrow> JNull)),
         (''choices'', JArray [obj [(''index'', JNumber ''0''), (''message'', nc_assistant st),
           (''finish_reason'', JString finish)]])]))"

definition assemble_assistant :: "native_chat \<Rightarrow> ir_error + native_chat" where
  "assemble_assistant st =
     (if jget (nc_assistant st) ''role'' = None then Err InvalidIdentifier
      else
        let a = (if nc_calls st \<noteq> [] then set_field (nc_assistant st) ''tool_calls'' (JArray (nc_calls st)) else nc_assistant st);
            a = (if jget a ''reasoning_details'' \<noteq> None then set_field a ''reasoning_details'' (JArray (nc_details st)) else a)
        in Ok (st\<lparr>nc_assistant := a\<rparr>))"

definition native_chat_done :: "wire_env \<Rightarrow> native_chat \<Rightarrow> ir_error + native_chat" where
  "native_chat_done E st =
     (if nc_finish st = None \<or> \<not> identity_complete st then Err InvalidEventOrder
      else
        and_then (assemble_assistant st) (\<lambda>st.
        and_then (native_chat_response st) (\<lambda>response.
        and_then (chat_decode_managed E (nc_prepared st) response) (\<lambda>_.
        and_then (publish_progress True st) (\<lambda>st.
          Ok (st\<lparr>nc_done := True\<rparr>))))))"

definition note_identity :: "json \<Rightarrow> json \<Rightarrow> string \<Rightarrow> ir_error + json" where
  "note_identity v meta key =
     (if \<not> present v key then Ok meta
      else if (if key = ''created'' then \<not> is_u64 (json_index v key) else \<not> is_string (json_index v key)) then Err UnsupportedFeature
      else immutable key (json_index v key) meta)"

definition native_chat_meta :: "json \<Rightarrow> native_chat \<Rightarrow> ir_error + native_chat" where
  "native_chat_meta v st =
     and_then (fold_result (note_identity v) (nc_meta st) [''id'', ''model'', ''created'']) (\<lambda>meta.
     if jget meta ''model'' \<noteq> None \<and> str_at meta ''model'' \<noteq> Some (pc_model (nc_prepared st)) then Err InvalidIdentifier
     else
       and_then (case jget meta ''id'' of
           None \<Rightarrow> Ok ()
         | Some i \<Rightarrow> and_then (ok_or (as_str i) UnsupportedFeature) (\<lambda>i.
             and_then (response_id_new (''resp_'' @ i)) (\<lambda>_. Ok ()))) (\<lambda>_.
         Ok (st\<lparr>nc_meta := meta\<rparr>)))"

definition usage_shape :: "json \<Rightarrow> ir_error + unit" where
  "usage_shape u =
     and_then (json_object u) (\<lambda>_.
       if list_ex (\<lambda>key. present u key \<and> \<not> is_u64 (json_index u key))
            [''prompt_tokens'', ''completion_tokens'', ''total_tokens'', ''prompt_cache_hit_tokens'', ''prompt_cache_miss_tokens''] \<or>
          list_ex (\<lambda>key. present u key \<and> \<not> is_object (json_index u key)) [''prompt_tokens_details'', ''completion_tokens_details'']
       then Err UnsupportedFeature else Ok ())"

definition count_falls :: "json option \<Rightarrow> json \<Rightarrow> bool" where
  "count_falls old new \<longleftrightarrow>
     (case (Option.bind old as_u64, as_u64 new) of (Some a, Some b) \<Rightarrow> b < a | _ \<Rightarrow> False)"

definition merge_count :: "json \<Rightarrow> string \<times> json \<Rightarrow> ir_error + json" where
  "merge_count stored = (\<lambda>(key, v).
     if is_null v then Ok stored
     else if count_falls (jget stored key) v then Err UnsupportedFeature
     else Ok (set_field stored key v))"

definition merge_usage_field :: "json \<Rightarrow> string \<times> json \<Rightarrow> ir_error + json" where
  "merge_usage_field stored = (\<lambda>(key, v).
     case as_object v of
       None \<Rightarrow> merge_count stored (key, v)
     | Some counts \<Rightarrow>
         if present stored key \<and> \<not> is_object (json_index stored key) then Err UnsupportedFeature
         else
           let stored = (if present stored key then stored else set_field stored key (obj [])) in
           and_then (fold_result merge_count (json_index stored key) (sorted_list_of_fmap counts)) (\<lambda>merged.
             Ok (set_field stored key merged)))"

definition native_chat_usage :: "json \<Rightarrow> native_chat \<Rightarrow> ir_error + native_chat" where
  "native_chat_usage v st =
     (if \<not> present v ''usage'' then Ok st
      else
        let u = json_index v ''usage'' in
        and_then (usage_shape u) (\<lambda>_.
        and_then (json_object u) (\<lambda>fs.
        and_then (fold_result merge_usage_field (case nc_usage st of Some s \<Rightarrow> s | None \<Rightarrow> obj []) (sorted_list_of_fmap fs)) (\<lambda>stored.
          Ok (st\<lparr>nc_usage := Some stored\<rparr>)))))"

definition native_choice :: "json \<Rightarrow> ir_error + json" where
  "native_choice choice =
     (if as_u64 (json_index choice ''index'') \<noteq> Some 0 then Err UnsupportedFeature else
     and_then (known_fields choice [''index'', ''delta'', ''finish_reason'', ''logprobs'', ''native_finish_reason'']) (\<lambda>_.
     if present choice ''logprobs'' then Err UnsupportedFeature else
     and_then (ok_or (jget choice ''delta'') UnsupportedFeature) (\<lambda>delta.
     and_then (json_object delta) (\<lambda>_. Ok delta))))"

definition native_role :: "json \<Rightarrow> json \<Rightarrow> ir_error + json" where
  "native_role delta a =
     (if \<not> present delta ''role'' then Ok a
      else if json_index delta ''role'' \<noteq> JString ''assistant'' then Err UnsupportedFeature
      else immutable ''role'' (json_index delta ''role'') a)"

definition native_texts :: "json \<Rightarrow> json \<Rightarrow> string \<Rightarrow> ir_error + json" where
  "native_texts delta a key = (case jget delta key of None \<Rightarrow> Ok a | Some v \<Rightarrow> append_text key v a)"

definition native_empties :: "json \<Rightarrow> json \<Rightarrow> string \<Rightarrow> ir_error + json" where
  "native_empties delta a key =
     (case jget delta key of
        None \<Rightarrow> Ok a
      | Some v \<Rightarrow>
          if \<not> is_null v \<and> as_str v \<noteq> Some [] \<and> as_array v \<noteq> Some [] then Err UnsupportedFeature
          else immutable key v a)"

definition detail_name :: "json \<Rightarrow> json \<Rightarrow> string \<Rightarrow> ir_error + json" where
  "detail_name d stored key =
     (case jget d key of
        None \<Rightarrow> Ok stored
      | Some v \<Rightarrow> if \<not> is_null v \<and> \<not> is_string v then Err UnsupportedFeature else immutable key v stored)"

definition native_detail :: "json list \<Rightarrow> json \<Rightarrow> ir_error + json list" where
  "native_detail details d =
     and_then (known_fields d [''index'', ''id'', ''type'', ''format'', ''text'', ''summary'', ''data'', ''signature'']) (\<lambda>_.
     and_then (ok_or (as_u64 (json_index d ''index'')) UnsupportedFeature) (\<lambda>n.
     let i = unat n in
     if i > length details \<or> i + 1 < length details then Err InvalidEventOrder
     else
       let details = (if i = length details then details @ [obj [(''index'', JNumber (nat_text i))]] else details) in
       and_then (fold_result (detail_name d) (details ! i) [''id'', ''type'', ''format'']) (\<lambda>stored.
       and_then (fold_result (native_texts d) stored [''text'', ''summary'', ''data'', ''signature'']) (\<lambda>stored.
         Ok (details[i := stored])))))"

definition native_details :: "json \<Rightarrow> native_chat \<Rightarrow> ir_error + native_chat" where
  "native_details delta st =
     (if \<not> present delta ''reasoning_details'' then Ok st
      else
        and_then (ok_or (as_array (json_index delta ''reasoning_details'')) UnsupportedFeature) (\<lambda>ds.
        and_then (fold_result native_detail (nc_details st) ds) (\<lambda>details.
          Ok (st\<lparr>nc_assistant := set_field (nc_assistant st) ''reasoning_details'' (JArray []), nc_details := details\<rparr>))))"

definition call_name :: "json \<Rightarrow> json \<Rightarrow> string \<Rightarrow> ir_error + json" where
  "call_name d stored key = (case jget d key of None \<Rightarrow> Ok stored | Some v \<Rightarrow> immutable key v stored)"

definition native_call :: "json list \<Rightarrow> json \<Rightarrow> ir_error + json list" where
  "native_call calls c =
     and_then (known_fields c [''index'', ''id'', ''type'', ''function'']) (\<lambda>_.
     and_then (ok_or (as_u64 (json_index c ''index'')) UnsupportedFeature) (\<lambda>n.
     let i = unat n in
     if i > length calls then Err InvalidEventOrder
     else
       let calls = (if i = length calls then calls @ [obj [(''function'', obj [])]] else calls) in
       and_then (fold_result (call_name c) (calls ! i) [''id'', ''type'']) (\<lambda>stored.
       and_then (case jget c ''function'' of
           None \<Rightarrow> Ok stored
         | Some f \<Rightarrow>
             and_then (known_fields f [''name'', ''arguments'']) (\<lambda>_.
             and_then (fold_result (native_texts f) (json_index stored ''function'') [''name'', ''arguments'']) (\<lambda>g.
               Ok (set_field stored ''function'' g)))) (\<lambda>stored.
         Ok (calls[i := stored])))))"

definition native_calls :: "json \<Rightarrow> native_chat \<Rightarrow> ir_error + native_chat" where
  "native_calls delta st =
     (if \<not> present delta ''tool_calls'' then Ok st
      else
        and_then (ok_or (as_array (json_index delta ''tool_calls'')) UnsupportedFeature) (\<lambda>cs.
        and_then (fold_result native_call (nc_calls st) cs) (\<lambda>calls. Ok (st\<lparr>nc_calls := calls\<rparr>))))"

definition native_finish_field :: "json \<Rightarrow> native_chat \<Rightarrow> ir_error + native_chat" where
  "native_finish_field choice st =
     (if \<not> present choice ''finish_reason'' then Ok st
      else and_then (ok_or (str_at choice ''finish_reason'') UnsupportedFeature) (\<lambda>finish. Ok (st\<lparr>nc_finish := Some finish\<rparr>)))"

definition native_assistant_fields :: "json \<Rightarrow> json \<Rightarrow> ir_error + json" where
  "native_assistant_fields delta a =
     and_then (native_role delta a) (\<lambda>a.
     and_then (fold_result (native_texts delta) a [''content'', ''reasoning'', ''reasoning_content'']) (\<lambda>a.
       fold_result (native_empties delta) a [''refusal'', ''annotations'', ''audio'', ''function_call'']))"

definition native_chat_choice :: "json \<Rightarrow> native_chat \<Rightarrow> ir_error + native_chat" where
  "native_chat_choice choice st =
     and_then (native_choice choice) (\<lambda>delta.
     if nc_finish st \<noteq> None then Err InvalidEventOrder else
     and_then (chat_dialect (nc_prepared st)) (\<lambda>dialect.
     and_then (known_fields delta (managed_message_fields dialect)) (\<lambda>_.
     and_then (native_assistant_fields delta (nc_assistant st)) (\<lambda>a.
     and_then (native_details delta (st\<lparr>nc_assistant := a\<rparr>)) (\<lambda>st.
     and_then (native_calls delta st) (\<lambda>st.
     and_then (native_finish_field choice st) (\<lambda>st.
       publish_progress False st)))))))"

definition native_chat_choices :: "json \<Rightarrow> native_chat \<Rightarrow> ir_error + native_chat" where
  "native_chat_choices v st =
     and_then (ok_or (as_array (json_index v ''choices'')) UnsupportedFeature) (\<lambda>choices.
       case choices of
         [] \<Rightarrow> if \<not> present v ''usage'' then Err UnsupportedFeature else publish_progress False st
       | [choice] \<Rightarrow> native_chat_choice choice st
       | _ \<Rightarrow> Err UnsupportedFeature)"

definition native_chunk_ok :: "json \<Rightarrow> ir_error + unit" where
  "native_chunk_ok v =
     and_then (known_fields v [''id'', ''object'', ''created'', ''model'', ''choices'', ''usage'', ''system_fingerprint'',
         ''service_tier'', ''provider'', ''obfuscation'']) (\<lambda>_.
       if jget v ''object'' \<notin> {None, Some (JString ''chat.completion.chunk'')} then Err UnsupportedFeature else Ok ())"

definition native_chat_event :: "wire_env \<Rightarrow> native_chat \<Rightarrow> sse_event \<Rightarrow> ir_error + native_chat" where
  "native_chat_event E st event =
     (let n = nc_bytes st + length (se_data event) in
      if n \<ge> 2 ^ 64 \<or> n > nc_limit st then Err SizeLimit
      else if nc_done st \<or> se_event event \<noteq> ''message'' then Err InvalidEventOrder
      else
        let st = st\<lparr>nc_bytes := n\<rparr> in
        if se_data event = ''[DONE]'' then native_chat_done E st
        else
          and_then (json_decode (we_parse E) (se_data event)) (\<lambda>v.
          and_then (native_chunk_ok v) (\<lambda>_.
          and_then (native_chat_meta v st) (\<lambda>st.
          and_then (native_chat_usage v st) (\<lambda>st.
            native_chat_choices v st)))))"

definition native_chat_accounting :: "native_chat \<Rightarrow> accounting" where
  "native_chat_accounting st =
     accounting_new (accounting_profile (nc_prepared st)) (nc_usage st) (nc_meta st)
       (if nc_done st then usage_outcome.Completed else usage_outcome.InProgress)"

definition native_chat_take_progress :: "native_chat \<Rightarrow> json list \<times> native_chat" where
  "native_chat_take_progress st = (nc_progress st, st\<lparr>nc_progress := []\<rparr>)"

definition native_chat_complete :: "native_chat \<Rightarrow> bool" where
  "native_chat_complete st = nc_done st"

definition native_chat_finish :: "wire_env \<Rightarrow> native_chat \<Rightarrow> ir_error + managed_output" where
  "native_chat_finish E st =
     (if \<not> nc_done st then Err InvalidEventOrder
      else and_then (native_chat_response st) (chat_decode_managed E (nc_prepared st)))"

section \<open>What is shown early\<close>

text \<open>Everything but the progress events and the account of what was shown.\<close>

definition chat_core ::
  "native_chat \<Rightarrow> prepared_chat \<times> json \<times> json \<times> json list \<times> json list \<times> string option \<times> json option \<times> bool \<times> nat \<times> nat" where
  "chat_core st =
     (nc_prepared st, nc_meta st, nc_assistant st, nc_calls st, nc_details st, nc_finish st, nc_usage st, nc_done st, nc_bytes st,
      nc_limit st)"

text \<open>What a client has accumulated is what the state says was shown: the text at position 1, nothing elsewhere.\<close>

definition shown_exactly :: "json list \<Rightarrow> native_chat \<Rightarrow> bool" where
  "shown_exactly seen st \<longleftrightarrow>
     (\<forall>i. text_of i (seen @ nc_progress st) = (if i = 1 then nc_shown_text st else []))"

lemma delta_at_progress:
  "delta_at i (progress_at kind j fs) = []" if "kind \<noteq> ''response.output_text.delta''"
  using that by (simp add: delta_at_def progress_at_def str_at_def jget_obj)

lemma delta_at_text_progress:
  "delta_at i (progress_at ''response.output_text.delta'' j [(''item_id'', JString tid), content_zero, (''delta'', JString t)]) =
     (if i = j then t else [])"
  by (simp add: delta_at_def progress_at_def str_at_def jget_obj content_zero_def)

lemma delta_at_created: "delta_at i (obj [(''type'', JString ''response.created''), (''response'', r)]) = []"
  by (simp add: delta_at_def str_at_def jget_obj)

text \<open>A change that shows no text.\<close>

definition quiet :: "native_chat \<Rightarrow> native_chat \<Rightarrow> bool" where
  "quiet st st' \<longleftrightarrow>
     chat_core st' = chat_core st \<and> nc_shown_text st' = nc_shown_text st \<and>
     (\<exists>es. nc_progress st' = nc_progress st @ es \<and> (\<forall>i. text_of i es = []))"

lemma quiet_refl [simp]: "quiet st st"
  by (simp add: quiet_def)

lemma quiet_trans: "quiet a b \<Longrightarrow> quiet b c \<Longrightarrow> quiet a c"
  by (auto simp: quiet_def)

lemma quiet_progress: "quiet a b \<Longrightarrow> (\<And>i. text_of i es = []) \<Longrightarrow> quiet a (chat_progress es b)"
  by (auto simp: quiet_def chat_progress_def chat_core_def)

lemma quiet_same:
  "quiet a b \<Longrightarrow> chat_core b' = chat_core b \<Longrightarrow> nc_shown_text b' = nc_shown_text b \<Longrightarrow> nc_progress b' = nc_progress b \<Longrightarrow> quiet a b'"
  by (auto simp: quiet_def)

lemma quiet_marks [simp]:
  "quiet a (b\<lparr>nc_started := x\<rparr>) = quiet a b" "quiet a (b\<lparr>nc_shown_reasoning := y\<rparr>) = quiet a b"
  "quiet a (b\<lparr>nc_text_started := x\<rparr>) = quiet a b"
  by (simp_all add: quiet_def chat_core_def)

lemma quiet_shown: "quiet st st' \<Longrightarrow> shown_exactly seen st' = shown_exactly seen st"
  by (auto simp: quiet_def shown_exactly_def)

lemma text_of_quiet: "text_of i (e # es) = delta_at i e @ text_of i es"
  by (simp add: text_of_def)

lemmas quiet_events = text_of_quiet delta_at_progress delta_at_created

lemma start_progress_quiet: "quiet st (start_progress pid st)"
  by (simp add: start_progress_def quiet_progress quiet_events)

lemma show_summary_quiet: "show_summary rid st x = Ok st' \<Longrightarrow> quiet st st'"
  by (cases x) (auto simp: show_summary_def Let_def quiet_events intro!: quiet_progress split: if_splits)

lemma show_summaries_quiet: "fold_result (show_summary rid) st xs = Ok st' \<Longrightarrow> quiet st0 st \<Longrightarrow> quiet st0 st'"
  by (erule fold_result_invariant) (auto dest: show_summary_quiet quiet_trans)

lemma start_shown_text_quiet: "quiet st (start_shown_text tid t st)"
  by (simp add: start_shown_text_def quiet_progress quiet_events)

lemma show_text_shows:
  assumes "show_text tid st = Ok st'"
  shows "chat_core st' = chat_core st" "shown_exactly seen st \<Longrightarrow> shown_exactly seen st'"
    "present (nc_assistant st) ''content'' \<Longrightarrow> str_at (nc_assistant st) ''content'' = Some (nc_shown_text st')"
    "\<not> present (nc_assistant st) ''content'' \<Longrightarrow> nc_shown_text st' = nc_shown_text st"
proof -
  have "chat_core st' = chat_core st \<and> (shown_exactly seen st \<longrightarrow> shown_exactly seen st') \<and>
    str_at (nc_assistant st) ''content'' = Some (nc_shown_text st')" if c: "present (nc_assistant st) ''content''"
  proof -
    let ?start = "\<lambda>t. start_shown_text tid t st"
    let ?event = "\<lambda>delta. progress_at ''response.output_text.delta'' 1
      [(''item_id'', JString tid), content_zero, (''delta'', JString delta)]"
    from assms c obtain t delta where s: "str_at (nc_assistant st) ''content'' = Some t" "t = nc_shown_text (?start t) @ delta"
        "st' = (if delta \<noteq> [] then chat_progress [?event delta] (?start t) else ?start t)\<lparr>nc_shown_text := t\<rparr>"
      by (auto simp: show_text_def Let_def)
    have "chat_core st' = chat_core (?start t)" "nc_shown_text st' = t"
      "\<And>i. text_of i (nc_progress st') = text_of i (nc_progress (?start t)) @ (if i = 1 then delta else [])"
      using s(3) by (auto simp: chat_progress_def chat_core_def delta_at_text_progress)
    moreover have "quiet st (?start t)" by (rule start_shown_text_quiet)
    ultimately show ?thesis using s(1,2) quiet_shown [of st "?start t" seen]
      by (auto simp: shown_exactly_def quiet_def)
  qed
  moreover have none: "st' = st" if "\<not> present (nc_assistant st) ''content''"
    using assms that by (simp add: show_text_def)
  ultimately show "chat_core st' = chat_core st" "shown_exactly seen st \<Longrightarrow> shown_exactly seen st'"
    "present (nc_assistant st) ''content'' \<Longrightarrow> str_at (nc_assistant st) ''content'' = Some (nc_shown_text st')"
    "\<not> present (nc_assistant st) ''content'' \<Longrightarrow> nc_shown_text st' = nc_shown_text st"
    using none by (cases "present (nc_assistant st) ''content''"; simp)+
qed

lemma publish_progress_shows:
  assumes "publish_progress terminal st = Ok st'"
  shows "chat_core st' = chat_core st \<and> (shown_exactly seen st \<longrightarrow> shown_exactly seen st') \<and>
    (\<not> present (nc_assistant st) ''content'' \<longrightarrow> nc_shown_text st' = nc_shown_text st) \<and>
    (identity_complete st \<and> present (nc_assistant st) ''content'' \<longrightarrow>
       str_at (nc_assistant st) ''content'' = Some (nc_shown_text st'))"
proof (cases "identity_complete st")
  case True
  with assms obtain pid summaries st1 where s:
    "fold_result (show_summary (''rs_'' @ pid)) (start_progress pid st) (enumerate 0 summaries) = Ok st1"
    "show_text (''item_'' @ pid @ ''_0'') st1 = Ok st'"
    by (auto simp: publish_progress_def Let_def)
  have "quiet st st1" by (rule show_summaries_quiet [OF s(1) start_progress_quiet])
  from this quiet_shown [OF this] have 1: "chat_core st1 = chat_core st" "nc_shown_text st1 = nc_shown_text st"
      "shown_exactly seen st \<longrightarrow> shown_exactly seen st1"
    by (simp_all add: quiet_def)
  then have "nc_assistant st1 = nc_assistant st" by (simp add: chat_core_def)
  with show_text_shows [OF s(2)] 1 show ?thesis by auto
qed (use assms in \<open>simp add: publish_progress_def\<close>)

section \<open>The assistant message\<close>

text \<open>Collecting fields keeps the message an object and never loses its text.\<close>

definition keeps_content :: "json \<Rightarrow> json \<Rightarrow> bool" where
  "keeps_content a a' \<longleftrightarrow> is_object a' \<and> (present a ''content'' \<longrightarrow> present a' ''content'')"

lemma present_set_field: "is_object a \<Longrightarrow> present (set_field a k v) j = (if j = k then \<not> is_null v else present a j)"
  by (cases a) (simp_all add: present_def is_object_def)

lemma immutable_content: "immutable key v a = Ok a' \<Longrightarrow> key \<noteq> ''content'' \<Longrightarrow> keeps_content b a \<Longrightarrow> keeps_content b a'"
  by (auto simp: immutable_def keeps_content_def present_set_field split: if_splits)

lemma append_text_content: "append_text key v a = Ok a' \<Longrightarrow> keeps_content b a \<Longrightarrow> keeps_content b a'"
  by (auto simp: append_text_def keeps_content_def present_set_field split: if_splits)
    (auto simp: present_def)

lemma native_assistant_fields_content:
  assumes "native_assistant_fields delta a = Ok a'" and "is_object a"
  shows "keeps_content a a'"
proof -
  from assms(1) obtain a1 a2 where s: "native_role delta a = Ok a1"
      "fold_result (native_texts delta) a1 [''content'', ''reasoning'', ''reasoning_content''] = Ok a2"
      "fold_result (native_empties delta) a2 [''refusal'', ''annotations'', ''audio'', ''function_call''] = Ok a'"
    by (auto simp: native_assistant_fields_def)
  have "keeps_content a a" using assms(2) by (simp add: keeps_content_def)
  then have "keeps_content a a1" using s(1) by (auto simp: native_role_def split: if_splits dest: immutable_content)
  then have 2: "keeps_content a a2"
    by (rule fold_result_invariant [OF s(2)]) (auto simp: native_texts_def split: option.splits dest: append_text_content)
  from s(3) obtain b c d where e: "native_empties delta a2 ''refusal'' = Ok b" "native_empties delta b ''annotations'' = Ok c"
      "native_empties delta c ''audio'' = Ok d" "native_empties delta d ''function_call'' = Ok a'"
    by auto
  have one: "keeps_content a y" if "native_empties delta x key = Ok y" "key \<noteq> ''content''" "keeps_content a x" for x y key
    using that by (auto simp: native_empties_def split: option.splits if_splits dest: immutable_content)
  from one [OF e(1) _ 2] one [OF e(2)] one [OF e(3)] one [OF e(4)] show ?thesis by simp
qed

section \<open>Whole streams\<close>

text \<open>Between events: the message is an object whose text is never behind what was shown; a stream that is done
  has shown all of it, and the response it assembled decodes.\<close>

definition chat_native_inv :: "wire_env \<Rightarrow> prepared_chat \<Rightarrow> nat \<Rightarrow> json list \<Rightarrow> native_chat \<Rightarrow> bool" where
  "chat_native_inv E p limit seen st \<longleftrightarrow>
     nc_prepared st = p \<and> nc_limit st = limit \<and> nc_bytes st \<le> limit \<and> is_object (nc_assistant st) \<and>
     shown_exactly seen st \<and> (present (nc_assistant st) ''content'' \<or> nc_shown_text st = []) \<and>
     (nc_done st \<longrightarrow>
        (present (nc_assistant st) ''content'' \<longrightarrow> str_at (nc_assistant st) ''content'' = Some (nc_shown_text st)) \<and>
        is_ok (native_chat_finish E st))"

lemma native_inv_publish:
  assumes "publish_progress terminal st = Ok st'" and "chat_native_inv E p limit seen st" and "\<not> nc_done st"
  shows "chat_native_inv E p limit seen st' \<and> \<not> nc_done st'"
proof -
  note shown = publish_progress_shows [OF assms(1), of seen]
  then have core: "chat_core st' = chat_core st" by simp
  then have same: "nc_prepared st' = nc_prepared st" "nc_limit st' = nc_limit st" "nc_bytes st' = nc_bytes st"
      "nc_assistant st' = nc_assistant st" "nc_done st' = nc_done st"
    by (simp_all add: chat_core_def)
  show ?thesis using shown assms(2,3) by (auto simp: chat_native_inv_def same)
qed

text \<open>Changes that show nothing and keep the text.\<close>

lemma native_inv_fields:
  assumes "chat_native_inv E p limit seen st" and "keeps_content (nc_assistant st) (nc_assistant st')"
    and "nc_prepared st' = nc_prepared st" "nc_limit st' = nc_limit st" "nc_bytes st' = nc_bytes st"
    and "nc_progress st' = nc_progress st" "nc_shown_text st' = nc_shown_text st" "\<not> nc_done st'"
  shows "chat_native_inv E p limit seen st'"
  using assms by (auto simp: chat_native_inv_def keeps_content_def shown_exactly_def)

lemma native_inv_other:
  assumes "chat_native_inv E p limit seen st" and "nc_assistant st' = nc_assistant st"
    and "nc_prepared st' = nc_prepared st" "nc_limit st' = nc_limit st" "nc_bytes st' = nc_bytes st"
    and "nc_progress st' = nc_progress st" "nc_shown_text st' = nc_shown_text st" "\<not> nc_done st'"
  shows "chat_native_inv E p limit seen st'"
  using assms(1) by (rule native_inv_fields) (use assms in \<open>simp_all add: chat_native_inv_def keeps_content_def\<close>)

lemma native_inv_choice:
  assumes "native_chat_choice choice st = Ok st'" and inv: "chat_native_inv E p limit seen st" and "\<not> nc_done st"
  shows "chat_native_inv E p limit seen st' \<and> \<not> nc_done st'"
proof -
  from assms(1) obtain delta a st1 st2 st3 where s: "native_assistant_fields delta (nc_assistant st) = Ok a"
      "native_details delta (st\<lparr>nc_assistant := a\<rparr>) = Ok st1" "native_calls delta st1 = Ok st2"
      "native_finish_field choice st2 = Ok st3" "publish_progress False st3 = Ok st'"
    by (auto simp: native_chat_choice_def split: if_splits)
  have "is_object (nc_assistant st)" using inv by (simp add: chat_native_inv_def)
  from native_assistant_fields_content [OF s(1) this] have a: "keeps_content (nc_assistant st) a" .
  then have "chat_native_inv E p limit seen (st\<lparr>nc_assistant := a\<rparr>) \<and> \<not> nc_done st"
    using inv assms(3) by (auto elim!: native_inv_fields)
  moreover have "keeps_content a (set_field a ''reasoning_details'' (JArray []))"
    using a by (simp add: keeps_content_def present_set_field)
  ultimately have 1: "chat_native_inv E p limit seen st1 \<and> \<not> nc_done st1"
    using s(2) by (auto simp: native_details_def split: if_splits elim!: native_inv_fields)
  from s(3) 1 have 2: "chat_native_inv E p limit seen st2 \<and> \<not> nc_done st2"
    by (auto simp: native_calls_def split: if_splits elim!: native_inv_other)
  from s(4) 2 have "chat_native_inv E p limit seen st3 \<and> \<not> nc_done st3"
    by (auto simp: native_finish_field_def split: if_splits elim!: native_inv_other)
  with native_inv_publish [OF s(5)] show ?thesis by blast
qed

lemma native_inv_done:
  assumes "native_chat_done E st = Ok st'" and inv: "chat_native_inv E p limit seen st" and "\<not> nc_done st"
  shows "chat_native_inv E p limit seen st'"
proof -
  from assms(1) obtain st1 response out st2 where s: "identity_complete st" "assemble_assistant st = Ok st1"
      "native_chat_response st1 = Ok response" "chat_decode_managed E (nc_prepared st1) response = Ok out"
      "publish_progress True st1 = Ok st2" "st' = st2\<lparr>nc_done := True\<rparr>"
    by (auto simp: native_chat_done_def split: if_splits)
  have o: "is_object (nc_assistant st)" using inv by (simp add: chat_native_inv_def)
  have 1: "chat_native_inv E p limit seen st1 \<and> \<not> nc_done st1 \<and> identity_complete st1"
    using s(1,2) o inv assms(3)
    by (auto simp: assemble_assistant_def Let_def identity_complete_def keeps_content_def present_set_field
        split: if_splits elim!: native_inv_fields)
  note shown = publish_progress_shows [OF s(5), of seen]
  from native_inv_publish [OF s(5)] 1 have 2: "chat_native_inv E p limit seen st2 \<and> \<not> nc_done st2" by blast
  have core: "chat_core st2 = chat_core st1" using shown by simp
  then have "native_chat_response st2 = native_chat_response st1" "nc_prepared st2 = nc_prepared st1"
      "nc_assistant st2 = nc_assistant st1"
    by (simp_all add: chat_core_def native_chat_response_def)
  moreover have "native_chat_response (st2\<lparr>nc_done := True\<rparr>) = native_chat_response st2" by (simp add: native_chat_response_def)
  ultimately have "is_ok (native_chat_finish E st')"
    using s(3,4,6) by (simp add: native_chat_finish_def)
  then show ?thesis using 2 shown 1 core s(6) by (auto simp: chat_native_inv_def chat_core_def shown_exactly_def)
qed

lemma native_inv_choices:
  assumes "native_chat_choices v st = Ok st'" and "chat_native_inv E p limit seen st \<and> \<not> nc_done st"
  shows "chat_native_inv E p limit seen st'"
proof -
  from assms(1) obtain choices where c: "(case choices of
         [] \<Rightarrow> if \<not> present v ''usage'' then Err UnsupportedFeature else publish_progress False st
       | [choice] \<Rightarrow> native_chat_choice choice st
       | _ \<Rightarrow> Err UnsupportedFeature) = Ok st'"
    by (auto simp: native_chat_choices_def)
  have "publish_progress False st = Ok st' \<or> (\<exists>choice. native_chat_choice choice st = Ok st')"
  proof (cases choices)
    case (Cons x xs)
    with c show ?thesis by (cases xs) auto
  qed (use c in \<open>auto split: if_splits\<close>)
  then show ?thesis using assms(2) native_inv_publish native_inv_choice by metis
qed

lemma native_inv_event:
  assumes "native_chat_event E st event = Ok st'" and "chat_native_inv E p limit seen st"
  shows "chat_native_inv E p limit seen st'"
proof -
  let ?st = "st\<lparr>nc_bytes := nc_bytes st + length (se_data event)\<rparr>"
  have b: "nc_bytes st + length (se_data event) \<le> nc_limit st" "\<not> nc_done st"
    using assms(1) by (auto simp: native_chat_event_def Let_def split: if_splits)
  then have inv: "chat_native_inv E p limit seen ?st" "\<not> nc_done ?st"
    using assms(2) by (auto simp: chat_native_inv_def shown_exactly_def)
  show ?thesis
  proof (cases "se_data event = ''[DONE]''")
    case True
    with assms(1) have "native_chat_done E ?st = Ok st'" by (auto simp: native_chat_event_def Let_def split: if_splits)
    from native_inv_done [OF this inv] show ?thesis .
  next
    case False
    with assms(1) obtain v st1 st2 where s: "native_chat_meta v ?st = Ok st1" "native_chat_usage v st1 = Ok st2"
        "native_chat_choices v st2 = Ok st'"
      by (auto simp: native_chat_event_def Let_def split: if_splits)
    from s(1) inv have 1: "chat_native_inv E p limit seen st1 \<and> \<not> nc_done st1"
      by (auto simp: native_chat_meta_def split: if_splits elim!: native_inv_other)
    with s(2) have "chat_native_inv E p limit seen st2 \<and> \<not> nc_done st2"
      by (auto simp: native_chat_usage_def Let_def split: if_splits elim!: native_inv_other)
    then show ?thesis using native_inv_choices [OF s(3)] by blast
  qed
qed

text \<open>The managed stream takes the progress events after every event.\<close>

definition native_chat_step ::
  "wire_env \<Rightarrow> json list \<times> native_chat \<Rightarrow> sse_event \<Rightarrow> ir_error + json list \<times> native_chat" where
  "native_chat_step E = (\<lambda>(seen, st) event.
     and_then (native_chat_event E st event) (\<lambda>st.
       let (es, st) = native_chat_take_progress st in Ok (seen @ es, st)))"

lemma take_response: "native_chat_finish E (st\<lparr>nc_progress := es\<rparr>) = native_chat_finish E st"
  by (simp add: native_chat_finish_def native_chat_response_def)

lemma native_inv_take:
  "chat_native_inv E p limit seen st \<Longrightarrow> chat_native_inv E p limit (seen @ nc_progress st) (st\<lparr>nc_progress := []\<rparr>)"
  by (auto simp: chat_native_inv_def shown_exactly_def take_response)

lemma native_chat_run_inv:
  assumes "fold_result (native_chat_step E) ([], native_chat_new p limit) events = Ok (shown, st)"
  shows "chat_native_inv E p limit shown st \<and> nc_progress st = []"
proof -
  have "case (shown, st) of (seen, st) \<Rightarrow> chat_native_inv E p limit seen st \<and> nc_progress st = []"
    by (rule fold_result_invariant [OF assms])
      (auto simp: native_chat_new_def chat_native_inv_def [of _ _ _ _ "native_chat_new p limit", unfolded native_chat_new_def]
        shown_exactly_def present_def jget_obj native_chat_step_def native_chat_take_progress_def Let_def
        dest!: native_inv_event intro: native_inv_take)
  then show ?thesis by simp
qed

lemma stripped_content: "str_at (JObject (strip_reasoning m)) ''content'' = Some t \<Longrightarrow> str_at (JObject m) ''content'' = Some t"
  by (auto simp: strip_reasoning_def Let_def str_at_def split: if_splits)

lemma message_item_text:
  assumes "j < length (message_items m)" and "chat_shown E tools (message_items m ! j) out" and "str_at out ''type'' = Some ''message''"
  shows "\<exists>t. j = 0 \<and> str_at m ''content'' = Some t \<and> output_text out = Some t"
proof (cases "str_at m ''content''")
  case None
  then have "message_items m = map Inr (calls_of m)" by (simp add: message_items_def)
  with assms show ?thesis by simp
next
  case (Some t)
  then have "message_items m = Inl t # map Inr (calls_of m)" by (simp add: message_items_def)
  with assms Some show ?thesis by (cases j) simp_all
qed

text \<open>A completed native Chat stream always hands over its output: the assistant message exactly as it was assembled
  is kept for replay, and the message items of the response carry exactly the text that was shown while
  the stream ran; the events it read are within the byte limit.\<close>

theorem managed_chat_replay:
  assumes "fold_result (native_chat_step E) ([], native_chat_new p limit) events = Ok (shown, st)" and "native_chat_complete st"
  shows "\<exists>out dialect control. native_chat_finish E st = Ok out \<and> shows_streamed shown (mg_response out) \<and>
    mg_native out = ChatReplay 1 dialect (nc_assistant st) control \<and> nc_bytes st \<le> limit"
proof -
  from native_chat_run_inv [OF assms(1)] have inv: "chat_native_inv E p limit shown st" "nc_progress st = []" by simp_all
  with assms(2) obtain out where out: "native_chat_finish E st = Ok out"
    by (auto simp: chat_native_inv_def native_chat_complete_def is_ok_iff)
  then obtain v where v: "native_chat_response st = Ok v" "chat_decode_managed E (nc_prepared st) v = Ok out"
    by (auto simp: native_chat_finish_def split: if_splits)
  from chat_managed_replay [OF v(2)] obtain choice m dialect control summaries mid outs where f:
    "jget v ''choices'' = Some (JArray [choice])" "jget choice ''message'' = Some (JObject m)"
    "mg_native out = ChatReplay 1 dialect (JObject m) control"
    "jget (mg_response out) ''output'' = Some (JArray (reasoning_item (''rs_'' @ mid) summaries # outs))"
    "list_all2 (chat_shown E (pc_tools (nc_prepared st))) (message_items (JObject (strip_reasoning m))) outs"
    by blast
  have m: "nc_assistant st = JObject m"
    using v(1) f(1,2) by (auto simp: native_chat_response_def jget_obj)
  have items: "response_items (mg_response out) = reasoning_item (''rs_'' @ mid) summaries # outs"
    using f(4) by (simp add: response_items_def json_index_def)
  have "output_text (response_items (mg_response out) ! i) = Some (text_of i shown)"
    if i: "i < length (response_items (mg_response out))"
      "str_at (response_items (mg_response out) ! i) ''type'' = Some ''message''" for i
  proof -
    obtain j where j: "i = Suc j" "j < length outs" "str_at (outs ! j) ''type'' = Some ''message''"
      using i by (cases i) (simp_all add: items reasoning_item_def str_at_def jget_obj)
    from f(5) j(2) have at: "chat_shown E (pc_tools (nc_prepared st)) (message_items (JObject (strip_reasoning m)) ! j) (outs ! j)"
        "j < length (message_items (JObject (strip_reasoning m)))"
      by (auto simp: list_all2_conv_all_nth)
    from message_item_text [OF at(2,1) j(3)] obtain t where
      t: "j = 0" "str_at (JObject (strip_reasoning m)) ''content'' = Some t" "output_text (outs ! j) = Some t"
      by blast
    from stripped_content [OF t(2)] m have content: "str_at (nc_assistant st) ''content'' = Some t" by simp
    then have "present (nc_assistant st) ''content''" by (cases "jget (nc_assistant st) ''content''") (auto simp: present_def str_at_def)
    then have "nc_shown_text st = t" using inv(1) assms(2) content by (simp add: chat_native_inv_def native_chat_complete_def)
    then have "text_of i shown = t" using inv j(1) t(1) by (simp add: chat_native_inv_def shown_exactly_def)
    with t(1,3) j(1) items show ?thesis by simp
  qed
  moreover have "is_object (mg_response out)" using f(4) by (cases "mg_response out") simp_all
  ultimately have "shows_streamed shown (mg_response out)" using f(4) items by (simp add: shows_streamed_def)
  then show ?thesis using out f(3) m inv(1) by (auto simp: chat_native_inv_def)
qed

end
