(* ===== verification/Managed_Adapter.thy ===== *)
theory Managed_Adapter
  imports Interactions_Stream Messages_Managed Chat_Managed
begin

text \<open>
  The dispatch over the three managed adapters, \<open>src/src/adapters/managed.rs\<close>: encoding with verified history,
  decoding of complete responses, and streams with the account of their usage counters. Encoding for a
  Chat provider can panic on replayed state, hence the failures of \<open>chat_failure\<close>.
\<close>

section \<open>Adapters\<close>

datatype managed_adapter =
    GeminiAdapter prepared_interactions
  | MessagesAdapter prepared_messages
  | ChatAdapter prepared_chat

definition interaction_output :: "decoded_interaction \<Rightarrow> accounting \<Rightarrow> ir_error + managed_output" where
  "interaction_output d a =
     and_then (if di_provider_status d = ''completed'' then Ok OutcomeCompleted
         else if di_provider_status d = ''requires_action'' then Ok AwaitingTools
         else Err InvalidEventOrder) (\<lambda>outcome.
       Ok \<lparr>mg_response = di_response d, mg_native = GeminiReplay 1 (di_steps d), mg_outcome = outcome,
           mg_usage = usage_responses (ag_usage a), mg_accounting = a\<rparr>)"

definition managed_encode ::
  "wire_env \<Rightarrow> request_ir \<Rightarrow> translation_plan \<Rightarrow> provider_history \<Rightarrow> chat_failure + managed_adapter" where
  "managed_encode E r plan history =
     (case rs_api (tp_route plan) of
        GeminiInteractions \<Rightarrow> and_then (reject (interactions_encode E r plan history)) (\<lambda>p. Ok (GeminiAdapter p))
      | Messages \<Rightarrow> and_then (reject (encode_with_history E r plan history True)) (\<lambda>p. Ok (MessagesAdapter p))
      | ChatCompletions \<Rightarrow> and_then (chat_encode_with_history E r plan history True) (\<lambda>p. Ok (ChatAdapter p))
      | _ \<Rightarrow> Err (Rejected WrongProtocol))"

text \<open>\<open>history.segments.values().last()\<close>.\<close>

definition last_segment :: "provider_history \<Rightarrow> native_state option" where
  "last_segment history =
     (case sorted_list_of_fmap history of [] \<Rightarrow> None | s # ss \<Rightarrow> Some (snd (snd (last (s # ss)))))"

fun replay_controls :: "managed_adapter \<Rightarrow> native_replay \<Rightarrow> json option" where
  "replay_controls (ChatAdapter p) (ChatReplay _ _ _ control) = Some control"
| "replay_controls (MessagesAdapter p) (MessagesReplay _ _ control) = Some control"
| "replay_controls _ _ = None"

definition same_controls :: "managed_adapter \<Rightarrow> json option \<Rightarrow> provider_history \<Rightarrow> ir_error + unit" where
  "same_controls a own history =
     and_then (ok_or (last_segment history) ContinuityMismatch) (\<lambda>native.
     and_then (native_state_builtin native) (\<lambda>n.
     and_then (ok_or (replay_controls a n) ContinuityMismatch) (\<lambda>control.
       if own \<noteq> Some control then Err ContinuityMismatch else Ok ())))"

fun validate_pending_controls :: "managed_adapter \<Rightarrow> provider_history \<Rightarrow> ir_error + unit" where
  "validate_pending_controls (ChatAdapter p) history = same_controls (ChatAdapter p) (pc_reasoning_controls p) history"
| "validate_pending_controls (MessagesAdapter p) history = same_controls (MessagesAdapter p) (pm_reasoning_controls p) history"
| "validate_pending_controls (GeminiAdapter p) history = Ok ()"

fun adapter_profile :: "managed_adapter \<Rightarrow> usage_profile" where
  "adapter_profile (GeminiAdapter p) = GeminiInteractionsV1"
| "adapter_profile (MessagesAdapter p) = MessagesV1"
| "adapter_profile (ChatAdapter p) = accounting_profile p"

fun adapter_payload :: "managed_adapter \<Rightarrow> json" where
  "adapter_payload (GeminiAdapter p) = pi_payload p"
| "adapter_payload (MessagesAdapter p) = pm_payload p"
| "adapter_payload (ChatAdapter p) = pc_payload p"

fun adapter_decode ::
  "wire_env \<Rightarrow> (string \<Rightarrow> bool) \<Rightarrow> u64 option \<Rightarrow> managed_adapter \<Rightarrow> string \<Rightarrow> json \<Rightarrow> ir_error + managed_output" where
  "adapter_decode E integral now (GeminiAdapter p) rid raw =
     and_then (interactions_decode E integral now p raw rid) (\<lambda>(d, _).
       interaction_output d (accounting_new GeminiInteractionsV1 (jget raw ''usage'') raw usage_outcome.Completed))"
| "adapter_decode E integral now (MessagesAdapter p) rid raw = messages_decode_managed E now p raw"
| "adapter_decode E integral now (ChatAdapter p) rid raw = chat_decode_managed E p raw"

definition managed_decode_bytes ::
  "wire_env \<Rightarrow> (string \<Rightarrow> bool) \<Rightarrow> u64 option \<Rightarrow> managed_adapter \<Rightarrow> string \<Rightarrow> string \<Rightarrow> ir_error + managed_output" where
  "managed_decode_bytes E integral now a bytes rid =
     and_then (json_decode (we_parse E) bytes) (\<lambda>raw.
     and_then (adapter_decode E integral now a rid raw) checked_usage)"

section \<open>Streams\<close>

datatype native_stream =
    GeminiNative gemini_stream
  | MessagesNative native_messages
  | ChatNative native_chat

record managed_stream =
  mst_native :: native_stream
  mst_counters :: accumulator
  mst_invalid :: bool

fun native_new :: "managed_adapter \<Rightarrow> nat \<Rightarrow> string \<Rightarrow> native_stream" where
  "native_new (GeminiAdapter p) limit rid = GeminiNative (gemini_stream_new p limit rid)"
| "native_new (MessagesAdapter p) limit rid = MessagesNative (native_messages_new p limit)"
| "native_new (ChatAdapter p) limit rid = ChatNative (native_chat_new p limit)"

definition managed_stream_new :: "managed_adapter \<Rightarrow> nat \<Rightarrow> string \<Rightarrow> managed_stream" where
  "managed_stream_new a limit rid =
     \<lparr>mst_native = native_new a limit rid, mst_counters = accumulator_new (adapter_profile a), mst_invalid = False\<rparr>"

fun native_event :: "wire_env \<Rightarrow> native_stream \<Rightarrow> sse_event \<Rightarrow> ir_error + native_stream" where
  "native_event E (GeminiNative s) event = and_then (gemini_stream_event E s event) (\<lambda>s. Ok (GeminiNative s))"
| "native_event E (MessagesNative s) event = and_then (native_messages_event E s event) (\<lambda>s. Ok (MessagesNative s))"
| "native_event E (ChatNative s) event = and_then (native_chat_event E s event) (\<lambda>s. Ok (ChatNative s))"

fun native_accounting :: "native_stream \<Rightarrow> accounting" where
  "native_accounting (GeminiNative s) = gemini_stream_accounting s"
| "native_accounting (MessagesNative s) = native_messages_accounting s"
| "native_accounting (ChatNative s) = native_chat_accounting s"

fun native_take_progress :: "native_stream \<Rightarrow> json list \<times> native_stream" where
  "native_take_progress (GeminiNative s) = (let (es, s) = gemini_take_progress s in (es, GeminiNative s))"
| "native_take_progress (MessagesNative s) = (let (es, s) = native_messages_take_progress s in (es, MessagesNative s))"
| "native_take_progress (ChatNative s) = (let (es, s) = native_chat_take_progress s in (es, ChatNative s))"

fun native_complete :: "native_stream \<Rightarrow> bool" where
  "native_complete (GeminiNative s) = gemini_stream_complete s"
| "native_complete (MessagesNative s) = native_messages_complete s"
| "native_complete (ChatNative s) = native_chat_complete s"

fun native_finish ::
  "wire_env \<Rightarrow> (string \<Rightarrow> bool) \<Rightarrow> u64 option \<Rightarrow> native_stream \<Rightarrow> ir_error + managed_output" where
  "native_finish E integral now (GeminiNative s) =
     and_then (gemini_stream_finish E integral now s) (\<lambda>d. interaction_output d (gemini_stream_accounting s))"
| "native_finish E integral now (MessagesNative s) = native_messages_finish E now s"
| "native_finish E integral now (ChatNative s) = native_chat_finish E s"

definition counters_bad :: "accumulator \<Rightarrow> bool" where
  "counters_bad a \<longleftrightarrow>
     ac_incomplete a \<or> list_ex (\<lambda>(_, c). ct_source c = counter_source.Invalid) (sorted_list_of_fmap (cu_reported (ac_usage a)))"

definition managed_event :: "wire_env \<Rightarrow> managed_stream \<Rightarrow> sse_event \<Rightarrow> (ir_error + unit) \<times> managed_stream" where
  "managed_event E st event =
     (if mst_invalid st then (Err InvalidEventOrder, st)
      else case native_event E (mst_native st) event of
        Inl e \<Rightarrow> (Err e, st\<lparr>mst_invalid := True\<rparr>)
      | Inr native \<Rightarrow>
          let counters = snd (observe_counters (mst_counters st) (cu_reported (ag_usage (native_accounting native))));
              st = st\<lparr>mst_native := native, mst_counters := counters\<rparr> in
          if counters_bad counters then (Err (InvalidField ''usage''), st\<lparr>mst_invalid := True\<rparr>) else (Ok (), st))"

definition managed_accounting :: "managed_stream \<Rightarrow> accounting" where
  "managed_accounting st = native_accounting (mst_native st)"

definition managed_take_progress :: "managed_stream \<Rightarrow> json list \<times> managed_stream" where
  "managed_take_progress st =
     (if mst_invalid st then ([], st)
      else let (es, native) = native_take_progress (mst_native st) in (es, st\<lparr>mst_native := native\<rparr>))"

definition managed_complete :: "managed_stream \<Rightarrow> bool" where
  "managed_complete st \<longleftrightarrow> \<not> mst_invalid st \<and> native_complete (mst_native st)"

definition managed_finish ::
  "wire_env \<Rightarrow> (string \<Rightarrow> bool) \<Rightarrow> u64 option \<Rightarrow> managed_stream \<Rightarrow> ir_error + managed_output" where
  "managed_finish E integral now st =
     (if mst_invalid st then Err InvalidEventOrder
      else and_then (native_finish E integral now (mst_native st)) (\<lambda>out.
        checked_usage (out\<lparr>mg_accounting := (mg_accounting out)\<lparr>ag_usage := ac_usage (mst_counters st)\<rparr>\<rparr>)))"

section \<open>Outcomes\<close>

definition is_tool_item :: "json \<Rightarrow> bool" where
  "is_tool_item o' \<longleftrightarrow> str_at o' ''type'' \<in> {Some ''function_call'', Some ''custom_tool_call''}"

text \<open>The tools counted while decoding are the tool items of the output.\<close>

definition counts_tools :: "decode_state \<Rightarrow> bool" where
  "counts_tools st \<longleftrightarrow> de_tool_count st = length (filter is_tool_item (de_output st))"

lemma tool_output_is_tool [simp]: "is_tool_item (tool_output c status)"
  by (simp add: is_tool_item_def tool_output_fields split: tool_input.split)

lemma other_items_no_tool [simp]:
  "\<not> is_tool_item (output_message item t)" "\<not> is_tool_item (interaction_message item content)" "\<not> is_tool_item (public_reasoning i t)"
  "\<not> is_tool_item (reasoning_item i summaries)"
proof -
  show "\<not> is_tool_item (output_message item t)" by (simp add: is_tool_item_def output_message_fields)
qed (simp_all add: is_tool_item_def interaction_message_def public_reasoning_def reasoning_item_def str_at_def jget_obj)

lemma is_tool_item_set [simp]: "k \<noteq> ''type'' \<Longrightarrow> is_tool_item (set_field o' k x) = is_tool_item o'"
  by (simp add: is_tool_item_def)

lemma counts_tools_any: "counts_tools st \<Longrightarrow> de_tool_count st \<noteq> 0 \<longleftrightarrow> (\<exists>x \<in> set (de_output st). is_tool_item x)"
  by (auto simp: counts_tools_def filter_empty_conv)

lemma emit_item_counts:
  "emit_item E item events out st = Ok st' \<Longrightarrow> counts_tools st \<Longrightarrow> \<not> is_tool_item out \<Longrightarrow> counts_tools st'"
  "emit_item E item events out (st\<lparr>de_tools := tools, de_tool_count := Suc (de_tool_count st)\<rparr>) = Ok st' \<Longrightarrow> counts_tools st \<Longrightarrow>
     is_tool_item out \<Longrightarrow> counts_tools st'"
  by (auto simp: counts_tools_def dest!: emit_item_Ok)

lemma counts_tools_message [simp]:
  "counts_tools (st\<lparr>de_validator := v, de_output := de_output st @ [interaction_message item content]\<rparr>) = counts_tools st"
  by (simp add: counts_tools_def)

lemma decode_block_counts:
  assumes "decode_block E managed mid st x = Ok st'" and "counts_tools st"
  shows "counts_tools st'"
  using assms
  by (cases x)
    (auto simp: decode_block_def Let_def decode_redacted_def decode_thinking_def decode_text_def decode_tool_use_def
      split: if_splits dest: emit_item_counts(1) emit_item_counts(2))

lemma decode_step_counts:
  assumes "decode_step E integral payload rid (st, calls) s = Ok (st', calls')" and "counts_tools st"
  shows "counts_tools st'"
  using assms
  by (auto simp: decode_step_def decode_model_output_def decode_function_call_def
      split: if_splits dest: emit_item_counts(1) emit_item_counts(2))

lemma fold_decode_steps_count:
  "fold_result (decode_step E integral payload rid) (st, calls) steps = Ok (st', calls') \<Longrightarrow> counts_tools st \<Longrightarrow> counts_tools st'"
proof (induction steps arbitrary: st calls)
  case (Cons s steps)
  then obtain st1 calls1 where "decode_step E integral payload rid (st, calls) s = Ok (st1, calls1)"
      "fold_result (decode_step E integral payload rid) (st1, calls1) steps = Ok (st', calls')" by auto
  with Cons.IH Cons.prems(2) decode_step_counts show ?case by blast
qed simp

text \<open>A typed output that says what the continuation session has to wait for: it awaits tools exactly when the
  response asks the client to run one.\<close>

definition outcome_exact :: "managed_output \<Rightarrow> bool" where
  "outcome_exact out \<longleftrightarrow>
     (\<exists>outs. jget (mg_response out) ''output'' = Some (JArray outs) \<and>
        (mg_outcome out = AwaitingTools) = (\<exists>x \<in> set outs. is_tool_item x))"

lemma interaction_output_exact:
  assumes "interactions_decode E integral now p raw rid = Ok (d, tools)" and "interaction_output d a = Ok out"
  shows "outcome_exact out"
proof -
  from assms(1) obtain status steps validator st calls seconds usage where s:
      "fold_result (decode_step E integral (pi_payload p) rid)
         (\<lparr>de_validator = validator, de_output = [], de_tool_count = 0, de_tools = pi_tools p\<rparr>, {}) steps = Ok (st, calls)"
      "(status = ''requires_action'') = (de_tool_count st \<noteq> 0)"
      "d = \<lparr>di_response = interaction_response p rid seconds status (de_output st) usage, di_steps = steps, di_provider_status = status\<rparr>"
    by (auto simp: interactions_decode_def split: if_splits)
  from fold_decode_steps_count [OF s(1)] have "counts_tools st" by (simp add: counts_tools_def)
  from counts_tools_any [OF this] s(2,3) assms(2) show ?thesis
    by (auto simp: outcome_exact_def interaction_output_def interaction_response_def jget_obj split: if_splits)
qed

lemma messages_managed_exact:
  assumes "messages_decode_managed E now p v = Ok out"
  shows "outcome_exact out"
proof -
  from assms obtain response tools where d: "messages_decode E now p v = Ok (response, tools)"
      "json_index response ''status'' = JString ''completed''" "mg_response out = response"
      "mg_outcome out = (if json_index v ''stop_reason'' = JString ''tool_use'' then AwaitingTools else OutcomeCompleted)"
    by (auto simp: messages_decode_managed_def split: if_splits)
  from d(1) obtain mid rid validator content st stop terminal reason seconds metrics where s:
      "fold_result (decode_block E (pm_reasoning_controls p \<noteq> None) mid)
         \<lparr>de_validator = validator, de_output = [], de_tool_count = 0, de_tools = pm_tools p\<rparr> (enumerate 0 content) = Ok st"
      "str_at v ''stop_reason'' = Some stop" "messages_terminal p stop (de_tool_count st) = Ok (terminal, reason)"
      "response = decoded_response p rid seconds terminal reason (de_output st) metrics"
    by (auto simp: messages_decode_def Let_def json_string_def)
  have "counts_tools st"
    by (rule fold_result_invariant [OF s(1)]) (auto simp: counts_tools_def [of "\<lparr>de_validator = _, de_output = _, de_tool_count = _, de_tools = _\<rparr>"] dest: decode_block_counts)
  note any = counts_tools_any [OF this]
  have "terminal_status terminal = ''completed''"
    using d(2) s(4) by (simp add: decoded_response_def json_text_at str_at_def jget_reflect_format jget_obj)
  then have t: "terminal = terminal.Completed" by (cases terminal) (simp_all add: terminal_status_def)
  then have "(stop = ''tool_use'') = (de_tool_count st \<noteq> 0)"
    using s(3) by (auto simp: messages_terminal_def split: if_splits)
  moreover have "(json_index v ''stop_reason'' = JString ''tool_use'') = (stop = ''tool_use'')" using s(2) by (simp add: json_text_at)
  moreover have "jget response ''output'' = Some (JArray (de_output st))"
    using s(4) t by (simp add: decoded_response_def jget_reflect_format jget_obj mark_items_def)
  ultimately show ?thesis using any d(3,4) by (auto simp: outcome_exact_def)
qed

lemma list_all2_any:
  "list_all2 R ys xs \<Longrightarrow> (\<And>x y. R y x \<Longrightarrow> P x = Q y) \<Longrightarrow> (\<exists>x \<in> set xs. P x) = (\<exists>y \<in> set ys. Q y)"
  by (induction rule: list_all2_induct) auto

lemma chat_managed_exact:
  assumes "chat_decode_managed E p v = Ok out"
  shows "outcome_exact out"
proof -
  from chat_managed_replay [OF assms] obtain m i summaries outs where f:
    "jget (mg_response out) ''output'' = Some (JArray (reasoning_item i summaries # outs))"
    "list_all2 (chat_shown E (pc_tools p)) (message_items (JObject (strip_reasoning m))) outs"
    "(mg_outcome out = AwaitingTools) = (calls_of (JObject m) \<noteq> [])"
    by blast
  have tool: "is_tool_item x = (\<exists>c. y = Inr c)" if "chat_shown E (pc_tools p) y x" for x y
    using that by (cases y) (auto simp: is_tool_item_def)
  have "(\<exists>x \<in> set outs. is_tool_item x) = (\<exists>y \<in> set (message_items (JObject (strip_reasoning m))). \<exists>c. y = Inr c)"
    using f(2) by (rule list_all2_any) (rule tool)
  moreover have "(\<exists>y \<in> set (message_items m'). \<exists>c. y = Inr c) = (calls_of m' \<noteq> [])" for m'
    by (cases "calls_of m'") (auto simp: message_items_def split: option.splits)
  ultimately show ?thesis using f(1,3) calls_of_stripped [of m] by (auto simp: outcome_exact_def)
qed

lemma checked_usage_Ok:
  assumes "checked_usage m = Ok out"
  shows "cu_violations (ag_usage (mg_accounting out)) = [] \<and> mg_usage out = usage_responses (ag_usage (mg_accounting out)) \<and>
    mg_response out = set_field (mg_response m) ''usage'' (mg_usage out) \<and> mg_native out = mg_native m \<and>
    mg_outcome out = mg_outcome m \<and> mg_accounting out = mg_accounting m"
  using assms by (auto simp: checked_usage_def Let_def split: if_splits)

lemma checked_usage_exact: "checked_usage m = Ok out \<Longrightarrow> outcome_exact m \<Longrightarrow> outcome_exact out"
  by (drule checked_usage_Ok) (auto simp: outcome_exact_def jget_set_field)

lemma checked_usage_shown: "checked_usage m = Ok out \<Longrightarrow> outcome_exact m \<Longrightarrow> jget (mg_response out) ''usage'' = Some (mg_usage out)"
proof -
  assume c: "checked_usage m = Ok out" and "outcome_exact m"
  then have "is_object (mg_response m)" by (cases "mg_response m") (auto simp: outcome_exact_def is_object_def)
  with checked_usage_Ok [OF c] show ?thesis by (simp add: jget_set_same)
qed

text \<open>C30. Whatever managed provider answered, whole or as a stream: the outcome that decides whether the session waits
  for tool results is the one the response shows (it awaits tools exactly if the client is asked to run one),
  and the usage it shows is the canonical usage of the attempt, which has no violation.\<close>

theorem managed_output_exact:
  assumes "managed_decode_bytes E integral now a bytes rid = Ok out \<or> managed_finish E integral now st = Ok out"
  shows "\<exists>outs. jget (mg_response out) ''output'' = Some (JArray outs) \<and>
    (mg_outcome out = AwaitingTools) = (\<exists>x \<in> set outs. is_tool_item x) \<and>
    jget (mg_response out) ''usage'' = Some (usage_responses (ag_usage (mg_accounting out))) \<and>
    cu_violations (ag_usage (mg_accounting out)) = []"
proof -
  have "\<exists>m. outcome_exact m \<and> checked_usage m = Ok out"
    using assms
  proof
    assume "managed_decode_bytes E integral now a bytes rid = Ok out"
    then obtain raw m where m: "adapter_decode E integral now a rid raw = Ok m" "checked_usage m = Ok out"
      by (auto simp: managed_decode_bytes_def)
    have "outcome_exact m"
      using m(1) interaction_output_exact messages_managed_exact chat_managed_exact by (cases a) auto
    with m(2) show ?thesis by blast
  next
    assume "managed_finish E integral now st = Ok out"
    then obtain m u where m: "native_finish E integral now (mst_native st) = Ok m" "checked_usage (m\<lparr>mg_accounting := u\<rparr>) = Ok out"
      by (auto simp: managed_finish_def split: if_splits)
    have "outcome_exact m"
      using m(1) interaction_output_exact messages_managed_exact chat_managed_exact
      by (cases "mst_native st")
        (auto simp: gemini_stream_finish_def native_messages_finish_def native_chat_finish_def split: if_splits)
    then have "outcome_exact (m\<lparr>mg_accounting := u\<rparr>)" by (simp add: outcome_exact_def)
    with m(2) show ?thesis by blast
  qed
  then obtain m where m: "outcome_exact m" "checked_usage m = Ok out" by blast
  from checked_usage_exact [OF m(2,1)] checked_usage_shown [OF m(2,1)] checked_usage_Ok [OF m(2)] show ?thesis
    by (auto simp: outcome_exact_def)
qed

text \<open>A failure of a managed stream is final: nothing more is taken, shown or handed over.\<close>

lemma managed_failure_final:
  assumes "managed_event E st event = (Err x, st')"
  shows "\<not> managed_complete st' \<and> managed_finish E integral now st' = Err InvalidEventOrder \<and>
    fst (managed_take_progress st') = [] \<and> managed_event E st' event' = (Err InvalidEventOrder, st')"
proof -
  have "mst_invalid st'"
    using assms by (auto simp: managed_event_def Let_def split: if_splits sum.splits)
  then show ?thesis by (simp add: managed_complete_def managed_finish_def managed_take_progress_def managed_event_def)
qed

section \<open>A worked answer\<close>

definition demo_output_step :: raw_json where
  "demo_output_step = RObject [(''content'', RArray [RObject [(''text'', RString ''hi''), (''type'', RString ''text'')]]),
     (''type'', RString ''model_output'')]"

definition demo_gemini_parse :: "string \<Rightarrow> raw_json option" where
  "demo_gemini_parse s =
     (if s = ''d'' then Some (RObject [(''steps'', RArray [demo_output_step]), (''status'', RString ''completed''), (''id'', RString ''x'')])
      else None)"

definition demo_gemini_env :: wire_env where "demo_gemini_env = demo_wire_env\<lparr>we_parse := demo_gemini_parse\<rparr>"

definition demo_prepared_gemini :: prepared_interactions where
  "demo_prepared_gemini = \<lparr>pi_payload = obj [], pi_model = ''m'', pi_tools = prepared_tools_new demo_bridge demo_wire_request\<rparr>"

definition demo_step :: json where
  "demo_step = obj [(''type'', JString ''model_output''), (''content'', JArray [text_block ''hi''])]"

definition demo_interaction :: json where
  "demo_interaction = obj [(''id'', JString ''x''), (''status'', JString ''completed''), (''steps'', JArray [demo_step])]"

lemma demo_gemini_document: "json_decode (we_parse demo_gemini_env) ''d'' = Ok demo_interaction"
  by (simp add: json_decode_def demo_gemini_env_def demo_gemini_parse_def demo_output_step_def demo_interaction_def demo_step_def
      text_block_def obj_def)

lemma demo_gemini_head: "interaction_head demo_prepared_gemini demo_interaction = Ok (''completed'', [demo_step])"
  by code_simp

lemma demo_gemini_parts: "decode_part E item (v, content) (0, text_block ''hi'') =
    and_then (apply_all (we_serde E) v
       ([PartStarted item 0 Text] @ map (TextDelta item 0) (event_text_chunks ''hi'') @ [PartFinished item 0]))
      (\<lambda>v. Ok (v, content @ [output_part ''hi'']))"
proof -
  have "text_part (text_block ''hi'') = Ok ''hi''" by code_simp
  then show ?thesis by (simp add: decode_part_def)
qed

lemma demo_gemini_decode: "is_ok (interactions_decode demo_gemini_env (\<lambda>_. False) (Some 0) demo_prepared_gemini demo_interaction ''r'')"
proof -
  have env: "we_serde demo_gemini_env = demo_serde" by (simp add: demo_gemini_env_def demo_wire_env_def)
  have item: "item_id_new (''r'' @ ''_'' @ nat_text 0) = Ok (ItemId ''r_0'')" "response_id_new ''r'' = Ok (ResponseId ''r'')" by code_simp+
  have item': "item_id_new (CHR ''r'' # CHR ''_'' # nat_text 0) = Ok (ItemId ''r_0'')" by code_simp
  have step: "json_string demo_step ''type'' = Ok ''model_output''" "known_fields demo_step [''type'', ''content''] = Ok ()"
    "Option.bind (jget demo_step ''content'') as_array = Some [text_block ''hi'']" by code_simp+
  have rest: "jget demo_interaction ''usage'' = None" "jget (pi_payload demo_prepared_gemini) ''response_format'' = None" by code_simp+
  have count: "validate_count (pi_tools demo_prepared_gemini) 0 True = Ok ()"
    by (simp add: validate_count_def demo_prepared_gemini_def prepared_tools_new_def demo_wire_request_def
        demo_tools_request_def demo_generation_def choice_demands_def)
  show ?thesis
    unfolding interactions_decode_def demo_gemini_head and_then_simps prod.case item
    by (simp add: item item' decode_step_def step decode_model_output_def demo_gemini_parts demo_event_eval env rest count
        structured_ok_def gemini_usage_def metrics_event_def interaction_end_def json_index_def jget_obj)
qed

lemma demo_gemini_answer:
  "is_ok (managed_decode_bytes demo_gemini_env (\<lambda>_. False) (Some 0) (GeminiAdapter demo_prepared_gemini) ''d'' ''r'')"
proof -
  obtain d tools where d: "interactions_decode demo_gemini_env (\<lambda>_. False) (Some 0) demo_prepared_gemini demo_interaction ''r'' = Ok (d, tools)"
    using demo_gemini_decode by (auto simp: is_ok_iff)
  from interactions_decode_shows [OF d] demo_gemini_head have status: "di_provider_status d = ''completed''" by auto
  have "cu_violations (ag_usage (accounting_new GeminiInteractionsV1 None demo_interaction usage_outcome.Completed)) = []" by code_simp
  moreover have "jget demo_interaction ''usage'' = None" by code_simp
  ultimately show ?thesis
    by (simp add: managed_decode_bytes_def demo_gemini_document d interaction_output_def status checked_usage_def Let_def)
qed

theorem managed_output_exact_witness:
  "\<exists>out outs. managed_decode_bytes demo_gemini_env (\<lambda>_. False) (Some 0) (GeminiAdapter demo_prepared_gemini) ''d'' ''r'' = Ok out \<and>
     jget (mg_response out) ''output'' = Some (JArray outs) \<and> (mg_outcome out = AwaitingTools) = (\<exists>x \<in> set outs. is_tool_item x)"
proof -
  obtain out where out: "managed_decode_bytes demo_gemini_env (\<lambda>_. False) (Some 0) (GeminiAdapter demo_prepared_gemini) ''d'' ''r'' = Ok out"
    using demo_gemini_answer by (auto simp: is_ok_iff)
  from managed_output_exact [OF disjI1 [OF out]] out show ?thesis by blast
qed

end
