(* ===== verification/Responses_Adapter.thy ===== *)
theory Responses_Adapter
  imports Messages_Adapter Responses_Codec "HOL-Library.Code_Target_Nat"
begin

text \<open>
  The checked Responses adapter, \<open>src/src/adapters/responses.rs\<close>: a request is sent on in its own protocol with
  its tools, calls and results lowered for the route, and the answer is checked field by field while its tool
  calls and the echoes of the request are restored to what the client knows. Restoring a call may note a
  normalization, so the prepared request is passed along.
\<close>

section \<open>Requests\<close>

record prepared_responses =
  prs_payload :: json
  prs_original :: json
  prs_echoes :: json
  prs_tools :: prepared_tools
  prs_profile :: capability_profile
  prs_model :: string
  prs_preserve_item_order :: bool

definition native_tools :: "capability_profile \<Rightarrow> capability_profile" where
  "native_tools p = p\<lparr>cp_protocol := Responses,
     cp_support := fold (\<lambda>f. fmupd f Native) [FunctionTools, CustomTools, NamespacedTools, CustomGrammar] (cp_support p)\<rparr>"

definition output_verifier :: "wire_env \<Rightarrow> request_ir \<Rightarrow> translation_plan \<Rightarrow> ir_error + prepared_responses" where
  "output_verifier E r plan =
     (let profile = native_tools (rs_capabilities (tp_route plan)) in
      and_then (for_plan (we_serde E) (we_sha256 E) r profile (tp_editing plan) False) (\<lambda>registry.
      and_then (encode (json_document (we_serde E)) None r) (\<lambda>original.
        Ok \<lparr>prs_payload = JNull, prs_original = original, prs_echoes = original, prs_tools = prepared_tools_new registry r,
            prs_profile = profile, prs_model = req_model r, prs_preserve_item_order = True\<rparr>)))"

definition valid_phase :: "json \<Rightarrow> bool" where
  "valid_phase v \<longleftrightarrow> is_null v \<or> as_str v \<in> {Some ''commentary'', Some ''final_answer''}"

definition hint_ok :: "string \<times> json \<Rightarrow> bool" where
  "hint_ok = (\<lambda>(key, v).
     if key \<in> {''client_metadata'', ''metadata''} then
       (case as_object v of Some m \<Rightarrow> fmpred (\<lambda>_. is_string) m | None \<Rightarrow> False)
     else if key = ''prompt_cache_key'' then is_string v
     else if key = ''include'' then
       (case as_array v of Some a \<Rightarrow> list_all (\<lambda>x. x = JString ''reasoning.encrypted_content'') a | None \<Rightarrow> False)
     else if key = ''background'' then v = JBool False
     else key \<in> {''input'', ''instructions'', ''tools'', ''stream'', ''max_output_tokens'', ''temperature'', ''top_p'',
         ''parallel_tool_calls'', ''tool_choice'', ''text'', ''reasoning''} \<and> is_null v)"

definition format_admitted :: "output_options \<Rightarrow> bool" where
  "format_admitted out \<longleftrightarrow>
     ext_fields (oo_extensions out) = fmempty \<and>
     (case oo_format out of
        None \<Rightarrow> True
      | Some (FormatText e) \<Rightarrow> ext_fields e = fmempty
      | Some (FormatJsonObject e) \<Rightarrow> ext_fields e = fmempty
      | Some (FormatJsonSchema _ _ _ e) \<Rightarrow> ext_fields e = fmempty
      | Some (FormatExtension _ _) \<Rightarrow> False)"

definition part_admitted :: "part \<Rightarrow> bool" where
  "part_admitted p \<longleftrightarrow>
     ext_fields (part_extensions p) = fmempty \<and>
     (case part_kind p of PartExtension _ \<Rightarrow> False | _ \<Rightarrow> True) \<and>
     (case part_annotations p of Some a \<Rightarrow> a = [] | None \<Rightarrow> True)"

definition message_admitted :: "message \<Rightarrow> ir_error + unit" where
  "message_admitted m =
     (if \<not> fmpred (\<lambda>key v. key = ''phase'' \<and> valid_phase v) (ext_fields (msg_extensions m)) then Err UnsupportedExtension
      else if msg_status m \<in> {Some tool_call_status.InProgress, Some StatusIncomplete} then Err InvalidEventOrder
      else case msg_content m of
        ContentParts parts \<Rightarrow> if list_all part_admitted parts then Ok () else Err UnsupportedExtension
      | ContentText _ \<Rightarrow> Ok ())"

fun item_admitted :: "serde \<Rightarrow> bool \<Rightarrow> item \<Rightarrow> ir_error + unit" where
  "item_admitted sj code_mode_results (ItemMessage m) = message_admitted m"
| "item_admitted sj code_mode_results (ItemToolCall c) =
     (if ext_fields (tc_extensions c) = fmempty then Ok () else Err UnsupportedExtension)"
| "item_admitted sj code_mode_results (ItemToolResult r) =
     (if ext_fields (tr_extensions r) = fmempty \<and>
         (is_string (tr_output r) \<or> code_mode_results \<and> is_ok (code_mode_result sj (tr_output r)))
      then Ok () else Err UnsupportedExtension)"
| "item_admitted sj code_mode_results (ItemReasoning r) =
     (if ext_fields (ri_extensions r) = fmempty \<and> ri_opaque r = None \<and>
         (case ri_summary r of Some ps \<Rightarrow> list_all (\<lambda>p. ext_fields (part_extensions p) = fmempty) ps | None \<Rightarrow> True)
      then Ok () else Err UnsupportedExtension)"
| "item_admitted sj code_mode_results (ItemExtension _ _) = Err UnsupportedExtension"

definition validate_request :: "serde \<Rightarrow> request_ir \<Rightarrow> bool \<Rightarrow> ir_error + unit" where
  "validate_request sj r code_mode_results =
     (if \<not> list_all hint_ok (sorted_list_of_fmap (ext_fields (req_extensions r))) then Err UnsupportedExtension
      else if (case go_output (req_generation r) of Some out \<Rightarrow> \<not> format_admitted out | None \<Rightarrow> False) then Err UnsupportedExtension
      else if (case go_reasoning (req_generation r) of Some o' \<Rightarrow> ext_fields (ro_extensions o') \<noteq> fmempty | None \<Rightarrow> False)
      then Err UnsupportedExtension
      else case req_input r of
        Some (ItemsInput items) \<Rightarrow> each (item_admitted sj code_mode_results) items
      | _ \<Rightarrow> Ok ())"

definition lower_item ::
  "wire_env \<Rightarrow> custom_tool_bridge \<Rightarrow> (call_id, tool_call) fmap \<times> item list \<Rightarrow> item \<Rightarrow>
     ir_error + (call_id, tool_call) fmap \<times> item list" where
  "lower_item E registry = (\<lambda>(calls, out) item.
     case item of
       ItemToolCall c \<Rightarrow>
         and_then (lower_call (we_serde E) (we_lower E) registry c) (\<lambda>c'. Ok (fmupd (tc_call_id c) c calls, out @ [ItemToolCall c']))
     | ItemToolResult r \<Rightarrow>
         and_then (ok_or (fmlookup calls (tr_call_id r)) InvalidToolMapping) (\<lambda>c.
         and_then (lower_result (we_serde E) (we_lower E) registry r c) (\<lambda>r'. Ok (calls, out @ [ItemToolResult r'])))
     | _ \<Rightarrow> Ok (calls, out @ [item]))"

definition lower_request_input :: "wire_env \<Rightarrow> custom_tool_bridge \<Rightarrow> input option \<Rightarrow> ir_error + input option" where
  "lower_request_input E registry input =
     (case input of
        Some (ItemsInput items) \<Rightarrow>
          and_then (fold_result (lower_item E registry) (fmempty, []) items) (\<lambda>(_, out). Ok (Some (ItemsInput out)))
      | _ \<Rightarrow> Ok input)"

definition lower_tool_choice :: "custom_tool_bridge \<Rightarrow> tool_choice option \<Rightarrow> ir_error + tool_choice option" where
  "lower_tool_choice registry choice =
     (case choice of None \<Rightarrow> Ok None | Some c \<Rightarrow> and_then (lower_choice registry c) (\<lambda>c'. Ok (Some c')))"

definition lower_request :: "wire_env \<Rightarrow> custom_tool_bridge \<Rightarrow> request_ir \<Rightarrow> ir_error + request_ir" where
  "lower_request E registry r =
     and_then (lower_tool_choice registry (go_tool_choice (req_generation r))) (\<lambda>choice.
     and_then (lower_request_input E registry (req_input r)) (\<lambda>input.
       Ok (r\<lparr>req_tools := (if req_tools r = None then None else Some (br_definitions registry)),
         req_generation := (req_generation r)\<lparr>go_tool_choice := choice\<rparr>, req_input := input\<rparr>)))"

definition echo_keys :: "string list" where
  "echo_keys = [''tools'', ''tool_choice'', ''parallel_tool_calls'']"

definition sent_echoes :: "json \<Rightarrow> json" where
  "sent_echoes payload =
     obj (concat (map (\<lambda>k. case jget payload k of Some v \<Rightarrow> [(k, v)] | None \<Rightarrow> []) echo_keys))"

definition responses_encode_admitted :: "wire_env \<Rightarrow> request_ir \<Rightarrow> translation_plan \<Rightarrow> ir_error + prepared_responses" where
  "responses_encode_admitted E r plan =
     (if req_source r \<noteq> Responses \<or> rs_api (tp_route plan) \<noteq> Responses then Err WrongProtocol
      else
        and_then (validate_request (we_serde E) r (CodeModeTextParts \<in> set (tp_bridges plan))) (\<lambda>_.
        and_then (for_plan (we_serde E) (we_sha256 E) r (rs_capabilities (tp_route plan)) (tp_editing plan) True) (\<lambda>registry.
        and_then (encode (json_document (we_serde E)) None r) (\<lambda>original.
        and_then (lower_request E registry r) (\<lambda>lowered.
        and_then (encode (json_document (we_serde E)) None lowered) (\<lambda>payload.
          Ok \<lparr>prs_payload = payload, prs_original = original, prs_echoes = sent_echoes payload,
              prs_tools = prepared_tools_new registry r, prs_profile = rs_capabilities (tp_route plan),
              prs_model = rs_model (tp_route plan), prs_preserve_item_order = False\<rparr>))))))"

definition responses_encode :: "wire_env \<Rightarrow> request_ir \<Rightarrow> continuity_binding \<Rightarrow> ir_error + prepared_responses" where
  "responses_encode E r target =
     and_then (plan_translation (we_serde E) (we_sha256 E) (we_lower E) r target) (responses_encode_admitted E r)"

section \<open>Progress events of other adapters\<close>

definition created_progress_ok :: "json \<Rightarrow> ir_error + unit" where
  "created_progress_ok response =
     and_then (known_fields response [''id'', ''object'', ''status'', ''output'']) (\<lambda>_.
     and_then (json_string response ''id'') (\<lambda>i.
     and_then (response_id_new i) (\<lambda>_.
       if json_index response ''object'' \<noteq> JString ''response'' \<or> json_index response ''status'' \<noteq> JString ''in_progress'' \<or>
          json_index response ''output'' \<noteq> JArray []
       then Err InvalidEventOrder else Ok ())))"

definition shows_reasoning :: "json \<Rightarrow> bool" where
  "shows_reasoning event \<longleftrightarrow>
     json_index (json_index event ''item'') ''type'' = JString ''reasoning'' \<or>
     (case as_str (json_index event ''type'') of Some k \<Rightarrow> starts_with ''response.reasoning_'' k | None \<Rightarrow> False)"

definition verify_event :: "prepared_responses \<Rightarrow> json \<Rightarrow> ir_error + unit" where
  "verify_event p event =
     and_then (if json_index event ''type'' = JString ''response.created''
         then created_progress_ok (json_index event ''response'') else Ok ()) (\<lambda>_.
       if shows_reasoning event \<and> support_of (prs_profile p) ReasoningItems \<noteq> Native then Err UnsupportedFeature else Ok ())"

definition verify_progress :: "prepared_responses \<Rightarrow> json list \<Rightarrow> ir_error + unit" where
  "verify_progress p events = each (verify_event p) events"

section \<open>The head of a response\<close>

definition header_fields :: "string list" where
  "header_fields = [''id'', ''object'', ''created_at'', ''completed_at'', ''status'', ''model'', ''output'', ''usage'', ''error'',
     ''incomplete_details'', ''instructions'', ''tools'', ''tool_choice'', ''parallel_tool_calls'', ''max_output_tokens'',
     ''temperature'', ''top_p'', ''text'', ''reasoning'', ''metadata'', ''store'', ''background'', ''previous_response_id'',
     ''conversation'', ''max_tool_calls'', ''prompt_cache_key'', ''service_tier'', ''truncation'', ''user'', ''safety_identifier'',
     ''output_text'', ''top_logprobs'']"

definition details_ok :: "string \<Rightarrow> json \<Rightarrow> ir_error + unit" where
  "details_ok status v =
     (if \<not> present v ''incomplete_details'' then Ok ()
      else
        let details = json_index v ''incomplete_details'' in
        and_then (known_fields details [''reason'']) (\<lambda>_.
        if status \<noteq> ''incomplete'' then Err UnsupportedFeature else
        and_then (json_string details ''reason'') (\<lambda>reason.
          if reason \<notin> {''max_output_tokens'', ''content_filter''} then Err UnsupportedFeature else Ok ())))"

definition stateless_response :: "json \<Rightarrow> bool" where
  "stateless_response v \<longleftrightarrow>
     as_u64 (json_index v ''created_at'') \<noteq> None \<and>
     list_all (\<lambda>k. \<not> present v k \<or> jget v k = Some (JBool False)) [''store'', ''background''] \<and>
     list_all (\<lambda>k. \<not> present v k) [''previous_response_id'', ''conversation'']"

definition response_header :: "prepared_responses \<Rightarrow> json \<Rightarrow> ir_error + unit" where
  "response_header p v =
     and_then (known_fields v header_fields) (\<lambda>_.
     and_then (json_string v ''id'') (\<lambda>i.
     and_then (response_id_new i) (\<lambda>_.
     and_then (json_string v ''status'') (\<lambda>status.
     if status \<notin> {''in_progress'', ''completed'', ''incomplete'', ''failed''} \<or> status \<noteq> ''failed'' \<and> present v ''error''
     then Err InvalidEventOrder else
     and_then (details_ok status v) (\<lambda>_.
     and_then (json_string v ''object'') (\<lambda>kind.
     if kind \<noteq> ''response'' then Err UnsupportedFeature else
     and_then (json_string v ''model'') (\<lambda>model.
       if model \<noteq> prs_model p \<or> \<not> stateless_response v then Err UnsupportedFeature else Ok ())))))))"

definition echo_ok :: "prepared_responses \<Rightarrow> string \<Rightarrow> json \<Rightarrow> bool" where
  "echo_ok p key echo =
     (case jget (prs_echoes p) key of
        Some sent \<Rightarrow> sent = echo
      | None \<Rightarrow>
          if key = ''tools'' then echo = JArray []
          else if key = ''tool_choice'' then echo \<in> {JString ''auto'', JString ''none''}
          else echo = JBool True)"

definition restore_echo :: "prepared_responses \<Rightarrow> json \<Rightarrow> string \<Rightarrow> ir_error + json" where
  "restore_echo p v key =
     (case jget v key of
        None \<Rightarrow> Ok v
      | Some echo \<Rightarrow>
          if \<not> is_null echo \<and> \<not> echo_ok p key echo then Err InvalidToolMapping
          else Ok (case jget (prs_original p) key of Some original \<Rightarrow> set_field v key original | None \<Rightarrow> v))"

definition restore_echoes :: "prepared_responses \<Rightarrow> json \<Rightarrow> ir_error + json" where
  "restore_echoes p v = fold_result (restore_echo p) v echo_keys"

section \<open>Items\<close>

definition value_identity :: "json \<Rightarrow> ir_error + tool_identity" where
  "value_identity v =
     and_then (case jget v ''namespace'' of
         None \<Rightarrow> Ok None
       | Some ns \<Rightarrow> and_then (ok_or (as_str ns) InvalidToolMapping) (\<lambda>s. Ok (Some s))) (\<lambda>ns.
     and_then (json_string v ''name'') (\<lambda>name. tool_identity_new ns name))"

definition is_tool_value :: "json \<Rightarrow> bool" where
  "is_tool_value v \<longleftrightarrow> as_str (json_index v ''type'') \<in> {Some ''function_call'', Some ''custom_tool_call''}"

definition is_custom_value :: "json \<Rightarrow> bool" where
  "is_custom_value v \<longleftrightarrow> json_index v ''type'' = JString ''custom_tool_call''"

definition input_field :: "bool \<Rightarrow> string" where
  "input_field custom = (if custom then ''input'' else ''arguments'')"

definition response_terminal :: "string \<Rightarrow> ir_error + terminal" where
  "response_terminal status =
     (if status = ''completed'' then Ok terminal.Completed
      else if status = ''incomplete'' then Ok terminal.Incomplete
      else if status = ''failed'' then Ok terminal.Failed
      else Err InvalidEventOrder)"

definition empty_list_at :: "json \<Rightarrow> string \<Rightarrow> bool" where
  "empty_list_at v k = (case jget v k of Some x \<Rightarrow> as_array x = Some [] | None \<Rightarrow> True)"

definition validate_output_part :: "json \<Rightarrow> bool \<Rightarrow> ir_error + unit" where
  "validate_output_part part reasoning =
     and_then (known_fields part (if reasoning then [''type'', ''text''] else [''type'', ''text'', ''annotations'', ''logprobs''])) (\<lambda>_.
     if json_index part ''type'' \<noteq> JString (if reasoning then ''summary_text'' else ''output_text'') \<or>
        \<not> empty_list_at part ''annotations'' \<or> present part ''logprobs'' \<and> \<not> empty_list_at part ''logprobs''
     then Err UnsupportedFeature
     else and_then (json_string part ''text'') (\<lambda>_. Ok ()))"

definition restore_tool_item ::
  "wire_env \<Rightarrow> item_id \<Rightarrow> prepared_responses \<Rightarrow> json \<Rightarrow> ir_error + json \<times> prepared_responses" where
  "restore_tool_item E item p v =
     (let custom = is_custom_value v in
      and_then (known_fields v [''id'', ''type'', ''call_id'', ''name'', ''namespace'', ''arguments'', ''input'', ''status'']) (\<lambda>_.
      and_then (json_string v ''status'') (\<lambda>status.
      if status \<noteq> ''completed'' then Err InvalidEventOrder else
      and_then (if custom then Ok ()
          else and_then (json_string v ''arguments'') (\<lambda>a. and_then (json_decode (we_parse E) a) (\<lambda>_. Ok ()))) (\<lambda>_.
      if jget v (input_field (\<not> custom)) \<noteq> None then Err InvalidToolMapping else
      and_then (value_identity v) (\<lambda>identity.
      and_then (resolve_identity (prs_tools p) identity) (\<lambda>_.
      and_then (json_string v ''call_id'') (\<lambda>raw_id.
      and_then (call_id_new raw_id) (\<lambda>cid.
      and_then (json_string v (input_field custom)) (\<lambda>t.
        case restore_call (we_serde E) (we_lower E) (pt_registry (prs_tools p))
            \<lparr>tc_status = Some StatusCompleted, tc_item_id = Some item, tc_call_id = cid, tc_tool = identity,
             tc_input = (if custom then Freeform t else Json t), tc_extensions = responses_extensions\<rparr> of
          (Inl e, _) \<Rightarrow> Err e
        | (Inr c, registry) \<Rightarrow>
            Ok (tool_output c ''completed'', p\<lparr>prs_tools := (prs_tools p)\<lparr>pt_registry := registry\<rparr>\<rparr>))))))))))"

definition message_item_ok :: "json \<Rightarrow> ir_error + unit" where
  "message_item_ok v =
     and_then (known_fields v [''id'', ''type'', ''role'', ''status'', ''content'', ''phase'']) (\<lambda>_.
     if (case jget v ''phase'' of Some x \<Rightarrow> \<not> valid_phase x | None \<Rightarrow> False) then Err UnsupportedFeature
     else if json_index v ''role'' \<noteq> JString ''assistant'' \<or>
        as_str (json_index v ''status'') \<notin> {Some ''completed'', Some ''incomplete''} then Err InvalidEventOrder
     else
       and_then (ok_or (as_array (json_index v ''content'')) (InvalidField ''content'')) (each (\<lambda>part. validate_output_part part False)))"

definition reasoning_item_ok :: "prepared_responses \<Rightarrow> json \<Rightarrow> ir_error + unit" where
  "reasoning_item_ok p v =
     (if support_of (prs_profile p) ReasoningItems \<noteq> Native then Err UnsupportedFeature
      else
        and_then (known_fields v [''id'', ''type'', ''status'', ''summary'', ''encrypted_content'']) (\<lambda>_.
        if present v ''encrypted_content'' \<or>
           (case jget v ''status'' of Some x \<Rightarrow> as_str x \<notin> {Some ''completed'', Some ''incomplete''} | None \<Rightarrow> False)
        then Err UnsupportedFeature
        else
          and_then (ok_or (as_array (json_index v ''summary'')) (InvalidField ''summary'')) (each (\<lambda>part. validate_output_part part True))))"

definition restore_item :: "wire_env \<Rightarrow> prepared_responses \<Rightarrow> json \<Rightarrow> ir_error + json \<times> prepared_responses" where
  "restore_item E p v =
     and_then (json_string v ''id'') (\<lambda>i.
     and_then (item_id_new i) (\<lambda>item.
     and_then (json_string v ''type'') (\<lambda>kind.
       if kind \<in> {''function_call'', ''custom_tool_call''} then restore_tool_item E item p v
       else if kind = ''message'' then and_then (message_item_ok v) (\<lambda>_. Ok (v, p))
       else if kind = ''reasoning'' then and_then (reasoning_item_ok p v) (\<lambda>_. Ok (v, p))
       else Err UnsupportedFeature)))"

definition complete_kind :: "json \<Rightarrow> ir_error + output_kind" where
  "complete_kind v =
     (let kind = as_str (json_index v ''type'') in
      if kind = Some ''message'' then Ok Message
      else if kind = Some ''reasoning'' then Ok Reasoning
      else if is_tool_value v then
        and_then (value_identity v) (\<lambda>tool.
        and_then (json_string v ''call_id'') (\<lambda>raw_id.
        and_then (call_id_new raw_id) (\<lambda>cid.
          Ok (Tool tool cid (if is_custom_value v then CustomKind else FunctionKind)))))
      else Err UnsupportedFeature)"

definition u32_index :: "nat \<Rightarrow> ir_error + 32 word" where
  "u32_index n = (if n < 2 ^ 32 then Ok (of_nat n) else Err SizeLimit)"

definition complete_part ::
  "serde \<Rightarrow> item_id \<Rightarrow> bool \<Rightarrow> event_validator \<Rightarrow> nat \<times> json \<Rightarrow> ir_error + event_validator" where
  "complete_part sj item reasoning validator = (\<lambda>(i, part).
     and_then (u32_index i) (\<lambda>index.
     and_then (apply_ok sj validator (PartStarted item index (if reasoning then ReasoningText else Text))) (\<lambda>validator.
     and_then (json_string part ''text'') (\<lambda>t.
       apply_all sj validator (map (TextDelta item index) (event_text_chunks t) @ [PartFinished item index])))))"

definition validate_complete_item :: "serde \<Rightarrow> event_validator \<Rightarrow> json \<Rightarrow> nat \<Rightarrow> ir_error + event_validator" where
  "validate_complete_item sj validator v i =
     and_then (json_string v ''id'') (\<lambda>raw_id.
     and_then (item_id_new raw_id) (\<lambda>item.
     and_then (complete_kind v) (\<lambda>kind.
     and_then (u32_index i) (\<lambda>index.
     and_then (apply_ok sj validator (ItemStarted item index kind)) (\<lambda>validator.
     and_then (if is_tool_value v then
         and_then (json_string v (input_field (is_custom_value v))) (\<lambda>t.
           apply_all sj validator (map (ArgumentsDelta item) (event_text_chunks t)))
       else
         let reasoning = (json_index v ''type'' = JString ''reasoning'') in
         and_then (ok_or (as_array (json_index v (if reasoning then ''summary'' else ''content''))) (InvalidField ''content'')) (\<lambda>parts.
           fold_result (complete_part sj item reasoning) validator (enumerate 0 parts))) (\<lambda>validator.
       apply_ok sj validator (ItemFinished item)))))))"

section \<open>Whole responses\<close>

record restoring =
  re_validator :: event_validator
  re_output :: "json list"
  re_count :: nat
  re_prepared :: prepared_responses

definition restore_output ::
  "wire_env \<Rightarrow> terminal \<Rightarrow> restoring \<Rightarrow> nat \<times> json \<Rightarrow> ir_error + restoring" where
  "restore_output E terminal st = (\<lambda>(i, v).
     and_then (restore_item E (re_prepared st) v) (\<lambda>(restored, p).
     if terminal = terminal.Completed \<and> json_index restored ''status'' = JString ''incomplete'' then Err InvalidEventOrder
     else if is_tool_value restored \<and> terminal \<noteq> terminal.Completed then Err InvalidEventOrder
     else
       and_then (validate_complete_item (we_serde E) (re_validator st) restored i) (\<lambda>validator.
         Ok \<lparr>re_validator = validator, re_output = re_output st @ [restored],
           re_count = re_count st + (if is_tool_value restored then 1 else 0), re_prepared = p\<rparr>)))"

definition reported_usage :: "json \<Rightarrow> canonical_usage" where
  "reported_usage v =
     (let a = accumulator_new ResponsesV1 in
      ac_usage (if present v ''usage'' then snd (observe a (json_index v ''usage'')) else a))"

definition message_parts :: "json \<Rightarrow> json list" where
  "message_parts v =
     (if json_index v ''type'' = JString ''message''
      then (case as_array (json_index v ''content'') of Some parts \<Rightarrow> parts | None \<Rightarrow> []) else [])"

definition text_echo_ok :: "json \<Rightarrow> json list \<Rightarrow> ir_error + unit" where
  "text_echo_ok v outs =
     (if \<not> present v ''output_text'' then Ok ()
      else and_then (traverse (\<lambda>part. json_string part ''text'') (concat (map message_parts outs))) (\<lambda>texts.
        if json_index v ''output_text'' \<noteq> JString (concat texts) then Err InvalidEventOrder else Ok ()))"

definition upstream_failure :: json where
  "upstream_failure = obj [(''code'', JString ''upstream_error''), (''message'', JString ''The upstream response failed'')]"

definition responses_decode_value ::
  "wire_env \<Rightarrow> prepared_responses \<Rightarrow> json \<Rightarrow> ir_error + json \<times> prepared_responses" where
  "responses_decode_value E p v =
     and_then (response_header p v) (\<lambda>_.
     and_then (json_string v ''status'') (\<lambda>status.
     and_then (response_terminal status) (\<lambda>terminal.
     and_then (ok_or (as_array (json_index v ''output'')) (InvalidField ''output'')) (\<lambda>items.
     and_then (event_validator_new default_limits) (\<lambda>validator.
     and_then (json_string v ''id'') (\<lambda>i.
     and_then (response_id_new i) (\<lambda>rid.
     and_then (apply_ok (we_serde E) validator (Started rid)) (\<lambda>validator.
     and_then (fold_result (restore_output E terminal)
         \<lparr>re_validator = validator, re_output = [], re_count = 0, re_prepared = p\<rparr> (enumerate 0 items)) (\<lambda>st.
     and_then (validate_count (prs_tools p) (re_count st) (terminal = terminal.Completed)) (\<lambda>_.
     if cu_violations (reported_usage v) \<noteq> [] then Err (InvalidField ''usage'') else
     and_then (apply_ok (we_serde E) (re_validator st) (Finished terminal None)) (\<lambda>_.
     and_then (text_echo_ok v (re_output st)) (\<lambda>_.
     and_then (restore_echoes p (set_field v ''output'' (JArray (re_output st)))) (\<lambda>v'.
       Ok (if terminal = terminal.Failed then set_field v' ''error'' upstream_failure else v', re_prepared st))))))))))))))"

definition responses_decode_bytes ::
  "wire_env \<Rightarrow> prepared_responses \<Rightarrow> string \<Rightarrow> ir_error + json \<times> prepared_responses" where
  "responses_decode_bytes E p bytes = and_then (json_decode (we_parse E) bytes) (responses_decode_value E p)"
section \<open>What is sent\<close>

text \<open>The items of the lowered history, one by one.\<close>

fun lowered_as :: "wire_env \<Rightarrow> custom_tool_bridge \<Rightarrow> tool_call set \<Rightarrow> item \<Rightarrow> item \<Rightarrow> bool" where
  "lowered_as E registry calls (ItemToolCall c) x \<longleftrightarrow>
     (\<exists>c'. lower_call (we_serde E) (we_lower E) registry c = Ok c' \<and> x = ItemToolCall c')"
| "lowered_as E registry calls (ItemToolResult r) x \<longleftrightarrow>
     (\<exists>c \<in> calls. \<exists>r'. tc_call_id c = tr_call_id r \<and> lower_result (we_serde E) (we_lower E) registry r c = Ok r' \<and>
        x = ItemToolResult r')"
| "lowered_as E registry calls item x \<longleftrightarrow> x = item"

lemma lower_items_as:
  assumes "fold_result (lower_item E registry) (calls, out) items = Ok (calls', out')"
    and "\<And>i c. fmlookup calls i = Some c \<Longrightarrow> c \<in> known \<and> tc_call_id c = i" and "\<And>c. ItemToolCall c \<in> set items \<Longrightarrow> c \<in> known"
  shows "\<exists>xs. out' = out @ xs \<and> list_all2 (lowered_as E registry known) items xs"
  using assms
proof (induction items arbitrary: calls out)
  case (Cons item items)
  then obtain calls1 out1 where s: "lower_item E registry (calls, out) item = Ok (calls1, out1)"
      "fold_result (lower_item E registry) (calls1, out1) items = Ok (calls', out')" by auto
  have "\<exists>x. out1 = out @ [x] \<and> lowered_as E registry known item x \<and>
      (\<forall>i c. fmlookup calls1 i = Some c \<longrightarrow> c \<in> known \<and> tc_call_id c = i)"
    using s(1) Cons.prems(2,3) by (cases item) (auto simp: lower_item_def split: if_splits)
  then obtain x where x: "out1 = out @ [x]" "lowered_as E registry known item x"
      "\<And>i c. fmlookup calls1 i = Some c \<Longrightarrow> c \<in> known \<and> tc_call_id c = i"
    by blast
  from Cons.IH [OF s(2) x(3)] Cons.prems(3) obtain xs where "out' = out1 @ xs" "list_all2 (lowered_as E registry known) items xs"
    by auto
  with x show ?case by auto
qed simp

text \<open>Two documents that are written alike but for some fields.\<close>

definition agree :: "string set \<Rightarrow> fields \<Rightarrow> fields \<Rightarrow> bool" where
  "agree ks m m' \<longleftrightarrow> (\<forall>k. k \<notin> ks \<longrightarrow> fmlookup m k = fmlookup m' k)"

lemma agree_put:
  assumes "put m k v = Ok n" and "put m' k v' = Ok n'" and "agree ks m m'" and "v = v' \<or> k \<in> ks"
  shows "agree ks n n'"
  using assms by (auto simp: put_def agree_def split: if_splits)

lemma agree_optional: "optional m k x = Ok n \<Longrightarrow> optional m' k x = Ok n' \<Longrightarrow> agree ks m m' \<Longrightarrow> agree ks n n'"
  by (auto simp: optional_def split: option.splits intro: agree_put)

lemma agree_put_as: "put_as f m k x = Ok n \<Longrightarrow> put_as f m' k x = Ok n' \<Longrightarrow> agree ks m m' \<Longrightarrow> agree ks n n'"
  by (auto simp: put_as_def split: option.splits intro: agree_put)

lemma agree_put_other:
  assumes "put_as f m k x = Ok n" and "put_as f m' k x' = Ok n'" and "agree ks m m'" and "k \<in> ks"
  shows "agree ks n n'"
  using assms by (auto simp: put_as_def put_def agree_def split: option.splits if_splits)

lemma put_keeps:
  assumes "put m k v = Ok n" and "fmlookup m j = Some w"
  shows "fmlookup n j = Some w"
  using assms by (auto simp: put_def split: if_splits)

lemma encode_generation_agree:
  assumes "encode_generation g m = Ok n" and "encode_generation (g\<lparr>go_tool_choice := c\<rparr>) m' = Ok n'" and "agree ks m m'"
    and "''tool_choice'' \<in> ks"
  shows "agree ks n n'"
proof -
  from assms(1) obtain m1 m2 m3 m4 m5 m6 m7 where a: "optional m ''stream'' (map_option JBool (go_stream g)) = Ok m1"
    "optional m1 ''max_output_tokens'' (map_option json_u64 (go_max_output_tokens g)) = Ok m2"
    "optional m2 ''temperature'' (map_option JNumber (go_temperature g)) = Ok m3"
    "optional m3 ''top_p'' (map_option JNumber (go_top_p g)) = Ok m4"
    "optional m4 ''parallel_tool_calls'' (map_option JBool (go_parallel_tool_calls g)) = Ok m5"
    "put_as encode_choice m5 ''tool_choice'' (go_tool_choice g) = Ok m6" "put_as encode_output m6 ''text'' (go_output g) = Ok m7"
    "put_as encode_reasoning_options m7 ''reasoning'' (go_reasoning g) = Ok n"
    by (auto simp: encode_generation_def)
  from assms(2) obtain n1 n2 n3 n4 n5 n6 n7 where b: "optional m' ''stream'' (map_option JBool (go_stream g)) = Ok n1"
    "optional n1 ''max_output_tokens'' (map_option json_u64 (go_max_output_tokens g)) = Ok n2"
    "optional n2 ''temperature'' (map_option JNumber (go_temperature g)) = Ok n3"
    "optional n3 ''top_p'' (map_option JNumber (go_top_p g)) = Ok n4"
    "optional n4 ''parallel_tool_calls'' (map_option JBool (go_parallel_tool_calls g)) = Ok n5"
    "put_as encode_choice n5 ''tool_choice'' c = Ok n6" "put_as encode_output n6 ''text'' (go_output g) = Ok n7"
    "put_as encode_reasoning_options n7 ''reasoning'' (go_reasoning g) = Ok n'"
    by (auto simp: encode_generation_def)
  from agree_optional [OF a(1) b(1) assms(3)] have "agree ks m1 n1" .
  from agree_optional [OF a(2) b(2) this] have "agree ks m2 n2" .
  from agree_optional [OF a(3) b(3) this] have "agree ks m3 n3" .
  from agree_optional [OF a(4) b(4) this] have "agree ks m4 n4" .
  from agree_optional [OF a(5) b(5) this] have "agree ks m5 n5" .
  from agree_put_other [OF a(6) b(6) this assms(4)] have "agree ks m6 n6" .
  from agree_put_as [OF a(7) b(7) this] have "agree ks m7 n7" .
  from agree_put_as [OF a(8) b(8) this] show ?thesis .
qed

lemma normalized_fields:
  assumes "map_err h (normalize_stateless (JObject m)) = Ok (m', model, stream)"
  shows "m' = fmupd ''store'' (JBool False) m"
  using assms normalize_stateless_Ok [of "JObject m" m' model stream]
  by (auto simp: normalize_stateless_def split: if_splits option.splits)

lemma encode_agree:
  assumes "encode ok None r = Ok v"
    and "encode ok None (r\<lparr>req_tools := ts, req_generation := (req_generation r)\<lparr>go_tool_choice := c\<rparr>, req_input := input\<rparr>) = Ok v'"
    and "k \<notin> {''input'', ''tools'', ''tool_choice''}"
  shows "jget v' k = jget v k"
proof -
  let ?ks = "{''input'', ''tools'', ''tool_choice''}"
  from assms(1) obtain m0 m1 m2 m3 m4 m5 m6 model stream where a: "fields_of (req_extensions r) = Ok m0"
    "put m0 ''model'' (JString (req_model r)) = Ok m1" "optional m1 ''instructions'' (map_option JString (req_instructions r)) = Ok m2"
    "put_as (encode_input None) m2 ''input'' (req_input r) = Ok m3" "put_as encode_tools m3 ''tools'' (req_tools r) = Ok m4"
    "encode_generation (req_generation r) m4 = Ok m5"
    "map_err (\<lambda>_. UnsupportedFeature) (normalize_stateless (JObject m5)) = Ok (m6, model, stream)" "v = JObject m6"
    by (auto simp: encode_def split: if_splits)
  from assms(2) obtain n0 n1 n2 n3 n4 n5 n6 model' stream' where b: "fields_of (req_extensions r) = Ok n0"
    "put n0 ''model'' (JString (req_model r)) = Ok n1" "optional n1 ''instructions'' (map_option JString (req_instructions r)) = Ok n2"
    "put_as (encode_input None) n2 ''input'' input = Ok n3" "put_as encode_tools n3 ''tools'' ts = Ok n4"
    "encode_generation ((req_generation r)\<lparr>go_tool_choice := c\<rparr>) n4 = Ok n5"
    "map_err (\<lambda>_. UnsupportedFeature) (normalize_stateless (JObject n5)) = Ok (n6, model', stream')" "v' = JObject n6"
    by (auto simp: encode_def split: if_splits)
  have "agree ?ks m2 n2" using a(1-3) b(1-3) agree_optional [of m1 _ _ m2 n1 n2] by (simp add: agree_def)
  then have "agree ?ks m3 n3" by (rule agree_put_other [OF a(4) b(4)]) simp
  then have "agree ?ks m4 n4" by (rule agree_put_other [OF a(5) b(5)]) simp
  then have "agree ?ks m5 n5" by (rule encode_generation_agree [OF a(6) b(6)]) simp
  then show ?thesis
    using normalized_fields [OF a(7)] normalized_fields [OF b(7)] a(8) b(8) assms(3) by (auto simp: agree_def)
qed
lemma optional_keeps: "optional m k x = Ok n \<Longrightarrow> fmlookup m j = Some w \<Longrightarrow> fmlookup n j = Some w"
  by (auto simp: optional_def split: option.splits dest: put_keeps)

lemma put_as_keeps: "put_as f m k x = Ok n \<Longrightarrow> fmlookup m j = Some w \<Longrightarrow> fmlookup n j = Some w"
  by (auto simp: put_as_def split: option.splits dest: put_keeps)

lemma encode_generation_keeps:
  assumes "encode_generation g m = Ok n" and "fmlookup m j = Some w"
  shows "fmlookup n j = Some w"
  using assms unfolding encode_generation_def and_then_eq_Inr
  by (elim exE conjE) (drule (1) optional_keeps put_as_keeps)+

lemma encode_input_field:
  assumes "encode ok None r = Ok v" and "req_input r = Some i"
  shows "\<exists>x. encode_input None i = Ok x \<and> jget v ''input'' = Some x"
proof -
  from assms obtain m2 m3 m4 m5 m6 model stream where a:
    "put_as (encode_input None) m2 ''input'' (Some i) = Ok m3" "put_as encode_tools m3 ''tools'' (req_tools r) = Ok m4"
    "encode_generation (req_generation r) m4 = Ok m5"
    "map_err (\<lambda>_. UnsupportedFeature) (normalize_stateless (JObject m5)) = Ok (m6, model, stream)" "v = JObject m6"
    by (auto simp: encode_def split: if_splits)
  from a(1) obtain x where x: "encode_input None i = Ok x" "fmlookup m3 ''input'' = Some x"
    by (auto simp: put_as_def put_def split: if_splits)
  from encode_generation_keeps [OF a(3) put_as_keeps [OF a(2) x(2)]] normalized_fields [OF a(4)] a(5) x(1)
  show ?thesis by simp
qed

text \<open>C29. What is sent to a Responses provider is the document of the client with its tools lowered and nothing else
  changed: outside of the tools, the tool choice and the input the two documents agree, and the input is the
  encoding of a history in which every call and every result was lowered in its place and every other item was kept.\<close>

theorem responses_payload_faithful:
  assumes "responses_encode_admitted E r plan = Ok p" and "req_input r = Some (ItemsInput items)"
  shows "\<exists>registry lowered v.
    for_plan (we_serde E) (we_sha256 E) r (rs_capabilities (tp_route plan)) (tp_editing plan) True = Ok registry \<and>
    list_all2 (lowered_as E registry (calls_in items)) items lowered \<and>
    encode_input None (ItemsInput lowered) = Ok v \<and> jget (prs_payload p) ''input'' = Some v \<and>
    encode (json_document (we_serde E)) None r = Ok (prs_original p) \<and>
    (\<forall>k. k \<notin> {''input'', ''tools'', ''tool_choice''} \<longrightarrow> jget (prs_payload p) k = jget (prs_original p) k)"
proof -
  let ?ok = "json_document (we_serde E)"
  from assms(1) obtain registry original r' payload where s:
    "for_plan (we_serde E) (we_sha256 E) r (rs_capabilities (tp_route plan)) (tp_editing plan) True = Ok registry"
    "encode ?ok None r = Ok original" "lower_request E registry r = Ok r'" "encode ?ok None r' = Ok payload"
    "prs_payload p = payload" "prs_original p = original"
    by (auto simp: responses_encode_admitted_def split: if_splits)
  from s(3) assms(2) obtain c calls lowered where l: "fold_result (lower_item E registry) (fmempty, []) items = Ok (calls, lowered)"
    "r' = r\<lparr>req_tools := (if req_tools r = None then None else Some (br_definitions registry)),
       req_generation := (req_generation r)\<lparr>go_tool_choice := c\<rparr>, req_input := Some (ItemsInput lowered)\<rparr>"
    by (auto simp: lower_request_def lower_request_input_def)
  have "list_all2 (lowered_as E registry (calls_in items)) items lowered"
    using lower_items_as [OF l(1), of "calls_in items"] by (auto simp: calls_in_def)
  moreover obtain v where "encode_input None (ItemsInput lowered) = Ok v" "jget payload ''input'' = Some v"
    using encode_input_field [OF s(4)] l(2) by auto
  moreover have "\<forall>k. k \<notin> {''input'', ''tools'', ''tool_choice''} \<longrightarrow> jget payload k = jget original k"
    using encode_agree [OF s(2) s(4) [unfolded l(2)]] by blast
  ultimately show ?thesis using s(1,2) unfolding s(5,6) by blast
qed

section \<open>What comes back\<close>

text \<open>The tool call a wire item describes.\<close>

definition wire_call :: "json \<Rightarrow> tool_call \<Rightarrow> bool" where
  "wire_call v l \<longleftrightarrow>
     str_at v ''id'' = map_option item_id_str (tc_item_id l) \<and> str_at v ''call_id'' = Some (call_id_str (tc_call_id l)) \<and>
     value_identity v = Ok (tc_tool l) \<and>
     tc_input l = (if is_custom_value v then Freeform else Json) (case str_at v (input_field (is_custom_value v)) of Some t \<Rightarrow> t | None \<Rightarrow> [])"

definition restored_as :: "wire_env \<Rightarrow> prepared_tools \<Rightarrow> json \<Rightarrow> json \<Rightarrow> bool" where
  "restored_as E tools v out \<longleftrightarrow>
     (if is_tool_value v then
        \<exists>n l c. wire_call v l \<and> is_ok (resolve_identity tools (tc_tool l)) \<and>
          fst (restore_call (we_serde E) (we_lower E) ((pt_registry tools)\<lparr>br_normalized := n\<rparr>) l) = Ok c \<and>
          out = tool_output c ''completed''
      else out = v)"

lemma resolve_identity_same: "same_tools p p' \<Longrightarrow> resolve_identity p' t = resolve_identity p t"
  by (auto simp: same_tools_def resolve_identity_def original_of_def)

lemma restored_as_same: "same_tools p p' \<Longrightarrow> restored_as E p' v out \<Longrightarrow> restored_as E p v out"
proof -
  assume same: "same_tools p p'" and r: "restored_as E p' v out"
  from same obtain n where "pt_registry p' = (pt_registry p)\<lparr>br_normalized := n\<rparr>" by (auto simp: same_tools_def)
  with r show ?thesis by (auto simp: restored_as_def resolve_identity_same [OF same] split: if_splits)
qed

lemma item_id_new_text: "item_id_new s = Ok i \<Longrightarrow> item_id_str i = s"
  by auto

lemma tool_value_type: "is_tool_value v \<longleftrightarrow> str_at v ''type'' \<in> {Some ''function_call'', Some ''custom_tool_call''}"
  by (auto simp: is_tool_value_def json_index_def str_at_def split: option.splits)

lemma case_restored:
  "(case rc of (Inl e, _) \<Rightarrow> Err e | (Inr c, g) \<Rightarrow> Ok (f c g)) = Ok x \<longleftrightarrow> (\<exists>c g. rc = (Ok c, g) \<and> x = f c g)"
  by (cases rc) (auto split: sum.splits)

lemma restore_tool_item_as:
  assumes "restore_tool_item E item p v = Ok (out, p')" and "str_at v ''id'' = Some (item_id_str item)" and "is_tool_value v"
  shows "restored_as E (prs_tools p) v out \<and> is_tool_value out \<and> same_tools (prs_tools p) (prs_tools p') \<and>
    p' = p\<lparr>prs_tools := prs_tools p'\<rparr>"
proof -
  let ?custom = "is_custom_value v"
  from assms(1) obtain identity kind raw cid t c registry where s: "value_identity v = Ok identity"
      "resolve_identity (prs_tools p) identity = Ok kind" "str_at v ''call_id'' = Some raw" "call_id_new raw = Ok cid"
      "str_at v (input_field ?custom) = Some t"
      "restore_call (we_serde E) (we_lower E) (pt_registry (prs_tools p))
         \<lparr>tc_status = Some StatusCompleted, tc_item_id = Some item, tc_call_id = cid, tc_tool = identity,
          tc_input = (if ?custom then Freeform t else Json t), tc_extensions = responses_extensions\<rparr> = (Ok c, registry)"
      "out = tool_output c ''completed''" "p' = p\<lparr>prs_tools := (prs_tools p)\<lparr>pt_registry := registry\<rparr>\<rparr>"
    by (cases ?custom) (auto simp: restore_tool_item_def Let_def json_string_def case_restored split: if_splits)
  let ?l = "\<lparr>tc_status = Some StatusCompleted, tc_item_id = Some item, tc_call_id = cid, tc_tool = identity,
      tc_input = (if ?custom then Freeform t else Json t), tc_extensions = responses_extensions\<rparr>"
  have "wire_call v ?l" using s(1,3-5) assms(2) by (simp add: wire_call_def call_id_new_text)
  moreover have "fst (restore_call (we_serde E) (we_lower E) ((pt_registry (prs_tools p))\<lparr>br_normalized := br_normalized (pt_registry (prs_tools p))\<rparr>) ?l) = Ok c"
    using s(6) by simp
  ultimately have "restored_as E (prs_tools p) v out"
    using s(2,7) assms(3) unfolding restored_as_def by (metis is_ok_iff tool_call.select_convs(4))
  moreover have "same_tools (prs_tools p) (prs_tools p')"
    using restore_call_registry [of "we_serde E" "we_lower E" "pt_registry (prs_tools p)" ?l] s(6,8) by (auto simp: same_tools_def)
  ultimately show ?thesis using s(7,8) by (simp add: tool_value_type tool_output_fields split: tool_input.split)
qed

lemma restore_item_as:
  assumes "restore_item E p v = Ok (out, p')"
  shows "restored_as E (prs_tools p) v out \<and> is_tool_value out = is_tool_value v \<and> same_tools (prs_tools p) (prs_tools p') \<and>
    p' = p\<lparr>prs_tools := prs_tools p'\<rparr>"
proof -
  from assms obtain i item kind where s: "str_at v ''id'' = Some i" "item_id_new i = Ok item" "str_at v ''type'' = Some kind"
    "(if kind \<in> {''function_call'', ''custom_tool_call''} then restore_tool_item E item p v
      else if kind = ''message'' then and_then (message_item_ok v) (\<lambda>_. Ok (v, p))
      else if kind = ''reasoning'' then and_then (reasoning_item_ok p v) (\<lambda>_. Ok (v, p))
      else Err UnsupportedFeature) = Ok (out, p')"
    by (auto simp: restore_item_def json_string_def)
  show ?thesis
  proof (cases "is_tool_value v")
    case True
    with s(3,4) have "restore_tool_item E item p v = Ok (out, p')" by (auto simp: tool_value_type)
    from restore_tool_item_as [OF this] True s(1,2) show ?thesis by (simp add: item_id_new_text)
  next
    case False
    with s(3,4) have "out = v" "p' = p" by (auto simp: tool_value_type split: if_splits)
    with False show ?thesis by (simp add: restored_as_def)
  qed
qed
lemma restore_outputs_as:
  assumes "fold_result (restore_output E terminal) st xs = Ok st'" and "same_tools tools (prs_tools (re_prepared st))"
  shows "\<exists>outs. re_output st' = re_output st @ outs \<and> list_all2 (restored_as E tools) (map snd xs) outs \<and>
    same_tools tools (prs_tools (re_prepared st')) \<and> re_prepared st' = (re_prepared st)\<lparr>prs_tools := prs_tools (re_prepared st')\<rparr> \<and>
    (terminal \<noteq> terminal.Completed \<longrightarrow> (\<forall>x \<in> set outs. \<not> is_tool_value x))"
  using assms
proof (induction xs arbitrary: st)
  case (Cons x xs)
  obtain i v where x: "x = (i, v)" by (cases x)
  with Cons.prems(1) obtain st1 where s: "restore_output E terminal st (i, v) = Ok st1"
      "fold_result (restore_output E terminal) st1 xs = Ok st'" by auto
  from s(1) obtain out p1 where o: "restore_item E (re_prepared st) v = Ok (out, p1)" "re_output st1 = re_output st @ [out]"
      "re_prepared st1 = p1" "is_tool_value out \<longrightarrow> terminal = terminal.Completed"
    by (auto simp: restore_output_def split: if_splits)
  note item = restore_item_as [OF o(1)]
  have same: "same_tools tools (prs_tools (re_prepared st1))" using item o(3) Cons.prems(2) same_tools_trans by blast
  have p1: "re_prepared st1 = (re_prepared st)\<lparr>prs_tools := prs_tools (re_prepared st1)\<rparr>" using item o(3) by simp
  from Cons.IH [OF s(2) same] obtain outs where "re_output st' = re_output st1 @ outs" "list_all2 (restored_as E tools) (map snd xs) outs"
      "same_tools tools (prs_tools (re_prepared st'))" "re_prepared st' = (re_prepared st1)\<lparr>prs_tools := prs_tools (re_prepared st')\<rparr>"
      "terminal \<noteq> terminal.Completed \<longrightarrow> (\<forall>x \<in> set outs. \<not> is_tool_value x)" by blast
  moreover have "(re_prepared st1)\<lparr>prs_tools := t\<rparr> = (re_prepared st)\<lparr>prs_tools := t\<rparr>" for t by (subst p1) simp
  ultimately show ?case
    using o(2,4) item x restored_as_same [OF Cons.prems(2)] by (intro exI [of _ "out # outs"]) auto
qed simp

text \<open>An echo of the request in a response, as the client knows it.\<close>

definition client_echo :: "prepared_responses \<Rightarrow> json \<Rightarrow> string \<Rightarrow> json option" where
  "client_echo p v k =
     (case jget v k of
        None \<Rightarrow> None
      | Some echo \<Rightarrow> Some (case jget (prs_original p) k of Some original \<Rightarrow> original | None \<Rightarrow> echo))"

lemma restore_echo_Ok:
  assumes "restore_echo p v key = Ok v'" and "is_object v"
  shows "is_object v' \<and> jget v' key = client_echo p v key \<and> (\<forall>k. k \<noteq> key \<longrightarrow> jget v' k = jget v k)"
  using assms
  by (auto simp: restore_echo_def client_echo_def jget_set_same jget_set_field split: option.splits if_splits)

lemma restore_echoes_Ok:
  assumes "restore_echoes p v = Ok v'" and "is_object v"
  shows "is_object v' \<and> (\<forall>k \<in> set echo_keys. jget v' k = client_echo p v k) \<and> (\<forall>k. k \<notin> set echo_keys \<longrightarrow> jget v' k = jget v k)"
proof -
  from assms(1) obtain v1 v2 where s: "restore_echo p v ''tools'' = Ok v1" "restore_echo p v1 ''tool_choice'' = Ok v2"
    "restore_echo p v2 ''parallel_tool_calls'' = Ok v'"
    by (auto simp: restore_echoes_def echo_keys_def)
  note 1 = restore_echo_Ok [OF s(1) assms(2)]
  note 2 = restore_echo_Ok [OF s(2) conjunct1 [OF 1]]
  note 3 = restore_echo_Ok [OF s(3) conjunct1 [OF 2]]
  have echo: "client_echo p w k = client_echo p v k" if "jget w k = jget v k" for w k using that by (simp add: client_echo_def)
  show ?thesis using 1 2 3 echo [of v1 "''tool_choice''"] echo [of v2 "''parallel_tool_calls''"] by (auto simp: echo_keys_def)
qed

lemma responses_decode_shows:
  assumes "responses_decode_value E p v = Ok (v', p')"
  shows "\<exists>items outs. jget v ''output'' = Some (JArray items) \<and> jget v' ''output'' = Some (JArray outs) \<and>
    list_all2 (restored_as E (prs_tools p)) items outs \<and>
    (str_at v ''status'' \<noteq> Some ''completed'' \<longrightarrow> (\<forall>x \<in> set outs. \<not> is_tool_value x)) \<and>
    (\<forall>k \<in> set echo_keys. jget v' k = client_echo p v k) \<and>
    (\<forall>k. k \<notin> set echo_keys \<and> k \<noteq> ''output'' \<and> (k \<noteq> ''error'' \<or> str_at v ''status'' \<noteq> Some ''failed'') \<longrightarrow> jget v' k = jget v k) \<and>
    same_tools (prs_tools p) (prs_tools p') \<and> p' = p\<lparr>prs_tools := prs_tools p'\<rparr>"
proof -
  from assms obtain status terminal items validator st v1 where s: "str_at v ''status'' = Some status"
      "response_terminal status = Ok terminal" "as_array (json_index v ''output'') = Some items"
      "fold_result (restore_output E terminal) \<lparr>re_validator = validator, re_output = [], re_count = 0, re_prepared = p\<rparr>
         (enumerate 0 items) = Ok st"
      "restore_echoes p (set_field v ''output'' (JArray (re_output st))) = Ok v1"
      "v' = (if terminal = terminal.Failed then set_field v1 ''error'' upstream_failure else v1)" "p' = re_prepared st"
    unfolding responses_decode_value_def by (auto simp: json_string_def split: if_splits)
  have out: "jget v ''output'' = Some (JArray items)" using s(3) by (cases "jget v ''output''") (auto simp: json_index_def)
  then have v: "is_object v" by (cases v) simp_all
  have snd: "map snd (enumerate n xs) = xs" for n :: nat and xs :: "json list" by (simp add: enumerate_eq_zip)
  from restore_outputs_as [OF s(4), of "prs_tools p"] obtain outs where o: "re_output st = outs"
      "list_all2 (restored_as E (prs_tools p)) items outs" "same_tools (prs_tools p) (prs_tools p')" "p' = p\<lparr>prs_tools := prs_tools p'\<rparr>"
      "terminal \<noteq> terminal.Completed \<longrightarrow> (\<forall>x \<in> set outs. \<not> is_tool_value x)"
    using s(7) by (auto simp: snd)
  have ends: "terminal = terminal.Completed \<longleftrightarrow> status = ''completed''" "terminal = terminal.Failed \<longleftrightarrow> status = ''failed''"
    using s(2) by (auto simp: response_terminal_def split: if_splits)
  have "is_object (set_field v ''output'' (JArray outs))" using v by simp
  note e = restore_echoes_Ok [OF s(5) [unfolded o(1)] this]
  have keys: "''output'' \<notin> set echo_keys" "''error'' \<notin> set echo_keys" by (simp_all add: echo_keys_def)
  have echo: "client_echo p (set_field v ''output'' (JArray outs)) k = client_echo p v k" if "k \<in> set echo_keys" for k
  proof -
    have "k \<noteq> ''output''" using that keys by blast
    then show ?thesis by (simp add: client_echo_def jget_set_field)
  qed
  have v': "jget v' k = (if k = ''error'' \<and> status = ''failed'' then Some upstream_failure else jget v1 k)" for k
    using s(6) ends(2) e by (auto simp: jget_set_same jget_set_field)
  have "jget v' ''output'' = Some (JArray outs)" using v' e keys v by (simp add: jget_set_same)
  moreover have "\<forall>k \<in> set echo_keys. jget v' k = client_echo p v k" using v' e keys echo by metis
  moreover have "jget v' k = jget v k"
    if "k \<notin> set echo_keys \<and> k \<noteq> ''output'' \<and> (k \<noteq> ''error'' \<or> str_at v ''status'' \<noteq> Some ''failed'')" for k
    using that v' e s(1) by (auto simp: jget_set_field)
  ultimately show ?thesis using out o(2-5) ends(1) s(1) by auto
qed

text \<open>C28. An answer of a Responses provider reaches the client as it came, but for what the gateway lowered: every message
  and reasoning item is unchanged and in its place, every tool call is the restoration of the call the provider
  made, calls appear only in a completed response, the echoed tools, tool choice and parallelism are the ones the client
  sent, and every other field keeps its value (but for the error of a failed response, which is replaced).\<close>

theorem responses_answer_restored:
  assumes "responses_decode_bytes E p bytes = Ok (v', p')"
  shows "\<exists>v items outs. json_decode (we_parse E) bytes = Ok v \<and>
    jget v ''output'' = Some (JArray items) \<and> jget v' ''output'' = Some (JArray outs) \<and>
    list_all2 (restored_as E (prs_tools p)) items outs \<and>
    (str_at v ''status'' \<noteq> Some ''completed'' \<longrightarrow> (\<forall>x \<in> set outs. \<not> is_tool_value x)) \<and>
    (\<forall>k \<in> set echo_keys. jget v' k = client_echo p v k) \<and>
    (\<forall>k. k \<notin> set echo_keys \<and> k \<noteq> ''output'' \<and> (k \<noteq> ''error'' \<or> str_at v ''status'' \<noteq> Some ''failed'') \<longrightarrow> jget v' k = jget v k)"
proof -
  from assms obtain v where v: "json_decode (we_parse E) bytes = Ok v" "responses_decode_value E p v = Ok (v', p')"
    by (auto simp: responses_decode_bytes_def)
  from responses_decode_shows [OF v(2)] v(1) show ?thesis by blast
qed
section \<open>A worked request and answer\<close>

definition demo_route_profile :: capability_profile where
  "demo_route_profile = \<lparr>cp_reasoning_contract = None, cp_id = ''p'', cp_version = ''1'', cp_protocol = Responses,
     cp_support = fmap_of_list [(FunctionTools, Native), (CustomTools, Native)]\<rparr>"

definition demo_responses_plan :: translation_plan where
  "demo_responses_plan =
     \<lparr>tp_editing = None, tp_route = demo_route\<lparr>rs_api := Responses, rs_capabilities := demo_route_profile\<rparr>,
      tp_required = {FunctionTools, CustomTools}, tp_bridges = [], tp_retains_source_extensions = True\<rparr>"

lemma demo_responses_encode: "is_ok (responses_encode_admitted demo_wire_env demo_wire_request demo_responses_plan)"
  by code_simp

theorem responses_payload_faithful_witness:
  "\<exists>p lowered v. responses_encode_admitted demo_wire_env demo_wire_request demo_responses_plan = Ok p \<and>
     encode_input None (ItemsInput lowered) = Ok v \<and> jget (prs_payload p) ''input'' = Some v \<and> length lowered = 3 \<and>
     jget (prs_payload p) ''model'' = jget (prs_original p) ''model''"
proof -
  obtain p where p: "responses_encode_admitted demo_wire_env demo_wire_request demo_responses_plan = Ok p"
    using demo_responses_encode by (auto simp: is_ok_iff)
  have items: "req_input demo_wire_request = Some (ItemsInput demo_wire_items)" by (simp add: demo_wire_request_def)
  from responses_payload_faithful [OF p items] obtain registry lowered v where f:
    "list_all2 (lowered_as demo_wire_env registry (calls_in demo_wire_items)) demo_wire_items lowered"
    "encode_input None (ItemsInput lowered) = Ok v" "jget (prs_payload p) ''input'' = Some v"
    "jget (prs_payload p) ''model'' = jget (prs_original p) ''model''"
    by auto
  moreover have "length lowered = 3" using list_all2_lengthD [OF f(1)] by (simp add: demo_wire_items_def)
  ultimately show ?thesis using p by blast
qed

definition demo_answer_item :: raw_json where
  "demo_answer_item = RObject [(''id'', RString ''fc''), (''type'', RString ''function_call''), (''call_id'', RString ''c2''),
     (''name'', RString ''arg_custom_0''), (''arguments'', RString ''{}''), (''status'', RString ''completed'')]"

definition demo_answer_parse :: "string \<Rightarrow> raw_json option" where
  "demo_answer_parse s =
     (if s = ''d'' then Some (RObject [(''id'', RString ''r''), (''object'', RString ''response''), (''created_at'', RNumber ''1''),
        (''status'', RString ''completed''), (''model'', RString ''m''), (''output'', RArray [demo_answer_item])])
      else if s = ''{}'' then Some (RObject []) else None)"

definition demo_answer_env :: wire_env where "demo_answer_env = demo_wire_env\<lparr>we_parse := demo_answer_parse\<rparr>"

lemma demo_answer_decode:
  "is_ok (and_then (responses_encode_admitted demo_answer_env demo_wire_request demo_responses_plan) (\<lambda>p.
     responses_decode_bytes demo_answer_env p ''d''))"
  by code_simp
lemma demo_answer_model: "json_decode (we_parse demo_answer_env) ''d'' = Ok v \<Longrightarrow> jget v ''model'' = Some (JString ''m'')"
  by (auto simp: json_decode_def demo_answer_env_def demo_answer_parse_def split: if_splits)

theorem responses_answer_restored_witness:
  "\<exists>p v' p' outs. responses_decode_bytes demo_answer_env p ''d'' = Ok (v', p') \<and> jget v' ''output'' = Some (JArray outs) \<and>
     jget v' ''model'' = Some (JString ''m'')"
proof -
  obtain p v' p' where d: "responses_decode_bytes demo_answer_env p ''d'' = Ok (v', p')"
    using demo_answer_decode by (auto simp: is_ok_iff)
  from responses_answer_restored [OF d] obtain v outs where f: "json_decode (we_parse demo_answer_env) ''d'' = Ok v"
    "jget v' ''output'' = Some (JArray outs)"
    "\<forall>k. k \<notin> set echo_keys \<and> k \<noteq> ''output'' \<and> (k \<noteq> ''error'' \<or> str_at v ''status'' \<noteq> Some ''failed'') \<longrightarrow> jget v' k = jget v k"
    by blast
  from f(3) demo_answer_model [OF f(1)] have "jget v' ''model'' = Some (JString ''m'')" by (simp add: echo_keys_def)
  with d f(2) show ?thesis by blast
qed

end
