(* ===== verification/Spec2Isabelle.thy ===== *)
theory Spec2Isabelle
  imports Ir_Event Capability Responses_Codec Usage_Attempt Continuation_Runtime Messages_Stream Managed_Adapter Responses_Adapter
begin

text \<open>
  A verification development for the core of \<open>agent-response-gateway\<close>, a proxy that accepts
  requests of the Responses API and serves them from providers that speak Responses, Messages,
  Chat Completions or Gemini Interactions. The gateway decodes a request into a neutral
  intermediate representation (IR), checks it, plans whether and how a route can carry every
  feature the request uses, lowers tools, calls and results for the provider, and checks the
  stream of output events on the way back. Adapters write the request in the form of one provider
  and read its answer, whole or streamed. It records the token usage of every attempt, and keeps
  sealed checkpoints of provider state for conversations that continue. This development models
  that core: the modules \<open>src/src/ir\<close>, \<open>src/src/editing\<close>, \<open>src/src/responses_policy.rs\<close>,
  \<open>src/src/adapters\<close> (all but the Responses stream), \<open>src/src/continuation\<close>, \<open>src/src/usage\<close>,
  \<open>src/src/provider_plugins/usage.rs\<close> and the crate \<open>src/crates/usage-contract\<close>.

  \<^bold>\<open>Parts and theories\<close>

  \<^item> \<open>Prelude\<close>: results, options, list traversals and scanning functions of the Rust
    standard library that the sources use; the interfaces \<open>codec\<close>, \<open>machine\<close> and
    \<open>transactional_machine\<close>.
  \<^item> \<open>Json\<close>: \<open>serde_json::Value\<close>, accessors and object maps.
  \<^item> \<open>Ir_Base\<close> (\<open>ir/mod.rs\<close>): protocols, errors, identifiers and tool identities with their
    derived order.
  \<^item> \<open>Ir_Event\<close> (\<open>ir/event.rs\<close>): \<open>EventValidator\<close>. \<open>apply_event\<close> is \<open>apply\<close>, one
    definition per arm (\<open>on_item_started\<close>, \<open>on_part_started\<close>, \<open>on_text_delta\<close>, \<dots>).
    Shown: failed steps leave no trace, an invariant on counters, limits and identities holds in
    every reachable state, a completed stream has only closed items with JSON arguments, the
    collected arguments are the accepted deltas, terminal states are final, usage is monotone.
  \<^item> \<open>Sse\<close> (\<open>adapters/sse.rs\<close> and the chunk loop of \<open>proxy.rs\<close>): \<open>SseDecoder\<close> as a machine
    over bytes. Shown: chunking is irrelevant, memory and events are bounded, written frames
    are read back.
  \<^item> \<open>Profile\<close> and \<open>Reasoning\<close> (\<open>ir/reasoning.rs\<close>, first half of \<open>ir/capability.rs\<close>):
    reasoning contracts, capability profiles, their validation, and the wire controls a
    contract produces for a request.
  \<^item> \<open>Continuity\<close> (\<open>ir/continuity.rs\<close>): route snapshots, bindings, opaque and provider state.
    Shown: state is released exactly to the binding and format it was created with.
  \<^item> \<open>Request\<close> (\<open>ir/request.rs\<close>): the request IR and \<open>RequestIR::validate\<close>. Shown: the history
    loop accepts exactly the well-paired histories, results answer earlier calls, tool
    identities are unambiguous.
  \<^item> \<open>Grammar\<close> (\<open>ir/grammar.rs\<close>): the registered grammars and the patch scanner, which accepts
    exactly the texts of a declarative grammar (the inductive predicate \<open>hunk\<close>).
  \<^item> \<open>Editing\<close> and \<open>Operations\<close> (\<open>editing/mod.rs\<close>, \<open>editing/operations.rs\<close>): context edits and
    operation bundles compile to patches and are read back from them; Code Mode programs and
    results round trip; envelope normalization is safe; bundles touch independent paths.
  \<^item> \<open>Bridge\<close> (\<open>ir/bridge.rs\<close>): \<open>CustomToolBridge\<close>. Its alias tables form an
    \<open>alias_registry\<close>. Shown: aliases are unique and lead back to declared tools; lowering a
    call or a result and restoring it gives the original.
  \<^item> \<open>Capability\<close> (second half of \<open>ir/capability.rs\<close>): \<open>requirements\<close> and
    \<open>plan_translation\<close>. Shown: the requirements are exactly the features of the request, and a
    plan covers all of them.
  \<^item> \<open>Responses_Codec\<close> (\<open>ir/responses.rs\<close>, \<open>responses_policy.rs\<close>): stateless admission,
    \<open>decode\<close> and \<open>encode\<close>. Shown: decoding and encoding again gives back the document of the
    client, decoding never merges two documents, admitted requests are stateless.
  \<^item> \<open>Hex\<close>, \<open>Replay\<close> (\<open>continuation/replay.rs\<close>, records and \<open>Protector\<close> of
    \<open>continuation/mod.rs\<close>): the three record versions, their validation and conversion to native
    state, sealed envelopes. Shown: a checkpoint that is made from native state and sealed is
    opened to the same record and the same native state.
  \<^item> \<open>Continuation_Store\<close> (\<open>continuation/sqlite.rs\<close>): the tables as finite maps, every operation
    of \<open>ContinuationStore\<close> as a transaction. The contract is \<open>session_protocol\<close>, a step relation
    on what a client sees of one session (\<open>session_view\<close>), and \<open>shows_session\<close> relates the tables
    to it. Shown: the tables stay consistent, every operation is a step of the protocol or changes
    nothing, an attempt in flight locks the session, finalized
    records never change, no request is attempted twice in an epoch.
  \<^item> \<open>Continuation_Runtime\<close> (\<open>Runtime\<close> and \<open>Configuration\<close> of \<open>continuation/mod.rs\<close>,
    \<open>continuation/control.rs\<close>): restore, finalize, start and the control routes over that store.
    Shown: what is restored was sealed for the session, what was finalized can be restored, the
    protection key and the control token are separate from all other secrets, only the host changes
    sessions through the routes, and with those routes it can always bring a session back once no
    attempt is in flight, which dropping the attempt or restarting the gateway brings about.
  \<^item> \<open>Usage_Contract\<close> (\<open>crates/usage-contract\<close>): counters, extraction from provider documents,
    normalization, accumulation over a stream, events and their validation. Shown: normalized
    usage obeys the arithmetic of its counters, and which accumulated usage can be recorded.
  \<^item> \<open>Usage_Provider\<close> (\<open>provider_plugins/usage.rs\<close>): the checks on counters that a provider
    plugin reports. Shown: whatever it reports, the result meets the contract of the recorder.
  \<^item> \<open>Usage_Attempt\<close> (\<open>usage/mod.rs\<close>, \<open>usage/provider.rs\<close>): the life of an attempt with its
    events. Shown: every attempt ends with exactly one terminal event, and exactly which events
    it sends are valid (all but those of the DeepSeek profile whose two cache counters disagree).
  \<^item> \<open>Accounting\<close> and \<open>Managed_Output\<close> (first part of \<open>adapters/managed.rs\<close>): the accounting of a
    managed turn and the typed output with the native state to keep.
  \<^item> \<open>Adapter_Tools\<close> (\<open>adapters/json.rs\<close>, \<open>adapters/toolset.rs\<close>): documents without duplicate
    fields, text cut into bounded deltas at character boundaries, the tools of one request.
  \<^item> \<open>History_Walk\<close>: the loop with which every encoder walks over the items of a request and the
    replayed segments (\<open>walk_items\<close>). The interface \<open>history_encoder\<close> asks of an encoder that each
    item appends what it says and keeps the open calls; from it follows, once, that the encoded
    history says what the items say, in order, and that every call is answered. \<open>replaying_encoder\<close>
    adds the laws of replayed provider state, and from it follows that a history with such state is
    told in order (\<open>tells\<close>). The first is interpreted by \<open>messages_history\<close> and \<open>chat_history\<close>,
    the second by \<open>gemini_history\<close>.
  \<^item> \<open>Wire_Stream\<close>: the interface \<open>wire_stream\<close> of a stream that projects provider events to
    numbered Responses events, and what follows for every run of it: no gap in the numbers, and
    the text of the final response is the text of the deltas. It is interpreted by \<open>msgs\<close>
    and \<open>chat_wire\<close>.
  \<^item> \<open>Messages_Adapter\<close>, \<open>Messages_Stream\<close>, \<open>Messages_Managed\<close> (\<open>adapters/messages.rs\<close>,
    \<open>messages/stream.rs\<close>, \<open>messages/managed_stream.rs\<close>), \<open>Chat_Adapter\<close>, \<open>Chat_Stream\<close>,
    \<open>Chat_Managed\<close> (\<open>adapters/chat.rs\<close> and \<open>chat/\<close>), \<open>Interactions_Adapter\<close>,
    \<open>Interactions_Stream\<close> (\<open>adapters/interactions.rs\<close> and \<open>interactions/stream.rs\<close>): for each
    provider the request payload with replayed native state, the decoding of a whole answer, the
    stream, and the assembly of a managed stream into an answer with its native state. Shown: the
    encoded history says exactly what the items say; a decoded answer shows each block, call and
    text of the provider once and in order; streamed text is the text of the final response;
    native state is kept as it came; admitted schemas make the matcher free of panics; the one
    expectation of the Chat encoder that depends on replayed messages (\<open>chat_failure\<close>) holds unless
    such a message carries tool calls that are no array.
  \<^item> \<open>Managed_Adapter\<close> (rest of \<open>adapters/managed.rs\<close>): the dispatch over the three managed
    providers and \<open>ManagedStream\<close>. Shown: an output awaits tools exactly if the response asks the
    client to run one, its usage is the canonical usage of the attempt, and a stream that failed
    once yields nothing more.
  \<^item> \<open>Responses_Adapter\<close> (\<open>adapters/responses.rs\<close>): the checked Responses route. Shown: what is sent agrees
    with the document of the client outside of its tools, tool choice and lowered input; what comes back
    keeps every item and field, with calls and echoes restored.

  \<^bold>\<open>How the parts interact\<close>

  \<open>decode\<close> builds a \<open>request_ir\<close> and calls \<open>request_validate\<close>; \<open>requirements\<close> validates
  it again and collects features; \<open>plan_translation_with_editing\<close> compares them with the
  profile of the route, builds the registry of \<open>Bridge\<close> (\<open>for_plan\<close>), lowers the calls of the
  history through it, and checks opaque state against the target binding of \<open>Continuity\<close>. The
  registry uses \<open>Grammar\<close> to validate freeform inputs and \<open>Editing\<close> / \<open>Operations\<close> to
  translate structured edits into patches. An adapter writes the payload for the provider with that
  registry and the verified history of \<open>Continuity\<close>. Provider bytes pass the decoder of \<open>Sse\<close>, become
  provider documents that an adapter decodes or projects to events, and the validator of
  \<open>Ir_Event\<close> accepts or refuses each of them. Usage reported in
  those events is accumulated by \<open>Usage_Contract\<close> and sent by the attempt of \<open>Usage_Attempt\<close>. A
  turn of a continued conversation begins an attempt in \<open>Continuation_Store\<close>, is sealed by
  \<open>Replay\<close> and finalized and restored by \<open>Continuation_Runtime\<close>.

  \<^bold>\<open>Conventions\<close>

  \<open>Result<T, E>\<close> is \<open>'e + 'a\<close>; an early return is a branch. A panic is a branch where input can
  reach it (\<open>Panicked\<close>); expectations about values the code has just built are lemmas instead
  (\<open>build_binds\<close>, \<open>build_definition_per_tool\<close>, \<open>tool_grammar_registered\<close> of \<open>Bridge\<close>). Strings are their UTF-8
  bytes, so lengths are byte lengths. Integers keep their width (\<open>u16\<close>, \<open>u32\<close>, \<open>u64\<close> are words)
  where the sources store them; \<open>usize\<close> counters that are bounded by the length of data in memory
  are natural numbers. \<open>BTreeMap\<close> is a finite map. Loops are structural recursion or functions
  with a measure (\<open>drain\<close>, \<open>count_hunks\<close>, \<open>read_operations\<close>, \<open>fresh_sequence\<close>); no definition
  needs fuel. The alias search \<open>fresh_sequence\<close> ends because each candidate that is taken is one
  of finitely many occupied names. Mutation of \<open>&mut self\<close> is explicit state passing; the mutex
  around the normalization log of the bridge is part of the state that is returned.

  \<^bold>\<open>Parameters\<close>

  Code outside the repository is an argument of the definitions that use it: \<open>json_ok\<close> (whether
  \<open>serde_json\<close> accepts a string), the record \<open>serde\<close> (the printing and parsing functions of
  \<open>serde_json\<close> for the types in question), \<open>sha256\<close> (\<open>ring\<close>), \<open>lower\<close> (Unicode
  \<open>to_lowercase\<close>), \<open>top_p_ok\<close> (whether a literal denotes a float in a range), \<open>integral\<close>
  (whether it denotes a whole float), and \<open>wire_env\<close>, which bundles those the adapters need with
  the parser of provider documents (\<open>we_parse\<close>). The clock is an argument (\<open>now\<close>, absent when it
  is before the epoch). Where a
  theorem depends on parsing back what was printed, that is a named hypothesis at the text in
  question (\<open>json_trip_ok\<close>, the equations on \<open>sj_parse_string\<close> and \<open>sj_parse_parts\<close>), and a
  witness shows it can be met. \<open>request_canon\<close> states which documents have a unique spelling: an
  item status is not an object, encrypted content is text, and the token limit is an integer
  literal. \<open>crypto\<close> holds authenticated encryption, base64, SHA-256 and the JSON text of records,
  \<open>event_serde\<close> the JSON text of usage events, \<open>delivery\<close> what clock, identifier source, channel
  and recorder do at one send. Random identifiers and nonces, the environment and the HMAC are
  arguments of the operations that use them.

  \<^bold>\<open>Not modelled\<close>

  Network, process and file system I/O (\<open>http.rs\<close>, \<open>main.rs\<close>, \<open>proxy.rs\<close> but for its chunk
  loop, \<open>proxy_managed.rs\<close>, the codec, provider and extension processes, the path checks of
  \<open>SqliteStore::open\<close>) has no pure content to verify. Left out for their size are the Responses
  stream (\<open>adapters/responses/stream.rs\<close>) and the choice of an adapter in
  \<open>adapters/mod.rs\<close>, most of configuration, routing, provider plugins and profile packs, and the
  management, team and usage recorder crates. The Responses stream would be one more
  interpretation of \<open>wire_stream\<close>.
\<close>

end
